(* ===== verification/Prelude.thy ===== *)
theory Prelude
  imports Main "HOL-Library.Code_Target_Nat"
begin

text \<open>
  What the components share: the exceptions the Python code raises, results and
  session-scoped transactions, the string and environment operations of the standard
  library the sources call, a table of rows with an integer primary key, and the
  transition systems whose invariants the components prove.

  Strings are lists of characters, read as the code points below 256; \<open>py_lower\<close>
  and \<open>py_strip\<close> follow Python's \<open>str.lower\<close> and \<open>str.strip\<close> on those.
  Instants (\<open>datetime.now(UTC)\<close>, \<open>time.time()\<close>) are integers that the caller
  passes in.
\<close>

named_theorems table_simps
named_theorems py_simps

section \<open>Exceptions and results\<close>

text \<open>
  An \<open>HTTPException\<close> is its status code and the machine-readable \<open>reason\<close> of its
  body.  The other constructors are the exceptions of the standard library, of
  SQLAlchemy and of redis-py that the modelled code raises or catches.
\<close>

datatype exn =
    HTTPException nat string
  | ValueError
  | KeyError
  | IntegrityError
  | MultipleResultsFound
  | DatabaseError
  | RedisError
  | WrongTypeError
  | CancelledError
  | RuntimeError
  | OverflowError
  | InvalidOperation
  | AttributeError
  | ExternalError

type_synonym 'a res = "exn + 'a"

text \<open>A stateful operation returns its result (or exception) and the state it leaves.\<close>

type_synonym ('s, 'a) op = "'s \<Rightarrow> 'a res \<times> 's"

text \<open>
  \<^verbatim>\<open>with _session() as session: ...; session.commit()\<close>.  The body runs on the committed
  state; an exception (of the body, or of the connection, when \<open>up\<close> is false) leaves
  the committed state as it was.
\<close>

definition with_session :: "bool \<Rightarrow> ('s, 'a) op \<Rightarrow> ('s, 'a) op" where
  "with_session up body s =
     (if \<not> up then (Inl DatabaseError, s)
      else case body s of
        (Inl e, _) \<Rightarrow> (Inl e, s)
      | (Inr a, s') \<Rightarrow> (Inr a, s'))"

text \<open>\<^verbatim>\<open>try: ... except Exception: return d\<close> around such a block.\<close>

definition quiet :: "'a \<Rightarrow> 'a res \<times> 's \<Rightarrow> 'a \<times> 's" where
  "quiet d r = (case r of (Inl _, s) \<Rightarrow> (d, s) | (Inr a, s) \<Rightarrow> (a, s))"

lemma with_session_down [simp]: "with_session False body s = (Inl DatabaseError, s)"
  by (simp add: with_session_def)

lemma with_session_up:
  "with_session True body s =
     (case body s of (Inl e, _) \<Rightarrow> (Inl e, s) | (Inr a, s') \<Rightarrow> (Inr a, s'))"
  by (simp add: with_session_def)

lemma with_session_Inr:
  "with_session up body s = (Inr a, s') \<longleftrightarrow> up \<and> body s = (Inr a, s')"
  by (auto simp: with_session_def split: prod.splits sum.splits)

lemma with_session_Inl_state: "with_session up body s = (Inl e, s') \<Longrightarrow> s' = s"
  by (auto simp: with_session_def split: prod.splits sum.splits if_splits)

lemma with_session_keeps:
  assumes "I s" and "\<And>a t. body s = (Inr a, t) \<Longrightarrow> I t"
  shows "I (snd (with_session up body s))"
  using assms by (auto simp: with_session_def split: prod.splits sum.splits)

lemma snd_quiet [simp]: "snd (quiet d r) = snd r"
  by (auto simp: quiet_def split: prod.splits sum.splits)

lemma quiet_simps [simp]:
  "quiet d (Inl e, s) = (d, s)" "quiet d (Inr a, s) = (a, s)"
  by (simp_all add: quiet_def)

section \<open>Strings\<close>

definition ord_of :: "char \<Rightarrow> nat" where
  "ord_of c = of_char c"

definition py_space :: "char \<Rightarrow> bool" where
  "py_space c \<longleftrightarrow>
     (let n = ord_of c in (9 \<le> n \<and> n \<le> 13) \<or> (28 \<le> n \<and> n \<le> 32) \<or> n = 133 \<or> n = 160)"

definition lower_char :: "char \<Rightarrow> char" where
  "lower_char c =
     (let n = ord_of c
      in if (65 \<le> n \<and> n \<le> 90) \<or> (192 \<le> n \<and> n \<le> 222 \<and> n \<noteq> 215)
         then char_of (n + 32) else c)"

definition py_lower :: "string \<Rightarrow> string" where
  "py_lower s = map lower_char s"

definition py_strip :: "string \<Rightarrow> string" where
  "py_strip s = rev (dropWhile py_space (rev (dropWhile py_space s)))"

text \<open>\<^verbatim>\<open>s.split(sep)\<close> with a single character.\<close>

fun split_on :: "char \<Rightarrow> string \<Rightarrow> string list" where
  "split_on sep [] = [[]]"
| "split_on sep (c # cs) =
     (if c = sep then [] # split_on sep cs
      else (case split_on sep cs of [] \<Rightarrow> [[c]] | p # ps \<Rightarrow> (c # p) # ps))"

text \<open>\<^verbatim>\<open>sep.join(parts)\<close>.\<close>

fun join_with :: "string \<Rightarrow> string list \<Rightarrow> string" where
  "join_with sep [] = []"
| "join_with sep [p] = p"
| "join_with sep (p # ps) = p @ sep @ join_with sep ps"

text \<open>\<^verbatim>\<open>sub in s\<close>.\<close>

definition contains :: "string \<Rightarrow> string \<Rightarrow> bool" where
  "contains sub s \<longleftrightarrow> list_ex (\<lambda>i. take (length sub) (drop i s) = sub) [0..<Suc (length s)]"

text \<open>Truth of an optional string: neither \<open>None\<close> nor empty.\<close>

definition truthy :: "string option \<Rightarrow> bool" where
  "truthy x \<longleftrightarrow> (case x of None \<Rightarrow> False | Some s \<Rightarrow> s \<noteq> [])"

definition or_empty :: "string option \<Rightarrow> string" where
  "or_empty x = (case x of None \<Rightarrow> [] | Some s \<Rightarrow> s)"

lemma truthy_simps [simp]:
  "\<not> truthy None" "truthy (Some s) \<longleftrightarrow> s \<noteq> []"
  by (simp_all add: truthy_def)

lemma or_empty_simps [simp]: "or_empty None = []" "or_empty (Some s) = s"
  by (simp_all add: or_empty_def)

lemma py_lower_Nil [simp]: "py_lower [] = []"
  by (simp add: py_lower_def)

lemma py_lower_eq_Nil [simp]: "py_lower s = [] \<longleftrightarrow> s = []"
  by (simp add: py_lower_def)

lemma py_strip_Nil [simp]: "py_strip [] = []"
  by (simp add: py_strip_def)

subsection \<open>Reading an integer from the environment\<close>

text \<open>
  \<open>int(raw)\<close> on a string: surrounding white space is dropped, a sign is allowed, then
  decimal digits in which single underscores may separate digits; anything else raises
  \<open>ValueError\<close>.
\<close>

definition digit_val :: "char \<Rightarrow> nat option" where
  "digit_val c = (let n = ord_of c in if 48 \<le> n \<and> n \<le> 57 then Some (n - 48) else None)"

fun digits_from :: "nat \<Rightarrow> bool \<Rightarrow> string \<Rightarrow> nat option" where
  "digits_from acc after_digit [] = (if after_digit then Some acc else None)"
| "digits_from acc after_digit (c # cs) =
     (if c = CHR ''_'' then (if after_digit then digits_from acc False cs else None)
      else case digit_val c of
        None \<Rightarrow> None
      | Some d \<Rightarrow> digits_from (10 * acc + d) True cs)"

definition py_int :: "string \<Rightarrow> int option" where
  "py_int raw =
     (case py_strip raw of
        [] \<Rightarrow> None
      | c # cs \<Rightarrow>
          if c = CHR ''-'' then map_option (\<lambda>n. - int n) (digits_from 0 False cs)
          else if c = CHR ''+'' then map_option int (digits_from 0 False cs)
          else map_option int (digits_from 0 False (c # cs)))"

text \<open>The process environment: \<open>os.getenv(name)\<close>.\<close>

type_synonym environ = "string \<Rightarrow> string option"

definition getenv :: "environ \<Rightarrow> string \<Rightarrow> string \<Rightarrow> string" where
  "getenv env name d = (case env name of None \<Rightarrow> d | Some v \<Rightarrow> v)"

text \<open>
  The idiom the configuration readers share: parse the variable as an integer, use the
  default when it is unset or not an integer.
\<close>

definition env_int :: "environ \<Rightarrow> string \<Rightarrow> int \<Rightarrow> int" where
  "env_int env name d =
     (case env name of
        None \<Rightarrow> d
      | Some raw \<Rightarrow> (case py_int raw of None \<Rightarrow> d | Some n \<Rightarrow> n))"

subsection \<open>Printing numbers\<close>

definition digit_char :: "nat \<Rightarrow> char" where
  "digit_char d = char_of (48 + d)"

fun nat_to_string :: "nat \<Rightarrow> string" where
  "nat_to_string n =
     (if n < 10 then [digit_char n] else nat_to_string (n div 10) @ [digit_char (n mod 10)])"

declare nat_to_string.simps [simp del]

text \<open>\<^verbatim>\<open>str(n)\<close> of an integer.\<close>

definition show_int :: "int \<Rightarrow> string" where
  "show_int n = (if n < 0 then ''-'' @ nat_to_string (nat (- n)) else nat_to_string (nat n))"

text \<open>
  Formatting a decimal \<open>n / 10 ^ k\<close> with \<open>p\<close> digits after the point (\<open>p \<le> k\<close>), the way
  \<^verbatim>\<open>f"{value:.pf}"\<close> does for a \<open>Decimal\<close>: the quotient is rounded half to even, the sign of
  the value is kept even when it rounds to zero.
\<close>

definition round_half_even :: "nat \<Rightarrow> nat \<Rightarrow> nat" where
  "round_half_even n d =
     (let q = n div d; r = n mod d
      in if 2 * r < d then q
         else if 2 * r > d then Suc q
         else if even q then q else Suc q)"

definition pad_left :: "nat \<Rightarrow> string \<Rightarrow> string" where
  "pad_left w s = replicate (w - length s) (CHR ''0'') @ s"

definition format_fixed :: "bool \<Rightarrow> nat \<Rightarrow> nat \<Rightarrow> nat \<Rightarrow> string" where
  "format_fixed neg n k p =
     (let m = round_half_even n (10 ^ (k - p))
      in (if neg then ''-'' else []) @ nat_to_string (m div 10 ^ p) @ ''.'' @
         pad_left p (nat_to_string (m mod 10 ^ p)))"

lemma digit_chars:
  "list_all (\<lambda>d. digit_val (digit_char d) = Some d \<and> (digit_char d = CHR ''0'' \<longleftrightarrow> d = 0) \<and>
     digit_char d \<notin> {CHR ''.'', CHR ''/''} \<and> \<not> py_space (digit_char d)) [0..<10]"
  by code_simp

lemma digit_char:
  assumes "d < 10"
  shows "digit_val (digit_char d) = Some d" "digit_char d = CHR ''0'' \<longleftrightarrow> d = 0"
    "digit_char d \<noteq> CHR ''.''" "digit_char d \<noteq> CHR ''/''" "\<not> py_space (digit_char d)"
  using digit_chars assms by (auto simp: list_all_iff)

lemma nat_to_string_chars:
  "c \<in> set (nat_to_string n) \<Longrightarrow> \<exists>d<10. c = digit_char d"
proof (induction n rule: nat_to_string.induct)
  case (1 n)
  show ?case
  proof (cases "n < 10")
    case True
    with 1 show ?thesis by (auto simp: nat_to_string.simps)
  next
    case False
    have "n mod 10 < 10" by simp
    moreover have "c \<in> set (nat_to_string (n div 10)) \<or> c = digit_char (n mod 10)"
      using 1(2) False by (subst (asm) nat_to_string.simps) auto
    ultimately show ?thesis using 1 False by blast
  qed
qed

lemma nat_to_string_nonempty [simp]: "nat_to_string n \<noteq> []"
  by (subst nat_to_string.simps) simp

lemma nat_to_string_hd: "hd (nat_to_string n) = CHR ''0'' \<longleftrightarrow> n = 0"
proof (induction n rule: nat_to_string.induct)
  case (1 n)
  show ?case
    using 1 by (subst nat_to_string.simps) (auto simp: digit_char)
qed

lemma nat_to_string_length: "n < 10 ^ k \<Longrightarrow> 0 < k \<Longrightarrow> length (nat_to_string n) \<le> k"
proof (induction k arbitrary: n)
  case (Suc k)
  show ?case
  proof (cases "n < 10")
    case True
    then show ?thesis by (simp add: nat_to_string.simps)
  next
    case False
    then have "0 < k" using Suc.prems(1) by (cases k) auto
    moreover have "n div 10 < 10 ^ k" using Suc.prems(1) by (simp add: less_mult_imp_div_less mult.commute)
    ultimately have "length (nat_to_string (n div 10)) \<le> k" using Suc.IH by simp
    with False show ?thesis by (subst nat_to_string.simps) simp
  qed
qed simp

lemma py_strip_id: "(\<And>c. c \<in> set s \<Longrightarrow> \<not> py_space c) \<Longrightarrow> py_strip s = s"
proof -
  assume a: "\<And>c. c \<in> set s \<Longrightarrow> \<not> py_space c"
  have "dropWhile py_space t = t" if "set t \<subseteq> set s" for t
    using a that by (cases t) auto
  then show ?thesis by (simp add: py_strip_def)
qed

section \<open>Tables with an integer primary key\<close>

text \<open>
  A table is its rows in insertion order and the next value of the autoincrement key.
  \<open>key\<close> reads the primary key of a row.
\<close>

record 'r table =
  rows :: "'r list"
  next_id :: nat

definition empty_table :: "'r table" where
  "empty_table = \<lparr>rows = [], next_id = 1\<rparr>"

definition get_row :: "('r \<Rightarrow> nat) \<Rightarrow> 'r table \<Rightarrow> nat \<Rightarrow> 'r option" where
  "get_row key t i = find (\<lambda>r. key r = i) (rows t)"

definition update_row :: "('r \<Rightarrow> nat) \<Rightarrow> nat \<Rightarrow> ('r \<Rightarrow> 'r) \<Rightarrow> 'r table \<Rightarrow> 'r table" where
  "update_row key i f t = t\<lparr>rows := map (\<lambda>r. if key r = i then f r else r) (rows t)\<rparr>"

definition insert_row :: "'r \<Rightarrow> 'r table \<Rightarrow> 'r table" where
  "insert_row r t = t\<lparr>rows := rows t @ [r], next_id := Suc (next_id t)\<rparr>"

text \<open>
  \<^verbatim>\<open>session.query(...).filter(p).one_or_none()\<close>: the single row that satisfies the
  filter, \<open>None\<close> if there is none, an exception if there are several.
\<close>

definition one_or_none :: "('r \<Rightarrow> bool) \<Rightarrow> 'r table \<Rightarrow> 'r option res" where
  "one_or_none p t =
     (case filter p (rows t) of
        [] \<Rightarrow> Inr None
      | [r] \<Rightarrow> Inr (Some r)
      | _ \<Rightarrow> Inl MultipleResultsFound)"

definition count_rows :: "('r \<Rightarrow> bool) \<Rightarrow> 'r table \<Rightarrow> nat" where
  "count_rows p t = length (filter p (rows t))"

definition keys_ok :: "('r \<Rightarrow> nat) \<Rightarrow> 'r table \<Rightarrow> bool" where
  "keys_ok key t \<longleftrightarrow> distinct (map key (rows t)) \<and> (\<forall>r \<in> set (rows t). key r < next_id t)"

text \<open>
  The contract of a keyed table, for any way of reading the key.  A component gets the
  laws for its own row type by interpreting the locale on its key field.
\<close>

lemma find_Some_iff_distinct:
  assumes "distinct (map key xs)"
  shows "find (\<lambda>r. key r = i) xs = Some r \<longleftrightarrow> r \<in> set xs \<and> key r = i"
  using assms by (induction xs) (auto simp: rev_image_eqI)

lemma length_filter_map_upd:
  assumes "distinct (map key xs)" and "r \<in> set xs"
  shows "length (filter p (map (\<lambda>x. if key x = key r then f x else x) xs)) + (if p r then 1 else 0)
       = length (filter p xs) + (if p (f r) then 1 else 0)"
  using assms
proof (induction xs)
  case Nil
  then show ?case by simp
next
  case (Cons a xs)
  show ?case
  proof (cases "a = r")
    case True
    with Cons.prems have "\<forall>x \<in> set xs. key x \<noteq> key r"
      by (metis distinct.simps(2) image_eqI list.set_map list.simps(9))
    then have "map (\<lambda>x. if key x = key r then f x else x) xs = xs"
      by (intro map_idI) auto
    with True show ?thesis by simp
  next
    case False
    with Cons.prems have "r \<in> set xs" and "key a \<noteq> key r" by auto
    with Cons show ?thesis by auto
  qed
qed

lemma distinct_singleton:
  assumes "distinct xs" and "set xs = {r}"
  shows "xs = [r]"
proof (cases xs)
  case Nil
  with assms(2) show ?thesis by simp
next
  case (Cons a ys)
  with assms(2) have "a = r" and "set ys \<subseteq> {r}" by auto
  moreover have "r \<notin> set ys" using assms(1) Cons \<open>a = r\<close> by simp
  ultimately have "ys = []" by (cases ys) auto
  with Cons \<open>a = r\<close> show ?thesis by simp
qed

locale keyed_table =
  fixes key :: "'r \<Rightarrow> nat"
begin

lemma get_row_Some:
  "keys_ok key t \<Longrightarrow> get_row key t i = Some r \<longleftrightarrow> r \<in> set (rows t) \<and> key r = i"
  by (simp add: get_row_def keys_ok_def find_Some_iff_distinct)

lemma get_row_Some_mem:
  "get_row key t i = Some r \<Longrightarrow> r \<in> set (rows t) \<and> key r = i"
  by (auto simp: get_row_def find_Some_iff)

lemma set_rows_update:
  "set (rows (update_row key i f t)) = (\<lambda>r. if key r = i then f r else r) ` set (rows t)"
  by (simp add: update_row_def)

lemma keys_ok_update:
  assumes "\<And>r. key (f r) = key r" and "keys_ok key t"
  shows "keys_ok key (update_row key i f t)"
proof -
  have "key \<circ> (\<lambda>r. if key r = i then f r else r) = key"
    using assms(1) by auto
  with assms show ?thesis by (auto simp: keys_ok_def update_row_def)
qed

lemma keys_ok_insert:
  "keys_ok key t \<Longrightarrow> key r = next_id t \<Longrightarrow> keys_ok key (insert_row r t)"
  by (auto simp: keys_ok_def insert_row_def)

lemma keys_ok_empty: "keys_ok key empty_table"
  by (simp add: keys_ok_def empty_table_def)

lemma count_update:
  assumes "keys_ok key t" and "get_row key t i = Some r"
  shows "count_rows p (update_row key i f t) + (if p r then 1 else 0)
       = count_rows p t + (if p (f r) then 1 else 0)"
proof -
  have "r \<in> set (rows t)" and "key r = i"
    using assms get_row_Some_mem by blast+
  then show ?thesis
    using length_filter_map_upd [of key "rows t" r p f] assms(1)
    by (auto simp: keys_ok_def count_rows_def update_row_def)
qed

lemma get_row_update:
  assumes "keys_ok key t" and "get_row key t i = Some r" and "\<And>r. key (f r) = key r"
  shows "get_row key (update_row key i f t) j = (if j = i then Some (f r) else get_row key t j)"
proof -
  have ok: "keys_ok key (update_row key i f t)"
    using assms(1,3) by (rule keys_ok_update [rotated])
  show ?thesis
  proof (cases "j = i")
    case True
    have "r \<in> set (rows t)" and "key r = i"
      using assms(2) get_row_Some_mem by blast+
    then have "f r \<in> set (rows (update_row key i f t))"
      by (auto simp: set_rows_update)
    with True ok assms(3) \<open>key r = i\<close> show ?thesis
      by (simp add: get_row_Some)
  next
    case False
    have "find (\<lambda>x. key x = j) (map (\<lambda>x. if key x = i then f x else x) xs)
        = find (\<lambda>x. key x = j) xs" for xs
      using False assms(3) by (induction xs) auto
    with False show ?thesis by (simp add: get_row_def update_row_def)
  qed
qed

lemma count_insert:
  "count_rows p (insert_row r t) = count_rows p t + (if p r then 1 else 0)"
  by (simp add: count_rows_def insert_row_def)

end

lemma one_or_none_Some:
  "one_or_none p t = Inr (Some r) \<longleftrightarrow> filter p (rows t) = [r]"
  by (auto simp: one_or_none_def split: list.splits)

lemma one_or_none_SomeD:
  assumes "one_or_none p t = Inr (Some r)"
  shows "r \<in> set (rows t) \<and> p r \<and> (\<forall>x \<in> set (rows t). p x \<longrightarrow> x = r)"
proof -
  have f: "filter p (rows t) = [r]"
    using assms by (simp add: one_or_none_Some)
  then have "set (filter p (rows t)) = {r}" by simp
  then show ?thesis by auto
qed

lemma one_or_none_None:
  "one_or_none p t = Inr None \<longleftrightarrow> (\<forall>r \<in> set (rows t). \<not> p r)"
proof -
  have "one_or_none p t = Inr None \<longleftrightarrow> filter p (rows t) = []"
    by (auto simp: one_or_none_def split: list.splits)
  then show ?thesis by (simp add: filter_empty_conv)
qed

lemma count_rows_0: "count_rows p t = 0 \<longleftrightarrow> (\<forall>r \<in> set (rows t). \<not> p r)"
  by (auto simp: count_rows_def filter_empty_conv)

lemma rows_simps [simp]:
  "rows (insert_row r t) = rows t @ [r]"
  "next_id (insert_row r t) = Suc (next_id t)"
  "next_id (update_row key i f t) = next_id t"
  "rows empty_table = []"
  by (simp_all add: insert_row_def update_row_def empty_table_def)

section \<open>Runs of a transition system\<close>

text \<open>
  A component whose operations are commands of a datatype is a step function; a run folds
  it over a list of commands.  The contract of an invariant is that the initial state has
  it and every step keeps it; the locale gives it for every run.
\<close>

definition run :: "('s \<Rightarrow> 'c \<Rightarrow> 's) \<Rightarrow> 's \<Rightarrow> 'c list \<Rightarrow> 's" where
  "run step s cs = foldl step s cs"

lemma run_simps [simp]:
  "run step s [] = s"
  "run step s (c # cs) = run step (step s c) cs"
  "run step s (cs @ ds) = run step (run step s cs) ds"
  by (simp_all add: run_def)

locale step_invariant =
  fixes step :: "'s \<Rightarrow> 'c \<Rightarrow> 's"
    and inv :: "'s \<Rightarrow> bool"
  assumes step_keeps: "inv s \<Longrightarrow> inv (step s c)"
begin

lemma run_keeps: "inv s \<Longrightarrow> inv (run step s cs)"
  by (induction cs arbitrary: s) (auto simp: step_keeps)

lemma run_monotone:
  assumes "inv s" and "\<And>s c. inv s \<Longrightarrow> P s \<Longrightarrow> P (step s c)" and "P s"
  shows "P (run step s cs)"
  using assms(1,3)
proof (induction cs arbitrary: s)
  case Nil
  then show ?case by simp
next
  case (Cons c cs)
  from Cons.prems have "inv (step s c)" and "P (step s c)"
    by (auto intro: step_keeps assms(2))
  then show ?case using Cons.IH by simp
qed

end


section \<open>Refinement\<close>

text \<open>
  A machine that answers its commands, and the answers of a run with the state it ends in.  A
  component refines a specification when related states answer alike and stay related, for the
  commands the specification allows (\<open>pre\<close>); the locale lifts that to runs.
\<close>

fun answers :: "('s \<Rightarrow> 'c \<Rightarrow> 'o \<times> 's) \<Rightarrow> 's \<Rightarrow> 'c list \<Rightarrow> 'o list \<times> 's" where
  "answers step s [] = ([], s)"
| "answers step s (c # cs) =
     (case step s c of (a, s') \<Rightarrow> (case answers step s' cs of (as, s'') \<Rightarrow> (a # as, s'')))"

fun legal_run :: "('s \<Rightarrow> 'c \<Rightarrow> 'o \<times> 's) \<Rightarrow> ('s \<Rightarrow> 'c \<Rightarrow> bool) \<Rightarrow> 's \<Rightarrow> 'c list \<Rightarrow> bool" where
  "legal_run step pre s [] = True"
| "legal_run step pre s (c # cs) = (pre s c \<and> legal_run step pre (snd (step s c)) cs)"

locale refinement =
  fixes cstep :: "'s \<Rightarrow> 'c \<Rightarrow> 'o \<times> 's"
    and astep :: "'a \<Rightarrow> 'c \<Rightarrow> 'o \<times> 'a"
    and pre :: "'a \<Rightarrow> 'c \<Rightarrow> bool"
    and rel :: "'s \<Rightarrow> 'a \<Rightarrow> bool"
  assumes same_answer: "rel s a \<Longrightarrow> pre a c \<Longrightarrow> fst (cstep s c) = fst (astep a c)"
    and stays_related: "rel s a \<Longrightarrow> pre a c \<Longrightarrow> rel (snd (cstep s c)) (snd (astep a c))"
begin

lemma run_refines:
  assumes "rel s a" and "legal_run astep pre a cs"
  shows "fst (answers cstep s cs) = fst (answers astep a cs)"
    and "rel (snd (answers cstep s cs)) (snd (answers astep a cs))"
  using assms
proof (induction cs arbitrary: s a)
  case (Cons c cs)
  { case 1
    with Cons.IH(1) [of "snd (cstep s c)" "snd (astep a c)"] show ?case
      using same_answer [of s a c] stays_related [of s a c] by (simp add: case_prod_beta) }
  { case 2
    with Cons.IH(2) [of "snd (cstep s c)" "snd (astep a c)"] show ?case
      using stays_related [of s a c] by (simp add: case_prod_beta) }
qed simp_all

end

section \<open>Refunds\<close>

text \<open>
  The contract both entitlement ledgers offer to the code that ends a run: a refund for a job
  moves at most one unit back, says whether it did, and is a no-op the second time.  \<open>held\<close>
  counts the units that are back with their owner.
\<close>

locale refund_ledger =
  fixes ok :: "'l \<Rightarrow> bool"
    and held :: "'l \<Rightarrow> nat"
    and refund :: "bool \<Rightarrow> string \<Rightarrow> 'l \<Rightarrow> bool \<times> 'l"
  assumes refund_ok: "ok l \<Longrightarrow> ok (snd (refund up job l))"
    and refund_once: "refund up' job (snd (refund True job l)) = (False, snd (refund True job l))"
    and refund_down: "refund False job l = (False, l)"
    and refund_none: "\<not> fst (refund up job l) \<Longrightarrow> snd (refund up job l) = l"
    and refund_one: "ok l \<Longrightarrow> fst (refund up job l) \<Longrightarrow> held (snd (refund up job l)) = Suc (held l)"
begin

text \<open>Any number of refund attempts for one job, each with its own database outcome.\<close>

definition refund_all :: "string \<Rightarrow> bool list \<Rightarrow> 'l \<Rightarrow> 'l" where
  "refund_all job ups l = foldl (\<lambda>l up. snd (refund up job l)) l ups"

lemma refund_all_after:
  "refund True job l = (False, l) \<Longrightarrow> refund_all job ups l = l"
proof (induction ups)
  case (Cons up ups)
  then show ?case by (cases up) (simp_all add: refund_all_def refund_down)
qed (simp add: refund_all_def)

lemma refund_all_at_most_one:
  assumes "ok l"
  shows "held (refund_all job ups l) = held l \<or> held (refund_all job ups l) = Suc (held l)"
proof (induction ups)
  case Nil
  then show ?case by (simp add: refund_all_def)
next
  case (Cons up ups)
  show ?case
  proof (cases up)
    case False
    with Cons show ?thesis by (simp add: refund_all_def refund_down)
  next
    case True
    let ?l = "snd (refund True job l)"
    have "refund_all job ups ?l = ?l"
      by (rule refund_all_after) (rule refund_once)
    with True have "refund_all job (up # ups) l = ?l" by (simp add: refund_all_def)
    then show ?thesis
      using refund_one [OF assms, of True job] refund_none [of True job l]
      by (cases "fst (refund True job l)") auto
  qed
qed

lemma refund_all_ok: "ok l \<Longrightarrow> ok (refund_all job ups l)"
  unfolding refund_all_def by (induction ups arbitrary: l) (simp_all add: refund_ok)

end

end
