(* ===== verification/Credits.thy ===== *)
theory Credits
  imports Prelude "HOL-Library.Product_Lexorder"
begin

text \<open>
  The generation credit ledger: \<^verbatim>\<open>models/generation_credit.py\<close> (the persistence layer, one
  function per operation on the session) and \<^verbatim>\<open>services/generation_credits.py\<close> (the
  session-owning wrappers, which decide whether a failure reaches the caller).  A ledger is
  a table of credit rows.  Each wrapper takes a flag \<open>up\<close>: whether the database answers;
  a row that is not committed leaves the ledger as it was.
\<close>

section \<open>The record\<close>

datatype credit_status = CREDIT_PENDING | CREDIT_AVAILABLE | CREDIT_CONSUMED | CREDIT_VOID

record credit =
  c_id :: nat
  c_user_id :: string
  c_idempotency_key :: "string option"
  c_status :: credit_status
  c_payer_wallet :: "string option"
  c_amount_base_units :: "int option"
  c_price_usd :: "string option"
  c_network :: "string option"
  c_settlement_ref :: "string option"
  c_job_id :: "string option"
  c_created_at :: int
  c_settled_at :: "int option"
  c_consumed_at :: "int option"

type_synonym ledger = "credit table"

definition MAX_CREDITS :: nat where
  "MAX_CREDITS = 200"

definition new_credit :: "nat \<Rightarrow> string \<Rightarrow> string option \<Rightarrow> int \<Rightarrow> credit" where
  "new_credit i user key now =
     \<lparr>c_id = i, c_user_id = user, c_idempotency_key = key, c_status = CREDIT_PENDING,
      c_payer_wallet = None, c_amount_base_units = None, c_price_usd = None,
      c_network = None, c_settlement_ref = None, c_job_id = None,
      c_created_at = now, c_settled_at = None, c_consumed_at = None\<rparr>"

section \<open>Persistence: models/generation\_credit.py\<close>

datatype claim_outcome = Claimed | In_flight | Already_settled | Already_consumed

text \<open>
  \<^verbatim>\<open>session.add(record); session.flush()\<close>, with the unique constraint on
  \<open>(user_id, idempotency_key)\<close>, under which null keys never collide.
\<close>

definition add_claim :: "string \<Rightarrow> string option \<Rightarrow> int \<Rightarrow> (ledger, claim_outcome \<times> credit) op" where
  "add_claim user key now t =
     (if key \<noteq> None \<and> (\<exists>r \<in> set (rows t). c_user_id r = user \<and> c_idempotency_key r = key)
      then (Inl IntegrityError, t)
      else let r = new_credit (next_id t) user key now
           in (Inr (Claimed, r), insert_row r t))"

definition claim_credit :: "string \<Rightarrow> string option \<Rightarrow> int \<Rightarrow> (ledger, claim_outcome \<times> credit) op" where
  "claim_credit user key now t =
     (if user = [] then (Inl ValueError, t)
      else if truthy key then
        (case one_or_none (\<lambda>r. c_user_id r = user \<and> c_idempotency_key r = key) t of
           Inl e \<Rightarrow> (Inl e, t)
         | Inr None \<Rightarrow> add_claim user key now t
         | Inr (Some ex) \<Rightarrow>
             (case c_status ex of
                CREDIT_PENDING \<Rightarrow> (Inr (In_flight, ex), t)
              | CREDIT_AVAILABLE \<Rightarrow> (Inr (Already_settled, ex), t)
              | CREDIT_CONSUMED \<Rightarrow> (Inr (Already_consumed, ex), t)
              | CREDIT_VOID \<Rightarrow>
                  (let upd = (\<lambda>r. r\<lparr>c_status := CREDIT_PENDING, c_created_at := now\<rparr>)
                   in (Inr (Claimed, upd ex), update_row c_id (c_id ex) upd t))))
      else add_claim user None now t)"

definition mark_credit_settled ::
    "nat \<Rightarrow> string \<Rightarrow> int \<Rightarrow> string \<Rightarrow> string \<Rightarrow> string option \<Rightarrow> int \<Rightarrow> ledger \<Rightarrow> credit option \<times> ledger" where
  "mark_credit_settled i payer amount price net ref now t =
     (case get_row c_id t i of
        None \<Rightarrow> (None, t)
      | Some r \<Rightarrow>
          (let upd = (\<lambda>r. r\<lparr>c_status := CREDIT_AVAILABLE, c_payer_wallet := Some payer,
                            c_amount_base_units := Some amount, c_price_usd := Some price,
                            c_network := Some net, c_settlement_ref := ref,
                            c_settled_at := Some now\<rparr>)
           in (Some (upd r), update_row c_id i upd t)))"

definition void_credit :: "nat \<Rightarrow> ledger \<Rightarrow> ledger" where
  "void_credit i t =
     (case get_row c_id t i of
        None \<Rightarrow> t
      | Some r \<Rightarrow>
          if c_status r = CREDIT_PENDING
          then update_row c_id i (\<lambda>r. r\<lparr>c_status := CREDIT_VOID\<rparr>) t
          else t)"

text \<open>\<^verbatim>\<open>ORDER BY created_at, id\<close>.\<close>

definition credit_order :: "credit \<Rightarrow> int \<times> nat" where
  "credit_order r = (c_created_at r, c_id r)"

definition take_available_credit :: "ledger \<Rightarrow> string \<Rightarrow> credit option" where
  "take_available_credit t user =
     (if user = [] then None
      else case sort_key credit_order
                  (filter (\<lambda>r. c_user_id r = user \<and> c_status r = CREDIT_AVAILABLE) (rows t)) of
        [] \<Rightarrow> None
      | r # _ \<Rightarrow> Some r)"

definition consume_credit :: "nat \<Rightarrow> string \<Rightarrow> int \<Rightarrow> ledger \<Rightarrow> credit option \<times> ledger" where
  "consume_credit i job now t =
     (case get_row c_id t i of
        None \<Rightarrow> (None, t)
      | Some r \<Rightarrow>
          if c_status r \<noteq> CREDIT_AVAILABLE then (None, t)
          else let upd = (\<lambda>r. r\<lparr>c_status := CREDIT_CONSUMED, c_job_id := Some job,
                                c_consumed_at := Some now\<rparr>)
               in (Some (upd r), update_row c_id i upd t))"

definition restore_credit_for_job :: "string \<Rightarrow> (ledger, credit option) op" where
  "restore_credit_for_job job t =
     (if job = [] then (Inr None, t)
      else case one_or_none (\<lambda>r. c_job_id r = Some job \<and> c_status r = CREDIT_CONSUMED) t of
        Inl e \<Rightarrow> (Inl e, t)
      | Inr None \<Rightarrow> (Inr None, t)
      | Inr (Some r) \<Rightarrow>
          (let upd = (\<lambda>r. r\<lparr>c_status := CREDIT_AVAILABLE, c_consumed_at := None\<rparr>)
           in (Inr (Some (upd r)), update_row c_id (c_id r) upd t)))"

text \<open>The rows are returned as they are; the source renders each with \<open>to_payload\<close>.\<close>

definition list_credit_rows :: "ledger \<Rightarrow> string \<Rightarrow> nat \<Rightarrow> credit list" where
  "list_credit_rows t user limit =
     (if user = [] then []
      else take limit (rev (sort_key credit_order (filter (\<lambda>r. c_user_id r = user) (rows t)))))"

section \<open>Sessions: services/generation\_credits.py\<close>

text \<open>The facilitator's settled \<open>PaymentInfo\<close>; \<open>amount\<close> is a string of base units.\<close>

record payment_info =
  p_payer :: string
  p_amount :: string
  p_network :: string
  p_transaction :: "string option"

definition USDC_DECIMALS :: nat where
  "USDC_DECIMALS = 6"

definition format_usd :: "int \<Rightarrow> string" where
  "format_usd amount = ''$'' @ format_fixed (amount < 0) (nat \<bar>amount\<bar>) USDC_DECIMALS 2"

definition take_credit :: "bool \<Rightarrow> string \<Rightarrow> ledger \<Rightarrow> nat option \<times> ledger" where
  "take_credit up user t =
     quiet None (with_session up
       (\<lambda>t. (Inr (map_option c_id (take_available_credit t user)), t)) t)"

definition claim :: "bool \<Rightarrow> string \<Rightarrow> string option \<Rightarrow> int \<Rightarrow> (ledger, claim_outcome \<times> nat) op" where
  "claim up user key now t =
     with_session up
       (\<lambda>t. case claim_credit user key now t of
              (Inl e, t') \<Rightarrow> (Inl e, t')
            | (Inr (outcome, r), t') \<Rightarrow> (Inr (outcome, c_id r), t')) t"

definition settle :: "bool \<Rightarrow> nat \<Rightarrow> payment_info \<Rightarrow> int \<Rightarrow> ledger \<Rightarrow> ledger" where
  "settle up i payment now t =
     snd (quiet () (with_session up
       (\<lambda>t. case py_int (p_amount payment) of
              None \<Rightarrow> (Inl ValueError, t)
            | Some amount \<Rightarrow>
                (Inr (), snd (mark_credit_settled i (p_payer payment) amount (format_usd amount)
                                (p_network payment) (p_transaction payment) now t))) t))"

definition void :: "bool \<Rightarrow> nat \<Rightarrow> ledger \<Rightarrow> ledger" where
  "void up i t = snd (quiet () (with_session up (\<lambda>t. (Inr (), void_credit i t)) t))"

definition consume :: "bool \<Rightarrow> nat \<Rightarrow> string \<Rightarrow> int \<Rightarrow> ledger \<Rightarrow> ledger" where
  "consume up i job now t =
     snd (quiet () (with_session up (\<lambda>t. (Inr (), snd (consume_credit i job now t))) t))"

definition list_credits :: "bool \<Rightarrow> string \<Rightarrow> ledger \<Rightarrow> credit list" where
  "list_credits up user t =
     fst (quiet [] (with_session up (\<lambda>t. (Inr (list_credit_rows t user MAX_CREDITS), t)) t))"

definition restore_for_job :: "bool \<Rightarrow> string \<Rightarrow> ledger \<Rightarrow> bool \<times> ledger" where
  "restore_for_job up job t =
     quiet False (with_session up
       (\<lambda>t. case restore_credit_for_job job t of
              (Inl e, t') \<Rightarrow> (Inl e, t')
            | (Inr r, t') \<Rightarrow> (Inr (r \<noteq> None), t')) t)"

section \<open>The ledger as a transition system\<close>

text \<open>Every write of the ledger, in any order, each with its own database outcome.\<close>

datatype credit_cmd =
    Claim bool string "string option" int
  | Settle bool nat payment_info int
  | Void bool nat
  | Consume bool nat string int
  | Restore bool string

fun credit_step :: "ledger \<Rightarrow> credit_cmd \<Rightarrow> ledger" where
  "credit_step t (Claim up user key now) = snd (claim up user key now t)"
| "credit_step t (Settle up i p now) = settle up i p now t"
| "credit_step t (Void up i) = void up i t"
| "credit_step t (Consume up i job now) = consume up i job now t"
| "credit_step t (Restore up job) = snd (restore_for_job up job t)"

fun is_settle :: "credit_cmd \<Rightarrow> bool" where
  "is_settle (Settle _ _ _ _) = True"
| "is_settle _ = False"

text \<open>
  What a row must look like in each status: a claim or a void has no settlement, an
  available credit is settled and not marked consumed by a run that is still holding it,
  a consumed one names its job.
\<close>

definition settled_row :: "credit \<Rightarrow> bool" where
  "settled_row r \<longleftrightarrow> c_status r = CREDIT_AVAILABLE \<or> c_status r = CREDIT_CONSUMED"

definition row_ok :: "credit \<Rightarrow> bool" where
  "row_ok r \<longleftrightarrow>
     c_user_id r \<noteq> [] \<and> c_idempotency_key r \<noteq> Some [] \<and>
     (settled_row r \<longleftrightarrow> c_settled_at r \<noteq> None) \<and>
     (c_settled_at r \<noteq> None \<longrightarrow> c_amount_base_units r \<noteq> None) \<and>
     (c_status r = CREDIT_CONSUMED \<longrightarrow> c_job_id r \<noteq> None \<and> c_consumed_at r \<noteq> None)"

definition unique_keys :: "ledger \<Rightarrow> bool" where
  "unique_keys t \<longleftrightarrow>
     (\<forall>r \<in> set (rows t). \<forall>r' \<in> set (rows t).
        c_idempotency_key r \<noteq> None \<longrightarrow> c_user_id r = c_user_id r' \<longrightarrow>
        c_idempotency_key r = c_idempotency_key r' \<longrightarrow> c_id r = c_id r')"

definition ledger_ok :: "ledger \<Rightarrow> bool" where
  "ledger_ok t \<longleftrightarrow> keys_ok c_id t \<and> unique_keys t \<and> (\<forall>r \<in> set (rows t). row_ok r)"

text \<open>The number of credits somebody paid for, spent or not.\<close>

definition entitled :: "ledger \<Rightarrow> nat" where
  "entitled t = count_rows settled_row t"

interpretation ct: keyed_table c_id .


section \<open>Updating one row\<close>

text \<open>An update of one row that leaves its identity alone.\<close>

definition keeps_identity :: "(credit \<Rightarrow> credit) \<Rightarrow> bool" where
  "keeps_identity f \<longleftrightarrow>
     (\<forall>r. c_id (f r) = c_id r \<and> c_user_id (f r) = c_user_id r \<and>
          c_idempotency_key (f r) = c_idempotency_key r)"

lemma updated_rows:
  assumes "ledger_ok t" and "get_row c_id t i = Some r" and "x \<in> set (rows (update_row c_id i f t))"
  shows "x = f r \<or> (x \<in> set (rows t) \<and> c_id x \<noteq> i)"
proof -
  obtain y where y: "y \<in> set (rows t)" "x = (if c_id y = i then f y else y)"
    using assms(3) by (auto simp: ct.set_rows_update)
  show ?thesis
  proof (cases "c_id y = i")
    case True
    with y assms(1,2) have "y = r"
      by (metis ct.get_row_Some ledger_ok_def option.inject)
    with True y show ?thesis by simp
  qed (use y in auto)
qed

lemma row_ok_get: "ledger_ok t \<Longrightarrow> get_row c_id t i = Some r \<Longrightarrow> row_ok r"
  by (meson ct.get_row_Some_mem ledger_ok_def)

lemma unique_keys_update:
  assumes "unique_keys t" and "keeps_identity f"
  shows "unique_keys (update_row c_id i f t)"
proof -
  let ?g = "\<lambda>r. if c_id r = i then f r else r"
  have g: "c_id (?g r) = c_id r" "c_user_id (?g r) = c_user_id r"
    "c_idempotency_key (?g r) = c_idempotency_key r" for r
    using assms(2) by (simp_all add: keeps_identity_def)
  show ?thesis
    unfolding unique_keys_def ct.set_rows_update ball_simps g
    using assms(1) unfolding unique_keys_def by blast
qed

lemma unique_keys_insert:
  assumes "unique_keys t"
    and "c_idempotency_key r \<noteq> None \<Longrightarrow>
         \<forall>x \<in> set (rows t). \<not> (c_user_id x = c_user_id r \<and> c_idempotency_key x = c_idempotency_key r)"
  shows "unique_keys (insert_row r t)"
  unfolding unique_keys_def rows_simps set_append
proof (intro ballI impI)
  fix x y
  assume "x \<in> set (rows t) \<union> set [r]" "y \<in> set (rows t) \<union> set [r]"
    and *: "c_idempotency_key x \<noteq> None" "c_user_id x = c_user_id y"
      "c_idempotency_key x = c_idempotency_key y"
  from this(1,2) consider "x \<in> set (rows t)" "y \<in> set (rows t)" | "x = r" "y = r"
    | "x = r" "y \<in> set (rows t)" | "x \<in> set (rows t)" "y = r" by auto
  then show "c_id x = c_id y"
  proof cases
    case 1
    with * assms(1) show ?thesis unfolding unique_keys_def by blast
  next
    case 2
    then show ?thesis by simp
  next
    case 3
    with * assms(2) show ?thesis by metis
  next
    case 4
    with * assms(2) show ?thesis by metis
  qed
qed

lemma ledger_ok_update:
  assumes "ledger_ok t" and "get_row c_id t i = Some r"
    and "keeps_identity f" and "row_ok (f r)"
  shows "ledger_ok (update_row c_id i f t)"
proof -
  have "keys_ok c_id (update_row c_id i f t)"
    using assms(1,3) by (intro ct.keys_ok_update) (auto simp: ledger_ok_def keeps_identity_def)
  moreover have "unique_keys (update_row c_id i f t)"
    using assms(1,3) by (intro unique_keys_update) (auto simp: ledger_ok_def)
  moreover have "row_ok x" if "x \<in> set (rows (update_row c_id i f t))" for x
    using updated_rows [OF assms(1,2) that] assms(1,4) by (auto simp: ledger_ok_def)
  ultimately show ?thesis by (simp add: ledger_ok_def)
qed

lemma entitled_update:
  assumes "ledger_ok t" and "get_row c_id t i = Some r"
  shows "entitled (update_row c_id i f t) + (if settled_row r then 1 else 0)
       = entitled t + (if settled_row (f r) then 1 else 0)"
  unfolding entitled_def by (rule ct.count_update) (use assms in \<open>auto simp: ledger_ok_def\<close>)

lemma one_or_none_get:
  assumes "ledger_ok t" and "one_or_none p t = Inr (Some r)"
  shows "get_row c_id t (c_id r) = Some r"
  using assms one_or_none_SomeD by (fastforce simp: ct.get_row_Some ledger_ok_def)

section \<open>Every operation keeps the ledger well formed\<close>

lemma ledger_ok_empty: "ledger_ok empty_table"
  by (simp add: ledger_ok_def unique_keys_def ct.keys_ok_empty)

lemma add_claim_ok:
  assumes "ledger_ok t" and "user \<noteq> []" and "key \<noteq> Some []"
    and "add_claim user key now t = (Inr a, t')"
  shows "ledger_ok t' \<and> entitled t' = entitled t"
proof -
  have t': "t' = insert_row (new_credit (next_id t) user key now) t"
    and fresh: "key \<noteq> None \<Longrightarrow> \<forall>r \<in> set (rows t). \<not> (c_user_id r = user \<and> c_idempotency_key r = key)"
    using assms(4) by (auto simp: add_claim_def Let_def split: if_splits)
  have "keys_ok c_id t'"
    unfolding t' using assms(1)
    by (intro ct.keys_ok_insert) (auto simp: ledger_ok_def new_credit_def)
  moreover have "unique_keys t'"
    unfolding t' using assms(1) fresh
    by (intro unique_keys_insert) (auto simp: ledger_ok_def new_credit_def)
  moreover have "\<forall>r \<in> set (rows t'). row_ok r"
    using assms by (auto simp: t' ledger_ok_def row_ok_def new_credit_def settled_row_def)
  ultimately have "ledger_ok t'" by (simp add: ledger_ok_def)
  moreover have "entitled t' = entitled t"
    by (simp add: t' entitled_def ct.count_insert settled_row_def new_credit_def)
  ultimately show ?thesis ..
qed

lemma claim_credit_ok:
  assumes "ledger_ok t" and "claim_credit user key now t = (Inr a, t')"
  shows "ledger_ok t' \<and> entitled t' = entitled t"
proof (cases "user \<noteq> [] \<and> truthy key")
  case False
  with assms(2) have "user \<noteq> []" and "add_claim user None now t = (Inr a, t')"
    by (auto simp: claim_credit_def split: if_splits)
  with assms(1) show ?thesis by (intro add_claim_ok) auto
next
  case True
  then have key: "user \<noteq> []" "truthy key" "key \<noteq> Some []" by auto
  let ?p = "\<lambda>r. c_user_id r = user \<and> c_idempotency_key r = key"
  show ?thesis
  proof (cases "one_or_none ?p t")
    case (Inl e)
    with assms(2) key show ?thesis by (simp add: claim_credit_def)
  next
    case (Inr o')
    show ?thesis
    proof (cases o')
      case None
      with Inr assms(2) key have "add_claim user key now t = (Inr a, t')"
        by (simp add: claim_credit_def)
      with assms(1) key show ?thesis by (intro add_claim_ok) auto
    next
      case (Some ex)
      let ?upd = "\<lambda>r. r\<lparr>c_status := CREDIT_PENDING, c_created_at := now\<rparr>"
      have get: "get_row c_id t (c_id ex) = Some ex"
        using assms(1) Inr Some by (blast intro: one_or_none_get)
      have "row_ok ex" using assms(1) get by (rule row_ok_get)
      show ?thesis
      proof (cases "c_status ex = CREDIT_VOID")
        case True
        have t': "t' = update_row c_id (c_id ex) ?upd t"
          using assms(2) key Inr Some True by (simp add: claim_credit_def Let_def)
        have "row_ok (?upd ex)" and "\<not> settled_row ex" and "\<not> settled_row (?upd ex)"
          using \<open>row_ok ex\<close> True by (auto simp: row_ok_def settled_row_def)
        then show ?thesis
          using ledger_ok_update [OF assms(1) get, of ?upd] entitled_update [OF assms(1) get, of ?upd]
          by (simp add: t' keeps_identity_def)
      next
        case False
        with assms(2) key Inr Some have "t' = t"
          by (auto simp: claim_credit_def split: credit_status.splits)
        with assms(1) show ?thesis by simp
      qed
    qed
  qed
qed

lemma claim_ok:
  "ledger_ok t \<Longrightarrow> ledger_ok (snd (claim up user key now t)) \<and>
     entitled (snd (claim up user key now t)) = entitled t"
  unfolding claim_def
  by (rule with_session_keeps)
    (auto dest: claim_credit_ok split: prod.splits sum.splits)

lemma mark_credit_settled_ok:
  assumes "ledger_ok t"
  shows "ledger_ok (snd (mark_credit_settled i payer amount price net ref now t)) \<and>
     entitled (snd (mark_credit_settled i payer amount price net ref now t)) \<le> Suc (entitled t)"
proof (cases "get_row c_id t i")
  case None
  with assms show ?thesis by (simp add: mark_credit_settled_def)
next
  case (Some r)
  let ?upd = "\<lambda>r. r\<lparr>c_status := CREDIT_AVAILABLE, c_payer_wallet := Some payer,
                  c_amount_base_units := Some amount, c_price_usd := Some price,
                  c_network := Some net, c_settlement_ref := ref, c_settled_at := Some now\<rparr>"
  have "row_ok (?upd r)"
    using row_ok_get [OF assms Some] by (auto simp: row_ok_def settled_row_def)
  then show ?thesis
    using ledger_ok_update [OF assms Some, of ?upd] entitled_update [OF assms Some, of ?upd] Some
    by (auto simp: mark_credit_settled_def Let_def keeps_identity_def split: if_splits)
qed

lemma settle_ok:
  "ledger_ok t \<Longrightarrow> ledger_ok (settle up i p now t) \<and> entitled (settle up i p now t) \<le> Suc (entitled t)"
  unfolding settle_def snd_quiet
  by (rule with_session_keeps) (auto dest: mark_credit_settled_ok split: option.splits)

lemma void_credit_ok:
  assumes "ledger_ok t"
  shows "ledger_ok (void_credit i t) \<and> entitled (void_credit i t) = entitled t"
proof (cases "get_row c_id t i")
  case None
  with assms show ?thesis by (simp add: void_credit_def)
next
  case (Some r)
  let ?upd = "\<lambda>r. r\<lparr>c_status := CREDIT_VOID\<rparr>"
  show ?thesis
  proof (cases "c_status r = CREDIT_PENDING")
    case True
    have "row_ok (?upd r)" and "\<not> settled_row r" and "\<not> settled_row (?upd r)"
      using row_ok_get [OF assms Some] True by (auto simp: row_ok_def settled_row_def)
    with True Some show ?thesis
      using ledger_ok_update [OF assms Some, of ?upd] entitled_update [OF assms Some, of ?upd]
      by (simp add: void_credit_def keeps_identity_def)
  qed (use Some assms in \<open>simp add: void_credit_def\<close>)
qed

lemma void_ok:
  "ledger_ok t \<Longrightarrow> ledger_ok (void up i t) \<and> entitled (void up i t) = entitled t"
  unfolding void_def snd_quiet
  by (rule with_session_keeps) (auto dest: void_credit_ok)

lemma consume_credit_ok:
  assumes "ledger_ok t"
  shows "ledger_ok (snd (consume_credit i job now t)) \<and>
         entitled (snd (consume_credit i job now t)) = entitled t"
proof (cases "get_row c_id t i")
  case None
  with assms show ?thesis by (simp add: consume_credit_def)
next
  case (Some r)
  let ?upd = "\<lambda>r. r\<lparr>c_status := CREDIT_CONSUMED, c_job_id := Some job, c_consumed_at := Some now\<rparr>"
  show ?thesis
  proof (cases "c_status r = CREDIT_AVAILABLE")
    case True
    have "row_ok (?upd r)" and "settled_row r" and "settled_row (?upd r)"
      using row_ok_get [OF assms Some] True by (auto simp: row_ok_def settled_row_def)
    with True Some show ?thesis
      using ledger_ok_update [OF assms Some, of ?upd] entitled_update [OF assms Some, of ?upd]
      by (simp add: consume_credit_def Let_def keeps_identity_def)
  qed (use Some assms in \<open>simp add: consume_credit_def\<close>)
qed

lemma consume_ok:
  "ledger_ok t \<Longrightarrow> ledger_ok (consume up i job now t) \<and> entitled (consume up i job now t) = entitled t"
  unfolding consume_def snd_quiet
  by (rule with_session_keeps) (auto dest: consume_credit_ok)

lemma restore_credit_ok:
  assumes "ledger_ok t" and "restore_credit_for_job job t = (Inr a, t')"
  shows "ledger_ok t' \<and> entitled t' = entitled t"
proof (cases "\<exists>r. job \<noteq> [] \<and>
    one_or_none (\<lambda>r. c_job_id r = Some job \<and> c_status r = CREDIT_CONSUMED) t = Inr (Some r)")
  case False
  with assms show ?thesis
    by (auto simp: restore_credit_for_job_def split: if_splits sum.splits option.splits)
next
  case True
  then obtain r where job: "job \<noteq> []"
    and one: "one_or_none (\<lambda>r. c_job_id r = Some job \<and> c_status r = CREDIT_CONSUMED) t = Inr (Some r)"
    by blast
  let ?upd = "\<lambda>r. r\<lparr>c_status := CREDIT_AVAILABLE, c_consumed_at := None\<rparr>"
  have get: "get_row c_id t (c_id r) = Some r" and st: "c_status r = CREDIT_CONSUMED"
    using assms(1) one by (auto intro: one_or_none_get dest: one_or_none_SomeD)
  have t': "t' = update_row c_id (c_id r) ?upd t"
    using assms(2) job one by (simp add: restore_credit_for_job_def Let_def)
  have "row_ok (?upd r)" and "settled_row r" and "settled_row (?upd r)"
    using row_ok_get [OF assms(1) get] st by (auto simp: row_ok_def settled_row_def)
  then show ?thesis
    using ledger_ok_update [OF assms(1) get, of ?upd] entitled_update [OF assms(1) get, of ?upd]
    by (simp add: t' keeps_identity_def)
qed

lemma restore_ok:
  "ledger_ok t \<Longrightarrow> ledger_ok (snd (restore_for_job up job t)) \<and>
     entitled (snd (restore_for_job up job t)) = entitled t"
  unfolding restore_for_job_def snd_quiet
  by (rule with_session_keeps)
    (auto dest: restore_credit_ok split: prod.splits sum.splits)

lemmas credit_ops_ok = claim_ok settle_ok void_ok consume_ok restore_ok

lemma credit_step_ok: "ledger_ok t \<Longrightarrow> ledger_ok (credit_step t c)"
  by (cases c) (auto simp: credit_ops_ok)

lemma credit_step_entitled:
  "ledger_ok t \<Longrightarrow> entitled (credit_step t c) \<le> entitled t + (if is_settle c then 1 else 0)"
  by (cases c) (auto simp: credit_ops_ok)

interpretation credits: step_invariant credit_step ledger_ok
  by unfold_locales (rule credit_step_ok)


section \<open>Settled rows stay settled\<close>

text \<open>
  The key a payment was made under.  Once a row with that key is settled, no operation
  takes it back to a state from which it could be charged again.
\<close>

definition key_settled :: "string \<Rightarrow> string \<Rightarrow> ledger \<Rightarrow> bool" where
  "key_settled user key t \<longleftrightarrow>
     (\<exists>r \<in> set (rows t). c_user_id r = user \<and> c_idempotency_key r = Some key \<and> settled_row r)"

lemma key_settled_update:
  assumes "key_settled user key t" and "keeps_identity f"
    and "\<And>r. settled_row r \<Longrightarrow> get_row c_id t i = Some r \<Longrightarrow> settled_row (f r)"
    and "ledger_ok t"
  shows "key_settled user key (update_row c_id i f t)"
proof -
  obtain r where r: "r \<in> set (rows t)" "c_user_id r = user" "c_idempotency_key r = Some key"
    "settled_row r"
    using assms(1) by (auto simp: key_settled_def)
  let ?r = "if c_id r = i then f r else r"
  have "?r \<in> set (rows (update_row c_id i f t))"
    using r(1) by (auto simp: ct.set_rows_update)
  moreover have "c_user_id ?r = user" "c_idempotency_key ?r = Some key"
    using r(2,3) assms(2) by (auto simp: keeps_identity_def)
  moreover have "settled_row ?r"
    using r assms(3,4) by (auto simp: ct.get_row_Some ledger_ok_def)
  ultimately show ?thesis unfolding key_settled_def by blast
qed

lemma key_settled_insert: "key_settled user key t \<Longrightarrow> key_settled user key (insert_row r t)"
  by (auto simp: key_settled_def)

lemma key_settled_add_claim:
  "key_settled u k t \<Longrightarrow> add_claim user key now t = (Inr a, t') \<Longrightarrow> key_settled u k t'"
  by (auto simp: add_claim_def Let_def intro: key_settled_insert split: if_splits)

lemma key_settled_claim_credit:
  assumes "ledger_ok t" and "key_settled u k t" and "claim_credit user key now t = (Inr a, t')"
  shows "key_settled u k t'"
proof -
  let ?p = "\<lambda>r. c_user_id r = user \<and> c_idempotency_key r = key"
  let ?upd = "\<lambda>r. r\<lparr>c_status := CREDIT_PENDING, c_created_at := now\<rparr>"
  have "key_settled u k (update_row c_id (c_id ex) ?upd t)"
    if "one_or_none ?p t = Inr (Some ex)" and "c_status ex = CREDIT_VOID" for ex
    using one_or_none_get [OF assms(1) that(1)] assms(1,2) that(2)
    by (intro key_settled_update) (auto simp: keeps_identity_def settled_row_def)
  then show ?thesis
    using assms(2,3)
    by (auto simp: claim_credit_def Let_def intro: key_settled_add_claim
        split: if_splits sum.splits option.splits credit_status.splits)
qed

lemma key_settled_settle:
  assumes "ledger_ok t" and "key_settled u k t"
  shows "key_settled u k (snd (mark_credit_settled i payer amount price net ref now t))"
  using assms
  by (auto simp: mark_credit_settled_def Let_def keeps_identity_def settled_row_def
      intro!: key_settled_update split: option.splits)

lemma key_settled_void:
  assumes "ledger_ok t" and "key_settled u k t"
  shows "key_settled u k (void_credit i t)"
  using assms
  by (auto simp: void_credit_def keeps_identity_def settled_row_def
      intro!: key_settled_update split: option.splits)

lemma key_settled_consume:
  assumes "ledger_ok t" and "key_settled u k t"
  shows "key_settled u k (snd (consume_credit i job now t))"
  using assms
  by (auto simp: consume_credit_def Let_def keeps_identity_def settled_row_def
      intro!: key_settled_update split: option.splits)

lemma key_settled_restore:
  assumes "ledger_ok t" and "key_settled u k t" and "restore_credit_for_job job t = (Inr a, t')"
  shows "key_settled u k t'"
  using assms
  by (auto simp: restore_credit_for_job_def Let_def keeps_identity_def settled_row_def
      intro!: key_settled_update split: if_splits sum.splits option.splits)

lemma key_settled_step:
  assumes "ledger_ok t" and "key_settled u k t"
  shows "key_settled u k (credit_step t c)"
  using assms
  by (cases c)
    (auto simp: claim_def settle_def void_def consume_def restore_for_job_def
      intro!: with_session_keeps [where I = "key_settled u k"]
      intro: key_settled_claim_credit key_settled_settle key_settled_void key_settled_consume
        key_settled_restore
      split: prod.splits sum.splits option.splits)

lemma claim_settled_key:
  assumes "ledger_ok t" and "key_settled user key t"
  shows "fst (claim up user (Some key) now t) = Inl DatabaseError \<or>
         (\<exists>i. fst (claim up user (Some key) now t) = Inr (Already_settled, i)) \<or>
         (\<exists>i. fst (claim up user (Some key) now t) = Inr (Already_consumed, i))"
proof -
  let ?p = "\<lambda>r. c_user_id r = user \<and> c_idempotency_key r = Some key"
  obtain r where r: "r \<in> set (rows t)" "?p r" "settled_row r"
    using assms(2) by (auto simp: key_settled_def)
  then have "row_ok r" using assms(1) by (simp add: ledger_ok_def)
  with r have ne: "user \<noteq> []" "key \<noteq> []" by (auto simp: row_ok_def)
  have same: "x = r" if "x \<in> set (rows t)" "?p x" for x
  proof -
    have "c_id x = c_id r"
      using assms(1) r that unfolding ledger_ok_def unique_keys_def by (metis option.discI)
    then show ?thesis
      using assms(1) r(1) that(1) by (metis ct.get_row_Some ledger_ok_def option.inject)
  qed
  have "filter ?p (rows t) = [r]"
  proof -
    have "distinct (rows t)"
      using assms(1) by (auto simp: ledger_ok_def keys_ok_def distinct_map)
    then have "distinct (filter ?p (rows t))" by simp
    moreover have "set (filter ?p (rows t)) = {r}" using r(1,2) same unfolding set_filter by blast
    ultimately show ?thesis by (rule distinct_singleton)
  qed
  then have "one_or_none ?p t = Inr (Some r)" by (simp add: one_or_none_Some)
  with ne r(3) show ?thesis
    by (cases up) (auto simp: claim_def with_session_def claim_credit_def settled_row_def)
qed


section \<open>Refunds\<close>

definition available_total :: "ledger \<Rightarrow> nat" where
  "available_total t = count_rows (\<lambda>r. c_status r = CREDIT_AVAILABLE) t"

definition restore_row :: "credit \<Rightarrow> credit" where
  "restore_row r = r\<lparr>c_status := CREDIT_AVAILABLE, c_consumed_at := None\<rparr>"

text \<open>A restore either does nothing, or puts back the one row the job consumed.\<close>

lemma restore_for_job_cases:
  obtains "restore_for_job up job t = (False, t)"
    "\<not> (\<exists>r. up \<and> job \<noteq> [] \<and>
        one_or_none (\<lambda>r. c_job_id r = Some job \<and> c_status r = CREDIT_CONSUMED) t = Inr (Some r))"
  | r where "up" "job \<noteq> []"
      "one_or_none (\<lambda>r. c_job_id r = Some job \<and> c_status r = CREDIT_CONSUMED) t = Inr (Some r)"
      "restore_for_job up job t = (True, update_row c_id (c_id r) restore_row t)"
proof (cases "\<exists>r. up \<and> job \<noteq> [] \<and>
    one_or_none (\<lambda>r. c_job_id r = Some job \<and> c_status r = CREDIT_CONSUMED) t = Inr (Some r)")
  case True
  then obtain r where r: "up" "job \<noteq> []"
    "one_or_none (\<lambda>r. c_job_id r = Some job \<and> c_status r = CREDIT_CONSUMED) t = Inr (Some r)"
    by blast
  moreover have "restore_row = (\<lambda>r. r\<lparr>c_status := CREDIT_AVAILABLE, c_consumed_at := None\<rparr>)"
    by (simp add: restore_row_def fun_eq_iff)
  ultimately show ?thesis
    using that(2) by (simp add: restore_for_job_def with_session_def restore_credit_for_job_def Let_def)
next
  case False
  moreover from False have "restore_for_job up job t = (False, t)"
    by (auto simp: restore_for_job_def with_session_def restore_credit_for_job_def
        split: sum.splits option.splits)
  ultimately show ?thesis by (rule that(1) [rotated])
qed

interpretation credit_refund: refund_ledger ledger_ok available_total restore_for_job
proof unfold_locales
  fix l up up' job
  let ?p = "\<lambda>r. c_job_id r = Some job \<and> c_status r = CREDIT_CONSUMED"
  show "restore_for_job False job l = (False, l)"
    by (simp add: restore_for_job_def)
  show "\<not> fst (restore_for_job up job l) \<Longrightarrow> snd (restore_for_job up job l) = l"
    by (cases rule: restore_for_job_cases [of up job l]) auto
  show "restore_for_job up' job (snd (restore_for_job True job l)) =
        (False, snd (restore_for_job True job l))"
  proof (cases rule: restore_for_job_cases [of True job l])
    case 1
    then show ?thesis by (cases rule: restore_for_job_cases [of up' job l]) auto
  next
    case (2 r)
    have "one_or_none ?p (update_row c_id (c_id r) restore_row l) = Inr None"
      using one_or_none_SomeD [OF 2(3)] unfolding one_or_none_None ct.set_rows_update
      by (auto simp: restore_row_def)
    with 2 show ?thesis
      by (cases rule: restore_for_job_cases [of up' job "update_row c_id (c_id r) restore_row l"]) auto
  qed
  assume ok: "ledger_ok l"
  then show "ledger_ok (snd (restore_for_job up job l))" by (simp add: restore_ok)
  assume true: "fst (restore_for_job up job l)"
  show "available_total (snd (restore_for_job up job l)) = Suc (available_total l)"
  proof (cases rule: restore_for_job_cases [of up job l])
    case (2 r)
    have "get_row c_id l (c_id r) = Some r" and "c_status r = CREDIT_CONSUMED"
      using one_or_none_get [OF ok 2(3)] one_or_none_SomeD [OF 2(3)] by auto
    then show ?thesis
      using ok 2 ct.count_update [of l "c_id r" r "\<lambda>r. c_status r = CREDIT_AVAILABLE" restore_row]
      by (simp add: ledger_ok_def restore_row_def available_total_def)
  qed (use true in simp)
qed

section \<open>Properties of the credit ledger\<close>

text \<open>
  Whatever sequence of claims, settlements, voids, spends and restores runs on an empty
  ledger, with any database outcome for each, the ledger stays well formed: primary keys are
  distinct, no two rows of a user share an idempotency key, a row is settled exactly when it
  is available or consumed, a settled row carries its amount, and a consumed row names the job
  it was spent on.
\<close>

theorem credit_ledger_well_formed: "ledger_ok (run credit_step empty_table cs)"
  by (rule credits.run_keeps) (rule ledger_ok_empty)

text \<open>
  C17: credits are not minted.  After any sequence of operations the number of credits, spendable
  or spent, is at most the number of settlements recorded; claiming, voiding, spending and
  restoring never create one.
\<close>

theorem credits_never_minted:
  "entitled (run credit_step empty_table cs) \<le> length (filter is_settle cs)"
proof -
  have "entitled (run credit_step t cs) \<le> entitled t + length (filter is_settle cs)"
    if "ledger_ok t" for t
    using that
  proof (induction cs arbitrary: t)
    case Nil
    then show ?case by simp
  next
    case (Cons c cs)
    have "entitled (run credit_step (credit_step t c) cs)
        \<le> entitled (credit_step t c) + length (filter is_settle cs)"
      using Cons.prems by (intro Cons.IH credit_step_ok)
    with credit_step_entitled [OF Cons.prems, of c] show ?case
      by (auto split: if_splits)
  qed
  from this [OF ledger_ok_empty] show ?thesis
    by (simp add: entitled_def count_rows_def empty_table_def)
qed

text \<open>
  C6: a retry is never charged twice.  Once a payment made under an idempotency key is settled,
  then after any further operations a claim with that key either fails because the database is
  down or answers that the key is already settled or already consumed; it never again grants
  the right to charge.
\<close>

theorem settled_key_never_claimed_again:
  assumes "ledger_ok t" and "key_settled user key t"
  shows "fst (claim up user (Some key) now (run credit_step t cs)) \<in>
           {Inl DatabaseError} \<union> range (\<lambda>i. Inr (Already_settled, i)) \<union>
           range (\<lambda>i. Inr (Already_consumed, i))"
proof -
  have "ledger_ok (run credit_step t cs)"
    using assms(1) by (rule credits.run_keeps)
  moreover have "key_settled user key (run credit_step t cs)"
    using assms by (intro credits.run_monotone [where P = "key_settled user key"] key_settled_step)
  ultimately show ?thesis using claim_settled_key by blast
qed

definition sample_payment :: payment_info where
  "sample_payment = \<lparr>p_payer = ''0xAb'', p_amount = ''2000000'', p_network = ''arc'',
     p_transaction = Some ''0x1''\<rparr>"

definition sample_ledger :: ledger where
  "sample_ledger = run credit_step empty_table
     [Claim True ''u'' (Some ''k'') 5, Settle True 1 sample_payment 6]"

lemma sample_ledger_facts:
  "ledger_ok sample_ledger" "key_settled ''u'' ''k'' sample_ledger"
proof -
  show "ledger_ok sample_ledger"
    unfolding sample_ledger_def by (rule credits.run_keeps) (rule ledger_ok_empty)
  show "key_settled ''u'' ''k'' sample_ledger" by code_simp
qed

theorem settled_key_never_claimed_again_witness:
  "fst (claim True ''u'' (Some ''k'') 9
          (run credit_step sample_ledger [Consume True 1 ''j'' 7, Restore True ''j''])) \<in>
     {Inl DatabaseError} \<union> range (\<lambda>i. Inr (Already_settled, i)) \<union>
     range (\<lambda>i. Inr (Already_consumed, i))"
  by (rule settled_key_never_claimed_again) (rule sample_ledger_facts)+

text \<open>
  Restoring is idempotent.  After one restore for a job, any further restore for that job
  reports that nothing was given back and leaves the ledger unchanged, so a duplicated
  terminal-state callback cannot produce a second credit.
\<close>

theorem restore_for_job_idempotent:
  "restore_for_job up' job (snd (restore_for_job True job t)) = (False, snd (restore_for_job True job t))"
  by (rule credit_refund.refund_once)

text \<open>
  A payer's ledger drains in the order they paid.  The credit that pays for the next
  generation is an available credit of that user, and no other available credit of the user was
  created earlier; when there is none, the user has no available credit at all.
\<close>

lemma sort_key_Nil_iff: "sort_key f xs = [] \<longleftrightarrow> xs = []"
  by (metis length_0_conv length_sort)

theorem take_available_credit_oldest:
  "case take_available_credit t user of
     None \<Rightarrow> user = [] \<or> (\<forall>r \<in> set (rows t). \<not> (c_user_id r = user \<and> c_status r = CREDIT_AVAILABLE))
   | Some r \<Rightarrow> r \<in> set (rows t) \<and> c_user_id r = user \<and> c_status r = CREDIT_AVAILABLE \<and>
       (\<forall>x \<in> set (rows t). c_user_id x = user \<and> c_status x = CREDIT_AVAILABLE \<longrightarrow>
          (c_created_at r, c_id r) \<le> (c_created_at x, c_id x))"
proof -
  let ?p = "\<lambda>r. c_user_id r = user \<and> c_status r = CREDIT_AVAILABLE"
  let ?s = "sort_key credit_order (filter ?p (rows t))"
  show ?thesis
  proof (cases ?s)
    case Nil
    then have "filter ?p (rows t) = []" by (simp add: sort_key_Nil_iff)
    with Nil show ?thesis by (auto simp: take_available_credit_def filter_empty_conv)
  next
    case (Cons r rest)
    have "sorted (map credit_order (r # rest))"
      using Cons by (metis sorted_sort_key)
    moreover have set: "set (r # rest) = {x \<in> set (rows t). ?p x}"
      using Cons by (metis set_filter set_sort)
    ultimately have "credit_order r \<le> credit_order x" if "x \<in> set (rows t)" "?p x" for x
      using that by (auto simp: sorted_wrt_map set_eq_iff)
    moreover have "r \<in> set (rows t)" "?p r" using set by auto
    ultimately show ?thesis
      using Cons by (auto simp: take_available_credit_def credit_order_def)
  qed
qed

text \<open>The hypothesis-free statement at a ledger with two available credits.\<close>

theorem take_available_credit_oldest_witness:
  "map_option c_id (take_available_credit
     (run credit_step empty_table
        [Claim True ''u'' None 5, Claim True ''u'' None 3,
         Settle True 1 sample_payment 6, Settle True 2 sample_payment 7]) ''u'') = Some 2 \<and>
   (case take_available_credit sample_ledger ''u'' of
     None \<Rightarrow> ''u'' = [] \<or> (\<forall>r \<in> set (rows sample_ledger). \<not> (c_user_id r = ''u'' \<and> c_status r = CREDIT_AVAILABLE))
   | Some r \<Rightarrow> r \<in> set (rows sample_ledger) \<and> c_user_id r = ''u'' \<and> c_status r = CREDIT_AVAILABLE \<and>
       (\<forall>x \<in> set (rows sample_ledger). c_user_id x = ''u'' \<and> c_status x = CREDIT_AVAILABLE \<longrightarrow>
          (c_created_at r, c_id r) \<le> (c_created_at x, c_id x)))"
proof
  show "map_option c_id (take_available_credit
     (run credit_step empty_table
        [Claim True ''u'' None 5, Claim True ''u'' None 3,
         Settle True 1 sample_payment 6, Settle True 2 sample_payment 7]) ''u'') = Some 2"
    by code_simp
qed (rule take_available_credit_oldest)

end
