(* ===== verification/FreeGrants.thy ===== *)
theory FreeGrants
  imports Prelude
begin

text \<open>
  The lifetime allowance of free generations: \<^verbatim>\<open>models/free_generation_grant.py\<close> (one row per
  claimed slot, numbered per account) and \<^verbatim>\<open>services/free_generations.py\<close> (the wrappers, in
  which every failure means \<^emph>\<open>no free slot\<close>).  The last section models the statements of a
  claim one by one, to see what concurrent claims can do.
\<close>

section \<open>The record\<close>

datatype grant_status = GRANT_USED | GRANT_RELEASED

record grant =
  g_id :: nat
  g_user_id :: string
  g_seq :: nat
  g_status :: grant_status
  g_job_id :: "string option"
  g_created_at :: int
  g_released_at :: "int option"

type_synonym grants = "grant table"

section \<open>Persistence: models/free\_generation\_grant.py\<close>

definition used_by :: "string \<Rightarrow> grant \<Rightarrow> bool" where
  "used_by user r \<longleftrightarrow> g_user_id r = user \<and> g_status r = GRANT_USED"

definition used_count :: "grants \<Rightarrow> string \<Rightarrow> nat" where
  "used_count t user = (if user = [] then 0 else count_rows (used_by user) t)"

text \<open>\<^verbatim>\<open>SELECT max(seq) WHERE user_id = ...\<close>, read through \<^verbatim>\<open>int(highest or 0)\<close>.\<close>

definition highest_seq :: "grants \<Rightarrow> string \<Rightarrow> nat" where
  "highest_seq t user = fold max (map g_seq (filter (\<lambda>r. g_user_id r = user) (rows t))) 0"

definition seq_taken :: "grants \<Rightarrow> string \<Rightarrow> nat \<Rightarrow> bool" where
  "seq_taken t user n \<longleftrightarrow> (\<exists>r \<in> set (rows t). g_user_id r = user \<and> g_seq r = n)"

text \<open>The insert, under the unique constraint on \<open>(user_id, seq)\<close>.\<close>

definition insert_grant :: "string \<Rightarrow> nat \<Rightarrow> int \<Rightarrow> (grants, grant) op" where
  "insert_grant user n now t =
     (if seq_taken t user n then (Inl IntegrityError, t)
      else let r = \<lparr>g_id = next_id t, g_user_id = user, g_seq = n, g_status = GRANT_USED,
                    g_job_id = None, g_created_at = now, g_released_at = None\<rparr>
           in (Inr r, insert_row r t))"

definition claim_free_grant :: "string \<Rightarrow> int \<Rightarrow> int \<Rightarrow> (grants, grant option) op" where
  "claim_free_grant user allow now t =
     (if user = [] \<or> allow \<le> 0 then (Inr None, t)
      else if int (used_count t user) \<ge> allow then (Inr None, t)
      else case insert_grant user (highest_seq t user + 1) now t of
             (Inl e, t') \<Rightarrow> (Inl e, t')
           | (Inr r, t') \<Rightarrow> (Inr (Some r), t'))"

definition stamp_grant_job :: "nat \<Rightarrow> string \<Rightarrow> grants \<Rightarrow> grant option \<times> grants" where
  "stamp_grant_job i job t =
     (case get_row g_id t i of
        None \<Rightarrow> (None, t)
      | Some r \<Rightarrow>
          if g_status r \<noteq> GRANT_USED then (None, t)
          else let upd = (\<lambda>r. r\<lparr>g_job_id := Some job\<rparr>)
               in (Some (upd r), update_row g_id i upd t))"

definition release_row :: "int \<Rightarrow> grant \<Rightarrow> grant" where
  "release_row now r = r\<lparr>g_status := GRANT_RELEASED, g_released_at := Some now\<rparr>"

definition release_grant :: "nat \<Rightarrow> int \<Rightarrow> grants \<Rightarrow> grant option \<times> grants" where
  "release_grant i now t =
     (case get_row g_id t i of
        None \<Rightarrow> (None, t)
      | Some r \<Rightarrow>
          if g_status r \<noteq> GRANT_USED then (None, t)
          else (Some (release_row now r), update_row g_id i (release_row now) t))"

definition release_grant_for_job :: "string \<Rightarrow> int \<Rightarrow> (grants, grant option) op" where
  "release_grant_for_job job now t =
     (if job = [] then (Inr None, t)
      else case one_or_none (\<lambda>r. g_job_id r = Some job \<and> g_status r = GRANT_USED) t of
        Inl e \<Rightarrow> (Inl e, t)
      | Inr None \<Rightarrow> (Inr None, t)
      | Inr (Some r) \<Rightarrow>
          (Inr (Some (release_row now r)), update_row g_id (g_id r) (release_row now) t))"

section \<open>Sessions: services/free\_generations.py\<close>

definition DEFAULT_ALLOWANCE :: int where
  "DEFAULT_ALLOWANCE = 3"

definition LOCK_EMAIL_UNVERIFIED :: string where
  "LOCK_EMAIL_UNVERIFIED = ''email_unverified''"

definition allowance :: "environ \<Rightarrow> int" where
  "allowance env = env_int env ''FREE_GENERATIONS_PER_ACCOUNT'' DEFAULT_ALLOWANCE"

definition locked_reason :: "environ \<Rightarrow> bool \<Rightarrow> string option" where
  "locked_reason env email_verified =
     (if allowance env \<le> 0 then None
      else if email_verified then None else Some LOCK_EMAIL_UNVERIFIED)"

definition claim_slot :: "environ \<Rightarrow> bool \<Rightarrow> string \<Rightarrow> bool \<Rightarrow> int \<Rightarrow> grants \<Rightarrow> nat option \<times> grants" where
  "claim_slot env up user email_verified now t =
     (if user = [] then (None, t)
      else if allowance env \<le> 0 then (None, t)
      else if locked_reason env email_verified \<noteq> None then (None, t)
      else quiet None (with_session up
             (\<lambda>t. case claim_free_grant user (allowance env) now t of
                    (Inl e, t') \<Rightarrow> (Inl e, t')
                  | (Inr g, t') \<Rightarrow> (Inr (map_option g_id g), t')) t))"

definition stamp_job :: "bool \<Rightarrow> nat \<Rightarrow> string \<Rightarrow> grants \<Rightarrow> grants" where
  "stamp_job up i job t =
     snd (quiet () (with_session up (\<lambda>t. (Inr (), snd (stamp_grant_job i job t))) t))"

definition release :: "bool \<Rightarrow> nat \<Rightarrow> int \<Rightarrow> grants \<Rightarrow> grants" where
  "release up i now t =
     snd (quiet () (with_session up (\<lambda>t. (Inr (), snd (release_grant i now t))) t))"

definition release_for_job :: "int \<Rightarrow> bool \<Rightarrow> string \<Rightarrow> grants \<Rightarrow> bool \<times> grants" where
  "release_for_job now up job t =
     (if job = [] then (False, t)
      else quiet False (with_session up
             (\<lambda>t. case release_grant_for_job job now t of
                    (Inl e, t') \<Rightarrow> (Inl e, t')
                  | (Inr g, t') \<Rightarrow> (Inr (g \<noteq> None), t')) t))"

definition remaining :: "environ \<Rightarrow> bool \<Rightarrow> string \<Rightarrow> grants \<Rightarrow> int option" where
  "remaining env up user t =
     (if allowance env \<le> 0 then Some 0
      else fst (quiet None (with_session up
             (\<lambda>t. (Inr (Some (max 0 (allowance env - int (used_count t user)))), t)) t)))"

section \<open>The ledger as a transition system\<close>

datatype grant_cmd =
    Claim_slot bool string bool int
  | Stamp bool nat string
  | Release bool nat int
  | Release_job bool string int

fun grant_step :: "environ \<Rightarrow> grants \<Rightarrow> grant_cmd \<Rightarrow> grants" where
  "grant_step env t (Claim_slot up user verified now) = snd (claim_slot env up user verified now t)"
| "grant_step env t (Stamp up i job) = stamp_job up i job t"
| "grant_step env t (Release up i now) = release up i now t"
| "grant_step env t (Release_job up job now) = snd (release_for_job now up job t)"

definition seqs_distinct :: "grants \<Rightarrow> bool" where
  "seqs_distinct t \<longleftrightarrow> distinct (map (\<lambda>r. (g_user_id r, g_seq r)) (rows t))"

definition grants_ok :: "grants \<Rightarrow> bool" where
  "grants_ok t \<longleftrightarrow> keys_ok g_id t \<and> seqs_distinct t"

definition within_allowance :: "environ \<Rightarrow> grants \<Rightarrow> bool" where
  "within_allowance env t \<longleftrightarrow>
     grants_ok t \<and> (\<forall>user. int (used_count t user) \<le> max 0 (allowance env))"

interpretation gt: keyed_table g_id .

section \<open>Every operation keeps the allowance\<close>

definition keeps_slot :: "(grant \<Rightarrow> grant) \<Rightarrow> bool" where
  "keeps_slot f \<longleftrightarrow> (\<forall>r. g_id (f r) = g_id r \<and> g_user_id (f r) = g_user_id r \<and> g_seq (f r) = g_seq r)"

lemma grants_ok_update:
  assumes "grants_ok t" and "keeps_slot f"
  shows "grants_ok (update_row g_id i f t)"
proof -
  have "(\<lambda>r. (g_user_id r, g_seq r)) \<circ> (\<lambda>r. if g_id r = i then f r else r)
      = (\<lambda>r. (g_user_id r, g_seq r))"
    using assms(2) by (auto simp: keeps_slot_def)
  then have "seqs_distinct (update_row g_id i f t)"
    using assms(1) by (simp add: seqs_distinct_def update_row_def grants_ok_def)
  moreover have "keys_ok g_id (update_row g_id i f t)"
    using assms by (intro gt.keys_ok_update) (auto simp: grants_ok_def keeps_slot_def)
  ultimately show ?thesis by (simp add: grants_ok_def)
qed

lemma used_count_update_le:
  assumes "\<And>r. used_by user (f r) \<Longrightarrow> used_by user r"
  shows "used_count (update_row g_id i f t) user \<le> used_count t user"
proof -
  have "length (filter (used_by user) (map (\<lambda>r. if g_id r = i then f r else r) xs))
      \<le> length (filter (used_by user) xs)" for xs
    using assms by (induction xs) auto
  then show ?thesis by (simp add: used_count_def count_rows_def update_row_def)
qed

lemma within_allowance_update:
  assumes "within_allowance env t" and "keeps_slot f"
    and "\<And>r user. used_by user (f r) \<Longrightarrow> used_by user r"
  shows "within_allowance env (update_row g_id i f t)"
proof -
  have "int (used_count (update_row g_id i f t) user) \<le> max 0 (allowance env)" for user
  proof -
    have "used_count (update_row g_id i f t) user \<le> used_count t user"
      using assms(3) by (rule used_count_update_le)
    also have "int \<dots> \<le> max 0 (allowance env)"
      using assms(1) by (simp add: within_allowance_def)
    finally show ?thesis by simp
  qed
  then show ?thesis
    using assms(1,2) by (simp add: within_allowance_def grants_ok_update)
qed

lemma insert_grant_ok:
  assumes "within_allowance env t" and "insert_grant user n now t = (Inr r, t')"
    and "int (used_count t user) < allowance env"
  shows "within_allowance env t'"
proof -
  have free: "\<not> seq_taken t user n" and t': "t' = insert_row r t"
    and r: "g_id r = next_id t" "g_user_id r = user" "g_seq r = n" "g_status r = GRANT_USED"
    using assms(2) by (auto simp: insert_grant_def Let_def split: if_splits)
  have "keys_ok g_id t'"
    unfolding t' using assms(1) r(1)
    by (intro gt.keys_ok_insert) (auto simp: within_allowance_def grants_ok_def)
  moreover have "seqs_distinct t'"
    using assms(1) free r
    by (auto simp: t' seqs_distinct_def within_allowance_def grants_ok_def seq_taken_def)
  moreover have "int (used_count t' user') \<le> max 0 (allowance env)" for user'
  proof (cases "user' = user")
    case True
    then show ?thesis
      using assms(3) by (auto simp: t' used_count_def gt.count_insert)
  next
    case False
    then have "used_count t' user' = used_count t user'"
      using r by (simp add: t' used_count_def gt.count_insert used_by_def)
    with assms(1) show ?thesis by (simp add: within_allowance_def)
  qed
  ultimately show ?thesis by (simp add: within_allowance_def grants_ok_def)
qed

lemma claim_free_grant_ok:
  assumes "within_allowance env t" and "claim_free_grant user (allowance env) now t = (Inr g, t')"
  shows "within_allowance env t'"
proof (cases "user = [] \<or> allowance env \<le> 0 \<or> int (used_count t user) \<ge> allowance env")
  case True
  then have "claim_free_grant user (allowance env) now t = (Inr None, t)"
    unfolding claim_free_grant_def by presburger
  with assms show ?thesis by simp
next
  case False
  then have "claim_free_grant user (allowance env) now t =
      (case insert_grant user (highest_seq t user + 1) now t of
         (Inl e, t') \<Rightarrow> (Inl e, t') | (Inr r, t') \<Rightarrow> (Inr (Some r), t'))"
    unfolding claim_free_grant_def by presburger
  with assms(2) obtain r where "insert_grant user (highest_seq t user + 1) now t = (Inr r, t')"
    by (auto split: prod.splits sum.splits)
  from assms(1) this show ?thesis by (rule insert_grant_ok) (use False in simp)
qed

lemma claim_slot_ok:
  assumes "within_allowance env t"
  shows "within_allowance env (snd (claim_slot env up user verified now t))"
proof -
  have "within_allowance env (snd (with_session up
          (\<lambda>t. case claim_free_grant user (allowance env) now t of
                 (Inl e, t') \<Rightarrow> (Inl e, t')
               | (Inr g, t') \<Rightarrow> (Inr (map_option g_id g), t')) t))"
    by (rule with_session_keeps [of "within_allowance env", OF assms])
      (auto dest: claim_free_grant_ok [OF assms] split: prod.splits sum.splits)
  with assms show ?thesis by (simp add: claim_slot_def)
qed

lemma keeps_slot_facts:
  "keeps_slot (\<lambda>r. r\<lparr>g_job_id := j\<rparr>)" "keeps_slot (release_row now)"
  "used_by user (release_row now r) \<Longrightarrow> used_by user r"
  "used_by user (r\<lparr>g_job_id := j\<rparr>) \<Longrightarrow> used_by user r"
  by (simp_all add: keeps_slot_def release_row_def used_by_def)

lemma stamp_job_ok: "within_allowance env t \<Longrightarrow> within_allowance env (stamp_job up i job t)"
  unfolding stamp_job_def snd_quiet
  by (rule with_session_keeps)
    (auto simp: stamp_grant_job_def Let_def intro!: within_allowance_update
      intro: keeps_slot_facts split: option.splits)

lemma release_ok: "within_allowance env t \<Longrightarrow> within_allowance env (release up i now t)"
  unfolding release_def snd_quiet
  by (rule with_session_keeps)
    (auto simp: release_grant_def intro!: within_allowance_update
      intro: keeps_slot_facts split: option.splits)

lemma release_grant_for_job_ok:
  "within_allowance env t \<Longrightarrow> release_grant_for_job job now t = (Inr g, t') \<Longrightarrow> within_allowance env t'"
  by (auto simp: release_grant_for_job_def intro!: within_allowance_update
      intro: keeps_slot_facts split: if_splits sum.splits option.splits)

lemma release_for_job_ok:
  "within_allowance env t \<Longrightarrow> within_allowance env (snd (release_for_job now up job t))"
  unfolding release_for_job_def
  by (auto intro!: with_session_keeps [where I = "within_allowance env"]
      dest: release_grant_for_job_ok split: prod.splits sum.splits)

lemma grant_step_ok: "within_allowance env t \<Longrightarrow> within_allowance env (grant_step env t c)"
  by (cases c) (simp_all add: claim_slot_ok stamp_job_ok release_ok release_for_job_ok)

lemma within_allowance_empty: "within_allowance env empty_table"
  by (simp add: within_allowance_def grants_ok_def seqs_distinct_def gt.keys_ok_empty
      used_count_def count_rows_def)

interpretation slots: step_invariant "grant_step env" "within_allowance env" for env
  by unfold_locales (rule grant_step_ok)


section \<open>Refunds\<close>

definition released_total :: "grants \<Rightarrow> nat" where
  "released_total t = count_rows (\<lambda>r. g_status r = GRANT_RELEASED) t"

lemma release_grant_for_job_cases:
  assumes "grants_ok t"
  obtains "fst (release_for_job now up job t) = False" "snd (release_for_job now up job t) = t"
  | r where "up" "job \<noteq> []"
      "one_or_none (\<lambda>r. g_job_id r = Some job \<and> g_status r = GRANT_USED) t = Inr (Some r)"
      "release_for_job now up job t = (True, update_row g_id (g_id r) (release_row now) t)"
proof (cases "\<exists>r. up \<and> job \<noteq> [] \<and>
    one_or_none (\<lambda>r. g_job_id r = Some job \<and> g_status r = GRANT_USED) t = Inr (Some r)")
  case True
  then show ?thesis
    using that(2) by (auto simp: release_for_job_def with_session_def release_grant_for_job_def)
next
  case False
  then show ?thesis
    using that(1)
    by (auto simp: release_for_job_def with_session_def release_grant_for_job_def
        split: sum.splits option.splits)
qed

interpretation free_refund: refund_ledger grants_ok released_total "release_for_job now" for now
proof unfold_locales
  fix l up up' job
  let ?p = "\<lambda>r. g_job_id r = Some job \<and> g_status r = GRANT_USED"
  show "release_for_job now False job l = (False, l)"
    by (simp add: release_for_job_def)
  show none: "\<not> fst (release_for_job now up job l) \<Longrightarrow> snd (release_for_job now up job l) = l"
    by (auto simp: release_for_job_def with_session_def release_grant_for_job_def
        split: if_splits sum.splits option.splits)
  show "release_for_job now up' job (snd (release_for_job now True job l)) =
        (False, snd (release_for_job now True job l))"
  proof (cases "\<exists>r. job \<noteq> [] \<and> one_or_none ?p l = Inr (Some r)")
    case True
    then obtain r where r: "job \<noteq> []" "one_or_none ?p l = Inr (Some r)" by blast
    then have "one_or_none ?p (update_row g_id (g_id r) (release_row now) l) = Inr None"
      using one_or_none_SomeD [OF r(2)] unfolding one_or_none_None gt.set_rows_update
      by (auto simp: release_row_def)
    with r show ?thesis
      by (auto simp: release_for_job_def with_session_def release_grant_for_job_def)
  next
    case False
    then have "release_for_job now up job l = (False, l)" for up
      by (auto simp: release_for_job_def with_session_def release_grant_for_job_def
          split: sum.splits option.splits)
    then show ?thesis by simp
  qed
  assume ok: "grants_ok l"
  show "grants_ok (snd (release_for_job now up job l))"
    using ok
  proof (cases rule: release_grant_for_job_cases [where now = now and up = up and job = job])
    case (2 r)
    then show ?thesis using grants_ok_update [OF ok keeps_slot_facts(2)] by simp
  qed (use ok in simp)
  assume true: "fst (release_for_job now up job l)"
  from ok show "released_total (snd (release_for_job now up job l)) = Suc (released_total l)"
  proof (cases rule: release_grant_for_job_cases [where now = now and up = up and job = job])
    case (2 r)
    have "get_row g_id l (g_id r) = Some r" and st: "g_status r = GRANT_USED"
      using ok one_or_none_SomeD [OF 2(3)] by (auto simp: gt.get_row_Some grants_ok_def)
    with ok have "count_rows (\<lambda>r. g_status r = GRANT_RELEASED)
          (update_row g_id (g_id r) (release_row now) l) = Suc (released_total l)"
      using gt.count_update [of l "g_id r" r "\<lambda>r. g_status r = GRANT_RELEASED" "release_row now"]
      by (simp add: grants_ok_def release_row_def released_total_def)
    with 2 show ?thesis by (simp add: released_total_def)
  qed (use true in simp)
qed


section \<open>Concurrent claims, statement by statement\<close>

text \<open>
  \<open>claim_free_grant\<close> issues three statements: it counts the used slots, it reads the highest
  ordinal, it inserts.  At the isolation level of the deployment's database each statement reads
  what is committed when it starts (\<^verbatim>\<open>db.py\<close> sets no isolation level, and PostgreSQL's default
  is \<^emph>\<open>read committed\<close>), so other requests may commit between them.  \<open>rc_step\<close> is that
  interleaving for one account; the insert and its commit are one step, because an uncommitted row
  is invisible and a conflicting insert waits for it.  \<open>snap_step\<close> is the same machine when the two
  reads of one request see one snapshot.
\<close>

datatype txn = Begin | Counted | Numbered nat | Granted | Refused

record race =
  race_grants :: grants
  race_txn :: "nat \<Rightarrow> txn"

definition set_txn :: "nat \<Rightarrow> txn \<Rightarrow> race \<Rightarrow> race" where
  "set_txn i x s = s\<lparr>race_txn := (race_txn s)(i := x)\<rparr>"

inductive rc_step :: "string \<Rightarrow> int \<Rightarrow> race \<Rightarrow> race \<Rightarrow> bool" for user allow where
  rc_count: "race_txn s i = Begin \<Longrightarrow> int (used_count (race_grants s) user) < allow \<Longrightarrow>
     rc_step user allow s (set_txn i Counted s)"
| rc_full: "race_txn s i = Begin \<Longrightarrow> allow \<le> int (used_count (race_grants s) user) \<Longrightarrow>
     rc_step user allow s (set_txn i Refused s)"
| rc_number: "race_txn s i = Counted \<Longrightarrow>
     rc_step user allow s (set_txn i (Numbered (highest_seq (race_grants s) user + 1)) s)"
| rc_insert: "race_txn s i = Numbered n \<Longrightarrow> insert_grant user n now (race_grants s) = (Inr r, t) \<Longrightarrow>
     rc_step user allow s (set_txn i Granted (s\<lparr>race_grants := t\<rparr>))"
| rc_conflict: "race_txn s i = Numbered n \<Longrightarrow> insert_grant user n now (race_grants s) = (Inl e, t) \<Longrightarrow>
     rc_step user allow s (set_txn i Refused s)"
| rc_release: "rc_step user allow s (s\<lparr>race_grants := snd (release_grant g now (race_grants s))\<rparr>)"

inductive snap_step :: "string \<Rightarrow> int \<Rightarrow> race \<Rightarrow> race \<Rightarrow> bool" for user allow where
  sn_read: "race_txn s i = Begin \<Longrightarrow> int (used_count (race_grants s) user) < allow \<Longrightarrow>
     snap_step user allow s (set_txn i (Numbered (highest_seq (race_grants s) user + 1)) s)"
| sn_full: "race_txn s i = Begin \<Longrightarrow> allow \<le> int (used_count (race_grants s) user) \<Longrightarrow>
     snap_step user allow s (set_txn i Refused s)"
| sn_insert: "race_txn s i = Numbered n \<Longrightarrow> insert_grant user n now (race_grants s) = (Inr r, t) \<Longrightarrow>
     snap_step user allow s (set_txn i Granted (s\<lparr>race_grants := t\<rparr>))"
| sn_conflict: "race_txn s i = Numbered n \<Longrightarrow> insert_grant user n now (race_grants s) = (Inl e, t) \<Longrightarrow>
     snap_step user allow s (set_txn i Refused s)"
| sn_release: "snap_step user allow s (s\<lparr>race_grants := snd (release_grant g now (race_grants s))\<rparr>)"

definition race_start :: race where
  "race_start = \<lparr>race_grants = empty_table, race_txn = (\<lambda>_. Begin)\<rparr>"

lemma set_txn_simps [simp]:
  "race_grants (set_txn i x s) = race_grants s"
  "race_txn (set_txn i x s) j = (if j = i then x else race_txn s j)"
  by (simp_all add: set_txn_def)

text \<open>One request on its own runs through the statements to the result of \<open>claim_free_grant\<close>.\<close>

lemma claim_free_grant_statements:
  assumes "user \<noteq> []" and "0 < allow" and "race_txn s i = Begin"
    and "claim_free_grant user allow now (race_grants s) = (Inr (Some r), t)"
  shows "(rc_step user allow)\<^sup>*\<^sup>* s (set_txn i Granted (s\<lparr>race_grants := t\<rparr>))"
proof -
  let ?n = "highest_seq (race_grants s) user + 1"
  have used: "int (used_count (race_grants s) user) < allow"
    and ins: "insert_grant user ?n now (race_grants s) = (Inr r, t)"
    using assms(1,2,4)
    by (auto simp: claim_free_grant_def split: if_splits prod.splits sum.splits)
  have 1: "rc_step user allow s (set_txn i Counted s)"
    using assms(3) used by (rule rc_count)
  have 2: "rc_step user allow (set_txn i Counted s) (set_txn i (Numbered ?n) (set_txn i Counted s))"
    using rc_number [of "set_txn i Counted s" i user allow] by simp
  let ?s2 = "set_txn i (Numbered ?n) (set_txn i Counted s)"
  have 3: "rc_step user allow ?s2 (set_txn i Granted (?s2\<lparr>race_grants := t\<rparr>))"
    by (rule rc_insert) (use ins in simp_all)
  have "set_txn i Granted (?s2\<lparr>race_grants := t\<rparr>) = set_txn i Granted (s\<lparr>race_grants := t\<rparr>)"
    by (simp add: set_txn_def)
  with 1 2 3 show ?thesis
    by (metis (no_types, lifting) converse_rtranclp_into_rtranclp r_into_rtranclp)
qed

subsection \<open>One snapshot per request keeps the allowance\<close>

lemma fold_max_snoc: "fold max (xs @ [n]) (0::nat) = max n (fold max xs 0)"
  by simp

lemma highest_seq_insert:
  "highest_seq (insert_row r t) user =
     (if g_user_id r = user then max (g_seq r) (highest_seq t user) else highest_seq t user)"
  by (simp add: highest_seq_def fold_max_snoc)

lemma highest_seq_update:
  assumes "keeps_slot f"
  shows "highest_seq (update_row g_id i f t) user = highest_seq t user"
proof -
  have "map g_seq (filter (\<lambda>r. g_user_id r = user) (map (\<lambda>r. if g_id r = i then f r else r) xs))
      = map g_seq (filter (\<lambda>r. g_user_id r = user) xs)" for xs
    using assms by (induction xs) (auto simp: keeps_slot_def)
  then show ?thesis by (simp add: highest_seq_def update_row_def)
qed

lemma seq_taken_update:
  assumes "keeps_slot f"
  shows "seq_taken (update_row g_id i f t) user n \<longleftrightarrow> seq_taken t user n"
proof -
  have "g_user_id (if g_id r = i then f r else r) = g_user_id r"
    "g_seq (if g_id r = i then f r else r) = g_seq r" for r
    using assms by (simp_all add: keeps_slot_def)
  then show ?thesis unfolding seq_taken_def gt.set_rows_update bex_simps(7) by presburger
qed

definition snap_inv :: "string \<Rightarrow> int \<Rightarrow> race \<Rightarrow> bool" where
  "snap_inv user allow s \<longleftrightarrow>
     int (used_count (race_grants s) user) \<le> max 0 allow \<and>
     (\<forall>n. 1 \<le> n \<and> n \<le> highest_seq (race_grants s) user \<longrightarrow> seq_taken (race_grants s) user n) \<and>
     (\<forall>i n. race_txn s i = Numbered n \<longrightarrow>
        1 \<le> n \<and> (n \<le> highest_seq (race_grants s) user \<or>
          n = highest_seq (race_grants s) user + 1 \<and> int (used_count (race_grants s) user) < allow))"

lemma snap_inv_release:
  assumes "snap_inv user allow s"
  shows "snap_inv user allow (s\<lparr>race_grants := snd (release_grant g now (race_grants s))\<rparr>)"
proof (cases "snd (release_grant g now (race_grants s)) = race_grants s")
  case True
  with assms show ?thesis by simp
next
  case False
  then have t: "snd (release_grant g now (race_grants s))
      = update_row g_id g (release_row now) (race_grants s)"
    by (auto simp: release_grant_def split: option.splits if_splits)
  have "used_count (update_row g_id g (release_row now) (race_grants s)) user
      \<le> used_count (race_grants s) user"
    by (rule used_count_update_le) (rule keeps_slot_facts)
  with assms show ?thesis
    by (fastforce simp: snap_inv_def t highest_seq_update seq_taken_update keeps_slot_facts)
qed

lemma snap_inv_insert:
  assumes "snap_inv user allow s" and "race_txn s i = Numbered n"
    and "insert_grant user n now (race_grants s) = (Inr r, t)"
  shows "snap_inv user allow (set_txn i Granted (s\<lparr>race_grants := t\<rparr>))"
proof -
  let ?h = "highest_seq (race_grants s) user"
  have free: "\<not> seq_taken (race_grants s) user n" and t: "t = insert_row r (race_grants s)"
    and r: "g_user_id r = user" "g_seq r = n" "g_status r = GRANT_USED"
    using assms(3) by (auto simp: insert_grant_def Let_def split: if_splits)
  have n: "n = ?h + 1" and used: "int (used_count (race_grants s) user) < allow"
    using assms(1,2) free by (auto simp: snap_inv_def)
  have h: "highest_seq t user = ?h + 1"
    using n r by (simp add: t highest_seq_insert)
  have "int (used_count t user) \<le> max 0 allow"
    using used by (auto simp: t used_count_def gt.count_insert split: if_splits)
  moreover have "seq_taken t user m" if "1 \<le> m" "m \<le> ?h + 1" for m
    using that assms(1) n r by (cases "m = ?h + 1") (auto simp: t seq_taken_def snap_inv_def)
  moreover have "1 \<le> m \<and> m \<le> ?h + 1" if "race_txn s j = Numbered m" for j m
    using assms(1) that unfolding snap_inv_def by fastforce
  ultimately show ?thesis using h by (simp add: snap_inv_def)
qed

lemma snap_step_inv: "snap_step user allow s s' \<Longrightarrow> snap_inv user allow s \<Longrightarrow> snap_inv user allow s'"
proof (induction rule: snap_step.induct)
  case (sn_insert s i n now r t)
  then show ?case by (blast intro: snap_inv_insert)
next
  case (sn_release s g now)
  then show ?case by (rule snap_inv_release)
qed (auto simp: snap_inv_def)

lemma snap_reachable_inv:
  assumes "(snap_step user allow)\<^sup>*\<^sup>* race_start s"
  shows "snap_inv user allow s"
  using assms
proof (induction rule: rtranclp_induct)
  case base
  show ?case
    by (simp add: snap_inv_def race_start_def used_count_def count_rows_def highest_seq_def)
next
  case (step s s')
  then show ?case by (blast intro: snap_step_inv)
qed


section \<open>Properties of the free allowance\<close>

text \<open>
  C18: requests handled one after the other never hand out more than the lifetime allowance.
  After any sequence of claims, job stamps and releases, with any database outcome for each, no
  account has more used slots than the configured allowance (none at all when the allowance is zero
  or negative), primary keys are distinct, and no account has two rows with the same ordinal.
\<close>

theorem free_allowance_never_exceeded:
  "within_allowance env (run (grant_step env) empty_table cs)"
  by (rule slots.run_keeps) (rule within_allowance_empty)

text \<open>
  When the two reads of a claim see one snapshot, the unique ordinal makes concurrent claims
  safe: in every state that interleaved requests and releases can reach, the account has used at
  most its allowance.
\<close>

theorem snapshot_claims_within_allowance:
  assumes "(snap_step user allow)\<^sup>*\<^sup>* race_start s"
  shows "int (used_count (race_grants s) user) \<le> max 0 allow"
  using snap_reachable_inv [OF assms] by (simp add: snap_inv_def)

definition slot_row :: "nat \<Rightarrow> grant" where
  "slot_row n = \<lparr>g_id = n, g_user_id = ''u'', g_seq = n, g_status = GRANT_USED,
     g_job_id = None, g_created_at = 0, g_released_at = None\<rparr>"

lemma insert_first_slot:
  "insert_grant ''u'' 1 0 empty_table = (Inr (slot_row 1), insert_row (slot_row 1) empty_table)"
  by (simp add: insert_grant_def seq_taken_def slot_row_def empty_table_def Let_def)

theorem snapshot_claims_within_allowance_witness:
  "\<exists>s. (snap_step ''u'' 1)\<^sup>*\<^sup>* race_start s \<and> race_txn s 0 = Granted \<and>
       int (used_count (race_grants s) ''u'') \<le> max 0 1"
proof -
  let ?s1 = "set_txn 0 (Numbered 1) race_start"
  let ?s2 = "set_txn 0 Granted (?s1\<lparr>race_grants := insert_row (slot_row 1) empty_table\<rparr>)"
  have "snap_step ''u'' 1 race_start ?s1"
    using sn_read [of race_start 0 "''u''" 1]
    by (simp add: race_start_def used_count_def count_rows_def highest_seq_def)
  moreover have "snap_step ''u'' 1 ?s1 ?s2"
    by (rule sn_insert [where n = 1 and now = 0 and r = "slot_row 1"])
      (simp_all add: race_start_def insert_first_slot [simplified])
  ultimately have "(snap_step ''u'' 1)\<^sup>*\<^sup>* race_start ?s2" by auto
  moreover note snapshot_claims_within_allowance [OF this]
  moreover have "race_txn ?s2 0 = Granted" by simp
  ultimately show ?thesis by blast
qed

lemma insert_second_slot:
  "insert_grant ''u'' 2 0 (insert_row (slot_row 1) empty_table) =
     (Inr (slot_row 2), insert_row (slot_row 2) (insert_row (slot_row 1) empty_table))"
  by (simp add: insert_grant_def seq_taken_def slot_row_def empty_table_def Let_def)

text \<open>
  With one snapshot per statement the unique ordinal is not enough.  Two requests that both
  count before either inserts, and where the second reads the highest ordinal only after the first
  has committed, both get a slot: an account with an allowance of one reaches two used slots.
\<close>

theorem read_committed_overgrant:
  "\<exists>s. (rc_step ''u'' 1)\<^sup>*\<^sup>* race_start s \<and> used_count (race_grants s) ''u'' = 2"
proof -
  let ?t1 = "insert_row (slot_row 1) empty_table"
  let ?t2 = "insert_row (slot_row 2) ?t1"
  let ?s1 = "set_txn 0 Counted race_start"
  let ?s2 = "set_txn 1 Counted ?s1"
  let ?s3 = "set_txn 0 (Numbered 1) ?s2"
  let ?s4 = "set_txn 0 Granted (?s3\<lparr>race_grants := ?t1\<rparr>)"
  let ?s5 = "set_txn 1 (Numbered 2) ?s4"
  let ?s6 = "set_txn 1 Granted (?s5\<lparr>race_grants := ?t2\<rparr>)"
  have h: "highest_seq empty_table ''u'' = 0" "highest_seq ?t1 ''u'' = 1"
    by (simp_all add: highest_seq_def slot_row_def)
  have "rc_step ''u'' 1 race_start ?s1"
    by (rule rc_count) (simp_all add: race_start_def used_count_def count_rows_def)
  moreover have "rc_step ''u'' 1 ?s1 ?s2"
    by (rule rc_count) (simp_all add: race_start_def used_count_def count_rows_def)
  moreover have "rc_step ''u'' 1 ?s2 ?s3"
    using rc_number [of ?s2 0 "''u''" 1] by (simp add: race_start_def h)
  moreover have "rc_step ''u'' 1 ?s3 ?s4"
    by (rule rc_insert [where n = 1 and now = 0 and r = "slot_row 1"])
      (simp_all add: race_start_def insert_first_slot [simplified])
  moreover have "rc_step ''u'' 1 ?s4 ?s5"
    using rc_number [of ?s4 1 "''u''" 1] h [simplified] by (simp add: numeral_2_eq_2)
  moreover have "rc_step ''u'' 1 ?s5 ?s6"
    by (rule rc_insert [where n = 2 and now = 0 and r = "slot_row 2"])
      (simp_all add: insert_second_slot [simplified])
  ultimately have "(rc_step ''u'' 1)\<^sup>*\<^sup>* race_start ?s6"
    by (meson rtranclp.rtrancl_into_rtrancl rtranclp.rtrancl_refl)
  moreover have "used_count (race_grants ?s6) ''u'' = 2"
    by (simp add: used_count_def count_rows_def used_by_def slot_row_def)
  ultimately show ?thesis by blast
qed

text \<open>
  An unverified account never touches the ledger, and neither does anybody when the policy is
  switched off or the database is down: \<open>claim_slot\<close> then answers that there is no slot, and the
  ledger is unchanged.  A granted slot is a fresh row of that account, marked used, with no job yet,
  and it was granted below the allowance.
\<close>

theorem claim_slot_behaviour:
  "case claim_slot env up user verified now t of
     (None, t') \<Rightarrow> t' = t
   | (Some i, t') \<Rightarrow> up \<and> user \<noteq> [] \<and> verified \<and> int (used_count t user) < allowance env \<and>
       (\<exists>r. t' = insert_row r t \<and> g_id r = i \<and> g_user_id r = user \<and> g_seq r = highest_seq t user + 1 \<and>
            g_status r = GRANT_USED \<and> g_job_id r = None)"
proof (cases "user = [] \<or> allowance env \<le> 0 \<or> \<not> verified \<or> \<not> up \<or>
    int (used_count t user) \<ge> allowance env")
  case True
  then show ?thesis
    by (auto simp: claim_slot_def locked_reason_def with_session_def claim_free_grant_def)
next
  case False
  then show ?thesis
    by (auto simp: claim_slot_def locked_reason_def with_session_def claim_free_grant_def
        insert_grant_def Let_def)
qed

end
