(* ===== verification/Books.thy ===== *)
theory Books
  imports Credits FreeGrants
begin

text \<open>
  What each ledger operation does to the two balances of an account: the credits it can still spend
  and the free slots it has used.  The start route is shown to keep the books on top of these.
\<close>

section \<open>Credits\<close>

definition available :: "string \<Rightarrow> ledger \<Rightarrow> nat" where
  "available u t = count_rows (\<lambda>r. c_user_id r = u \<and> c_status r = CREDIT_AVAILABLE) t"

definition ready :: "string \<Rightarrow> ledger \<Rightarrow> nat \<Rightarrow> bool" where
  "ready u t i \<longleftrightarrow>
     (\<exists>r. get_row c_id t i = Some r \<and> c_user_id r = u \<and> c_status r = CREDIT_AVAILABLE)"

definition held :: "string \<Rightarrow> ledger \<Rightarrow> nat \<Rightarrow> bool" where
  "held u t i \<longleftrightarrow>
     (\<exists>r. get_row c_id t i = Some r \<and> c_user_id r = u \<and> c_status r = CREDIT_PENDING)"

lemma available_update:
  assumes "ledger_ok t" and "get_row c_id t i = Some r" and "\<And>r. c_user_id (f r) = c_user_id r"
  shows "available u (update_row c_id i f t) +
           (if c_user_id r = u \<and> c_status r = CREDIT_AVAILABLE then 1 else 0) =
         available u t +
           (if c_user_id r = u \<and> c_status (f r) = CREDIT_AVAILABLE then 1 else 0)"
  using ct.count_update [of t i r "\<lambda>r. c_user_id r = u \<and> c_status r = CREDIT_AVAILABLE" f] assms
  by (simp add: available_def ledger_ok_def)

lemma available_insert:
  "c_status r = CREDIT_PENDING \<Longrightarrow> available u (insert_row r t) = available u t"
  by (simp add: available_def ct.count_insert)

lemma row_after_update:
  assumes "ledger_ok t" and "get_row c_id t i = Some r" and "\<And>r. c_id (f r) = c_id r"
  shows "get_row c_id (update_row c_id i f t) i = Some (f r)"
  using ct.get_row_update [of t i r f i] assms by (simp add: ledger_ok_def)

lemma void_available: "ledger_ok t \<Longrightarrow> available u (void up i t) = available u t"
proof -
  assume ok: "ledger_ok t"
  have "available u (void_credit i t) = available u t"
    using available_update [OF ok, of i _ "\<lambda>r. r\<lparr>c_status := CREDIT_VOID\<rparr>" u]
    by (auto simp: void_credit_def split: option.splits)
  then show ?thesis by (cases up) (simp_all add: void_def with_session_up)
qed

lemma add_claim_account:
  assumes "ledger_ok t" and "add_claim user key now t = (Inr (outcome, r), t')"
  shows "available u t' = available u t \<and> outcome = Claimed \<and> held user t' (c_id r)"
proof -
  let ?r = "new_credit (next_id t) user key now"
  have t': "t' = insert_row ?r t" "r = ?r" "outcome = Claimed"
    using assms(2) by (auto simp: add_claim_def Let_def split: if_splits)
  have "keys_ok c_id t'"
    using assms(1) t' by (auto simp: ledger_ok_def new_credit_def intro: ct.keys_ok_insert)
  then have "get_row c_id t' (c_id r) = Some r"
    by (simp add: ct.get_row_Some t')
  with t' show ?thesis by (auto simp: held_def available_insert new_credit_def)
qed

lemma claim_credit_account:
  assumes "ledger_ok t" and "claim_credit user key now t = (Inr (outcome, r), t')"
  shows "available u t' = available u t \<and>
         (outcome = Claimed \<longrightarrow> held user t' (c_id r)) \<and>
         (outcome = Already_settled \<longrightarrow> ready user t' (c_id r))"
proof -
  have ne: "user \<noteq> []" using assms(2) by (auto simp: claim_credit_def)
  show ?thesis
  proof (cases "truthy key")
    case False
    with ne assms(2) have "add_claim user None now t = (Inr (outcome, r), t')"
      by (simp add: claim_credit_def)
    with assms(1) show ?thesis using add_claim_account by fastforce
  next
    case True
    let ?p = "\<lambda>r. c_user_id r = user \<and> c_idempotency_key r = key"
    consider e where "one_or_none ?p t = Inl e" | "one_or_none ?p t = Inr None"
      | ex where "one_or_none ?p t = Inr (Some ex)"
      by (metis not_None_eq sum.exhaust_sel)
    then show ?thesis
    proof cases
      case 1
      with ne True assms(2) show ?thesis by (simp add: claim_credit_def)
    next
      case 2
      with ne True assms(2) have "add_claim user key now t = (Inr (outcome, r), t')"
        by (simp add: claim_credit_def)
      with assms(1) show ?thesis using add_claim_account by fastforce
    next
      case (3 ex)
      have get: "get_row c_id t (c_id ex) = Some ex" and u: "c_user_id ex = user"
        using one_or_none_get [OF assms(1) 3] one_or_none_SomeD [OF 3] by auto
      let ?f = "\<lambda>r. r\<lparr>c_status := CREDIT_PENDING, c_created_at := now\<rparr>"
      show ?thesis
      proof (cases "c_status ex = CREDIT_VOID")
        case True
        with 3 ne \<open>truthy key\<close> assms(2) have "outcome = Claimed" "r = ?f ex"
          "t' = update_row c_id (c_id ex) ?f t"
          by (auto simp: claim_credit_def Let_def)
        then show ?thesis
          using available_update [OF assms(1) get, of ?f u] row_after_update [OF assms(1) get, of ?f]
            True u by (simp add: held_def)
      next
        case False
        with 3 ne \<open>truthy key\<close> assms(2) have "t' = t" "r = ex"
          "outcome = Already_settled \<longrightarrow> c_status ex = CREDIT_AVAILABLE" "outcome \<noteq> Claimed"
          by (auto simp: claim_credit_def Let_def split: credit_status.splits)
        with get u show ?thesis by (simp add: ready_def)
      qed
    qed
  qed
qed

lemma claim_account:
  assumes "ledger_ok t" and "claim up user key now t = (Inr (outcome, i), t')"
  shows "available u t' = available u t \<and>
         (outcome = Claimed \<longrightarrow> held user t' i) \<and> (outcome = Already_settled \<longrightarrow> ready user t' i)"
proof -
  obtain r where "claim_credit user key now t = (Inr (outcome, r), t')" "c_id r = i"
    using assms(2) by (auto simp: claim_def with_session_Inr split: prod.splits sum.splits)
  with assms(1) show ?thesis using claim_credit_account by blast
qed

lemma claim_error_state: "claim up user key now t = (Inl e, t') \<Longrightarrow> t' = t"
  by (auto simp: claim_def dest: with_session_Inl_state)

lemma settle_account:
  assumes "ledger_ok t" and "held u t i" and "py_int (p_amount p) \<noteq> None"
  shows "available u (settle True i p now t) = Suc (available u t)" and "ready u (settle True i p now t) i"
proof -
  obtain r where r: "get_row c_id t i = Some r" "c_user_id r = u" "c_status r = CREDIT_PENDING"
    using assms(2) by (auto simp: held_def)
  obtain amount where a: "py_int (p_amount p) = Some amount" using assms(3) by blast
  let ?f = "\<lambda>r. r\<lparr>c_status := CREDIT_AVAILABLE, c_payer_wallet := Some (p_payer p),
              c_amount_base_units := Some amount, c_price_usd := Some (format_usd amount),
              c_network := Some (p_network p), c_settlement_ref := p_transaction p,
              c_settled_at := Some now\<rparr>"
  have t': "settle True i p now t = update_row c_id i ?f t"
    by (simp add: settle_def with_session_up a mark_credit_settled_def r(1) Let_def)
  show "available u (settle True i p now t) = Suc (available u t)"
    using available_update [OF assms(1) r(1), of ?f u] r by (simp add: t')
  show "ready u (settle True i p now t) i"
    using row_after_update [OF assms(1) r(1), of ?f] r by (simp add: t' ready_def)
qed

lemma consume_account:
  assumes "ledger_ok t" and "ready u t i"
  shows "Suc (available u (consume True i job now t)) = available u t"
proof -
  obtain r where r: "get_row c_id t i = Some r" "c_user_id r = u" "c_status r = CREDIT_AVAILABLE"
    using assms(2) by (auto simp: ready_def)
  let ?f = "\<lambda>r. r\<lparr>c_status := CREDIT_CONSUMED, c_job_id := Some job, c_consumed_at := Some now\<rparr>"
  have "consume True i job now t = update_row c_id i ?f t"
    by (simp add: consume_def with_session_up consume_credit_def r Let_def)
  then show ?thesis
    using available_update [OF assms(1) r(1), of ?f u] r by simp
qed

lemma take_available_credit_ready:
  assumes "ledger_ok t" and "take_available_credit t user = Some r"
  shows "ready user t (c_id r)"
proof -
  let ?xs = "filter (\<lambda>r. c_user_id r = user \<and> c_status r = CREDIT_AVAILABLE) (rows t)"
  obtain rest where "sort_key credit_order ?xs = r # rest"
    using assms(2) by (auto simp: take_available_credit_def split: if_splits list.splits)
  then have "r \<in> set (sort_key credit_order ?xs)" by simp
  then have "r \<in> set ?xs" by (simp only: set_sort)
  with assms(1) show ?thesis by (auto simp: ready_def ledger_ok_def ct.get_row_Some)
qed

lemma take_credit_ready:
  assumes "ledger_ok t" and "fst (take_credit up user t) = Some i"
  shows "ready user t i"
proof -
  obtain r where "take_available_credit t user = Some r" "c_id r = i"
    using assms(2) by (cases up) (auto simp: take_credit_def with_session_up)
  with assms(1) show ?thesis using take_available_credit_ready by blast
qed

section \<open>Free slots\<close>

definition slots_used :: "string \<Rightarrow> grants \<Rightarrow> nat" where
  "slots_used u t = count_rows (used_by u) t"

definition slot_held :: "string \<Rightarrow> grants \<Rightarrow> nat \<Rightarrow> bool" where
  "slot_held u t i \<longleftrightarrow> (\<exists>r. get_row g_id t i = Some r \<and> used_by u r)"

lemma slots_used_update:
  assumes "keys_ok g_id t" and "get_row g_id t i = Some r"
  shows "slots_used u (update_row g_id i f t) + (if used_by u r then 1 else 0) =
         slots_used u t + (if used_by u (f r) then 1 else 0)"
  using gt.count_update [OF assms, of "used_by u" f] by (simp add: slots_used_def)

lemma claim_slot_account:
  assumes "keys_ok g_id t" and "claim_slot env up user v now t = (res, t')"
  shows "case res of
           None \<Rightarrow> t' = t
         | Some i \<Rightarrow> slots_used user t' = Suc (slots_used user t) \<and> slot_held user t' i \<and> keys_ok g_id t'"
proof (cases res)
  case None
  with assms(2) show ?thesis
    by (auto simp: claim_slot_def quiet_def with_session_def claim_free_grant_def insert_grant_def Let_def
        split: if_splits)
next
  case (Some i)
  let ?r = "\<lparr>g_id = next_id t, g_user_id = user, g_seq = highest_seq t user + 1, g_status = GRANT_USED,
              g_job_id = None, g_created_at = now, g_released_at = None\<rparr>"
  have t': "t' = insert_row ?r t" "i = next_id t"
    using assms(2) Some
    by (auto simp: claim_slot_def quiet_def with_session_def claim_free_grant_def insert_grant_def Let_def
        split: if_splits)
  have k: "keys_ok g_id t'" using assms(1) by (simp add: t' gt.keys_ok_insert)
  then have "get_row g_id t' i = Some ?r" by (simp add: gt.get_row_Some t')
  with Some k show ?thesis
    by (simp add: slot_held_def used_by_def) (simp add: t' slots_used_def gt.count_insert used_by_def)
qed

lemma release_account:
  assumes "keys_ok g_id t" and "slot_held u t i"
  shows "Suc (slots_used u (release True i now t)) = slots_used u t"
proof -
  obtain r where r: "get_row g_id t i = Some r" "used_by u r"
    using assms(2) by (auto simp: slot_held_def)
  then have "release True i now t = update_row g_id i (release_row now) t"
    by (simp add: release_def with_session_up release_grant_def used_by_def)
  moreover have "\<not> used_by u (release_row now r)" by (simp add: used_by_def release_row_def)
  ultimately show ?thesis
    using slots_used_update [OF assms(1) r(1), of u "release_row now"] r(2) by simp
qed

lemma stamp_account:
  assumes "keys_ok g_id t"
  shows "slots_used u (stamp_job up i job t) = slots_used u t"
proof -
  have "slots_used u (snd (stamp_grant_job i job t)) = slots_used u t"
    using slots_used_update [OF assms, of i _ u "\<lambda>r. r\<lparr>g_job_id := Some job\<rparr>"]
    by (auto simp: stamp_grant_job_def Let_def used_by_def split: option.splits)
  then show ?thesis by (cases up) (simp_all add: stamp_job_def with_session_up)
qed

section \<open>Spending for a job and getting it back\<close>

text \<open>No row of the ledger names the job yet.\<close>

definition fresh_credit_job :: "string \<Rightarrow> ledger \<Rightarrow> bool" where
  "fresh_credit_job job t \<longleftrightarrow> list_all (\<lambda>r. c_job_id r \<noteq> Some job) (rows t)"

definition fresh_slot_job :: "string \<Rightarrow> grants \<Rightarrow> bool" where
  "fresh_slot_job job t \<longleftrightarrow> list_all (\<lambda>r. g_job_id r \<noteq> Some job) (rows t)"

lemma fresh_update:
  "fresh_credit_job job t \<Longrightarrow> (\<And>r. c_job_id (f r) = c_job_id r) \<Longrightarrow>
   fresh_credit_job job (update_row c_id i f t)"
  by (auto simp: fresh_credit_job_def list_all_iff update_row_def)

lemma fresh_insert:
  "fresh_credit_job job t \<Longrightarrow> c_job_id r = None \<Longrightarrow> fresh_credit_job job (insert_row r t)"
  by (simp add: fresh_credit_job_def)

lemma fresh_add_claim:
  "fresh_credit_job job t \<Longrightarrow> fresh_credit_job job (snd (add_claim user key now t))"
  by (auto simp: add_claim_def Let_def new_credit_def intro: fresh_insert)

lemma fresh_claim: "fresh_credit_job job t \<Longrightarrow> fresh_credit_job job (snd (claim up user key now t))"
proof -
  assume f: "fresh_credit_job job t"
  have c: "fresh_credit_job job (snd (claim_credit user key now t))"
    using fresh_add_claim [OF f] fresh_update [OF f]
    by (auto simp: claim_credit_def Let_def f split: sum.splits option.splits credit_status.splits)
  show ?thesis
    unfolding claim_def by (rule with_session_keeps) (use c f in \<open>auto split: prod.splits sum.splits\<close>)
qed

lemma fresh_settle: "fresh_credit_job job t \<Longrightarrow> fresh_credit_job job (settle up i p now t)"
  unfolding settle_def snd_quiet
  by (rule with_session_keeps)
    (auto simp: mark_credit_settled_def Let_def fresh_update split: option.splits)

lemma fresh_void: "fresh_credit_job job t \<Longrightarrow> fresh_credit_job job (void up i t)"
  unfolding void_def snd_quiet
  by (rule with_session_keeps) (auto simp: void_credit_def fresh_update split: option.splits)

lemma single_row:
  assumes "keys_ok key t" and "r \<in> set (rows t)" and "p r" and "\<And>x. x \<in> set (rows t) \<Longrightarrow> p x \<Longrightarrow> x = r"
  shows "one_or_none p t = Inr (Some r)"
proof -
  have "distinct (rows t)" using assms(1) by (simp add: keys_ok_def distinct_map)
  then have "distinct (filter p (rows t))" by simp
  moreover have "set (filter p (rows t)) = {r}"
    unfolding set_filter using assms(2-4) by blast
  ultimately have "filter p (rows t) = [r]" by (rule distinct_singleton)
  then show ?thesis by (simp add: one_or_none_Some)
qed

lemma consume_restore:
  assumes "ledger_ok t" and "ready u t c" and "fresh_credit_job job t" and "job \<noteq> []"
  shows "available u (snd (restore_for_job True job (consume True c job now t))) = available u t"
proof -
  obtain r where r: "get_row c_id t c = Some r" "c_user_id r = u" "c_status r = CREDIT_AVAILABLE"
    using assms(2) by (auto simp: ready_def)
  let ?f = "\<lambda>r. r\<lparr>c_status := CREDIT_CONSUMED, c_job_id := Some job, c_consumed_at := Some now\<rparr>"
  let ?p = "\<lambda>r. c_job_id r = Some job \<and> c_status r = CREDIT_CONSUMED"
  let ?t = "consume True c job now t"
  have t: "?t = update_row c_id c ?f t"
    by (simp add: consume_def with_session_up consume_credit_def r Let_def)
  have ok: "ledger_ok ?t" using consume_ok [OF assms(1)] by blast
  have g: "get_row c_id ?t c = Some (?f r)"
    using row_after_update [OF assms(1) r(1), of ?f] by (simp add: t)
  have id: "c_id r = c" using ct.get_row_Some_mem [OF r(1)] by simp
  have "one_or_none ?p ?t = Inr (Some (?f r))"
  proof (rule single_row [of c_id])
    show "keys_ok c_id ?t" using ok by (simp add: ledger_ok_def)
    show "?f r \<in> set (rows ?t)" using ct.get_row_Some_mem [OF g] by simp
    fix x assume "x \<in> set (rows ?t)" "?p x"
    then show "x = ?f r"
      using updated_rows [OF assms(1) r(1), of x ?f] assms(3) by (auto simp: t fresh_credit_job_def list_all_iff)
  qed simp
  moreover have "restore_row = (\<lambda>r. r\<lparr>c_status := CREDIT_AVAILABLE, c_consumed_at := None\<rparr>)"
    by (simp add: restore_row_def fun_eq_iff)
  ultimately have "snd (restore_for_job True job ?t) = update_row c_id c restore_row ?t"
    using assms(4) id by (simp add: restore_for_job_def with_session_up restore_credit_for_job_def Let_def)
  moreover have "available u ?t + 1 = available u t"
    using consume_account [OF assms(1,2), of job now] by simp
  ultimately show ?thesis
    using available_update [OF ok g, of restore_row u] r by (simp add: restore_row_def)
qed

lemma stamp_release:
  assumes "keys_ok g_id t" and "slot_held u t i" and "fresh_slot_job job t" and "job \<noteq> []"
  shows "Suc (slots_used u (snd (release_for_job now True job (stamp_job True i job t)))) = slots_used u t"
proof -
  obtain r where r: "get_row g_id t i = Some r" "used_by u r" using assms(2) by (auto simp: slot_held_def)
  let ?f = "\<lambda>r. r\<lparr>g_job_id := Some job\<rparr>" and ?t = "stamp_job True i job t"
  let ?p = "\<lambda>r. g_job_id r = Some job \<and> g_status r = GRANT_USED"
  have t: "?t = update_row g_id i ?f t"
    using r by (simp add: stamp_job_def with_session_up stamp_grant_job_def used_by_def Let_def)
  have k: "keys_ok g_id ?t" unfolding t by (rule gt.keys_ok_update) (simp_all add: assms(1))
  have g: "get_row g_id ?t i = Some (?f r)"
    using gt.get_row_update [OF assms(1) r(1), of ?f i] by (simp add: t)
  have id: "g_id r = i" using gt.get_row_Some_mem [OF r(1)] by simp
  have "one_or_none ?p ?t = Inr (Some (?f r))"
  proof (rule single_row [OF k])
    show "?f r \<in> set (rows ?t)" using gt.get_row_Some_mem [OF g] by simp
    show "?p (?f r)" using r(2) by (simp add: used_by_def)
    fix x assume x: "x \<in> set (rows ?t)" "?p x"
    then obtain y where y: "y \<in> set (rows t)" "x = (if g_id y = i then ?f y else y)"
      by (auto simp: t gt.set_rows_update)
    with x(2) assms(3) have "g_id y = i" by (auto simp: fresh_slot_job_def list_all_iff split: if_splits)
    with y r(1) assms(1) show "x = ?f r" by (auto simp: gt.get_row_Some)
        (metis gt.get_row_Some option.inject)
  qed
  then have "snd (release_for_job now True job ?t) = update_row g_id i (release_row now) ?t"
    using assms(4) id by (simp add: release_for_job_def with_session_up release_grant_for_job_def)
  moreover have "used_by u (?f r)" "\<not> used_by u (release_row now (?f r))"
    using r(2) by (simp_all add: used_by_def release_row_def)
  ultimately show ?thesis
    using slots_used_update [OF k g, of u "release_row now"] stamp_account [OF assms(1), of u True i job]
    by simp
qed

lemma claim_slot_fresh:
  "fresh_slot_job job t \<Longrightarrow> fresh_slot_job job (snd (claim_slot env up user v now t))"
  by (auto simp: claim_slot_def quiet_def with_session_def claim_free_grant_def insert_grant_def Let_def
      fresh_slot_job_def split: if_splits)

lemma restore_fresh: "fresh_credit_job job t \<Longrightarrow> restore_for_job up job t = (False, t)"
proof -
  assume "fresh_credit_job job t"
  then have "one_or_none (\<lambda>r. c_job_id r = Some job \<and> c_status r = CREDIT_CONSUMED) t = Inr None"
    by (auto simp: one_or_none_None fresh_credit_job_def list_all_iff)
  then show ?thesis
    by (cases up) (simp_all add: restore_for_job_def with_session_up restore_credit_for_job_def)
qed

lemma release_fresh: "fresh_slot_job job t \<Longrightarrow> snd (release_for_job now up job t) = t"
proof -
  assume "fresh_slot_job job t"
  then have "one_or_none (\<lambda>r. g_job_id r = Some job \<and> g_status r = GRANT_USED) t = Inr None"
    by (auto simp: one_or_none_None fresh_slot_job_def list_all_iff)
  then show ?thesis
    by (cases up) (simp_all add: release_for_job_def with_session_up release_grant_for_job_def)
qed

end
