(* ===== verification/Redis.thy ===== *)
theory Redis
  imports Prelude
begin

text \<open>
  The Redis commands the components issue: typed values, expiry, and the error a command raises on
  a key that holds another type.  Instants and lifetimes are in milliseconds.  An entry is its value
  and the instant after which Redis treats it as gone; a command takes the current instant.

  JSON texts stored in Redis are represented by the value they denote (\<open>Json\<close>), by \<open>Malformed\<close> when
  they do not parse, and by \<open>Empty\<close> for the empty string.
\<close>

section \<open>JSON values\<close>

datatype json =
    JNull
  | JBool bool
  | JInt int
  | JStr string
  | JList "json list"
  | JObj "(string \<times> json) list"

datatype blob = Empty | Malformed | Json json

fun jtruthy :: "json \<Rightarrow> bool" where
  "jtruthy JNull = False"
| "jtruthy (JBool b) = b"
| "jtruthy (JInt n) = (n \<noteq> 0)"
| "jtruthy (JStr s) = (s \<noteq> [])"
| "jtruthy (JList xs) = (xs \<noteq> [])"
| "jtruthy (JObj kvs) = (kvs \<noteq> [])"

fun is_obj :: "json \<Rightarrow> bool" where
  "is_obj (JObj _) = True"
| "is_obj _ = False"

text \<open>\<^verbatim>\<open>d.get(k)\<close> on a dictionary; \<open>None\<close> also for a value that is not one.\<close>

fun jget :: "json \<Rightarrow> string \<Rightarrow> json option" where
  "jget (JObj kvs) k = map_of kvs k"
| "jget _ k = None"

text \<open>\<^verbatim>\<open>d.update(patch)\<close>.\<close>

definition jset :: "string \<Rightarrow> json \<Rightarrow> (string \<times> json) list \<Rightarrow> (string \<times> json) list" where
  "jset k v kvs = (if k \<in> fst ` set kvs then map (\<lambda>(a, b). if a = k then (a, v) else (a, b)) kvs
                   else kvs @ [(k, v)])"

definition jupdate :: "(string \<times> json) list \<Rightarrow> (string \<times> json) list \<Rightarrow> (string \<times> json) list" where
  "jupdate kvs patch = fold (\<lambda>(k, v). jset k v) patch kvs"

section \<open>Values, entries, expiry\<close>

datatype hval = HText string | HTime int | HBlob blob

datatype rval =
    RStr string
  | RInt int
  | RHash "string \<Rightarrow> hval option"
  | RList "blob list"
  | RZset "(string \<times> int) list"

type_synonym redis = "string \<Rightarrow> (rval \<times> int option) option"

definition live :: "int \<Rightarrow> redis \<Rightarrow> string \<Rightarrow> rval option" where
  "live now r k =
     (case r k of
        None \<Rightarrow> None
      | Some (v, None) \<Rightarrow> Some v
      | Some (v, Some e) \<Rightarrow> if now \<le> e then Some v else None)"

definition lifetime :: "int \<Rightarrow> redis \<Rightarrow> string \<Rightarrow> int option" where
  "lifetime now r k = (if live now r k = None then None else snd (the (r k)))"

text \<open>
  A call that fails has either not reached the server (\<open>Lost_request\<close>) or was carried out and its
  answer was lost (\<open>Lost_reply\<close>).
\<close>

datatype reply = Reply | Lost_request | Lost_reply

section \<open>Commands\<close>

definition r_exists :: "int \<Rightarrow> string \<Rightarrow> redis \<Rightarrow> bool" where
  "r_exists now k r \<longleftrightarrow> live now r k \<noteq> None"

text \<open>\<^verbatim>\<open>SET k v EX s\<close> (the lifetime in milliseconds).\<close>

definition r_setex :: "int \<Rightarrow> string \<Rightarrow> rval \<Rightarrow> int \<Rightarrow> redis \<Rightarrow> redis" where
  "r_setex now k v ttl r = r(k \<mapsto> (v, Some (now + ttl)))"

definition r_delete :: "string \<Rightarrow> redis \<Rightarrow> redis" where
  "r_delete k r = r(k := None)"

definition r_expire :: "int \<Rightarrow> string \<Rightarrow> int \<Rightarrow> redis \<Rightarrow> redis" where
  "r_expire now k ttl r =
     (case live now r k of None \<Rightarrow> r | Some v \<Rightarrow> r(k \<mapsto> (v, Some (now + ttl))))"

text \<open>\<^verbatim>\<open>EXPIRE ... NX\<close>: only a key that has no lifetime yet.\<close>

definition r_expire_nx :: "int \<Rightarrow> string \<Rightarrow> int \<Rightarrow> redis \<Rightarrow> redis" where
  "r_expire_nx now k ttl r =
     (case live now r k of
        None \<Rightarrow> r
      | Some v \<Rightarrow> if lifetime now r k = None then r(k \<mapsto> (v, Some (now + ttl))) else r)"

definition r_incr :: "int \<Rightarrow> string \<Rightarrow> (redis, int) op" where
  "r_incr now k r =
     (case live now r k of
        None \<Rightarrow> (Inr 1, r(k \<mapsto> (RInt 1, None)))
      | Some (RInt n) \<Rightarrow> (Inr (n + 1), r(k \<mapsto> (RInt (n + 1), lifetime now r k)))
      | Some _ \<Rightarrow> (Inl WrongTypeError, r))"

definition r_hset :: "int \<Rightarrow> string \<Rightarrow> (string \<Rightarrow> hval option) \<Rightarrow> (redis, unit) op" where
  "r_hset now k fs r =
     (case live now r k of
        None \<Rightarrow> (Inr (), r(k \<mapsto> (RHash fs, None)))
      | Some (RHash h) \<Rightarrow> (Inr (), r(k \<mapsto> (RHash (h ++ fs), lifetime now r k)))
      | Some _ \<Rightarrow> (Inl WrongTypeError, r))"

text \<open>\<^verbatim>\<open>HGETALL\<close>: an absent key is an empty hash.\<close>

definition r_hgetall :: "int \<Rightarrow> string \<Rightarrow> redis \<Rightarrow> (string \<Rightarrow> hval option) res" where
  "r_hgetall now k r =
     (case live now r k of
        None \<Rightarrow> Inr Map.empty
      | Some (RHash h) \<Rightarrow> Inr h
      | Some _ \<Rightarrow> Inl WrongTypeError)"

definition r_rpush :: "int \<Rightarrow> string \<Rightarrow> blob \<Rightarrow> (redis, nat) op" where
  "r_rpush now k b r =
     (case live now r k of
        None \<Rightarrow> (Inr 1, r(k \<mapsto> (RList [b], None)))
      | Some (RList xs) \<Rightarrow> (Inr (length xs + 1), r(k \<mapsto> (RList (xs @ [b]), lifetime now r k)))
      | Some _ \<Rightarrow> (Inl WrongTypeError, r))"

text \<open>\<^verbatim>\<open>LRANGE k start -1\<close> with \<open>start\<close> not negative.\<close>

definition r_lrange :: "int \<Rightarrow> string \<Rightarrow> nat \<Rightarrow> redis \<Rightarrow> blob list res" where
  "r_lrange now k start r =
     (case live now r k of
        None \<Rightarrow> Inr []
      | Some (RList xs) \<Rightarrow> Inr (drop start xs)
      | Some _ \<Rightarrow> Inl WrongTypeError)"

text \<open>\<^verbatim>\<open>SET k v NX EX s\<close>: only an absent key; says whether it was set.\<close>

definition r_setnx :: "int \<Rightarrow> string \<Rightarrow> rval \<Rightarrow> int \<Rightarrow> redis \<Rightarrow> bool \<times> redis" where
  "r_setnx now k v ttl r =
     (if live now r k = None then (True, r_setex now k v ttl r) else (False, r))"

text \<open>
  Sorted sets.  Members are distinct; the pairs are kept in the order of insertion, which no caller
  observes (the members that \<open>ZRANGE k 0 -1\<close> returns are only summed).  A set that becomes empty is
  removed with its key.
\<close>

definition zset_of :: "int \<Rightarrow> string \<Rightarrow> redis \<Rightarrow> (string \<times> int) list res" where
  "zset_of now k r =
     (case live now r k of
        None \<Rightarrow> Inr []
      | Some (RZset zs) \<Rightarrow> Inr zs
      | Some _ \<Rightarrow> Inl WrongTypeError)"

definition put_zset :: "int \<Rightarrow> string \<Rightarrow> (string \<times> int) list \<Rightarrow> redis \<Rightarrow> redis" where
  "put_zset now k zs r =
     (if zs = [] then r_delete k r else r(k \<mapsto> (RZset zs, lifetime now r k)))"

definition r_zadd :: "int \<Rightarrow> string \<Rightarrow> int \<Rightarrow> string \<Rightarrow> (redis, unit) op" where
  "r_zadd now k score mem r =
     (case zset_of now k r of
        Inl e \<Rightarrow> (Inl e, r)
      | Inr zs \<Rightarrow> (Inr (), put_zset now k (filter (\<lambda>(m, _). m \<noteq> mem) zs @ [(mem, score)]) r))"

definition r_zrem :: "int \<Rightarrow> string \<Rightarrow> string \<Rightarrow> (redis, unit) op" where
  "r_zrem now k mem r =
     (case zset_of now k r of
        Inl e \<Rightarrow> (Inl e, r)
      | Inr zs \<Rightarrow> (Inr (), put_zset now k (filter (\<lambda>(m, _). m \<noteq> mem) zs) r))"

definition r_zremrangebyscore :: "int \<Rightarrow> string \<Rightarrow> int \<Rightarrow> int \<Rightarrow> (redis, unit) op" where
  "r_zremrangebyscore now k lo hi r =
     (case zset_of now k r of
        Inl e \<Rightarrow> (Inl e, r)
      | Inr zs \<Rightarrow> (Inr (), put_zset now k (filter (\<lambda>(_, s). s < lo \<or> hi < s) zs) r))"

section \<open>The contract of an expiring store\<close>

text \<open>
  What the components rely on: a value that was set is read back until its lifetime is over and not
  after, and a write to one key is invisible at every other key.
\<close>

locale expiring_store =
  fixes look :: "int \<Rightarrow> 'm \<Rightarrow> string \<Rightarrow> 'v option"
    and store :: "int \<Rightarrow> string \<Rightarrow> 'v \<Rightarrow> int \<Rightarrow> 'm \<Rightarrow> 'm"
    and forget :: "string \<Rightarrow> 'm \<Rightarrow> 'm"
  assumes look_store: "look now' (store now k v ttl m) k = (if now' \<le> now + ttl then Some v else None)"
    and look_store_other: "k' \<noteq> k \<Longrightarrow> look now' (store now k v ttl m) k' = look now' m k'"
    and look_forget: "look now' (forget k m) k = None"
    and look_forget_other: "k' \<noteq> k \<Longrightarrow> look now' (forget k m) k' = look now' m k'"
    and look_expires: "look now m k = None \<Longrightarrow> now \<le> now' \<Longrightarrow> look now' m k = None"
begin

lemma stored_until:
  "look now' (store now k v ttl m) k = Some v \<longleftrightarrow> now' \<le> now + ttl"
  by (simp add: look_store)

text \<open>A flag that is set stays visible through writes to other keys, until it expires.\<close>

lemma flag_survives:
  assumes "\<forall>(k', v', ttl', t) \<in> set ws. k' \<noteq> k" and "now' \<le> now + ttl"
  shows "look now' (fold (\<lambda>(k', v', ttl', t). store t k' v' ttl') ws (store now k v ttl m)) k = Some v"
  using assms(1)
proof (induction ws arbitrary: m rule: rev_induct)
  case Nil
  then show ?case using assms(2) by (simp add: look_store)
next
  case (snoc w ws)
  obtain k' v' ttl' t where w: "w = (k', v', ttl', t)" by (cases w)
  with snoc.prems have "k' \<noteq> k" by auto
  with snoc w show ?case by (simp add: look_store_other)
qed

end

lemma live_upd_same: "live now (r(k \<mapsto> (v, e))) k =
    (case e of None \<Rightarrow> Some v | Some t \<Rightarrow> if now \<le> t then Some v else None)"
  by (simp add: live_def split: option.splits)

lemma live_upd_other: "k' \<noteq> k \<Longrightarrow> live now (r(k \<mapsto> x)) k' = live now r k'"
  by (simp add: live_def)

lemma live_del: "live now (r(k := None)) k' = (if k' = k then None else live now r k')"
  by (simp add: live_def)

lemma live_mono: "live now r k = None \<Longrightarrow> now \<le> now' \<Longrightarrow> live now' r k = None"
  by (auto simp: live_def split: option.splits if_splits)

lemmas live_simps = live_upd_same live_upd_other live_del

interpretation rs: expiring_store live r_setex r_delete
  by unfold_locales
    (auto simp: r_setex_def r_delete_def live_simps intro: live_mono)

lemma live_lifetime:
  "live now r k = Some v \<Longrightarrow> live now (r(k \<mapsto> (w, lifetime now r k))) k = Some w"
  by (auto simp: live_def lifetime_def split: option.splits if_splits)

lemma live_expire:
  "0 \<le> ttl \<Longrightarrow> live now (r_expire now k ttl r) k' = live now r k'"
  by (cases "k' = k") (auto simp: r_expire_def live_simps split: option.splits)

lemma live_hset_other: "k' \<noteq> k \<Longrightarrow> live t (snd (r_hset now k fs r)) k' = live t r k'"
  by (simp add: r_hset_def live_simps split: option.splits rval.splits)

lemma live_hset:
  assumes "live now r k = Some (RHash h)"
  shows "r_hset now k fs r = (Inr (), snd (r_hset now k fs r))"
    and "live now (snd (r_hset now k fs r)) k = Some (RHash (h ++ fs))"
  using assms by (simp_all add: r_hset_def live_lifetime)

lemma live_expire_other: "k' \<noteq> k \<Longrightarrow> live t (r_expire now k ttl r) k' = live t r k'"
  by (simp add: r_expire_def live_simps split: option.splits)

lemma live_expire_later:
  "live now r k = Some v \<Longrightarrow> live t (r_expire now k ttl r) k = (if t \<le> now + ttl then Some v else None)"
  by (simp add: r_expire_def live_simps)

lemma live_put_zset:
  "live t (put_zset now k zs r) k' =
     (if k' = k then (if zs = [] then None
        else case lifetime now r k of None \<Rightarrow> Some (RZset zs)
             | Some e \<Rightarrow> if t \<le> e then Some (RZset zs) else None)
      else live t r k')"
  by (simp add: put_zset_def r_delete_def live_simps)

lemma lifetime_put_zset_other: "k' \<noteq> k \<Longrightarrow> lifetime t (put_zset now k zs r) k' = lifetime t r k'"
  by (simp add: lifetime_def live_put_zset) (simp add: put_zset_def r_delete_def)

end
