(* ===== verification/JobStore.thy ===== *)
theory JobStore
  imports Redis "HOL-Library.Product_Lexorder"
begin

text \<open>
  \<^verbatim>\<open>services/job_queue.py\<close>: the Redis-backed store of generation jobs.  A job is a hash, its event
  log a list, its cancellation request a string key of its own; all three live under the same key
  prefix.  Each operation takes the current instant.  The job id, which the source draws with
  \<open>uuid4\<close>, and the order in which \<open>SCAN\<close> yields keys are arguments.  Time stamps, which the source
  stores as ISO strings, are stored as the instants they denote.
\<close>

section \<open>Keys\<close>

definition KEY_PREFIX :: string where
  "KEY_PREFIX = ''archimedes:job:''"

definition EVENT_LOG_SUFFIX :: string where
  "EVENT_LOG_SUFFIX = '':events''"

definition CANCEL_SUFFIX :: string where
  "CANCEL_SUFFIX = '':cancel''"

definition JOB_TTL :: int where
  "JOB_TTL = 3600 * 1000"

definition EVENT_LOG_TTL :: int where
  "EVENT_LOG_TTL = 900 * 1000"

definition job_key :: "string \<Rightarrow> string" where
  "job_key job = KEY_PREFIX @ job"

definition cancel_key :: "string \<Rightarrow> string" where
  "cancel_key job = KEY_PREFIX @ job @ CANCEL_SUFFIX"

definition events_key :: "string \<Rightarrow> string" where
  "events_key job = KEY_PREFIX @ job @ EVENT_LOG_SUFFIX"

section \<open>Reading a job\<close>

definition safe_json :: "hval option \<Rightarrow> json \<Rightarrow> json" where
  "safe_json raw d =
     (case raw of
        Some (HBlob (Json j)) \<Rightarrow> j
      | _ \<Rightarrow> d)"

record job =
  j_id :: string
  j_type :: string
  j_status :: string
  j_payload :: json
  j_result :: json
  j_error :: string
  j_created_at :: "int option"
  j_updated_at :: "int option"
  j_heartbeat_at :: "int option"

definition text_field :: "(string \<Rightarrow> hval option) \<Rightarrow> string \<Rightarrow> string \<Rightarrow> string" where
  "text_field h f d = (case h f of Some (HText s) \<Rightarrow> s | _ \<Rightarrow> d)"

definition time_field :: "(string \<Rightarrow> hval option) \<Rightarrow> string \<Rightarrow> int option" where
  "time_field h f = (case h f of Some (HTime t) \<Rightarrow> Some t | _ \<Rightarrow> None)"

definition job_of_hash :: "string \<Rightarrow> (string \<Rightarrow> hval option) \<Rightarrow> job" where
  "job_of_hash d h =
     \<lparr>j_id = text_field h ''id'' d,
      j_type = text_field h ''type'' [],
      j_status = text_field h ''status'' ''unknown'',
      j_payload = safe_json (h ''payload'') (JObj []),
      j_result = safe_json (h ''result'') JNull,
      j_error = text_field h ''error'' [],
      j_created_at = time_field h ''created_at'',
      j_updated_at = time_field h ''updated_at'',
      j_heartbeat_at = time_field h ''heartbeat_at''\<rparr>"

text \<open>
  \<^verbatim>\<open>if not raw\<close>: whether the hash has any field.  Every hash this store writes has at least one of
  the fields listed, so the test is executable.
\<close>

definition job_fields :: "string list" where
  "job_fields = [''id'', ''type'', ''status'', ''payload'', ''result'', ''error'', ''created_at'',
                 ''updated_at'', ''heartbeat_at'']"

definition hash_empty :: "(string \<Rightarrow> hval option) \<Rightarrow> bool" where
  "hash_empty h \<longleftrightarrow> list_all (\<lambda>f. h f = None) job_fields"

definition get :: "int \<Rightarrow> string \<Rightarrow> redis \<Rightarrow> job option res" where
  "get now job r =
     (case r_hgetall now (job_key job) r of
        Inl e \<Rightarrow> Inl e
      | Inr h \<Rightarrow> Inr (if hash_empty h then None else Some (job_of_hash job h)))"

section \<open>Writing a job\<close>

definition queued_hash :: "string \<Rightarrow> string \<Rightarrow> json \<Rightarrow> int \<Rightarrow> string \<Rightarrow> hval option" where
  "queued_hash job job_type payload now =
     [''id'' \<mapsto> HText job, ''type'' \<mapsto> HText job_type, ''status'' \<mapsto> HText ''queued'',
      ''payload'' \<mapsto> HBlob (Json payload), ''result'' \<mapsto> HBlob Empty, ''error'' \<mapsto> HText [],
      ''created_at'' \<mapsto> HTime now, ''updated_at'' \<mapsto> HTime now, ''heartbeat_at'' \<mapsto> HTime now]"

definition enqueue :: "int \<Rightarrow> string \<Rightarrow> string \<Rightarrow> json \<Rightarrow> (redis, string) op" where
  "enqueue now job job_type payload r =
     (case r_hset now (job_key job) (queued_hash job job_type payload now) r of
        (Inl e, r') \<Rightarrow> (Inl e, r')
      | (Inr _, r') \<Rightarrow> (Inr job, r_expire now (job_key job) JOB_TTL r'))"

definition status_updates :: "string \<Rightarrow> json option \<Rightarrow> string \<Rightarrow> int \<Rightarrow> string \<Rightarrow> hval option" where
  "status_updates status result error now =
     [''status'' \<mapsto> HText status, ''updated_at'' \<mapsto> HTime now, ''heartbeat_at'' \<mapsto> HTime now] ++
     (case result of None \<Rightarrow> Map.empty | Some j \<Rightarrow> [''result'' \<mapsto> HBlob (Json j)]) ++
     (if error = [] then Map.empty else [''error'' \<mapsto> HText error])"

definition update_status :: "int \<Rightarrow> string \<Rightarrow> string \<Rightarrow> json option \<Rightarrow> string \<Rightarrow> (redis, unit) op" where
  "update_status now job status result error r =
     (case r_hset now (job_key job) (status_updates status result error now) r of
        (Inl e, r') \<Rightarrow> (Inl e, r')
      | (Inr _, r') \<Rightarrow> (Inr (), r_expire now (job_key job) JOB_TTL r'))"

definition touch :: "int \<Rightarrow> string \<Rightarrow> (redis, bool) op" where
  "touch now job r =
     (if \<not> r_exists now (job_key job) r then (Inr False, r)
      else case r_hset now (job_key job) [''heartbeat_at'' \<mapsto> HTime now] r of
             (Inl e, r') \<Rightarrow> (Inl e, r')
           | (Inr _, r') \<Rightarrow> (Inr True, r_expire now (job_key job) JOB_TTL r'))"

definition request_cancel :: "int \<Rightarrow> string \<Rightarrow> redis \<Rightarrow> bool \<times> redis" where
  "request_cancel now job r =
     (let r' = r_setex now (cancel_key job) (RStr ''requested'') JOB_TTL r
      in (r_exists now (cancel_key job) r', r'))"

definition is_cancel_requested :: "int \<Rightarrow> string \<Rightarrow> redis \<Rightarrow> bool" where
  "is_cancel_requested now job r = r_exists now (cancel_key job) r"

definition update_terminal_status ::
    "int \<Rightarrow> string \<Rightarrow> string \<Rightarrow> json option \<Rightarrow> string \<Rightarrow> (redis, bool) op" where
  "update_terminal_status now job status result error r =
     (case r_hgetall now (job_key job) r of
        Inl e \<Rightarrow> (Inl e, r)
      | Inr h \<Rightarrow>
          if h ''status'' = Some (HText ''cancelled'') then (Inr False, r)
          else case update_status now job status result error r of
                 (Inl e, r') \<Rightarrow> (Inl e, r')
               | (Inr _, r') \<Rightarrow> (Inr True, r'))"

text \<open>
  \<open>merge_result\<close> reads at \<open>now\<close> and writes at \<open>now'\<close>: the key may expire in between, in which case the
  write recreates it as a fragment that is then deleted.
\<close>

definition merge_result ::
    "int \<Rightarrow> int \<Rightarrow> string \<Rightarrow> (string \<times> json) list \<Rightarrow> (redis, bool) op" where
  "merge_result now now' job patch r =
     (if \<not> r_exists now (job_key job) r then (Inr False, r)
      else case r_hgetall now (job_key job) r of
        Inl e \<Rightarrow> (Inl e, r)
      | Inr h \<Rightarrow>
          (case safe_json (h ''result'') (JObj []) of
             JObj current \<Rightarrow>
               (case r_hset now' (job_key job)
                       [''result'' \<mapsto> HBlob (Json (JObj (jupdate current patch)))] r of
                  (Inl e, r') \<Rightarrow> (Inl e, r')
                | (Inr _, r') \<Rightarrow>
                    (case r_hgetall now' (job_key job) r' of
                       Inl e \<Rightarrow> (Inl e, r')
                     | Inr h' \<Rightarrow>
                         if h' ''id'' = None then (Inr False, r_delete (job_key job) r')
                         else (Inr True, r')))
           | _ \<Rightarrow> (Inr False, r)))"

section \<open>The event log\<close>

definition push_event :: "int \<Rightarrow> string \<Rightarrow> json \<Rightarrow> (redis, nat) op" where
  "push_event now job ev r =
     (case r_rpush now (events_key job) (Json ev) r of
        (Inl e, r') \<Rightarrow> (Inl e, r')
      | (Inr n, r') \<Rightarrow> (Inr n, r_expire now (events_key job) EVENT_LOG_TTL r'))"

fun parse_events :: "nat \<Rightarrow> blob list \<Rightarrow> (nat \<times> json) list" where
  "parse_events i [] = []"
| "parse_events i (Json j # bs) = (i, j) # parse_events (i + 1) bs"
| "parse_events i (b # bs) = parse_events (i + 1) bs"

definition list_events :: "int \<Rightarrow> string \<Rightarrow> int \<Rightarrow> redis \<Rightarrow> (nat \<times> json) list res" where
  "list_events now job after_id r =
     (let a = nat after_id
      in case r_lrange now (events_key job) a r of
           Inl e \<Rightarrow> Inl e
         | Inr raw \<Rightarrow> Inr (parse_events (a + 1) raw))"

definition event_count :: "int \<Rightarrow> string \<Rightarrow> redis \<Rightarrow> nat res" where
  "event_count now job r =
     (case r_lrange now (events_key job) 0 r of Inl e \<Rightarrow> Inl e | Inr xs \<Rightarrow> Inr (length xs))"

section \<open>Listing recent jobs\<close>

definition ends_with :: "string \<Rightarrow> string \<Rightarrow> bool" where
  "ends_with s suf \<longleftrightarrow> length suf \<le> length s \<and> drop (length s - length suf) s = suf"

definition scanned_keys :: "string list \<Rightarrow> nat \<Rightarrow> string list" where
  "scanned_keys scan limit =
     take (max 1 (limit * 4)) (filter (\<lambda>k. \<not> ends_with k EVENT_LOG_SUFFIX) scan)"

fun read_jobs :: "int \<Rightarrow> redis \<Rightarrow> string list \<Rightarrow> job list res" where
  "read_jobs now r [] = Inr []"
| "read_jobs now r (k # ks) =
     (case r_hgetall now k r of
        Inl e \<Rightarrow> Inl e
      | Inr h \<Rightarrow>
          (case read_jobs now r ks of
             Inl e \<Rightarrow> Inl e
           | Inr js \<Rightarrow>
               Inr (if hash_empty h then js
                    else job_of_hash (drop (length KEY_PREFIX) k) h # js)))"

text \<open>Descending by \<open>updated_at\<close>; a missing stamp sorts last.\<close>

definition recency :: "job \<Rightarrow> nat \<times> int" where
  "recency j = (case j_updated_at j of None \<Rightarrow> (1, 0) | Some t \<Rightarrow> (0, - t))"

definition list_recent_jobs :: "int \<Rightarrow> string list \<Rightarrow> nat \<Rightarrow> redis \<Rightarrow> job list res" where
  "list_recent_jobs now scan limit r =
     (case read_jobs now r (scanned_keys scan limit) of
        Inl e \<Rightarrow> Inl e
      | Inr js \<Rightarrow> Inr (take limit (sort_key recency js)))"


section \<open>Lemmas\<close>

lemma job_key_inj: "job_key a = job_key b \<longleftrightarrow> a = b"
  by (simp add: job_key_def)

lemma keys_differ:
  "job_key job \<noteq> events_key job" "job_key job \<noteq> cancel_key job" "events_key job \<noteq> cancel_key job'"
proof -
  show "job_key job \<noteq> events_key job" "job_key job \<noteq> cancel_key job"
    by (simp_all add: job_key_def events_key_def cancel_key_def EVENT_LOG_SUFFIX_def CANCEL_SUFFIX_def)
  have "last (events_key job) = CHR ''s''" "last (cancel_key job') = CHR ''l''"
    by (simp_all add: events_key_def cancel_key_def EVENT_LOG_SUFFIX_def CANCEL_SUFFIX_def)
  then show "events_key job \<noteq> cancel_key job'" by auto
qed

lemma cancel_key_scanned: "\<not> ends_with (cancel_key job) EVENT_LOG_SUFFIX"
proof
  assume e: "ends_with (cancel_key job) EVENT_LOG_SUFFIX"
  let ?k = "cancel_key job" and ?n = "length (cancel_key job) - length EVENT_LOG_SUFFIX"
  have d: "drop ?n ?k = EVENT_LOG_SUFFIX" using e by (simp add: ends_with_def)
  then have "last (drop ?n ?k) = CHR ''s''" by (simp add: EVENT_LOG_SUFFIX_def)
  moreover have "drop ?n ?k \<noteq> []" using d by (simp add: EVENT_LOG_SUFFIX_def)
  ultimately have "last ?k = CHR ''s''" by (metis append_take_drop_id last_appendR)
  then show False by (simp add: cancel_key_def CANCEL_SUFFIX_def)
qed

lemma read_jobs_wrong_type:
  "k \<in> set ks \<Longrightarrow> r_hgetall now k r = Inl e \<Longrightarrow> \<exists>e'. read_jobs now r ks = Inl e'"
  by (induction ks) (auto split: sum.splits)

lemma r_hgetall_errors: "r_hgetall now k r = Inl e \<Longrightarrow> e = WrongTypeError"
  by (auto simp: r_hgetall_def split: option.splits rval.splits)

lemma read_jobs_errors: "read_jobs now r ks = Inl e \<Longrightarrow> e = WrongTypeError"
  by (induction ks) (auto dest: r_hgetall_errors split: sum.splits)

lemma read_jobs_ok:
  "(\<And>k. k \<in> set ks \<Longrightarrow> live now r k = None \<or> (\<exists>h. live now r k = Some (RHash h))) \<Longrightarrow>
   \<exists>js. read_jobs now r ks = Inr js"
proof (induction ks)
  case (Cons k ks)
  then obtain js where "read_jobs now r ks = Inr js" by auto
  moreover have "\<exists>h. r_hgetall now k r = Inr h"
    using Cons.prems [of k] by (auto simp: r_hgetall_def)
  ultimately show ?case by auto
qed simp

lemma parse_events_append:
  "parse_events i (xs @ ys) = parse_events i xs @ parse_events (i + length xs) ys"
  by (induction i xs rule: parse_events.induct) simp_all

lemma parse_events_ids: "(j, e) \<in> set (parse_events i xs) \<Longrightarrow> i \<le> j \<and> j < i + length xs"
  by (induction i xs rule: parse_events.induct) auto

lemma parse_events_drop:
  assumes "k \<le> length xs"
  shows "parse_events (k + 1) (drop k xs) = filter (\<lambda>(i, _). k < i) (parse_events 1 xs)"
proof -
  have "parse_events 1 xs = parse_events 1 (take k xs) @ parse_events (1 + length (take k xs)) (drop k xs)"
    using parse_events_append [of 1 "take k xs" "drop k xs"] by simp
  moreover have "filter (\<lambda>(i, _). k < i) (parse_events 1 (take k xs)) = []"
    using parse_events_ids [of _ _ 1 "take k xs"] assms by (force simp: filter_empty_conv)
  moreover have "filter (\<lambda>(i, _). k < i) (parse_events (1 + k) (drop k xs)) = parse_events (1 + k) (drop k xs)"
    using parse_events_ids [of _ _ "1 + k" "drop k xs"] by (force intro: filter_True)
  ultimately show ?thesis using assms by simp
qed

section \<open>What the pipeline writes after a cancellation\<close>

text \<open>
  The writes of a run that is still going when its job is cancelled: the terminal status through
  \<open>update_terminal_status\<close>, the cost record, heartbeats and events.
\<close>

datatype run_write =
    Terminal int string "json option" string
  | Merge int int "(string \<times> json) list"
  | Touch int
  | Event int json

fun run_write_step :: "string \<Rightarrow> redis \<Rightarrow> run_write \<Rightarrow> redis" where
  "run_write_step job r (Terminal now status result error) =
     snd (update_terminal_status now job status result error r)"
| "run_write_step job r (Merge now now' patch) = snd (merge_result now now' job patch r)"
| "run_write_step job r (Touch now) = snd (touch now job r)"
| "run_write_step job r (Event now ev) = snd (push_event now job ev r)"

fun write_within :: "int \<Rightarrow> int \<Rightarrow> run_write \<Rightarrow> bool" where
  "write_within a b (Terminal now _ _ _) = (a \<le> now \<and> now \<le> b)"
| "write_within a b (Merge now now' _) = (a \<le> now \<and> now \<le> b \<and> a \<le> now' \<and> now' \<le> b)"
| "write_within a b (Touch now) = (a \<le> now \<and> now \<le> b)"
| "write_within a b (Event now _) = (a \<le> now \<and> now \<le> b)"

definition status_at :: "int \<Rightarrow> string \<Rightarrow> redis \<Rightarrow> string option" where
  "status_at now job r =
     (case r_hgetall now (job_key job) r of Inr h \<Rightarrow> (case h ''status'' of Some (HText s) \<Rightarrow> Some s | _ \<Rightarrow> None)
      | Inl _ \<Rightarrow> None)"

text \<open>From \<open>a\<close> to \<open>b\<close> the record is there, has an id and says \<open>s\<close>.\<close>

definition shows_status :: "int \<Rightarrow> int \<Rightarrow> string \<Rightarrow> string \<Rightarrow> redis \<Rightarrow> bool" where
  "shows_status a b s job r \<longleftrightarrow>
     (\<exists>h e. r (job_key job) = Some (RHash h, Some e) \<and> b \<le> e \<and>
        h ''status'' = Some (HText s) \<and> h ''id'' \<noteq> None)"

lemma shows_status_live:
  "shows_status a b s job r \<Longrightarrow> t \<le> b \<Longrightarrow>
     \<exists>h. live t r (job_key job) = Some (RHash h) \<and> h ''status'' = Some (HText s) \<and> h ''id'' \<noteq> None"
  by (auto simp: shows_status_def live_def)

lemma shows_status_other:
  "k \<noteq> job_key job \<Longrightarrow> shows_status a b s job (r(k := x)) = shows_status a b s job r"
  by (simp add: shows_status_def)

lemma shows_status_touch:
  assumes "shows_status a b s job r" and "a \<le> now" and "now \<le> b" and "b \<le> a + JOB_TTL"
  shows "shows_status a b s job (snd (touch now job r))"
proof -
  obtain h e where r: "r (job_key job) = Some (RHash h, Some e)" "b \<le> e"
    "h ''status'' = Some (HText s)" "h ''id'' \<noteq> None"
    using assms(1) by (auto simp: shows_status_def)
  then have "live now r (job_key job) = Some (RHash h)" "lifetime now r (job_key job) = Some e"
    using assms(3) by (auto simp: live_def lifetime_def)
  then show ?thesis
    using r assms
    by (auto simp: touch_def r_exists_def r_hset_def r_expire_def live_def shows_status_def)
qed

lemma shows_status_merge:
  assumes "shows_status a b s job r" and "now \<le> b" and "now' \<le> b"
  shows "shows_status a b s job (snd (merge_result now now' job patch r))"
proof -
  obtain h e where r: "r (job_key job) = Some (RHash h, Some e)" "b \<le> e"
    "h ''status'' = Some (HText s)" "h ''id'' \<noteq> None"
    using assms(1) by (auto simp: shows_status_def)
  then have "live t r (job_key job) = Some (RHash h)" "lifetime t r (job_key job) = Some e"
    if "t \<le> b" for t
    using that by (auto simp: live_def lifetime_def)
  then show ?thesis
    using r assms
    by (auto simp: merge_result_def r_exists_def r_hgetall_def r_hset_def live_def shows_status_def
        split: json.splits)
qed

lemma shows_status_event:
  assumes "shows_status a b s job r"
  shows "shows_status a b s job (snd (push_event now job ev r))"
  using assms keys_differ(1) [of job]
  by (auto simp: push_event_def r_rpush_def r_expire_def shows_status_other
      split: option.splits rval.splits)

lemma shows_status_terminal:
  assumes "shows_status a b ''cancelled'' job r" and "now \<le> b"
  shows "snd (update_terminal_status now job status result error r) = r"
  using shows_status_live [OF assms] by (auto simp: update_terminal_status_def r_hgetall_def)

lemma run_write_keeps_cancelled:
  assumes "shows_status a b ''cancelled'' job r" and "write_within a b w" and "b \<le> a + JOB_TTL"
  shows "shows_status a b ''cancelled'' job (run_write_step job r w)"
  using assms
  by (cases w) (auto simp: shows_status_touch shows_status_merge shows_status_event shows_status_terminal)


lemma run_write_other_keys:
  assumes "k \<noteq> job_key job" and "k \<noteq> events_key job"
  shows "run_write_step job r w k = r k"
proof -
  have hset: "snd (r_hset now (job_key job) fs r) k = r k" for now fs r
    using assms(1) by (simp add: r_hset_def split: option.splits rval.splits)
  have expire: "r_expire now k' ttl r k = r k" if "k' \<noteq> k" for now k' ttl r
    using that by (simp add: r_expire_def split: option.splits)
  have upd: "snd (update_status now job status result error r) k = r k" for now status result error r
    using hset assms(1) by (auto simp: update_status_def expire split: prod.splits sum.splits) (metis snd_conv)+
  have terminal: "snd (update_terminal_status now job status result error r) k = r k" for now status result error
    using upd by (auto simp: update_terminal_status_def split: prod.splits sum.splits) (metis snd_conv)+
  have merge: "snd (merge_result now now' job patch r) k = r k" for now now' patch
    using hset assms(1)
    by (auto simp: merge_result_def r_delete_def split: prod.splits sum.splits json.splits) (metis snd_conv)+
  have touch: "snd (touch now job r) k = r k" for now
    using hset assms(1) by (auto simp: touch_def expire split: prod.splits sum.splits) (metis snd_conv)+
  have event: "snd (push_event now job ev r) k = r k" for now ev
    using assms(2) by (auto simp: push_event_def r_rpush_def expire split: option.splits rval.splits)
  show ?thesis using terminal merge touch event by (cases w) auto
qed

lemma run_writes_other_keys:
  "k \<noteq> job_key job \<Longrightarrow> k \<noteq> events_key job \<Longrightarrow> run (run_write_step job) r ws k = r k"
  by (induction ws arbitrary: r) (simp_all add: run_write_other_keys)

lemma run_writes_keep_cancelled:
  "shows_status a b ''cancelled'' job r \<Longrightarrow> list_all (write_within a b) ws \<Longrightarrow> b \<le> a + JOB_TTL \<Longrightarrow>
     shows_status a b ''cancelled'' job (run (run_write_step job) r ws)"
  by (induction ws arbitrary: r) (simp_all add: run_write_keeps_cancelled)

lemma update_status_shows:
  assumes "live a r (job_key job) = Some (RHash h)" and "h ''id'' \<noteq> None"
  shows "shows_status a (a + JOB_TTL) s job (snd (update_status a job s result error r))"
proof -
  have "live a (snd (r_hset a (job_key job) fs r)) (job_key job) = Some (RHash (h ++ fs))" for fs
    using assms(1) by (rule live_hset)
  then show ?thesis
    using assms
    by (auto simp: update_status_def r_hset_def r_expire_def shows_status_def status_updates_def
        map_add_def split: option.splits)
qed

section \<open>Properties of the job store\<close>

text \<open>
  A cancelled job stays cancelled.  Once a job's record says \<open>cancelled\<close>, whatever the run that
  is still going writes (terminal states, its cost record, heartbeats, events, at any instants
  within the record's lifetime) leaves the status \<open>cancelled\<close>.
\<close>

theorem cancelled_is_sticky:
  assumes "live a r (job_key job) = Some (RHash h)" and "h ''id'' \<noteq> None"
    and "list_all (write_within a (a + JOB_TTL)) ws" and "t \<le> a + JOB_TTL"
  shows "status_at t job (run (run_write_step job)
           (snd (update_status a job ''cancelled'' None error r)) ws) = Some ''cancelled''"
proof -
  have "shows_status a (a + JOB_TTL) ''cancelled'' job
      (run (run_write_step job) (snd (update_status a job ''cancelled'' None error r)) ws)"
    using update_status_shows [OF assms(1,2)] assms(3) by (intro run_writes_keep_cancelled) auto
  from shows_status_live [OF this assms(4)] show ?thesis
    by (auto simp: status_at_def r_hgetall_def)
qed

definition sample_jobs :: redis where
  "sample_jobs = snd (enqueue 0 ''j1'' ''generate'' (JObj []) Map.empty)"

lemma sample_jobs_live:
  "live 10 sample_jobs (job_key ''j1'') = Some (RHash (queued_hash ''j1'' ''generate'' (JObj []) 0))"
  by (simp add: sample_jobs_def enqueue_def r_hset_def r_expire_def live_def JOB_TTL_def)

theorem cancelled_is_sticky_witness:
  "status_at 40 ''j1'' (run (run_write_step ''j1'')
     (snd (update_status 10 ''j1'' ''cancelled'' None ''stop'' sample_jobs))
     [Touch 20, Terminal 30 ''done'' None [], Merge 31 32 [(''cost'', JInt 1)], Event 33 JNull])
   = Some ''cancelled''"
  by (rule cancelled_is_sticky [OF sample_jobs_live])
    (simp_all add: queued_hash_def JOB_TTL_def)

text \<open>
  A confirmed cancellation reaches the pipeline.  \<open>request_cancel\<close> reads its own write back and
  reports success, and from then on, for the hour the flag lives and whatever the run itself writes
  meanwhile, every poll of the flag sees the request.
\<close>

theorem cancel_request_is_seen:
  assumes "t \<le> now + JOB_TTL"
  shows "fst (request_cancel now job r) \<and>
         is_cancel_requested t job (run (run_write_step job) (snd (request_cancel now job r)) ws)"
proof -
  have k: "cancel_key job \<noteq> job_key job" "cancel_key job \<noteq> events_key job"
    using keys_differ(2) [of job] keys_differ(3) [of job job] by metis+
  show ?thesis
    using assms
    by (simp add: request_cancel_def Let_def is_cancel_requested_def r_exists_def rs.look_store JOB_TTL_def
        live_def run_writes_other_keys [OF k] r_setex_def)
qed

theorem cancel_request_is_seen_witness:
  "fst (request_cancel 5 ''j1'' sample_jobs) \<and>
   is_cancel_requested 60 ''j1''
     (run (run_write_step ''j1'') (snd (request_cancel 5 ''j1'' sample_jobs)) [Touch 20, Event 33 JNull])"
  by (rule cancel_request_is_seen) (simp add: JOB_TTL_def)

text \<open>
  The listing of recent jobs fails while a cancellation flag is alive.  The flag is a string key
  under the prefix the listing scans; only event logs are skipped, so as soon as the scan meets the
  flag, reading it as a hash raises the wrong-type error and the whole listing raises.
\<close>

theorem cancel_flag_breaks_listing:
  assumes "t \<le> now + JOB_TTL" and "cancel_key job \<in> set (scanned_keys scan limit)"
  shows "list_recent_jobs t scan limit (snd (request_cancel now job r)) = Inl WrongTypeError"
proof -
  let ?r = "snd (request_cancel now job r)"
  have "live t ?r (cancel_key job) = Some (RStr ''requested'')"
    using assms(1) by (simp add: request_cancel_def Let_def rs.look_store)
  then have "r_hgetall t (cancel_key job) ?r = Inl WrongTypeError"
    by (simp add: r_hgetall_def)
  with assms(2) obtain e where "read_jobs t ?r (scanned_keys scan limit) = Inl e"
    using read_jobs_wrong_type by metis
  moreover from this have "e = WrongTypeError" by (rule read_jobs_errors)
  ultimately show ?thesis by (simp add: list_recent_jobs_def)
qed

theorem cancel_flag_breaks_listing_witness:
  "list_recent_jobs 100 [job_key ''j1'', cancel_key ''j1''] 20 (snd (request_cancel 5 ''j1'' sample_jobs))
     = Inl WrongTypeError"
proof (rule cancel_flag_breaks_listing)
  show "(100::int) \<le> 5 + JOB_TTL" by (simp add: JOB_TTL_def)
  show "cancel_key ''j1'' \<in> set (scanned_keys [job_key ''j1'', cancel_key ''j1''] 20)" by code_simp
qed

text \<open>
  Otherwise the listing answers.  When every scanned key is a job hash or gone, the listing
  returns at most \<open>limit\<close> jobs, the most recently updated first, each read from a scanned key.
\<close>

lemma read_jobs_from:
  "read_jobs now r ks = Inr js \<Longrightarrow> j \<in> set js \<Longrightarrow>
     \<exists>k \<in> set ks. \<exists>h. r_hgetall now k r = Inr h \<and> j = job_of_hash (drop (length KEY_PREFIX) k) h"
  by (induction ks arbitrary: js) (auto split: sum.splits if_splits)

theorem list_recent_jobs_sorted:
  assumes "\<And>k. k \<in> set (scanned_keys scan limit) \<Longrightarrow>
             live now r k = None \<or> (\<exists>h. live now r k = Some (RHash h))"
  shows "\<exists>js. list_recent_jobs now scan limit r = Inr js \<and> length js \<le> limit \<and>
           sorted (map recency js) \<and>
           (\<forall>j \<in> set js. \<exists>k \<in> set (scanned_keys scan limit). \<exists>h.
              r_hgetall now k r = Inr h \<and> j = job_of_hash (drop (length KEY_PREFIX) k) h)"
proof -
  obtain js where js: "read_jobs now r (scanned_keys scan limit) = Inr js"
    using read_jobs_ok assms by blast
  have "sorted (map recency (take limit (sort_key recency js)))"
    by (metis sorted_sort_key sorted_wrt_take take_map)
  moreover have "j \<in> set js" if "j \<in> set (take limit (sort_key recency js))" for j
    using that by (metis in_set_takeD set_sort)
  ultimately show ?thesis
    using js read_jobs_from [OF js] by (auto simp: list_recent_jobs_def)
qed

theorem list_recent_jobs_sorted_witness:
  "\<exists>js. list_recent_jobs 10 [job_key ''j1''] 20 sample_jobs = Inr js \<and> length js \<le> 20 \<and>
     sorted (map recency js) \<and>
     (\<forall>j \<in> set js. \<exists>k \<in> set (scanned_keys [job_key ''j1''] 20). \<exists>h.
        r_hgetall 10 k sample_jobs = Inr h \<and> j = job_of_hash (drop (length KEY_PREFIX) k) h)"
proof (rule list_recent_jobs_sorted)
  fix k assume "k \<in> set (scanned_keys [job_key ''j1''] 20)"
  then have "k = job_key ''j1''" by (auto simp: scanned_keys_def split: if_splits)
  then show "live 10 sample_jobs k = None \<or> (\<exists>h. live 10 sample_jobs k = Some (RHash h))"
    using sample_jobs_live by simp
qed

text \<open>
  Resuming the event stream loses and repeats nothing.  A pushed event is appended, its id is the
  new length of the log, and asking for the events after any position of the log returns exactly the
  events of the whole log with a larger id, in order.
\<close>

theorem event_log_resumes:
  assumes "live now r (events_key job) = Some (RList xs)" and "0 \<le> k" and "k \<le> int (length xs)"
  shows "\<exists>all. list_events now job 0 r = Inr all \<and>
           list_events now job k r = Inr (filter (\<lambda>(i, _). nat k < i) all) \<and>
           fst (push_event now job ev r) = Inr (length xs + 1) \<and>
           list_events now job (int (length xs)) (snd (push_event now job ev r))
             = Inr [(length xs + 1, ev)]"
proof -
  have "list_events now job 0 r = Inr (parse_events 1 xs)"
    using assms(1) by (simp add: list_events_def r_lrange_def)
  moreover have "list_events now job k r = Inr (filter (\<lambda>(i, _). nat k < i) (parse_events 1 xs))"
    using assms parse_events_drop [of "nat k" xs] by (simp add: list_events_def r_lrange_def Let_def)
  moreover have "fst (push_event now job ev r) = Inr (length xs + 1)"
    using assms(1) by (simp add: push_event_def r_rpush_def)
  moreover have "live now (snd (push_event now job ev r)) (events_key job) = Some (RList (xs @ [Json ev]))"
    using assms(1) live_lifetime [OF assms(1)]
    by (simp add: push_event_def r_rpush_def live_expire EVENT_LOG_TTL_def)
  then have "list_events now job (int (length xs)) (snd (push_event now job ev r))
      = Inr [(length xs + 1, ev)]"
    by (simp add: list_events_def r_lrange_def Let_def)
  ultimately show ?thesis by blast
qed

definition sample_log :: redis where
  "sample_log = snd (push_event 2 ''j1'' (JInt 2) (snd (push_event 1 ''j1'' (JInt 1) Map.empty)))"

theorem event_log_resumes_witness:
  "\<exists>all. list_events 5 ''j1'' 0 sample_log = Inr all \<and>
     list_events 5 ''j1'' 1 sample_log = Inr (filter (\<lambda>(i, _). nat 1 < i) all) \<and>
     fst (push_event 5 ''j1'' JNull sample_log) = Inr (length [Json (JInt 1), Json (JInt 2)] + 1) \<and>
     list_events 5 ''j1'' (int (length [Json (JInt 1), Json (JInt 2)]))
       (snd (push_event 5 ''j1'' JNull sample_log)) = Inr [(length [Json (JInt 1), Json (JInt 2)] + 1, JNull)]"
proof (rule event_log_resumes)
  show "live 5 sample_log (events_key ''j1'') = Some (RList [Json (JInt 1), Json (JInt 2)])"
    by (simp add: sample_log_def push_event_def r_rpush_def r_expire_def live_def lifetime_def
        EVENT_LOG_TTL_def)
qed simp_all

text \<open>
  A heartbeat or a cost record never brings a job back.  On a record that is gone both are
  no-ops; and if the record expires between the read and the write of a merge, the fragment the write
  recreates is deleted again, so the record is still gone afterwards.
\<close>

theorem no_resurrection:
  assumes "live now' r (job_key job) = None" and "now \<le> now'" and "now' \<le> t"
  shows "touch now' job r = (Inr False, r) \<and>
         fst (merge_result now now' job patch r) \<noteq> Inr True \<and>
         live t (snd (merge_result now now' job patch r)) (job_key job) = None"
proof -
  have "live t r (job_key job) = None"
    using assms(1,3) by (rule live_mono)
  then show ?thesis
    using assms
    by (auto simp: touch_def r_exists_def merge_result_def r_hgetall_def r_hset_def live_simps r_delete_def
        split: option.splits rval.splits json.splits)
qed

theorem no_resurrection_witness:
  "touch 3600001 ''j1'' sample_jobs = (Inr False, sample_jobs) \<and>
   fst (merge_result 3600000 3600001 ''j1'' [(''cost'', JInt 1)] sample_jobs) \<noteq> Inr True \<and>
   live 3600002 (snd (merge_result 3600000 3600001 ''j1'' [(''cost'', JInt 1)] sample_jobs)) (job_key ''j1'')
     = None"
  by (rule no_resurrection)
    (simp_all add: sample_jobs_def enqueue_def r_hset_def r_expire_def live_def JOB_TTL_def)

end
