(* ===== verification/ClientIp.thy ===== *)
theory ClientIp
  imports Prelude "HOL-Library.Word"
begin

text \<open>
  \<^verbatim>\<open>services/client_ip.py\<close>: the key under which a caller is rate-limited.  An IPv4 caller is keyed
  on its address and an IPv6 caller on its /64.  Addresses are machine words of 32 and 128 bits; the
  text forms are read and printed the way Python's \<open>ipaddress\<close> module does it.
\<close>

unbundle bit_operations_syntax

section \<open>The \<open>ipaddress\<close> operations the source uses\<close>

fun decimal :: "nat \<Rightarrow> string \<Rightarrow> nat option" where
  "decimal acc [] = Some acc"
| "decimal acc (c # cs) =
     (case digit_val c of None \<Rightarrow> None | Some d \<Rightarrow> decimal (10 * acc + d) cs)"

definition parse_octet :: "string \<Rightarrow> nat option" where
  "parse_octet s =
     (if s = [] \<or> 3 < length s \<or> (s \<noteq> ''0'' \<and> hd s = CHR ''0'') then None
      else case decimal 0 s of
             None \<Rightarrow> None
           | Some n \<Rightarrow> if 255 < n then None else Some n)"

definition parse_v4 :: "string \<Rightarrow> 32 word option" where
  "parse_v4 s =
     (case map parse_octet (split_on (CHR ''.'') s) of
        [Some a, Some b, Some c, Some d] \<Rightarrow>
          Some (of_nat (((a * 256 + b) * 256 + c) * 256 + d))
      | _ \<Rightarrow> None)"

definition hex_val :: "char \<Rightarrow> nat option" where
  "hex_val c =
     (let n = ord_of c
      in if 48 \<le> n \<and> n \<le> 57 then Some (n - 48)
         else if 97 \<le> n \<and> n \<le> 102 then Some (n - 87)
         else if 65 \<le> n \<and> n \<le> 70 then Some (n - 55)
         else None)"

fun hexadecimal :: "nat \<Rightarrow> string \<Rightarrow> nat option" where
  "hexadecimal acc [] = Some acc"
| "hexadecimal acc (c # cs) =
     (case hex_val c of None \<Rightarrow> None | Some d \<Rightarrow> hexadecimal (16 * acc + d) cs)"

definition parse_hextet :: "string \<Rightarrow> nat option" where
  "parse_hextet s = (if s = [] \<or> 4 < length s then None else hexadecimal 0 s)"

definition hex_char :: "nat \<Rightarrow> char" where
  "hex_char d = (if d < 10 then char_of (48 + d) else char_of (87 + d))"

fun hex_string :: "nat \<Rightarrow> string" where
  "hex_string n =
     (if n < 16 then [hex_char n] else hex_string (n div 16) @ [hex_char (n mod 16)])"

declare hex_string.simps [simp del]

text \<open>
  The parts between the colons, a dotted IPv4 tail replaced by its two hextets.
\<close>

definition v6_parts :: "string \<Rightarrow> string list option" where
  "v6_parts s =
     (let ps = split_on (CHR '':'') s
      in if length ps < 3 then None
         else if CHR ''.'' \<in> set (last ps) then
           (case parse_v4 (last ps) of
              None \<Rightarrow> None
            | Some w \<Rightarrow>
                Some (butlast ps @
                      [hex_string (unat (drop_bit 16 w)), hex_string (unat w mod 65536)]))
         else Some ps)"

fun hextets :: "string list \<Rightarrow> nat list option" where
  "hextets [] = Some []"
| "hextets (p # ps) =
     (case parse_hextet p of
        None \<Rightarrow> None
      | Some n \<Rightarrow> map_option ((#) n) (hextets ps))"

text \<open>
  Where the parts between the first and the last one are empty: the position of the \<open>::\<close>.
\<close>

definition gaps :: "string list \<Rightarrow> nat list" where
  "gaps ps = filter (\<lambda>i. ps ! i = []) [1..<length ps - 1]"

definition v6_hextets :: "string list \<Rightarrow> nat list option" where
  "v6_hextets ps =
     (if 9 < length ps then None
      else case gaps ps of
        [] \<Rightarrow> if length ps \<noteq> 8 then None else hextets ps
      | [g] \<Rightarrow>
          (let hi = (if hd ps = [] then g - 1 else g);
               lo = (if last ps = [] then length ps - g - 2 else length ps - g - 1)
           in if (hd ps = [] \<and> hi \<noteq> 0) \<or> (last ps = [] \<and> lo \<noteq> 0) \<or> 8 < hi + lo + 1 then None
              else case (hextets (take hi ps), hextets (drop (length ps - lo) ps)) of
                     (Some h, Some l) \<Rightarrow> Some (h @ replicate (8 - (hi + lo)) 0 @ l)
                   | _ \<Rightarrow> None)
      | _ \<Rightarrow> None)"

definition of_hextets :: "nat list \<Rightarrow> 128 word" where
  "of_hextets hs = foldl (\<lambda>acc h. push_bit 16 acc OR of_nat h) 0 hs"

text \<open>
  A zone id (\<^verbatim>\<open>fe80::1%eth0\<close>) follows the first per cent sign, is not empty and has no other one.
\<close>

definition split_scope_id :: "string \<Rightarrow> string option" where
  "split_scope_id s =
     (case split_on (CHR ''%'') s of
        [a] \<Rightarrow> Some a
      | [a, z] \<Rightarrow> if z = [] then None else Some a
      | _ \<Rightarrow> None)"

definition parse_v6 :: "string \<Rightarrow> 128 word option" where
  "parse_v6 s =
     (case split_scope_id s of
        None \<Rightarrow> None
      | Some a \<Rightarrow>
          (case v6_parts a of
             None \<Rightarrow> None
           | Some ps \<Rightarrow> map_option of_hextets (v6_hextets ps)))"

datatype address = IPv4Address "32 word" | IPv6Address "128 word"

definition ip_address :: "string \<Rightarrow> address option" where
  "ip_address s =
     (if CHR ''/'' \<in> set s then None
      else case parse_v4 s of
             Some w \<Rightarrow> Some (IPv4Address w)
           | None \<Rightarrow> map_option IPv6Address (parse_v6 s))"

definition octets :: "32 word \<Rightarrow> nat list" where
  "octets w =
     (let n = unat w
      in [n div 16777216, n div 65536 mod 256, n div 256 mod 256, n mod 256])"

definition show_v4 :: "32 word \<Rightarrow> string" where
  "show_v4 w = join_with ''.'' (map nat_to_string (octets w))"

definition ipv4_mapped :: "128 word \<Rightarrow> 32 word option" where
  "ipv4_mapped w = (if drop_bit 32 w = 0xFFFF then Some (ucast w) else None)"

definition to_hextets :: "128 word \<Rightarrow> nat list" where
  "to_hextets w = map (\<lambda>i. unat (drop_bit (112 - 16 * i) w) mod 65536) [0..<8]"

text \<open>
  The first longest run of zero hextets, as its start and length, is written as \<open>::\<close> when it has at
  least two.
\<close>

fun zero_run :: "nat list \<Rightarrow> nat" where
  "zero_run [] = 0"
| "zero_run (h # hs) = (if h = 0 then Suc (zero_run hs) else 0)"

definition longest_run :: "nat list \<Rightarrow> nat \<times> nat" where
  "longest_run hs =
     foldl (\<lambda>(s, l) i. if l < zero_run (drop i hs) then (i, zero_run (drop i hs)) else (s, l))
           (0, 0) [0..<length hs]"

definition show_v6 :: "128 word \<Rightarrow> string" where
  "show_v6 w =
     (let hs = to_hextets w; (s, l) = longest_run hs; ps = map hex_string hs
      in join_with '':''
           (if l < 2 then ps
            else (if s = 0 then [[]] else []) @ take s ps @ [[]] @ drop (s + l) ps @
                 (if s + l = length ps then [[]] else [])))"

section \<open>The key\<close>

definition IPV6_KEY_PREFIX :: nat where
  "IPV6_KEY_PREFIX = 64"

definition key_mask :: "128 word" where
  "key_mask = - 1 XOR (2 ^ (128 - IPV6_KEY_PREFIX) - 1)"

definition rate_limit_key :: "string \<Rightarrow> string option" where
  "rate_limit_key value =
     (case ip_address (py_strip value) of
        None \<Rightarrow> None
      | Some (IPv6Address w) \<Rightarrow>
          (case ipv4_mapped w of
             Some v \<Rightarrow> Some (show_v4 v)
           | None \<Rightarrow> Some (show_v6 (w AND key_mask) @ ''/'' @ nat_to_string IPV6_KEY_PREFIX))
      | Some (IPv4Address w) \<Rightarrow> Some (show_v4 w))"

text \<open>What \<open>client_ip\<close> reads of a request: the \<open>x-real-ip\<close> header and the socket peer.\<close>

record request =
  x_real_ip :: "string option"
  client_host :: "string option"

definition client_ip :: "request \<Rightarrow> string" where
  "client_ip request =
     (case rate_limit_key (or_empty (x_real_ip request)) of
        Some k \<Rightarrow> k
      | None \<Rightarrow>
          (case rate_limit_key (or_empty (client_host request)) of
             Some k \<Rightarrow> k
           | None \<Rightarrow> ''unknown''))"

section \<open>Decimal texts\<close>

lemma decimal_snoc:
  "decimal acc (s @ [c]) =
     (case decimal acc s of
        None \<Rightarrow> None
      | Some n \<Rightarrow> (case digit_val c of None \<Rightarrow> None | Some d \<Rightarrow> Some (10 * n + d)))"
  by (induction s arbitrary: acc) (auto split: option.splits)

lemma decimal_nat_to_string: "decimal 0 (nat_to_string n) = Some n"
proof (induction n rule: nat_to_string.induct)
  case (1 n)
  show ?case
  proof (cases "n < 10")
    case True
    then show ?thesis by (simp add: nat_to_string.simps digit_char)
  next
    case False
    with 1 have "decimal 0 (nat_to_string (n div 10)) = Some (n div 10)" by simp
    with False show ?thesis
      by (subst nat_to_string.simps) (simp add: decimal_snoc digit_char)
  qed
qed

lemma octet_text:
  assumes "n < 256"
  shows "parse_octet (nat_to_string n) = Some n"
    and "CHR ''.'' \<notin> set (nat_to_string n)"
    and "CHR ''/'' \<notin> set (nat_to_string n)"
proof -
  have "length (nat_to_string n) \<le> 3" using nat_to_string_length [of n 3] assms by simp
  moreover have "nat_to_string n = ''0'' \<or> hd (nat_to_string n) \<noteq> CHR ''0''"
  proof (cases "n = 0")
    case True
    moreover have "nat_to_string 0 = ''0''" by code_simp
    ultimately have "nat_to_string n = ''0''" by simp
    then show ?thesis ..
  qed (simp add: nat_to_string_hd)
  ultimately show "parse_octet (nat_to_string n) = Some n"
    using assms by (auto simp: parse_octet_def decimal_nat_to_string)
  show "CHR ''.'' \<notin> set (nat_to_string n)" "CHR ''/'' \<notin> set (nat_to_string n)"
    using nat_to_string_chars digit_char by metis+
qed

lemma split_on_plain: "sep \<notin> set p \<Longrightarrow> split_on sep p = [p]"
  by (induction p) auto

lemma split_on_append: "sep \<notin> set p \<Longrightarrow> split_on sep (p @ sep # s) = p # split_on sep s"
  by (induction p) auto

lemma octets_small: "n \<in> set (octets w) \<Longrightarrow> n < 256"
proof -
  have "unat w < 4294967296" using unsigned_less [of w] by simp
  then show "n \<in> set (octets w) \<Longrightarrow> n < 256"
    by (auto simp: octets_def Let_def)
qed

lemma base256:
  fixes n :: nat
  shows "((n div 16777216 * 256 + n div 65536 mod 256) * 256 + n div 256 mod 256) * 256 + n mod 256 = n"
proof -
  have "n div 16777216 = n div 65536 div 256" "n div 65536 = n div 256 div 256"
    by (simp_all flip: div_mult2_eq)
  then show ?thesis by (metis div_mult_mod_eq)
qed

lemma octets_value:
  "octets w = [a, b, c, d] \<Longrightarrow> ((a * 256 + b) * 256 + c) * 256 + d = unat w"
  using base256 [of "unat w"] by (auto simp: octets_def Let_def)

lemma show_v4_octets:
  obtains a b c d where "octets w = [a, b, c, d]" "a < 256" "b < 256" "c < 256" "d < 256"
proof -
  obtain a b c d where o: "octets w = [a, b, c, d]" by (auto simp: octets_def Let_def)
  then have "a < 256" "b < 256" "c < 256" "d < 256"
    using octets_small [of _ w] by simp_all
  with o show thesis by (rule that)
qed

lemma parse_show_v4: "parse_v4 (show_v4 w) = Some w"
proof -
  obtain a b c d where o: "octets w = [a, b, c, d]" and s: "a < 256" "b < 256" "c < 256" "d < 256"
    by (rule show_v4_octets)
  have "split_on (CHR ''.'') (show_v4 w) = map nat_to_string [a, b, c, d]"
    by (simp add: show_v4_def o split_on_append split_on_plain octet_text s)
  then show ?thesis
    using octets_value [OF o] by (simp add: parse_v4_def octet_text s)
qed

lemma show_v4_chars: "c \<in> set (show_v4 w) \<Longrightarrow> c = CHR ''.'' \<or> (\<exists>d<10. c = digit_char d)"
proof -
  obtain x y z u where "octets w = [x, y, z, u]" by (rule show_v4_octets)
  then show "c \<in> set (show_v4 w) \<Longrightarrow> c = CHR ''.'' \<or> (\<exists>d<10. c = digit_char d)"
    using nat_to_string_chars by (auto simp: show_v4_def)
qed

lemma strip_show_v4: "py_strip (show_v4 w) = show_v4 w"
proof (rule py_strip_id)
  fix c assume "c \<in> set (show_v4 w)"
  then consider "c = CHR ''.''" | d where "d < 10" "c = digit_char d" using show_v4_chars by blast
  then show "\<not> py_space c"
  proof cases
    case 1
    moreover have "\<not> py_space (CHR ''.'')" by code_simp
    ultimately show ?thesis by simp
  next
    case 2
    then show ?thesis by (simp add: digit_char)
  qed
qed

lemma ip_address_show_v4: "ip_address (show_v4 w) = Some (IPv4Address w)"
proof -
  have "CHR ''/'' \<notin> set (show_v4 w)"
    using show_v4_chars [of "CHR ''/''" w] digit_char(4) by fastforce
  then show ?thesis by (simp add: ip_address_def parse_show_v4)
qed

lemma key_of_v4: "rate_limit_key (show_v4 w) = Some (show_v4 w)"
  by (simp add: rate_limit_key_def strip_show_v4 ip_address_show_v4)

section \<open>The /64 of an address\<close>

lemma key_mask_bit: "bit key_mask n \<longleftrightarrow> 64 \<le> n \<and> n < 128"
proof -
  have "key_mask = NOT (mask 64)"
    by (simp add: key_mask_def IPV6_KEY_PREFIX_def mask_eq_exp_minus_1)
  then have "bit key_mask n \<longleftrightarrow> bit (NOT (mask 64) :: 128 word) n" by simp
  also have "\<dots> \<longleftrightarrow> 64 \<le> n \<and> n < 128" by (auto simp: bit_simps)
  finally show ?thesis .
qed

lemma masked_eq_iff: "v AND key_mask = w AND key_mask \<longleftrightarrow> drop_bit 64 v = drop_bit 64 w"
  for v w :: "128 word"
proof
  assume e: "v AND key_mask = w AND key_mask"
  show "drop_bit 64 v = drop_bit 64 w"
  proof (rule bit_word_eqI)
    fix n assume "n < LENGTH(128)"
    have "bit (v AND key_mask) (n + 64) = bit (w AND key_mask) (n + 64)" by (simp add: e)
    then show "bit (drop_bit 64 v) n = bit (drop_bit 64 w) n"
      by (cases "n + 64 < 128") (auto simp: bit_simps key_mask_bit add.commute dest: bit_imp_le_length)
  qed
next
  assume e: "drop_bit 64 v = drop_bit 64 w"
  show "v AND key_mask = w AND key_mask"
  proof (rule bit_word_eqI)
    fix n assume "n < LENGTH(128)"
    have "bit (drop_bit 64 v) (n - 64) = bit (drop_bit 64 w) (n - 64)" by (simp add: e)
    then show "bit (v AND key_mask) n = bit (w AND key_mask) n"
      by (cases "64 \<le> n") (auto simp: bit_simps key_mask_bit)
  qed
qed

lemma mapped_prefix: 
  assumes "ipv4_mapped w = Some v" shows "drop_bit 64 w = 0"
proof -
  have "drop_bit 32 w = 0xFFFF" using assms by (simp add: ipv4_mapped_def split: if_splits)
  then have "drop_bit 32 (drop_bit 32 w) = drop_bit 32 0xFFFF" by simp
  then show ?thesis by (simp add: drop_bit_drop_bit)
qed

section \<open>Properties\<close>

text \<open>
  A caller cannot leave its bucket by rotating through its own /64.  Two IPv6 texts whose
  addresses share the upper 64 bits (in any spelling, with or without zone id, and outside the
  block that holds the IPv4-mapped addresses) have the same key.
\<close>

theorem same_subnet_same_key:
  assumes "ip_address (py_strip a) = Some (IPv6Address v)"
    and "ip_address (py_strip b) = Some (IPv6Address w)"
    and "drop_bit 64 v = drop_bit 64 w" and "drop_bit 64 v \<noteq> 0"
  shows "rate_limit_key a = rate_limit_key b \<and> rate_limit_key a \<noteq> None"
proof -
  have "ipv4_mapped v = None" "ipv4_mapped w = None"
    using mapped_prefix [of v] mapped_prefix [of w] assms(3,4) by (metis not_Some_eq)+
  moreover have "v AND key_mask = w AND key_mask"
    using assms(3) by (simp add: masked_eq_iff)
  ultimately show ?thesis using assms(1,2) by (simp add: rate_limit_key_def)
qed

definition v6_sample :: "nat \<Rightarrow> 128 word" where
  "v6_sample h = of_hextets [8193, 3512, 1, 2, 0, 0, 0, h]"

lemma v6_sample_texts:
  "ip_address (py_strip ''2001:db8:1:2::5'') = Some (IPv6Address (v6_sample 5))"
  "ip_address (py_strip '' 2001:DB8:1:2:0::9%eth0'') = Some (IPv6Address (v6_sample 9))"
proof -
  have "py_strip ''2001:db8:1:2::5'' = ''2001:db8:1:2::5''"
    "parse_v4 ''2001:db8:1:2::5'' = None"
    "split_scope_id ''2001:db8:1:2::5'' = Some ''2001:db8:1:2::5''"
    "v6_parts ''2001:db8:1:2::5'' = Some [''2001'', ''db8'', ''1'', ''2'', [], ''5'']"
    "v6_hextets [''2001'', ''db8'', ''1'', ''2'', [], ''5''] = Some [8193, 3512, 1, 2, 0, 0, 0, 5]"
    by code_simp+
  then show "ip_address (py_strip ''2001:db8:1:2::5'') = Some (IPv6Address (v6_sample 5))"
    by (simp add: ip_address_def parse_v6_def v6_sample_def)
  have "py_strip '' 2001:DB8:1:2:0::9%eth0'' = ''2001:DB8:1:2:0::9%eth0''"
    "parse_v4 ''2001:DB8:1:2:0::9%eth0'' = None"
    "split_scope_id ''2001:DB8:1:2:0::9%eth0'' = Some ''2001:DB8:1:2:0::9''"
    "v6_parts ''2001:DB8:1:2:0::9'' = Some [''2001'', ''DB8'', ''1'', ''2'', ''0'', [], ''9'']"
    "v6_hextets [''2001'', ''DB8'', ''1'', ''2'', ''0'', [], ''9''] = Some [8193, 3512, 1, 2, 0, 0, 0, 9]"
    by code_simp+
  then show "ip_address (py_strip '' 2001:DB8:1:2:0::9%eth0'') = Some (IPv6Address (v6_sample 9))"
    by (simp add: ip_address_def parse_v6_def v6_sample_def)
qed

lemma v6_sample_prefix: "drop_bit 64 (v6_sample 5) = 2306139568115613698"
    "drop_bit 64 (v6_sample 9) = 2306139568115613698"
  by (simp_all add: v6_sample_def of_hextets_def)

theorem same_subnet_same_key_witness:
  "rate_limit_key ''2001:db8:1:2::5'' = rate_limit_key '' 2001:DB8:1:2:0::9%eth0''"
  using same_subnet_same_key [OF v6_sample_texts] by (simp add: v6_sample_prefix)

text \<open>
  An IPv4 caller is its own bucket.  The key of an IPv4 address in canonical form is that form,
  so distinct addresses have distinct keys; an IPv6 caller on an IPv4-mapped address shares the
  bucket of the IPv4 address.
\<close>

theorem ipv4_keys:
  "(rate_limit_key (show_v4 v) = rate_limit_key (show_v4 w) \<longleftrightarrow> v = w) \<and>
   rate_limit_key (show_v4 v) = Some (show_v4 v) \<and>
   (ip_address (py_strip a) = Some (IPv6Address m) \<and> ipv4_mapped m = Some v \<longrightarrow>
    rate_limit_key a = rate_limit_key (show_v4 v))"
proof -
  have "rate_limit_key (show_v4 v) = rate_limit_key (show_v4 w) \<longleftrightarrow> v = w"
    by (metis key_of_v4 option.inject parse_show_v4)
  moreover have "rate_limit_key (show_v4 v) = Some (show_v4 v)" by (rule key_of_v4)
  ultimately show ?thesis by (auto simp: rate_limit_key_def)
qed

lemma mapped_sample:
  "ip_address (py_strip ''::ffff:10.0.0.7'') =
     Some (IPv6Address (of_hextets [0, 0, 0, 0, 0, 65535, 2560, 7]))"
  "ipv4_mapped (of_hextets [0, 0, 0, 0, 0, 65535, 2560, 7]) = Some 167772167"
proof -
  have "py_strip ''::ffff:10.0.0.7'' = ''::ffff:10.0.0.7''"
    "parse_v4 ''::ffff:10.0.0.7'' = None"
    "split_scope_id ''::ffff:10.0.0.7'' = Some ''::ffff:10.0.0.7''"
    "v6_parts ''::ffff:10.0.0.7'' = Some [[], [], ''ffff'', ''a00'', ''7'']"
    "v6_hextets [[], [], ''ffff'', ''a00'', ''7''] = Some [0, 0, 0, 0, 0, 65535, 2560, 7]"
    by code_simp+
  then show "ip_address (py_strip ''::ffff:10.0.0.7'') =
      Some (IPv6Address (of_hextets [0, 0, 0, 0, 0, 65535, 2560, 7]))"
    by (simp add: ip_address_def parse_v6_def)
  show "ipv4_mapped (of_hextets [0, 0, 0, 0, 0, 65535, 2560, 7]) = Some 167772167"
    by (simp add: ipv4_mapped_def of_hextets_def)
qed

theorem ipv4_keys_witness:
  "rate_limit_key ''::ffff:10.0.0.7'' = rate_limit_key (show_v4 167772167)"
  using ipv4_keys [of 167772167 0 "''::ffff:10.0.0.7''"] mapped_sample by blast

end
