(* ===== verification/Quota.thy ===== *)
theory Quota
  imports Redis ClientIp
begin

text \<open>
  \<^verbatim>\<open>services/generation_quota.py\<close>: the daily caps on generation, one bucket per account and one per
  client address, counted in Redis.  Instants are in milliseconds of the Unix epoch; each Redis call
  has its own outcome, so that every failure of the backend is a branch of the model.
\<close>

section \<open>Configuration\<close>

definition DEFAULT_USER_DAILY_CAP :: int where
  "DEFAULT_USER_DAILY_CAP = 10"

definition DEFAULT_IP_DAILY_CAP :: int where
  "DEFAULT_IP_DAILY_CAP = 20"

definition QUOTA_TTL :: int where
  "QUOTA_TTL = 36 * 60 * 60 * 1000"

definition cap_from_env :: "environ \<Rightarrow> string \<Rightarrow> int \<Rightarrow> int" where
  "cap_from_env env var d = env_int env var d"

definition user_daily_cap :: "environ \<Rightarrow> int" where
  "user_daily_cap env = cap_from_env env ''GENERATION_DAILY_CAP_PER_USER'' DEFAULT_USER_DAILY_CAP"

definition ip_daily_cap :: "environ \<Rightarrow> int" where
  "ip_daily_cap env = cap_from_env env ''GENERATION_DAILY_CAP_PER_IP'' DEFAULT_IP_DAILY_CAP"

section \<open>Buckets\<close>

text \<open>
  \<^verbatim>\<open>datetime.now(UTC).strftime("%Y-%m-%d")\<close>: the proleptic Gregorian date of the day an instant
  lies in, counted from the first of March of the year 0 in cycles of 400 years.
\<close>

definition DAY :: int where
  "DAY = 86400000"

definition utc_day :: "int \<Rightarrow> int" where
  "utc_day now = now div DAY"

definition date_text :: "int \<Rightarrow> string" where
  "date_text day =
     (let z = day + 719468; era = z div 146097; doe = z mod 146097;
          yoe = (doe - doe div 1460 + doe div 36524 - doe div 146096) div 365;
          doy = doe - (365 * yoe + yoe div 4 - yoe div 100);
          mp = (5 * doy + 2) div 153;
          d = doy - (153 * mp + 2) div 5 + 1;
          m = (if mp < 10 then mp + 3 else mp - 9);
          y = yoe + era * 400 + (if m \<le> 2 then 1 else 0)
      in nat_to_string (nat y) @ ''-'' @ pad_left 2 (nat_to_string (nat m)) @ ''-'' @
         pad_left 2 (nat_to_string (nat d)))"

definition quota_key :: "string \<Rightarrow> int \<Rightarrow> string \<Rightarrow> string" where
  "quota_key scope now identity =
     ''archimedes:genquota:'' @ scope @ '':'' @ date_text (utc_day now) @ '':'' @ identity"

text \<open>Whether the \<open>INCR\<close> and the \<open>EXPIRE\<close> of one call reach Redis.\<close>

record backend =
  incr_up :: bool
  expire_up :: bool

definition check_and_increment ::
    "backend \<Rightarrow> int \<Rightarrow> string \<Rightarrow> string \<Rightarrow> int \<Rightarrow> redis \<Rightarrow> (bool \<times> int) \<times> redis" where
  "check_and_increment b now scope identity cap r =
     (let key = quota_key scope now identity
      in if \<not> incr_up b then ((False, 0), r)
         else case r_incr now key r of
                (Inl _, _) \<Rightarrow> ((False, 0), r)
              | (Inr count, r') \<Rightarrow>
                  ((count \<le> cap, count),
                   if expire_up b then r_expire_nx now key QUOTA_TTL r' else r'))"

definition peek :: "bool \<Rightarrow> int \<Rightarrow> string \<Rightarrow> string \<Rightarrow> redis \<Rightarrow> int option" where
  "peek up now scope identity r =
     (if \<not> up then None
      else case live now r (quota_key scope now identity) of
             None \<Rightarrow> Some 0
           | Some (RInt n) \<Rightarrow> Some n
           | Some (RStr s) \<Rightarrow> py_int s
           | Some _ \<Rightarrow> None)"

section \<open>Enforcement\<close>

definition quota_503 :: exn where
  "quota_503 = HTTPException 503 ''generation_quota_unavailable''"

definition quota_429 :: "string \<Rightarrow> int \<Rightarrow> exn" where
  "quota_429 scope cap = HTTPException 429 ''generation_daily_cap''"

text \<open>
  One layer of the enforcement: nothing when its cap is not positive, otherwise the count and the
  exception the outcome calls for.
\<close>

definition enforce_layer ::
    "backend \<Rightarrow> int \<Rightarrow> string \<Rightarrow> string \<Rightarrow> int \<Rightarrow> (redis, unit) op" where
  "enforce_layer b now scope identity cap r =
     (if cap \<le> 0 then (Inr (), r)
      else case check_and_increment b now scope identity cap r of
        ((allowed, used), r') \<Rightarrow>
          if allowed then (Inr (), r')
          else if used = 0 then (Inl quota_503, r')
          else (Inl (quota_429 scope cap), r'))"

definition enforce_generation_quota ::
    "environ \<Rightarrow> backend \<Rightarrow> backend \<Rightarrow> int \<Rightarrow> int \<Rightarrow> request \<Rightarrow> string \<Rightarrow> (redis, unit) op" where
  "enforce_generation_quota env bu bi now now' request user_id r =
     (let u_cap = user_daily_cap env; i_cap = ip_daily_cap env
      in if u_cap \<le> 0 \<and> i_cap \<le> 0 then (Inr (), r)
         else case enforce_layer bu now ''user'' user_id u_cap r of
                (Inl e, r') \<Rightarrow> (Inl e, r')
              | (Inr _, r') \<Rightarrow> enforce_layer bi now' ''ip'' (client_ip request) i_cap r')"

section \<open>Admission counters\<close>

text \<open>
  The contract of a counter that admits at most \<open>cap\<close> calls: a step never lowers the count, and a
  step that admits a call the counter serves has counted it and is still within the cap.  \<open>valid\<close>
  says which calls the contract is about.
\<close>

locale admission =
  fixes ok :: "'s \<Rightarrow> bool"
    and valid :: "'c \<Rightarrow> bool"
    and serves :: "'c \<Rightarrow> bool"
    and step :: "'c \<Rightarrow> 's \<Rightarrow> bool \<times> 's"
    and used :: "'s \<Rightarrow> int"
    and cap :: int
  assumes step_ok: "ok s \<Longrightarrow> valid c \<Longrightarrow> ok (snd (step c s))"
    and used_mono: "ok s \<Longrightarrow> valid c \<Longrightarrow> used s \<le> used (snd (step c s))"
    and admits: "ok s \<Longrightarrow> valid c \<Longrightarrow> serves c \<Longrightarrow> fst (step c s) \<Longrightarrow>
                 used s < used (snd (step c s)) \<and> used (snd (step c s)) \<le> cap"
begin

fun admitted :: "'c list \<Rightarrow> 's \<Rightarrow> nat" where
  "admitted [] s = 0"
| "admitted (c # cs) s =
     (if serves c \<and> fst (step c s) then 1 else 0) + admitted cs (snd (step c s))"

lemma admitted_full: "ok s \<Longrightarrow> list_all valid cs \<Longrightarrow> cap \<le> used s \<Longrightarrow> admitted cs s = 0"
proof (induction cs arbitrary: s)
  case (Cons c cs)
  then have "ok (snd (step c s))" "used s \<le> used (snd (step c s))"
    by (simp_all add: step_ok used_mono)
  moreover from this have "\<not> (serves c \<and> fst (step c s))"
    using admits [of s c] Cons.prems by auto
  ultimately show ?case using Cons by auto
qed simp

lemma admitted_within:
  "ok s \<Longrightarrow> list_all valid cs \<Longrightarrow> used s \<le> cap \<Longrightarrow> int (admitted cs s) \<le> cap - used s"
proof (induction cs arbitrary: s)
  case (Cons c cs)
  let ?s = "snd (step c s)"
  have ok: "ok ?s" and mono: "used s \<le> used ?s"
    using Cons.prems by (simp_all add: step_ok used_mono)
  have a: "serves c \<and> fst (step c s) \<Longrightarrow> used s < used ?s \<and> used ?s \<le> cap"
    using admits [of s c] Cons.prems by simp
  show ?case
  proof (cases "used ?s \<le> cap")
    case True
    then have "int (admitted cs ?s) \<le> cap - used ?s"
      using Cons.IH ok Cons.prems(2) by simp
    with a mono show ?thesis by auto
  next
    case False
    then have "admitted cs ?s = 0" using ok Cons.prems(2) by (simp add: admitted_full)
    with False a Cons.prems(3) show ?thesis by auto
  qed
qed simp

end

section \<open>A bucket during one day\<close>

text \<open>
  The state of a bucket on day \<open>d\<close>: not there, or a count that is not negative and does not expire
  before the day is over.  The lifetime of a bucket is 36 hours, so the count survives its day
  whenever in the day it was created.
\<close>

definition bucket_ok :: "string \<Rightarrow> int \<Rightarrow> redis \<Rightarrow> bool" where
  "bucket_ok k d r \<longleftrightarrow>
     (case r k of
        None \<Rightarrow> True
      | Some (RInt n, None) \<Rightarrow> 0 \<le> n
      | Some (RInt n, Some e) \<Rightarrow> 0 \<le> n \<and> (d + 1) * DAY \<le> e
      | _ \<Rightarrow> False)"

definition bucket_used :: "string \<Rightarrow> redis \<Rightarrow> int" where
  "bucket_used k r = (case r k of Some (RInt n, _) \<Rightarrow> n | _ \<Rightarrow> 0)"

lemma utc_day_bounds:
  "utc_day now = d \<Longrightarrow> d * DAY \<le> now \<and> now < (d + 1) * DAY"
  by (auto simp: utc_day_def DAY_def)

lemma live_bucket:
  assumes "bucket_ok k d r" and "utc_day now = d"
  shows "live now r k = (case r k of None \<Rightarrow> None | Some (v, _) \<Rightarrow> Some v)"
  using assms utc_day_bounds [OF assms(2)]
  by (auto simp: bucket_ok_def live_def split: option.splits prod.splits rval.splits)

lemma incr_bucket:
  assumes "bucket_ok k d r" and "utc_day now = d"
  shows "\<exists>r'. r_incr now k r = (Inr (bucket_used k r + 1), r') \<and>
           bucket_ok k d r' \<and> bucket_used k r' = bucket_used k r + 1"
proof (cases "r k")
  case None
  then show ?thesis
    using live_bucket [OF assms] by (simp add: r_incr_def bucket_used_def bucket_ok_def)
next
  case (Some p)
  obtain v e where p: "p = (v, e)" by (cases p)
  with Some assms(1) obtain n where "r k = Some (RInt n, e)" "0 \<le> n"
    by (cases v; cases e) (auto simp: bucket_ok_def)
  with assms live_bucket [OF assms] show ?thesis
    by (auto simp: r_incr_def bucket_used_def bucket_ok_def lifetime_def split: option.splits)
qed

lemma expire_bucket:
  assumes "bucket_ok k d r" and "utc_day now = d"
  shows "bucket_ok k d (r_expire_nx now k QUOTA_TTL r) \<and>
         bucket_used k (r_expire_nx now k QUOTA_TTL r) = bucket_used k r"
proof -
  have "(d + 1) * DAY \<le> now + QUOTA_TTL"
    using utc_day_bounds [OF assms(2)] by (simp add: QUOTA_TTL_def DAY_def)
  with assms(1) live_bucket [OF assms] show ?thesis
    by (auto simp: r_expire_nx_def bucket_ok_def bucket_used_def
        split: option.splits prod.splits rval.splits)
qed

lemma expire_nx_other: "k' \<noteq> k \<Longrightarrow> r_expire_nx now k ttl r k' = r k'"
  by (auto simp: r_expire_nx_def split: option.splits)

lemma incr_other: "k' \<noteq> k \<Longrightarrow> snd (r_incr now k r) k' = r k'"
  by (auto simp: r_incr_def split: option.splits rval.splits)

lemma check_and_increment_other:
  "k \<noteq> quota_key scope now identity \<Longrightarrow>
   snd (check_and_increment b now scope identity cap r) k = r k"
  using incr_other [of k "quota_key scope now identity" now r]
  by (auto simp: check_and_increment_def Let_def expire_nx_other split: prod.splits sum.splits)

lemma check_and_increment_bucket:
  assumes "bucket_ok (quota_key scope now identity) d r" and "utc_day now = d"
  obtains r' where
    "check_and_increment b now scope identity cap r =
       (if incr_up b
        then ((bucket_used (quota_key scope now identity) r + 1 \<le> cap,
               bucket_used (quota_key scope now identity) r + 1), r')
        else ((False, 0), r))"
    "bucket_ok (quota_key scope now identity) d r'"
    "bucket_used (quota_key scope now identity) r' =
       bucket_used (quota_key scope now identity) r + 1"
proof -
  let ?k = "quota_key scope now identity"
  obtain r1 where r1: "r_incr now ?k r = (Inr (bucket_used ?k r + 1), r1)"
    "bucket_ok ?k d r1" "bucket_used ?k r1 = bucket_used ?k r + 1"
    using incr_bucket [OF assms] by blast
  show thesis
    by (rule that [of "if expire_up b then r_expire_nx now ?k QUOTA_TTL r1 else r1"])
      (use r1 expire_bucket [OF r1(2) assms(2)] in \<open>simp_all add: check_and_increment_def Let_def\<close>)
qed

section \<open>Calls of the enforcement\<close>

record quota_call =
  qc_request :: request
  qc_user :: string
  qc_now :: int
  qc_now' :: int
  qc_bu :: backend
  qc_bi :: backend

definition quota_step :: "environ \<Rightarrow> quota_call \<Rightarrow> redis \<Rightarrow> bool \<times> redis" where
  "quota_step env c r =
     (case enforce_generation_quota env (qc_bu c) (qc_bi c) (qc_now c) (qc_now' c) (qc_request c)
             (qc_user c) r of
        (res, r') \<Rightarrow> (res = Inr (), r'))"

definition on_day :: "int \<Rightarrow> quota_call \<Rightarrow> bool" where
  "on_day d c \<longleftrightarrow> utc_day (qc_now c) = d \<and> utc_day (qc_now' c) = d"

lemma utc_day_start: "utc_day (d * DAY) = d"
  by (simp add: utc_day_def DAY_def)

lemma quota_key_day: "utc_day now = d \<Longrightarrow> quota_key scope now i = quota_key scope (d * DAY) i"
  by (simp add: quota_key_def utc_day_start)

lemma quota_keys_differ: "quota_key ''user'' now u \<noteq> quota_key ''ip'' now' i"
  by (simp add: quota_key_def)

lemma layer_other:
  "k \<noteq> quota_key scope now i \<Longrightarrow> snd (enforce_layer b now scope i cap r) k = r k"
  using check_and_increment_other [of k scope now i b cap r]
  by (auto simp: enforce_layer_def split: prod.splits)

lemma layer_bucket:
  assumes "bucket_ok k d r" and "utc_day now = d"
  shows "bucket_ok k d (snd (enforce_layer b now scope i cap r)) \<and>
         bucket_used k r \<le> bucket_used k (snd (enforce_layer b now scope i cap r))"
proof (cases "k = quota_key scope now i")
  case False
  then have "snd (enforce_layer b now scope i cap r) k = r k" by (rule layer_other)
  with assms(1) show ?thesis by (simp add: bucket_ok_def bucket_used_def)
next
  case True
  with assms obtain r' where "check_and_increment b now scope i cap r =
       (if incr_up b then ((bucket_used k r + 1 \<le> cap, bucket_used k r + 1), r') else ((False, 0), r))"
    "bucket_ok k d r'" "bucket_used k r' = bucket_used k r + 1"
    using check_and_increment_bucket by metis
  with assms(1) show ?thesis by (simp add: enforce_layer_def)
qed

lemma layer_admits:
  assumes "bucket_ok (quota_key scope now i) d r" and "utc_day now = d" and "0 < cap"
    and "enforce_layer b now scope i cap r = (Inr (), r')"
  shows "bucket_used (quota_key scope now i) r' = bucket_used (quota_key scope now i) r + 1 \<and>
         bucket_used (quota_key scope now i) r' \<le> cap"
proof -
  let ?k = "quota_key scope now i"
  obtain r1 where c: "check_and_increment b now scope i cap r =
       (if incr_up b then ((bucket_used ?k r + 1 \<le> cap, bucket_used ?k r + 1), r1) else ((False, 0), r))"
    and u: "bucket_used ?k r1 = bucket_used ?k r + 1"
    using check_and_increment_bucket [OF assms(1,2)] by metis
  from assms(3,4) c have "r' = r1 \<and> bucket_used ?k r + 1 \<le> cap"
    by (simp add: enforce_layer_def split: if_splits)
  with u show ?thesis by simp
qed

lemma enforce_bucket:
  assumes "bucket_ok k d r" and "on_day d c"
  shows "bucket_ok k d (snd (quota_step env c r)) \<and>
         bucket_used k r \<le> bucket_used k (snd (quota_step env c r))"
proof -
  let ?l1 = "enforce_layer (qc_bu c) (qc_now c) ''user'' (qc_user c) (user_daily_cap env) r"
  have 1: "bucket_ok k d (snd ?l1) \<and> bucket_used k r \<le> bucket_used k (snd ?l1)"
    using assms by (intro layer_bucket) (simp_all add: on_day_def)
  have 2: "bucket_ok k d (snd (enforce_layer (qc_bi c) (qc_now' c) ''ip'' i cap (snd ?l1))) \<and>
    bucket_used k (snd ?l1) \<le>
    bucket_used k (snd (enforce_layer (qc_bi c) (qc_now' c) ''ip'' i cap (snd ?l1)))" for i cap
    using 1 assms by (intro layer_bucket) (simp_all add: on_day_def)
  have "snd (quota_step env c r) =
      (if user_daily_cap env \<le> 0 \<and> ip_daily_cap env \<le> 0 then r
       else if \<exists>e. fst ?l1 = Inl e then snd ?l1
       else snd (enforce_layer (qc_bi c) (qc_now' c) ''ip'' (client_ip (qc_request c))
                   (ip_daily_cap env) (snd ?l1)))"
    by (simp add: quota_step_def enforce_generation_quota_def Let_def split: prod.splits sum.splits)
  then show ?thesis
    using assms(1) 1 2 [of "client_ip (qc_request c)" "ip_daily_cap env"] by simp
qed

lemma quota_step_accepts:
  assumes "fst (quota_step env c r)" and "0 < user_daily_cap env \<or> 0 < ip_daily_cap env"
  obtains r' where
    "enforce_layer (qc_bu c) (qc_now c) ''user'' (qc_user c) (user_daily_cap env) r = (Inr (), r')"
    "enforce_layer (qc_bi c) (qc_now' c) ''ip'' (client_ip (qc_request c)) (ip_daily_cap env) r' =
       (Inr (), snd (quota_step env c r))"
  using assms that
  by (auto simp: quota_step_def enforce_generation_quota_def Let_def split: prod.splits sum.splits)

lemma user_admits:
  assumes "bucket_ok (quota_key ''user'' (d * DAY) (qc_user c)) d r" and "on_day d c"
    and "0 < user_daily_cap env" and "fst (quota_step env c r)"
  shows "bucket_used (quota_key ''user'' (d * DAY) (qc_user c)) r
       < bucket_used (quota_key ''user'' (d * DAY) (qc_user c)) (snd (quota_step env c r)) \<and>
         bucket_used (quota_key ''user'' (d * DAY) (qc_user c)) (snd (quota_step env c r))
       \<le> user_daily_cap env"
proof -
  let ?k = "quota_key ''user'' (d * DAY) (qc_user c)"
  have k: "quota_key ''user'' (qc_now c) (qc_user c) = ?k" and n: "utc_day (qc_now c) = d"
    using assms(2) by (auto simp: on_day_def intro: quota_key_day)
  obtain r' where
    l: "enforce_layer (qc_bu c) (qc_now c) ''user'' (qc_user c) (user_daily_cap env) r = (Inr (), r')"
    and l': "enforce_layer (qc_bi c) (qc_now' c) ''ip'' (client_ip (qc_request c)) (ip_daily_cap env) r' =
       (Inr (), snd (quota_step env c r))"
    using quota_step_accepts assms(3,4) by blast
  have "snd (enforce_layer (qc_bi c) (qc_now' c) ''ip'' (client_ip (qc_request c)) (ip_daily_cap env) r') ?k
      = r' ?k"
    by (rule layer_other) (rule quota_keys_differ)
  then have "snd (quota_step env c r) ?k = r' ?k" by (simp only: l' snd_conv)
  moreover have "bucket_used ?k r' = bucket_used ?k r + 1 \<and> bucket_used ?k r' \<le> user_daily_cap env"
    using layer_admits [OF _ n assms(3) l] assms(1) k by simp
  ultimately show ?thesis by (simp add: bucket_used_def)
qed

lemma ip_admits:
  assumes "bucket_ok (quota_key ''ip'' (d * DAY) (client_ip (qc_request c))) d r" and "on_day d c"
    and "0 < ip_daily_cap env" and "fst (quota_step env c r)"
  shows "bucket_used (quota_key ''ip'' (d * DAY) (client_ip (qc_request c))) r
       < bucket_used (quota_key ''ip'' (d * DAY) (client_ip (qc_request c))) (snd (quota_step env c r)) \<and>
         bucket_used (quota_key ''ip'' (d * DAY) (client_ip (qc_request c))) (snd (quota_step env c r))
       \<le> ip_daily_cap env"
proof -
  let ?k = "quota_key ''ip'' (d * DAY) (client_ip (qc_request c))"
  have k: "quota_key ''ip'' (qc_now' c) (client_ip (qc_request c)) = ?k" and n: "utc_day (qc_now' c) = d"
    using assms(2) by (auto simp: on_day_def intro: quota_key_day)
  obtain r' where
    l: "enforce_layer (qc_bu c) (qc_now c) ''user'' (qc_user c) (user_daily_cap env) r = (Inr (), r')"
    and l': "enforce_layer (qc_bi c) (qc_now' c) ''ip'' (client_ip (qc_request c)) (ip_daily_cap env) r' =
       (Inr (), snd (quota_step env c r))"
    using quota_step_accepts assms(3,4) by blast
  have "snd (enforce_layer (qc_bu c) (qc_now c) ''user'' (qc_user c) (user_daily_cap env) r) ?k = r ?k"
    by (rule layer_other) (rule quota_keys_differ [symmetric])
  then have "r' ?k = r ?k" by (simp only: l snd_conv)
  then have "bucket_ok ?k d r'" and e: "bucket_used ?k r' = bucket_used ?k r"
    using assms(1) by (simp_all add: bucket_ok_def bucket_used_def)
  then show ?thesis
    using layer_admits [OF _ n assms(3) l'] k by simp
qed

interpretation user_bucket: admission
    "bucket_ok (quota_key ''user'' (d * DAY) u) d" "\<lambda>c. on_day d c \<and> 0 < user_daily_cap env"
    "\<lambda>c. qc_user c = u" "quota_step env" "bucket_used (quota_key ''user'' (d * DAY) u)"
    "user_daily_cap env"
  for d u env
  by unfold_locales (use enforce_bucket user_admits in auto)

interpretation ip_bucket: admission
    "bucket_ok (quota_key ''ip'' (d * DAY) ip) d" "\<lambda>c. on_day d c \<and> 0 < ip_daily_cap env"
    "\<lambda>c. client_ip (qc_request c) = ip" "quota_step env" "bucket_used (quota_key ''ip'' (d * DAY) ip)"
    "ip_daily_cap env"
  for d ip env
  by unfold_locales (use enforce_bucket ip_admits in auto)

section \<open>Properties\<close>

text \<open>How many of a sequence of calls the enforcement lets through, among those \<open>p\<close> selects.\<close>

fun let_through :: "environ \<Rightarrow> (quota_call \<Rightarrow> bool) \<Rightarrow> quota_call list \<Rightarrow> redis \<Rightarrow> nat" where
  "let_through env p [] r = 0"
| "let_through env p (c # cs) r =
     (if p c \<and> fst (quota_step env c r) then 1 else 0) + let_through env p cs (snd (quota_step env c r))"

lemma let_through_user: "let_through env (\<lambda>c. qc_user c = u) cs r = user_bucket.admitted u env cs r"
  by (induction cs arbitrary: r) simp_all

lemma let_through_ip:
  "let_through env (\<lambda>c. client_ip (qc_request c) = ip) cs r = ip_bucket.admitted ip env cs r"
  by (induction cs arbitrary: r) simp_all

text \<open>
  C19: the daily caps hold.  Whatever calls of the enforcement run during one UTC day (any accounts,
  any addresses, any failures of the Redis calls, instants in any order), at most the account cap of
  them succeed for one account, and at most the address cap for one rate-limit key, when the
  respective bucket of the day did not exist before.  The expiry of a bucket never resets it before
  its day is over.
\<close>

theorem daily_caps_hold:
  assumes "list_all (on_day d) cs"
  shows "(0 < user_daily_cap env \<and> r (quota_key ''user'' (d * DAY) u) = None \<longrightarrow>
          int (let_through env (\<lambda>c. qc_user c = u) cs r) \<le> user_daily_cap env) \<and>
         (0 < ip_daily_cap env \<and> r (quota_key ''ip'' (d * DAY) ip) = None \<longrightarrow>
          int (let_through env (\<lambda>c. client_ip (qc_request c) = ip) cs r) \<le> ip_daily_cap env)"
proof (intro conjI impI)
  assume "0 < user_daily_cap env \<and> r (quota_key ''user'' (d * DAY) u) = None"
  with assms show "int (let_through env (\<lambda>c. qc_user c = u) cs r) \<le> user_daily_cap env"
    using user_bucket.admitted_within [of d u r env cs]
    by (simp add: let_through_user bucket_ok_def bucket_used_def list_all_iff)
next
  assume "0 < ip_daily_cap env \<and> r (quota_key ''ip'' (d * DAY) ip) = None"
  with assms show "int (let_through env (\<lambda>c. client_ip (qc_request c) = ip) cs r) \<le> ip_daily_cap env"
    using ip_bucket.admitted_within [of d ip r env cs]
    by (simp add: let_through_ip bucket_ok_def bucket_used_def list_all_iff)
qed

definition sample_call :: "string \<Rightarrow> quota_call" where
  "sample_call u =
     \<lparr>qc_request = \<lparr>x_real_ip = Some ''203.0.113.7'', client_host = None\<rparr>, qc_user = u,
      qc_now = 20000 * 86400000 + 5, qc_now' = 20000 * 86400000 + 7,
      qc_bu = \<lparr>incr_up = True, expire_up = True\<rparr>, qc_bi = \<lparr>incr_up = True, expire_up = False\<rparr>\<rparr>"

definition cap_env :: environ where
  "cap_env = [''GENERATION_DAILY_CAP_PER_USER'' \<mapsto> ''1'', ''GENERATION_DAILY_CAP_PER_IP'' \<mapsto> '' 3 '']"

lemma sample_caps: "user_daily_cap cap_env = 1" "ip_daily_cap cap_env = 3"
  by code_simp+

lemma sample_calls_on_day: "list_all (on_day 20000) [sample_call ''u1'', sample_call ''u1'']"
  by (simp add: on_day_def sample_call_def utc_day_def DAY_def)

theorem daily_caps_hold_witness:
  "let_through cap_env (\<lambda>c. qc_user c = ''u1'') [sample_call ''u1'', sample_call ''u1''] Map.empty = 1"
proof -
  let ?n = "let_through cap_env (\<lambda>c. qc_user c = ''u1'') [sample_call ''u1'', sample_call ''u1''] Map.empty"
  have "int ?n \<le> 1"
    using daily_caps_hold [OF sample_calls_on_day, of cap_env Map.empty "''u1''"]
    by (simp add: sample_caps del: let_through.simps)
  moreover have "fst (quota_step cap_env (sample_call ''u1'') Map.empty)"
    by code_simp
  moreover have "qc_user (sample_call ''u1'') = ''u1''" by (simp add: sample_call_def)
  ultimately show ?thesis by simp
qed

text \<open>
  A call that the account layer refuses does not touch the address layer.  With the account's
  bucket at its cap the call raises 429 and leaves every key but the account's own bucket as it was,
  so that one account cannot use up the allowance of its network address.
\<close>

theorem user_refusal_spares_ip:
  assumes "0 < user_daily_cap env" and "incr_up bu" and "utc_day now = d"
    and "bucket_ok (quota_key ''user'' now u) d r"
    and "user_daily_cap env \<le> bucket_used (quota_key ''user'' now u) r"
    and "enforce_generation_quota env bu bi now now' request u r = (res, r')"
  shows "res = Inl (quota_429 ''user'' (user_daily_cap env)) \<and>
         (\<forall>k. k \<noteq> quota_key ''user'' now u \<longrightarrow> r' k = r k)"
proof -
  let ?k = "quota_key ''user'' now u"
  obtain r1 where c: "check_and_increment bu now ''user'' u (user_daily_cap env) r =
       ((bucket_used ?k r + 1 \<le> user_daily_cap env, bucket_used ?k r + 1), r1)"
    using check_and_increment_bucket [OF assms(4,3)] assms(2) by metis
  then have e: "enforce_layer bu now ''user'' u (user_daily_cap env) r =
      (Inl (quota_429 ''user'' (user_daily_cap env)), r1)"
    using assms(1,5) by (simp add: enforce_layer_def)
  then have "res = Inl (quota_429 ''user'' (user_daily_cap env))" and "r' = r1"
    using assms(1,6) by (auto simp: enforce_generation_quota_def)
  moreover have "r1 k = r k" if "k \<noteq> ?k" for k
    using layer_other [OF that, of bu "user_daily_cap env" r] e by simp
  ultimately show ?thesis by simp
qed

definition full_bucket :: redis where
  "full_bucket = [quota_key ''user'' 1728000000005 ''u1'' \<mapsto> (RInt 1, None)]"

theorem user_refusal_spares_ip_witness:
  "fst (enforce_generation_quota cap_env \<lparr>incr_up = True, expire_up = True\<rparr>
          \<lparr>incr_up = True, expire_up = True\<rparr> 1728000000005 1728000000007
          \<lparr>x_real_ip = None, client_host = None\<rparr> ''u1'' full_bucket) =
   Inl (quota_429 ''user'' 1)"
proof -
  let ?b = "\<lparr>incr_up = True, expire_up = True\<rparr>" and ?q = "\<lparr>x_real_ip = None, client_host = None\<rparr>"
  obtain res r' where e: "enforce_generation_quota cap_env ?b ?b 1728000000005 1728000000007 ?q ''u1''
    full_bucket = (res, r')" by (cases "enforce_generation_quota cap_env ?b ?b 1728000000005
      1728000000007 ?q ''u1'' full_bucket")
  have "utc_day 1728000000005 = 20000" by (simp add: utc_day_def DAY_def)
  then show ?thesis
    using user_refusal_spares_ip [of cap_env ?b 1728000000005 20000 "''u1''" full_bucket, OF _ _ _ _ _ e]
      sample_caps e by (simp add: full_bucket_def bucket_ok_def bucket_used_def)
qed

text \<open>
  An outage refuses, it never admits.  When the increment of an enabled layer does not reach
  Redis the call raises 503; but when it is the address layer that fails, the account's bucket has
  already been incremented, although the body of the 503 says that nothing was counted.
\<close>

theorem quota_outage:
  "(0 < user_daily_cap env \<and> \<not> incr_up bu \<longrightarrow>
    enforce_generation_quota env bu bi now now' request u r = (Inl quota_503, r)) \<and>
   (0 < user_daily_cap env \<and> 0 < ip_daily_cap env \<and> incr_up bu \<and> \<not> incr_up bi \<and>
    bucket_ok (quota_key ''user'' now u) (utc_day now) r \<and>
    bucket_used (quota_key ''user'' now u) r < user_daily_cap env \<longrightarrow>
    (case enforce_generation_quota env bu bi now now' request u r of
       (res, r') \<Rightarrow> res = Inl quota_503 \<and>
         bucket_used (quota_key ''user'' now u) r' = bucket_used (quota_key ''user'' now u) r + 1))"
proof (intro conjI impI)
  assume "0 < user_daily_cap env \<and> \<not> incr_up bu"
  then show "enforce_generation_quota env bu bi now now' request u r = (Inl quota_503, r)"
    by (simp add: enforce_generation_quota_def enforce_layer_def check_and_increment_def Let_def)
next
  let ?k = "quota_key ''user'' now u"
  assume a: "0 < user_daily_cap env \<and> 0 < ip_daily_cap env \<and> incr_up bu \<and> \<not> incr_up bi \<and>
    bucket_ok ?k (utc_day now) r \<and> bucket_used ?k r < user_daily_cap env"
  obtain r1 where "check_and_increment bu now ''user'' u (user_daily_cap env) r =
       (if incr_up bu then ((bucket_used ?k r + 1 \<le> user_daily_cap env, bucket_used ?k r + 1), r1)
        else ((False, 0), r))" and u: "bucket_used ?k r1 = bucket_used ?k r + 1"
    using check_and_increment_bucket [of "''user''" now u "utc_day now" r] a by metis
  with a have "enforce_layer bu now ''user'' u (user_daily_cap env) r = (Inr (), r1)"
    by (simp add: enforce_layer_def)
  moreover have "enforce_layer bi now' ''ip'' i (ip_daily_cap env) r1 = (Inl quota_503, r1)" for i
    using a by (simp add: enforce_layer_def check_and_increment_def Let_def)
  ultimately show "case enforce_generation_quota env bu bi now now' request u r of
       (res, r') \<Rightarrow> res = Inl quota_503 \<and> bucket_used ?k r' = bucket_used ?k r + 1"
    using a u by (simp add: enforce_generation_quota_def Let_def)
qed

theorem quota_outage_witness:
  "case enforce_generation_quota cap_env \<lparr>incr_up = True, expire_up = True\<rparr>
          \<lparr>incr_up = False, expire_up = False\<rparr> 5 7 \<lparr>x_real_ip = None, client_host = None\<rparr> ''u1''
          Map.empty of
     (res, r') \<Rightarrow> res = Inl quota_503 \<and> bucket_used (quota_key ''user'' 5 ''u1'') r' = 1"
  using quota_outage [of cap_env "\<lparr>incr_up = True, expire_up = True\<rparr>"
      "\<lparr>incr_up = False, expire_up = False\<rparr>" 5 7 "\<lparr>x_real_ip = None, client_host = None\<rparr>" "''u1''"
      Map.empty]
  by (simp add: sample_caps bucket_ok_def bucket_used_def)

end
