(* ===== verification/PyDecimal.thy ===== *)
theory PyDecimal
  imports Prelude
begin

text \<open>
  The operations of Python's \<open>decimal\<close> module that the money code uses: reading a decimal text,
  comparing with zero, multiplying by a power of ten under the default context, truncating to an
  integer and printing with six places.  A finite decimal is its sign, coefficient and exponent.
\<close>

datatype dec = Fin bool nat int | Inf bool | NaN

section \<open>Reading\<close>

definition is_digit :: "char \<Rightarrow> bool" where
  "is_digit c \<longleftrightarrow> digit_val c \<noteq> None"

definition nat_of_digits :: "string \<Rightarrow> nat" where
  "nat_of_digits s = foldl (\<lambda>acc c. 10 * acc + (case digit_val c of None \<Rightarrow> 0 | Some d \<Rightarrow> d)) 0 s"

text \<open>\<^verbatim>\<open>[eE][+-]?digits\<close> at the end of the text; the empty text is exponent 0.\<close>

fun exponent_of :: "string \<Rightarrow> int option" where
  "exponent_of [] = Some 0"
| "exponent_of (c # cs) =
     (if c \<noteq> CHR ''e'' \<and> c \<noteq> CHR ''E'' then None
      else let neg = (cs \<noteq> [] \<and> hd cs = CHR ''-'');
               ds = (if cs \<noteq> [] \<and> (hd cs = CHR ''-'' \<or> hd cs = CHR ''+'') then tl cs else cs)
           in if ds = [] \<or> \<not> list_all is_digit ds then None
              else Some (if neg then - int (nat_of_digits ds) else int (nat_of_digits ds)))"

text \<open>The limits of an exact conversion; a text beyond them is an invalid operation.\<close>

definition MAX_EMAX :: int where
  "MAX_EMAX = 999999999999999999"

definition MIN_ETINY :: int where
  "MIN_ETINY = - 1999999999999999997"

definition digits :: "nat \<Rightarrow> nat" where
  "digits n = length (nat_to_string n)"

definition finite_of :: "bool \<Rightarrow> string \<Rightarrow> dec option" where
  "finite_of neg s =
     (let ip = takeWhile is_digit s; r = dropWhile is_digit s;
          dot = (r \<noteq> [] \<and> hd r = CHR ''.'');
          fp = (if dot then takeWhile is_digit (tl r) else []);
          r' = (if dot then dropWhile is_digit (tl r) else r)
      in if ip = [] \<and> fp = [] then None
         else case exponent_of r' of
                None \<Rightarrow> None
              | Some e \<Rightarrow>
                  (let c = nat_of_digits (ip @ fp); x = e - int (length fp)
                   in if MAX_EMAX < x + int (digits c) - 1 \<or> x < MIN_ETINY then None
                      else Some (Fin neg c x)))"

definition special_of :: "bool \<Rightarrow> string \<Rightarrow> dec option" where
  "special_of neg s =
     (let t = py_lower s
      in if t = ''inf'' \<or> t = ''infinity'' then Some (Inf neg)
         else if take 3 t = ''nan'' \<and> list_all is_digit (drop 3 t) then Some NaN
         else if take 4 t = ''snan'' \<and> list_all is_digit (drop 4 t) then Some NaN
         else None)"

text \<open>\<^verbatim>\<open>Decimal(raw)\<close>; \<open>None\<close> is the exception \<open>InvalidOperation\<close>.\<close>

definition dec_of_string :: "string \<Rightarrow> dec option" where
  "dec_of_string raw =
     (let s = filter (\<lambda>c. c \<noteq> CHR ''_'') (py_strip raw);
          neg = (s \<noteq> [] \<and> hd s = CHR ''-'');
          t = (if s \<noteq> [] \<and> (hd s = CHR ''-'' \<or> hd s = CHR ''+'') then tl s else s)
      in case special_of neg t of Some d \<Rightarrow> Some d | None \<Rightarrow> finite_of neg t)"

section \<open>Comparing, multiplying, truncating\<close>

text \<open>\<^verbatim>\<open>value < 0\<close> and \<^verbatim>\<open>value <= 0\<close>; an ordering comparison with a NaN raises.\<close>

fun dec_neg :: "dec \<Rightarrow> bool res" where
  "dec_neg (Fin s c _) = Inr (s \<and> 0 < c)"
| "dec_neg (Inf s) = Inr s"
| "dec_neg NaN = Inl InvalidOperation"

fun dec_not_pos :: "dec \<Rightarrow> bool res" where
  "dec_not_pos (Fin s c _) = Inr (s \<or> c = 0)"
| "dec_not_pos (Inf s) = Inr s"
| "dec_not_pos NaN = Inl InvalidOperation"

text \<open>
  Rounding to the 28 significant digits of the default context, half to even; an exponent above the
  context's is the trapped \<open>Overflow\<close>.
\<close>

definition PREC :: nat where
  "PREC = 28"

definition EMAX :: int where
  "EMAX = 999999"

definition dec_round :: "bool \<Rightarrow> nat \<Rightarrow> int \<Rightarrow> dec res" where
  "dec_round s c x =
     (let k = digits c - PREC; c' = round_half_even c (10 ^ k); x' = x + int k
      in if 0 < c' \<and> EMAX < x' + int (digits c') - 1 then Inl OverflowError
         else Inr (Fin s c' x'))"

text \<open>\<^verbatim>\<open>value * Decimal(10) ** k\<close>.\<close>

fun dec_scale :: "nat \<Rightarrow> dec \<Rightarrow> dec res" where
  "dec_scale k (Fin s c x) = dec_round s (c * 10 ^ k) x"
| "dec_scale k d = Inr d"

text \<open>\<^verbatim>\<open>int(value)\<close>.\<close>

definition shift10 :: "nat \<Rightarrow> int \<Rightarrow> nat" where
  "shift10 c x = (if 0 \<le> x then c * 10 ^ nat x else c div 10 ^ nat (- x))"

fun dec_int :: "dec \<Rightarrow> int res" where
  "dec_int (Fin s c x) = Inr ((if s then - 1 else 1) * int (shift10 c x))"
| "dec_int (Inf _) = Inl OverflowError"
| "dec_int NaN = Inl ValueError"

section \<open>Printing\<close>

text \<open>\<^verbatim>\<open>f"{value:.6f}"\<close>.\<close>

fun dec_format6 :: "dec \<Rightarrow> string" where
  "dec_format6 (Fin s c x) =
     (if x < - 6 then format_fixed s c (nat (- x)) 6
      else format_fixed s (c * 10 ^ nat (x + 6)) 6 6)"
| "dec_format6 (Inf s) = (if s then ''-Infinity'' else ''Infinity'')"
| "dec_format6 NaN = ''NaN''"

section \<open>Reading back what is printed\<close>

lemma digit_char_texts:
  "list_all (\<lambda>d. is_digit (digit_char d) \<and> lower_char (digit_char d) \<notin> set ''ins'' \<and>
     digit_char d \<notin> set ''_+-'') [0..<10]"
  by code_simp

lemma digit_char_text:
  assumes "d < 10"
  shows "is_digit (digit_char d)" "lower_char (digit_char d) \<notin> set ''ins''"
    "digit_char d \<notin> set ''_+-''"
  using digit_char_texts assms by (auto simp: list_all_iff)

lemma nat_to_string_digits: "c \<in> set (nat_to_string n) \<Longrightarrow> is_digit c"
  using nat_to_string_chars digit_char_text by blast

lemma is_digit_char:
  assumes "is_digit c"
  shows "\<exists>d<10. c = digit_char d"
proof -
  have "48 \<le> ord_of c \<and> ord_of c \<le> 57"
    using assms by (auto simp: is_digit_def digit_val_def Let_def split: if_splits)
  then have "c = digit_char (ord_of c - 48) \<and> ord_of c - 48 < 10"
    by (auto simp: digit_char_def ord_of_def)
  then show ?thesis by blast
qed

lemma nat_of_digits_append:
  "nat_of_digits (a @ b) = nat_of_digits a * 10 ^ length b + nat_of_digits b"
proof -
  let ?f = "\<lambda>acc c. 10 * acc + (case digit_val c of None \<Rightarrow> 0 | Some d \<Rightarrow> d)"
  have "foldl ?f acc b = acc * 10 ^ length b + foldl ?f 0 b" for acc
  proof (induction b rule: rev_induct)
    case (snoc c b)
    have "foldl ?f acc (b @ [c]) = ?f (foldl ?f acc b) c" by simp
    also have "\<dots> = ?f (acc * 10 ^ length b + foldl ?f 0 b) c" by (simp only: snoc.IH)
    also have "\<dots> = acc * 10 ^ length (b @ [c]) + foldl ?f 0 (b @ [c])" by simp
    finally show ?case .
  qed simp
  then show ?thesis unfolding nat_of_digits_def foldl_append by blast
qed

lemma nat_of_digits_show: "nat_of_digits (nat_to_string n) = n"
proof (induction n rule: nat_to_string.induct)
  case (1 n)
  have one: "nat_of_digits [digit_char d] = d" if "d < 10" for d
    using that by (simp add: nat_of_digits_def digit_char)
  show ?case
  proof (cases "n < 10")
    case True
    then show ?thesis by (subst nat_to_string.simps) (simp add: one)
  next
    case False
    then have "nat_to_string n = nat_to_string (n div 10) @ [digit_char (n mod 10)]"
      by (subst nat_to_string.simps) simp
    with False 1 show ?thesis by (simp add: nat_of_digits_append one)
  qed
qed

lemma nat_of_digits_zeros: "nat_of_digits (replicate k (CHR ''0'')) = 0"
proof (induction k)
  case (Suc k)
  have "digit_val (CHR ''0'') = Some 0" by code_simp
  then have "nat_of_digits [CHR ''0''] = 0" by (simp add: nat_of_digits_def)
  with Suc show ?case using nat_of_digits_append [of "[CHR ''0'']" "replicate k (CHR ''0'')"] by simp
qed (simp add: nat_of_digits_def)

lemma pad_left_digits:
  assumes "n < 10 ^ w" and "0 < w"
  shows "length (pad_left w (nat_to_string n)) = w"
    and "nat_of_digits (pad_left w (nat_to_string n)) = n"
    and "c \<in> set (pad_left w (nat_to_string n)) \<Longrightarrow> is_digit c"
proof -
  show "length (pad_left w (nat_to_string n)) = w"
    using nat_to_string_length [OF assms] by (simp add: pad_left_def)
  show "nat_of_digits (pad_left w (nat_to_string n)) = n"
    by (simp add: pad_left_def nat_of_digits_append nat_of_digits_zeros nat_of_digits_show)
  have "is_digit (CHR ''0'')" by code_simp
  then show "c \<in> set (pad_left w (nat_to_string n)) \<Longrightarrow> is_digit c"
    by (auto simp: pad_left_def dest: nat_to_string_digits split: if_splits)
qed

lemma finite_of_digits:
  assumes "list_all is_digit a" and "list_all is_digit b" and "a \<noteq> []"
    and "int (digits (nat_of_digits (a @ b))) \<le> MAX_EMAX" and "int (length b) \<le> 100"
  shows "finite_of neg (a @ ''.'' @ b) = Some (Fin neg (nat_of_digits (a @ b)) (- int (length b)))"
proof -
  have nd: "\<not> is_digit (CHR ''.'')" by code_simp
  have t: "takeWhile is_digit (a @ ''.'' @ b) = a" "dropWhile is_digit (a @ ''.'' @ b) = ''.'' @ b"
    using assms(1) nd by (simp_all add: list_all_iff takeWhile_tail)
  have t': "takeWhile is_digit b = b" "dropWhile is_digit b = []"
    using assms(2) by (simp_all add: list_all_iff)
  show ?thesis
    unfolding finite_of_def t Let_def using assms(3-5)
    by (simp add: t' MIN_ETINY_def MAX_EMAX_def)
qed

lemma dec_of_digits:
  assumes "list_all is_digit a" and "list_all is_digit b" and "a \<noteq> []"
    and "int (digits (nat_of_digits (a @ b))) \<le> MAX_EMAX" and "int (length b) \<le> 100"
  shows "dec_of_string (a @ ''.'' @ b) = Some (Fin False (nat_of_digits (a @ b)) (- int (length b)))"
proof -
  let ?s = "a @ ''.'' @ b"
  have c: "c = CHR ''.'' \<or> (\<exists>d<10. c = digit_char d)" if "c \<in> set ?s" for c
    using that assms(1,2) is_digit_char by (auto simp: list_all_iff)
  have dot: "\<not> py_space (CHR ''.'')" by code_simp
  have "py_strip ?s = ?s"
    by (rule py_strip_id) (use c dot digit_char(5) in blast)
  moreover have "filter (\<lambda>c. c \<noteq> CHR ''_'') ?s = ?s"
    by (rule filter_True) (use c digit_char_text(3) in fastforce)
  moreover obtain d where h: "d < 10" "hd ?s = digit_char d"
    using c [of "hd ?s"] assms(1,3) by (metis Nil_is_append_conv hd_append2 hd_in_set is_digit_char list.pred_set)
  moreover have "hd ?s \<noteq> CHR ''-''" "hd ?s \<noteq> CHR ''+''"
    using digit_char_text(3) [OF h(1)] h(2) by auto
  moreover have "special_of False ?s = None"
  proof -
    have "lower_char (hd ?s) \<noteq> CHR ''i''" "lower_char (hd ?s) \<noteq> CHR ''n''" "lower_char (hd ?s) \<noteq> CHR ''s''"
      using digit_char_text(2) [OF h(1)] h(2) by auto
    moreover have "py_lower ?s = lower_char (hd ?s) # py_lower (tl ?s)"
      using assms(3) by (cases a) (simp_all add: py_lower_def)
    ultimately show ?thesis by (simp add: special_of_def Let_def)
  qed
  ultimately show ?thesis
    using finite_of_digits [OF assms, of False] by (simp add: dec_of_string_def Let_def)
qed

text \<open>Six places of an amount in millionths read back as that amount.\<close>

lemma dec_of_format6:
  assumes "n < 10 ^ 28"
  shows "dec_of_string (format_fixed False n 6 6) = Some (Fin False n (- 6))"
proof -
  let ?a = "nat_to_string (n div 10 ^ 6)" and ?b = "pad_left 6 (nat_to_string (n mod 10 ^ 6))"
  have b: "length ?b = 6" "nat_of_digits ?b = n mod 10 ^ 6" "list_all is_digit ?b"
    using pad_left_digits [of "n mod 10 ^ 6" 6] by (simp_all add: list_all_iff)
  have v: "nat_of_digits (?a @ ?b) = n"
    by (simp only: nat_of_digits_append nat_of_digits_show b) (metis div_mult_mod_eq)
  have "digits n \<le> 28"
    using nat_to_string_length [OF assms] by (simp add: digits_def)
  then have "dec_of_string (?a @ ''.'' @ ?b) = Some (Fin False n (- 6))"
    using dec_of_digits [of ?a ?b] b v by (simp add: list_all_iff nat_to_string_digits MAX_EMAX_def)
  then show ?thesis by (simp add: format_fixed_def round_half_even_def Let_def)
qed

lemma dec_round_exact:
  "c < 10 ^ 28 \<Longrightarrow> x \<le> 0 \<Longrightarrow> dec_round s c x = Inr (Fin s c x)"
proof -
  assume a: "c < 10 ^ 28" "x \<le> 0"
  then have "digits c \<le> 28"
    using nat_to_string_length [of c 28] by (simp add: digits_def)
  with a show ?thesis
    by (simp add: dec_round_def PREC_def EMAX_def round_half_even_def Let_def)
qed

end
