(* ===== verification/Payment.thy ===== *)
theory Payment
  imports Credits Redis PyDecimal
begin

text \<open>
  The money switches and the paywall: \<^verbatim>\<open>marketplace/config.py\<close> (kill switch, chain, sweep
  amounts), \<^verbatim>\<open>services/generation_payment.py\<close> (price, quote, the x402 paywall),
  \<^verbatim>\<open>marketplace/payments.py\<close> (\<open>get_gateway_middleware\<close>, \<open>fee_to_price\<close>) and
  \<^verbatim>\<open>services/model_gate.py\<close> (premium models).  Circle's library is a parameter: a record of the
  calls the code makes to it, each with its possible outcomes.  The state the paywall changes is
  the list of charges, the payments whose value has moved.
\<close>

section \<open>Switches: marketplace/config.py\<close>

definition DEFAULT_GATEWAY_CHAIN :: string where
  "DEFAULT_GATEWAY_CHAIN = ''arcTestnet''"

definition payments_halted :: "environ \<Rightarrow> bool" where
  "payments_halted env \<longleftrightarrow>
     py_lower (py_strip (getenv env ''PAYMENTS_HALT'' ''false'')) \<in> {''1'', ''true'', ''yes''}"

definition gateway_chain :: "environ \<Rightarrow> string" where
  "gateway_chain env = py_strip (getenv env ''GATEWAY_CHAIN'' DEFAULT_GATEWAY_CHAIN)"

definition DEFAULT_GATEWAY_FEE_RESERVE_USDC :: dec where
  "DEFAULT_GATEWAY_FEE_RESERVE_USDC = Fin False 5 (- 2)"

definition gateway_fee_reserve_raw :: "environ \<Rightarrow> int res" where
  "gateway_fee_reserve_raw env =
     (let raw = py_strip (getenv env ''GATEWAY_WITHDRAW_FEE_RESERVE_USDC'' []);
          value = (if raw = [] then DEFAULT_GATEWAY_FEE_RESERVE_USDC
                   else case dec_of_string raw of
                          None \<Rightarrow> DEFAULT_GATEWAY_FEE_RESERVE_USDC
                        | Some d \<Rightarrow> d)
      in case dec_not_pos value of
           Inl e \<Rightarrow> Inl e
         | Inr np \<Rightarrow>
             (case dec_scale 6 (if np then DEFAULT_GATEWAY_FEE_RESERVE_USDC else value) of
                Inl e \<Rightarrow> Inl e
              | Inr v \<Rightarrow> dec_int v))"

text \<open>
  \<^verbatim>\<open>f"{Decimal(raw) / _USDC:.6f}"\<close>: the quotient by a power of ten is the coefficient rounded to
  the precision of the context, six decimal places down.
\<close>

definition format_usdc :: "int \<Rightarrow> string res" where
  "format_usdc raw = map_sum id dec_format6 (dec_round (raw < 0) (nat \<bar>raw\<bar>) (- 6))"

definition gateway_sweep_amount :: "environ \<Rightarrow> int \<Rightarrow> (string \<times> int) res" where
  "gateway_sweep_amount env available_raw =
     (case gateway_fee_reserve_raw env of
        Inl e \<Rightarrow> Inl e
      | Inr reserve \<Rightarrow>
          (let amount_raw = available_raw - reserve
           in if amount_raw \<le> 0 then Inl ValueError
              else map_sum id (\<lambda>amount. (amount, reserve)) (format_usdc amount_raw)))"

definition fee_to_price :: "int \<Rightarrow> int \<Rightarrow> string res" where
  "fee_to_price action_count flat_fee_raw =
     (if action_count < 0 \<or> flat_fee_raw < 0 then Inl ValueError
      else map_sum id (\<lambda>usd. ''$'' @ usd) (format_usdc (action_count * flat_fee_raw)))"

section \<open>The gateway\<close>

text \<open>
  The calls into circlekit: building a middleware for a seller, decoding a payment header to the JSON
  value it carries, verifying and settling it.  A settlement that raises may have moved the value
  before it was lost (a timeout, a cancelled request): the flag says whether it did.  The documented
  behaviour of a \<open>ValueError\<close> is that nothing moved.
\<close>

datatype verify_result = Verify_raised exn | Verify_result bool
datatype settle_result = Settled payment_info | Settle_raised exn bool

record gateway =
  g_create :: "string \<Rightarrow> exn option"
  g_decode :: "string \<Rightarrow> json option"
  g_verify :: "string \<Rightarrow> string \<Rightarrow> verify_result"
  g_settle :: "string \<Rightarrow> string \<Rightarrow> settle_result"

definition settle_moves :: "settle_result \<Rightarrow> bool" where
  "settle_moves s \<longleftrightarrow> (case s of Settled _ \<Rightarrow> True | Settle_raised _ moved \<Rightarrow> moved)"

definition refusal_keeps_funds :: "gateway \<Rightarrow> bool" where
  "refusal_keeps_funds g \<longleftrightarrow> (\<forall>h p. g_settle g h p \<noteq> Settle_raised ValueError True)"

text \<open>\<^verbatim>\<open>int(s, 16)\<close>.\<close>

definition hex_digit :: "char \<Rightarrow> nat option" where
  "hex_digit c =
     (let n = ord_of c
      in if 48 \<le> n \<and> n \<le> 57 then Some (n - 48)
         else if 97 \<le> n \<and> n \<le> 102 then Some (n - 87)
         else if 65 \<le> n \<and> n \<le> 70 then Some (n - 55)
         else None)"

fun hex_from :: "nat \<Rightarrow> bool \<Rightarrow> string \<Rightarrow> nat option" where
  "hex_from acc after_digit [] = (if after_digit then Some acc else None)"
| "hex_from acc after_digit (c # cs) =
     (if c = CHR ''_'' then (if after_digit then hex_from acc False cs else None)
      else case hex_digit c of None \<Rightarrow> None | Some d \<Rightarrow> hex_from (16 * acc + d) True cs)"

definition hex_body :: "string \<Rightarrow> nat option" where
  "hex_body s =
     (if take 2 s = ''0x'' \<or> take 2 s = ''0X''
      then hex_from 0 False (if take 1 (drop 2 s) = ''_'' then drop 3 s else drop 2 s)
      else hex_from 0 False s)"

definition py_int16 :: "string \<Rightarrow> nat option" where
  "py_int16 raw =
     (let s = py_strip raw
      in hex_body (if take 1 s = ''-'' \<or> take 1 s = ''+'' then drop 1 s else s))"

text \<open>
  The middleware is cached per seller; a cached seller has passed the same checks, so the cache does
  not change the outcome and is left out.
\<close>

definition get_gateway_middleware :: "gateway \<Rightarrow> string \<Rightarrow> unit res" where
  "get_gateway_middleware g seller =
     (if seller = [] then Inl RuntimeError
      else case py_int16 seller of
             None \<Rightarrow> Inl ValueError
           | Some n \<Rightarrow>
               if n = 0 then Inl RuntimeError
               else (case g_create g seller of None \<Rightarrow> Inr () | Some e \<Rightarrow> Inl e))"

section \<open>Paywall: services/generation\_payment.py\<close>

definition DEFAULT_PRICE_USD :: string where
  "DEFAULT_PRICE_USD = ''2.00''"

definition payment_required :: "environ \<Rightarrow> bool" where
  "payment_required env \<longleftrightarrow> env ''GENERATION_PAYMENT_REQUIRED'' = Some ''true''"

definition payments_dry_run :: "environ \<Rightarrow> bool" where
  "payments_dry_run env \<longleftrightarrow>
     py_lower (case env ''GENERATION_PAYMENTS_DRY_RUN'' of
                 Some raw \<Rightarrow> raw
               | None \<Rightarrow> getenv env ''PAYMENTS_DRY_RUN'' ''true'') \<in> {''1'', ''true'', ''yes''}"

definition recipient :: "environ \<Rightarrow> string" where
  "recipient env = py_strip (getenv env ''GENERATION_PAYMENT_RECIPIENT'' [])"

definition settles_real_value :: "environ \<Rightarrow> bool" where
  "settles_real_value env \<longleftrightarrow> payment_required env \<and> \<not> payments_dry_run env"

definition price_value :: "string \<Rightarrow> dec" where
  "price_value raw =
     (case dec_of_string raw of
        None \<Rightarrow> Fin False 200 (- 2)
      | Some d \<Rightarrow> (case dec_neg d of Inr False \<Rightarrow> d | _ \<Rightarrow> Fin False 200 (- 2)))"

definition price :: "environ \<Rightarrow> string" where
  "price env =
     (let raw = py_strip (getenv env ''GENERATION_PRICE_USD'' DEFAULT_PRICE_USD);
          raw' = (if raw = [] then DEFAULT_PRICE_USD else raw)
      in ''$'' @ dec_format6 (price_value raw'))"

record quote =
  q_payment_required :: bool
  q_price :: string
  q_chain :: string
  q_recipient :: "string option"
  q_dry_run :: bool
  q_halted :: bool

definition quote_now :: "environ \<Rightarrow> quote" where
  "quote_now env =
     \<lparr>q_payment_required = payment_required env, q_price = price env, q_chain = gateway_chain env,
      q_recipient = (if recipient env = [] then None else Some (recipient env)),
      q_dry_run = payments_dry_run env, q_halted = payments_halted env\<rparr>"

definition quote_402 :: "string \<Rightarrow> exn" where
  "quote_402 reason = HTTPException 402 reason"

subsection \<open>The payer inside the signed authorization\<close>

text \<open>\<^verbatim>\<open>str(value)\<close> of a decoded JSON value.\<close>

definition hex_low :: "nat \<Rightarrow> char" where
  "hex_low d = (if d < 10 then char_of (48 + d) else char_of (87 + d))"

definition repr_char :: "char \<Rightarrow> char \<Rightarrow> string" where
  "repr_char q c =
     (let n = ord_of c
      in if c = q \<or> n = 92 then [char_of (92 :: nat), c]
         else if n = 9 then [char_of (92 :: nat), CHR ''t'']
         else if n = 10 then [char_of (92 :: nat), CHR ''n'']
         else if n = 13 then [char_of (92 :: nat), CHR ''r'']
         else if n < 32 \<or> (127 \<le> n \<and> n \<le> 160) \<or> n = 173
              then [char_of (92 :: nat), CHR ''x'', hex_low (n div 16), hex_low (n mod 16)]
         else [c])"

definition repr_string :: "string \<Rightarrow> string" where
  "repr_string s =
     (let single = char_of (39 :: nat); double = char_of (34 :: nat);
          q = (if single \<in> set s \<and> double \<notin> set s then double else single)
      in [q] @ concat (map (repr_char q) s) @ [q])"

fun py_repr :: "json \<Rightarrow> string"
  and py_reprs :: "json list \<Rightarrow> string"
  and py_repr_items :: "(string \<times> json) list \<Rightarrow> string" where
  "py_repr JNull = ''None''"
| "py_repr (JBool b) = (if b then ''True'' else ''False'')"
| "py_repr (JInt n) = show_int n"
| "py_repr (JStr s) = repr_string s"
| "py_repr (JList xs) = ''['' @ py_reprs xs @ '']''"
| "py_repr (JObj kvs) = ''{'' @ py_repr_items kvs @ ''}''"
| "py_reprs [] = []"
| "py_reprs (x # xs) = py_repr x @ (if xs = [] then [] else '', '' @ py_reprs xs)"
| "py_repr_items [] = []"
| "py_repr_items ((k, v) # kvs) =
     repr_string k @ '': '' @ py_repr v @ (if kvs = [] then [] else '', '' @ py_repr_items kvs)"

fun py_str :: "json \<Rightarrow> string" where
  "py_str (JStr s) = s"
| "py_str j = py_repr j"

text \<open>\<^verbatim>\<open>d.get(k) or {}\<close>; \<open>None\<close> is the exception of a value without \<open>get\<close>.\<close>

fun get_or_empty :: "string \<Rightarrow> json \<Rightarrow> json option" where
  "get_or_empty k (JObj kvs) =
     Some (case map_of kvs k of
             None \<Rightarrow> JObj []
           | Some v \<Rightarrow> if jtruthy v then v else JObj [])"
| "get_or_empty k _ = None"

fun from_field :: "json \<Rightarrow> string option" where
  "from_field (JObj kvs) = Some (case map_of kvs ''from'' of None \<Rightarrow> [] | Some v \<Rightarrow> py_str v)"
| "from_field _ = None"

definition payer_of :: "gateway \<Rightarrow> string \<Rightarrow> string option" where
  "payer_of g header =
     Option.bind (g_decode g header) (\<lambda>payload.
       Option.bind (get_or_empty ''payload'' payload) (\<lambda>p.
         Option.bind (get_or_empty ''authorization'' p) from_field))"

subsection \<open>Enforcement\<close>

type_synonym charges = "(string \<times> string) list"

definition verify_and_settle :: "environ \<Rightarrow> gateway \<Rightarrow> string \<Rightarrow> (charges, payment_info) op" where
  "verify_and_settle env g header ch =
     (case get_gateway_middleware g (recipient env) of
        Inl e \<Rightarrow> (Inl e, ch)
      | Inr _ \<Rightarrow>
          (case g_verify g header (price env) of
             Verify_raised e \<Rightarrow> (Inl (if e = ValueError then quote_402 ''payment_invalid'' else e), ch)
           | Verify_result False \<Rightarrow> (Inl (quote_402 ''payment_invalid''), ch)
           | Verify_result True \<Rightarrow>
               (case g_settle g header (price env) of
                  Settled payment \<Rightarrow> (Inr payment, ch @ [(header, price env)])
                | Settle_raised e moved \<Rightarrow>
                    (Inl (if e = ValueError then quote_402 ''payment_settle_failed'' else e),
                     if moved then ch @ [(header, price env)] else ch))))"

definition enforce_generation_payment ::
    "environ \<Rightarrow> gateway \<Rightarrow> string option \<Rightarrow> string \<Rightarrow> (charges, payment_info option) op" where
  "enforce_generation_payment env g signature linked_wallet ch =
     (if \<not> payment_required env then (Inr None, ch)
      else if recipient env = [] then (Inl (HTTPException 503 ''payment_config_missing''), ch)
      else if \<not> truthy signature then (Inl (quote_402 ''payment_required''), ch)
      else if payments_dry_run env then (Inr None, ch)
      else if payments_halted env then (Inl (HTTPException 503 ''payments_halted''), ch)
      else case payer_of g (or_empty signature) of
        None \<Rightarrow> (Inl (quote_402 ''payment_malformed''), ch)
      | Some payer \<Rightarrow>
          if payer = [] \<or> py_lower payer \<noteq> py_lower linked_wallet
          then (Inl (quote_402 ''payer_mismatch''), ch)
          else (case verify_and_settle env g (or_empty signature) ch of
                  (Inl e, ch') \<Rightarrow> (Inl e, ch')
                | (Inr payment, ch') \<Rightarrow> (Inr (Some payment), ch')))"

section \<open>Premium models: services/model\_gate.py\<close>

definition PREMIUM_MARKER :: string where
  "PREMIUM_MARKER = ''anthropic.''"

definition is_premium_model :: "string \<Rightarrow> bool" where
  "is_premium_model model_id \<longleftrightarrow> contains PREMIUM_MARKER (py_lower (py_strip model_id))"

definition premium_globally_enabled :: "environ \<Rightarrow> bool" where
  "premium_globally_enabled env \<longleftrightarrow>
     py_lower (py_strip (getenv env ''PREMIUM_MODELS_ENABLED'' [])) \<in> {''1'', ''true'', ''yes'', ''on''}"

text \<open>\<^verbatim>\<open>s.split()\<close>: the maximal runs of characters that are not white space.\<close>

fun words_from :: "string \<Rightarrow> string \<Rightarrow> string list" where
  "words_from acc [] = (if acc = [] then [] else [rev acc])"
| "words_from acc (c # cs) =
     (if py_space c then (if acc = [] then [] else [rev acc]) @ words_from [] cs
      else words_from (c # acc) cs)"

definition premium_allowlisted_wallets :: "environ \<Rightarrow> string set" where
  "premium_allowlisted_wallets env =
     (let raw = getenv env ''PREMIUM_MODELS_ALLOWLIST'' [];
          ws = words_from [] (map (\<lambda>c. if c = CHR '','' then CHR '' '' else c) raw)
      in set (map (\<lambda>w. py_lower (py_strip w)) (filter (\<lambda>w. py_strip w \<noteq> []) ws)))"

definition is_entitled_to_premium :: "environ \<Rightarrow> string option \<Rightarrow> bool" where
  "is_entitled_to_premium env wallet \<longleftrightarrow>
     truthy wallet \<and>
     (let wallet_lc = py_lower (py_strip (or_empty wallet))
      in wallet_lc \<noteq> [] \<and>
         (premium_globally_enabled env \<or> wallet_lc \<in> premium_allowlisted_wallets env))"

definition enforce_model_entitlement :: "environ \<Rightarrow> string option \<Rightarrow> string option \<Rightarrow> unit res" where
  "enforce_model_entitlement env model_id wallet =
     (if \<not> truthy model_id \<or> \<not> is_premium_model (or_empty model_id) then Inr ()
      else if is_entitled_to_premium env wallet then Inr ()
      else Inl (HTTPException 402 ''premium_model''))"

section \<open>Properties\<close>

definition documented :: "gateway \<Rightarrow> bool" where
  "documented g \<longleftrightarrow>
     (\<forall>h p e moved. g_settle g h p = Settle_raised e moved \<longrightarrow>
        (\<forall>c r. e \<noteq> HTTPException c r) \<and> (e = ValueError \<longrightarrow> \<not> moved))"

lemma verify_and_settle_cases:
  assumes "verify_and_settle env g header ch = (res, ch')"
  shows "(ch' = ch \<or> g_verify g header (price env) = Verify_result True \<and> ch' = ch @ [(header, price env)]) \<and>
         (\<forall>p. res = Inr p \<longrightarrow> g_settle g header (price env) = Settled p \<and> ch' = ch @ [(header, price env)])"
  using assms
  by (auto simp: verify_and_settle_def split: sum.splits verify_result.splits bool.splits
      settle_result.splits if_splits)

lemma verify_and_settle_http:
  assumes "documented g" and "verify_and_settle env g header ch = (Inl (HTTPException c r), ch')"
  shows "ch' = ch"
  using assms
  by (auto simp: verify_and_settle_def documented_def split: sum.splits verify_result.splits
      bool.splits settle_result.splits if_splits) blast

text \<open>
  C7: value only moves for the caller's own wallet.  Whatever the request carries, the paywall adds at
  most one charge, and it does so only when payment is switched on, neither dry-run nor halted, the
  payer named in the signed authorization is the linked wallet (up to case) and the gateway has
  verified the payment at the current price; a payment is only returned when it was settled, and,
  given the documented behaviour of the gateway, a caller that is answered with an HTTP error has
  not been charged.
\<close>

theorem charge_needs_linked_payer:
  assumes "enforce_generation_payment env g signature wallet ch = (res, ch')"
  shows "(ch' = ch \<or>
          settles_real_value env \<and> \<not> payments_halted env \<and> recipient env \<noteq> [] \<and>
          (\<exists>header payer. signature = Some header \<and> payer_of g header = Some payer \<and>
             payer \<noteq> [] \<and> py_lower payer = py_lower wallet \<and>
             g_verify g header (price env) = Verify_result True \<and>
             ch' = ch @ [(header, price env)])) \<and>
         (\<forall>p. res = Inr (Some p) \<longrightarrow>
            ch' \<noteq> ch \<and> g_settle g (or_empty signature) (price env) = Settled p) \<and>
         (documented g \<and> (\<exists>c r. res = Inl (HTTPException c r)) \<longrightarrow> ch' = ch)"
proof (cases "payment_required env \<and> recipient env \<noteq> [] \<and> truthy signature \<and>
    \<not> payments_dry_run env \<and> \<not> payments_halted env \<and>
    (\<exists>payer. payer_of g (or_empty signature) = Some payer \<and> payer \<noteq> [] \<and>
       py_lower payer = py_lower wallet)")
  case False
  then have "ch' = ch \<and> (\<forall>p. res \<noteq> Inr (Some p))"
    using assms by (auto simp: enforce_generation_payment_def split: if_splits option.splits)
  then show ?thesis by simp
next
  case True
  then obtain header where h: "signature = Some header" by (cases signature) auto
  obtain res' where v: "verify_and_settle env g header ch = (res', ch')"
    and r: "res = (case res' of Inl e \<Rightarrow> Inl e | Inr p \<Rightarrow> Inr (Some p))"
    using True assms h
    by (auto simp: enforce_generation_payment_def split: prod.splits sum.splits)
  show ?thesis
    using True h r verify_and_settle_cases [OF v] verify_and_settle_http [of g env header ch _ _ ch'] v
    by (auto simp: settles_real_value_def split: sum.splits)
qed

definition sample_env :: environ where
  "sample_env =
     [''GENERATION_PAYMENT_REQUIRED'' \<mapsto> ''true'', ''GENERATION_PAYMENTS_DRY_RUN'' \<mapsto> ''false'',
      ''GENERATION_PAYMENT_RECIPIENT'' \<mapsto> ''0xab'']"

definition sample_gateway :: gateway where
  "sample_gateway =
     \<lparr>g_create = (\<lambda>_. None),
      g_decode = (\<lambda>h. Some (JObj [(''payload'', JObj [(''authorization'', JObj [(''from'', JStr h)])])])),
      g_verify = (\<lambda>_ _. Verify_result True), g_settle = (\<lambda>_ _. Settled sample_payment)\<rparr>"

lemma sample_enforced:
  "enforce_generation_payment sample_env sample_gateway (Some ''0xAA'') ''0xaa'' [] =
     (Inr (Some sample_payment), [(''0xAA'', ''$2.000000'')])"
  by code_simp

theorem charge_needs_linked_payer_witness:
  "documented sample_gateway \<and> settles_real_value sample_env \<and>
   g_verify sample_gateway ''0xAA'' (price sample_env) = Verify_result True"
  using charge_needs_linked_payer [OF sample_enforced]
  by (simp add: documented_def) (simp add: sample_gateway_def)

subsection \<open>Prices and sweeps\<close>

text \<open>
  What the configured price can be.  It always prints a decimal that is not negative and not a
  NaN, and a text that is no decimal gives the default; but a positive text below half of a
  millionth makes generation free, and the text \<open>Infinity\<close> is taken as it is.
\<close>

theorem price_configuration:
  "(\<exists>d. price env = ''$'' @ dec_format6 d \<and> dec_neg d = Inr False) \<and>
   price [''GENERATION_PRICE_USD'' \<mapsto> ''2,50''] = ''$2.000000'' \<and>
   price [''GENERATION_PRICE_USD'' \<mapsto> ''-1''] = ''$2.000000'' \<and>
   price [''GENERATION_PRICE_USD'' \<mapsto> ''1e-9''] = ''$0.000000'' \<and>
   price [''GENERATION_PRICE_USD'' \<mapsto> ''Infinity''] = ''$Infinity''"
proof (intro conjI)
  have "dec_neg (price_value raw) = Inr False" for raw
    by (auto simp: price_value_def split: option.splits sum.splits bool.splits)
  then show "\<exists>d. price env = ''$'' @ dec_format6 d \<and> dec_neg d = Inr False"
    by (auto simp: price_def Let_def)
qed code_simp+

text \<open>
  The fee reserve of a withdrawal.  Unset, not a decimal and not positive all give the default of
  50000 base units.  A NaN, however, raises, and a positive text below one base unit gives the zero
  reserve that the default is there to prevent.
\<close>

theorem fee_reserve_configuration:
  "(py_strip (getenv env ''GATEWAY_WITHDRAW_FEE_RESERVE_USDC'' []) = [] \<or>
    dec_of_string (py_strip (getenv env ''GATEWAY_WITHDRAW_FEE_RESERVE_USDC'' [])) = None \<or>
    (\<exists>d. dec_of_string (py_strip (getenv env ''GATEWAY_WITHDRAW_FEE_RESERVE_USDC'' [])) = Some d \<and>
         dec_not_pos d = Inr True) \<longrightarrow>
    gateway_fee_reserve_raw env = Inr 50000) \<and>
   gateway_fee_reserve_raw [''GATEWAY_WITHDRAW_FEE_RESERVE_USDC'' \<mapsto> ''1e-9''] = Inr 0 \<and>
   gateway_fee_reserve_raw [''GATEWAY_WITHDRAW_FEE_RESERVE_USDC'' \<mapsto> ''nan''] = Inl InvalidOperation"
proof (intro conjI impI)
  have d: "dec_not_pos DEFAULT_GATEWAY_FEE_RESERVE_USDC = Inr False"
    "(case dec_scale 6 DEFAULT_GATEWAY_FEE_RESERVE_USDC of Inl e \<Rightarrow> Inl e | Inr v \<Rightarrow> dec_int v) = Inr 50000"
    by code_simp+
  assume "py_strip (getenv env ''GATEWAY_WITHDRAW_FEE_RESERVE_USDC'' []) = [] \<or>
    dec_of_string (py_strip (getenv env ''GATEWAY_WITHDRAW_FEE_RESERVE_USDC'' [])) = None \<or>
    (\<exists>d. dec_of_string (py_strip (getenv env ''GATEWAY_WITHDRAW_FEE_RESERVE_USDC'' [])) = Some d \<and>
         dec_not_pos d = Inr True)"
  then show "gateway_fee_reserve_raw env = Inr 50000"
    by (elim disjE exE conjE) (simp_all add: gateway_fee_reserve_raw_def Let_def d)
qed code_simp+

theorem fee_reserve_configuration_witness:
  "gateway_fee_reserve_raw [''GATEWAY_WITHDRAW_FEE_RESERVE_USDC'' \<mapsto> '' ''] = Inr 50000"
  using fee_reserve_configuration [of "[''GATEWAY_WITHDRAW_FEE_RESERVE_USDC'' \<mapsto> '' '']"]
  by (simp add: getenv_def py_strip_def py_space_def ord_of_def)

lemma format_usdc_amount:
  assumes "0 \<le> raw" and "raw < 10 ^ 28"
  shows "format_usdc raw = Inr (format_fixed False (nat raw) 6 6)"
proof -
  have "nat raw < 10 ^ 28" using assms by (simp add: nat_less_iff)
  then show ?thesis using assms(1) dec_round_exact [of "nat raw" "- 6" False] by (simp add: format_usdc_def)
qed

text \<open>
  A planned sweep never asks for more than is there.  When an amount is planned, the text handed
  to the gateway reads back, digit for digit, as the balance less the reserve, and amount and reserve
  together are exactly the balance; a balance that does not exceed the reserve is refused.
\<close>

theorem sweep_within_balance:
  assumes "available < 10 ^ 28" and "gateway_fee_reserve_raw env = Inr reserve" and "0 \<le> reserve"
  shows "(available \<le> reserve \<longrightarrow> gateway_sweep_amount env available = Inl ValueError) \<and>
         (reserve < available \<longrightarrow>
          (\<exists>amount. gateway_sweep_amount env available = Inr (amount, reserve) \<and>
             (\<exists>n. dec_of_string amount = Some (Fin False n (- 6)) \<and> int n + reserve = available)))"
proof (intro conjI impI)
  assume "available \<le> reserve"
  then show "gateway_sweep_amount env available = Inl ValueError"
    by (simp add: gateway_sweep_amount_def assms(2))
next
  assume r: "reserve < available"
  let ?n = "nat (available - reserve)"
  have "?n < 10 ^ 28" using assms(1,3) r by (simp add: nat_less_iff)
  then have "dec_of_string (format_fixed False ?n 6 6) = Some (Fin False ?n (- 6))"
    by (rule dec_of_format6)
  moreover have "gateway_sweep_amount env available = Inr (format_fixed False ?n 6 6, reserve)"
    using r assms by (simp add: gateway_sweep_amount_def format_usdc_amount)
  moreover have "int ?n + reserve = available" using r by simp
  ultimately show "\<exists>amount. gateway_sweep_amount env available = Inr (amount, reserve) \<and>
      (\<exists>n. dec_of_string amount = Some (Fin False n (- 6)) \<and> int n + reserve = available)"
    by blast
qed

theorem sweep_within_balance_witness:
  "\<exists>amount. gateway_sweep_amount Map.empty 36000000 = Inr (amount, 50000)"
proof -
  have "gateway_fee_reserve_raw Map.empty = Inr 50000" by code_simp
  then show ?thesis using sweep_within_balance [of 36000000 Map.empty 50000] by auto
qed

subsection \<open>The premium gate\<close>

lemma strip_middle:
  assumes "x \<noteq> []" and "\<not> py_space (hd x)" and "\<not> py_space (last x)"
  shows "\<exists>a' b'. py_strip (a @ x @ b) = a' @ x @ b'"
proof -
  have d: "\<exists>a'. dropWhile py_space (a @ y) = a' @ y" if "y \<noteq> []" "\<not> py_space (hd y)" for a y
    using that by (induction a) (auto simp: neq_Nil_conv)
  obtain a' where "dropWhile py_space (a @ x @ b) = a' @ x @ b"
    using d [of "x @ b" a] assms(1,2) by auto
  moreover obtain b' where "dropWhile py_space (rev b @ rev x @ rev a') = b' @ rev x @ rev a'"
    using d [of "rev x @ rev a'" "rev b"] assms(1,3) by (auto simp: hd_rev)
  ultimately have "py_strip (a @ x @ b) = a' @ x @ rev b'"
    by (simp add: py_strip_def)
  then show ?thesis by blast
qed

lemma contains_middle: "contains x (a @ x @ b)"
proof -
  have "take (length x) (drop (length a) (a @ x @ b)) = x" by simp
  moreover have "length a \<in> set [0..<Suc (length (a @ x @ b))]" by simp
  ultimately show ?thesis unfolding contains_def list_ex_iff by blast
qed

lemma lower_space: "py_space (lower_char c) = py_space c"
  by (auto simp: py_space_def lower_char_def ord_of_def Let_def)

text \<open>
  No spelling of a premium model id passes without a wallet.  An id that contains the marker of
  the premium provider in any mixture of cases, with any text or white space around it, is refused
  with 402 for a caller without a wallet, whatever the premium switches say.
\<close>

theorem premium_not_bypassed:
  assumes "py_lower x = PREMIUM_MARKER" and "or_empty wallet = [] \<or> py_strip (or_empty wallet) = []"
  shows "enforce_model_entitlement env (Some (a @ x @ b)) wallet =
         Inl (HTTPException 402 ''premium_model'')"
proof -
  have x: "x \<noteq> []" using assms(1) by (auto simp: PREMIUM_MARKER_def)
  have "lower_char (hd x) = CHR ''a''" "lower_char (last x) = CHR ''.''"
    using assms(1) x by (auto simp: PREMIUM_MARKER_def py_lower_def hd_map [symmetric] last_map [symmetric])
  moreover have "\<not> py_space (CHR ''a'')" "\<not> py_space (CHR ''.'')" by code_simp+
  ultimately have "\<not> py_space (hd x)" "\<not> py_space (last x)" by (metis lower_space)+
  then obtain a' b' where "py_strip (a @ x @ b) = a' @ x @ b'"
    using strip_middle [OF x] by blast
  then have "is_premium_model (a @ x @ b)"
    using assms(1) contains_middle [of PREMIUM_MARKER "py_lower a'" "py_lower b'"]
    by (simp add: is_premium_model_def py_lower_def)
  moreover have "\<not> is_entitled_to_premium env wallet"
    using assms(2) by (cases wallet) (auto simp: is_entitled_to_premium_def)
  ultimately show ?thesis using x by (simp add: enforce_model_entitlement_def)
qed

theorem premium_not_bypassed_witness:
  "enforce_model_entitlement [''PREMIUM_MODELS_ENABLED'' \<mapsto> ''true''] (Some ('' us.'' @ ''ANTHROPIC.'' @ ''claude'')) (Some '' '') =
   Inl (HTTPException 402 ''premium_model'')"
proof -
  have "py_lower ''ANTHROPIC.'' = PREMIUM_MARKER" "py_strip '' '' = []" by code_simp+
  then show ?thesis by (intro premium_not_bypassed) simp_all
qed

end
