(* ===== verification/Receipts.thy ===== *)
theory Receipts
  imports Credits
begin

text \<open>
  Payment receipts: the table of \<^verbatim>\<open>models/payment_receipt.py\<close> and the fail-safe writers of
  \<^verbatim>\<open>api/generate_routes.py\<close> that record a settled payment and later name the job it funded.
\<close>

section \<open>Persistence: models/payment\_receipt.py\<close>

record receipt =
  rc_id :: nat
  rc_user_id :: string
  rc_payer_wallet :: string
  rc_amount_base_units :: int
  rc_price_usd :: string
  rc_network :: string
  rc_settlement_ref :: "string option"
  rc_job_id :: "string option"
  rc_created_at :: int

type_synonym receipts = "receipt table"

definition MAX_RECEIPTS :: nat where
  "MAX_RECEIPTS = 200"

definition record_payment_receipt ::
    "string \<Rightarrow> string \<Rightarrow> int \<Rightarrow> string \<Rightarrow> string \<Rightarrow> string option \<Rightarrow> string option \<Rightarrow> int \<Rightarrow>
     (receipts, receipt) op" where
  "record_payment_receipt user payer amount price net ref job now t =
     (if user = [] \<or> payer = [] then (Inl ValueError, t)
      else let r = \<lparr>rc_id = next_id t, rc_user_id = user, rc_payer_wallet = payer,
                    rc_amount_base_units = amount, rc_price_usd = price, rc_network = net,
                    rc_settlement_ref = ref, rc_job_id = job, rc_created_at = now\<rparr>
           in (Inr r, insert_row r t))"

text \<open>One conditional \<open>UPDATE\<close>: only a receipt that names no job yet.\<close>

definition link_row :: "nat \<Rightarrow> string \<Rightarrow> receipt \<Rightarrow> receipt" where
  "link_row i job r =
     (if rc_id r = i \<and> rc_job_id r = None then r\<lparr>rc_job_id := Some job\<rparr> else r)"

definition link_payment_receipt_job :: "nat \<Rightarrow> string \<Rightarrow> receipts \<Rightarrow> bool \<times> receipts" where
  "link_payment_receipt_job i job t =
     (if job = [] then (False, t)
      else (list_ex (\<lambda>r. rc_id r = i \<and> rc_job_id r = None) (rows t),
            t\<lparr>rows := map (link_row i job) (rows t)\<rparr>))"

definition receipt_order :: "receipt \<Rightarrow> int \<times> nat" where
  "receipt_order r = (rc_created_at r, rc_id r)"

definition list_payment_receipts :: "receipts \<Rightarrow> string \<Rightarrow> nat \<Rightarrow> receipt list" where
  "list_payment_receipts t user limit =
     (if user = [] then []
      else take limit (rev (sort_key receipt_order (filter (\<lambda>r. rc_user_id r = user) (rows t)))))"

section \<open>The writers of the start route\<close>

definition RECEIPT_USDC_DECIMALS :: nat where
  "RECEIPT_USDC_DECIMALS = 6"

definition format_receipt_usd :: "int \<Rightarrow> string" where
  "format_receipt_usd amount = ''$'' @ format_fixed (amount < 0) (nat \<bar>amount\<bar>) RECEIPT_USDC_DECIMALS 2"

definition write_payment_receipt :: "bool \<Rightarrow> string \<Rightarrow> payment_info \<Rightarrow> int \<Rightarrow> (receipts, nat) op" where
  "write_payment_receipt up user payment now t =
     (case py_int (p_amount payment) of
        None \<Rightarrow> (Inl ValueError, t)
      | Some amount \<Rightarrow>
          with_session up
            (\<lambda>t. case record_payment_receipt user (p_payer payment) amount (format_receipt_usd amount)
                        (p_network payment) (p_transaction payment) None now t of
                   (Inl e, t') \<Rightarrow> (Inl e, t')
                 | (Inr r, t') \<Rightarrow> (Inr (rc_id r), t')) t)"

definition persist_payment_receipt ::
    "bool \<Rightarrow> string \<Rightarrow> payment_info \<Rightarrow> int \<Rightarrow> receipts \<Rightarrow> nat option \<times> receipts" where
  "persist_payment_receipt up user payment now t =
     (case write_payment_receipt up user payment now t of
        (Inl _, t') \<Rightarrow> (None, t')
      | (Inr i, t') \<Rightarrow> (Some i, t'))"

definition write_payment_receipt_job :: "bool \<Rightarrow> nat \<Rightarrow> string \<Rightarrow> (receipts, unit) op" where
  "write_payment_receipt_job up i job t =
     with_session up (\<lambda>t. (Inr (), snd (link_payment_receipt_job i job t))) t"

definition link_receipt_job :: "bool \<Rightarrow> nat \<Rightarrow> string \<Rightarrow> receipts \<Rightarrow> receipts" where
  "link_receipt_job up i job t = snd (quiet () (write_payment_receipt_job up i job t))"

section \<open>Lemmas\<close>

interpretation rt: keyed_table rc_id .

lemma link_payment_rows:
  "snd (link_payment_receipt_job i job t) =
     (if job = [] then t else t\<lparr>rows := map (link_row i job) (rows t)\<rparr>)"
  by (simp add: link_payment_receipt_job_def)

lemma link_receipt_job_rows:
  "rows (link_receipt_job up i job t) =
     (if up \<and> job \<noteq> [] then map (link_row i job) (rows t) else rows t)"
  by (cases up) (simp_all add: link_receipt_job_def write_payment_receipt_job_def with_session_up
      link_payment_rows)

lemma link_row_twice: "job \<noteq> [] \<Longrightarrow> link_row i job' (link_row i job r) = link_row i job r"
  by (simp add: link_row_def)

text \<open>Writes of the receipt table, each with its own database outcome.\<close>

datatype receipt_cmd =
    Persist bool string payment_info int
  | Link bool nat string

fun receipt_step :: "receipts \<Rightarrow> receipt_cmd \<Rightarrow> receipts" where
  "receipt_step t (Persist up user p now) = snd (persist_payment_receipt up user p now t)"
| "receipt_step t (Link up i job) = link_receipt_job up i job t"

lemma persist_rows:
  "rows (snd (persist_payment_receipt up user p now t)) = rows t \<or>
   (\<exists>r. rows (snd (persist_payment_receipt up user p now t)) = rows t @ [r] \<and>
        rc_id r = next_id t \<and> rc_user_id r = user \<and> rc_job_id r = None)"
  by (auto simp: persist_payment_receipt_def write_payment_receipt_def with_session_def
      record_payment_receipt_def Let_def split: option.splits)

text \<open>A receipt, once written and linked, is there unchanged after any further writes.\<close>

definition linked_receipt :: "receipt \<Rightarrow> receipts \<Rightarrow> bool" where
  "linked_receipt r t \<longleftrightarrow> r \<in> set (rows t) \<and> rc_job_id r \<noteq> None"

lemma linked_receipt_step: "linked_receipt r t \<Longrightarrow> linked_receipt r (receipt_step t c)"
proof (cases c)
  case (Persist up user p now)
  then show "linked_receipt r t \<Longrightarrow> ?thesis"
    using persist_rows [of up user p now t] by (auto simp: linked_receipt_def)
next
  case (Link up i job)
  have "link_row i job r = r" if "rc_job_id r \<noteq> None" using that by (simp add: link_row_def)
  with Link show "linked_receipt r t \<Longrightarrow> ?thesis"
    by (auto simp: linked_receipt_def link_receipt_job_rows image_iff intro: bexI [of _ r])
qed

interpretation receipts: step_invariant receipt_step "linked_receipt r" for r
  by unfold_locales (rule linked_receipt_step)

text \<open>
  A receipt that names its job is never lost and never pointed at another job, whatever receipts
  are written and whatever links are attempted afterwards, with any database failures.
\<close>

theorem linked_receipt_kept:
  "r \<in> set (rows t) \<and> rc_job_id r = Some job \<Longrightarrow> r \<in> set (rows (run receipt_step t cs))"
  using receipts.run_keeps [of r t cs] by (simp add: linked_receipt_def)

definition sample_receipt :: receipt where
  "sample_receipt = \<lparr>rc_id = 1, rc_user_id = ''u1'', rc_payer_wallet = ''0xaa'',
     rc_amount_base_units = 2000000, rc_price_usd = ''$2.00'', rc_network = ''arcTestnet'',
     rc_settlement_ref = None, rc_job_id = Some ''j1'', rc_created_at = 5\<rparr>"

theorem linked_receipt_kept_witness:
  "sample_receipt \<in> set (rows (run receipt_step \<lparr>rows = [sample_receipt], next_id = 2\<rparr>
     [Link True 1 ''j2'', Persist True ''u1'' sample_payment 7, Link True 2 ''j3'']))"
  by (rule linked_receipt_kept [of _ _ "''j1''"]) (simp add: sample_receipt_def)

end
