(* ===== verification/Generate.thy ===== *)
theory Generate
  imports Books JobStore Quota Payment Receipts
begin

text \<open>
  \<^verbatim>\<open>api/generate_routes.py\<close>: starting a generation, funding it, ending it.  The world is what the
  routes share: Redis, the credit ledger, the free-slot ledger, the receipts, the charges taken, the
  waiting counter and the background tasks spawned.  The outcome of every database and Redis call is
  an input, so every failure path of the source is a branch.  Funnel and identity events, which the
  source documents as fail-safe, and response headers are left out; the verdict of the brief screen
  and of the model allow list are inputs.
\<close>

section \<open>State and inputs\<close>

record world =
  w_redis :: redis
  w_ledger :: ledger
  w_grants :: grants
  w_receipts :: receipts
  w_charges :: charges
  w_waiting :: nat
  w_tasks :: "string list"

text \<open>Whether each database session of one request succeeds, and whether the enqueue reaches Redis.\<close>

record outcomes =
  o_free_claim :: bool
  o_free_release :: bool
  o_free_stamp :: bool
  o_take :: bool
  o_claim :: bool
  o_void :: bool
  o_settle :: bool
  o_receipt :: bool
  o_link :: bool
  o_consume :: bool
  o_enqueue :: bool

record start =
  s_env :: environ
  s_gateway :: gateway
  s_now :: int
  s_user_backend :: backend
  s_ip_backend :: backend
  s_request :: request
  s_user :: string
  s_email_verified :: bool
  s_wallet :: "string option"
  s_signature :: "string option"
  s_idempotency :: "string option"
  s_model :: "string option"
  s_model_allowed :: bool
  s_brief :: json
  s_brief_rejected :: bool
  s_n_candidates :: int
  s_job :: string

section \<open>Limits\<close>

definition max_concurrent_generations :: "environ \<Rightarrow> int" where
  "max_concurrent_generations env =
     (case py_int (getenv env ''GENERATION_MAX_CONCURRENT'' ''1'') of None \<Rightarrow> 1 | Some n \<Rightarrow> max 1 n)"

definition max_queued_generations :: "environ \<Rightarrow> int" where
  "max_queued_generations env =
     (case py_int (getenv env ''GENERATION_MAX_QUEUE'' ''10'') of None \<Rightarrow> 10 | Some n \<Rightarrow> max 0 n)"

section \<open>Who may see a job\<close>

text \<open>
  \<open>payload.get("owner_user_id")\<close> and \<open>payload.get("owner_wallet")\<close>; a payload that is neither empty nor
  a dictionary has no \<open>get\<close>, and a wallet that is not a string has no \<open>lower\<close>.
\<close>

definition job_visible :: "json \<Rightarrow> string \<Rightarrow> string option \<Rightarrow> bool res" where
  "job_visible payload user linked =
     (case (if jtruthy payload then payload else JObj []) of
        JObj kvs \<Rightarrow>
          (let owner = (case map_of kvs ''owner_user_id'' of None \<Rightarrow> JNull | Some j \<Rightarrow> j);
               wallet = (case map_of kvs ''owner_wallet'' of None \<Rightarrow> JNull | Some j \<Rightarrow> j)
           in if jtruthy owner then Inr (owner = JStr user)
              else if \<not> jtruthy wallet then Inr True
              else case wallet of
                     JStr a \<Rightarrow> Inr (py_lower a = py_lower (or_empty linked))
                   | _ \<Rightarrow> Inl AttributeError)
      | _ \<Rightarrow> Inl AttributeError)"

definition require_job_access :: "json \<Rightarrow> string \<Rightarrow> string option \<Rightarrow> unit res" where
  "require_job_access payload user linked =
     (case job_visible payload user linked of
        Inl e \<Rightarrow> Inl e
      | Inr v \<Rightarrow> if v then Inr () else Inl (HTTPException 404 ''not_found''))"

section \<open>The paywall with a credit\<close>

definition idempotency_key :: "start \<Rightarrow> string option" where
  "idempotency_key q =
     (let k = py_strip (or_empty (s_idempotency q)) in if k = [] then None else Some k)"

text \<open>The claim is held; run the paywall and settle or void it.\<close>

definition charge_for_credit ::
    "outcomes \<Rightarrow> start \<Rightarrow> string \<Rightarrow> nat \<Rightarrow> (world, payment_info option \<times> nat option) op" where
  "charge_for_credit d q linked cid w =
     (case enforce_generation_payment (s_env q) (s_gateway q) (s_signature q) linked (w_charges w) of
        (Inl e, ch) \<Rightarrow>
          (Inl e, w\<lparr>w_charges := ch, w_ledger := void (o_void d) cid (w_ledger w)\<rparr>)
      | (Inr None, ch) \<Rightarrow>
          (Inr (None, None), w\<lparr>w_charges := ch, w_ledger := void (o_void d) cid (w_ledger w)\<rparr>)
      | (Inr (Some p), ch) \<Rightarrow>
          (Inr (Some p, Some cid),
           w\<lparr>w_charges := ch, w_ledger := settle (o_settle d) cid p (s_now q) (w_ledger w)\<rparr>))"

definition paywall_with_credit ::
    "outcomes \<Rightarrow> start \<Rightarrow> string \<Rightarrow> (world, payment_info option \<times> nat option) op" where
  "paywall_with_credit d q linked w =
     (case fst (take_credit (o_take d) (s_user q) (w_ledger w)) of
        Some existing \<Rightarrow> (Inr (None, Some existing), w)
      | None \<Rightarrow>
          if \<not> settles_real_value (s_env q) then
            (case enforce_generation_payment (s_env q) (s_gateway q) (s_signature q) linked
                    (w_charges w) of
               (Inl e, ch) \<Rightarrow> (Inl e, w\<lparr>w_charges := ch\<rparr>)
             | (Inr p, ch) \<Rightarrow> (Inr (p, None), w\<lparr>w_charges := ch\<rparr>))
          else
            (case claim (o_claim d) (s_user q) (idempotency_key q) (s_now q) (w_ledger w) of
               (Inl e, t) \<Rightarrow> (Inl e, w\<lparr>w_ledger := t\<rparr>)
             | (Inr (outcome, cid), t) \<Rightarrow>
                 (case outcome of
                    Already_settled \<Rightarrow> (Inr (None, Some cid), w\<lparr>w_ledger := t\<rparr>)
                  | Already_consumed \<Rightarrow>
                      (Inl (HTTPException 409 ''idempotency_key_already_used''), w\<lparr>w_ledger := t\<rparr>)
                  | In_flight \<Rightarrow> (Inl (HTTPException 409 ''payment_in_flight''), w\<lparr>w_ledger := t\<rparr>)
                  | Claimed \<Rightarrow> charge_for_credit d q linked cid (w\<lparr>w_ledger := t\<rparr>))))"

section \<open>Starting a generation\<close>

definition admit :: "start \<Rightarrow> (world, unit) op" where
  "admit q w =
     (case (if truthy (s_env q ''TESTING'') then (Inr (), w_redis w)
            else enforce_generation_quota (s_env q) (s_user_backend q) (s_ip_backend q)
                   (s_now q) (s_now q) (s_request q) (s_user q) (w_redis w)) of
        (Inl e, r) \<Rightarrow> (Inl e, w\<lparr>w_redis := r\<rparr>)
      | (Inr _, r) \<Rightarrow>
          if max_queued_generations (s_env q) \<le> int (w_waiting w)
          then (Inl (HTTPException 429 ''generation_queue_full''), w\<lparr>w_redis := r\<rparr>)
          else if s_brief_rejected q
          then (Inl (HTTPException 422 ''brief_invalid''), w\<lparr>w_redis := r\<rparr>)
          else (Inr (), w\<lparr>w_redis := r\<rparr>))"

record funding =
  f_credit :: "nat option"
  f_receipt :: "nat option"
  f_grant :: "nat option"

definition fund :: "outcomes \<Rightarrow> start \<Rightarrow> (world, funding) op" where
  "fund d q w =
     (if \<not> payment_required (s_env q)
      then (Inr \<lparr>f_credit = None, f_receipt = None, f_grant = None\<rparr>, w)
      else case claim_slot (s_env q) (o_free_claim d) (s_user q) (s_email_verified q) (s_now q)
                  (w_grants w) of
        (Some g, t) \<Rightarrow>
          (Inr \<lparr>f_credit = None, f_receipt = None, f_grant = Some g\<rparr>, w\<lparr>w_grants := t\<rparr>)
      | (None, t) \<Rightarrow>
          if \<not> truthy (s_wallet q)
          then (Inl (HTTPException 409 ''wallet_link_required''), w\<lparr>w_grants := t\<rparr>)
          else case paywall_with_credit d q (or_empty (s_wallet q)) (w\<lparr>w_grants := t\<rparr>) of
            (Inl e, w') \<Rightarrow> (Inl e, w')
          | (Inr (None, c), w') \<Rightarrow>
              (Inr \<lparr>f_credit = c, f_receipt = None, f_grant = None\<rparr>, w')
          | (Inr (Some p, c), w') \<Rightarrow>
              (case persist_payment_receipt (o_receipt d) (s_user q) p (s_now q) (w_receipts w') of
                 (rid, rs) \<Rightarrow>
                   (Inr \<lparr>f_credit = c, f_receipt = rid, f_grant = None\<rparr>, w'\<lparr>w_receipts := rs\<rparr>)))"

definition job_payload :: "start \<Rightarrow> json" where
  "job_payload q =
     JObj [(''brief'', s_brief q), (''n_candidates'', JInt (s_n_candidates q)),
           (''owner_user_id'', JStr (s_user q)),
           (''owner_wallet'', case s_wallet q of None \<Rightarrow> JNull | Some a \<Rightarrow> JStr a),
           (''model'', case s_model q of None \<Rightarrow> JNull
                       | Some m \<Rightarrow> if s_model_allowed q then JStr m else JNull)]"

definition try_enqueue :: "outcomes \<Rightarrow> start \<Rightarrow> (world, string) op" where
  "try_enqueue d q w =
     (case enforce_model_entitlement (s_env q) (s_model q) (s_wallet q) of
        Inl e \<Rightarrow> (Inl e, w)
      | Inr _ \<Rightarrow>
          if \<not> o_enqueue d then (Inl RedisError, w)
          else case enqueue (s_now q) (s_job q) ''generate'' (job_payload q) (w_redis w) of
                 (res, r) \<Rightarrow> (res, w\<lparr>w_redis := r\<rparr>))"

definition enqueue_or_release :: "outcomes \<Rightarrow> start \<Rightarrow> funding \<Rightarrow> (world, string) op" where
  "enqueue_or_release d q f w =
     (case try_enqueue d q w of
        (Inl e, w') \<Rightarrow>
          (Inl e, case f_grant f of
                    None \<Rightarrow> w'
                  | Some g \<Rightarrow> w'\<lparr>w_grants := release (o_free_release d) g (s_now q) (w_grants w')\<rparr>)
      | (Inr job, w') \<Rightarrow> (Inr job, w'))"

definition spend :: "outcomes \<Rightarrow> start \<Rightarrow> funding \<Rightarrow> string \<Rightarrow> world \<Rightarrow> world" where
  "spend d q f job w =
     w\<lparr>w_grants := (case f_grant f of
                      None \<Rightarrow> w_grants w
                    | Some g \<Rightarrow> stamp_job (o_free_stamp d) g job (w_grants w)),
       w_receipts := (case f_receipt f of
                        None \<Rightarrow> w_receipts w
                      | Some i \<Rightarrow> link_receipt_job (o_link d) i job (w_receipts w)),
       w_ledger := (case f_credit f of
                      None \<Rightarrow> w_ledger w
                    | Some c \<Rightarrow> consume (o_consume d) c job (s_now q) (w_ledger w)),
       w_tasks := w_tasks w @ [job]\<rparr>"

definition start_generation :: "outcomes \<Rightarrow> start \<Rightarrow> (world, string) op" where
  "start_generation d q w =
     (case admit q w of
        (Inl e, w1) \<Rightarrow> (Inl e, w1)
      | (Inr _, w1) \<Rightarrow>
          (case fund d q w1 of
             (Inl e, w2) \<Rightarrow> (Inl e, w2)
           | (Inr f, w2) \<Rightarrow>
               (case enqueue_or_release d q f w2 of
                  (Inl e, w3) \<Rightarrow> (Inl e, w3)
                | (Inr job, w3) \<Rightarrow> (Inr job, spend d q f job w3))))"

section \<open>The books of an account\<close>

text \<open>
  What is left of the charges once the credits that can still be spent are taken off: the number of
  charges that have bought a generation.
\<close>

definition balance :: "string \<Rightarrow> world \<Rightarrow> int" where
  "balance u w = int (length (w_charges w)) - int (available u (w_ledger w))"

definition sound :: "world \<Rightarrow> bool" where
  "sound w \<longleftrightarrow> ledger_ok (w_ledger w) \<and> keys_ok g_id (w_grants w)"

definition sessions_up :: "outcomes \<Rightarrow> bool" where
  "sessions_up d \<longleftrightarrow>
     o_free_claim d \<and> o_free_release d \<and> o_free_stamp d \<and> o_take d \<and> o_claim d \<and> o_void d \<and>
     o_settle d \<and> o_receipt d \<and> o_link d \<and> o_consume d"

text \<open>
  The documented behaviour of the facilitator: that of its exceptions, and that the amount of a settled
  payment is a number.
\<close>

definition dependable :: "gateway \<Rightarrow> bool" where
  "dependable g \<longleftrightarrow> documented g \<and> (\<forall>h p q. g_settle g h p = Settled q \<longrightarrow> py_int (p_amount q) \<noteq> None)"

text \<open>
  The settle call of this start moves the value and raises \<open>e\<close>: a timeout of the reply or a request cancelled in flight.
\<close>

definition lost_charge :: "start \<Rightarrow> exn \<Rightarrow> bool" where
  "lost_charge q e \<longleftrightarrow>
     g_settle (s_gateway q) (or_empty (s_signature q)) (price (s_env q)) = Settle_raised e True"

definition kept_or_lost :: "start \<Rightarrow> 'a res \<Rightarrow> world \<Rightarrow> world \<Rightarrow> bool" where
  "kept_or_lost q res w w' \<longleftrightarrow>
     balance (s_user q) w' = balance (s_user q) w \<or>
     (case res of
        Inl e \<Rightarrow> lost_charge q e \<and> balance (s_user q) w' = balance (s_user q) w + 1
      | Inr _ \<Rightarrow> False)"

lemma kept_or_lost_simps [simp]:
  "kept_or_lost q (Inr x) w w' \<longleftrightarrow> balance (s_user q) w' = balance (s_user q) w"
  "kept_or_lost q (Inl e) w w' \<longleftrightarrow> balance (s_user q) w' = balance (s_user q) w \<or>
     lost_charge q e \<and> balance (s_user q) w' = balance (s_user q) w + 1"
  by (simp_all add: kept_or_lost_def)

lemma enforce_account:
  assumes "dependable (s_gateway q)"
    and "enforce_generation_payment (s_env q) (s_gateway q) (s_signature q) linked ch = (res, ch')"
  shows "case res of
           Inr (Some p) \<Rightarrow> length ch' = Suc (length ch) \<and> settles_real_value (s_env q) \<and> py_int (p_amount p) \<noteq> None
         | Inr None \<Rightarrow> ch' = ch \<and> \<not> settles_real_value (s_env q)
         | Inl e \<Rightarrow> ch' = ch \<or> length ch' = Suc (length ch) \<and> settles_real_value (s_env q) \<and> lost_charge q e"
proof -
  let ?env = "s_env q" and ?g = "s_gateway q"
  have "case res of
           Inr p \<Rightarrow> length ch' = Suc (length ch) \<and> py_int (p_amount p) \<noteq> None
         | Inl e \<Rightarrow> ch' = ch \<or> length ch' = Suc (length ch) \<and> lost_charge q e"
    if v: "verify_and_settle ?env ?g (or_empty (s_signature q)) ch = (res, ch')" for res ch'
  proof (cases "g_settle ?g (or_empty (s_signature q)) (price ?env)")
    case (Settled p)
    then have "py_int (p_amount p) \<noteq> None" using assms(1) by (auto simp: dependable_def)
    with v Settled show ?thesis
      by (auto simp: verify_and_settle_def split: sum.splits verify_result.splits bool.splits)
  next
    case (Settle_raised e moved)
    then have "moved \<longrightarrow> e \<noteq> ValueError" using assms(1) by (auto simp: dependable_def documented_def)
    with v Settle_raised show ?thesis
      by (auto simp: verify_and_settle_def lost_charge_def split: sum.splits verify_result.splits bool.splits if_splits)
  qed
  with assms(2) show ?thesis
    by (fastforce simp: enforce_generation_payment_def settles_real_value_def
        split: if_splits option.splits sum.splits prod.splits)
qed

text \<open>What a stage before the enqueue guarantees about the funding it returns.\<close>

definition funded_by :: "start \<Rightarrow> world \<Rightarrow> nat option \<Rightarrow> bool" where
  "funded_by q w c \<longleftrightarrow>
     (case c of
        Some i \<Rightarrow> ready (s_user q) (w_ledger w) i
      | None \<Rightarrow> \<not> settles_real_value (s_env q))"

lemma charge_for_credit_account:
  assumes "dependable (s_gateway q)" and "o_settle d" and "sound w" and "held (s_user q) (w_ledger w) cid"
    and "settles_real_value (s_env q)"
    and "charge_for_credit d q linked cid w = (res, w')"
  shows "sound w' \<and> w_grants w' = w_grants w \<and> kept_or_lost q res w w' \<and>
         (\<forall>p c. res = Inr (p, c) \<longrightarrow> funded_by q w' c)"
proof -
  have ok: "ledger_ok (w_ledger w)" using assms(3) by (simp add: sound_def)
  obtain r ch where e: "enforce_generation_payment (s_env q) (s_gateway q) (s_signature q) linked
      (w_charges w) = (r, ch)" by fastforce
  note acc = enforce_account [OF assms(1) e]
  consider ex where "r = Inl ex" | "r = Inr None" | p where "r = Inr (Some p)"
    by (metis not_None_eq sum.exhaust_sel)
  then show ?thesis
  proof cases
    case 1
    with assms(3,6) e acc show ?thesis
      by (auto simp: charge_for_credit_def sound_def balance_def void_available [OF ok] void_ok)
  next
    case 2
    with acc assms(5) show ?thesis by simp
  next
    case (3 p)
    with acc have p: "py_int (p_amount p) \<noteq> None" and l: "length ch = Suc (length (w_charges w))"
      by simp_all
    from 3 e assms(2,6) have w': "res = Inr (Some p, Some cid)"
      "w' = w\<lparr>w_charges := ch, w_ledger := settle True cid p (s_now q) (w_ledger w)\<rparr>"
      by (auto simp: charge_for_credit_def)
    show ?thesis
      using assms(3) settle_account [OF ok assms(4) p] settle_ok [OF ok] l
      by (auto simp: w' sound_def balance_def funded_by_def)
  qed
qed

lemma paywall_account:
  assumes "dependable (s_gateway q)" and "sessions_up d" and "sound w"
    and "paywall_with_credit d q linked w = (res, w')"
  shows "sound w' \<and> w_grants w' = w_grants w \<and> kept_or_lost q res w w' \<and>
         (\<forall>p c. res = Inr (p, c) \<longrightarrow> funded_by q w' c)"
proof -
  have ok: "ledger_ok (w_ledger w)" using assms(3) by (simp add: sound_def)
  have up: "o_take d" "o_settle d" using assms(2) by (simp_all add: sessions_up_def)
  show ?thesis
  proof (cases "fst (take_credit (o_take d) (s_user q) (w_ledger w))")
    case (Some i)
    with assms(3,4) take_credit_ready [OF ok Some] show ?thesis
      by (auto simp: paywall_with_credit_def funded_by_def)
  next
    case None
    show ?thesis
    proof (cases "settles_real_value (s_env q)")
      case False
      obtain r ch where e: "enforce_generation_payment (s_env q) (s_gateway q) (s_signature q) linked
          (w_charges w) = (r, ch)" by fastforce
      have "ch = w_charges w" using enforce_account [OF assms(1) e] False
        by (auto split: sum.splits option.splits)
      with False None e assms(3,4) show ?thesis
        by (auto simp: paywall_with_credit_def sound_def balance_def funded_by_def split: sum.splits)
    next
      case True
      obtain cr t where c: "claim (o_claim d) (s_user q) (idempotency_key q) (s_now q) (w_ledger w) = (cr, t)"
        by fastforce
      have okt: "ledger_ok t" using claim_ok [OF ok] c by (metis snd_conv)
      show ?thesis
      proof (cases cr)
        case (Inl e)
        with c have "t = w_ledger w" using claim_error_state by blast
        with Inl True None c assms(3,4) show ?thesis
          by (auto simp: paywall_with_credit_def sound_def balance_def)
      next
        case (Inr oc)
        obtain outcome cid where oc: "oc = (outcome, cid)" by fastforce
        note acc = claim_account [OF ok c [unfolded Inr oc]]
        let ?w = "w\<lparr>w_ledger := t\<rparr>"
        have w: "sound ?w" "balance (s_user q) ?w = balance (s_user q) w" "w_grants ?w = w_grants w"
          using assms(3) okt acc by (simp_all add: sound_def balance_def)
        show ?thesis
        proof (cases "outcome = Claimed")
          case claimed: True
          then have "held (s_user q) (w_ledger ?w) cid" using acc by simp
          moreover have "charge_for_credit d q linked cid ?w = (res, w')"
            using claimed True None c Inr oc assms(4) by (simp add: paywall_with_credit_def)
          ultimately show ?thesis
            using charge_for_credit_account [OF assms(1) up(2) w(1) _ True] w(3)
            unfolding kept_or_lost_def w(2) by simp
        next
          case False
          with True None c Inr oc assms(4) acc w show ?thesis
            by (cases outcome) (auto simp: paywall_with_credit_def funded_by_def)
        qed
      qed
    qed
  qed
qed

lemma fund_account:
  assumes "dependable (s_gateway q)" and "sessions_up d" and "sound w" and "fund d q w = (res, w')"
  shows "sound w' \<and> kept_or_lost q res w w' \<and>
    (case res of
       Inl e \<Rightarrow> slots_used (s_user q) (w_grants w') = slots_used (s_user q) (w_grants w)
     | Inr f \<Rightarrow>
         (case f_grant f of
            Some g \<Rightarrow> f_credit f = None \<and> slot_held (s_user q) (w_grants w') g \<and>
              slots_used (s_user q) (w_grants w') = Suc (slots_used (s_user q) (w_grants w))
          | None \<Rightarrow> funded_by q w' (f_credit f) \<and> w_grants w' = w_grants w))"
proof (cases "payment_required (s_env q)")
  case False
  with assms(3,4) show ?thesis
    by (auto simp: fund_def funded_by_def settles_real_value_def)
next
  case True
  obtain cs t where c: "claim_slot (s_env q) (o_free_claim d) (s_user q) (s_email_verified q) (s_now q)
      (w_grants w) = (cs, t)" by fastforce
  have acc: "case cs of None \<Rightarrow> t = w_grants w
      | Some i \<Rightarrow> slots_used (s_user q) t = Suc (slots_used (s_user q) (w_grants w)) \<and>
          slot_held (s_user q) t i \<and> keys_ok g_id t"
    using claim_slot_account [OF _ c] assms(3) by (simp add: sound_def)
  show ?thesis
  proof (cases cs)
    case (Some g)
    with True c acc assms(3,4) show ?thesis
      by (auto simp: fund_def sound_def balance_def)
  next
    case None
    then have t: "t = w_grants w" using acc by simp
    show ?thesis
    proof (cases "truthy (s_wallet q)")
      case False
      with True None c t assms(3,4) show ?thesis by (auto simp: fund_def sound_def balance_def)
    next
      case wallet: True
      obtain pr w1 where pw: "paywall_with_credit d q (or_empty (s_wallet q)) w = (pr, w1)" by fastforce
      note pa = paywall_account [OF assms(1-3) pw]
      have "w\<lparr>w_grants := t\<rparr> = w" using t by simp
      with True None c wallet pw assms(4) pa show ?thesis
        by (cases pr) (auto simp: fund_def sound_def balance_def funded_by_def
            split: option.splits prod.splits)
    qed
  qed
qed

lemma try_enqueue_frame:
  "try_enqueue d q w = (res, w') \<Longrightarrow>
   w_ledger w' = w_ledger w \<and> w_grants w' = w_grants w \<and> w_charges w' = w_charges w"
  by (auto simp: try_enqueue_def split: sum.splits if_splits prod.splits)

lemma enqueue_or_release_account:
  assumes "sessions_up d" and "sound w" and "enqueue_or_release d q f w = (res, w')"
    and "\<And>g. f_grant f = Some g \<Longrightarrow> slot_held u (w_grants w) g"
  shows "w_ledger w' = w_ledger w \<and> w_charges w' = w_charges w \<and>
    (case res of
       Inr job \<Rightarrow> w_grants w' = w_grants w
     | Inl e \<Rightarrow> slots_used u (w_grants w') + (if f_grant f = None then 0 else 1) = slots_used u (w_grants w))"
proof -
  obtain r w1 where t: "try_enqueue d q w = (r, w1)" by fastforce
  note fr = try_enqueue_frame [OF t]
  have up: "o_free_release d" using assms(1) by (simp add: sessions_up_def)
  have k: "keys_ok g_id (w_grants w1)" using assms(2) fr by (simp add: sound_def)
  show ?thesis
  proof (cases r)
    case (Inr job)
    with t fr assms(3) show ?thesis by (auto simp: enqueue_or_release_def)
  next
    case (Inl e)
    show ?thesis
    proof (cases "f_grant f")
      case None
      with Inl t fr assms(3) show ?thesis by (auto simp: enqueue_or_release_def)
    next
      case (Some g)
      then have "slot_held u (w_grants w1) g" using assms(4) fr by simp
      with release_account [OF k this, of "s_now q"] Inl Some t fr assms(3) up show ?thesis
        by (auto simp: enqueue_or_release_def)
    qed
  qed
qed

lemma admit_frame:
  "admit q w = (res, w') \<Longrightarrow>
   w_ledger w' = w_ledger w \<and> w_grants w' = w_grants w \<and> w_charges w' = w_charges w"
  by (auto simp: admit_def split: sum.splits if_splits prod.splits)

text \<open>
  What a start may do to the books: a start that fails leaves both balances where they were; a start
  that succeeds has used one free slot, or has spent one charge or credit, or ran while no value is
  settled.
\<close>

definition books_kept :: "start \<Rightarrow> string res \<Rightarrow> world \<Rightarrow> world \<Rightarrow> bool" where
  "books_kept q res w w' \<longleftrightarrow>
     (let b = balance (s_user q) w; b' = balance (s_user q) w';
          n = slots_used (s_user q) (w_grants w); n' = slots_used (s_user q) (w_grants w')
      in case res of
           Inl e \<Rightarrow> b' = b \<and> n' = n
         | Inr job \<Rightarrow> (n' = Suc n \<and> b' = b) \<or> (n' = n \<and> b' = b + 1) \<or>
                      (n' = n \<and> b' = b \<and> \<not> settles_real_value (s_env q)))"

lemma spend_account:
  assumes "sessions_up d" and "sound w" and "f_grant f = None \<longrightarrow> funded_by q w (f_credit f)"
    and "f_grant f \<noteq> None \<longrightarrow> f_credit f = None"
  shows "slots_used (s_user q) (w_grants (spend d q f job w)) = slots_used (s_user q) (w_grants w) \<and>
    balance (s_user q) (spend d q f job w) =
      balance (s_user q) w + (if f_credit f = None then 0 else 1)"
proof -
  have up: "o_consume d" using assms(1) by (simp add: sessions_up_def)
  have k: "keys_ok g_id (w_grants w)" and ok: "ledger_ok (w_ledger w)"
    using assms(2) by (simp_all add: sound_def)
  have s: "slots_used (s_user q) (w_grants (spend d q f job w)) = slots_used (s_user q) (w_grants w)"
    by (simp add: spend_def stamp_account [OF k] split: option.splits)
  show ?thesis
  proof (cases "f_credit f")
    case None
    with s show ?thesis by (simp add: spend_def balance_def)
  next
    case (Some c)
    with assms(3,4) have "ready (s_user q) (w_ledger w) c" by (simp add: funded_by_def)
    with consume_account [OF ok this, of job "s_now q"] s Some up show ?thesis
      by (simp add: spend_def balance_def)
  qed
qed

text \<open>
  The one way a failed start costs: its settle call moved the value and raised, the start answers with
  that exception, and the account has one charge more and no credit for it.
\<close>

definition charge_lost :: "start \<Rightarrow> string res \<Rightarrow> world \<Rightarrow> world \<Rightarrow> bool" where
  "charge_lost q res w w' \<longleftrightarrow>
     (case res of
        Inl e \<Rightarrow> lost_charge q e \<and> balance (s_user q) w' = balance (s_user q) w + 1 \<and>
          slots_used (s_user q) (w_grants w') = slots_used (s_user q) (w_grants w)
      | Inr job \<Rightarrow> False)"

lemma start_books:
  assumes "dependable (s_gateway q)" and "sessions_up d" and "sound w"
    and "start_generation d q w = (res, w')"
  shows "books_kept q res w w' \<or> charge_lost q res w w'"
proof -
  obtain ra w1 where a: "admit q w = (ra, w1)" by fastforce
  have w1: "sound w1" "balance (s_user q) w1 = balance (s_user q) w" "w_grants w1 = w_grants w"
    using admit_frame [OF a] assms(3) by (simp_all add: sound_def balance_def)
  obtain rf w2 where f: "fund d q w1 = (rf, w2)" by fastforce
  note fa = fund_account [OF assms(1,2) w1(1) f]
  show ?thesis
  proof (cases ra)
    case (Inl e)
    with a assms(4) w1 show ?thesis by (auto simp: start_generation_def books_kept_def)
  next
    case ra: (Inr _)
    show ?thesis
    proof (cases rf)
      case (Inl e)
      with ra a f assms(4) fa w1 show ?thesis by (auto simp: start_generation_def books_kept_def charge_lost_def)
    next
      case rf: (Inr fd)
      obtain re w3 where e: "enqueue_or_release d q fd w2 = (re, w3)" by fastforce
      have held: "slot_held (s_user q) (w_grants w2) g" if "f_grant fd = Some g" for g
        using fa rf that by simp
      note ea = enqueue_or_release_account [OF assms(2) _ e held]
      have ea': "w_ledger w3 = w_ledger w2" "w_charges w3 = w_charges w2"
        "balance (s_user q) w3 = balance (s_user q) w2"
        using ea fa by (simp_all add: balance_def)
      show ?thesis
      proof (cases re)
        case (Inl ex)
        with ra rf a f e assms(4) have "res = Inl ex" "w' = w3" by (auto simp: start_generation_def)
        with Inl ea fa ea' w1 rf show ?thesis
          by (auto simp: books_kept_def Let_def split: option.splits)
      next
        case (Inr job)
        with ra rf a f e assms(4) have r: "res = Inr job" "w' = spend d q fd job w3"
          by (auto simp: start_generation_def)
        have s3: "sound w3" "w_grants w3 = w_grants w2" using ea fa Inr by (simp_all add: sound_def)
        have "f_grant fd = None \<longrightarrow> funded_by q w3 (f_credit fd)"
          "f_grant fd \<noteq> None \<longrightarrow> f_credit fd = None"
          using fa rf ea' by (auto simp: funded_by_def split: option.splits)
        from spend_account [OF assms(2) s3(1) this, of job] r fa rf ea' s3 w1 show ?thesis
          by (auto simp: books_kept_def Let_def funded_by_def split: option.splits if_splits)
      qed
    qed
  qed
qed

section \<open>Properties of a start\<close>

text \<open>
  C1: the books are kept, but for a settlement lost in flight.  For a start that runs alone, with any headers, wallet and model,
  from any sound state and with any outcome of the enqueue, as long as every database session it opens succeeds and the
  facilitator behaves as documented: a start that fails costs nothing, neither a free slot nor a charge that is not still
  there as a spendable credit; a start that succeeds has used exactly one free slot, or exactly one
  charge or credit, or ran while no value is settled.  The one exception is a settle call that moves the value and then
  raises: that start fails with the exception of the call and has cost the account that one charge.
\<close>

theorem start_keeps_books:
  assumes "dependable (s_gateway q)" and "sessions_up d" and "sound w"
    and "start_generation d q w = (res, w')"
  shows "books_kept q res w w' \<or> charge_lost q res w w'"
  using assms by (rule start_books)

definition all_up :: outcomes where
  "all_up = \<lparr>o_free_claim = True, o_free_release = True, o_free_stamp = True, o_take = True,
             o_claim = True, o_void = True, o_settle = True, o_receipt = True, o_link = True,
             o_consume = True, o_enqueue = True\<rparr>"

definition sample_start :: "string \<Rightarrow> string \<Rightarrow> start" where
  "sample_start header job =
     \<lparr>s_env = sample_env, s_gateway = sample_gateway, s_now = 1000,
      s_user_backend = \<lparr>incr_up = True, expire_up = True\<rparr>,
      s_ip_backend = \<lparr>incr_up = True, expire_up = True\<rparr>,
      s_request = \<lparr>x_real_ip = None, client_host = None\<rparr>, s_user = ''u1'', s_email_verified = False,
      s_wallet = Some ''0xaa'', s_signature = Some header, s_idempotency = Some ''k1'',
      s_model = None, s_model_allowed = False, s_brief = JNull, s_brief_rejected = False,
      s_n_candidates = 1, s_job = job\<rparr>"

definition empty_world :: world where
  "empty_world = \<lparr>w_redis = Map.empty, w_ledger = empty_table, w_grants = empty_table,
     w_receipts = empty_table, w_charges = [], w_waiting = 0, w_tasks = []\<rparr>"

lemma sample_dependable: "dependable sample_gateway"
proof -
  have "py_int (p_amount sample_payment) \<noteq> None" by code_simp
  then show ?thesis by (simp add: dependable_def documented_def sample_gateway_def)
qed

lemma empty_world_sound: "sound empty_world"
  by (simp add: sound_def empty_world_def ledger_ok_empty gt.keys_ok_empty)

definition lossy_start :: "string \<Rightarrow> start" where
  "lossy_start header =
     (sample_start header ''j1'')
       \<lparr>s_gateway := sample_gateway\<lparr>g_settle := (\<lambda>_ _. Settle_raised CancelledError True)\<rparr>\<rparr>"

text \<open>Both cases at work: the sample start keeps the books, and the start whose settlement is lost does not.\<close>

theorem start_keeps_books_witness:
  "books_kept (sample_start ''0xAA'' ''j1'') (fst (start_generation all_up (sample_start ''0xAA'' ''j1'') empty_world))
     empty_world (snd (start_generation all_up (sample_start ''0xAA'' ''j1'') empty_world)) \<and>
   fst (start_generation all_up (sample_start ''0xAA'' ''j1'') empty_world) = Inr ''j1'' \<and>
   fst (start_generation all_up (lossy_start ''0xAA'') empty_world) = Inl CancelledError"
proof (intro conjI)
  let ?q = "sample_start ''0xAA'' ''j1''"
  show job: "fst (start_generation all_up ?q empty_world) = Inr ''j1''" by code_simp
  have "books_kept ?q (fst (start_generation all_up ?q empty_world)) empty_world (snd (start_generation all_up ?q empty_world)) \<or>
    charge_lost ?q (fst (start_generation all_up ?q empty_world)) empty_world (snd (start_generation all_up ?q empty_world))"
    by (rule start_keeps_books [of _ all_up])
      (simp_all add: sample_start_def sample_dependable sessions_up_def all_up_def empty_world_sound)
  then show "books_kept ?q (fst (start_generation all_up ?q empty_world)) empty_world (snd (start_generation all_up ?q empty_world))"
    by (simp add: job charge_lost_def)
  show "fst (start_generation all_up (lossy_start ''0xAA'') empty_world) = Inl CancelledError" by code_simp
qed

text \<open>
  A lost settlement is charged again.  When the settle call moves the value and then raises
  anything but a \<open>ValueError\<close> (here the cancellation of a request whose client went away), the claim
  is voided like that of a payment that never happened.  A retry under the same idempotency key, with
  a freshly signed authorization, is charged a second time, and the account holds no credit for
  either charge.
\<close>

theorem lost_settlement_charged_twice:
  "(case paywall_with_credit all_up (lossy_start ''0xAA'') ''0xaa'' empty_world of
      (r1, w1) \<Rightarrow>
        (case paywall_with_credit all_up (lossy_start ''0xAa'') ''0xaa'' w1 of
           (r2, w2) \<Rightarrow>
             r1 = Inl CancelledError \<and> r2 = Inl CancelledError \<and>
             idempotency_key (lossy_start ''0xAA'') = idempotency_key (lossy_start ''0xAa'') \<and>
             w_charges w2 = [(''0xAA'', ''$2.000000''), (''0xAa'', ''$2.000000'')] \<and>
             available ''u1'' (w_ledger w2) = 0))"
  by code_simp

text \<open>
  Two starts of one account whose requests interleave: both look for funding before either of them
  spends it.  The enqueue, which the route awaits between the two points, is where the other request
  runs.
\<close>

definition interleaved_starts ::
    "outcomes \<Rightarrow> start \<Rightarrow> start \<Rightarrow> world \<Rightarrow> (string res \<times> string res) \<times> world" where
  "interleaved_starts d q1 q2 w =
     (case fund d q1 w of
        (Inl e, w) \<Rightarrow> ((Inl e, Inl e), w)
      | (Inr f1, w) \<Rightarrow>
          (case fund d q2 w of
             (Inl e, w) \<Rightarrow> ((Inl e, Inl e), w)
           | (Inr f2, w) \<Rightarrow>
               (case enqueue_or_release d q1 f1 w of
                  (Inl e, w) \<Rightarrow> ((Inl e, Inl e), w)
                | (Inr j1, w) \<Rightarrow>
                    (case enqueue_or_release d q2 f2 w of
                       (Inl e, w) \<Rightarrow> ((Inl e, Inl e), w)
                     | (Inr j2, w) \<Rightarrow>
                         ((Inr j1, Inr j2), spend d q2 f2 j2 (spend d q1 f1 j1 w))))))"

definition credit_world :: world where
  "credit_world = snd (paywall_with_credit all_up (sample_start ''0xAA'' ''j1'') ''0xaa'' empty_world)"

text \<open>
  One credit can start two generations.  An account with one unspent credit that sends two starts
  at once has both of them queued and running on that credit, without a new charge: the credit is
  looked up when a start is funded and consumed only after the enqueue, and the second consumption,
  which finds it spent, is ignored.
\<close>

theorem one_credit_two_jobs:
  "available ''u1'' (w_ledger credit_world) = 1 \<and>
   (case interleaved_starts all_up (sample_start ''0xAA'' ''j1'') (sample_start ''0xAA'' ''j2'') credit_world of
      ((r1, r2), w) \<Rightarrow>
        r1 = Inr ''j1'' \<and> r2 = Inr ''j2'' \<and> w_tasks w = [''j1'', ''j2''] \<and>
        w_charges w = w_charges credit_world \<and> available ''u1'' (w_ledger w) = 0)"
  by code_simp

end
