(* ===== verification/RunLifecycle.thy ===== *)
theory RunLifecycle
  imports Generate
begin

text \<open>
  The rest of \<^verbatim>\<open>api/generate_routes.py\<close>: how a run ends (refunds, the timeout, the cleanup), how
  it is cancelled, how jobs are listed and read, and the admission gate.  The generation pipeline
  itself is a parameter: what it writes to Redis and how it ends.
\<close>

section \<open>Refunds of an undelivered run\<close>

text \<open>Whether the reads of the job record and of the event log, and the two refunds, succeed.\<close>

record cleanup =
  k_now :: int
  k_get :: bool
  k_restore :: bool
  k_get_free :: bool
  k_events :: bool
  k_release :: bool

definition job_status :: "int \<Rightarrow> string \<Rightarrow> redis \<Rightarrow> string option res" where
  "job_status now job r =
     (case JobStore.get now job r of
        Inl e \<Rightarrow> Inl e
      | Inr j \<Rightarrow> Inr (map_option j_status j))"

definition release_credit_if_undelivered :: "cleanup \<Rightarrow> string \<Rightarrow> world \<Rightarrow> world" where
  "release_credit_if_undelivered k job w =
     (if \<not> k_get k then w
      else case job_status (k_now k) job (w_redis w) of
        Inl _ \<Rightarrow> w
      | Inr status \<Rightarrow>
          if status = Some ''done'' then w
          else w\<lparr>w_ledger := snd (restore_for_job (k_restore k) job (w_ledger w))\<rparr>)"

definition event_persisted :: "json \<Rightarrow> bool" where
  "event_persisted ev \<longleftrightarrow>
     jget ev ''event'' = Some (JStr ''persisted'') \<and>
     (case jget ev ''data'' of
        Some (JObj kvs) \<Rightarrow>
          (case map_of kvs ''strategy_id'' of None \<Rightarrow> False | Some v \<Rightarrow> jtruthy v)
      | _ \<Rightarrow> False)"

definition job_persisted_a_strategy :: "bool \<Rightarrow> int \<Rightarrow> string \<Rightarrow> redis \<Rightarrow> bool option" where
  "job_persisted_a_strategy up now job r =
     (if \<not> up then None
      else case list_events now job 0 r of
             Inl _ \<Rightarrow> None
           | Inr events \<Rightarrow> Some (list_ex (\<lambda>(_, ev). event_persisted ev) events))"

definition release_free_slot_if_undelivered :: "cleanup \<Rightarrow> string \<Rightarrow> world \<Rightarrow> world" where
  "release_free_slot_if_undelivered k job w =
     (if \<not> k_get_free k then w
      else case job_status (k_now k) job (w_redis w) of
        Inl _ \<Rightarrow> w
      | Inr None \<Rightarrow> w
      | Inr (Some status) \<Rightarrow>
          if status = ''done'' then w
          else (case job_persisted_a_strategy (k_events k) (k_now k) job (w_redis w) of
                  None \<Rightarrow> w
                | Some True \<Rightarrow> w
                | Some False \<Rightarrow>
                    w\<lparr>w_grants := snd (release_for_job (k_now k) (k_release k) job (w_grants w))\<rparr>))"

definition release_entitlements_if_undelivered :: "cleanup \<Rightarrow> string \<Rightarrow> world \<Rightarrow> world" where
  "release_entitlements_if_undelivered k job w =
     release_free_slot_if_undelivered k job (release_credit_if_undelivered k job w)"

section \<open>A run and its cleanup\<close>

text \<open>How the awaited pipeline ends: it returns, raises, runs into the timeout, or is cancelled.\<close>

datatype run_end = Returned | Raised | Timed_out | Cancelled

definition timeout_event :: "string \<Rightarrow> string \<Rightarrow> json" where
  "timeout_event job message =
     JObj [(''event'', JStr ''error''),
           (''data'', JObj [(''job_id'', JStr job), (''message'', JStr message),
                            (''recoverable'', JBool False), (''code'', JStr ''TIMEOUT'')])]"

text \<open>
  The status is overwritten with \<open>update_status\<close>, not with the sticky terminal update; a failure of
  that write skips the event, and both are swallowed.  The message, which names the limit in force,
  is an argument.
\<close>

definition mark_timeout :: "bool \<Rightarrow> bool \<Rightarrow> int \<Rightarrow> string \<Rightarrow> string \<Rightarrow> redis \<Rightarrow> redis" where
  "mark_timeout up_status up_event now message job r =
     (if \<not> up_status then r
      else case update_status now job ''error'' None message r of
             (Inl _, r') \<Rightarrow> r'
           | (Inr _, r') \<Rightarrow>
               if up_event then snd (push_event now job (timeout_event job message) r') else r')"

text \<open>The part of \<open>_run_with_cleanup\<close> that runs once the gate is passed; \<open>end\<close> is what the pipeline did.\<close>

definition run_with_cleanup ::
    "run_end \<Rightarrow> (redis \<Rightarrow> redis) \<Rightarrow> bool \<Rightarrow> bool \<Rightarrow> int \<Rightarrow> string \<Rightarrow> cleanup \<Rightarrow> string \<Rightarrow> world \<Rightarrow> unit res \<times> world" where
  "run_with_cleanup ending pipe up_status up_event now message k job w =
     (let r = pipe (w_redis w);
          r' = (if ending = Timed_out then mark_timeout up_status up_event now message job r else r)
      in (if ending = Cancelled then Inl CancelledError else Inr (),
          release_entitlements_if_undelivered k job (w\<lparr>w_redis := r'\<rparr>)))"

section \<open>Cancelling, listing, reading\<close>

definition cancel_event :: "string \<Rightarrow> json" where
  "cancel_event job =
     JObj [(''event'', JStr ''error''),
           (''data'', JObj [(''job_id'', JStr job), (''message'', JStr ''cancelled by user''),
                            (''recoverable'', JBool False), (''code'', JStr ''CANCELLED'')])]"

definition cancel_job ::
    "bool \<Rightarrow> bool \<Rightarrow> bool \<Rightarrow> int \<Rightarrow> string \<Rightarrow> string \<Rightarrow> string option \<Rightarrow> (redis, string) op" where
  "cancel_job up_flag up_status up_event now job user linked r =
     (case JobStore.get now job r of
        Inl e \<Rightarrow> (Inl e, r)
      | Inr None \<Rightarrow> (Inl (HTTPException 404 ''not_found''), r)
      | Inr (Some j) \<Rightarrow>
          (case require_job_access (j_payload j) user linked of
             Inl e \<Rightarrow> (Inl e, r)
           | Inr _ \<Rightarrow>
               if j_status j \<in> {''done'', ''error'', ''cancelled''} then (Inr (j_status j), r)
               else case (if up_flag then request_cancel now job r else (False, r)) of
                 (False, r1) \<Rightarrow> (Inl (HTTPException 503 ''cancel_not_recorded''), r1)
               | (True, r1) \<Rightarrow>
                   if \<not> up_status then (Inl RedisError, r1)
                   else (case update_status now job ''cancelled'' None ''cancelled by user'' r1 of
                           (Inl e, r2) \<Rightarrow> (Inl e, r2)
                         | (Inr _, r2) \<Rightarrow>
                             if \<not> up_event then (Inl RedisError, r2)
                             else (case push_event now job (cancel_event job) r2 of
                                     (Inl e, r3) \<Rightarrow> (Inl e, r3)
                                   | (Inr _, r3) \<Rightarrow> (Inr ''cancelled'', r3)))))"

definition STALLED_AFTER :: int where
  "STALLED_AFTER = 300 * 1000"

definition heartbeat_age :: "int \<Rightarrow> int option \<Rightarrow> int option" where
  "heartbeat_age now heartbeat_at = map_option (\<lambda>t. now - t) heartbeat_at"

definition normalize_state :: "int \<Rightarrow> string \<Rightarrow> int option \<Rightarrow> string" where
  "normalize_state now s heartbeat_at =
     (if s \<notin> {''queued'', ''running'', ''done'', ''error'', ''cancelled''} then ''queued''
      else if s = ''running'' \<and>
              (case heartbeat_age now heartbeat_at of None \<Rightarrow> False | Some a \<Rightarrow> STALLED_AFTER < a)
      then ''stalled'' else s)"

fun visible_jobs :: "string \<Rightarrow> string option \<Rightarrow> job list \<Rightarrow> job list res" where
  "visible_jobs user linked [] = Inr []"
| "visible_jobs user linked (j # js) =
     (if j_type j \<noteq> ''generate'' then visible_jobs user linked js
      else case job_visible (j_payload j) user linked of
        Inl e \<Rightarrow> Inl e
      | Inr v \<Rightarrow>
          (case visible_jobs user linked js of
             Inl e \<Rightarrow> Inl e
           | Inr out \<Rightarrow> Inr (if v then j # out else out)))"

definition list_jobs ::
    "int \<Rightarrow> string list \<Rightarrow> nat \<Rightarrow> string \<Rightarrow> string option \<Rightarrow> redis \<Rightarrow> (string \<times> string) list res" where
  "list_jobs now scan limit user linked r =
     (case list_recent_jobs now scan limit r of
        Inl e \<Rightarrow> Inl e
      | Inr js \<Rightarrow>
          map_sum id (map (\<lambda>j. (j_id j, normalize_state now
                                  (if j_status j = [] then ''queued'' else j_status j) (j_heartbeat_at j))))
            (visible_jobs user linked js))"

definition get_job :: "int \<Rightarrow> string \<Rightarrow> string \<Rightarrow> string option \<Rightarrow> redis \<Rightarrow> (string \<times> string) res" where
  "get_job now job user linked r =
     (case JobStore.get now job r of
        Inl e \<Rightarrow> Inl e
      | Inr None \<Rightarrow> Inl (HTTPException 404 ''not_found'')
      | Inr (Some j) \<Rightarrow>
          if j_type j \<noteq> ''generate'' then Inl (HTTPException 404 ''not_found'')
          else (case require_job_access (j_payload j) user linked of
                  Inl e \<Rightarrow> Inl e
                | Inr _ \<Rightarrow>
                    Inr (if j_id j = [] then job else j_id j,
                         normalize_state now (if j_status j = [] then ''queued'' else j_status j)
                           (j_heartbeat_at j))))"

section \<open>Refunds happen at most once\<close>

text \<open>Any number of cleanups of one job, each on the Redis it finds.\<close>

definition cleanups :: "string \<Rightarrow> (cleanup \<times> redis) list \<Rightarrow> world \<Rightarrow> world" where
  "cleanups job ks w =
     foldl (\<lambda>w (k, r). release_entitlements_if_undelivered k job (w\<lparr>w_redis := r\<rparr>)) w ks"

lemma release_credit_refund:
  "\<exists>up. w_ledger (release_credit_if_undelivered k job w) = snd (restore_for_job up job (w_ledger w)) \<and>
        w_grants (release_credit_if_undelivered k job w) = w_grants w"
proof -
  have none: "w_ledger w = snd (restore_for_job False job (w_ledger w))"
    using credit_refund.refund_down [of job "w_ledger w"] by simp
  show ?thesis
  proof (cases "k_get k \<and> (\<exists>st. job_status (k_now k) job (w_redis w) = Inr st \<and> st \<noteq> Some ''done'')")
    case True
    then show ?thesis
      by (intro exI [of _ "k_restore k"]) (auto simp: release_credit_if_undelivered_def)
  next
    case False
    then have "release_credit_if_undelivered k job w = w"
      by (auto simp: release_credit_if_undelivered_def split: sum.splits)
    with none show ?thesis by (intro exI [of _ False]) simp
  qed
qed

lemma release_slot_refund:
  "\<exists>up. w_grants (release_free_slot_if_undelivered k job w) =
          snd (release_for_job (k_now k) up job (w_grants w)) \<and>
        w_ledger (release_free_slot_if_undelivered k job w) = w_ledger w"
proof -
  have none: "w_grants w = snd (release_for_job (k_now k) False job (w_grants w))"
    using free_refund.refund_down [of "k_now k" job "w_grants w"] by simp
  show ?thesis
  proof (cases "k_get_free k \<and> (\<exists>st. job_status (k_now k) job (w_redis w) = Inr (Some st) \<and> st \<noteq> ''done'') \<and>
      job_persisted_a_strategy (k_events k) (k_now k) job (w_redis w) = Some False")
    case True
    then show ?thesis
      by (intro exI [of _ "k_release k"]) (auto simp: release_free_slot_if_undelivered_def)
  next
    case False
    then have "release_free_slot_if_undelivered k job w = w"
      by (auto simp: release_free_slot_if_undelivered_def split: sum.splits option.splits bool.splits)
    with none show ?thesis by (intro exI [of _ False]) simp
  qed
qed

lemma cleanups_ledger:
  "\<exists>ups. w_ledger (cleanups job ks w) = credit_refund.refund_all job ups (w_ledger w)"
proof (induction ks rule: rev_induct)
  case Nil
  show ?case by (rule exI [of _ "[]"]) (simp add: cleanups_def credit_refund.refund_all_def)
next
  case (snoc kr ks)
  obtain k r where kr: "kr = (k, r)" by (cases kr)
  obtain ups where u: "w_ledger (cleanups job ks w) = credit_refund.refund_all job ups (w_ledger w)"
    using snoc by blast
  let ?w = "cleanups job ks w\<lparr>w_redis := r\<rparr>"
  obtain up where "w_ledger (release_credit_if_undelivered k job ?w) = snd (restore_for_job up job (w_ledger ?w))"
    using release_credit_refund by blast
  then have "w_ledger (cleanups job (ks @ [kr]) w) = credit_refund.refund_all job (ups @ [up]) (w_ledger w)"
    using release_slot_refund [of k job "release_credit_if_undelivered k job ?w"] u
    by (auto simp: cleanups_def kr release_entitlements_if_undelivered_def credit_refund.refund_all_def)
  then show ?case by blast
qed

text \<open>The instant of a release does not decide whether a row is released.\<close>

lemma release_decided: "fst (release_for_job now' up job t) = fst (release_for_job now up job t)"
  by (cases up)
    (auto simp: release_for_job_def with_session_up release_grant_for_job_def split: sum.splits option.splits)

definition release_all :: "string \<Rightarrow> (int \<times> bool) list \<Rightarrow> grants \<Rightarrow> grants" where
  "release_all job rs t = foldl (\<lambda>t (now, up). snd (release_for_job now up job t)) t rs"

lemma release_all_after:
  assumes "\<And>now up. fst (release_for_job now up job t) = False"
  shows "release_all job rs t = t"
proof (induction rs)
  case (Cons r rs)
  obtain now up where "r = (now, up)" by (cases r)
  moreover have "snd (release_for_job now up job t) = t" for now up
    using free_refund.refund_none assms by blast
  ultimately show ?case using Cons by (simp add: release_all_def)
qed (simp add: release_all_def)

lemma release_all_at_most_one:
  assumes "grants_ok t"
  shows "released_total (release_all job rs t) = released_total t \<or>
         released_total (release_all job rs t) = Suc (released_total t)"
proof (induction rs)
  case Nil
  then show ?case by (simp add: release_all_def)
next
  case (Cons r rs)
  obtain now up where r: "r = (now, up)" by (cases r)
  show ?case
  proof (cases "fst (release_for_job now up job t)")
    case False
    then have "snd (release_for_job now up job t) = t" using free_refund.refund_none by blast
    with Cons r show ?thesis by (simp add: release_all_def)
  next
    case True
    then have up: "up = True" using free_refund.refund_down [of now job t] by (cases up) auto
    let ?t = "snd (release_for_job now True job t)"
    have "fst (release_for_job now' up' job ?t) = False" for now' up'
      using release_decided [of now' up' job ?t now] free_refund.refund_once [of now up' job t] by simp
    then have "release_all job rs ?t = ?t" by (rule release_all_after)
    with r up have "release_all job (r # rs) t = ?t" by (simp add: release_all_def)
    then show ?thesis using free_refund.refund_one [OF assms, of now True job] True up by simp
  qed
qed

lemma cleanups_grants:
  "\<exists>rs. w_grants (cleanups job ks w) = release_all job rs (w_grants w)"
proof (induction ks rule: rev_induct)
  case Nil
  show ?case by (rule exI [of _ "[]"]) (simp add: cleanups_def release_all_def)
next
  case (snoc kr ks)
  obtain k r where kr: "kr = (k, r)" by (cases kr)
  obtain rs where u: "w_grants (cleanups job ks w) = release_all job rs (w_grants w)"
    using snoc by blast
  let ?w = "cleanups job ks w\<lparr>w_redis := r\<rparr>"
  obtain up where "w_grants (release_free_slot_if_undelivered k job (release_credit_if_undelivered k job ?w)) =
      snd (release_for_job (k_now k) up job (w_grants (release_credit_if_undelivered k job ?w)))"
    using release_slot_refund by blast
  then have "w_grants (cleanups job (ks @ [kr]) w) = release_all job (rs @ [(k_now k, up)]) (w_grants w)"
    using release_credit_refund [of k job ?w] u
    by (auto simp: cleanups_def kr release_entitlements_if_undelivered_def release_all_def)
  then show ?case by blast
qed

text \<open>
  A job is refunded at most once.  However often the cleanup of a job runs (by the serving task,
  by the offload entry point, on retries), whatever each of them reads in Redis and whichever of its
  database calls fail, at most one credit and at most one free slot come back in all.
\<close>

theorem refunds_at_most_once:
  assumes "ledger_ok (w_ledger w)" and "grants_ok (w_grants w)"
  shows "available_total (w_ledger (cleanups job ks w)) \<le> Suc (available_total (w_ledger w)) \<and>
         released_total (w_grants (cleanups job ks w)) \<le> Suc (released_total (w_grants w))"
proof -
  obtain ups where "w_ledger (cleanups job ks w) = credit_refund.refund_all job ups (w_ledger w)"
    using cleanups_ledger by blast
  moreover obtain rs where "w_grants (cleanups job ks w) = release_all job rs (w_grants w)"
    using cleanups_grants by blast
  ultimately show ?thesis
    using credit_refund.refund_all_at_most_one [OF assms(1), of job ups]
      release_all_at_most_one [OF assms(2), of job rs] by auto
qed

definition failed_cleanup :: cleanup where
  "failed_cleanup = \<lparr>k_now = 5, k_get = True, k_restore = True, k_get_free = True, k_events = True,
                     k_release = True\<rparr>"

theorem refunds_at_most_once_witness:
  "available_total (w_ledger (cleanups ''j1'' [(failed_cleanup, Map.empty), (failed_cleanup, Map.empty)]
     (empty_world\<lparr>w_ledger := sample_ledger\<rparr>))) \<le> Suc (available_total sample_ledger)"
proof -
  have "ledger_ok sample_ledger" by (rule sample_ledger_facts)
  moreover have "grants_ok empty_table"
    by (simp add: grants_ok_def gt.keys_ok_empty seqs_distinct_def)
  ultimately show ?thesis
    using refunds_at_most_once [of "empty_world\<lparr>w_ledger := sample_ledger\<rparr>"] by (simp add: empty_world_def)
qed

section \<open>A run that delivers nothing\<close>










section \<open>Cancelling\<close>

lemma update_status_status:
  assumes "live a r (job_key job) = Some (RHash h)" and "t \<le> a + JOB_TTL"
  shows "status_at t job (snd (update_status a job s result error r)) = Some s"
    and "\<exists>r'. update_status a job s result error r = (Inr (), r')"
proof -
  let ?u = "status_updates s result error a"
  have h: "r_hset a (job_key job) ?u r = (Inr (), snd (r_hset a (job_key job) ?u r))"
    "live a (snd (r_hset a (job_key job) ?u r)) (job_key job) = Some (RHash (h ++ ?u))"
    using live_hset [OF assms(1)] by blast+
  then have u: "update_status a job s result error r =
      (Inr (), r_expire a (job_key job) JOB_TTL (snd (r_hset a (job_key job) ?u r)))"
    by (cases "r_hset a (job_key job) ?u r") (auto simp: update_status_def)
  then show "\<exists>r'. update_status a job s result error r = (Inr (), r')" by blast
  have "(h ++ ?u) ''status'' = Some (HText s)"
    by (auto simp: status_updates_def map_add_def split: option.splits)
  then show "status_at t job (snd (update_status a job s result error r)) = Some s"
    using live_expire_later [OF h(2), of t JOB_TTL] assms(2) by (simp add: u status_at_def r_hgetall_def)
qed

lemma push_event_other: "k \<noteq> events_key job \<Longrightarrow> snd (push_event now job ev r) k = r k"
  by (auto simp: push_event_def r_rpush_def r_expire_def split: option.splits rval.splits)

lemma update_status_other: "k \<noteq> job_key job \<Longrightarrow> snd (update_status now job s result error r) k = r k"
  by (auto simp: update_status_def r_hset_def r_expire_def split: option.splits rval.splits)

lemma get_live:
  assumes "JobStore.get now job r = Inr (Some j)"
  obtains h where "live now r (job_key job) = Some (RHash h)" "j = job_of_hash job h"
  using assms
  by (auto simp: get_def r_hgetall_def hash_empty_def job_fields_def split: option.splits rval.splits
      if_splits)

text \<open>The record and the flag after a cancellation that was reported.\<close>

lemma cancel_writes:
  assumes "live now r (job_key job) = Some (RHash h)" and "t \<le> now + JOB_TTL"
    and r1_def: "r1 = snd (request_cancel now job r)"
    and r2_def: "r2 = snd (update_status now job ''cancelled'' None msg r1)"
  shows "status_at t job (snd (push_event now job ev r2)) = Some ''cancelled''"
    and "is_cancel_requested t job (snd (push_event now job ev r2))"
proof -
  let ?r3 = "snd (push_event now job ev r2)"
  have k: "cancel_key job \<noteq> job_key job" "cancel_key job \<noteq> events_key job" "job_key job \<noteq> events_key job"
    using keys_differ [of job] by metis+
  have "live now r1 (job_key job) = Some (RHash h)"
    using assms(1) k(1) by (simp add: r1_def request_cancel_def Let_def r_setex_def live_def)
  then have s: "status_at t job r2 = Some ''cancelled''"
    unfolding r2_def using assms(2) by (rule update_status_status)
  have "?r3 (job_key job) = r2 (job_key job)" by (rule push_event_other) (rule k(3))
  then have "live t ?r3 (job_key job) = live t r2 (job_key job)" by (simp add: live_def)
  with s show "status_at t job ?r3 = Some ''cancelled''" by (simp add: status_at_def r_hgetall_def)
  have "?r3 (cancel_key job) = r2 (cancel_key job)" by (rule push_event_other) (rule k(2))
  also have "\<dots> = r1 (cancel_key job)" unfolding r2_def by (rule update_status_other) (rule k(1))
  finally have "live t ?r3 (cancel_key job) = live t r1 (cancel_key job)" by (simp add: live_def)
  then show "is_cancel_requested t job ?r3"
    using assms(2)
    by (simp add: is_cancel_requested_def r_exists_def r1_def request_cancel_def Let_def rs.look_store)
qed

definition owns_access :: "int \<Rightarrow> string \<Rightarrow> string \<Rightarrow> string option \<Rightarrow> redis \<Rightarrow> bool" where
  "owns_access now job user linked r \<longleftrightarrow>
     (\<exists>j. JobStore.get now job r = Inr (Some j) \<and> job_visible (j_payload j) user linked = Inr True)"

lemma require_access_Inr:
  "require_job_access payload user linked = Inr x \<longleftrightarrow> job_visible payload user linked = Inr True"
  by (auto simp: require_job_access_def split: sum.splits)

lemma cancel_job_cases:
  assumes "cancel_job uf us ue now job user linked r = (res, r')"
  obtains (refused) e where "res = Inl e" "r' = r"
  | (terminal) j where "JobStore.get now job r = Inr (Some j)" "j_status j \<in> {''done'', ''error'', ''cancelled''}"
      "res = Inr (j_status j)" "r' = r"
  | (written) j where "JobStore.get now job r = Inr (Some j)" "job_visible (j_payload j) user linked = Inr True"
      "res = Inl RedisError \<or> res = Inl WrongTypeError"
  | (cancelled) j where "JobStore.get now job r = Inr (Some j)" "job_visible (j_payload j) user linked = Inr True"
      "res = Inr ''cancelled''"
      "r' = snd (push_event now job (cancel_event job)
              (snd (update_status now job ''cancelled'' None ''cancelled by user''
                 (snd (request_cancel now job r)))))"
proof (cases "JobStore.get now job r")
  case (Inl e)
  with assms show thesis by (intro refused) (auto simp: cancel_job_def)
next
  case (Inr jo)
  show thesis
  proof (cases jo)
    case None
    with Inr assms show thesis by (intro refused) (auto simp: cancel_job_def)
  next
    case (Some j)
    note g = Inr [unfolded Some]
    show thesis
    proof (cases "require_job_access (j_payload j) user linked")
      case (Inl e)
      with g assms show thesis by (intro refused) (auto simp: cancel_job_def)
    next
      case acc: (Inr x)
      then have v: "job_visible (j_payload j) user linked = Inr True" by (simp add: require_access_Inr)
      show thesis
      proof (cases "j_status j \<in> {''done'', ''error'', ''cancelled''}")
        case True
        with g acc assms show thesis by (intro terminal [of j]) (auto simp: cancel_job_def)
      next
        case False
        obtain h where h: "live now r (job_key job) = Some (RHash h)" using get_live [OF g] by blast
        obtain b r1 where rq: "request_cancel now job r = (b, r1)" by fastforce
        have b: "b" using rq by (simp add: request_cancel_def Let_def r_exists_def rs.look_store JOB_TTL_def)
        show thesis
        proof (cases uf)
          case down: False
          with False g acc assms show thesis by (intro refused) (auto simp: cancel_job_def)
        next
          case up: True
          obtain e2 r2 where u: "update_status now job ''cancelled'' None ''cancelled by user'' r1 = (e2, r2)"
            by fastforce
          obtain e3 r3 where p: "push_event now job (cancel_event job) r2 = (e3, r3)" by fastforce
          have e2: "e2 = Inr () \<or> e2 = Inl WrongTypeError"
            using u by (auto simp: update_status_def r_hset_def split: option.splits rval.splits prod.splits)
          have e3: "(\<exists>n. e3 = Inr n) \<or> e3 = Inl WrongTypeError"
            using p by (auto simp: push_event_def r_rpush_def split: option.splits rval.splits prod.splits)
          show thesis
          proof (cases "us \<and> ue \<and> e2 = Inr () \<and> (\<exists>n. e3 = Inr n)")
            case True
            with False up g acc rq b u p assms show thesis
              by (intro cancelled [OF g v]) (auto simp: cancel_job_def)
          next
            case bad: False
            then show thesis
              using False up g acc rq b u p assms e2 e3
              by (intro written [OF g v]) (auto simp: cancel_job_def split: if_splits)
          qed
        qed
      qed
    qed
  qed
qed

text \<open>
  A reported cancellation is backed.  When the route answers with a status, either the job had
  already ended in that status and nothing was written, or the answer is \<open>cancelled\<close>, the caller may see
  the job, and for the next hour both the job record says \<open>cancelled\<close> and the flag that the pipeline
  polls is set.  When it answers with an HTTP error, nothing was written.
\<close>

theorem cancel_job_backed:
  assumes "cancel_job uf us ue now job user linked r = (res, r')"
  shows "(\<forall>s. res = Inr s \<longrightarrow>
            (s \<in> {''done'', ''error'', ''cancelled''} \<and> r' = r) \<or>
            (s = ''cancelled'' \<and> owns_access now job user linked r \<and>
             (\<forall>t \<le> now + JOB_TTL.
                status_at t job r' = Some ''cancelled'' \<and> is_cancel_requested t job r'))) \<and>
         ((\<exists>c m. res = Inl (HTTPException c m)) \<longrightarrow> r' = r)"
  using assms
proof (cases rule: cancel_job_cases)
  case (cancelled j)
  obtain h where h: "live now r (job_key job) = Some (RHash h)" using get_live [OF cancelled(1)] by blast
  have "owns_access now job user linked r" using cancelled(1,2) by (auto simp: owns_access_def)
  with cancelled(3,4) cancel_writes [OF h _ refl refl] show ?thesis by simp
qed auto

theorem cancel_job_backed_witness:
  "fst (cancel_job True True True 10 ''j1'' ''u1'' None sample_jobs) = Inr ''cancelled'' \<and>
   is_cancel_requested 50 ''j1'' (snd (cancel_job True True True 10 ''j1'' ''u1'' None sample_jobs))"
proof -
  obtain res r' where c: "cancel_job True True True 10 ''j1'' ''u1'' None sample_jobs = (res, r')" by fastforce
  have "fst (cancel_job True True True 10 ''j1'' ''u1'' None sample_jobs) = Inr ''cancelled''" by code_simp
  moreover have "is_cancel_requested 10 ''j1'' (snd (cancel_job True True True 10 ''j1'' ''u1'' None sample_jobs))"
    "\<not> is_cancel_requested 10 ''j1'' sample_jobs" by code_simp+
  ultimately show ?thesis
    using cancel_job_backed [OF c] c by (auto simp: JOB_TTL_def)
qed

section \<open>Other accounts' jobs\<close>

lemma visible_jobs_set:
  "visible_jobs user linked js = Inr out \<Longrightarrow>
   set out = {j \<in> set js. j_type j = ''generate'' \<and> job_visible (j_payload j) user linked = Inr True}"
proof (induction js arbitrary: out)
  case (Cons j js)
  show ?case
  proof (cases "j_type j = ''generate''")
    case False
    with Cons show ?thesis by auto
  next
    case True
    then obtain v out' where "job_visible (j_payload j) user linked = Inr v"
      "visible_jobs user linked js = Inr out'" "out = (if v then j # out' else out')"
      using Cons.prems by (simp split: sum.splits)
    with Cons.IH [of out'] True show ?thesis by (cases v) auto
  qed
qed simp

lemma foreign_invisible:
  assumes "j_payload j = JObj kvs" and "map_of kvs ''owner_user_id'' = Some (JStr owner)"
    and "owner \<noteq> []" and "owner \<noteq> user"
  shows "job_visible (j_payload j) user linked = Inr False"
proof -
  have "kvs \<noteq> []" using assms(2) by auto
  then show ?thesis using assms by (simp add: job_visible_def)
qed

text \<open>
  C22: another account's job does not exist for the caller.  For a job whose record names another
  owner, reading and cancelling answer exactly what they answer for an id that is not there, write
  nothing, and no listing contains the job, whatever wallet the caller has linked.
\<close>

theorem other_accounts_jobs_hidden:
  assumes "JobStore.get now job r = Inr (Some j)" and "j_payload j = JObj kvs"
    and "map_of kvs ''owner_user_id'' = Some (JStr owner)" and "owner \<noteq> []" and "owner \<noteq> user"
    and "JobStore.get now absent r = Inr None"
  shows "get_job now job user linked r = get_job now absent user linked r \<and>
         cancel_job uf us ue now job user linked r = cancel_job uf us ue now absent user linked r \<and>
         snd (cancel_job uf us ue now job user linked r) = r \<and>
         (\<forall>js out. visible_jobs user linked js = Inr out \<longrightarrow> j \<notin> set out)"
proof -
  have v: "job_visible (j_payload j) user linked = Inr False"
    using foreign_invisible [OF assms(2-5)] .
  then have a: "require_job_access (j_payload j) user linked = Inl (HTTPException 404 ''not_found'')"
    by (simp add: require_job_access_def)
  have "get_job now job user linked r = get_job now absent user linked r"
    using assms(1,6) a by (simp add: get_job_def)
  moreover have "cancel_job uf us ue now job user linked r = (Inl (HTTPException 404 ''not_found''), r)"
    "cancel_job uf us ue now absent user linked r = (Inl (HTTPException 404 ''not_found''), r)"
    using assms(1,6) a by (simp_all add: cancel_job_def)
  moreover have "j \<notin> set out" if "visible_jobs user linked js = Inr out" for js out
    using visible_jobs_set [OF that] v by auto
  ultimately show ?thesis by simp
qed

definition owned_jobs :: redis where
  "owned_jobs = snd (enqueue 0 ''j1'' ''generate'' (JObj [(''owner_user_id'', JStr ''u2'')]) Map.empty)"

theorem other_accounts_jobs_hidden_witness:
  "get_job 10 ''j1'' ''u1'' (Some ''0xaa'') owned_jobs = get_job 10 ''zz'' ''u1'' (Some ''0xaa'') owned_jobs"
proof -
  let ?j = "job_of_hash ''j1'' (queued_hash ''j1'' ''generate'' (JObj [(''owner_user_id'', JStr ''u2'')]) 0)"
  have l: "live 10 owned_jobs (job_key ''j1'') =
      Some (RHash (queued_hash ''j1'' ''generate'' (JObj [(''owner_user_id'', JStr ''u2'')]) 0))"
    "live 10 owned_jobs (job_key ''zz'') = None"
    by (simp_all add: owned_jobs_def enqueue_def r_hset_def r_expire_def live_def JOB_TTL_def job_key_def)
  then have "JobStore.get 10 ''j1'' owned_jobs = Inr (Some ?j)" "JobStore.get 10 ''zz'' owned_jobs = Inr None"
    by (simp_all add: get_def r_hgetall_def hash_empty_def job_fields_def queued_hash_def)
  moreover have "j_payload ?j = JObj [(''owner_user_id'', JStr ''u2'')]"
    by (simp add: job_of_hash_def queued_hash_def safe_json_def)
  ultimately show ?thesis
    using other_accounts_jobs_hidden [of 10 "''j1''" owned_jobs ?j _ "''u2''" "''u1''" "''zz''"] by simp
qed

section \<open>The admission gate\<close>

text \<open>
  The semaphore and the waiting counter of \<open>_run_with_cleanup\<close>, with the check of the route.  A start
  that passed the check (\<open>ga_admitted\<close>) arrives at the gate later, when its background task runs: between
  the two the route awaits the payment and the enqueue.  \<open>Drop\<close> is an admitted start that fails,
  \<open>Leave\<close> a task cancelled while it waits.
\<close>

record gate =
  ga_running :: nat
  ga_waiting :: nat
  ga_admitted :: nat

datatype gate_event = Admit | Drop | Arrive | Acquire | Leave | Finish

inductive gate_step :: "environ \<Rightarrow> gate \<Rightarrow> gate_event \<Rightarrow> gate \<Rightarrow> bool" for env where
  admit: "int (ga_waiting g) < max_queued_generations env \<Longrightarrow>
     gate_step env g Admit (g\<lparr>ga_admitted := Suc (ga_admitted g)\<rparr>)"
| drop: "0 < ga_admitted g \<Longrightarrow> gate_step env g Drop (g\<lparr>ga_admitted := ga_admitted g - 1\<rparr>)"
| arrive_free: "0 < ga_admitted g \<Longrightarrow> int (ga_running g) < max_concurrent_generations env \<Longrightarrow>
     ga_waiting g = 0 \<Longrightarrow>
     gate_step env g Arrive (g\<lparr>ga_admitted := ga_admitted g - 1, ga_running := Suc (ga_running g)\<rparr>)"
| arrive_locked: "0 < ga_admitted g \<Longrightarrow>
     \<not> (int (ga_running g) < max_concurrent_generations env \<and> ga_waiting g = 0) \<Longrightarrow>
     gate_step env g Arrive (g\<lparr>ga_admitted := ga_admitted g - 1, ga_waiting := Suc (ga_waiting g)\<rparr>)"
| acquire: "0 < ga_waiting g \<Longrightarrow> int (ga_running g) < max_concurrent_generations env \<Longrightarrow>
     gate_step env g Acquire (g\<lparr>ga_waiting := ga_waiting g - 1, ga_running := Suc (ga_running g)\<rparr>)"
| leave: "0 < ga_waiting g \<Longrightarrow> gate_step env g Leave (g\<lparr>ga_waiting := ga_waiting g - 1\<rparr>)"
| finish: "0 < ga_running g \<Longrightarrow> gate_step env g Finish (g\<lparr>ga_running := ga_running g - 1\<rparr>)"

inductive gate_run :: "environ \<Rightarrow> gate \<Rightarrow> gate_event list \<Rightarrow> gate \<Rightarrow> bool" for env where
  gate_nil: "gate_run env g [] g"
| gate_snoc: "gate_run env g es g' \<Longrightarrow> gate_step env g' e g'' \<Longrightarrow> gate_run env g (es @ [e]) g''"

definition idle_gate :: gate where
  "idle_gate = \<lparr>ga_running = 0, ga_waiting = 0, ga_admitted = 0\<rparr>"

lemma max_concurrent_pos: "1 \<le> max_concurrent_generations env"
  by (simp add: max_concurrent_generations_def split: option.splits)

lemma gate_step_bound:
  "gate_step env g e g' \<Longrightarrow> int (ga_running g) \<le> max_concurrent_generations env \<Longrightarrow>
   int (ga_running g') \<le> max_concurrent_generations env"
  by (induction rule: gate_step.induct) auto

lemma gate_run_bound:
  "gate_run env g es g' \<Longrightarrow> int (ga_running g) \<le> max_concurrent_generations env \<Longrightarrow>
   int (ga_running g') \<le> max_concurrent_generations env"
  by (induction rule: gate_run.induct) (auto intro: gate_step_bound)

lemma admit_many:
  assumes "0 < max_queued_generations env"
  shows "gate_run env idle_gate (replicate n Admit) (idle_gate\<lparr>ga_admitted := n\<rparr>)"
proof (induction n)
  case 0
  show ?case using gate_nil [of env idle_gate] by (simp add: idle_gate_def)
next
  case (Suc n)
  have "gate_step env (idle_gate\<lparr>ga_admitted := n\<rparr>) Admit
      ((idle_gate\<lparr>ga_admitted := n\<rparr>)\<lparr>ga_admitted := Suc (ga_admitted (idle_gate\<lparr>ga_admitted := n\<rparr>))\<rparr>)"
    by (rule gate_step.admit) (simp add: idle_gate_def assms)
  with gate_snoc [OF Suc this] show ?case
    by (simp add: replicate_append_same [symmetric])
qed

lemma arrive_many:
  assumes "gate_run env g0 es g" and "k \<le> ga_admitted g"
  shows "\<exists>fs g'. gate_run env g0 fs g' \<and>
     ga_running g' + ga_waiting g' = ga_running g + ga_waiting g + k \<and> ga_admitted g' = ga_admitted g - k"
  using assms(2)
proof (induction k)
  case 0
  then show ?case using assms(1) by auto
next
  case (Suc k)
  then obtain fs g' where g': "gate_run env g0 fs g'"
    "ga_running g' + ga_waiting g' = ga_running g + ga_waiting g + k" "ga_admitted g' = ga_admitted g - k"
    by auto
  then have a: "0 < ga_admitted g'" using Suc.prems by simp
  obtain g'' where "gate_step env g' Arrive g''"
    "ga_running g'' + ga_waiting g'' = ga_running g' + ga_waiting g' + 1"
    "ga_admitted g'' = ga_admitted g' - 1"
    by (cases "int (ga_running g') < max_concurrent_generations env \<and> ga_waiting g' = 0")
      (use arrive_free [OF a] arrive_locked [OF a] in \<open>fastforce\<close>)+
  then show ?case using g' gate_snoc [OF g'(1)] by (intro exI conjI) auto
qed

text \<open>
  The concurrency limit is hard, the queue limit is not.  In every sequence of gate events at most
  the configured number of pipelines run at once.  The waiting queue, however, can grow beyond its
  limit by any amount: the check reads a counter that an admitted start raises only when its task
  reaches the gate, so all starts admitted in between pass it (and pay) although the queue is full
  when they arrive.
\<close>

theorem admission_gate:
  "(\<forall>es g. gate_run env idle_gate es g \<longrightarrow> int (ga_running g) \<le> max_concurrent_generations env) \<and>
   (0 < max_queued_generations env \<longrightarrow>
    (\<exists>es g. gate_run env idle_gate es g \<and> max_queued_generations env + int n < int (ga_waiting g)))"
proof (intro conjI allI impI)
  fix es g assume "gate_run env idle_gate es g"
  then show "int (ga_running g) \<le> max_concurrent_generations env"
    using gate_run_bound max_concurrent_pos [of env] by (force simp: idle_gate_def)
next
  assume q: "0 < max_queued_generations env"
  let ?m = "nat (max_queued_generations env + max_concurrent_generations env + int n + 1)"
  obtain fs g where g: "gate_run env idle_gate fs g" "ga_running g + ga_waiting g = ?m"
    using arrive_many [OF admit_many [OF q, of ?m], of ?m] by (auto simp: idle_gate_def)
  then have "int (ga_running g) \<le> max_concurrent_generations env"
    using gate_run_bound max_concurrent_pos [of env] by (force simp: idle_gate_def)
  with g(2) q have "max_queued_generations env + int n < int (ga_waiting g)"
    using max_concurrent_pos [of env] by linarith
  with g(1) show "\<exists>es g. gate_run env idle_gate es g \<and> max_queued_generations env + int n < int (ga_waiting g)"
    by blast
qed

theorem admission_gate_witness:
  "\<exists>es g. gate_run Map.empty idle_gate es g \<and> 10 < int (ga_waiting g)"
proof -
  have "max_queued_generations Map.empty = 10" by code_simp
  then show ?thesis using admission_gate [of Map.empty 0] by simp
qed

end
