(* ===== verification/RigorGate.thy ===== *)
theory RigorGate
  imports Complex_Main Prelude
begin

text \<open>
  The rigor gate: the strictness ladder of \<^verbatim>\<open>services/rigor_profiles.py\<close>, the verdict of a graded
  strategy (\<open>RigorGateResult\<close> of \<^verbatim>\<open>services/rigor_evaluator.py\<close>) and the badge of
  \<^verbatim>\<open>services/live_rigor_gate.py\<close>.

  A float is the rational it denotes, or one of the values that are not finite; the constants of the
  source are the doubles nearest to their decimal texts.  The quotient of two floats is rounded by the
  hardware: it is a parameter \<open>fdiv\<close>, and \<open>None\<close> when it overflows.  How the statistics of a
  result are computed is not modelled; the results are taken as they are.
\<close>

section \<open>The ladder: services/rigor\_profiles.py\<close>

definition DSR_P_FLOOR :: rat where
  "DSR_P_FLOOR = 1 / 2"

definition OOS_ABS_FLOOR :: rat where
  "OOS_ABS_FLOOR = 0"

definition CPCV_MIN_POSITIVE_FRACTION :: rat where
  "CPCV_MIN_POSITIVE_FRACTION = 1 / 2"

definition DSR_P_BADGE_MIN :: rat where
  "DSR_P_BADGE_MIN = 4278419646001971 / 4503599627370496"

record rigor_profile =
  rp_level :: int
  rp_label :: string
  rp_dsr_p_min :: rat
  rp_pbo_max :: rat
  rp_oos_is_ratio_min :: rat

definition PROFILES :: "rigor_profile list" where
  "PROFILES =
    [\<lparr>rp_level = 1, rp_label = ''Conservative'', rp_dsr_p_min = DSR_P_BADGE_MIN,
      rp_pbo_max = 1 / 2, rp_oos_is_ratio_min = 1 / 2\<rparr>,
     \<lparr>rp_level = 2, rp_label = ''Balanced'', rp_dsr_p_min = 3602879701896397 / 4503599627370496,
      rp_pbo_max = 2476979795053773 / 4503599627370496,
      rp_oos_is_ratio_min = 8106479329266893 / 18014398509481984\<rparr>,
     \<lparr>rp_level = 3, rp_label = ''Moderate'', rp_dsr_p_min = 3152519739159347 / 4503599627370496,
      rp_pbo_max = 5404319552844595 / 9007199254740992,
      rp_oos_is_ratio_min = 3602879701896397 / 9007199254740992\<rparr>,
     \<lparr>rp_level = 4, rp_label = ''Aggressive'', rp_dsr_p_min = 5404319552844595 / 9007199254740992,
      rp_pbo_max = 5854679515581645 / 9007199254740992,
      rp_oos_is_ratio_min = 3152519739159347 / 9007199254740992\<rparr>,
     \<lparr>rp_level = 5, rp_label = ''Speculative'', rp_dsr_p_min = 1 / 2,
      rp_pbo_max = 3152519739159347 / 4503599627370496,
      rp_oos_is_ratio_min = 5404319552844595 / 18014398509481984\<rparr>]"

definition STRICTEST_LEVEL :: int where
  "STRICTEST_LEVEL = 1"

definition LOOSEST_LEVEL :: int where
  "LOOSEST_LEVEL = 5"

definition DEFAULT_LEVEL :: int where
  "DEFAULT_LEVEL = STRICTEST_LEVEL"

text \<open>What a caller may pass as a level: \<open>None\<close>, an integer, a text, or something \<open>int\<close> refuses.\<close>

datatype level_arg = Level_None | Level_int int | Level_text string | Level_other

definition int_of_level :: "level_arg \<Rightarrow> int option" where
  "int_of_level a =
     (case a of Level_int n \<Rightarrow> Some n | Level_text s \<Rightarrow> py_int s | _ \<Rightarrow> None)"

definition clamp_level :: "level_arg \<Rightarrow> int" where
  "clamp_level level =
     (if level = Level_None then DEFAULT_LEVEL
      else case int_of_level level of
             None \<Rightarrow> DEFAULT_LEVEL
           | Some lv \<Rightarrow> min (max lv STRICTEST_LEVEL) LOOSEST_LEVEL)"

definition profile_at :: "int \<Rightarrow> rigor_profile" where
  "profile_at lv = PROFILES ! nat (lv - 1)"

definition get_profile :: "level_arg \<Rightarrow> rigor_profile" where
  "get_profile level = profile_at (clamp_level level)"

definition STRICTNESS_LEVELS :: "int list" where
  "STRICTNESS_LEVELS = [1, 2, 3, 4, 5]"

definition all_profiles :: "rigor_profile list" where
  "all_profiles = map profile_at STRICTNESS_LEVELS"

section \<open>A graded strategy: services/rigor\_evaluator.py\<close>

datatype metric = Missing | Not_finite | Value rat

definition MIN_LIBRARY_N_FOR_PBO_GATING :: int where
  "MIN_LIBRARY_N_FOR_PBO_GATING = 10"

record gate_result =
  gr_is_degenerate :: bool
  gr_profile :: rigor_profile
  gr_dsr_p_value :: metric
  gr_pbo_score :: metric
  gr_pbo_library_size :: "int option"
  gr_oos_sharpe :: metric
  gr_look_ahead_passed :: bool
  gr_in_sample_sharpe :: metric
  gr_cpcv_positive_fraction :: metric

definition pbo_below_power_floor :: "gate_result \<Rightarrow> bool" where
  "pbo_below_power_floor r \<longleftrightarrow>
     (case gr_pbo_library_size r of None \<Rightarrow> False | Some n \<Rightarrow> n < MIN_LIBRARY_N_FOR_PBO_GATING)"

definition blocked_by_floor :: "gate_result \<Rightarrow> bool" where
  "blocked_by_floor r \<longleftrightarrow>
     (if \<not> gr_look_ahead_passed r then True
      else if (case gr_oos_sharpe r of Value x \<Rightarrow> x \<le> OOS_ABS_FLOOR | _ \<Rightarrow> True) then True
      else if (case gr_dsr_p_value r of Value p \<Rightarrow> p < DSR_P_FLOOR | _ \<Rightarrow> True) then True
      else (case gr_cpcv_positive_fraction r of
              Missing \<Rightarrow> False
            | Not_finite \<Rightarrow> True
            | Value f \<Rightarrow> f < CPCV_MIN_POSITIVE_FRACTION))"

text \<open>\<^verbatim>\<open>oos / in_sample < bar\<close>; a quotient that overflows is above every bar.\<close>

definition below_ratio :: "(rat \<Rightarrow> rat \<Rightarrow> rat option) \<Rightarrow> metric \<Rightarrow> metric \<Rightarrow> rat \<Rightarrow> bool" where
  "below_ratio fdiv oos in_sample bar \<longleftrightarrow>
     (case (oos, in_sample) of
        (Value x, Value y) \<Rightarrow>
          0 < y \<and> (case fdiv x y of None \<Rightarrow> False | Some q \<Rightarrow> q < bar)
      | _ \<Rightarrow> False)"

definition passes_profile :: "(rat \<Rightarrow> rat \<Rightarrow> rat option) \<Rightarrow> gate_result \<Rightarrow> rigor_profile \<Rightarrow> bool" where
  "passes_profile fdiv r p \<longleftrightarrow>
     (if blocked_by_floor r then False
      else if (case gr_dsr_p_value r of Value x \<Rightarrow> x < rp_dsr_p_min p | _ \<Rightarrow> False) then False
      else if \<not> pbo_below_power_floor r \<and>
              (case gr_pbo_score r of Value x \<Rightarrow> rp_pbo_max p \<le> x | _ \<Rightarrow> True) then False
      else if below_ratio fdiv (gr_oos_sharpe r) (gr_in_sample_sharpe r) (rp_oos_is_ratio_min p)
           then False
      else True)"

definition passes_all :: "(rat \<Rightarrow> rat \<Rightarrow> rat option) \<Rightarrow> gate_result \<Rightarrow> bool" where
  "passes_all fdiv r \<longleftrightarrow> passes_profile fdiv r (gr_profile r)"

definition passes_at_level :: "(rat \<Rightarrow> rat \<Rightarrow> rat option) \<Rightarrow> gate_result \<Rightarrow> level_arg \<Rightarrow> bool" where
  "passes_at_level fdiv r level \<longleftrightarrow> passes_profile fdiv r (get_profile level)"

definition min_passing_level :: "(rat \<Rightarrow> rat \<Rightarrow> rat option) \<Rightarrow> gate_result \<Rightarrow> int option" where
  "min_passing_level fdiv r =
     find (\<lambda>level. passes_profile fdiv r (get_profile (Level_int level))) STRICTNESS_LEVELS"

definition tri_state_status :: "(rat \<Rightarrow> rat \<Rightarrow> rat option) \<Rightarrow> gate_result \<Rightarrow> string" where
  "tri_state_status fdiv r =
     (if gr_is_degenerate r then ''degenerate'' else if passes_all fdiv r then ''pass'' else ''fail'')"

section \<open>The badge: services/live\_rigor\_gate.py\<close>

definition MIN_RETURNS_FOR_GATE :: nat where
  "MIN_RETURNS_FOR_GATE = 10"

record verdict =
  v_status :: string
  v_passes :: bool
  v_source :: string
  v_min_passing_level :: "int option"
  v_blocked_by_floor :: bool

definition pending_verdict :: verdict where
  "pending_verdict = \<lparr>v_status = ''pending'', v_passes = False, v_source = ''pending'',
     v_min_passing_level = None, v_blocked_by_floor = False\<rparr>"

definition degenerate_verdict :: verdict where
  "degenerate_verdict = \<lparr>v_status = ''degenerate'', v_passes = False, v_source = ''live_gate'',
     v_min_passing_level = None, v_blocked_by_floor = True\<rparr>"

definition from_result :: "(rat \<Rightarrow> rat \<Rightarrow> rat option) \<Rightarrow> gate_result \<Rightarrow> verdict" where
  "from_result fdiv r =
     (if gr_is_degenerate r then degenerate_verdict
      else let passes = passes_all fdiv r
           in \<lparr>v_status = (if passes then ''pass'' else ''fail''), v_passes = passes,
               v_source = ''live_gate'', v_min_passing_level = min_passing_level fdiv r,
               v_blocked_by_floor = blocked_by_floor r\<rparr>)"

text \<open>
  \<open>gate\<close> stands for \<open>run_rigor_gate\<close> on the series and the cohort context: a result, or an exception.
\<close>

definition verdict_from_returns ::
    "(rat \<Rightarrow> rat \<Rightarrow> rat option) \<Rightarrow> ('a list \<Rightarrow> gate_result res) \<Rightarrow> 'a list \<Rightarrow> verdict" where
  "verdict_from_returns fdiv gate daily_returns =
     (if length daily_returns < MIN_RETURNS_FOR_GATE then pending_verdict
      else case gate daily_returns of
             Inl _ \<Rightarrow> pending_verdict
           | Inr r \<Rightarrow> from_result fdiv r)"

text \<open>
  The batch: the returns read from the database (or an exception), the cohort context computed from
  the series that are long enough (or an exception), then one verdict per strategy.
\<close>

definition verdicts_for_strategies ::
    "(rat \<Rightarrow> rat \<Rightarrow> rat option) \<Rightarrow> (string \<Rightarrow> 'c \<Rightarrow> 'a list \<Rightarrow> gate_result res) \<Rightarrow>
     (string \<rightharpoonup> 'a list) res \<Rightarrow> ((string \<rightharpoonup> 'a list) \<Rightarrow> 'c res) \<Rightarrow> string list \<Rightarrow> string \<rightharpoonup> verdict" where
  "verdicts_for_strategies fdiv gate db cohort ids =
     (case db of
        Inl _ \<Rightarrow> map_of (map (\<lambda>i. (i, pending_verdict)) ids)
      | Inr returns \<Rightarrow>
          (let valid = (\<lambda>i. case returns i of
                              Some xs \<Rightarrow> if MIN_RETURNS_FOR_GATE \<le> length xs then Some xs else None
                            | None \<Rightarrow> None)
           in case cohort valid of
                Inl _ \<Rightarrow> map_of (map (\<lambda>i. (i, pending_verdict)) ids)
              | Inr c \<Rightarrow>
                  map_of (map (\<lambda>i. (i, verdict_from_returns fdiv (gate i c)
                                         (case returns i of None \<Rightarrow> [] | Some xs \<Rightarrow> xs))) ids)))"

section \<open>Looser profiles\<close>

definition looser :: "rigor_profile \<Rightarrow> rigor_profile \<Rightarrow> bool" where
  "looser p q \<longleftrightarrow> rp_dsr_p_min q \<le> rp_dsr_p_min p \<and> rp_pbo_max p \<le> rp_pbo_max q \<and>
     rp_oos_is_ratio_min q \<le> rp_oos_is_ratio_min p"

text \<open>
  The contract of a ladder: the rungs get looser, and a looser rung admits whatever a stricter one
  does.  It makes the lowest passing rung decide all of them.
\<close>

locale ladder =
  fixes rung :: "int \<Rightarrow> 'p"
    and looser_rung :: "'p \<Rightarrow> 'p \<Rightarrow> bool"
    and admits :: "'r \<Rightarrow> 'p \<Rightarrow> bool"
    and lo hi :: int
  assumes rungs: "lo \<le> i \<Longrightarrow> i \<le> j \<Longrightarrow> j \<le> hi \<Longrightarrow> looser_rung (rung i) (rung j)"
    and looser_admits: "looser_rung p q \<Longrightarrow> admits r p \<Longrightarrow> admits r q"
begin

lemma admits_mono: "lo \<le> i \<Longrightarrow> i \<le> j \<Longrightarrow> j \<le> hi \<Longrightarrow> admits r (rung i) \<Longrightarrow> admits r (rung j)"
  using rungs looser_admits by blast

lemma lowest_decides:
  assumes "lo \<le> j" and "j \<le> hi"
  shows "admits r (rung j) \<longleftrightarrow>
    (\<exists>m. find (\<lambda>i. admits r (rung i)) [lo..hi] = Some m \<and> m \<le> j)"
proof
  assume a: "admits r (rung j)"
  then have "find (\<lambda>i. admits r (rung i)) [lo..hi] \<noteq> None"
    using assms by (auto simp: find_None_iff)
  then obtain m where m: "find (\<lambda>i. admits r (rung i)) [lo..hi] = Some m" by blast
  then obtain k where k: "k < length [lo..hi]" "m = [lo..hi] ! k"
    "\<forall>l<k. \<not> admits r (rung ([lo..hi] ! l))"
    by (auto simp: find_Some_iff)
  have "m \<le> j"
  proof (rule ccontr)
    assume "\<not> m \<le> j"
    then have "nat (j - lo) < k" using k(1,2) assms by simp
    moreover have "[lo..hi] ! nat (j - lo) = j" using assms by simp
    ultimately show False using k(3) a by metis
  qed
  with m show "\<exists>m. find (\<lambda>i. admits r (rung i)) [lo..hi] = Some m \<and> m \<le> j" by blast
next
  assume "\<exists>m. find (\<lambda>i. admits r (rung i)) [lo..hi] = Some m \<and> m \<le> j"
  then obtain m where m: "find (\<lambda>i. admits r (rung i)) [lo..hi] = Some m" "m \<le> j" by blast
  then have "admits r (rung m)" "m \<in> set [lo..hi]" by (auto simp: find_Some_iff)
  with m(2) assms show "admits r (rung j)" using admits_mono [of m j r] by auto
qed

end

lemma profile_ladder:
  assumes "1 \<le> i" and "i \<le> j" and "j \<le> 5"
  shows "looser (profile_at i) (profile_at j)"
proof -
  have "i \<in> {1, 2, 3, 4, 5}" "j \<in> {1, 2, 3, 4, 5}" using assms by auto
  with assms(2) show ?thesis
    by (auto simp: looser_def profile_at_def PROFILES_def DSR_P_BADGE_MIN_def)
qed

lemma looser_passes:
  assumes "looser p q" and "passes_profile fdiv r p"
  shows "passes_profile fdiv r q"
  using assms
  by (auto simp: passes_profile_def looser_def below_ratio_def split: if_splits metric.splits option.splits)

lemma passes_not_blocked: "passes_profile fdiv r p \<Longrightarrow> \<not> blocked_by_floor r"
  by (auto simp: passes_profile_def split: if_splits)

interpretation strictness: ladder profile_at looser "passes_profile fdiv" 1 5 for fdiv
  by unfold_locales (auto intro: profile_ladder looser_passes)

lemma clamp_level_range: "1 \<le> clamp_level a \<and> clamp_level a \<le> 5"
  by (simp add: clamp_level_def DEFAULT_LEVEL_def STRICTEST_LEVEL_def LOOSEST_LEVEL_def split: option.splits)

lemma clamp_level_id: "1 \<le> n \<Longrightarrow> n \<le> 5 \<Longrightarrow> clamp_level (Level_int n) = n"
  by (simp add: clamp_level_def int_of_level_def STRICTEST_LEVEL_def LOOSEST_LEVEL_def)

lemma strictness_levels: "STRICTNESS_LEVELS = [1..5]"
  by (simp add: STRICTNESS_LEVELS_def upto_rec1)

lemma min_passing_level_find:
  "min_passing_level fdiv r = find (\<lambda>i. passes_profile fdiv r (profile_at i)) [1..5]"
  unfolding min_passing_level_def strictness_levels get_profile_def
  by (rule find_cong) (auto simp: clamp_level_id)

section \<open>Properties\<close>

text \<open>
  The deploy rule is the gate.  For every result, every rounding of the quotient and every level a
  caller can pass, a strategy passes at that level exactly when it has a minimum passing level and
  that is not above the (clamped) level: the one number stored with a verdict answers the question
  for the whole ladder.
\<close>

theorem deploy_rule:
  "passes_at_level fdiv r level \<longleftrightarrow>
   (\<exists>m. min_passing_level fdiv r = Some m \<and> m \<le> clamp_level level)"
  unfolding passes_at_level_def get_profile_def min_passing_level_find
  using strictness.lowest_decides clamp_level_range by blast

text \<open>
  C21: no strictness level bypasses a correctness floor.  Whatever level is passed, a strategy that
  passes has a look-ahead audit that passed, a finite out-of-sample Sharpe above zero, a finite
  deflated-Sharpe p-value of at least one half and, where there is a combinatorial matrix, a finite
  majority of positive paths; a metric that is missing or not finite never passes.
\<close>

theorem floors_never_bypassed:
  assumes "passes_at_level fdiv r level"
  shows "gr_look_ahead_passed r \<and>
         (\<exists>x. gr_oos_sharpe r = Value x \<and> 0 < x) \<and>
         (\<exists>p. gr_dsr_p_value r = Value p \<and> 1 / 2 \<le> p) \<and>
         (gr_cpcv_positive_fraction r = Missing \<or>
          (\<exists>f. gr_cpcv_positive_fraction r = Value f \<and> 1 / 2 \<le> f)) \<and>
         (pbo_below_power_floor r \<or> (\<exists>b. gr_pbo_score r = Value b))"
proof -
  have p: "passes_profile fdiv r (get_profile level)" using assms by (simp add: passes_at_level_def)
  then have "\<not> blocked_by_floor r" by (rule passes_not_blocked)
  then have "gr_look_ahead_passed r \<and> (\<exists>x. gr_oos_sharpe r = Value x \<and> 0 < x) \<and>
      (\<exists>p. gr_dsr_p_value r = Value p \<and> 1 / 2 \<le> p) \<and>
      (gr_cpcv_positive_fraction r = Missing \<or>
       (\<exists>f. gr_cpcv_positive_fraction r = Value f \<and> 1 / 2 \<le> f))"
    by (auto simp: blocked_by_floor_def OOS_ABS_FLOOR_def DSR_P_FLOOR_def CPCV_MIN_POSITIVE_FRACTION_def
        split: if_splits metric.splits)
  moreover have "pbo_below_power_floor r \<or> (\<exists>b. gr_pbo_score r = Value b)"
    using p by (auto simp: passes_profile_def split: if_splits metric.splits)
  ultimately show ?thesis by blast
qed

definition sample_result :: gate_result where
  "sample_result =
     \<lparr>gr_is_degenerate = False, gr_profile = profile_at 1, gr_dsr_p_value = Value (97 / 100),
      gr_pbo_score = Value (2 / 10), gr_pbo_library_size = Some 12, gr_oos_sharpe = Value 1,
      gr_look_ahead_passed = True, gr_in_sample_sharpe = Value (3 / 2),
      gr_cpcv_positive_fraction = Value (8 / 10)\<rparr>"

definition exact_div :: "rat \<Rightarrow> rat \<Rightarrow> rat option" where
  "exact_div x y = Some (x / y)"

lemma sample_passes: "passes_profile exact_div sample_result (profile_at 1)"
  by (simp add: passes_profile_def sample_result_def blocked_by_floor_def OOS_ABS_FLOOR_def
      DSR_P_FLOOR_def CPCV_MIN_POSITIVE_FRACTION_def pbo_below_power_floor_def
      MIN_LIBRARY_N_FOR_PBO_GATING_def below_ratio_def exact_div_def profile_at_def PROFILES_def
      DSR_P_BADGE_MIN_def)

theorem floors_never_bypassed_witness: "gr_look_ahead_passed sample_result"
  using floors_never_bypassed [of exact_div sample_result "Level_int 1"] sample_passes
  by (simp add: passes_at_level_def get_profile_def clamp_level_id)

text \<open>
  The badge is fail-closed.  Whatever the grading function does, a verdict says \<open>pass\<close> only when
  there were at least ten returns, the grading raised nothing, the series is not degenerate and the
  result passes at its own profile; then, the profile being the strictest one, the minimum passing
  level is 1 and no floor blocks.  In a batch whose database read or cohort computation fails, every
  verdict is pending.
\<close>

theorem badge_fail_closed:
  assumes "\<And>r. gate xs = Inr r \<Longrightarrow> gr_profile r = profile_at 1"
  shows "(v_passes (verdict_from_returns fdiv gate xs) \<longleftrightarrow>
          v_status (verdict_from_returns fdiv gate xs) = ''pass'') \<and>
         (v_passes (verdict_from_returns fdiv gate xs) \<longrightarrow>
          10 \<le> length xs \<and>
          (\<exists>r. gate xs = Inr r \<and> \<not> gr_is_degenerate r \<and> passes_all fdiv r) \<and>
          v_min_passing_level (verdict_from_returns fdiv gate xs) = Some 1 \<and>
          \<not> v_blocked_by_floor (verdict_from_returns fdiv gate xs)) \<and>
         (i \<in> set ids \<and> (\<exists>e. db = Inl e) \<longrightarrow>
          verdicts_for_strategies fdiv gate' db cohort ids i = Some pending_verdict)"
proof -
  have one: "min_passing_level fdiv r = Some 1 \<and> \<not> blocked_by_floor r"
    if "passes_profile fdiv r (profile_at 1)" for r
    using that passes_not_blocked [OF that] by (simp add: min_passing_level_find upto_rec1)
  have batch: "verdicts_for_strategies fdiv gate' (Inl e) cohort ids i = Some pending_verdict"
    if "i \<in> set ids" for e
    using that by (auto simp: verdicts_for_strategies_def map_of_map_restrict)
  show ?thesis
  proof (cases "length xs < MIN_RETURNS_FOR_GATE")
    case True
    with batch show ?thesis by (auto simp: verdict_from_returns_def pending_verdict_def)
  next
    case False
    show ?thesis
    proof (cases "gate xs")
      case (Inl e)
      with False batch show ?thesis by (auto simp: verdict_from_returns_def pending_verdict_def)
    next
      case (Inr r)
      with False batch one [of r] assms [OF Inr] show ?thesis
        by (auto simp: verdict_from_returns_def from_result_def degenerate_verdict_def Let_def
            passes_all_def MIN_RETURNS_FOR_GATE_def)
    qed
  qed
qed

theorem badge_fail_closed_witness:
  "v_min_passing_level (verdict_from_returns exact_div (\<lambda>_. Inr sample_result) (replicate 12 ())) = Some 1"
proof -
  have "v_passes (verdict_from_returns exact_div (\<lambda>_. Inr sample_result) (replicate 12 ()))"
    using sample_passes
    by (simp add: verdict_from_returns_def from_result_def Let_def passes_all_def MIN_RETURNS_FOR_GATE_def)
      (simp add: sample_result_def)
  moreover have "gr_profile r = profile_at 1" if "(Inr sample_result :: gate_result res) = Inr r" for r
    using that by (auto simp: sample_result_def)
  ultimately show ?thesis
    using badge_fail_closed [of "\<lambda>_. Inr sample_result" "replicate 12 ()" exact_div] by blast
qed

text \<open>
  Where a level that is out of range ends up.  A level that is absent, or that \<open>int\<close> refuses, and one
  below the range give the strictest level; one above the range, however, gives the loosest, so that
  a level of 99 loosens the gate to level 5.
\<close>

theorem clamp_level_direction:
  "clamp_level Level_None = 1 \<and> clamp_level Level_other = 1 \<and>
   (\<forall>s. py_int s = None \<longrightarrow> clamp_level (Level_text s) = 1) \<and>
   (\<forall>n<1. clamp_level (Level_int n) = 1) \<and>
   (\<forall>n>5. clamp_level (Level_int n) = LOOSEST_LEVEL)"
  by (auto simp: clamp_level_def int_of_level_def DEFAULT_LEVEL_def STRICTEST_LEVEL_def LOOSEST_LEVEL_def)

theorem clamp_level_direction_witness: "clamp_level (Level_int 99) = 5"
  using clamp_level_direction by (simp add: LOOSEST_LEVEL_def)

end
