(* ===== verification/Lease.thy ===== *)
theory Lease
  imports Redis PyDecimal
begin

text \<open>
  The exactly-once lease of the singleton runners: the three Lua scripts and the operations of
  \<^verbatim>\<open>services/redis_state.py\<close>, and \<open>RunnerLeaseGuard\<close> of \<^verbatim>\<open>services/runner_lease.py\<close>.  A cluster is the
  shared Redis, the current instant and one guard per process.  The coroutines of a process run until they await a
  call to Redis, so an attempt is three commands: its beginning, the call as Redis serves it or the network loses it,
  and the coroutine going on with the outcome; a release by signal falls between them, and its own call is served
  later.  A Redis call can be lost before or after its script ran; a request that the client
  has given up is not served later.  The holder's uuid is an argument of the step that
  draws it.
\<close>

section \<open>Scripts and store operations: services/redis\_state.py\<close>

definition KEY_LEASE_PREFIX :: string where
  "KEY_LEASE_PREFIX = ''archimedes:leader:''"

definition KEY_LEASE_FENCING_SUFFIX :: string where
  "KEY_LEASE_FENCING_SUFFIX = '':fencing''"

definition lease_key :: "string \<Rightarrow> string" where
  "lease_key runner = KEY_LEASE_PREFIX @ runner"

definition fencing_key :: "string \<Rightarrow> string" where
  "fencing_key runner = KEY_LEASE_PREFIX @ runner @ KEY_LEASE_FENCING_SUFFIX"

definition show_fence :: "int \<Rightarrow> string" where
  "show_fence n = (if n < 0 then ''-'' @ nat_to_string (nat (- n)) else nat_to_string (nat n))"

definition lease_token :: "string \<Rightarrow> int \<Rightarrow> string" where
  "lease_token holder fence = holder @ '':'' @ show_fence fence"

text \<open>
  The acquire script.  A script is not rolled back: were the counter of another type, the lock would
  stay with the bare uuid.
\<close>

definition acquire_lease :: "int \<Rightarrow> string \<Rightarrow> int \<Rightarrow> string \<Rightarrow> (redis, string option) op" where
  "acquire_lease now runner ttl_ms holder r =
     (if live now r (lease_key runner) \<noteq> None then (Inr None, r)
      else case r_incr now (fencing_key runner)
                  (r_setex now (lease_key runner) (RStr holder) ttl_ms r) of
             (Inl e, r') \<Rightarrow> (Inl e, r')
           | (Inr fence, r') \<Rightarrow>
               (Inr (Some (lease_token holder fence)),
                r_setex now (lease_key runner) (RStr (lease_token holder fence)) ttl_ms r'))"

text \<open>\<^verbatim>\<open>redis.call("GET", KEYS[1]) == ARGV[1]\<close>.\<close>

definition owner_is :: "int \<Rightarrow> string \<Rightarrow> string \<Rightarrow> redis \<Rightarrow> bool" where
  "owner_is now runner token r \<longleftrightarrow>
     (case live now r (lease_key runner) of Some (RStr t) \<Rightarrow> t = token | _ \<Rightarrow> False)"

definition renew_lease :: "int \<Rightarrow> string \<Rightarrow> string \<Rightarrow> int \<Rightarrow> redis \<Rightarrow> bool \<times> redis" where
  "renew_lease now runner token ttl_ms r =
     (if owner_is now runner token r
      then (True, r_setex now (lease_key runner) (RStr token) ttl_ms r)
      else (False, r))"

definition release_lease :: "int \<Rightarrow> string \<Rightarrow> string \<Rightarrow> redis \<Rightarrow> redis" where
  "release_lease now runner token r =
     (if owner_is now runner token r then r_delete (lease_key runner) r else r)"

section \<open>The guard: services/runner\_lease.py\<close>

text \<open>
  What the one coroutine that acquires and renews awaits, or what came back and it has not gone on with.  An outcome
  carries the instant at which the lease that it confirms runs out in Redis.
\<close>

datatype lease_call =
    Idle
  | Asked_acquire string
  | Got_token string int
  | No_token
  | Asked_renew string
  | Renewed string int
  | Not_renewed

text \<open>
  \<open>gd_until\<close> and \<open>gd_released\<close> are not in the source: the instant at which the lease of the last confirmed acquire
  or renewal runs out in Redis, and whether the guard was ever told to release.  \<open>gd_releases\<close> are the releases under way.
\<close>

record guard =
  gd_token :: "string option"
  gd_valid :: bool
  gd_call :: lease_call
  gd_releases :: "string list"
  gd_until :: int
  gd_released :: bool

definition fresh_guard :: guard where
  "fresh_guard = \<lparr>gd_token = None, gd_valid = False, gd_call = Idle, gd_releases = [], gd_until = 0, gd_released = False\<rparr>"

text \<open>An attempt of \<open>acquire_forever\<close>, which runs without a token, or a tick of \<open>_renew_or_reacquire\<close>, up to its first call.\<close>

definition begin_attempt :: "string \<Rightarrow> guard \<Rightarrow> guard" where
  "begin_attempt holder g =
     (if gd_call g \<noteq> Idle then g
      else case gd_token g of
        None \<Rightarrow> g\<lparr>gd_call := Asked_acquire holder\<rparr>
      | Some token \<Rightarrow> g\<lparr>gd_call := Asked_renew token\<rparr>)"

definition serve_call :: "reply \<Rightarrow> int \<Rightarrow> string \<Rightarrow> int \<Rightarrow> guard \<Rightarrow> redis \<Rightarrow> guard \<times> redis" where
  "serve_call net now runner ttl_ms g r =
     (case gd_call g of
        Asked_acquire holder \<Rightarrow>
          if net = Lost_request then (g\<lparr>gd_call := No_token\<rparr>, r)
          else (case acquire_lease now runner ttl_ms holder r of
                  (Inr (Some token), r') \<Rightarrow>
                    (g\<lparr>gd_call := (if net = Reply then Got_token token (now + ttl_ms) else No_token)\<rparr>, r')
                | (_, r') \<Rightarrow> (g\<lparr>gd_call := No_token\<rparr>, r'))
      | Asked_renew token \<Rightarrow>
          if net = Lost_request then (g\<lparr>gd_call := Not_renewed\<rparr>, r)
          else (case renew_lease now runner token ttl_ms r of
                  (ok, r') \<Rightarrow>
                    (g\<lparr>gd_call := (if ok \<and> net = Reply then Renewed token (now + ttl_ms) else Not_renewed)\<rparr>, r'))
      | _ \<Rightarrow> (g, r))"

text \<open>The coroutine goes on.  After a renewal that failed it asks for a new lease at once.\<close>

definition resume_attempt :: "string \<Rightarrow> guard \<Rightarrow> guard" where
  "resume_attempt holder g =
     (case gd_call g of
        Got_token token until \<Rightarrow> g\<lparr>gd_token := Some token, gd_valid := True, gd_until := until, gd_call := Idle\<rparr>
      | No_token \<Rightarrow> g\<lparr>gd_call := Idle\<rparr>
      | Renewed token until \<Rightarrow> g\<lparr>gd_valid := True, gd_until := until, gd_call := Idle\<rparr>
      | Not_renewed \<Rightarrow> g\<lparr>gd_valid := False, gd_token := None, gd_call := Asked_acquire holder\<rparr>
      | _ \<Rightarrow> g)"

text \<open>\<open>release\<close>, up to its call and the call itself.\<close>

definition release_guard :: "guard \<Rightarrow> guard" where
  "release_guard g =
     (case gd_token g of
        None \<Rightarrow> g
      | Some token \<Rightarrow> g\<lparr>gd_token := None, gd_valid := False, gd_releases := token # gd_releases g, gd_released := True\<rparr>)"

definition serve_release :: "reply \<Rightarrow> int \<Rightarrow> string \<Rightarrow> string \<Rightarrow> guard \<Rightarrow> redis \<Rightarrow> guard \<times> redis" where
  "serve_release net now runner token g r =
     (if token \<notin> set (gd_releases g) then (g, r)
      else (g\<lparr>gd_releases := remove1 token (gd_releases g)\<rparr>,
            if net = Lost_request then r else release_lease now runner token r))"

section \<open>The cluster\<close>

record cluster =
  cl_redis :: redis
  cl_now :: int
  cl_guards :: "nat \<Rightarrow> guard"

datatype lease_cmd =
    Sleep nat
  | Begin nat string
  | Serve nat reply
  | Resume nat string
  | Sigterm nat
  | Serve_release nat reply string

definition with_guard :: "nat \<Rightarrow> (guard \<Rightarrow> redis \<Rightarrow> guard \<times> redis) \<Rightarrow> cluster \<Rightarrow> cluster" where
  "with_guard p f s =
     (case f (cl_guards s p) (cl_redis s) of
        (g, r) \<Rightarrow> s\<lparr>cl_redis := r, cl_guards := (cl_guards s)(p := g)\<rparr>)"

fun lease_step :: "string \<Rightarrow> int \<Rightarrow> cluster \<Rightarrow> lease_cmd \<Rightarrow> cluster" where
  "lease_step runner ttl s (Sleep n) = s\<lparr>cl_now := cl_now s + int n\<rparr>"
| "lease_step runner ttl s (Begin p holder) = with_guard p (\<lambda>g r. (begin_attempt holder g, r)) s"
| "lease_step runner ttl s (Serve p net) = with_guard p (serve_call net (cl_now s) runner ttl) s"
| "lease_step runner ttl s (Resume p holder) = with_guard p (\<lambda>g r. (resume_attempt holder g, r)) s"
| "lease_step runner ttl s (Sigterm p) = with_guard p (\<lambda>g r. (release_guard g, r)) s"
| "lease_step runner ttl s (Serve_release p net token) = with_guard p (serve_release net (cl_now s) runner token) s"

definition cluster_start :: "int \<Rightarrow> cluster" where
  "cluster_start now = \<lparr>cl_redis = Map.empty, cl_now = now, cl_guards = (\<lambda>_. fresh_guard)\<rparr>"

section \<open>The invariant\<close>

definition fence_count :: "string \<Rightarrow> redis \<Rightarrow> int" where
  "fence_count runner r = (case r (fencing_key runner) of Some (RInt n, _) \<Rightarrow> n | _ \<Rightarrow> 0)"

text \<open>A text that a past acquisition issued: its fence is not above the counter.\<close>

definition issued :: "string \<Rightarrow> redis \<Rightarrow> string \<Rightarrow> bool" where
  "issued runner r t \<longleftrightarrow> (\<exists>u f. t = lease_token u f \<and> 0 \<le> f \<and> f \<le> fence_count runner r)"

definition counter_ok :: "string \<Rightarrow> redis \<Rightarrow> bool" where
  "counter_ok runner r \<longleftrightarrow>
     r (fencing_key runner) = None \<or> (\<exists>n\<ge>0. r (fencing_key runner) = Some (RInt n, None))"

text \<open>The tokens of a guard: those it holds or has been given, the one it renews, and what it may rely on until when.\<close>

definition owns :: "guard \<Rightarrow> string \<Rightarrow> bool" where
  "owns g t \<longleftrightarrow> gd_token g = Some t \<or> (\<exists>u. gd_call g = Got_token t u)"

definition renewing :: "guard \<Rightarrow> string \<Rightarrow> bool" where
  "renewing g t \<longleftrightarrow> gd_call g = Asked_renew t \<or> (\<exists>u. gd_call g = Renewed t u)"

definition claims :: "guard \<Rightarrow> string \<Rightarrow> int \<Rightarrow> bool" where
  "claims g t u \<longleftrightarrow> gd_token g = Some t \<and> (u = gd_until g \<or> gd_call g = Renewed t u) \<or> gd_call g = Got_token t u"

definition guard_ok :: "guard \<Rightarrow> bool" where
  "guard_ok g \<longleftrightarrow>
     (gd_valid g \<longrightarrow> gd_token g \<noteq> None \<or> gd_released g) \<and>
     (\<forall>t. t \<in> set (gd_releases g) \<longrightarrow> \<not> owns g t) \<and>
     (case gd_call g of
        Asked_acquire h \<Rightarrow> gd_token g = None
      | Got_token t u \<Rightarrow> gd_token g = None
      | Asked_renew t \<Rightarrow> gd_token g = Some t \<or> gd_token g = None \<and> gd_released g
      | Renewed t u \<Rightarrow> gd_token g = Some t \<or> gd_token g = None \<and> gd_released g
      | _ \<Rightarrow> True)"

definition backed :: "string \<Rightarrow> redis \<Rightarrow> int \<Rightarrow> guard \<Rightarrow> bool" where
  "backed runner r now g \<longleftrightarrow>
     (\<forall>t u. claims g t u \<longrightarrow> now \<le> u \<longrightarrow> (\<exists>e. r (lease_key runner) = Some (RStr t, Some e) \<and> u \<le> e))"

definition known_tokens :: "string \<Rightarrow> redis \<Rightarrow> guard \<Rightarrow> bool" where
  "known_tokens runner r g \<longleftrightarrow> (\<forall>t. owns g t \<or> renewing g t \<or> t \<in> set (gd_releases g) \<longrightarrow> issued runner r t)"

definition apart :: "guard \<Rightarrow> guard \<Rightarrow> bool" where
  "apart g h \<longleftrightarrow> (\<forall>t. owns g t \<longrightarrow> \<not> owns h t \<and> \<not> renewing h t \<and> t \<notin> set (gd_releases h))"

definition lease_inv :: "string \<Rightarrow> int \<Rightarrow> cluster \<Rightarrow> bool" where
  "lease_inv runner ttl s \<longleftrightarrow>
     counter_ok runner (cl_redis s) \<and>
     (\<forall>v e. cl_redis s (lease_key runner) = Some (v, Some e) \<longrightarrow> e \<le> cl_now s + ttl) \<and>
     (\<forall>p. guard_ok (cl_guards s p) \<and> backed runner (cl_redis s) (cl_now s) (cl_guards s p) \<and>
        known_tokens runner (cl_redis s) (cl_guards s p)) \<and>
     (\<forall>p q. p \<noteq> q \<longrightarrow> apart (cl_guards s p) (cl_guards s q))"

lemma owner_is_live [simp]:
  "owner_is now runner token r \<longleftrightarrow> live now r (lease_key runner) = Some (RStr token)"
  by (auto simp: owner_is_def split: option.splits rval.splits)

lemma lease_keys_differ: "fencing_key runner \<noteq> lease_key runner"
  by (simp add: fencing_key_def lease_key_def KEY_LEASE_FENCING_SUFFIX_def)

lemma token_fence:
  assumes "lease_token u f = lease_token u' f'" and "0 \<le> f" and "0 \<le> f'"
  shows "f = f'"
proof -
  let ?colon = "\<lambda>c. c \<noteq> CHR '':''"
  have nd: "\<not> is_digit (CHR '':'')" by code_simp
  have suffix: "takeWhile ?colon (rev (lease_token u f)) = rev (nat_to_string (nat f))" if "0 \<le> f" for u f
  proof -
    have "\<forall>c \<in> set (rev (nat_to_string (nat f))). ?colon c" using nat_to_string_digits nd by auto
    then show ?thesis using that by (simp add: lease_token_def show_fence_def takeWhile_tail)
  qed
  have "nat_to_string (nat f) = nat_to_string (nat f')"
    using suffix [OF assms(2), of u] suffix [OF assms(3), of u'] assms(1) by simp
  then have "nat f = nat f'" by (metis nat_of_digits_show)
  with assms(2,3) show ?thesis by simp
qed

lemma acquire_lease_cases:
  assumes "counter_ok runner r"
  obtains "acquire_lease now runner ttl holder r = (Inr None, r)"
  | r' where "live now r (lease_key runner) = None"
      "acquire_lease now runner ttl holder r =
         (Inr (Some (lease_token holder (fence_count runner r + 1))), r')"
      "r' (lease_key runner) = Some (RStr (lease_token holder (fence_count runner r + 1)), Some (now + ttl))"
      "fence_count runner r' = fence_count runner r + 1" "counter_ok runner r'" "0 \<le> fence_count runner r"
proof (cases "live now r (lease_key runner)")
  case (Some v)
  then show thesis by (intro that(1)) (simp add: acquire_lease_def)
next
  case None
  let ?n = "fence_count runner r" and ?t = "lease_token holder (fence_count runner r + 1)"
  let ?r1 = "r_setex now (lease_key runner) (RStr holder) ttl r"
  have n: "0 \<le> ?n" using assms by (auto simp: counter_ok_def fence_count_def)
  have "r_incr now (fencing_key runner) ?r1 = (Inr (?n + 1), ?r1(fencing_key runner \<mapsto> (RInt (?n + 1), None)))"
    using assms lease_keys_differ [of runner]
    by (auto simp: counter_ok_def fence_count_def r_incr_def r_setex_def live_def lifetime_def)
  then have "acquire_lease now runner ttl holder r = (Inr (Some ?t),
      r_setex now (lease_key runner) (RStr ?t) ttl (?r1(fencing_key runner \<mapsto> (RInt (?n + 1), None))))"
    using None by (simp add: acquire_lease_def)
  moreover let ?r3 = "r_setex now (lease_key runner) (RStr ?t) ttl (?r1(fencing_key runner \<mapsto> (RInt (?n + 1), None)))"
  have k: "fencing_key runner \<noteq> lease_key runner" by (rule lease_keys_differ)
  then have f: "?r3 (fencing_key runner) = Some (RInt (?n + 1), None)" by (simp add: r_setex_def)
  then have "fence_count runner ?r3 = ?n + 1" unfolding fence_count_def by simp
  moreover have "counter_ok runner ?r3" using f n by (simp add: counter_ok_def)
  moreover have "?r3 (lease_key runner) = Some (RStr ?t, Some (now + ttl))" by (simp add: r_setex_def)
  ultimately show thesis using that(2) None n by blast
qed

lemma issued_mono: "issued runner r t \<Longrightarrow> fence_count runner r \<le> fence_count runner r' \<Longrightarrow> issued runner r' t"
  by (auto simp: issued_def intro: order_trans)

lemma new_token_not_issued: "0 \<le> fence_count runner r \<Longrightarrow> \<not> issued runner r (lease_token u (fence_count runner r + 1))"
  using token_fence [of u "fence_count runner r + 1"] by (fastforce simp: issued_def)

lemma lease_inv_facts:
  assumes "lease_inv runner ttl s"
  shows "counter_ok runner (cl_redis s)"
    and "cl_redis s (lease_key runner) = Some (v, Some e) \<Longrightarrow> e \<le> cl_now s + ttl"
    and "guard_ok (cl_guards s p)"
    and "backed runner (cl_redis s) (cl_now s) (cl_guards s p)"
    and "known_tokens runner (cl_redis s) (cl_guards s p)"
    and "p \<noteq> q \<Longrightarrow> apart (cl_guards s p) (cl_guards s q)"
  using assms unfolding lease_inv_def by blast+

lemma claims_owns: "claims g t u \<Longrightarrow> owns g t"
  by (auto simp: claims_def owns_def)

lemma timely_live:
  assumes "lease_inv runner ttl s" and "claims (cl_guards s p) t u" and "cl_now s \<le> u"
  shows "live (cl_now s) (cl_redis s) (lease_key runner) = Some (RStr t)"
  using lease_inv_facts(4) [OF assms(1), of p] assms(2,3) by (fastforce simp: backed_def live_def)

lemma nobody_timely:
  assumes "lease_inv runner ttl s" and "live (cl_now s) (cl_redis s) (lease_key runner) = None"
  shows "claims (cl_guards s q) t u \<Longrightarrow> \<not> cl_now s \<le> u"
  using timely_live [OF assms(1)] assms(2) by fastforce

text \<open>The one place a guard changes while the lock does: nobody else can be timely.\<close>

lemma lease_inv_change:
  assumes inv: "lease_inv runner ttl s"
    and counter: "counter_ok runner r'" "fence_count runner (cl_redis s) \<le> fence_count runner r'"
    and own: "guard_ok g" "backed runner r' (cl_now s) g" "known_tokens runner r' g"
    and apart: "\<And>q. q \<noteq> p \<Longrightarrow> apart g (cl_guards s q) \<and> apart (cl_guards s q) g"
    and lock: "r' (lease_key runner) = cl_redis s (lease_key runner) \<or>
        (\<forall>v e. r' (lease_key runner) = Some (v, Some e) \<longrightarrow> e \<le> cl_now s + ttl) \<and>
        (\<forall>q t u. q \<noteq> p \<and> claims (cl_guards s q) t u \<longrightarrow> \<not> cl_now s \<le> u)"
  shows "lease_inv runner ttl (s\<lparr>cl_redis := r', cl_guards := (cl_guards s)(p := g)\<rparr>)"
proof -
  let ?s = "s\<lparr>cl_redis := r', cl_guards := (cl_guards s)(p := g)\<rparr>"
  have g: "guard_ok (cl_guards ?s q)" for q using own(1) lease_inv_facts(3) [OF inv, of q] by simp
  have b: "backed runner r' (cl_now s) (cl_guards ?s q)" for q
  proof (cases "q = p")
    case False
    then show ?thesis using lock lease_inv_facts(4) [OF inv, of q] by (auto simp: backed_def)
  qed (use own(2) in simp)
  have k: "known_tokens runner r' (cl_guards ?s q)" for q
  proof (cases "q = p")
    case False
    then show ?thesis using lease_inv_facts(5) [OF inv, of q] issued_mono [OF _ counter(2)] by (auto simp: known_tokens_def)
  qed (use own(3) in simp)
  have a: "apart (cl_guards ?s q) (cl_guards ?s q')" if "q \<noteq> q'" for q q'
    using that apart lease_inv_facts(6) [OF inv, of q q'] by (cases "q = p"; cases "q' = p") simp_all
  have e: "e \<le> cl_now s + ttl" if "r' (lease_key runner) = Some (v, Some e)" for v e
    using that lock lease_inv_facts(2) [OF inv, of v e] by auto
  show ?thesis unfolding lease_inv_def using counter(1) g b k a e by simp
qed

text \<open>A step of a process that does not touch Redis gives no guard anything that it had not.\<close>

lemma lease_inv_guard:
  assumes inv: "lease_inv runner ttl s" and ok: "guard_ok g"
    and "\<And>t. owns g t \<Longrightarrow> owns (cl_guards s p) t"
    and "\<And>t. renewing g t \<Longrightarrow> renewing (cl_guards s p) t \<or> owns (cl_guards s p) t"
    and "\<And>t. t \<in> set (gd_releases g) \<Longrightarrow> t \<in> set (gd_releases (cl_guards s p)) \<or> owns (cl_guards s p) t"
    and "\<And>t u. claims g t u \<Longrightarrow> claims (cl_guards s p) t u"
  shows "lease_inv runner ttl (s\<lparr>cl_redis := cl_redis s, cl_guards := (cl_guards s)(p := g)\<rparr>)"
proof (rule lease_inv_change [OF inv lease_inv_facts(1) [OF inv] order_refl ok])
  show "backed runner (cl_redis s) (cl_now s) g" using lease_inv_facts(4) [OF inv, of p] assms(6) by (simp add: backed_def)
  show "known_tokens runner (cl_redis s) g"
    using lease_inv_facts(5) [OF inv, of p] assms(3-5) unfolding known_tokens_def by blast
  show "apart g (cl_guards s q) \<and> apart (cl_guards s q) g" if "q \<noteq> p" for q
    using lease_inv_facts(6) [OF inv that] lease_inv_facts(6) [OF inv that [symmetric]] assms(3-5) unfolding apart_def by blast
qed simp

lemmas guard_defs = owns_def renewing_def claims_def guard_ok_def

lemma begin_inv: "lease_inv runner ttl s \<Longrightarrow> lease_inv runner ttl (with_guard p (\<lambda>g r. (begin_attempt holder g, r)) s)"
  unfolding with_guard_def prod.case
  using lease_inv_facts(3) [of runner ttl s p]
  by (intro lease_inv_guard) (auto simp: begin_attempt_def guard_defs split: option.splits lease_call.splits if_splits)

lemma resume_inv: "lease_inv runner ttl s \<Longrightarrow> lease_inv runner ttl (with_guard p (\<lambda>g r. (resume_attempt holder g, r)) s)"
  unfolding with_guard_def prod.case
  using lease_inv_facts(3) [of runner ttl s p]
  by (intro lease_inv_guard) (auto simp: resume_attempt_def guard_defs split: lease_call.splits)

lemma release_inv: "lease_inv runner ttl s \<Longrightarrow> lease_inv runner ttl (with_guard p (\<lambda>g r. (release_guard g, r)) s)"
  unfolding with_guard_def prod.case
  using lease_inv_facts(3) [of runner ttl s p]
  by (intro lease_inv_guard) (auto simp: release_guard_def guard_defs split: option.splits lease_call.splits)

text \<open>A call that ends without effect on Redis, or whose effect nobody relies on.\<close>

lemma call_ends:
  assumes "gd_call (cl_guards s p) = Asked_acquire h \<and> c = No_token \<or> gd_call (cl_guards s p) = Asked_renew t \<and> c = Not_renewed"
    and "guard_ok (cl_guards s p)"
  shows "guard_ok (cl_guards s p\<lparr>gd_call := c\<rparr>)" "owns (cl_guards s p\<lparr>gd_call := c\<rparr>) x = owns (cl_guards s p) x"
    "claims (cl_guards s p\<lparr>gd_call := c\<rparr>) x u = claims (cl_guards s p) x u"
    "\<not> renewing (cl_guards s p\<lparr>gd_call := c\<rparr>) x"
  using assms by (auto simp: guard_defs)

text \<open>The lock rewritten or removed, the counter untouched.\<close>

lemma lock_frame:
  "counter_ok runner (r(lease_key runner := x)) = counter_ok runner r"
  "fence_count runner (r(lease_key runner := x)) = fence_count runner r"
  "issued runner (r(lease_key runner := x)) t = issued runner r t"
  using lease_keys_differ [of runner] by (simp_all add: counter_ok_def fence_count_def issued_def)

lemma acquire_served:
  assumes inv: "lease_inv runner ttl s" and call: "gd_call (cl_guards s p) = Asked_acquire holder"
  shows "lease_inv runner ttl (with_guard p (serve_call net (cl_now s) runner ttl) s)"
proof -
  let ?g = "cl_guards s p"
  note ok = lease_inv_facts(3) [OF inv, of p]
  note ended = call_ends [where c = No_token and h = holder, OF _ ok]
  have idle: "lease_inv runner ttl (s\<lparr>cl_redis := cl_redis s, cl_guards := (cl_guards s)(p := ?g\<lparr>gd_call := No_token\<rparr>)\<rparr>)"
    using ended call by (intro lease_inv_guard [OF inv]) simp_all
  show ?thesis
    using lease_inv_facts(1) [OF inv]
  proof (cases rule: acquire_lease_cases [of runner "cl_redis s" "cl_now s" ttl holder])
    case 1
    then show ?thesis using idle call by (simp add: with_guard_def serve_call_def)
  next
    case (2 r')
    let ?t = "lease_token holder (fence_count runner (cl_redis s) + 1)"
    let ?got = "?g\<lparr>gd_call := Got_token ?t (cl_now s + ttl)\<rparr>"
    have tok: "gd_token ?g = None" using ok call by (simp add: guard_ok_def)
    have fence: "fence_count runner (cl_redis s) \<le> fence_count runner r'" using 2(4) by simp
    have lock: "(\<forall>v e. r' (lease_key runner) = Some (v, Some e) \<longrightarrow> e \<le> cl_now s + ttl) \<and>
        (\<forall>q t u. q \<noteq> p \<and> claims (cl_guards s q) t u \<longrightarrow> \<not> cl_now s \<le> u)"
      using 2(3) nobody_timely [OF inv 2(1)] by auto
    have iss: "issued runner r' ?t"
      unfolding issued_def 2(4) by (rule exI [of _ holder], rule exI [of _ "fence_count runner (cl_redis s) + 1"]) (use 2(6) in simp)
    have unknown: "\<not> owns (cl_guards s q) ?t \<and> \<not> renewing (cl_guards s q) ?t \<and> ?t \<notin> set (gd_releases (cl_guards s q))" for q
      using lease_inv_facts(5) [OF inv, of q] new_token_not_issued [OF 2(6)] unfolding known_tokens_def by blast
    have old: "known_tokens runner r' ?g" using lease_inv_facts(5) [OF inv, of p] issued_mono [OF _ fence] by (auto simp: known_tokens_def)
    have got: "lease_inv runner ttl (s\<lparr>cl_redis := r', cl_guards := (cl_guards s)(p := ?got)\<rparr>)"
    proof (rule lease_inv_change [OF inv 2(5) fence _ _ _ _ disjI2 [OF lock]])
      show "guard_ok ?got" using ok call tok unknown [of p] by (auto simp: guard_ok_def owns_def)
      show "backed runner r' (cl_now s) ?got" using tok 2(3) by (auto simp: backed_def claims_def)
      show "known_tokens runner r' ?got" using old tok iss by (auto simp: known_tokens_def owns_def renewing_def)
      show "apart ?got (cl_guards s q) \<and> apart (cl_guards s q) ?got" if "q \<noteq> p" for q
        using unknown [of q] tok lease_inv_facts(6) [OF inv that] by (auto simp: apart_def owns_def renewing_def)
    qed
    have lost: "lease_inv runner ttl (s\<lparr>cl_redis := r', cl_guards := (cl_guards s)(p := ?g\<lparr>gd_call := No_token\<rparr>)\<rparr>)"
    proof (rule lease_inv_change [OF inv 2(5) fence _ _ _ _ disjI2 [OF lock]])
      show "guard_ok (?g\<lparr>gd_call := No_token\<rparr>)" using ended call by simp
      show "backed runner r' (cl_now s) (?g\<lparr>gd_call := No_token\<rparr>)" using tok by (simp add: backed_def claims_def)
      show "known_tokens runner r' (?g\<lparr>gd_call := No_token\<rparr>)" using old tok by (auto simp: known_tokens_def owns_def renewing_def)
      show "apart (?g\<lparr>gd_call := No_token\<rparr>) (cl_guards s q) \<and> apart (cl_guards s q) (?g\<lparr>gd_call := No_token\<rparr>)" if "q \<noteq> p" for q
        using tok lease_inv_facts(6) [OF inv that] by (auto simp: apart_def owns_def renewing_def)
    qed
    show ?thesis using got lost idle call 2(2) by (cases net) (simp_all add: with_guard_def serve_call_def)
  qed
qed

text \<open>A lock that is extended for its owner serves no other guard, and serves the owner for the new time.\<close>

lemma extended_lock:
  assumes inv: "lease_inv runner ttl s" and mine: "live (cl_now s) (cl_redis s) (lease_key runner) = Some (RStr t)"
    and ren: "renewing (cl_guards s p) t"
  defines "r \<equiv> (cl_redis s)(lease_key runner := Some (RStr t, Some (cl_now s + ttl)))"
  shows "(\<forall>v e. r (lease_key runner) = Some (v, Some e) \<longrightarrow> e \<le> cl_now s + ttl) \<and>
      (\<forall>q t' u. q \<noteq> p \<and> claims (cl_guards s q) t' u \<longrightarrow> \<not> cl_now s \<le> u)"
    and "(\<And>t' u. claims h t' u \<Longrightarrow> claims (cl_guards s p) t' u \<or> t' = t \<and> u = cl_now s + ttl) \<Longrightarrow> backed runner r (cl_now s) h"
proof -
  have other: "\<not> cl_now s \<le> u" if q: "q \<noteq> p" "claims (cl_guards s q) t' u" for q t' u
  proof
    assume "cl_now s \<le> u"
    then have "t' = t" using timely_live [OF inv q(2)] mine by simp
    then show False using claims_owns [OF q(2)] ren lease_inv_facts(6) [OF inv q(1)] unfolding apart_def by blast
  qed
  then show "(\<forall>v e. r (lease_key runner) = Some (v, Some e) \<longrightarrow> e \<le> cl_now s + ttl) \<and>
      (\<forall>q t' u. q \<noteq> p \<and> claims (cl_guards s q) t' u \<longrightarrow> \<not> cl_now s \<le> u)" by (auto simp: r_def)
  assume h: "\<And>t' u. claims h t' u \<Longrightarrow> claims (cl_guards s p) t' u \<or> t' = t \<and> u = cl_now s + ttl"
  have "t' = t \<and> u \<le> cl_now s + ttl" if c: "claims h t' u" "cl_now s \<le> u" for t' u
    using h [OF c(1)]
  proof
    assume own: "claims (cl_guards s p) t' u"
    then have "t' = t" using timely_live [OF inv own c(2)] mine by simp
    moreover have "u \<le> cl_now s + ttl"
      using lease_inv_facts(4) [OF inv, of p] own c(2) lease_inv_facts(2) [OF inv] unfolding backed_def by fastforce
    ultimately show ?thesis by simp
  qed simp
  then show "backed runner r (cl_now s) h" by (simp add: backed_def r_def)
qed

lemma renew_served:
  assumes inv: "lease_inv runner ttl s" and ttl: "0 \<le> ttl" and call: "gd_call (cl_guards s p) = Asked_renew t"
  shows "lease_inv runner ttl (with_guard p (serve_call net (cl_now s) runner ttl) s)"
proof -
  let ?g = "cl_guards s p"
  note ok = lease_inv_facts(3) [OF inv, of p]
  have ended: "guard_ok (?g\<lparr>gd_call := Not_renewed\<rparr>)" "owns (?g\<lparr>gd_call := Not_renewed\<rparr>) x = owns ?g x"
    "claims (?g\<lparr>gd_call := Not_renewed\<rparr>) x u = claims ?g x u" "\<not> renewing (?g\<lparr>gd_call := Not_renewed\<rparr>) x" for x u
    using call_ends [of s p _ Not_renewed t] ok call by simp_all
  have failed: "lease_inv runner ttl (s\<lparr>cl_redis := cl_redis s, cl_guards := (cl_guards s)(p := ?g\<lparr>gd_call := Not_renewed\<rparr>)\<rparr>)"
    using ended by (intro lease_inv_guard [OF inv]) simp_all
  show ?thesis
  proof (cases "net = Lost_request \<or> live (cl_now s) (cl_redis s) (lease_key runner) \<noteq> Some (RStr t)")
    case True
    then show ?thesis using failed call by (cases net) (simp_all add: with_guard_def serve_call_def renew_lease_def)
  next
    case False
    let ?r = "(cl_redis s)(lease_key runner := Some (RStr t, Some (cl_now s + ttl)))"
    have mine: "live (cl_now s) (cl_redis s) (lease_key runner) = Some (RStr t)" using False by simp
    have ren: "renewing ?g t" using call by (simp add: renewing_def)
    note ext = extended_lock [OF inv mine ren]
    have frame: "counter_ok runner ?r" "fence_count runner (cl_redis s) \<le> fence_count runner ?r"
      using lease_inv_facts(1) [OF inv] by (simp_all add: lock_frame)
    have known: "known_tokens runner ?r ?g" using lease_inv_facts(5) [OF inv, of p] by (simp add: known_tokens_def lock_frame)
    have served: "lease_inv runner ttl (s\<lparr>cl_redis := ?r, cl_guards := (cl_guards s)(p := h)\<rparr>)"
      if h: "h = ?g\<lparr>gd_call := Renewed t (cl_now s + ttl)\<rparr> \<or> h = ?g\<lparr>gd_call := Not_renewed\<rparr>" for h
    proof (rule lease_inv_change [OF inv frame _ _ _ _ disjI2 [OF ext(1)]])
      show "guard_ok h" using h ok call by (auto simp: guard_ok_def owns_def)
      show "backed runner ?r (cl_now s) h" using h call by (intro ext(2)) (auto simp: claims_def)
      show "known_tokens runner ?r h" using h known call by (auto simp: known_tokens_def owns_def renewing_def)
      have same: "owns h x = owns ?g x" "renewing h x \<Longrightarrow> renewing ?g x" "gd_releases h = gd_releases ?g" for x
        using h call by (auto simp: owns_def renewing_def)
      show "apart h (cl_guards s q) \<and> apart (cl_guards s q) h" if "q \<noteq> p" for q
        using lease_inv_facts(6) [OF inv that] lease_inv_facts(6) [OF inv that [symmetric]] same(2) unfolding apart_def same(1,3) by blast
    qed
    have "renew_lease (cl_now s) runner t ttl (cl_redis s) = (True, ?r)" using mine by (simp add: renew_lease_def r_setex_def)
    then show ?thesis using False served call by (cases net) (simp_all add: with_guard_def serve_call_def)
  qed
qed

lemma serve_inv:
  assumes "lease_inv runner ttl s" "0 \<le> ttl"
  shows "lease_inv runner ttl (with_guard p (serve_call net (cl_now s) runner ttl) s)"
proof (cases "\<exists>x. gd_call (cl_guards s p) = Asked_acquire x \<or> gd_call (cl_guards s p) = Asked_renew x")
  case True
  then show ?thesis using acquire_served [OF assms(1)] renew_served [OF assms] by blast
next
  case False
  then have "with_guard p (serve_call net (cl_now s) runner ttl) s = s"
    by (auto simp: with_guard_def serve_call_def split: lease_call.split)
  then show ?thesis using assms(1) by simp
qed

lemma release_served:
  assumes inv: "lease_inv runner ttl s"
  shows "lease_inv runner ttl (with_guard p (serve_release net (cl_now s) runner t) s)"
proof (cases "t \<in> set (gd_releases (cl_guards s p))")
  case False
  then have "with_guard p (serve_release net (cl_now s) runner t) s = s" by (simp add: with_guard_def serve_release_def)
  then show ?thesis using inv by simp
next
  case t: True
  let ?g = "cl_guards s p\<lparr>gd_releases := remove1 t (gd_releases (cl_guards s p))\<rparr>"
  have same: "owns ?g x = owns (cl_guards s p) x" "renewing ?g x = renewing (cl_guards s p) x"
    "claims ?g x u = claims (cl_guards s p) x u" for x u
    by (simp_all add: guard_defs)
  have sub: "x \<in> set (gd_releases ?g) \<Longrightarrow> x \<in> set (gd_releases (cl_guards s p))" for x
    using set_remove1_subset [of t "gd_releases (cl_guards s p)"] by auto
  have ok: "guard_ok ?g" using lease_inv_facts(3) [OF inv, of p] sub by (simp add: guard_ok_def owns_def split: lease_call.splits)
  show ?thesis
  proof (cases "net \<noteq> Lost_request \<and> live (cl_now s) (cl_redis s) (lease_key runner) = Some (RStr t)")
    case False
    then have "with_guard p (serve_release net (cl_now s) runner t) s = s\<lparr>cl_redis := cl_redis s, cl_guards := (cl_guards s)(p := ?g)\<rparr>"
      using t by (auto simp: with_guard_def serve_release_def release_lease_def)
    then show ?thesis using lease_inv_guard [OF inv ok] same sub by simp
  next
    case True
    let ?r = "(cl_redis s)(lease_key runner := None)"
    have untimely: "\<not> cl_now s \<le> u" if c: "claims (cl_guards s q) t' u" for q t' u
    proof
      assume "cl_now s \<le> u"
      then have "t' = t" using timely_live [OF inv c] True by simp
      moreover have "\<not> owns (cl_guards s q) t"
        using t lease_inv_facts(3) [OF inv, of p] lease_inv_facts(6) [OF inv, of q p] unfolding guard_ok_def apart_def by blast
      ultimately show False using claims_owns [OF c] by simp
    qed
    have "lease_inv runner ttl (s\<lparr>cl_redis := ?r, cl_guards := (cl_guards s)(p := ?g)\<rparr>)"
    proof (rule lease_inv_change [OF inv _ _ ok])
      show "counter_ok runner ?r" "fence_count runner (cl_redis s) \<le> fence_count runner ?r"
        using lease_inv_facts(1) [OF inv] by (simp_all add: lock_frame)
      show "backed runner ?r (cl_now s) ?g" using untimely unfolding backed_def same by blast
      show "known_tokens runner ?r ?g"
        using lease_inv_facts(5) [OF inv, of p] sub unfolding known_tokens_def same lock_frame by blast
      show "apart ?g (cl_guards s q) \<and> apart (cl_guards s q) ?g" if "q \<noteq> p" for q
        using lease_inv_facts(6) [OF inv that] lease_inv_facts(6) [OF inv that [symmetric]] sub unfolding apart_def same by blast
      show "?r (lease_key runner) = cl_redis s (lease_key runner) \<or>
        (\<forall>v e. ?r (lease_key runner) = Some (v, Some e) \<longrightarrow> e \<le> cl_now s + ttl) \<and>
        (\<forall>q t u. q \<noteq> p \<and> claims (cl_guards s q) t u \<longrightarrow> \<not> cl_now s \<le> u)"
        using untimely by (intro disjI2) auto
    qed
    then show ?thesis using True t by (simp add: with_guard_def serve_release_def release_lease_def r_delete_def)
  qed
qed

lemma sleep_inv: "lease_inv runner ttl s \<Longrightarrow> lease_inv runner ttl (s\<lparr>cl_now := cl_now s + int n\<rparr>)"
  unfolding lease_inv_def backed_def by fastforce

lemma lease_step_inv:
  assumes "0 \<le> ttl" and "lease_inv runner ttl s"
  shows "lease_inv runner ttl (lease_step runner ttl s c)"
  using assms by (cases c) (simp_all add: sleep_inv begin_inv serve_inv resume_inv release_inv release_served)

text \<open>A lifetime that is not negative is a parameter of the deployment; \<open>nat\<close> carries it.\<close>

interpretation leases: step_invariant "lease_step runner (int ttl)" "lease_inv runner (int ttl)" for runner ttl
  by unfold_locales (simp add: lease_step_inv)

lemma cluster_start_inv: "lease_inv runner ttl (cluster_start now)"
  by (simp add: lease_inv_def cluster_start_def counter_ok_def fresh_guard_def guard_defs backed_def known_tokens_def apart_def)

text \<open>Only a signal marks a guard as released.\<close>

lemma released_step:
  "gd_released (cl_guards (lease_step runner ttl s c) p) \<Longrightarrow> gd_released (cl_guards s p) \<or> c = Sigterm p"
  by (cases c) (auto simp: with_guard_def begin_attempt_def serve_call_def resume_attempt_def release_guard_def serve_release_def
      split: prod.splits option.splits lease_call.splits if_splits sum.splits)

lemma released_run:
  "gd_released (cl_guards (run (lease_step runner ttl) s cs) p) \<Longrightarrow> gd_released (cl_guards s p) \<or> Sigterm p \<in> set cs"
proof (induction cs arbitrary: s)
  case (Cons c cs)
  then show ?case using released_step [of runner ttl s c p] by auto
qed simp

section \<open>Properties\<close>

text \<open>
  C20: the lease has one owner.  In every run of any number of processes, with requests and replies lost, delayed and
  overtaken by releases at will: no two guards ever hold the same token, so at most one of them can renew or release;
  two guards that hold a token, believe that the lease is theirs, and whose last confirmed acquire or renewal is no
  older than the lifetime of the lease, are the same guard; and a guard can only believe so without a token after it
  was signalled to terminate.
\<close>

theorem lease_has_one_owner:
  assumes "s = run (lease_step runner (int ttl)) (cluster_start now) cs"
  shows "(gd_token (cl_guards s p) = Some t \<and> gd_token (cl_guards s q) = Some t \<longrightarrow> p = q) \<and>
         (gd_valid (cl_guards s p) \<and> gd_valid (cl_guards s q) \<and>
          cl_now s \<le> gd_until (cl_guards s p) \<and> cl_now s \<le> gd_until (cl_guards s q) \<and>
          gd_token (cl_guards s p) \<noteq> None \<and> gd_token (cl_guards s q) \<noteq> None \<longrightarrow> p = q) \<and>
         (gd_valid (cl_guards s p) \<and> gd_token (cl_guards s p) = None \<longrightarrow> Sigterm p \<in> set cs)"
proof -
  have inv: "lease_inv runner (int ttl) s"
    unfolding assms by (rule leases.run_keeps) (rule cluster_start_inv)
  have same: "p = q" if "gd_token (cl_guards s p) = Some x" "gd_token (cl_guards s q) = Some x" for x
    using that lease_inv_facts(6) [OF inv, of p q] unfolding apart_def owns_def by blast
  have "p = q" if v: "cl_now s \<le> gd_until (cl_guards s p)" "cl_now s \<le> gd_until (cl_guards s q)"
    "gd_token (cl_guards s p) \<noteq> None" "gd_token (cl_guards s q) \<noteq> None"
  proof -
    obtain x y where x: "gd_token (cl_guards s p) = Some x" "gd_token (cl_guards s q) = Some y" using v(3,4) by blast
    have "claims (cl_guards s p) x (gd_until (cl_guards s p))" "claims (cl_guards s q) y (gd_until (cl_guards s q))"
      using x by (simp_all add: claims_def)
    then have "y = x" using timely_live [OF inv _ v(1)] timely_live [OF inv _ v(2)] by fastforce
    with x same show ?thesis by blast
  qed
  moreover have "Sigterm p \<in> set cs" if "gd_valid (cl_guards s p)" "gd_token (cl_guards s p) = None"
  proof -
    have "gd_released (cl_guards s p)" using that lease_inv_facts(3) [OF inv, of p] by (simp add: guard_ok_def)
    then show ?thesis using released_run unfolding assms by (fastforce simp: cluster_start_def fresh_guard_def)
  qed
  ultimately show ?thesis using same by blast
qed

text \<open>The acquisition of one process from beginning to end.\<close>

definition acquires :: "nat \<Rightarrow> string \<Rightarrow> lease_cmd list" where
  "acquires p holder = [Begin p holder, Serve p Reply, Resume p holder]"

definition renewal_run :: "lease_cmd list" where
  "renewal_run = acquires 0 ''a'' @ acquires 1 ''b'' @ [Sleep 300] @ acquires 0 ''c''"

theorem lease_has_one_owner_witness:
  "gd_valid (cl_guards (run (lease_step ''oracle'' (int 900)) (cluster_start 0) renewal_run) 0) \<and>
   gd_token (cl_guards (run (lease_step ''oracle'' (int 900)) (cluster_start 0) renewal_run) 0) = Some ''a:1'' \<and>
   \<not> gd_valid (cl_guards (run (lease_step ''oracle'' (int 900)) (cluster_start 0) renewal_run) 1)"
proof -
  let ?s = "run (lease_step ''oracle'' (int 900)) (cluster_start 0) renewal_run"
  have "gd_valid (cl_guards ?s 0)" "gd_token (cl_guards ?s 0) = Some ''a:1''" "cl_now ?s \<le> gd_until (cl_guards ?s 0)" by code_simp+
  moreover have "gd_valid (cl_guards ?s 1) \<longrightarrow> cl_now ?s \<le> gd_until (cl_guards ?s 1) \<and> gd_token (cl_guards ?s 1) \<noteq> None" by code_simp
  ultimately show ?thesis
    using lease_has_one_owner [OF refl, of "''oracle''" 900 0 renewal_run 0 _ 1] by auto
qed

text \<open>
  A release that overtakes a renewal is undone.  The signal clears the token and the flag while the renewal is under way;
  Redis has served the renewal before it serves the release, and the coroutine goes on with the success, sets the flag
  again and never clears it, since a guard without a token only tries to acquire.  Another process acquires the free
  lease, and both guards are valid, both within the lifetime of their last confirmation.
\<close>

definition overtaken_run :: "lease_cmd list" where
  "overtaken_run =
     acquires 0 ''a'' @ [Sleep 300, Begin 0 ''c'', Serve 0 Reply, Sigterm 0, Serve_release 0 Reply ''a:1'', Resume 0 ''c''] @
     acquires 1 ''b'' @ acquires 0 ''d''"

theorem released_guard_valid_again:
  "list_all (\<lambda>p. gd_valid (cl_guards (run (lease_step ''agent'' (int 900)) (cluster_start 0) overtaken_run) p) \<and>
      cl_now (run (lease_step ''agent'' (int 900)) (cluster_start 0) overtaken_run)
        \<le> gd_until (cl_guards (run (lease_step ''agent'' (int 900)) (cluster_start 0) overtaken_run) p)) [0, 1]"
  by code_simp

text \<open>
  \<open>is_valid\<close> can outlive the lease.  A guard whose renewal loop is late (a blocked event loop, a
  suspended process) keeps saying that it holds the lease after it has run out in Redis and another
  process has acquired it: both guards are valid at once, because the flag is cleared only by the
  next renewal attempt and never by the clock.
\<close>

theorem two_valid_guards:
  "\<exists>cs p q. p \<noteq> q \<and> \<not> list_ex (\<lambda>c. c = Sigterm p \<or> c = Sigterm q) cs \<and>
     gd_valid (cl_guards (run (lease_step ''agent'' (int 900)) (cluster_start 0) cs) p) \<and>
     gd_valid (cl_guards (run (lease_step ''agent'' (int 900)) (cluster_start 0) cs) q)"
proof -
  let ?cs = "acquires 0 ''a'' @ [Sleep 901] @ acquires 1 ''b''"
  have "gd_valid (cl_guards (run (lease_step ''agent'' (int 900)) (cluster_start 0) ?cs) 0)"
    "gd_valid (cl_guards (run (lease_step ''agent'' (int 900)) (cluster_start 0) ?cs) 1)" by code_simp+
  then show ?thesis by (intro exI [of _ ?cs] exI [of _ 0] exI [of _ 1]) (simp add: acquires_def)
qed

end
