(* ===== verification/SpendCap.thy ===== *)
theory SpendCap
  imports Redis PyDecimal "HOL-Library.Multiset"
begin

text \<open>
  The rolling spend cap of a subscriber wallet, \<^verbatim>\<open>marketplace/spend_cap.py\<close>: one sorted set per
  wallet, checked and written by one Lua script.  Instants are in milliseconds.  The script adds
  integers in double precision, which is exact below \<open>2 ^ 53\<close> base units (nine thousand million
  USDC); the model adds integers.

  \<open>reservations\<close> is the abstract specification: the list of the reservations that are charged and
  not given back.  The properties say that the sorted set refines it and that no window of 24 hours
  ever holds the cap.
\<close>

section \<open>Configuration and keys\<close>

definition SPEND_PREFIX :: string where
  "SPEND_PREFIX = ''archimedes:market:spend:''"

definition WINDOW :: int where
  "WINDOW = 24 * 60 * 60 * 1000"

definition KEY_TTL :: int where
  "KEY_TTL = WINDOW + 3600 * 1000"

definition DEFAULT_CAP_USDC :: dec where
  "DEFAULT_CAP_USDC = Fin False 50 0"

definition spend_cap_usdc :: "environ \<Rightarrow> dec" where
  "spend_cap_usdc env =
     (case dec_of_string (getenv env ''MARKETPLACE_SPEND_CAP_USDC'' ''50'') of
        Some (Fin s c x) \<Rightarrow> if s \<and> 0 < c then DEFAULT_CAP_USDC else Fin s c x
      | _ \<Rightarrow> DEFAULT_CAP_USDC)"

definition spend_key :: "string \<Rightarrow> string" where
  "spend_key wallet = SPEND_PREFIX @ py_lower wallet"

definition member :: "string \<Rightarrow> nat \<Rightarrow> string" where
  "member charge_id amount_raw = charge_id @ '':'' @ nat_to_string amount_raw"

text \<open>\<^verbatim>\<open>tonumber(string.match(m, ".*:(%d+)$"))\<close>: the digits after the last colon.\<close>

definition member_amount :: "string \<Rightarrow> nat option" where
  "member_amount m =
     (let ds = rev (takeWhile (\<lambda>c. c \<noteq> CHR '':'') (rev m))
      in if CHR '':'' \<in> set m \<and> ds \<noteq> [] \<and> list_all is_digit ds then Some (nat_of_digits ds) else None)"

definition spent :: "(string \<times> int) list \<Rightarrow> int" where
  "spent zs = (\<Sum>(m, _) \<leftarrow> zs. case member_amount m of None \<Rightarrow> 0 | Some a \<Rightarrow> int a)"

section \<open>The script and its callers\<close>

definition check_and_reserve ::
    "int \<Rightarrow> string \<Rightarrow> int \<Rightarrow> int \<Rightarrow> int \<Rightarrow> string \<Rightarrow> int \<Rightarrow> bool \<Rightarrow> (redis, bool) op" where
  "check_and_reserve now key window_start cap_raw amount_raw mem ttl do_reserve r =
     (case r_zremrangebyscore now key 0 window_start r of
        (Inl e, r1) \<Rightarrow> (Inl e, r1)
      | (Inr _, r1) \<Rightarrow>
          (case zset_of now key r1 of
             Inl e \<Rightarrow> (Inl e, r1)
           | Inr zs \<Rightarrow>
               (let total = spent zs;
                    projected = (if do_reserve \<and> mem \<in> fst ` set zs then total else total + amount_raw)
                in if cap_raw \<le> projected then (Inr False, r1)
                   else if \<not> do_reserve then (Inr True, r1)
                   else case r_zadd now key now mem r1 of
                          (Inl e, r2) \<Rightarrow> (Inl e, r2)
                        | (Inr _, r2) \<Rightarrow> (Inr True, r_expire now key ttl r2))))"

definition cap_raw :: "environ \<Rightarrow> int res" where
  "cap_raw env = (case dec_scale 6 (spend_cap_usdc env) of Inl e \<Rightarrow> Inl e | Inr v \<Rightarrow> dec_int v)"

definition atomic_check ::
    "reply \<Rightarrow> environ \<Rightarrow> int \<Rightarrow> string \<Rightarrow> int \<Rightarrow> string option \<Rightarrow> redis \<Rightarrow> bool \<times> redis" where
  "atomic_check net env now wallet amount_raw charge_id r =
     (if dec_not_pos (spend_cap_usdc env) = Inr True then (True, r)
      else if net = Lost_request then (True, r)
      else case cap_raw env of
        Inl _ \<Rightarrow> (True, r)
      | Inr cap \<Rightarrow>
          (case check_and_reserve now (spend_key wallet) (now - WINDOW) cap amount_raw
                  (case charge_id of None \<Rightarrow> [] | Some c \<Rightarrow> member c (nat amount_raw)) KEY_TTL
                  (charge_id \<noteq> None) r of
             (Inl _, r') \<Rightarrow> (True, r')
           | (Inr b, r') \<Rightarrow> (net = Lost_reply \<or> b, r')))"

definition try_reserve_usdc ::
    "reply \<Rightarrow> environ \<Rightarrow> int \<Rightarrow> string \<Rightarrow> int \<Rightarrow> string \<Rightarrow> redis \<Rightarrow> bool \<times> redis" where
  "try_reserve_usdc net env now wallet amount_raw charge_id r =
     (if amount_raw \<le> 0 then (True, r)
      else atomic_check net env now wallet amount_raw (Some charge_id) r)"

definition release_reservation :: "reply \<Rightarrow> int \<Rightarrow> string \<Rightarrow> string \<Rightarrow> int \<Rightarrow> redis \<Rightarrow> redis" where
  "release_reservation net now wallet charge_id amount_raw r =
     (if amount_raw \<le> 0 \<or> net = Lost_request then r
      else snd (r_zrem now (spend_key wallet) (member charge_id (nat amount_raw)) r))"

definition is_over_cap :: "reply \<Rightarrow> environ \<Rightarrow> int \<Rightarrow> string \<Rightarrow> int \<Rightarrow> redis \<Rightarrow> bool \<times> redis" where
  "is_over_cap net env now wallet additional_amount_raw r =
     (case atomic_check net env now wallet additional_amount_raw None r of
        (allowed, r') \<Rightarrow> (\<not> allowed, r'))"

section \<open>The specification\<close>

text \<open>
  A history is the reservations of a wallet that were granted and not released, each with its
  instant; nothing is ever forgotten because of its age.
\<close>

type_synonym history = "(string \<times> int) list"

datatype spend_op =
    Reserve int string int string
  | Release int string string int
  | Query int string int

fun op_time :: "spend_op \<Rightarrow> int" where
  "op_time (Reserve now _ _ _) = now"
| "op_time (Release now _ _ _) = now"
| "op_time (Query now _ _) = now"

definition recent :: "int \<Rightarrow> history \<Rightarrow> history" where
  "recent now h = filter (\<lambda>(_, s). now - WINDOW < s) h"

definition within :: "int \<Rightarrow> history \<Rightarrow> history" where
  "within t h = filter (\<lambda>(_, s). t - WINDOW < s \<and> s \<le> t) h"

definition add_reservation :: "int \<Rightarrow> string \<Rightarrow> history \<Rightarrow> history" where
  "add_reservation now m h = filter (\<lambda>(m', s). \<not> (m' = m \<and> now - WINDOW < s)) h @ [(m, now)]"

definition fits :: "int \<Rightarrow> int \<Rightarrow> int \<Rightarrow> string \<Rightarrow> history \<Rightarrow> bool" where
  "fits cap now amount m h \<longleftrightarrow>
     spent (recent now h) + (if m \<in> fst ` set (recent now h) then 0 else amount) < cap"

record reservations =
  rv_clock :: int
  rv_history :: "string \<Rightarrow> history"

text \<open>The answer of the specification, and what it remembers.  \<open>True\<close> is: granted, released, over.\<close>

fun spec_step :: "int \<Rightarrow> reservations \<Rightarrow> spend_op \<Rightarrow> bool \<times> reservations" where
  "spec_step cap v (Reserve now wallet amount c) =
     (let k = spend_key wallet; h = rv_history v k; m = member c (nat amount); v' = v\<lparr>rv_clock := now\<rparr>
      in if amount \<le> 0 then (True, v')
         else if fits cap now amount m h
              then (True, v'\<lparr>rv_history := (rv_history v)(k := add_reservation now m h)\<rparr>)
              else (False, v'))"
| "spec_step cap v (Release now wallet c amount) =
     (let k = spend_key wallet; m = member c (nat amount); v' = v\<lparr>rv_clock := now\<rparr>
      in (True, if amount \<le> 0 then v'
                else v'\<lparr>rv_history := (rv_history v)(k := filter (\<lambda>(m', _). m' \<noteq> m) (rv_history v k))\<rparr>))"
| "spec_step cap v (Query now wallet amount) =
     (cap \<le> spent (recent now (rv_history v (spend_key wallet))) + amount, v\<lparr>rv_clock := now\<rparr>)"

text \<open>The same commands on the code, while Redis answers.\<close>

fun spend_step :: "environ \<Rightarrow> redis \<Rightarrow> spend_op \<Rightarrow> bool \<times> redis" where
  "spend_step env r (Reserve now wallet amount c) = try_reserve_usdc Reply env now wallet amount c r"
| "spend_step env r (Release now wallet c amount) =
     (True, release_reservation Reply now wallet c amount r)"
| "spend_step env r (Query now wallet amount) = is_over_cap Reply env now wallet amount r"

definition in_order :: "reservations \<Rightarrow> spend_op \<Rightarrow> bool" where
  "in_order v c \<longleftrightarrow> rv_clock v \<le> op_time c"

definition no_reservations :: reservations where
  "no_reservations = \<lparr>rv_clock = 0, rv_history = (\<lambda>_. [])\<rparr>"

text \<open>
  The sorted set of a wallet holds the part of its history that is newer than some cut, which is
  older than any window that is still to come; it expires after its newest entry has left the window.
\<close>

definition stored :: "int \<Rightarrow> history \<Rightarrow> (rval \<times> int option) option \<Rightarrow> bool" where
  "stored clock h x \<longleftrightarrow>
     (\<forall>(_, s) \<in> set h. 0 \<le> s \<and> s \<le> clock) \<and>
     (\<exists>cut \<le> clock - WINDOW. case x of
        None \<Rightarrow> filter (\<lambda>(_, s). cut < s) h = []
      | Some (RZset zs, Some e) \<Rightarrow>
          distinct (map fst zs) \<and> mset zs = mset (filter (\<lambda>(_, s). cut < s) h) \<and>
          (\<forall>(_, s) \<in> set zs. s + KEY_TTL \<le> e)
      | _ \<Rightarrow> False)"

definition spend_rel :: "redis \<Rightarrow> reservations \<Rightarrow> bool" where
  "spend_rel r v \<longleftrightarrow> 0 \<le> rv_clock v \<and>
     (\<forall>w. stored (rv_clock v) (rv_history v (spend_key w)) (r (spend_key w)))"

section \<open>Lemmas\<close>

lemma spent_mset: "mset zs = mset zs' \<Longrightarrow> spent zs = spent zs'"
proof -
  assume a: "mset zs = mset zs'"
  let ?f = "\<lambda>(m, _). case member_amount m of None \<Rightarrow> 0 | Some a \<Rightarrow> int a"
  have "spent ys = sum_mset (image_mset ?f (mset ys))" for ys :: history
    by (simp add: spent_def sum_mset_sum_list flip: mset_map)
  with a show ?thesis by simp
qed

lemma member_inverse [simp]: "member_amount (member c a) = Some a"
proof -
  have nd: "\<not> is_digit (CHR '':'')" by code_simp
  have "takeWhile (\<lambda>x. x \<noteq> CHR '':'') (rev (member c a)) = rev (nat_to_string a)"
  proof -
    have "x \<in> set (rev (nat_to_string a)) \<Longrightarrow> x \<noteq> CHR '':''" for x
      using nd nat_to_string_digits by auto
    then have "takeWhile (\<lambda>x. x \<noteq> CHR '':'') (rev (nat_to_string a) @ CHR '':'' # rev c) =
        rev (nat_to_string a)"
      by (subst takeWhile_append2) simp_all
    then show ?thesis by (simp add: member_def)
  qed
  moreover have "list_all is_digit (nat_to_string a)"
    using nat_to_string_digits by (auto simp: list_all_iff)
  ultimately show ?thesis
    by (simp add: member_amount_def member_def nat_of_digits_show)
qed

lemma spent_simps [simp]:
  "spent [] = 0" "spent ((m, s) # zs) = (case member_amount m of None \<Rightarrow> 0 | Some a \<Rightarrow> int a) + spent zs"
  "spent (xs @ ys) = spent xs + spent ys"
  by (simp_all add: spent_def)

lemma spent_filter_le: "spent (filter P zs) \<le> spent zs"
  by (induction zs) (auto split: option.splits)

lemma spent_filter_mono: "(\<And>x. P x \<Longrightarrow> Q x) \<Longrightarrow> spent (filter P zs) \<le> spent (filter Q zs)"
  by (induction zs) (auto split: option.splits)

lemma spent_nonneg: "0 \<le> spent zs"
  using spent_filter_le [of "\<lambda>_. False" zs] by simp

lemma spent_remove:
  "m \<in> fst ` set zs \<Longrightarrow>
     spent (filter (\<lambda>(m', _). m' \<noteq> m) zs) + (case member_amount m of None \<Rightarrow> 0 | Some a \<Rightarrow> int a)
     \<le> spent zs"
proof (induction zs)
  case (Cons z zs)
  show ?case
  proof (cases "fst z = m")
    case True
    then show ?thesis
      using spent_filter_le [of "\<lambda>(m', _). m' \<noteq> m" zs] by (cases z) simp
  next
    case False
    with Cons show ?thesis by (cases z) auto
  qed
qed simp

lemma stored_later: "stored t h x \<Longrightarrow> t \<le> t' \<Longrightarrow> stored t' h x"
  unfolding stored_def
  by (intro conjI; (fastforce)?; elim conjE exE; rename_tac cut; rule_tac x = cut in exI; simp)

text \<open>What the script reads after it has pruned the set: the recent part of the history.\<close>

lemma stored_live:
  assumes st: "stored t h (r k)" and now: "t \<le> now"
  obtains zs where "zset_of now k r = Inr zs" and "distinct (map fst zs)"
    and "mset (filter (\<lambda>(_, s). now - WINDOW < s) zs) = mset (recent now h)"
    and "\<forall>(_, s) \<in> set zs. 0 \<le> s"
    and "zs \<noteq> [] \<longrightarrow> (\<exists>e. lifetime now r k = Some e \<and> now \<le> e \<and> (\<forall>(_, s) \<in> set zs. s + KEY_TTL \<le> e))"
    and "zs \<noteq> [] \<longrightarrow> (\<exists>cut \<le> t - WINDOW. mset zs = mset (filter (\<lambda>(_, s). cut < s) h))"
proof -
  obtain cut where cut: "cut \<le> t - WINDOW" and b: "\<forall>(_, s) \<in> set h. 0 \<le> s \<and> s \<le> t"
    and c: "case r k of
        None \<Rightarrow> filter (\<lambda>(_, s). cut < s) h = []
      | Some (RZset zs, Some e) \<Rightarrow>
          distinct (map fst zs) \<and> mset zs = mset (filter (\<lambda>(_, s). cut < s) h) \<and>
          (\<forall>(_, s) \<in> set zs. s + KEY_TTL \<le> e)
      | _ \<Rightarrow> False"
    using st unfolding stored_def by blast
  have sub: "recent now h = filter (\<lambda>(_, s). now - WINDOW < s) (filter (\<lambda>(_, s). cut < s) h)"
    using cut now unfolding recent_def by (auto intro: filter_cong)
  show ?thesis
  proof (cases "r k")
    case None
    with c sub have "zset_of now k r = Inr []" and "recent now h = []"
      by (simp_all add: zset_of_def live_def)
    then show ?thesis using that by simp
  next
    case (Some x)
    then obtain zs e where x: "r k = Some (RZset zs, Some e)"
      using c by (cases x) (auto split: rval.splits option.splits)
    with c have zs: "distinct (map fst zs)" "mset zs = mset (filter (\<lambda>(_, s). cut < s) h)"
      "\<forall>(_, s) \<in> set zs. s + KEY_TTL \<le> e"
      by simp_all
    have m: "mset (filter (\<lambda>(_, s). now - WINDOW < s) zs) = mset (recent now h)"
      unfolding sub using zs(2) by (simp only: mset_filter)
    have "set zs \<subseteq> set h"
      using zs(2) by (metis filter_is_subset set_mset_mset)
    with b have nn: "\<forall>(_, s) \<in> set zs. 0 \<le> s" by auto
    show ?thesis
    proof (cases "now \<le> e")
      case True
      with x have "zset_of now k r = Inr zs" "lifetime now r k = Some e"
        by (simp_all add: zset_of_def live_def lifetime_def)
      with True zs m nn cut that show ?thesis by blast
    next
      case False
      then have "filter (\<lambda>(_, s). now - WINDOW < s) zs = []"
        using zs(3) by (auto simp: filter_empty_conv KEY_TTL_def)
      with m have "recent now h = []" by simp
      moreover have "zset_of now k r = Inr []"
        using x False by (simp add: zset_of_def live_def)
      ultimately show ?thesis using that by simp
    qed
  qed
qed

lemma prune:
  assumes "stored t h (r k)" and "t \<le> now"
  obtains r1 zs where "r_zremrangebyscore now k 0 (now - WINDOW) r = (Inr (), r1)"
    and "zset_of now k r1 = Inr zs" and "mset zs = mset (recent now h)" and "distinct (map fst zs)"
    and "stored now h (r1 k)" and "\<And>k'. k' \<noteq> k \<Longrightarrow> r1 k' = r k'"
proof -
  obtain zs where z: "zset_of now k r = Inr zs" and d: "distinct (map fst zs)"
    and m: "mset (filter (\<lambda>(_, s). now - WINDOW < s) zs) = mset (recent now h)"
    and nn: "\<forall>(_, s) \<in> set zs. 0 \<le> s"
    and e: "zs \<noteq> [] \<longrightarrow> (\<exists>e. lifetime now r k = Some e \<and> now \<le> e \<and> (\<forall>(_, s) \<in> set zs. s + KEY_TTL \<le> e))"
    by (rule stored_live [of t h r k now, OF assms])
  let ?zs = "filter (\<lambda>(_, s). now - WINDOW < s) zs"
  let ?r = "put_zset now k ?zs r"
  have f: "filter (\<lambda>(_, s). s < 0 \<or> now - WINDOW < s) zs = ?zs"
    using nn by (intro filter_cong) auto
  have b: "\<forall>(_, s) \<in> set h. 0 \<le> s \<and> s \<le> now"
    using assms unfolding stored_def by fastforce
  have d': "distinct (map fst ?zs)" using d by (simp add: distinct_map_filter)
  have "zset_of now k ?r = Inr ?zs"
  proof (cases "?zs = []")
    case False
    then have "zs \<noteq> []" by auto
    then obtain x where "lifetime now r k = Some x" "now \<le> x" using e by blast
    with False show ?thesis by (simp add: zset_of_def live_put_zset)
  qed (simp add: zset_of_def live_put_zset)
  moreover have "stored now h (?r k)"
  proof (cases "?zs = []")
    case True
    then have "recent now h = []" using m by simp
    then show ?thesis using True b
      by (auto simp: stored_def put_zset_def r_delete_def recent_def intro!: exI [of _ "now - WINDOW"])
  next
    case False
    then have "zs \<noteq> []" by auto
    then obtain x where x: "lifetime now r k = Some x" "\<forall>(_, s) \<in> set zs. s + KEY_TTL \<le> x"
      using e by blast
    then have "?r k = Some (RZset ?zs, Some x)" using False by (simp add: put_zset_def)
    moreover have "\<forall>(_, s) \<in> set ?zs. s + KEY_TTL \<le> x" using x(2) by auto
    ultimately show ?thesis using b d' m
      unfolding stored_def recent_def by (intro conjI exI [of _ "now - WINDOW"]) simp_all
  qed
  ultimately show ?thesis
    using z f m d' by (intro that [of ?r ?zs]) (auto simp: r_zremrangebyscore_def put_zset_def r_delete_def)
qed

text \<open>The script answers as the specification does, and writes what the specification remembers.\<close>

lemma script_query:
  assumes "stored t h (r k)" and "t \<le> now"
  obtains r1 where "check_and_reserve now k (now - WINDOW) cap amount m ttl False r =
      (Inr (\<not> cap \<le> spent (recent now h) + amount), r1)"
    and "stored now h (r1 k)" and "\<And>k'. k' \<noteq> k \<Longrightarrow> r1 k' = r k'"
proof -
  obtain r1 zs where p: "r_zremrangebyscore now k 0 (now - WINDOW) r = (Inr (), r1)"
    "zset_of now k r1 = Inr zs" "mset zs = mset (recent now h)" "stored now h (r1 k)"
    "\<And>k'. k' \<noteq> k \<Longrightarrow> r1 k' = r k'"
    using prune [of t h r k now, OF assms] by metis
  then show ?thesis
    using spent_mset [OF p(3)] by (intro that [of r1]) (simp_all add: check_and_reserve_def)
qed

lemma stored_add:
  assumes "mset zs = mset (recent now h)" and "distinct (map fst zs)" and "stored now h x" and "0 \<le> now"
  shows "stored now (add_reservation now m h)
           (Some (RZset (filter (\<lambda>(m', _). m' \<noteq> m) zs @ [(m, now)]), Some (now + KEY_TTL)))"
proof -
  let ?zs = "filter (\<lambda>(m', _). m' \<noteq> m) zs @ [(m, now)]"
  have b: "\<forall>(_, s) \<in> set h. 0 \<le> s \<and> s \<le> now" using assms(3) unfolding stored_def by blast
  have "filter (\<lambda>(_, s). now - WINDOW < s) (filter (\<lambda>(m', s). \<not> (m' = m \<and> now - WINDOW < s)) h) =
      filter (\<lambda>(m', _). m' \<noteq> m) (recent now h)"
    unfolding recent_def by (auto intro: filter_cong)
  then have "filter (\<lambda>(_, s). now - WINDOW < s) (add_reservation now m h) =
      filter (\<lambda>(m', _). m' \<noteq> m) (recent now h) @ [(m, now)]"
    by (simp add: add_reservation_def WINDOW_def)
  then have m: "mset ?zs = mset (filter (\<lambda>(_, s). now - WINDOW < s) (add_reservation now m h))"
    using assms(1) by (simp add: mset_filter)
  have d: "distinct (map fst ?zs)"
    using assms(2) by (auto simp: distinct_map_filter)
  have "\<forall>(_, s) \<in> set zs. s \<le> now"
  proof -
    have "set zs \<subseteq> set h" using assms(1) unfolding recent_def by (metis filter_is_subset set_mset_mset)
    with b show ?thesis by auto
  qed
  then have e: "\<forall>(_, s) \<in> set ?zs. s + KEY_TTL \<le> now + KEY_TTL" by auto
  have "\<forall>(_, s) \<in> set (add_reservation now m h). 0 \<le> s \<and> s \<le> now"
    using b assms(4) by (auto simp: add_reservation_def)
  with m d e show ?thesis
    unfolding stored_def by (intro conjI exI [of _ "now - WINDOW"]) simp_all
qed

lemma script_reserve:
  assumes "stored t h (r k)" and "t \<le> now" and "0 \<le> now"
  obtains r' where "check_and_reserve now k (now - WINDOW) cap amount m KEY_TTL True r =
      (Inr (fits cap now amount m h), r')"
    and "stored now (if fits cap now amount m h then add_reservation now m h else h) (r' k)"
    and "\<And>k'. k' \<noteq> k \<Longrightarrow> r' k' = r k'"
proof -
  obtain r1 zs where p: "r_zremrangebyscore now k 0 (now - WINDOW) r = (Inr (), r1)"
    "zset_of now k r1 = Inr zs" "mset zs = mset (recent now h)" "distinct (map fst zs)"
    "stored now h (r1 k)" and o: "\<And>k'. k' \<noteq> k \<Longrightarrow> r1 k' = r k'"
    using prune [of t h r k now, OF assms(1,2)] by metis
  have mem: "fst ` set zs = fst ` set (recent now h)" using p(3) by (metis set_mset_mset)
  have sp: "spent zs = spent (recent now h)" by (rule spent_mset [OF p(3)])
  let ?zs = "filter (\<lambda>(m', _). m' \<noteq> m) zs @ [(m, now)]"
  define r2 where "r2 = put_zset now k ?zs r1"
  have z: "r_zadd now k now m r1 = (Inr (), r2)" by (simp add: r_zadd_def p(2) r2_def)
  have "live now r2 k = Some (RZset ?zs)"
  proof (cases "lifetime now r1 k")
    case (Some e)
    then have "now \<le> e" by (auto simp: lifetime_def live_def split: option.splits if_splits)
    with Some show ?thesis by (simp add: r2_def live_put_zset)
  qed (simp add: r2_def live_put_zset)
  then have k: "r_expire now k KEY_TTL r2 k = Some (RZset ?zs, Some (now + KEY_TTL))"
    by (simp add: r_expire_def)
  have o2: "r_expire now k KEY_TTL r2 k' = r k'" if "k' \<noteq> k" for k'
    using that o by (simp add: r_expire_def r2_def put_zset_def split: option.splits)
  show ?thesis
  proof (cases "fits cap now amount m h")
    case True
    then have "check_and_reserve now k (now - WINDOW) cap amount m KEY_TTL True r =
        (Inr True, r_expire now k KEY_TTL r2)"
      using p(1,2) mem sp z by (auto simp: check_and_reserve_def fits_def Let_def split: if_splits)
    with True stored_add [OF p(3-5) assms(3), of m] k o2 show ?thesis
      by (intro that [of "r_expire now k KEY_TTL r2"]) simp_all
  next
    case False
    then have "check_and_reserve now k (now - WINDOW) cap amount m KEY_TTL True r = (Inr False, r1)"
      using p(1,2) mem sp by (auto simp: check_and_reserve_def fits_def Let_def split: if_splits)
    with False p(5) o show ?thesis by (intro that [of r1]) simp_all
  qed
qed

lemma script_release:
  assumes "stored t h (r k)" and "t \<le> now"
  shows "stored now (filter (\<lambda>(m', _). m' \<noteq> m) h) (snd (r_zrem now k m r) k)"
    and "k' \<noteq> k \<Longrightarrow> snd (r_zrem now k m r) k' = r k'"
proof -
  obtain zs where z: "zset_of now k r = Inr zs" and d: "distinct (map fst zs)"
    and m: "mset (filter (\<lambda>(_, s). now - WINDOW < s) zs) = mset (recent now h)"
    and e: "zs \<noteq> [] \<longrightarrow> (\<exists>e. lifetime now r k = Some e \<and> now \<le> e \<and> (\<forall>(_, s) \<in> set zs. s + KEY_TTL \<le> e))"
    and c: "zs \<noteq> [] \<longrightarrow> (\<exists>cut \<le> t - WINDOW. mset zs = mset (filter (\<lambda>(_, s). cut < s) h))"
    by (rule stored_live [of t h r k now, OF assms])
  let ?P = "\<lambda>(m', _ :: int). m' \<noteq> m"
  have r': "snd (r_zrem now k m r) = put_zset now k (filter ?P zs) r" by (simp add: r_zrem_def z)
  then show "k' \<noteq> k \<Longrightarrow> snd (r_zrem now k m r) k' = r k'" by (simp add: put_zset_def r_delete_def)
  have b: "\<forall>(_, s) \<in> set (filter ?P h). 0 \<le> s \<and> s \<le> now"
    using assms unfolding stored_def by fastforce
  have swap: "filter (\<lambda>(_, s). cut < s) (filter ?P h) = filter ?P (filter (\<lambda>(_, s). cut < s) h)" for cut
    by (auto intro: filter_cong)
  show "stored now (filter ?P h) (snd (r_zrem now k m r) k)"
  proof (cases "filter ?P zs = []")
    case True
    then have "filter ?P (filter (\<lambda>(_, s). now - WINDOW < s) zs) = []" by (auto simp: filter_empty_conv)
    then have "filter ?P (recent now h) = []" using m by (metis mset_filter mset_zero_iff)
    then have "filter (\<lambda>(_, s). now - WINDOW < s) (filter ?P h) = []" unfolding swap by (simp add: recent_def)
    with True b show ?thesis
      unfolding r' stored_def by (intro conjI exI [of _ "now - WINDOW"]) (simp_all add: put_zset_def r_delete_def)
  next
    case False
    then have ne: "zs \<noteq> []" by auto
    then obtain x where x: "lifetime now r k = Some x" "\<forall>(_, s) \<in> set zs. s + KEY_TTL \<le> x" using e by blast
    from ne obtain cut where cut: "cut \<le> t - WINDOW" "mset zs = mset (filter (\<lambda>(_, s). cut < s) h)"
      using c by blast
    have "mset (filter ?P zs) = mset (filter (\<lambda>(_, s). cut < s) (filter ?P h))"
      unfolding swap using cut(2) by (simp only: mset_filter)
    moreover have "distinct (map fst (filter ?P zs))" using d by (simp add: distinct_map_filter)
    moreover have "\<forall>(_, s) \<in> set (filter ?P zs). s + KEY_TTL \<le> x" using x(2) by auto
    moreover have "cut \<le> now - WINDOW" using cut(1) assms(2) by simp
    moreover have "put_zset now k (filter ?P zs) r k = Some (RZset (filter ?P zs), Some x)"
      using False x(1) by (simp add: put_zset_def)
    ultimately show ?thesis using b
      unfolding r' stored_def by (intro conjI exI [of _ cut]) simp_all
  qed
qed

definition capped :: "environ \<Rightarrow> int \<Rightarrow> bool" where
  "capped env cap \<longleftrightarrow> dec_not_pos (spend_cap_usdc env) = Inr False \<and> cap_raw env = Inr cap"

text \<open>A step that touches one wallet leaves the others as they were.\<close>

lemma spend_rel_update:
  assumes "spend_rel r v" and "rv_clock v \<le> now" and "stored now h (r' (spend_key wallet))"
    and "\<And>k'. k' \<noteq> spend_key wallet \<Longrightarrow> r' k' = r k'"
  shows "spend_rel r' (v\<lparr>rv_clock := now, rv_history := (rv_history v)(spend_key wallet := h)\<rparr>)"
  unfolding spend_rel_def
proof (intro conjI allI)
  show "0 \<le> rv_clock (v\<lparr>rv_clock := now, rv_history := (rv_history v)(spend_key wallet := h)\<rparr>)"
    using assms(1,2) by (simp add: spend_rel_def)
  fix w
  show "stored (rv_clock (v\<lparr>rv_clock := now, rv_history := (rv_history v)(spend_key wallet := h)\<rparr>))
      (rv_history (v\<lparr>rv_clock := now, rv_history := (rv_history v)(spend_key wallet := h)\<rparr>) (spend_key w))
      (r' (spend_key w))"
    using assms by (cases "spend_key w = spend_key wallet") (auto simp: spend_rel_def intro: stored_later)
qed

lemma spend_rel_clock:
  assumes "spend_rel r v" and "rv_clock v \<le> now"
  shows "spend_rel r (v\<lparr>rv_clock := now\<rparr>)"
  using assms by (auto simp: spend_rel_def intro: stored_later)

lemma spend_sim:
  assumes cap: "capped env cap" and rel: "spend_rel r v" and pre: "in_order v c"
  shows "fst (spend_step env r c) = fst (spec_step cap v c) \<and>
         spend_rel (snd (spend_step env r c)) (snd (spec_step cap v c))"
proof -
  let ?now = "op_time c"
  have t: "rv_clock v \<le> ?now" using pre by (simp add: in_order_def)
  have now: "0 \<le> ?now" using rel t by (simp add: spend_rel_def)
  have st: "stored (rv_clock v) (rv_history v (spend_key w)) (r (spend_key w))" for w
    using rel by (simp add: spend_rel_def)
  show ?thesis
  proof (cases c)
    case (Reserve n wallet amount ch)
    let ?k = "spend_key wallet" and ?m = "member ch (nat amount)"
    let ?h = "rv_history v ?k"
    obtain r' where s: "check_and_reserve n ?k (n - WINDOW) cap amount ?m KEY_TTL True r =
        (Inr (fits cap n amount ?m ?h), r')"
      "stored n (if fits cap n amount ?m ?h then add_reservation n ?m ?h else ?h) (r' ?k)"
      "\<And>k'. k' \<noteq> ?k \<Longrightarrow> r' k' = r k'"
      using script_reserve [of "rv_clock v" ?h r ?k n cap amount ?m] st [of wallet] t now Reserve
      by (metis op_time.simps(1))
    have "spend_rel r' (v\<lparr>rv_clock := n, rv_history := (rv_history v)(?k :=
        if fits cap n amount ?m ?h then add_reservation n ?m ?h else ?h)\<rparr>)"
      using rel t s Reserve by (intro spend_rel_update) simp_all
    moreover have "(rv_history v)(?k := ?h) = rv_history v" by simp
    ultimately show ?thesis
      using Reserve cap s(1) rel t spend_rel_clock
      by (auto simp: try_reserve_usdc_def atomic_check_def capped_def Let_def split: if_splits)
  next
    case (Release n wallet ch amount)
    then show ?thesis
      using rel t st [of wallet] spend_rel_clock [OF rel]
        spend_rel_update [OF rel, of n _ "snd (r_zrem n (spend_key wallet) (member ch (nat amount)) r)" wallet]
        script_release [of "rv_clock v" _ r "spend_key wallet" n]
      by (auto simp: release_reservation_def Let_def)
  next
    case (Query n wallet amount)
    let ?k = "spend_key wallet"
    let ?h = "rv_history v ?k"
    obtain r1 where s: "check_and_reserve n ?k (n - WINDOW) cap amount [] KEY_TTL False r =
        (Inr (\<not> cap \<le> spent (recent n ?h) + amount), r1)"
      "stored n ?h (r1 ?k)" "\<And>k'. k' \<noteq> ?k \<Longrightarrow> r1 k' = r k'"
      using script_query [of "rv_clock v" ?h r ?k n cap amount "[]" KEY_TTL] st [of wallet] t Query
      by (metis op_time.simps(3))
    have "spend_rel r1 (v\<lparr>rv_clock := n, rv_history := (rv_history v)(?k := ?h)\<rparr>)"
      using rel t s Query by (intro spend_rel_update) simp_all
    with Query cap s(1) show ?thesis
      by (simp add: is_over_cap_def atomic_check_def capped_def)
  qed
qed

interpretation spend: refinement "spend_step env" "spec_step cap" in_order
  "\<lambda>r v. capped env cap \<and> spend_rel r v" for env cap
  by unfold_locales (use spend_sim in blast)+

section \<open>Properties\<close>

lemma spend_start: "spend_rel Map.empty no_reservations"
  by (auto simp: spend_rel_def no_reservations_def stored_def intro: exI [of _ "- WINDOW"])

text \<open>
  C23: the cap is enforced exactly.  For every sequence of reservations, releases and queries of any
  number of wallets, in the order of the clock and while Redis answers, the code gives the answers of
  the specification, which remembers every granted reservation for ever: pruning, the expiry of the
  key and the encoding of amounts in member names are never observable.
\<close>

theorem spend_cap_refines:
  assumes "capped env cap" and "legal_run (spec_step cap) in_order no_reservations cs"
  shows "fst (answers (spend_step env) Map.empty cs) = fst (answers (spec_step cap) no_reservations cs)"
  using spend.run_refines(1) [of env cap Map.empty no_reservations cs] assms spend_start by blast

definition sample_ops :: "spend_op list" where
  "sample_ops =
     [Reserve 1000 ''0xA'' 30000000 ''c1'', Reserve 2000 ''0xa'' 30000000 ''c2'',
      Release 3000 ''0xA'' ''c1'' 30000000, Reserve 4000 ''0xa'' 30000000 ''c2'', Query 86405000 ''0xA'' 0]"

lemma default_capped: "capped Map.empty 50000000"
  unfolding capped_def by (rule conjI) code_simp+

theorem spend_cap_refines_witness:
  "fst (answers (spend_step Map.empty) Map.empty sample_ops) = [True, False, True, True, False]"
proof -
  have "legal_run (spec_step 50000000) in_order no_reservations sample_ops" by code_simp
  moreover have "fst (answers (spec_step 50000000) no_reservations sample_ops) =
      [True, False, True, True, False]"
    by code_simp
  ultimately show ?thesis using spend_cap_refines [OF default_capped] by simp
qed

text \<open>
  What a wallet is charged for: the reservations that were granted and not released, read off the
  commands and the answers they got.
\<close>

fun charged :: "string \<Rightarrow> (spend_op \<times> bool) list \<Rightarrow> history \<Rightarrow> history" where
  "charged k [] h = h"
| "charged k ((Reserve now w amount c, a) # xs) h =
     charged k xs (if a \<and> 0 < amount \<and> spend_key w = k then add_reservation now (member c (nat amount)) h else h)"
| "charged k ((Release now w c amount, a) # xs) h =
     charged k xs (if 0 < amount \<and> spend_key w = k
                   then filter (\<lambda>(m, _). m \<noteq> member c (nat amount)) h else h)"
| "charged k ((Query now w amount, a) # xs) h = charged k xs h"

lemma charged_spec:
  "charged k (zip cs (fst (answers (spec_step cap) v cs))) (rv_history v k) =
     rv_history (snd (answers (spec_step cap) v cs)) k"
proof (induction cs arbitrary: v)
  case (Cons c cs)
  from Cons [of "snd (spec_step cap v c)"] show ?case
    by (cases c) (auto simp: case_prod_beta Let_def not_le)
qed simp

definition windows_ok :: "int \<Rightarrow> reservations \<Rightarrow> bool" where
  "windows_ok cap v \<longleftrightarrow>
     (\<forall>k t. spent (within t (rv_history v k)) < cap) \<and>
     (\<forall>k. \<forall>(_, s) \<in> set (rv_history v k). s \<le> rv_clock v)"

lemma window_after_add:
  assumes fits: "fits cap now (int a) (member c a) h" and old: "\<forall>t. spent (within t h) < cap"
    and "\<forall>(_, s) \<in> set h. s \<le> now"
  shows "spent (within t (add_reservation now (member c a) h)) < cap"
proof (cases "t - WINDOW < now \<and> now \<le> t")
  case False
  then have "within t (add_reservation now (member c a) h) =
      within t (filter (\<lambda>(m', s). \<not> (m' = member c a \<and> now - WINDOW < s)) h)"
    by (auto simp: within_def add_reservation_def)
  also have "spent \<dots> \<le> spent (within t h)"
    unfolding within_def filter_filter by (rule spent_filter_mono) auto
  also have "\<dots> < cap" using old by blast
  finally show ?thesis .
next
  case True
  have "spent (within t (add_reservation now (member c a) h)) =
      spent (within t (filter (\<lambda>(m', s). \<not> (m' = member c a \<and> now - WINDOW < s)) h)) + int a"
    using True by (simp add: within_def add_reservation_def)
  also have "spent (within t (filter (\<lambda>(m', s). \<not> (m' = member c a \<and> now - WINDOW < s)) h)) \<le>
      spent (filter (\<lambda>(m', _). m' \<noteq> member c a) (recent now h))"
    unfolding within_def recent_def filter_filter using True by (intro spent_filter_mono) auto
  also have "\<dots> + int a < cap"
  proof (cases "member c a \<in> fst ` set (recent now h)")
    case True
    then show ?thesis using spent_remove [OF True] fits by (simp add: fits_def)
  next
    case False
    then show ?thesis
      using spent_filter_le [of "\<lambda>(m', _). m' \<noteq> member c a" "recent now h"] fits
      by (simp add: fits_def)
  qed
  finally show ?thesis by simp
qed

lemma windows_ok_step:
  assumes "windows_ok cap v" and "in_order v c"
  shows "windows_ok cap (snd (spec_step cap v c))"
proof (cases c)
  case (Reserve now w amount ch)
  have t: "rv_clock v \<le> now" using assms(2) Reserve by (simp add: in_order_def)
  have b: "\<forall>k. \<forall>(_, s) \<in> set (rv_history v k). s \<le> now"
    using assms(1) t unfolding windows_ok_def by fastforce
  have "spent (within u (add_reservation now (member ch (nat amount)) (rv_history v (spend_key w)))) < cap"
    if "0 < amount" "fits cap now amount (member ch (nat amount)) (rv_history v (spend_key w))" for u
    using that assms(1) b window_after_add [of cap now "nat amount" ch "rv_history v (spend_key w)" u]
    by (simp add: windows_ok_def)
  moreover have "\<forall>(_, s) \<in> set (add_reservation now m (rv_history v k)). s \<le> now" for m k
    using b by (auto simp: add_reservation_def)
  ultimately show ?thesis
    using assms(1) b Reserve by (simp add: windows_ok_def Let_def)
next
  case (Release now w ch amount)
  have t: "rv_clock v \<le> now" using assms(2) Release by (simp add: in_order_def)
  have b: "\<forall>k. \<forall>(_, s) \<in> set (rv_history v k). s \<le> now"
    using assms(1) t unfolding windows_ok_def by fastforce
  have "spent (within u (filter P (rv_history v k))) < cap" for u P k
    using assms(1) spent_filter_mono [of "\<lambda>x. P x \<and> (case x of (_, s) \<Rightarrow> u - WINDOW < s \<and> s \<le> u)"
        "\<lambda>(_, s). u - WINDOW < s \<and> s \<le> u" "rv_history v k"]
    unfolding windows_ok_def within_def filter_filter by (meson le_less_trans)
  moreover have "\<forall>(_, s) \<in> set (filter P (rv_history v k)). s \<le> now" for P k
    using b by auto
  ultimately show ?thesis
    using assms(1) b Release by (simp add: windows_ok_def Let_def)
next
  case (Query now w amount)
  then have "rv_clock v \<le> now" using assms(2) by (simp add: in_order_def)
  with assms(1) Query show ?thesis unfolding windows_ok_def by fastforce
qed

lemma windows_ok_run:
  "windows_ok cap v \<Longrightarrow> legal_run (spec_step cap) in_order v cs \<Longrightarrow>
     windows_ok cap (snd (answers (spec_step cap) v cs))"
  by (induction cs arbitrary: v) (auto simp: case_prod_beta intro: windows_ok_step)

text \<open>
  C8: as long as Redis answers, no window of 24 hours reaches the cap.  For a positive cap that does not change and any
  sequence of reservations, releases and queries that Redis serves and whose instants do not go back: at every instant
  the amounts granted to a wallet during the 24 hours before
  that instant, less those released, sum to less than the configured cap.  A call that Redis does not answer is granted
  without being counted, and is no part of the sequence.
\<close>

theorem rolling_cap_holds:
  assumes "capped env cap" and "0 < cap" and "legal_run (spec_step cap) in_order no_reservations cs"
  shows "spent (within t (charged k (zip cs (fst (answers (spend_step env) Map.empty cs))) [])) < cap"
proof -
  have "windows_ok cap no_reservations"
    using assms(2) by (simp add: windows_ok_def no_reservations_def within_def)
  then have "windows_ok cap (snd (answers (spec_step cap) no_reservations cs))"
    using assms(3) by (rule windows_ok_run)
  moreover have "fst (answers (spend_step env) Map.empty cs) = fst (answers (spec_step cap) no_reservations cs)"
    using spend.run_refines(1) [of env cap Map.empty no_reservations cs] assms spend_start by blast
  moreover have "rv_history no_reservations k = []" by (simp add: no_reservations_def)
  ultimately show ?thesis
    using charged_spec [of k cs cap no_reservations] by (simp add: windows_ok_def)
qed

theorem rolling_cap_holds_witness:
  "charged (spend_key ''0xA'') (zip sample_ops (fst (answers (spend_step Map.empty) Map.empty sample_ops))) [] \<noteq> [] \<and>
   spent (within 86400000 (charged (spend_key ''0xA'')
     (zip sample_ops (fst (answers (spend_step Map.empty) Map.empty sample_ops))) [])) < 50000000"
proof
  have l: "legal_run (spec_step 50000000) in_order no_reservations sample_ops" by code_simp
  then show "spent (within 86400000 (charged (spend_key ''0xA'')
     (zip sample_ops (fst (answers (spend_step Map.empty) Map.empty sample_ops))) [])) < 50000000"
    by (intro rolling_cap_holds [OF default_capped]) simp_all
  have "fst (answers (spend_step Map.empty) Map.empty sample_ops) =
      fst (answers (spec_step 50000000) no_reservations sample_ops)"
    using spend.run_refines(1) [of Map.empty 50000000] l default_capped spend_start by blast
  moreover have "charged (spend_key ''0xA'')
      (zip sample_ops (fst (answers (spec_step 50000000) no_reservations sample_ops))) [] \<noteq> []"
    by code_simp
  ultimately show "charged (spend_key ''0xA'')
      (zip sample_ops (fst (answers (spend_step Map.empty) Map.empty sample_ops))) [] \<noteq> []"
    by simp
qed

lemma spec_clock:
  "rv_clock (snd (answers (spec_step cap) v cs)) \<in> insert (rv_clock v) (op_time ` set cs)"
proof (induction cs arbitrary: v)
  case (Cons c cs)
  have "rv_clock (snd (spec_step cap v c)) = op_time c"
    by (cases c) (auto simp: Let_def)
  with Cons [of "snd (spec_step cap v c)"] show ?case by (auto simp: case_prod_beta)
qed simp

text \<open>
  A refusal is not for ever.  Whatever the code has served, once 24 hours have passed since the
  last command, a wallet that was at its cap is granted any amount below it.
\<close>

theorem refused_wallet_recovers:
  assumes "capped env cap" and "legal_run (spec_step cap) in_order no_reservations cs"
    and "\<forall>c \<in> set cs. op_time c + WINDOW \<le> now" and "WINDOW \<le> now" and "0 < amount" and "amount < cap"
  shows "fst (try_reserve_usdc Reply env now wallet amount charge_id
                (snd (answers (spend_step env) Map.empty cs)))"
proof -
  let ?r = "snd (answers (spend_step env) Map.empty cs)"
  let ?v = "snd (answers (spec_step cap) no_reservations cs)"
  let ?h = "rv_history ?v (spend_key wallet)"
  have rel: "spend_rel ?r ?v"
    using spend.run_refines(2) [of env cap Map.empty no_reservations cs] assms(1,2) spend_start by blast
  have "rv_clock ?v + WINDOW \<le> now"
    using spec_clock [of cap no_reservations cs] assms(3,4) by (auto simp: no_reservations_def)
  moreover have "\<forall>(_, s) \<in> set ?h. s \<le> rv_clock ?v"
    using rel unfolding spend_rel_def stored_def by fastforce
  ultimately have "recent now ?h = []" and t: "rv_clock ?v \<le> now"
    by (auto simp: recent_def filter_empty_conv WINDOW_def)
  then have "fits cap now amount (member charge_id (nat amount)) ?h"
    using assms(6) by (simp add: fits_def)
  then show ?thesis
    using spend_sim [OF assms(1) rel, of "Reserve now wallet amount charge_id"] t
    by (simp add: in_order_def Let_def)
qed

theorem refused_wallet_recovers_witness:
  "\<not> fst (try_reserve_usdc Reply Map.empty 2000 ''0xA'' 49000000 ''c2''
            (snd (answers (spend_step Map.empty) Map.empty [Reserve 1000 ''0xA'' 49000000 ''c1'']))) \<and>
   fst (try_reserve_usdc Reply Map.empty 90000000 ''0xA'' 49000000 ''c2''
            (snd (answers (spend_step Map.empty) Map.empty [Reserve 1000 ''0xA'' 49000000 ''c1''])))"
proof
  have "fst (answers (spend_step Map.empty) Map.empty
      [Reserve 1000 ''0xA'' 49000000 ''c1'', Reserve 2000 ''0xA'' 49000000 ''c2'']) =
    fst (answers (spec_step 50000000) no_reservations
      [Reserve 1000 ''0xA'' 49000000 ''c1'', Reserve 2000 ''0xA'' 49000000 ''c2''])"
  proof (rule spend.run_refines(1) [of Map.empty 50000000])
    show "legal_run (spec_step 50000000) in_order no_reservations
        [Reserve 1000 ''0xA'' 49000000 ''c1'', Reserve 2000 ''0xA'' 49000000 ''c2'']"
      by code_simp
  qed (simp add: default_capped spend_start)
  also have "\<dots> = [True, False]" by code_simp
  finally show "\<not> fst (try_reserve_usdc Reply Map.empty 2000 ''0xA'' 49000000 ''c2''
      (snd (answers (spend_step Map.empty) Map.empty [Reserve 1000 ''0xA'' 49000000 ''c1''])))"
    by (simp add: case_prod_beta)
  show "fst (try_reserve_usdc Reply Map.empty 90000000 ''0xA'' 49000000 ''c2''
      (snd (answers (spend_step Map.empty) Map.empty [Reserve 1000 ''0xA'' 49000000 ''c1''])))"
    by (rule refused_wallet_recovers [OF default_capped])
      (simp_all add: WINDOW_def in_order_def no_reservations_def)
qed

text \<open>
  How the cap is switched off.  A configured zero is the only value read as no cap, and whatever
  the configured text is, the cap is a finite number that is not negative.  Yet a value too large for the
  arithmetic of the check (here \<open>1e999995\<close>) also grants every amount without reserving it, and so
  does an outage of Redis.
\<close>

theorem spend_cap_configuration:
  "(dec_not_pos (spend_cap_usdc env) = Inr True \<longleftrightarrow>
      (\<exists>s x. dec_of_string (getenv env ''MARKETPLACE_SPEND_CAP_USDC'' ''50'') = Some (Fin s 0 x))) \<and>
   (\<exists>s c x. spend_cap_usdc env = Fin s c x \<and> dec_neg (Fin s c x) = Inr False) \<and>
   try_reserve_usdc net [''MARKETPLACE_SPEND_CAP_USDC'' \<mapsto> ''1e999995''] now wallet amount c r = (True, r) \<and>
   try_reserve_usdc Lost_request env now wallet amount c r = (True, r)"
proof -
  have z: "dec_not_pos (spend_cap_usdc env) = Inr True \<longleftrightarrow>
      (\<exists>s x. dec_of_string (getenv env ''MARKETPLACE_SPEND_CAP_USDC'' ''50'') = Some (Fin s 0 x))"
    by (auto simp: spend_cap_usdc_def DEFAULT_CAP_USDC_def split: option.splits dec.splits)
  have d: "\<exists>s c x. spend_cap_usdc env = Fin s c x \<and> dec_neg (Fin s c x) = Inr False"
    by (auto simp: spend_cap_usdc_def DEFAULT_CAP_USDC_def split: option.splits dec.splits)
  have "cap_raw [''MARKETPLACE_SPEND_CAP_USDC'' \<mapsto> ''1e999995''] = Inl OverflowError"
    by code_simp
  then have "try_reserve_usdc net [''MARKETPLACE_SPEND_CAP_USDC'' \<mapsto> ''1e999995''] now wallet amount c r = (True, r)"
    by (simp add: try_reserve_usdc_def atomic_check_def)
  with z d show ?thesis by (simp add: try_reserve_usdc_def atomic_check_def)
qed

end
