(* ===== verification/Charging.thy ===== *)
theory Charging
  imports Payment SpendCap
begin

text \<open>
  Charging a subscriber for one step of a marketplace tick: \<^verbatim>\<open>marketplace/tick_registry.py\<close>, the
  settlement intents of \<^verbatim>\<open>models/marketplace.py\<close>, \<open>charge\<close> of \<^verbatim>\<open>marketplace/payments.py\<close>, and
  \<open>_claim_settlement_intent\<close>, \<open>_finalize_settlement_intent\<close> and \<open>_charge_one\<close> of
  \<^verbatim>\<open>marketplace/service.py\<close>.

  What the outside does during one charge is the record \<open>charge_io\<close>: the environment at each of the
  reads (the kill switch is read again by \<open>charge\<close>), whether each session succeeds, the rows rivals
  commit between the query and the insert of the claim, what happens to each Redis call, and the
  answers of circlekit.  A cancelled task raises \<open>CancelledError\<close>, which \<^verbatim>\<open>except Exception\<close> does
  not catch; the other exceptions of circlekit are caught.

  The same pieces are the steps of a machine in which any number of attempts, in any number of
  processes, interleave and crash.
\<close>

section \<open>Steps: marketplace/tick\_registry.py\<close>

datatype tick_step =
    LOAD_STRATEGY | EVALUATE_SIGNALS | AGGREGATE_WEIGHTS | ENSEMBLE_CONSENSUS | REGIME_CLASSIFY
  | PERSIST_REGIME | PERSIST_CONSENSUS | THROTTLE_WEIGHTS | WEIGHTS_TO_TARGETS | READ_PORTFOLIO
  | COMPUTE_TRADES | NO_DRIFT_DEDUP | V_CHECK | REBALANCE

fun step_value :: "tick_step \<Rightarrow> string" where
  "step_value LOAD_STRATEGY = ''load_strategy''"
| "step_value EVALUATE_SIGNALS = ''evaluate_signals''"
| "step_value AGGREGATE_WEIGHTS = ''aggregate_weights''"
| "step_value ENSEMBLE_CONSENSUS = ''ensemble_consensus''"
| "step_value REGIME_CLASSIFY = ''regime_classify''"
| "step_value PERSIST_REGIME = ''persist_regime''"
| "step_value PERSIST_CONSENSUS = ''persist_consensus''"
| "step_value THROTTLE_WEIGHTS = ''throttle_weights''"
| "step_value WEIGHTS_TO_TARGETS = ''weights_to_targets''"
| "step_value READ_PORTFOLIO = ''read_portfolio''"
| "step_value COMPUTE_TRADES = ''compute_trades''"
| "step_value NO_DRIFT_DEDUP = ''no_drift_dedup''"
| "step_value V_CHECK = ''v_check''"
| "step_value REBALANCE = ''rebalance''"

definition PIPELINE_STEPS :: "tick_step list" where
  "PIPELINE_STEPS =
     [LOAD_STRATEGY, EVALUATE_SIGNALS, AGGREGATE_WEIGHTS, ENSEMBLE_CONSENSUS, REGIME_CLASSIFY,
      PERSIST_REGIME, PERSIST_CONSENSUS, THROTTLE_WEIGHTS, WEIGHTS_TO_TARGETS, READ_PORTFOLIO,
      COMPUTE_TRADES, NO_DRIFT_DEDUP, V_CHECK]"

section \<open>Settlement intents\<close>

datatype intent_status = Intent_pending | Intent_settled | Intent_failed

record settlement_intent =
  si_strategy_id :: string
  si_tick_id :: string
  si_sub_id :: string
  si_step :: string
  si_status :: intent_status
  si_settled_at :: "int option"

type_synonym charge_key = "string \<times> string \<times> string \<times> string"

definition intent_key :: "settlement_intent \<Rightarrow> charge_key" where
  "intent_key i = (si_strategy_id i, si_tick_id i, si_sub_id i, si_step i)"

definition pending_intent :: "charge_key \<Rightarrow> settlement_intent" where
  "pending_intent key =
     (case key of (strategy, tick, sub, stp) \<Rightarrow>
        \<lparr>si_strategy_id = strategy, si_tick_id = tick, si_sub_id = sub, si_step = stp,
         si_status = Intent_pending, si_settled_at = None\<rparr>)"

definition find_intent :: "charge_key \<Rightarrow> settlement_intent list \<Rightarrow> settlement_intent option" where
  "find_intent key t = find (\<lambda>i. intent_key i = key) t"

text \<open>The commit of the insert, under the unique index.\<close>

definition insert_intent :: "charge_key \<Rightarrow> settlement_intent list \<Rightarrow> settlement_intent list res" where
  "insert_intent key t =
     (if key \<in> intent_key ` set t then Inl IntegrityError else Inr (t @ [pending_intent key]))"

datatype claim_answer = Slot_claimed | Slot_already_settled | Slot_in_flight

definition claim_settlement_intent ::
    "bool \<Rightarrow> settlement_intent list \<Rightarrow> charge_key \<Rightarrow> (settlement_intent list, claim_answer) op" where
  "claim_settlement_intent up rivals key t =
     (if \<not> up then (Inl DatabaseError, t)
      else case find_intent key t of
        Some existing \<Rightarrow>
          (Inr (if si_status existing = Intent_settled then Slot_already_settled else Slot_in_flight), t)
      | None \<Rightarrow>
          (case insert_intent key (t @ rivals) of
             Inl _ \<Rightarrow> (Inr Slot_in_flight, t @ rivals)
           | Inr t' \<Rightarrow> (Inr Slot_claimed, t')))"

definition finalize_settlement_intent ::
    "bool \<Rightarrow> int \<Rightarrow> charge_key \<Rightarrow> bool \<Rightarrow> settlement_intent list \<Rightarrow> settlement_intent list" where
  "finalize_settlement_intent up now key settled t =
     (if \<not> up then t
      else map (\<lambda>i. if intent_key i = key
                    then i\<lparr>si_status := (if settled then Intent_settled else Intent_failed),
                           si_settled_at := (if settled then Some now else si_settled_at i)\<rparr>
                    else i) t)"

section \<open>The payment: marketplace/payments.py\<close>

record charge_io =
  cg_env :: environ
  cg_up :: bool
  cg_rivals :: "settlement_intent list"
  cg_reserve_env :: environ
  cg_reserve_now :: int
  cg_reserve_net :: reply
  cg_charge_env :: environ
  cg_gateway :: gateway
  cg_requirements :: "string \<Rightarrow> string \<Rightarrow> string option res"
  cg_header :: "string \<Rightarrow> string \<Rightarrow> string \<Rightarrow> string res"
  cg_finalize_up :: bool
  cg_finalize_now :: int
  cg_release_now :: int
  cg_release_net :: reply

text \<open>A payment whose value has moved: what it was for, from which wallet to which seller, the price.\<close>

record tick_charge =
  tc_key :: charge_key
  tc_wallet :: string
  tc_seller :: string
  tc_price :: string

text \<open>\<^verbatim>\<open>except Exception: return False\<close>.\<close>

definition unpaid :: "exn \<Rightarrow> bool res" where
  "unpaid e = (if e = CancelledError then Inl CancelledError else Inr False)"

definition charge_path :: "charge_key \<Rightarrow> string" where
  "charge_path key =
     (case key of (strategy, tick, sub, stp) \<Rightarrow>
        ''/charge/'' @ strategy @ ''/'' @ tick @ ''/'' @ sub @ (if stp = [] then [] else ''/'' @ stp))"

definition charge ::
    "charge_io \<Rightarrow> charge_key \<Rightarrow> string \<Rightarrow> string \<Rightarrow> string \<Rightarrow> int \<Rightarrow> int \<Rightarrow> (tick_charge list, bool) op" where
  "charge io key wallet_id wallet_address seller action_count flat_fee_raw ch =
     (let moved = ch @ [\<lparr>tc_key = key, tc_wallet = wallet_address, tc_seller = seller,
                         tc_price = (case fee_to_price action_count flat_fee_raw of Inl _ \<Rightarrow> [] | Inr p \<Rightarrow> p)\<rparr>]
      in if payments_halted (cg_charge_env io) then (Inr False, ch)
         else case get_gateway_middleware (cg_gateway io) seller of
           Inl e \<Rightarrow> (unpaid e, ch)
         | Inr _ \<Rightarrow>
             (case fee_to_price action_count flat_fee_raw of
           Inl e \<Rightarrow> (unpaid e, ch)
         | Inr amount \<Rightarrow>
             if amount = ''$0.000000'' then (Inr True, ch)
             else case cg_requirements io amount (charge_path key) of
               Inl e \<Rightarrow> (unpaid e, ch)
             | Inr None \<Rightarrow> (Inr False, ch)
             | Inr (Some requirements) \<Rightarrow>
            (case cg_header io wallet_id wallet_address requirements of
               Inl e \<Rightarrow> (unpaid e, ch)
             | Inr header \<Rightarrow>
            (case g_verify (cg_gateway io) header amount of
               Verify_raised e \<Rightarrow> (unpaid e, ch)
             | Verify_result False \<Rightarrow> (Inr False, ch)
             | Verify_result True \<Rightarrow>
                 (case g_settle (cg_gateway io) header amount of
                    Settled _ \<Rightarrow> (Inr True, moved)
                  | Settle_raised e was_moved \<Rightarrow> (unpaid e, if was_moved then moved else ch))))))"

section \<open>One charge: service.py\<close>

record subscriber =
  sb_sub_id :: string
  sb_pool_id :: string
  sb_vault_address :: string
  sb_ephemeral_wallet :: string
  sb_subscriber_wallet :: string
  sb_circle_wallet_id :: string

record publisher =
  pb_strategy_id :: string
  pb_pool_id :: string
  pb_vault_address :: string
  pb_creator_wallet :: string
  pb_gateway_seller_address :: string
  pb_agent_wallet_id :: string

record charging =
  cs_redis :: redis
  cs_intents :: "settlement_intent list"
  cs_charges :: "tick_charge list"

record attempt =
  at_key :: charge_key
  at_pub :: publisher
  at_sub :: subscriber
  at_actions :: int
  at_fee :: int

definition logical_charge :: "subscriber \<Rightarrow> string \<Rightarrow> string \<Rightarrow> tick_step \<Rightarrow> charge_key" where
  "logical_charge sub strategy_id tick_id stp = (strategy_id, tick_id, sb_sub_id sub, step_value stp)"

definition charge_id :: "charge_key \<Rightarrow> string" where
  "charge_id key = (case key of (_, tick, sub, stp) \<Rightarrow> tick @ '':'' @ sub @ '':'' @ stp)"

definition pending_raw :: "attempt \<Rightarrow> int" where
  "pending_raw a = at_actions a * at_fee a"

text \<open>The three stages after the claim: reserve, pay, finalize (and release).\<close>

definition reserve_stage :: "charge_io \<Rightarrow> attempt \<Rightarrow> 'z charging_scheme \<Rightarrow> bool \<times> 'z charging_scheme" where
  "reserve_stage io a s =
     (case try_reserve_usdc (cg_reserve_net io) (cg_reserve_env io) (cg_reserve_now io)
             (sb_subscriber_wallet (at_sub a)) (pending_raw a) (charge_id (at_key a)) (cs_redis s) of
        (granted, r) \<Rightarrow> (granted, s\<lparr>cs_redis := r\<rparr>))"

definition pay_stage :: "charge_io \<Rightarrow> attempt \<Rightarrow> ('z charging_scheme, bool) op" where
  "pay_stage io a s =
     (case charge io (at_key a) (sb_circle_wallet_id (at_sub a)) (sb_ephemeral_wallet (at_sub a))
             (pb_gateway_seller_address (at_pub a)) (at_actions a) (at_fee a) (cs_charges s) of
        (res, ch) \<Rightarrow> (res, s\<lparr>cs_charges := ch\<rparr>))"

definition finalize_stage :: "charge_io \<Rightarrow> attempt \<Rightarrow> bool \<Rightarrow> 'z charging_scheme \<Rightarrow> 'z charging_scheme" where
  "finalize_stage io a paid s =
     s\<lparr>cs_intents := finalize_settlement_intent (cg_finalize_up io) (cg_finalize_now io) (at_key a) paid (cs_intents s)\<rparr>"

definition release_stage :: "charge_io \<Rightarrow> attempt \<Rightarrow> 'z charging_scheme \<Rightarrow> 'z charging_scheme" where
  "release_stage io a s =
     s\<lparr>cs_redis := release_reservation (cg_release_net io) (cg_release_now io)
        (sb_subscriber_wallet (at_sub a)) (charge_id (at_key a)) (pending_raw a) (cs_redis s)\<rparr>"

text \<open>The answer is (paid, halt reason override, charge suppressed).\<close>

type_synonym charge_answer = "bool \<times> string option \<times> bool"

definition settle_claimed :: "charge_io \<Rightarrow> attempt \<Rightarrow> ('z charging_scheme, charge_answer) op" where
  "settle_claimed io a s =
     (case reserve_stage io a s of
        (False, s1) \<Rightarrow> (Inr (False, Some ''24h spend cap reached'', False), finalize_stage io a False s1)
      | (True, s1) \<Rightarrow>
          (case pay_stage io a s1 of
             (Inl e, s2) \<Rightarrow> (Inl e, s2)
           | (Inr paid, s2) \<Rightarrow>
               (Inr (paid, None, False),
                if paid then finalize_stage io a True s2
                else release_stage io a (finalize_stage io a False s2))))"

definition charge_one :: "bool \<Rightarrow> charge_io \<Rightarrow> attempt \<Rightarrow> ('z charging_scheme, charge_answer) op" where
  "charge_one dry_run io a s =
     (if dry_run then (Inr (True, None, False), s)
      else if payments_halted (cg_env io) then (Inr (True, None, True), s)
      else if pb_gateway_seller_address (at_pub a) = [] then (Inr (False, None, False), s)
      else if sb_circle_wallet_id (at_sub a) = [] then (Inr (False, None, False), s)
      else case claim_settlement_intent (cg_up io) (cg_rivals io) (at_key a) (cs_intents s) of
        (Inl e, t) \<Rightarrow> (Inl e, s\<lparr>cs_intents := t\<rparr>)
      | (Inr Slot_already_settled, t) \<Rightarrow> (Inr (True, None, False), s\<lparr>cs_intents := t\<rparr>)
      | (Inr Slot_in_flight, t) \<Rightarrow> (Inr (False, None, False), s\<lparr>cs_intents := t\<rparr>)
      | (Inr Slot_claimed, t) \<Rightarrow> settle_claimed io a (s\<lparr>cs_intents := t\<rparr>))"

section \<open>Attempts that interleave and crash\<close>

text \<open>
  An attempt is one call of \<open>_charge_one\<close>, in some process; a retry after a crash is another
  attempt at the same key.  Between any two of its stages any other attempt can move, and at any
  point its process can die.
\<close>

datatype pc =
    Idle
  | Inserting attempt
  | Holding attempt
  | Paying attempt
  | Closing attempt bool bool
  | Releasing attempt
  | Finished
  | Crashed

datatype swarm_cmd =
    Look nat attempt
  | Commit nat
  | Reserve_cap nat charge_io
  | Pay nat charge_io
  | Finalize nat charge_io
  | Give_back nat charge_io
  | Crash nat

record swarm =
  sw_state :: charging
  sw_pc :: "nat \<Rightarrow> pc"

definition goto :: "nat \<Rightarrow> pc \<Rightarrow> charging \<Rightarrow> swarm \<Rightarrow> swarm" where
  "goto p c s w = \<lparr>sw_state = s, sw_pc = (sw_pc w)(p := c)\<rparr>"

fun swarm_step :: "swarm \<Rightarrow> swarm_cmd \<Rightarrow> swarm" where
  "swarm_step w (Look p a) =
     (if sw_pc w p \<noteq> Idle then w
      else goto p (if find_intent (at_key a) (cs_intents (sw_state w)) = None then Inserting a else Finished)
             (sw_state w) w)"
| "swarm_step w (Commit p) =
     (case sw_pc w p of
        Inserting a \<Rightarrow>
          (case insert_intent (at_key a) (cs_intents (sw_state w)) of
             Inl _ \<Rightarrow> goto p Finished (sw_state w) w
           | Inr t \<Rightarrow> goto p (Holding a) ((sw_state w)\<lparr>cs_intents := t\<rparr>) w)
      | _ \<Rightarrow> w)"
| "swarm_step w (Reserve_cap p io) =
     (case sw_pc w p of
        Holding a \<Rightarrow>
          (case reserve_stage io a (sw_state w) of
             (granted, s) \<Rightarrow> goto p (if granted then Paying a else Closing a False False) s w)
      | _ \<Rightarrow> w)"
| "swarm_step w (Pay p io) =
     (case sw_pc w p of
        Paying a \<Rightarrow>
          (case pay_stage io a (sw_state w) of
             (Inl _, s) \<Rightarrow> goto p Crashed s w
           | (Inr paid, s) \<Rightarrow> goto p (Closing a paid (\<not> paid)) s w)
      | _ \<Rightarrow> w)"
| "swarm_step w (Finalize p io) =
     (case sw_pc w p of
        Closing a paid rel \<Rightarrow>
          goto p (if rel then Releasing a else Finished) (finalize_stage io a paid (sw_state w)) w
      | _ \<Rightarrow> w)"
| "swarm_step w (Give_back p io) =
     (case sw_pc w p of
        Releasing a \<Rightarrow> goto p Finished (release_stage io a (sw_state w)) w
      | _ \<Rightarrow> w)"
| "swarm_step w (Crash p) = goto p Crashed (sw_state w) w"

definition swarm_start :: "redis \<Rightarrow> swarm" where
  "swarm_start r = \<lparr>sw_state = \<lparr>cs_redis = r, cs_intents = [], cs_charges = []\<rparr>, sw_pc = (\<lambda>_. Idle)\<rparr>"

text \<open>The stages of one attempt in the order of the code.\<close>

definition attempt_cmds :: "nat \<Rightarrow> charge_io \<Rightarrow> attempt \<Rightarrow> swarm_cmd list" where
  "attempt_cmds p io a = [Look p a, Commit p, Reserve_cap p io, Pay p io, Finalize p io, Give_back p io]"

text \<open>The key an attempt is entitled to charge.\<close>

fun entitled :: "pc \<Rightarrow> charge_key option" where
  "entitled (Holding a) = Some (at_key a)"
| "entitled (Paying a) = Some (at_key a)"
| "entitled _ = None"

definition charges_of :: "charge_key \<Rightarrow> tick_charge list \<Rightarrow> tick_charge list" where
  "charges_of key ch = filter (\<lambda>c. tc_key c = key) ch"

definition key_ok :: "charge_key set \<Rightarrow> tick_charge list \<Rightarrow> (nat \<Rightarrow> pc) \<Rightarrow> charge_key \<Rightarrow> bool" where
  "key_ok claimed ch pcs k \<longleftrightarrow>
     length (charges_of k ch) \<le> 1 \<and>
     (k \<notin> claimed \<longrightarrow> charges_of k ch = []) \<and>
     (\<forall>p. entitled (pcs p) = Some k \<longrightarrow> k \<in> claimed \<and> charges_of k ch = []) \<and>
     (\<forall>p q. entitled (pcs p) = Some k \<longrightarrow> entitled (pcs q) = Some k \<longrightarrow> p = q)"

definition swarm_inv :: "swarm \<Rightarrow> bool" where
  "swarm_inv w \<longleftrightarrow>
     distinct (map intent_key (cs_intents (sw_state w))) \<and>
     (\<forall>k. key_ok (intent_key ` set (cs_intents (sw_state w))) (cs_charges (sw_state w)) (sw_pc w) k)"

section \<open>Lemmas\<close>

lemma pending_key [simp]: "intent_key (pending_intent k) = k"
  by (cases k) (simp add: intent_key_def pending_intent_def)

lemma finalize_keys [simp]:
  "map intent_key (finalize_settlement_intent up now key settled t) = map intent_key t"
  by (auto simp: finalize_settlement_intent_def intent_key_def)

lemma finalize_key_set [simp]:
  "intent_key ` set (finalize_settlement_intent up now key settled t) = intent_key ` set t"
  by (metis finalize_keys set_map)

lemma find_intent_None: "find_intent k t = None \<longleftrightarrow> k \<notin> intent_key ` set t"
  by (auto simp: find_intent_def find_None_iff)

lemma charges_of_simps [simp]:
  "charges_of k [] = []"
  "charges_of k (ch @ [c]) = charges_of k ch @ (if tc_key c = k then [c] else [])"
  by (simp_all add: charges_of_def)

text \<open>A payment moves value at most once, and only for its own key.\<close>

lemma charge_moves:
  "snd (charge io key wid wallet seller n fee ch) = ch \<or>
   (\<exists>c. snd (charge io key wid wallet seller n fee ch) = ch @ [c] \<and> tc_key c = key)"
  by (simp add: charge_def Let_def
      split: sum.split option.split verify_result.split bool.split settle_result.split)

lemma pay_stage_moves:
  assumes "pay_stage io a s = (res, s')"
  shows "cs_intents s' = cs_intents s"
    and "cs_charges s' = cs_charges s \<or> (\<exists>c. cs_charges s' = cs_charges s @ [c] \<and> tc_key c = at_key a)"
  using assms charge_moves [of io "at_key a" "sb_circle_wallet_id (at_sub a)" "sb_ephemeral_wallet (at_sub a)"
      "pb_gateway_seller_address (at_pub a)" "at_actions a" "at_fee a" "cs_charges s"]
  by (auto simp: pay_stage_def split: prod.splits)

lemma stage_frames [simp]:
  "cs_intents (snd (reserve_stage io a s)) = cs_intents s" "cs_charges (snd (reserve_stage io a s)) = cs_charges s"
  "cs_charges (finalize_stage io a paid s) = cs_charges s"
  "cs_intents (release_stage io a s) = cs_intents s" "cs_charges (release_stage io a s) = cs_charges s"
  by (simp_all add: reserve_stage_def finalize_stage_def release_stage_def split: prod.splits)

lemma goto_simps [simp]: "sw_state (goto p c s w) = s" "sw_pc (goto p c s w) = (sw_pc w)(p := c)"
  by (simp_all add: goto_def)

text \<open>A move that changes neither the keys nor the charges and entitles nobody anew.\<close>

lemma key_ok_mono:
  assumes "key_ok T ch pcs k" and "\<And>q. entitled (pcs' q) = Some k \<Longrightarrow> entitled (pcs q) = Some k"
    and "k \<in> T' \<longleftrightarrow> k \<in> T" and "charges_of k ch' = charges_of k ch"
  shows "key_ok T' ch' pcs' k"
  using assms(1) assms(2) unfolding key_ok_def assms(3,4) by meson

text \<open>Nobody but \<open>p\<close> is entitled to \<open>k\<close>, and \<open>p\<close> only while nothing has moved.\<close>

lemma key_ok_single:
  assumes "k \<in> T" and "length (charges_of k ch) \<le> 1" and "\<And>q. q \<noteq> p \<Longrightarrow> entitled (pcs q) \<noteq> Some k"
    and "entitled (pcs p) = Some k \<Longrightarrow> charges_of k ch = []"
  shows "key_ok T ch pcs k"
proof -
  have u: "q = p" if "entitled (pcs q) = Some k" for q using assms(3) that by blast
  have "charges_of k ch = []" if "entitled (pcs q) = Some k" for q using that u [OF that] assms(4) by simp
  with assms(1,2) show ?thesis unfolding key_ok_def by (intro conjI allI impI) (blast dest: u | simp)+
qed

lemma key_ok_quiet:
  assumes "key_ok T ch pcs k" and "entitled c = None \<or> entitled c = entitled (pcs p)"
  shows "key_ok T ch (pcs(p := c)) k"
  by (rule key_ok_mono [OF assms(1)]) (use assms(2) in \<open>auto split: if_splits\<close>)

lemma key_ok_claim:
  assumes "key_ok T ch pcs k" and new: "at_key a \<notin> T"
  shows "key_ok (insert (at_key a) T) ch (pcs(p := Holding a)) k"
proof (cases "at_key a = k")
  case True
  with assms have "charges_of k ch = []" "\<And>q. entitled (pcs q) \<noteq> Some k"
    unfolding key_ok_def by blast+
  with True show ?thesis by (intro key_ok_single [where p = p]) auto
next
  case False
  show ?thesis by (rule key_ok_mono [OF assms(1)]) (use False in \<open>auto split: if_splits\<close>)
qed

lemma key_ok_moved:
  assumes "key_ok T ch pcs k" and "pcs p = Paying a" and "entitled c = None" and "tc_key x = at_key a"
  shows "key_ok T (ch @ [x]) (pcs(p := c)) k"
proof (cases "at_key a = k")
  case True
  then have "entitled (pcs p) = Some k" by (simp add: assms(2))
  with assms(1) have "charges_of k ch = []" and "k \<in> T" and "\<And>q. q \<noteq> p \<Longrightarrow> entitled (pcs q) \<noteq> Some k"
    unfolding key_ok_def by blast+
  with assms(3,4) True show ?thesis by (intro key_ok_single [where p = p]) auto
next
  case False
  show ?thesis
    by (rule key_ok_mono [OF assms(1)]) (use False assms(3,4) in \<open>auto split: if_splits\<close>)
qed

lemma swarm_inv_quiet:
  assumes "swarm_inv w" and "map intent_key (cs_intents s) = map intent_key (cs_intents (sw_state w))"
    and "cs_charges s = cs_charges (sw_state w)"
    and "entitled c = None \<or> entitled c = entitled (sw_pc w p)"
  shows "swarm_inv (goto p c s w)"
proof -
  have "intent_key ` set (cs_intents s) = intent_key ` set (cs_intents (sw_state w))"
    using assms(2) by (metis set_map)
  then show ?thesis
    using assms key_ok_quiet [of _ "cs_charges s" "sw_pc w" _ c p] unfolding swarm_inv_def by simp
qed

lemma swarm_inv_claim:
  assumes "swarm_inv w" and "insert_intent (at_key a) (cs_intents (sw_state w)) = Inr t"
  shows "swarm_inv (goto p (Holding a) ((sw_state w)\<lparr>cs_intents := t\<rparr>) w)"
proof -
  from assms(2) have t: "t = cs_intents (sw_state w) @ [pending_intent (at_key a)]"
    and new: "at_key a \<notin> intent_key ` set (cs_intents (sw_state w))"
    by (auto simp: insert_intent_def split: if_splits)
  show ?thesis
    using assms(1) new key_ok_claim [OF _ new, of "cs_charges (sw_state w)" "sw_pc w" _ p]
    unfolding swarm_inv_def t by simp
qed

lemma swarm_inv_pay:
  assumes "swarm_inv w" and pc: "sw_pc w p = Paying a" and pay: "pay_stage io a (sw_state w) = (res, s)"
    and "entitled c = None"
  shows "swarm_inv (goto p c s w)"
proof -
  note m = pay_stage_moves [OF pay]
  from m(2) show ?thesis
  proof
    assume "cs_charges s = cs_charges (sw_state w)"
    with assms(1,4) m(1) show ?thesis by (intro swarm_inv_quiet) simp_all
  next
    assume "\<exists>c. cs_charges s = cs_charges (sw_state w) @ [c] \<and> tc_key c = at_key a"
    then obtain x where x: "cs_charges s = cs_charges (sw_state w) @ [x]" "tc_key x = at_key a" by blast
    with assms(1,4) m(1) key_ok_moved [of _ "cs_charges (sw_state w)" "sw_pc w" _ p a c x] pc show ?thesis
      unfolding swarm_inv_def by simp
  qed
qed

lemma swarm_inv_step: "swarm_inv w \<Longrightarrow> swarm_inv (swarm_step w c)"
proof (cases c)
  case (Commit p)
  assume "swarm_inv w"
  with Commit show ?thesis
    by (auto split: pc.splits sum.splits intro: swarm_inv_quiet swarm_inv_claim)
next
  case (Pay p io)
  assume "swarm_inv w"
  with Pay show ?thesis
    by (auto split: pc.splits prod.splits sum.splits intro: swarm_inv_pay)
next
  case (Reserve_cap p io)
  assume i: "swarm_inv w"
  have "swarm_inv (goto p (if g then Paying a else Closing a False False) s w)"
    if "sw_pc w p = Holding a" "reserve_stage io a (sw_state w) = (g, s)" for a g s
    using that i stage_frames(1,2) [of io a "sw_state w"] by (intro swarm_inv_quiet) auto
  with i Reserve_cap show ?thesis by (auto split: pc.splits prod.splits)
qed (auto split: pc.splits intro!: swarm_inv_quiet simp: finalize_stage_def)

interpretation swarm: step_invariant swarm_step swarm_inv
  by unfold_locales (rule swarm_inv_step)

lemma swarm_inv_start: "swarm_inv (swarm_start r)"
  by (simp add: swarm_inv_def swarm_start_def key_ok_def)

section \<open>Properties\<close>

lemma swarm_reachable: "swarm_inv (run swarm_step (swarm_start r) cmds)"
  by (rule swarm.run_keeps) (rule swarm_inv_start)

text \<open>
  C2: no logical charge moves value twice.  Whatever attempts are made at whatever keys, however
  their stages interleave, whichever of them crash or lose an answer and are retried: for each
  (strategy, tick, subscriber, step) at most one payment has moved, and only when its intent is on
  record.
\<close>

theorem charged_at_most_once:
  "let s = sw_state (run swarm_step (swarm_start r) cmds)
   in length (charges_of k (cs_charges s)) \<le> (if find_intent k (cs_intents s) = None then 0 else 1)"
proof -
  let ?w = "run swarm_step (swarm_start r) cmds"
  have "key_ok (intent_key ` set (cs_intents (sw_state ?w))) (cs_charges (sw_state ?w)) (sw_pc ?w) k"
    using swarm_reachable [of r cmds] unfolding swarm_inv_def by blast
  then show ?thesis by (simp add: key_ok_def find_intent_None Let_def)
qed

text \<open>
  The machine is the code.  An attempt that is not suppressed and has a seller and a wallet, whose
  stages run one after the other, leaves the state that \<open>_charge_one\<close> leaves; so every interleaving of
  calls of \<open>_charge_one\<close> is a run of the machine.
\<close>

theorem charge_one_is_attempt:
  assumes "sw_pc w p = Idle" and "cg_up io" and "cg_rivals io = []"
    and "\<not> payments_halted (cg_env io)" and "pb_gateway_seller_address (at_pub a) \<noteq> []"
    and "sb_circle_wallet_id (at_sub a) \<noteq> []"
  shows "sw_state (run swarm_step w (attempt_cmds p io a)) = snd (charge_one False io a (sw_state w))"
proof (cases "find_intent (at_key a) (cs_intents (sw_state w))")
  case (Some i)
  then show ?thesis using assms by (simp add: attempt_cmds_def charge_one_def claim_settlement_intent_def)
next
  case None
  let ?t = "cs_intents (sw_state w) @ [pending_intent (at_key a)]"
  let ?s = "(sw_state w)\<lparr>cs_intents := ?t\<rparr>"
  from None have ins: "insert_intent (at_key a) (cs_intents (sw_state w)) = Inr ?t"
    by (simp add: insert_intent_def find_intent_None)
  have claimed: "charge_one False io a (sw_state w) = settle_claimed io a ?s"
    using assms(2-6) None ins by (simp add: charge_one_def claim_settlement_intent_def)
  obtain g s1 where r: "reserve_stage io a ?s = (g, s1)" by fastforce
  obtain q s2 where q: "pay_stage io a s1 = (q, s2)" by fastforce
  show ?thesis
    using assms(1) None ins r q
    by (cases g; cases q) (simp_all add: attempt_cmds_def claimed settle_claimed_def)
qed

text \<open>What a settlement that raises documents: the value has not moved.\<close>

definition settles_or_keeps :: "gateway \<Rightarrow> bool" where
  "settles_or_keeps g \<longleftrightarrow> (\<forall>h p e. g_settle g h p \<noteq> Settle_raised e True)"

definition paid_for :: "attempt \<Rightarrow> tick_charge \<Rightarrow> bool" where
  "paid_for a c \<longleftrightarrow>
     tc_key c = at_key a \<and> tc_wallet c = sb_ephemeral_wallet (at_sub a) \<and>
     tc_seller c = pb_gateway_seller_address (at_pub a) \<and> fee_to_price (at_actions a) (at_fee a) = Inr (tc_price c)"

definition already_settled :: "attempt \<Rightarrow> 'z charging_scheme \<Rightarrow> bool" where
  "already_settled a s \<longleftrightarrow>
     (case find_intent (at_key a) (cs_intents s) of None \<Rightarrow> False | Some i \<Rightarrow> si_status i = Intent_settled)"

lemma pay_stage_truth:
  assumes "settles_or_keeps (cg_gateway io)" and "pay_stage io a s = (Inr paid, s')"
  shows "if paid then (cs_charges s' = cs_charges s \<and> fee_to_price (at_actions a) (at_fee a) = Inr ''$0.000000'') \<or>
                      (\<exists>c. cs_charges s' = cs_charges s @ [c] \<and> paid_for a c)
         else cs_charges s' = cs_charges s"
proof -
  have "fst (charge io (at_key a) wid (sb_ephemeral_wallet (at_sub a)) (pb_gateway_seller_address (at_pub a))
               (at_actions a) (at_fee a) ch) = Inr paid \<Longrightarrow>
        (let ch' = snd (charge io (at_key a) wid (sb_ephemeral_wallet (at_sub a))
                          (pb_gateway_seller_address (at_pub a)) (at_actions a) (at_fee a) ch)
         in if paid then (ch' = ch \<and> fee_to_price (at_actions a) (at_fee a) = Inr ''$0.000000'') \<or>
                         (\<exists>c. ch' = ch @ [c] \<and> paid_for a c)
            else ch' = ch)" for wid ch
    using assms(1)
    by (auto simp: charge_def Let_def unpaid_def paid_for_def settles_or_keeps_def
        split: sum.splits option.splits if_splits verify_result.splits bool.splits settle_result.splits)
  from this [of "sb_circle_wallet_id (at_sub a)" "cs_charges s"] assms(2) show ?thesis
    by (auto simp: pay_stage_def Let_def split: prod.splits if_splits)
qed

lemma settle_claimed_truth:
  assumes "settles_or_keeps (cg_gateway io)" and "settle_claimed io a s = (Inr (paid, why, supp), s')"
  shows "\<not> supp" and
    "if paid then (cs_charges s' = cs_charges s \<and> fee_to_price (at_actions a) (at_fee a) = Inr ''$0.000000'') \<or>
                  (\<exists>c. cs_charges s' = cs_charges s @ [c] \<and> paid_for a c)
     else cs_charges s' = cs_charges s"
proof -
  obtain g s1 where r: "reserve_stage io a s = (g, s1)" by fastforce
  with stage_frames(2) [of io a s] have c: "cs_charges s1 = cs_charges s" by simp
  obtain q s2 where q: "pay_stage io a s1 = (q, s2)" by fastforce
  show "\<not> supp" using assms(2) r q by (auto simp: settle_claimed_def split: bool.splits sum.splits)
  have "\<not> paid \<and> cs_charges s' = cs_charges s" if "\<not> g"
    using that assms(2) r c by (auto simp: settle_claimed_def)
  moreover have "q = Inr paid \<and> cs_charges s' = cs_charges s2" if g
    using that assms(2) r q by (cases q) (auto simp: settle_claimed_def)
  ultimately show "if paid then (cs_charges s' = cs_charges s \<and> fee_to_price (at_actions a) (at_fee a) = Inr ''$0.000000'') \<or>
                  (\<exists>c. cs_charges s' = cs_charges s @ [c] \<and> paid_for a c)
     else cs_charges s' = cs_charges s"
    using pay_stage_truth [OF assms(1), of a s1 paid s2] q c by (cases g) auto
qed

lemma claim_cases:
  assumes "claim_settlement_intent up rivals (at_key a) (cs_intents s) = (Inr Slot_already_settled, t)"
  shows "already_settled a s"
  using assms
  by (auto simp: claim_settlement_intent_def already_settled_def split: option.splits if_splits sum.splits)

text \<open>
  The answer of a charge is the truth, when a settlement that raises has moved nothing.  A charge
  is suppressed exactly while the kill switch is set, and then, as for every charge that is not paid,
  nothing has moved; a charge reported as paid moved exactly the fee from the subscriber's wallet to
  the publisher's seller address, unless the fee was zero or this very charge had settled before.
\<close>

theorem charge_answer_true:
  assumes "settles_or_keeps (cg_gateway io)" and "charge_one False io a s = (Inr (paid, why, supp), s')"
  shows "(supp \<longleftrightarrow> payments_halted (cg_env io)) \<and>
         (if paid \<and> \<not> supp
          then (cs_charges s' = cs_charges s \<and>
                (already_settled a s \<or> fee_to_price (at_actions a) (at_fee a) = Inr ''$0.000000'')) \<or>
               (\<exists>c. cs_charges s' = cs_charges s @ [c] \<and> paid_for a c)
          else cs_charges s' = cs_charges s)"
proof (cases "payments_halted (cg_env io) \<or> pb_gateway_seller_address (at_pub a) = [] \<or> sb_circle_wallet_id (at_sub a) = []")
  case True
  with assms(2) show ?thesis by (auto simp: charge_one_def split: if_splits)
next
  case False
  obtain res t where c: "claim_settlement_intent (cg_up io) (cg_rivals io) (at_key a) (cs_intents s) = (res, t)"
    by fastforce
  show ?thesis
  proof (cases "res = Inr Slot_claimed")
    case True
    with assms(2) False c have "settle_claimed io a (s\<lparr>cs_intents := t\<rparr>) = (Inr (paid, why, supp), s')"
      by (simp add: charge_one_def)
    from settle_claimed_truth [OF assms(1) this] False show ?thesis by auto
  next
    case other: False
    with assms(2) False c claim_cases [of "cg_up io" "cg_rivals io" a s t] show ?thesis
      by (auto simp: charge_one_def split: sum.splits claim_answer.splits)
  qed
qed

section \<open>A concrete charge\<close>

definition tick_gateway :: "settle_result \<Rightarrow> gateway" where
  "tick_gateway outcome =
     \<lparr>g_create = (\<lambda>_. None), g_decode = (\<lambda>_. None), g_verify = (\<lambda>_ _. Verify_result True),
      g_settle = (\<lambda>_ _. outcome)\<rparr>"

definition tick_io :: "settle_result \<Rightarrow> charge_io" where
  "tick_io outcome =
     \<lparr>cg_env = Map.empty, cg_up = True, cg_rivals = [], cg_reserve_env = Map.empty, cg_reserve_now = 1000,
      cg_reserve_net = Reply, cg_charge_env = Map.empty, cg_gateway = tick_gateway outcome,
      cg_requirements = (\<lambda>_ _. Inr (Some ''exact'')), cg_header = (\<lambda>_ _ _. Inr ''signed''),
      cg_finalize_up = True, cg_finalize_now = 1002, cg_release_now = 1003, cg_release_net = Reply\<rparr>"

definition one_fee :: attempt where
  "one_fee =
     \<lparr>at_key = (''s1'', ''s1:1'', ''0xsub'', ''load_strategy''),
      at_pub = \<lparr>pb_strategy_id = ''s1'', pb_pool_id = [], pb_vault_address = [], pb_creator_wallet = [],
                pb_gateway_seller_address = ''0xfee'', pb_agent_wallet_id = []\<rparr>,
      at_sub = \<lparr>sb_sub_id = ''0xsub'', sb_pool_id = [], sb_vault_address = [], sb_ephemeral_wallet = ''0xeee'',
                sb_subscriber_wallet = ''0xAA'', sb_circle_wallet_id = ''w1''\<rparr>,
      at_actions = 1, at_fee = 100\<rparr>"

definition no_charges :: charging where
  "no_charges = \<lparr>cs_redis = Map.empty, cs_intents = [], cs_charges = []\<rparr>"

definition fee_moved :: tick_charge where
  "fee_moved = \<lparr>tc_key = at_key one_fee, tc_wallet = ''0xeee'', tc_seller = ''0xfee'', tc_price = ''$0.000100''\<rparr>"

lemma one_fee_paid:
  "fst (charge_one False (tick_io (Settled sample_payment)) one_fee no_charges) = Inr (True, None, False)"
  "cs_charges (snd (charge_one False (tick_io (Settled sample_payment)) one_fee no_charges)) = [fee_moved]"
  by code_simp+

theorem charge_answer_true_witness:
  "\<exists>c. cs_charges (snd (charge_one False (tick_io (Settled sample_payment)) one_fee no_charges)) = [c] \<and>
       paid_for one_fee c"
proof -
  let ?res = "charge_one False (tick_io (Settled sample_payment)) one_fee no_charges"
  have "settles_or_keeps (cg_gateway (tick_io (Settled sample_payment)))"
    by (simp add: settles_or_keeps_def tick_io_def tick_gateway_def)
  moreover have "?res = (Inr (True, None, False), snd ?res)" using one_fee_paid(1) by (metis prod.collapse)
  ultimately show ?thesis
    using charge_answer_true [of "tick_io (Settled sample_payment)" one_fee no_charges True None False "snd ?res"]
      one_fee_paid(2) by (simp add: no_charges_def)
qed

theorem charge_one_is_attempt_witness:
  "cs_charges (sw_state (run swarm_step (swarm_start Map.empty) (attempt_cmds 7 (tick_io (Settled sample_payment)) one_fee))) =
     [fee_moved]"
proof -
  have "\<not> payments_halted Map.empty" by code_simp
  with charge_one_is_attempt [of "swarm_start Map.empty" 7 "tick_io (Settled sample_payment)" one_fee] one_fee_paid(2)
  show ?thesis by (simp add: swarm_start_def tick_io_def one_fee_def no_charges_def)
qed

text \<open>
  A settlement whose answer is lost after the value moved is not counted.  The subscriber has
  paid, the charge is reported as not paid, the intent is marked failed, and the reservation is
  released, so the 24-hour cap does not see the payment.
\<close>

theorem lost_settlement_uncounted:
  "case charge_one False (tick_io (Settle_raised ExternalError True)) one_fee no_charges of
     (answer, s) \<Rightarrow>
       answer = Inr (False, None, False) \<and> cs_charges s = [fee_moved] \<and>
       map si_status (cs_intents s) = [Intent_failed] \<and>
       zset_of 1003 (spend_key ''0xAA'') (cs_redis s) = Inr []"
  by code_simp

end
