(* ===== verification/Sweep.thy ===== *)
theory Sweep
  imports Charging
begin

text \<open>
  The settlement sweeper, \<^verbatim>\<open>marketplace/settlement.py\<close>: fees collected at the gateway go to the
  agent wallet, from there to the payment splitter, and out again on request; an unsubscribing wallet
  gets the rest of its prepaid fees back.  The state is the list of the transactions that were handed
  to Circle, whatever became of them.  The answers of Circle and of the chain are \<open>sweep_io\<close>; the
  signer and executor caches do not change an outcome and are left out.
\<close>

datatype transfer =
    Gateway_withdraw string string int
  | Approve string string int
  | Deposit_to_pool string string int
  | Pool_withdraw string string int
  | Usdc_transfer string string int

record sweep_config =
  sw_dry_run :: bool
  sw_threshold_raw :: int
  sw_min_deposit_raw :: int
  sw_splitter :: string

record sweep_io =
  sp_env :: environ
  sp_available :: "int res"
  sp_withdraw :: "exn option"
  sp_balance :: "string \<Rightarrow> int res"
  sp_approve :: "exn option"
  sp_submit :: "string res"

text \<open>\<^verbatim>\<open>except Exception: logger.exception(...)\<close>.\<close>

definition swallow :: "exn \<Rightarrow> 'a \<Rightarrow> 'a res" where
  "swallow e d = (if e = CancelledError then Inl CancelledError else Inr d)"

definition stage_a_gateway_to_wallet :: "sweep_config \<Rightarrow> sweep_io \<Rightarrow> publisher \<Rightarrow> (transfer list, unit) op" where
  "stage_a_gateway_to_wallet cf io pub ts =
     (case sp_available io of
        Inl e \<Rightarrow> (swallow e (), ts)
      | Inr available \<Rightarrow>
          if available < sw_threshold_raw cf then (Inr (), ts)
          else (case gateway_sweep_amount (sp_env io) available of
                  Inl e \<Rightarrow> (swallow e (), ts)
                | Inr (amount, fee_reserve_raw) \<Rightarrow>
                    (case sp_withdraw io of None \<Rightarrow> Inr () | Some e \<Rightarrow> swallow e (),
                     ts @ [Gateway_withdraw (pb_gateway_seller_address pub) amount fee_reserve_raw])))"

definition stage_b_wallet_to_pool :: "sweep_config \<Rightarrow> sweep_io \<Rightarrow> publisher \<Rightarrow> (transfer list, unit) op" where
  "stage_b_wallet_to_pool cf io pub ts =
     (case sp_balance io (pb_gateway_seller_address pub) of
        Inl e \<Rightarrow> (swallow e (), ts)
      | Inr balance \<Rightarrow>
          if balance < sw_min_deposit_raw cf then (Inr (), ts)
          else if sw_splitter cf = [] then (Inr (), ts)
          else let ts1 = ts @ [Approve (pb_gateway_seller_address pub) (sw_splitter cf) balance]
               in case sp_approve io of
                    Some e \<Rightarrow> (swallow e (), ts1)
                  | None \<Rightarrow>
                      (case sp_submit io of Inl e \<Rightarrow> swallow e () | Inr _ \<Rightarrow> Inr (),
                       ts1 @ [Deposit_to_pool (pb_gateway_seller_address pub) (pb_pool_id pub) balance]))"

definition sweep_publisher :: "sweep_config \<Rightarrow> sweep_io \<Rightarrow> publisher \<Rightarrow> (transfer list, unit) op" where
  "sweep_publisher cf io pub ts =
     (if sw_dry_run cf then (Inr (), ts)
      else if payments_halted (sp_env io) then (Inr (), ts)
      else if pb_agent_wallet_id pub = [] \<or> pb_gateway_seller_address pub = [] then (Inr (), ts)
      else case stage_a_gateway_to_wallet cf io pub ts of
        (Inl e, ts1) \<Rightarrow> (Inl e, ts1)
      | (Inr _, ts1) \<Rightarrow> stage_b_wallet_to_pool cf io pub ts1)"

definition withdraw_publisher ::
    "sweep_config \<Rightarrow> sweep_io \<Rightarrow> publisher \<Rightarrow> int \<Rightarrow> (transfer list, string option) op" where
  "withdraw_publisher cf io pub amount_raw ts =
     (if sw_dry_run cf then (Inr None, ts)
      else if payments_halted (sp_env io) then (Inr None, ts)
      else if sw_splitter cf = [] then (Inr None, ts)
      else (case sp_submit io of Inl e \<Rightarrow> swallow e None | Inr tx \<Rightarrow> Inr (Some tx),
            ts @ [Pool_withdraw (sw_splitter cf) (pb_pool_id pub) amount_raw]))"

definition withdraw_subscriber ::
    "sweep_config \<Rightarrow> sweep_io \<Rightarrow> string \<Rightarrow> string \<Rightarrow> string \<Rightarrow> (transfer list, string option) op" where
  "withdraw_subscriber cf io circle_wallet_id dcw_address to_wallet ts =
     (if sw_dry_run cf then (Inr None, ts)
      else if payments_halted (sp_env io) then (Inr None, ts)
      else if circle_wallet_id = [] \<or> dcw_address = [] \<or> to_wallet = [] then (Inr None, ts)
      else case sp_balance io dcw_address of
        Inl e \<Rightarrow> (swallow e None, ts)
      | Inr balance \<Rightarrow>
          if balance \<le> 0 then (Inr None, ts)
          else (case sp_submit io of Inl e \<Rightarrow> swallow e None | Inr tx \<Rightarrow> Inr (Some tx),
                ts @ [Usdc_transfer dcw_address to_wallet balance]))"

text \<open>\<open>refund_subscriber\<close> of the engine, which asks again whether the run is dry.\<close>

definition refund_subscriber ::
    "bool \<Rightarrow> sweep_config \<Rightarrow> sweep_io \<Rightarrow> string option \<Rightarrow> string option \<Rightarrow> string \<Rightarrow> (transfer list, string option) op" where
  "refund_subscriber dry_run cf io circle_wallet_id dcw_address to_wallet ts =
     (if dry_run then (Inr None, ts)
      else withdraw_subscriber cf io (or_empty circle_wallet_id) (or_empty dcw_address) to_wallet ts)"

section \<open>Properties\<close>

datatype sweep_cmd =
    Sweep sweep_io publisher
  | Withdraw sweep_io publisher int
  | Refund bool sweep_io "string option" "string option" string

fun cmd_env :: "sweep_cmd \<Rightarrow> environ" where
  "cmd_env (Sweep io pub) = sp_env io"
| "cmd_env (Withdraw io pub n) = sp_env io"
| "cmd_env (Refund dry io w d t) = sp_env io"

fun sweep_step :: "sweep_config \<Rightarrow> transfer list \<Rightarrow> sweep_cmd \<Rightarrow> transfer list" where
  "sweep_step cf ts (Sweep io pub) = snd (sweep_publisher cf io pub ts)"
| "sweep_step cf ts (Withdraw io pub n) = snd (withdraw_publisher cf io pub n ts)"
| "sweep_step cf ts (Refund dry io w d t) = snd (refund_subscriber dry cf io w d t ts)"

lemma quiet_step: "sw_dry_run cf \<or> payments_halted (cmd_env c) \<Longrightarrow> sweep_step cf ts c = ts"
  by (cases c) (auto simp: sweep_publisher_def withdraw_publisher_def refund_subscriber_def withdraw_subscriber_def)

text \<open>
  The switches hold on every path that pays out.  Whatever mixture of tick sweeps, withdrawals by a
  creator and refunds to a leaving subscriber arrives, and however the kill switch is flipped between
  them: the transactions handed to Circle are exactly those of the commands that met a live run with
  the switch off, as if the others had never been issued.
\<close>

theorem halted_payouts_void:
  "run (sweep_step cf) ts cmds =
   run (sweep_step cf) ts (filter (\<lambda>c. \<not> sw_dry_run cf \<and> \<not> payments_halted (cmd_env c)) cmds)"
  by (induction cmds arbitrary: ts) (auto simp: quiet_step)

end
