(* ===== verification/PyFloat.thy ===== *)
theory PyFloat
  imports Complex_Main Prelude "HOL-Library.Log_Nat"
begin

text \<open>
  Python's floats: the finite IEEE doubles, as the rational numbers they denote.  \<open>fl\<close> rounds a
  rational to the nearest double, ties to even, with gradual underflow; every arithmetic operation of
  the source is the exact operation followed by \<open>fl\<close>.  Infinities and not-a-numbers do not occur in
  the modelled code (weights and values of a portfolio), and the two zeros are one.
\<close>

section \<open>Rounding\<close>

text \<open>\<^verbatim>\<open>round(x)\<close>: to the nearest integer, ties to even.\<close>

definition rne :: "rat \<Rightarrow> int" where
  "rne x = (let f = \<lfloor>x\<rfloor>; d = x - of_int f
            in if d < 1 / 2 then f else if d > 1 / 2 then f + 1 else if even f then f else f + 1)"

text \<open>The binary exponent of a positive rational.\<close>

definition ilog2 :: "rat \<Rightarrow> int" where
  "ilog2 x = (case quotient_of x of (p, q) \<Rightarrow>
     (let k = bitlen p - bitlen q in if 2 powi k \<le> x then k else k - 1))"

text \<open>The exponent of the last place of a double of this magnitude.\<close>

definition ulp_exp :: "rat \<Rightarrow> int" where
  "ulp_exp x = max (ilog2 \<bar>x\<bar>) (- 1022) - 52"

definition fl :: "rat \<Rightarrow> rat" where
  "fl x = (if x = 0 then 0
           else let e = ulp_exp x in of_int (rne (x / 2 powi e)) * 2 powi e)"

text \<open>\<^verbatim>\<open>round(x, n)\<close>: the decimal nearest to the exact value, then the double nearest to that.\<close>

definition py_round :: "nat \<Rightarrow> rat \<Rightarrow> rat" where
  "py_round n x = fl (of_int (rne (x * 10 ^ n)) / 10 ^ n)"

text \<open>\<^verbatim>\<open>int(x)\<close> truncates towards zero.\<close>

definition py_trunc :: "rat \<Rightarrow> int" where
  "py_trunc x = (if 0 \<le> x then \<lfloor>x\<rfloor> else - \<lfloor>- x\<rfloor>)"

text \<open>
  \<^verbatim>\<open>sum(xs)\<close> over floats, as Python 3.12 computes it: a running sum with the rounding errors kept
  in a second float and added at the end.
\<close>

fun sum_from :: "rat \<Rightarrow> rat \<Rightarrow> rat list \<Rightarrow> rat" where
  "sum_from f c [] = (if c = 0 then f else fl (f + c))"
| "sum_from f c (x # xs) =
     (let t = fl (f + x);
          d = (if \<bar>x\<bar> \<le> \<bar>f\<bar> then fl (fl (f - t) + x) else fl (fl (x - t) + f))
      in sum_from t (fl (c + d)) xs)"

fun py_sum :: "rat list \<Rightarrow> rat" where
  "py_sum [] = 0"
| "py_sum (x # xs) = sum_from x 0 xs"

section \<open>Laws of rounding\<close>

text \<open>What the callers rely on: rounding keeps the order and the sign.\<close>

locale rounding =
  fixes rd :: "rat \<Rightarrow> rat"
  assumes rd_mono: "x \<le> y \<Longrightarrow> rd x \<le> rd y"
    and rd_minus: "rd (- x) = - rd x"
    and rd_idem: "rd (rd x) = rd x"
begin

lemma rd_zero: "rd 0 = 0"
  using rd_minus [of 0] by simp

lemma rd_nonneg: "0 \<le> x \<Longrightarrow> 0 \<le> rd x"
  using rd_mono [of 0 x] by (simp add: rd_zero)

lemma rd_nonpos: "x \<le> 0 \<Longrightarrow> rd x \<le> 0"
  using rd_mono [of x 0] by (simp add: rd_zero)

lemma rd_abs: "\<bar>rd x\<bar> = rd \<bar>x\<bar>"
  using rd_nonneg [of x] rd_nonpos [of x] by (cases "0 \<le> x") (simp_all add: rd_minus abs_if)

lemma rd_pos_imp: "0 < rd x \<Longrightarrow> 0 < x"
  using rd_nonpos [of x] by force

lemma rd_neg_imp: "rd x < 0 \<Longrightarrow> x < 0"
  using rd_nonneg [of x] by force

text \<open>A rounded difference is at least a bound that is a double exactly when the difference is.\<close>

lemma rd_ge: "rd b = b \<Longrightarrow> b \<le> x \<Longrightarrow> b \<le> rd x"
  using rd_mono [of b x] by simp

lemma rd_le: "rd b = b \<Longrightarrow> x \<le> b \<Longrightarrow> rd x \<le> b"
  using rd_mono [of x b] by simp

end

lemma rne_bounds: "\<lfloor>x\<rfloor> \<le> rne x" "rne x \<le> \<lfloor>x\<rfloor> + 1"
  by (simp_all add: rne_def Let_def)

lemma rne_mono: "x \<le> y \<Longrightarrow> rne x \<le> rne y"
proof -
  assume le: "x \<le> y"
  then have "\<lfloor>x\<rfloor> \<le> \<lfloor>y\<rfloor>" by (rule floor_mono)
  then consider "\<lfloor>x\<rfloor> = \<lfloor>y\<rfloor>" | "\<lfloor>x\<rfloor> + 1 \<le> \<lfloor>y\<rfloor>" by linarith
  then show ?thesis
  proof cases
    case 1
    with le show ?thesis by (auto simp: rne_def Let_def)
  next
    case 2
    with rne_bounds(2) [of x] rne_bounds(1) [of y] show ?thesis by linarith
  qed
qed

lemma rne_of_int [simp]: "rne (of_int n) = n"
  by (simp add: rne_def)

lemma rne_minus: "rne (- x) = - rne x"
proof (cases "x \<in> \<int>")
  case True
  then obtain n where "x = of_int n" by (elim Ints_cases)
  then show ?thesis using rne_of_int [of "- n"] by simp
next
  case False
  define f where "f = \<lfloor>x\<rfloor>"
  have "of_int f \<noteq> x" using False by (metis Ints_of_int)
  moreover have "of_int f \<le> x" "x < of_int f + 1" unfolding f_def by linarith+
  ultimately have "of_int f < x" by simp
  then have g: "\<lfloor>- x\<rfloor> = - f - 1" using \<open>x < of_int f + 1\<close> by (intro floor_unique) simp_all
  show ?thesis
    unfolding rne_def g f_def [symmetric] Let_def by (auto simp: field_simps)
qed

lemma bitlen_powi:
  assumes "0 < n"
  shows "(2 :: rat) powi (bitlen n - 1) \<le> of_int n" and "of_int n < (2 :: rat) powi (bitlen n)"
proof -
  have b: "2 ^ nat (bitlen n - 1) \<le> n" "n < 2 ^ nat (bitlen n)" using bitlen_bounds [of n] assms by auto
  have "0 < bitlen n" using assms bitlen_nonneg [of n] bitlen_eq_zero_iff [of n] by linarith
  then have p: "(2 :: rat) powi (bitlen n - 1) = of_int (2 ^ nat (bitlen n - 1))"
    "(2 :: rat) powi bitlen n = of_int (2 ^ nat (bitlen n))"
    by (simp_all add: power_int_def)
  from b show "(2 :: rat) powi (bitlen n - 1) \<le> of_int n" "of_int n < (2 :: rat) powi (bitlen n)"
    unfolding p by (simp_all only: of_int_le_iff of_int_less_iff)
qed

lemma ilog2_bounds:
  assumes "0 < x"
  shows "2 powi ilog2 x \<le> x" and "x < 2 powi (ilog2 x + 1)"
proof -
  obtain p q where pq: "quotient_of x = (p, q)" by fastforce
  then have x: "x = of_int p / of_int q" and q: "0 < q"
    using quotient_of_div quotient_of_denom_pos by blast+
  with assms have p: "0 < p" by (simp add: zero_less_divide_iff)
  let ?k = "bitlen p - bitlen q"
  have lo: "2 powi (?k - 1) \<le> x"
  proof -
    have "(2 :: rat) powi (?k - 1) = 2 powi (bitlen p - 1) / 2 powi (bitlen q)"
      by (simp add: power_int_diff)
    also have "\<dots> \<le> of_int p / of_int q"
      using bitlen_powi [OF p] bitlen_powi(2) [OF q] p q by (intro frac_le) simp_all
    finally show ?thesis using x by simp
  qed
  have hi: "x < 2 powi (?k + 1)"
  proof -
    have "x < 2 powi (bitlen p) / 2 powi (bitlen q - 1)"
      unfolding x using bitlen_powi(2) [OF p] bitlen_powi(1) [OF q] p by (intro frac_less) simp_all
    also have "\<dots> = 2 powi (?k + 1)" by (simp add: power_int_diff power_int_add)
    finally show ?thesis .
  qed
  show "2 powi ilog2 x \<le> x" "x < 2 powi (ilog2 x + 1)"
    using lo hi by (auto simp: ilog2_def pq Let_def not_le)
qed

lemma powi_le_cancel: "(2 :: rat) powi a < 2 powi b \<Longrightarrow> a < b"
  by (metis not_less one_le_numeral power_int_increasing)

lemma ilog2_mono: "0 < x \<Longrightarrow> x \<le> y \<Longrightarrow> ilog2 x \<le> ilog2 y"
proof -
  assume a: "0 < x" "x \<le> y"
  then have "(2 :: rat) powi ilog2 x < 2 powi (ilog2 y + 1)"
    using ilog2_bounds(1) [of x] ilog2_bounds(2) [of y] by linarith
  then show ?thesis using powi_le_cancel by force
qed

lemma fl_minus: "fl (- x) = - fl x"
  by (simp add: fl_def ulp_exp_def Let_def rne_minus)

lemma powi_split: "e \<le> k \<Longrightarrow> (2 :: rat) powi k = of_int (2 ^ nat (k - e)) * 2 powi e"
proof -
  assume "e \<le> k"
  then have "(2 :: rat) powi (k - e) = of_int (2 ^ nat (k - e))" by (simp add: power_int_def)
  moreover have "(2 :: rat) powi k = 2 powi (k - e) * 2 powi e" by (simp flip: power_int_add)
  ultimately show ?thesis by simp
qed

text \<open>Rounding to a multiple of a power of two does not cross a larger power of two.\<close>

lemma scaled_le:
  fixes x :: rat
  assumes "e \<le> k" and "x \<le> 2 powi k"
  shows "of_int (rne (x / 2 powi e)) * 2 powi e \<le> (2 powi k :: rat)"
proof -
  let ?n = "2 ^ nat (k - e) :: int"
  have pos: "0 < (2 :: rat) powi e" by simp
  have "x / 2 powi e \<le> of_int ?n"
    using assms(2) pos unfolding powi_split [OF assms(1)] by (simp only: pos_divide_le_eq)
  then have "rne (x / 2 powi e) \<le> ?n"
    using rne_mono [of "x / 2 powi e" "of_int ?n"] by (simp only: rne_of_int)
  then have "(of_int (rne (x / 2 powi e)) :: rat) \<le> of_int ?n" by (simp only: of_int_le_iff)
  then show ?thesis
    unfolding powi_split [OF assms(1)] using pos by (intro mult_right_mono) simp_all
qed

lemma scaled_ge:
  fixes x :: rat
  assumes "e \<le> k" and "2 powi k \<le> x"
  shows "(2 powi k :: rat) \<le> of_int (rne (x / 2 powi e)) * 2 powi e"
proof -
  let ?n = "2 ^ nat (k - e) :: int"
  have pos: "0 < (2 :: rat) powi e" by simp
  have "of_int ?n \<le> x / 2 powi e"
    using assms(2) pos unfolding powi_split [OF assms(1)] by (simp only: pos_le_divide_eq)
  then have "?n \<le> rne (x / 2 powi e)"
    using rne_mono [of "of_int ?n" "x / 2 powi e"] by (simp only: rne_of_int)
  then have "of_int ?n \<le> (of_int (rne (x / 2 powi e)) :: rat)" by (simp only: of_int_le_iff)
  then show ?thesis
    unfolding powi_split [OF assms(1)] using pos by (intro mult_right_mono) simp_all
qed

lemma fl_mono_pos:
  assumes "0 < x" and "x \<le> y"
  shows "fl x \<le> fl y"
proof -
  have y: "0 < y" using assms by simp
  have i: "ilog2 x \<le> ilog2 y" by (rule ilog2_mono [OF assms])
  have fx: "fl x = of_int (rne (x / 2 powi ulp_exp x)) * 2 powi ulp_exp x"
    and fy: "fl y = of_int (rne (y / 2 powi ulp_exp y)) * 2 powi ulp_exp y"
    using assms(1) y by (simp_all add: fl_def Let_def)
  show ?thesis
  proof (cases "ulp_exp x = ulp_exp y")
    case True
    have "rne (x / 2 powi ulp_exp y) \<le> rne (y / 2 powi ulp_exp y)"
      using assms(2) by (intro rne_mono divide_right_mono) simp_all
    then show ?thesis unfolding fx fy True by (intro mult_right_mono) simp_all
  next
    case False
    with i have e: "ulp_exp y = ilog2 y - 52" "ilog2 x + 1 \<le> ilog2 y" "ulp_exp x \<le> ilog2 y"
      using assms(1) y by (auto simp: ulp_exp_def max_def split: if_splits)
    have "x \<le> 2 powi (ilog2 x + 1)" using ilog2_bounds(2) [OF assms(1)] by simp
    also have "\<dots> \<le> 2 powi ilog2 y" using e(2) by (intro power_int_increasing) simp_all
    finally have "fl x \<le> 2 powi ilog2 y" unfolding fx by (rule scaled_le [OF e(3)])
    also have "\<dots> \<le> fl y"
      unfolding fy using e(1) ilog2_bounds(1) [OF y] by (intro scaled_ge) simp_all
    finally show ?thesis .
  qed
qed

lemma fl_sign: "0 \<le> x \<Longrightarrow> 0 \<le> fl x"
proof -
  assume "0 \<le> x"
  then have "0 \<le> x / 2 powi ulp_exp x" by simp
  then have "0 \<le> rne (x / 2 powi ulp_exp x)" using rne_mono [of 0] rne_of_int [of 0] by fastforce
  then show ?thesis by (simp add: fl_def Let_def)
qed

lemma fl_mono: "x \<le> y \<Longrightarrow> fl x \<le> fl y"
proof -
  assume le: "x \<le> y"
  consider "0 < x" | "y < 0" | "x \<le> 0" "0 \<le> y" by linarith
  then show ?thesis
  proof cases
    case 1
    then show ?thesis using le by (rule fl_mono_pos)
  next
    case 2
    with fl_mono_pos [of "- y" "- x"] le show ?thesis by (simp add: fl_minus)
  next
    case 3
    with fl_sign [of y] fl_sign [of "- x"] show ?thesis by (simp add: fl_minus)
  qed
qed

text \<open>Rounding a number with at most 53 significant bits does not change it.\<close>

lemma fl_exact:
  assumes "0 < m" and "m < 2 ^ 53" and "- 1074 \<le> e"
  shows "fl (of_int m * 2 powi e) = of_int m * 2 powi e"
proof -
  let ?y = "of_int m * 2 powi e :: rat"
  have y: "0 < ?y" using assms(1) by simp
  have "?y < of_int (2 ^ 53) * 2 powi e"
    using assms(2) by (intro mult_strict_right_mono) (simp_all only: of_int_less_iff zero_less_power_int zero_less_numeral)
  also have "of_int (2 ^ 53) * 2 powi e = (2 powi (53 + e) :: rat)" by (simp add: power_int_add)
  finally have "(2 :: rat) powi ilog2 ?y < 2 powi (53 + e)" using ilog2_bounds(1) [OF y] by linarith
  then have "ilog2 ?y - 52 \<le> e" using powi_le_cancel by fastforce
  then have u: "ulp_exp ?y \<le> e" using y assms(3) by (simp add: ulp_exp_def)
  define k where "k = ulp_exp ?y"
  have sp: "?y = of_int (m * 2 ^ nat (e - k)) * 2 powi k"
    using powi_split [of k e] u by (simp add: k_def)
  have "(of_int (m * 2 ^ nat (e - k)) * 2 powi k) / (2 powi k :: rat) = of_int (m * 2 ^ nat (e - k))"
    by simp
  then have "rne (?y / 2 powi k) = m * 2 ^ nat (e - k)"
    unfolding sp by (simp only: rne_of_int)
  then have "fl ?y = of_int (m * 2 ^ nat (e - k)) * 2 powi k"
    using y by (simp add: fl_def Let_def flip: k_def)
  then show ?thesis by (simp only: sp)
qed

lemma fl_idem_pos:
  assumes "0 < x"
  shows "fl (fl x) = fl x"
proof -
  let ?e = "ulp_exp x"
  define n where "n = rne (x / 2 powi ?e)"
  have fx: "fl x = of_int n * 2 powi ?e" using assms by (simp add: fl_def n_def Let_def)
  have e: "- 1074 \<le> ?e" "ilog2 x + 1 \<le> ?e + 53" using assms by (auto simp: ulp_exp_def)
  have "0 \<le> n" using rne_mono [of 0 "x / 2 powi ?e"] rne_of_int [of 0] assms by (simp add: n_def)
  have "x \<le> 2 powi (ilog2 x + 1)" using ilog2_bounds(2) [OF assms] by simp
  also have "\<dots> \<le> 2 powi (?e + 53)" using e(2) by (intro power_int_increasing) simp_all
  finally have "of_int n * 2 powi ?e \<le> (2 powi (?e + 53) :: rat)"
    unfolding n_def by (intro scaled_le) simp_all
  also have "\<dots> = of_int (2 ^ 53) * 2 powi ?e" by (simp add: power_int_add)
  finally have "(of_int n :: rat) \<le> of_int (2 ^ 53)" by (rule mult_right_le_imp_le) simp
  then have "n \<le> 2 ^ 53" by (simp only: of_int_le_iff)
  then consider "n = 0" | "0 < n" "n < 2 ^ 53" | "n = 2 ^ 53" using \<open>0 \<le> n\<close> by linarith
  then show ?thesis
  proof cases
    case 1
    then have "fl x = 0" by (simp add: fx)
    then show ?thesis by (simp add: fl_def)
  next
    case 2
    then show ?thesis unfolding fx using e(1) by (rule fl_exact)
  next
    case 3
    then have "fl x = of_int 1 * 2 powi (?e + 53)" by (simp add: fx power_int_add)
    then show ?thesis using fl_exact [of 1 "?e + 53"] e(1) by simp
  qed
qed

lemma fl_idem: "fl (fl x) = fl x"
proof -
  consider "x = 0" | "0 < x" | "0 < - x" by linarith
  then show ?thesis
  proof cases
    case 1
    then show ?thesis by (simp add: fl_def)
  next
    case 2
    then show ?thesis by (rule fl_idem_pos)
  next
    case 3
    then show ?thesis using fl_idem_pos [of "- x"] by (simp add: fl_minus)
  qed
qed

interpretation dbl: rounding fl
  by unfold_locales (auto simp: fl_mono fl_minus fl_idem)

text \<open>A rational is a double when rounding does not change it; small integers are.\<close>

definition is_double :: "rat \<Rightarrow> bool" where
  "is_double x \<longleftrightarrow> fl x = x"

lemma double_consts [simp]: "fl 0 = 0" "fl 1 = 1" "fl (1 / 2) = 1 / 2"
  using fl_exact [of 1 0] fl_exact [of 1 "- 1"] by (simp_all add: fl_def)

lemma rne_near: "\<bar>y - of_int m\<bar> < 1 / 2 \<Longrightarrow> rne y = m"
proof -
  assume "\<bar>y - of_int m\<bar> < 1 / 2"
  then have b: "of_int m - 1 / 2 < y" "y < of_int m + 1 / 2" unfolding abs_less_iff by linarith+
  then consider "\<lfloor>y\<rfloor> = m" | "\<lfloor>y\<rfloor> = m - 1" by linarith
  then show ?thesis using b by cases (auto simp: rne_def Let_def)
qed

lemma ilog2_unique: "2 powi k \<le> x \<Longrightarrow> x < 2 powi (k + 1) \<Longrightarrow> ilog2 x = k"
proof -
  assume a: "2 powi k \<le> x" "x < 2 powi (k + 1)"
  have x: "0 < x" using a(1) by (rule less_le_trans [rotated]) simp
  have "(2 :: rat) powi k < 2 powi (ilog2 x + 1)" "(2 :: rat) powi ilog2 x < 2 powi (k + 1)"
    using a ilog2_bounds [OF x] by linarith+
  then have "k < ilog2 x + 1" "ilog2 x < k + 1" by (auto dest: powi_le_cancel)
  then show ?thesis by simp
qed

text \<open>The double nearest to a literal, from its 53-bit significand and exponent.\<close>

lemma fl_value:
  assumes "- 1074 \<le> e" and "2 ^ 52 \<le> x / 2 powi e" and "x / 2 powi e < 2 ^ 53"
    and "\<bar>x / 2 powi e - of_int m\<bar> < 1 / 2"
  shows "fl x = of_int m * 2 powi e"
proof -
  have pos: "0 < (2 :: rat) powi e" by simp
  have "2 ^ 52 * 2 powi e \<le> x" "x < 2 ^ 53 * 2 powi e"
    using assms(2,3) pos by (simp_all only: pos_le_divide_eq pos_divide_less_eq)
  moreover have "(2 :: rat) powi (e + 52) = 2 ^ 52 * 2 powi e" "(2 :: rat) powi (e + 52 + 1) = 2 ^ 53 * 2 powi e"
    by (simp_all add: power_int_add)
  ultimately have i: "ilog2 x = e + 52" and x: "0 < x"
    using pos by (auto intro!: ilog2_unique less_le_trans [of 0 "2 ^ 52 * 2 powi e"])
  then have u: "ulp_exp x = e" using assms(1) by (simp add: ulp_exp_def)
  have "rne (x / 2 powi e) = m" using assms(4) by (rule rne_near)
  then show ?thesis using x by (simp add: fl_def u)
qed

end
