(* ===== verification/VCheck.thy ===== *)
theory VCheck
  imports PyFloat
begin

text \<open>
  The deterministic check before a rebalance, \<^verbatim>\<open>chain/v_check.py\<close>: weights in basis points, as the
  items of a dictionary.
\<close>

definition DEFAULT_MAX_CONCENTRATION_BPS :: int where
  "DEFAULT_MAX_CONCENTRATION_BPS = 6000"

definition DEFAULT_MIN_COST_BENEFIT_BPS :: int where
  "DEFAULT_MIN_COST_BENEFIT_BPS = 5"

record v_result =
  vr_passed :: bool
  vr_checks :: "(string \<times> bool) list"
  vr_failures :: "string list"

record v_check =
  vc_weights_bps :: "(string \<times> int) list"
  vc_max_concentration_bps :: int
  vc_cost_benefit_bps :: "int option"
  vc_min_cost_benefit_bps :: int

definition max_weight :: "(string \<times> int) list \<Rightarrow> int" where
  "max_weight ws = (case map snd ws of [] \<Rightarrow> 0 | v # vs \<Rightarrow> foldl max v vs)"

definition run_v_check :: "v_check \<Rightarrow> v_result" where
  "run_v_check c =
     (let total = sum_list (map snd (vc_weights_bps c));
          sum_ok = (total = 10000);
          f1 = (if sum_ok then [] else [''weights sum to '' @ show_int total @ '' BPS, expected 10000'']);
          mx = max_weight (vc_weights_bps c);
          conc_ok = (mx \<le> vc_max_concentration_bps c);
          f2 = (if conc_ok then []
                else [''max concentration '' @ show_int mx @ '' BPS exceeds limit '' @
                      show_int (vc_max_concentration_bps c) @ '' BPS'']);
          cb = map_option (\<lambda>b. vc_min_cost_benefit_bps c \<le> b) (vc_cost_benefit_bps c);
          f3 = (case vc_cost_benefit_bps c of
                  None \<Rightarrow> []
                | Some b \<Rightarrow> if vc_min_cost_benefit_bps c \<le> b then []
                            else [''cost-benefit '' @ show_int b @ '' BPS below minimum '' @
                                  show_int (vc_min_cost_benefit_bps c) @ '' BPS'']);
          failures = f1 @ f2 @ f3
      in \<lparr>vr_passed = (length failures = 0),
          vr_checks = [(''weights_sum_bps'', sum_ok), (''max_concentration'', conc_ok)] @
                      (case cb of None \<Rightarrow> [] | Some ok \<Rightarrow> [(''min_cost_benefit_bps'', ok)]),
          vr_failures = failures\<rparr>)"

definition new_v_check :: "(string \<times> int) list \<Rightarrow> v_check" where
  "new_v_check ws =
     \<lparr>vc_weights_bps = ws, vc_max_concentration_bps = DEFAULT_MAX_CONCENTRATION_BPS,
      vc_cost_benefit_bps = None, vc_min_cost_benefit_bps = DEFAULT_MIN_COST_BENEFIT_BPS\<rparr>"

definition from_weights_dict :: "(string \<times> rat) list \<Rightarrow> v_check" where
  "from_weights_dict weights = new_v_check (map (\<lambda>(k, v). (k, rne (fl (v * 10000)))) weights)"

section \<open>Properties\<close>

lemma foldl_max: "foldl max v vs \<le> (b :: int) \<longleftrightarrow> v \<le> b \<and> (\<forall>x \<in> set vs. x \<le> b)"
  by (induction vs arbitrary: v) auto

lemma max_weight_le: "0 \<le> b \<Longrightarrow> max_weight ws \<le> b \<longleftrightarrow> (\<forall>(_, w) \<in> set ws. w \<le> b)"
  by (cases ws) (auto simp: max_weight_def foldl_max)

text \<open>
  What a passed check means.  The check passes exactly when the weights sum to 10000 basis
  points, none exceeds the concentration limit, and a given cost-benefit reaches the minimum; it has
  failed exactly when it names a failure.
\<close>

theorem v_check_passes:
  assumes "0 \<le> vc_max_concentration_bps c"
  shows "vr_passed (run_v_check c) \<longleftrightarrow>
           sum_list (map snd (vc_weights_bps c)) = 10000 \<and>
           (\<forall>(_, w) \<in> set (vc_weights_bps c). w \<le> vc_max_concentration_bps c) \<and>
           (\<forall>b. vc_cost_benefit_bps c = Some b \<longrightarrow> vc_min_cost_benefit_bps c \<le> b)"
    and "vr_passed (run_v_check c) \<longleftrightarrow> vr_failures (run_v_check c) = []"
    and "vr_passed (run_v_check c) \<longleftrightarrow> (\<forall>(_, ok) \<in> set (vr_checks (run_v_check c)). ok)"
proof -
  show "vr_passed (run_v_check c) \<longleftrightarrow> vr_failures (run_v_check c) = []"
    by (simp add: run_v_check_def Let_def)
  show "vr_passed (run_v_check c) \<longleftrightarrow> (\<forall>(_, ok) \<in> set (vr_checks (run_v_check c)). ok)"
    by (auto simp: run_v_check_def Let_def split: option.splits)
  show "vr_passed (run_v_check c) \<longleftrightarrow>
           sum_list (map snd (vc_weights_bps c)) = 10000 \<and>
           (\<forall>(_, w) \<in> set (vc_weights_bps c). w \<le> vc_max_concentration_bps c) \<and>
           (\<forall>b. vc_cost_benefit_bps c = Some b \<longrightarrow> vc_min_cost_benefit_bps c \<le> b)"
    unfolding max_weight_le [OF assms, symmetric]
    by (auto simp: run_v_check_def Let_def split: option.splits)
qed

end
