(* ===== verification/Sizing.thy ===== *)
theory Sizing
  imports PyFloat "HOL-Library.AList" "HOL-Library.List_Lexorder" "HOL-Library.Char_ord"
begin

text \<open>
  From votes to weights: \<open>aggregate_signals\<close> of \<^verbatim>\<open>services/strategy_signal_evaluator.py\<close>,
  \<open>EnsembleConsensus\<close> of \<^verbatim>\<open>models/regime.py\<close>, and the throttle of
  \<^verbatim>\<open>services/portfolio_constructor.py\<close>.  A dictionary is its items in insertion order; floats are
  rounded as in \<open>PyFloat\<close>, and a literal of the source is the double nearest to it.
\<close>

type_synonym weights = "(string \<times> rat) list"

section \<open>Signals\<close>

datatype signal_state = LONG | FLAT | SCALED

record asset_signal =
  sg_asset :: string
  sg_strategy_id :: string
  sg_strategy_name :: string
  sg_signal :: signal_state
  sg_weight :: rat
  sg_reason :: string

record strategy_signals =
  ss_strategy_id :: string
  ss_signals :: "asset_signal list"

text \<open>\<^verbatim>\<open>d.setdefault(k, []).append(v)\<close>.\<close>

definition add_vote :: "string \<Rightarrow> 'v \<Rightarrow> (string \<times> 'v list) list \<Rightarrow> (string \<times> 'v list) list" where
  "add_vote k v d = (case map_of d k of None \<Rightarrow> d @ [(k, [v])] | Some vs \<Rightarrow> AList.update k (vs @ [v]) d)"

definition asset_votes :: "strategy_signals list \<Rightarrow> (string \<times> rat list) list" where
  "asset_votes all_signals =
     fold (\<lambda>sig. add_vote (sg_asset sig) (sg_weight sig)) (concat (map ss_signals all_signals)) []"

definition average :: "rat list \<Rightarrow> rat" where
  "average votes = fl (py_sum votes / of_nat (length votes))"

definition normalized :: "rat \<Rightarrow> weights \<Rightarrow> weights" where
  "normalized usdc_floor raw =
     (let synth_budget = fl (1 - usdc_floor); total_raw = py_sum (map snd raw);
          n = (if total_raw > 0 then map (\<lambda>(k, v). (k, fl (fl (v / total_raw) * synth_budget))) raw else [])
      in AList.update ''USDC'' usdc_floor n)"

definition aggregate_signals :: "strategy_signals list \<Rightarrow> rat \<Rightarrow> weights" where
  "aggregate_signals all_signals usdc_floor =
     (if all_signals = [] then [(''USDC'', 1)]
      else map (\<lambda>(k, v). (k, py_round 4 v))
             (sort_key fst (normalized usdc_floor (map (\<lambda>(k, vs). (k, average vs)) (asset_votes all_signals)))))"

section \<open>Regime and consensus\<close>

datatype regime = RISK_ON | RISK_OFF | TRANSITION | CRISIS

record regime_classification =
  rc_regime :: regime
  rc_confidence :: rat

datatype consensus_label = Consensus_RISK_ON | Consensus_TRANSITION | Consensus_RISK_OFF

record ensemble_consensus =
  ec_flat_pct :: rat
  ec_signal_count :: nat
  ec_label :: consensus_label

definition label_for :: "rat \<Rightarrow> consensus_label" where
  "label_for flat_pct =
     (if flat_pct > fl (3 / 5) then Consensus_RISK_OFF
      else if flat_pct > fl (3 / 10) then Consensus_TRANSITION
      else Consensus_RISK_ON)"

definition from_signal_counts :: "nat \<Rightarrow> nat \<Rightarrow> ensemble_consensus res" where
  "from_signal_counts flat_count total_count =
     (let flat_pct = (if 0 < total_count then fl (of_nat flat_count / of_nat total_count) else 0)
      in if 0 \<le> flat_pct \<and> flat_pct \<le> 1
         then Inr \<lparr>ec_flat_pct = flat_pct, ec_signal_count = total_count, ec_label = label_for flat_pct\<rparr>
         else Inl ValueError)"

section \<open>The throttle\<close>

definition SAFE_ASSET :: string where
  "SAFE_ASSET = ''USDC''"

fun REGIME_MULTIPLIER :: "regime \<Rightarrow> rat" where
  "REGIME_MULTIPLIER RISK_ON = 1"
| "REGIME_MULTIPLIER TRANSITION = fl (7 / 10)"
| "REGIME_MULTIPLIER RISK_OFF = fl (2 / 5)"
| "REGIME_MULTIPLIER CRISIS = fl (1 / 10)"

definition REGIME_MULTIPLIER_NONE :: rat where
  "REGIME_MULTIPLIER_NONE = fl (7 / 10)"

definition CONF_BASE :: rat where "CONF_BASE = 1 / 2"
definition CONF_SLOPE :: rat where "CONF_SLOPE = 1 / 2"
definition FLAT_LOW :: rat where "FLAT_LOW = fl (3 / 10)"
definition FLAT_HIGH :: rat where "FLAT_HIGH = fl (3 / 5)"
definition CONSENSUS_FLOOR :: rat where "CONSENSUS_FLOOR = fl (3 / 5)"
definition FLAT_SPAN :: rat where "FLAT_SPAN = fl (FLAT_HIGH - FLAT_LOW)"
definition CONSENSUS_DROP :: rat where "CONSENSUS_DROP = fl (1 - CONSENSUS_FLOOR)"

definition regime_mult :: "regime_classification option \<Rightarrow> rat" where
  "regime_mult reg =
     (case reg of
        None \<Rightarrow> REGIME_MULTIPLIER_NONE
      | Some r \<Rightarrow> fl (REGIME_MULTIPLIER (rc_regime r) * fl (CONF_BASE + fl (CONF_SLOPE * rc_confidence r))))"

definition consensus_mult :: "ensemble_consensus option \<Rightarrow> rat" where
  "consensus_mult con =
     (case con of
        None \<Rightarrow> 1
      | Some c \<Rightarrow>
          if ec_flat_pct c < FLAT_LOW then 1
          else if ec_flat_pct c > FLAT_HIGH then CONSENSUS_FLOOR
          else fl (1 - fl (fl (fl (ec_flat_pct c - FLAT_LOW) / FLAT_SPAN) * CONSENSUS_DROP)))"

definition compute_position_scale ::
    "regime_classification option \<Rightarrow> ensemble_consensus option \<Rightarrow> rat" where
  "compute_position_scale reg con = max 0 (min 1 (fl (regime_mult reg * consensus_mult con)))"

text \<open>The loop of \<open>_shrink_to_safe_asset\<close>: the scaled weights, the freed mass and the safe weight.\<close>

fun shrink_loop :: "rat \<Rightarrow> weights \<Rightarrow> weights \<times> rat \<times> rat \<Rightarrow> weights \<times> rat \<times> rat" where
  "shrink_loop scale [] acc = acc"
| "shrink_loop scale ((symbol, weight) # ws) (scaled, freed, safe) =
     (if symbol = SAFE_ASSET then shrink_loop scale ws (scaled, freed, fl (safe + weight))
      else let new_weight = fl (weight * scale)
           in shrink_loop scale ws
                (AList.update symbol new_weight scaled, fl (freed + fl (weight - new_weight)), safe))"

definition shrink_to_safe_asset :: "weights \<Rightarrow> rat \<Rightarrow> weights" where
  "shrink_to_safe_asset raw_weights scale =
     (case shrink_loop scale raw_weights ([], 0, 0) of
        (scaled, freed, safe) \<Rightarrow>
          (let scaled' = AList.update SAFE_ASSET (fl (safe + freed)) scaled;
               total = py_sum (map snd scaled')
           in if total > 0 then map (\<lambda>(s, w). (s, fl (w / total))) scaled' else scaled'))"

text \<open>\<open>construct\<close> with \<open>base_weights\<close> given, as every production caller does.\<close>

definition construct ::
    "regime_classification option \<Rightarrow> ensemble_consensus option \<Rightarrow> weights \<Rightarrow> weights" where
  "construct reg con base_weights = shrink_to_safe_asset base_weights (compute_position_scale reg con)"

section \<open>Properties of the throttle\<close>

lemma literals: "fl (7 / 10) = 3152519739159347 / 4503599627370496" "fl (2 / 5) = 3602879701896397 / 9007199254740992"
  "fl (1 / 10) = 3602879701896397 / 36028797018963968" "fl (3 / 10) = 5404319552844595 / 18014398509481984"
  "fl (3 / 5) = 5404319552844595 / 9007199254740992"
  using fl_value [of "- 53" "7 / 10" 6305039478318694] fl_value [of "- 54" "2 / 5" 7205759403792794]
    fl_value [of "- 56" "1 / 10" 7205759403792794] fl_value [of "- 54" "3 / 10" 5404319552844595]
    fl_value [of "- 53" "3 / 5" 5404319552844595]
  by simp_all

lemma constants: "FLAT_LOW = 5404319552844595 / 18014398509481984" "FLAT_HIGH = 5404319552844595 / 9007199254740992"
  "CONSENSUS_FLOOR = 5404319552844595 / 9007199254740992" "FLAT_SPAN = 5404319552844595 / 18014398509481984"
  "CONSENSUS_DROP = 3602879701896397 / 9007199254740992" "fl (1 - CONSENSUS_DROP) = CONSENSUS_FLOOR"
proof -
  show l: "FLAT_LOW = 5404319552844595 / 18014398509481984" "FLAT_HIGH = 5404319552844595 / 9007199254740992"
    and f: "CONSENSUS_FLOOR = 5404319552844595 / 9007199254740992"
    by (simp_all add: FLAT_LOW_def FLAT_HIGH_def CONSENSUS_FLOOR_def literals)
  show "FLAT_SPAN = 5404319552844595 / 18014398509481984"
    using fl_value [of "- 54" "5404319552844595 / 18014398509481984" 5404319552844595]
    by (simp add: FLAT_SPAN_def l)
  show d: "CONSENSUS_DROP = 3602879701896397 / 9007199254740992"
    using fl_value [of "- 54" "3602879701896397 / 9007199254740992" 7205759403792794]
    by (simp add: CONSENSUS_DROP_def f)
  show "fl (1 - CONSENSUS_DROP) = CONSENSUS_FLOOR"
    using fl_value [of "- 53" "5404319552844595 / 9007199254740992" 5404319552844595]
    by (simp add: d f)
qed

lemma multiplier_double: "fl (REGIME_MULTIPLIER r) = REGIME_MULTIPLIER r"
  by (cases r) (simp_all only: REGIME_MULTIPLIER.simps double_consts fl_idem)

lemma multiplier_bounds: "0 \<le> REGIME_MULTIPLIER r" "REGIME_MULTIPLIER r \<le> 1"
proof -
  show "0 \<le> REGIME_MULTIPLIER r" by (cases r) (simp_all add: literals)
  show "REGIME_MULTIPLIER r \<le> 1" by (cases r) (simp_all add: literals)
qed

text \<open>The share of the consensus penalty that applies at a flat fraction.\<close>

definition penalty :: "rat \<Rightarrow> rat" where
  "penalty flat = fl (fl (fl (flat - FLAT_LOW) / FLAT_SPAN) * CONSENSUS_DROP)"

lemma penalty_mono: "x \<le> y \<Longrightarrow> penalty x \<le> penalty y"
proof -
  assume "x \<le> y"
  then have "fl (x - FLAT_LOW) \<le> fl (y - FLAT_LOW)" by (intro fl_mono) simp
  then have "fl (x - FLAT_LOW) / FLAT_SPAN \<le> fl (y - FLAT_LOW) / FLAT_SPAN"
    by (rule divide_right_mono) (simp add: constants)
  then have "fl (fl (x - FLAT_LOW) / FLAT_SPAN) * CONSENSUS_DROP \<le> fl (fl (y - FLAT_LOW) / FLAT_SPAN) * CONSENSUS_DROP"
    by (intro mult_right_mono fl_mono) (simp_all add: constants)
  then show ?thesis unfolding penalty_def by (rule fl_mono)
qed

lemma penalty_ends: "penalty FLAT_LOW = 0" "penalty FLAT_HIGH = CONSENSUS_DROP"
proof -
  show "penalty FLAT_LOW = 0" by (simp add: penalty_def)
  have "fl (FLAT_HIGH - FLAT_LOW) / FLAT_SPAN = 1" by (simp add: FLAT_SPAN_def [symmetric] constants(4))
  then show "penalty FLAT_HIGH = CONSENSUS_DROP" by (simp add: penalty_def CONSENSUS_DROP_def fl_idem)
qed

definition flat_mult :: "rat \<Rightarrow> rat" where
  "flat_mult x = (if x < FLAT_LOW then 1 else if x > FLAT_HIGH then CONSENSUS_FLOOR else fl (1 - penalty x))"

lemma consensus_mult_flat: "consensus_mult (Some c) = flat_mult (ec_flat_pct c)"
  by (simp add: consensus_mult_def flat_mult_def penalty_def)

lemma flat_mult_bounds: "CONSENSUS_FLOOR \<le> flat_mult x" "flat_mult x \<le> 1"
proof -
  consider "x < FLAT_LOW" | "x > FLAT_HIGH" | "FLAT_LOW \<le> x" "x \<le> FLAT_HIGH" by linarith
  then have "CONSENSUS_FLOOR \<le> flat_mult x \<and> flat_mult x \<le> 1"
  proof cases
    case 3
    then have "0 \<le> penalty x" "penalty x \<le> CONSENSUS_DROP"
      using penalty_mono [of FLAT_LOW x] penalty_mono [of x FLAT_HIGH] by (simp_all add: penalty_ends)
    then have "fl (1 - CONSENSUS_DROP) \<le> fl (1 - penalty x)" "fl (1 - penalty x) \<le> fl 1"
      by (intro fl_mono; simp)+
    with 3 show ?thesis by (simp add: flat_mult_def constants(6))
  qed (simp_all add: flat_mult_def constants)
  then show "CONSENSUS_FLOOR \<le> flat_mult x" "flat_mult x \<le> 1" by simp_all
qed

lemma flat_mult_antitone: "x \<le> y \<Longrightarrow> flat_mult y \<le> flat_mult x"
proof -
  assume le: "x \<le> y"
  consider "x < FLAT_LOW" | "y > FLAT_HIGH" | "FLAT_LOW \<le> x" "y \<le> FLAT_HIGH" by linarith
  then show ?thesis
  proof cases
    case 1
    then show ?thesis using flat_mult_bounds(2) [of y] by (simp add: flat_mult_def)
  next
    case 2
    have "flat_mult y = CONSENSUS_FLOOR" using 2 by (simp add: flat_mult_def constants)
    then show ?thesis using flat_mult_bounds(1) [of x] by simp
  next
    case 3
    have "fl (1 - penalty y) \<le> fl (1 - penalty x)" using penalty_mono [OF le] by (intro fl_mono) simp
    with 3 le show ?thesis by (simp add: flat_mult_def)
  qed
qed

lemma confidence_factor_mono:
  "c \<le> c' \<Longrightarrow> fl (CONF_BASE + fl (CONF_SLOPE * c)) \<le> fl (CONF_BASE + fl (CONF_SLOPE * c'))"
  by (intro fl_mono add_left_mono mult_left_mono) (simp_all add: CONF_SLOPE_def)

lemma confidence_factor_bounds:
  assumes "0 \<le> c" and "c \<le> 1"
  shows "0 \<le> fl (CONF_BASE + fl (CONF_SLOPE * c))" and "fl (CONF_BASE + fl (CONF_SLOPE * c)) \<le> 1"
proof -
  have "fl (CONF_BASE + fl (CONF_SLOPE * 1)) = 1" "fl (CONF_BASE + fl (CONF_SLOPE * 0)) = 1 / 2"
    by (simp_all add: CONF_BASE_def CONF_SLOPE_def)
  then show "0 \<le> fl (CONF_BASE + fl (CONF_SLOPE * c))" "fl (CONF_BASE + fl (CONF_SLOPE * c)) \<le> 1"
    using confidence_factor_mono [OF assms(1)] confidence_factor_mono [OF assms(2)] by simp_all
qed

fun severity :: "regime \<Rightarrow> nat" where
  "severity RISK_ON = 0"
| "severity TRANSITION = 1"
| "severity RISK_OFF = 2"
| "severity CRISIS = 3"

lemma multiplier_antitone: "severity r \<le> severity r' \<Longrightarrow> REGIME_MULTIPLIER r' \<le> REGIME_MULTIPLIER r"
  by (cases r; cases r') (simp_all add: literals)

text \<open>
  The throttle throttles.  For confidences and flat fractions between 0 and 1, the position scale
  is between 0 and the multiplier of the regime; and a worse regime, a lower confidence or a larger
  share of flat signals never gives a larger scale, in the rounded arithmetic of the code.
\<close>

theorem throttle_monotone:
  assumes "0 \<le> rc_confidence r'" and "rc_confidence r' \<le> rc_confidence r" and "rc_confidence r \<le> 1"
    and "severity (rc_regime r) \<le> severity (rc_regime r')" and "ec_flat_pct c \<le> ec_flat_pct c'"
  shows "0 \<le> compute_position_scale (Some r') (Some c') \<and>
         compute_position_scale (Some r') (Some c') \<le> compute_position_scale (Some r) (Some c) \<and>
         compute_position_scale (Some r) (Some c) \<le> REGIME_MULTIPLIER (rc_regime r)"
proof -
  let ?f = "\<lambda>r. fl (CONF_BASE + fl (CONF_SLOPE * rc_confidence r))"
  have f: "?f r' \<le> ?f r" "0 \<le> ?f r'" "?f r \<le> 1"
    using assms(1-3) confidence_factor_mono confidence_factor_bounds by simp_all
  have m: "REGIME_MULTIPLIER (rc_regime r') * ?f r' \<le> REGIME_MULTIPLIER (rc_regime r) * ?f r"
    using multiplier_antitone [OF assms(4)] f multiplier_bounds by (intro mult_mono) simp_all
  have n: "0 \<le> regime_mult (Some r')"
    using f(2) multiplier_bounds(1) by (simp add: regime_mult_def dbl.rd_nonneg)
  have le: "regime_mult (Some r') \<le> regime_mult (Some r)" using m by (simp add: regime_mult_def fl_mono)
  have "REGIME_MULTIPLIER (rc_regime r) * ?f r \<le> REGIME_MULTIPLIER (rc_regime r)"
    using f(3) multiplier_bounds(1) by (intro mult_left_le) simp_all
  then have up: "regime_mult (Some r) \<le> REGIME_MULTIPLIER (rc_regime r)"
    using dbl.rd_le [OF multiplier_double] by (simp add: regime_mult_def)
  have c: "flat_mult (ec_flat_pct c') \<le> flat_mult (ec_flat_pct c)" "0 \<le> flat_mult (ec_flat_pct c')"
    "flat_mult (ec_flat_pct c) \<le> 1"
    using flat_mult_antitone [OF assms(5)] flat_mult_bounds [of "ec_flat_pct c'"] flat_mult_bounds [of "ec_flat_pct c"]
    by (simp_all add: constants)
  have "regime_mult (Some r') * flat_mult (ec_flat_pct c') \<le> regime_mult (Some r) * flat_mult (ec_flat_pct c)"
    using le c n by (intro mult_mono) simp_all
  moreover have "regime_mult (Some r) * flat_mult (ec_flat_pct c) \<le> REGIME_MULTIPLIER (rc_regime r)"
  proof -
    have "regime_mult (Some r) * flat_mult (ec_flat_pct c) \<le> regime_mult (Some r)"
      using c n le by (intro mult_left_le) simp_all
    with up show ?thesis by simp
  qed
  ultimately have "fl (regime_mult (Some r') * flat_mult (ec_flat_pct c')) \<le> fl (regime_mult (Some r) * flat_mult (ec_flat_pct c))"
    and "fl (regime_mult (Some r) * flat_mult (ec_flat_pct c)) \<le> REGIME_MULTIPLIER (rc_regime r)"
    using dbl.rd_le [OF multiplier_double] by (auto intro: fl_mono)
  then show ?thesis
    using multiplier_bounds [of "rc_regime r"] unfolding compute_position_scale_def consensus_mult_flat
    by linarith
qed

theorem throttle_monotone_witness:
  "compute_position_scale (Some \<lparr>rc_regime = CRISIS, rc_confidence = 1 / 2\<rparr>)
     (Some \<lparr>ec_flat_pct = 1 / 2, ec_signal_count = 4, ec_label = Consensus_TRANSITION\<rparr>)
   \<le> compute_position_scale (Some \<lparr>rc_regime = TRANSITION, rc_confidence = 1\<rparr>)
     (Some \<lparr>ec_flat_pct = 1 / 4, ec_signal_count = 4, ec_label = Consensus_RISK_ON\<rparr>)"
  using throttle_monotone
    [of "\<lparr>rc_regime = CRISIS, rc_confidence = 1 / 2\<rparr>" "\<lparr>rc_regime = TRANSITION, rc_confidence = 1\<rparr>"
        "\<lparr>ec_flat_pct = 1 / 4, ec_signal_count = 4, ec_label = Consensus_RISK_ON\<rparr>"
        "\<lparr>ec_flat_pct = 1 / 2, ec_signal_count = 4, ec_label = Consensus_TRANSITION\<rparr>"]
  by simp

section \<open>A vote that is all flat\<close>

definition all_zero :: "(string \<times> rat list) list \<Rightarrow> bool" where
  "all_zero d \<longleftrightarrow> (\<forall>(_, vs) \<in> set d. \<forall>v \<in> set vs. v = 0)"

lemma all_zero_add: "all_zero d \<Longrightarrow> all_zero (add_vote k 0 d)"
proof -
  assume z: "all_zero d"
  have "\<forall>(_, ws) \<in> set (AList.update k vs d). \<forall>v \<in> set ws. v = 0" if "\<forall>v \<in> set vs. v = 0" for vs
    using z that unfolding all_zero_def
    by (induction d) (auto split: if_splits)
  moreover have "\<forall>v \<in> set (vs @ [0]). v = 0" if "map_of d k = Some vs" for vs
    using z map_of_SomeD [OF that] by (auto simp: all_zero_def)
  ultimately have "all_zero (AList.update k (vs @ [0]) d)" if "map_of d k = Some vs" for vs
    using that unfolding all_zero_def by blast
  then show ?thesis
    using z by (auto simp: add_vote_def all_zero_def split: option.splits)
qed

lemma sum_from_zeros: "(\<forall>v \<in> set vs. v = 0) \<Longrightarrow> sum_from 0 0 vs = 0"
  by (induction vs) auto

lemma py_sum_zeros: "(\<forall>v \<in> set vs. v = 0) \<Longrightarrow> py_sum vs = 0"
  by (cases vs) (auto simp: sum_from_zeros)

lemma all_flat_votes:
  assumes "\<forall>ss \<in> set all_signals. \<forall>sig \<in> set (ss_signals ss). sg_weight sig = 0"
  shows "all_zero (asset_votes all_signals)"
proof -
  have "all_zero (fold (\<lambda>sig. add_vote (sg_asset sig) (sg_weight sig)) sigs d)"
    if "\<forall>sig \<in> set sigs. sg_weight sig = 0" and "all_zero d" for sigs d
    using that by (induction sigs arbitrary: d) (simp_all add: all_zero_add)
  from this [of "concat (map ss_signals all_signals)" "[]"] assms show ?thesis
    unfolding asset_votes_def by (simp add: all_zero_def)
qed

lemma all_flat_weights:
  assumes "all_signals \<noteq> []"
    and "\<forall>ss \<in> set all_signals. \<forall>sig \<in> set (ss_signals ss). sg_weight sig = 0"
    and "0 < py_round 4 usdc_floor"
  shows "aggregate_signals all_signals usdc_floor = [(''USDC'', py_round 4 usdc_floor)]"
    and "construct reg con (aggregate_signals all_signals usdc_floor) = [(''USDC'', 1)]"
proof -
  let ?raw = "map (\<lambda>(k, vs). (k, average vs)) (asset_votes all_signals)"
  have "average vs = 0" if "(k, vs) \<in> set (asset_votes all_signals)" for k vs
    using all_flat_votes [OF assms(2)] that by (auto simp: all_zero_def average_def py_sum_zeros)
  then have "py_sum (map snd ?raw) = 0" by (intro py_sum_zeros) auto
  then have "normalized usdc_floor ?raw = [(''USDC'', usdc_floor)]"
    by (simp add: normalized_def Let_def)
  then show a: "aggregate_signals all_signals usdc_floor = [(''USDC'', py_round 4 usdc_floor)]"
    using assms(1) by (simp add: aggregate_signals_def)
  have "fl (py_round 4 usdc_floor) = py_round 4 usdc_floor" by (simp add: py_round_def fl_idem)
  then show "construct reg con (aggregate_signals all_signals usdc_floor) = [(''USDC'', 1)]"
    using assms(3) by (simp add: a construct_def shrink_to_safe_asset_def SAFE_ASSET_def)
qed

text \<open>
  When every strategy votes flat, the aggregated weights are the USDC floor alone, so they sum
  to the floor and not to 1; only the throttle after it renormalises the book to all cash.
\<close>

theorem all_flat_vote:
  assumes "all_signals \<noteq> []"
    and "\<forall>ss \<in> set all_signals. \<forall>sig \<in> set (ss_signals ss). sg_weight sig = 0"
    and "0 < py_round 4 usdc_floor"
  shows "aggregate_signals all_signals usdc_floor = [(''USDC'', py_round 4 usdc_floor)] \<and>
         construct reg con (aggregate_signals all_signals usdc_floor) = [(''USDC'', 1)]"
  using all_flat_weights [OF assms] by blast

definition flat_votes :: "strategy_signals list" where
  "flat_votes = [\<lparr>ss_strategy_id = ''s'', ss_signals =
     [\<lparr>sg_asset = ''sSPY'', sg_strategy_id = ''s'', sg_strategy_name = ''trend'', sg_signal = FLAT,
       sg_weight = 0, sg_reason = ''below the moving average''\<rparr>]\<rparr>]"

lemma flat_votes_flat: "flat_votes \<noteq> []"
  "\<forall>ss \<in> set flat_votes. \<forall>sig \<in> set (ss_signals ss). sg_weight sig = 0"
  by (simp_all add: flat_votes_def)

lemma quarter: "py_round 4 (1 / 4) = 1 / 4"
proof -
  have "rne (2500 :: rat) = 2500" using rne_of_int [of 2500] by simp
  then show ?thesis using fl_exact [of 1 "- 2"] by (simp add: py_round_def)
qed

theorem all_flat_vote_witness:
  "aggregate_signals flat_votes (1 / 4) = [(''USDC'', 1 / 4)] \<and>
   construct None None (aggregate_signals flat_votes (1 / 4)) = [(''USDC'', 1)]"
proof -
  have "0 < py_round 4 (1 / 4)" by (simp add: quarter)
  from all_flat_vote [OF flat_votes_flat this] show ?thesis unfolding quarter by blast
qed

end
