(* ===== verification/Execution.thy ===== *)
theory Execution
  imports Sizing "HOL-Library.Product_Lexorder" "HOL-Library.Multiset"
begin

text \<open>
  One tick of the agent with the venue factored out: \<^verbatim>\<open>execution/core.py\<close>,
  \<^verbatim>\<open>execution/venue.py\<close> (the names an instrument has on chain), \<^verbatim>\<open>execution/paper_venue.py\<close> with the
  table \<open>paper_agent_trades\<close>, and the tick of \<^verbatim>\<open>services/paper_agent_execution.py\<close>.

  \<open>compute_trades\<close> iterates over a Python set; the order of that iteration is an argument.
\<close>

section \<open>Portfolios, targets, trades: models/portfolio.py\<close>

record holding =
  hd_symbol :: string
  hd_token_address :: string
  hd_amount :: rat
  hd_value_usdc :: rat
  hd_weight :: rat
  hd_priced :: bool

record portfolio =
  pf_vault_address :: string
  pf_holdings :: "holding list"
  pf_total_value_usdc :: rat

record target_allocation =
  ta_symbol :: string
  ta_token_address :: string
  ta_weight :: rat
  ta_strategy_ids :: "string list"

datatype trade_direction = BUY | SELL

record trade_order =
  to_symbol :: string
  to_token_address :: string
  to_direction :: trade_direction
  to_amount :: rat
  to_estimated_usdc_value :: rat
  to_max_slippage_bps :: int

text \<open>A dictionary built by a comprehension: the last item of a key wins.\<close>

definition weights_dict :: "portfolio \<Rightarrow> string \<Rightarrow> rat option" where
  "weights_dict pf = map_of (rev (map (\<lambda>h. (hd_symbol h, hd_weight h)) (pf_holdings pf)))"

definition target_map :: "target_allocation list \<Rightarrow> string \<Rightarrow> target_allocation option" where
  "target_map ts = map_of (rev (map (\<lambda>t. (ta_symbol t, t)) ts))"

definition weight_of :: "portfolio \<Rightarrow> string \<Rightarrow> rat" where
  "weight_of pf symbol = (case weights_dict pf symbol of None \<Rightarrow> 0 | Some w \<Rightarrow> w)"

section \<open>The decision: execution/core.py\<close>

definition DRIFT_THRESHOLD :: rat where
  "DRIFT_THRESHOLD = fl (15 / 100)"

record tick_decision =
  td_tick_id :: string
  td_portfolio :: portfolio
  td_targets :: "target_allocation list"
  td_trades :: "trade_order list"
  td_signals :: "strategy_signals list"
  td_decided_at :: int

definition target_weight :: "tick_decision \<Rightarrow> string \<Rightarrow> rat" where
  "target_weight d symbol =
     (case find (\<lambda>t. ta_symbol t = symbol) (td_targets d) of None \<Rightarrow> 0 | Some t \<Rightarrow> ta_weight t)"

definition prior_weight :: "tick_decision \<Rightarrow> string \<Rightarrow> rat" where
  "prior_weight d symbol = weight_of (td_portfolio d) symbol"

definition signal_for :: "tick_decision \<Rightarrow> string \<Rightarrow> asset_signal option" where
  "signal_for d symbol =
     find (\<lambda>sig. sg_asset sig = symbol) (concat (map ss_signals (td_signals d)))"

definition symbol_strategies :: "strategy_signals list \<Rightarrow> string \<Rightarrow> string list" where
  "symbol_strategies all_signals symbol =
     concat (map (\<lambda>ss. map (\<lambda>_. ss_strategy_id ss) (filter (\<lambda>sig. sg_asset sig = symbol) (ss_signals ss))) all_signals)"

definition weights_to_targets ::
    "weights \<Rightarrow> strategy_signals list \<Rightarrow> (string \<Rightarrow> string) \<Rightarrow> target_allocation list" where
  "weights_to_targets ws all_signals token_address =
     map (\<lambda>(symbol, weight).
            \<lparr>ta_symbol = symbol, ta_token_address = token_address symbol, ta_weight = weight,
             ta_strategy_ids = symbol_strategies all_signals symbol\<rparr>) ws"

definition unpriced :: "portfolio \<Rightarrow> string set" where
  "unpriced pf = hd_symbol ` set (filter (\<lambda>h. \<not> hd_priced h) (pf_holdings pf))"

definition trade_for :: "rat \<Rightarrow> portfolio \<Rightarrow> target_allocation list \<Rightarrow> string \<Rightarrow> trade_order option" where
  "trade_for drift_threshold pf targets symbol =
     (if symbol \<in> unpriced pf then None
      else let target = target_map targets symbol;
               target_w = (case target of None \<Rightarrow> 0 | Some t \<Rightarrow> ta_weight t);
               token_addr = (case target of None \<Rightarrow> [] | Some t \<Rightarrow> ta_token_address t);
               drift = fl (target_w - weight_of pf symbol)
           in if \<bar>drift\<bar> < drift_threshold then None
              else let usdc_value = fl (\<bar>drift\<bar> * pf_total_value_usdc pf)
                   in Some \<lparr>to_symbol = symbol, to_token_address = token_addr,
                            to_direction = (if drift > 0 then BUY else SELL),
                            to_amount = py_round 6 usdc_value,
                            to_estimated_usdc_value = py_round 2 usdc_value,
                            to_max_slippage_bps = 100\<rparr>)"

definition all_symbols :: "portfolio \<Rightarrow> target_allocation list \<Rightarrow> string set" where
  "all_symbols pf targets = ta_symbol ` set targets \<union> hd_symbol ` set (pf_holdings pf)"

definition compute_trades ::
    "string list \<Rightarrow> portfolio \<Rightarrow> target_allocation list \<Rightarrow> trade_order list" where
  "compute_trades order pf targets = List.map_filter (trade_for DRIFT_THRESHOLD pf targets) order"

definition enumerates :: "string list \<Rightarrow> string set \<Rightarrow> bool" where
  "enumerates order S \<longleftrightarrow> distinct order \<and> set order = S"

definition targets_from_signals ::
    "strategy_signals list \<Rightarrow> (string \<Rightarrow> string) \<Rightarrow> regime_classification option \<Rightarrow>
     ensemble_consensus option \<Rightarrow> rat \<Rightarrow> weights \<times> target_allocation list" where
  "targets_from_signals all_signals token_address reg con usdc_floor =
     (let ws = aggregate_signals all_signals usdc_floor
      in (ws, weights_to_targets (construct reg con ws) all_signals token_address))"

section \<open>Venues: execution/venue.py, execution/paper\_venue.py\<close>

definition chain_token_address :: "string \<Rightarrow> (string \<Rightarrow> string option) \<Rightarrow> string \<Rightarrow> string" where
  "chain_token_address usdc_address synth_addresses symbol =
     (if symbol = ''USDC'' then usdc_address
      else case synth_addresses symbol of None \<Rightarrow> [] | Some a \<Rightarrow> a)"

definition paper_token_address :: "string \<Rightarrow> string" where
  "paper_token_address symbol = ''paper:'' @ symbol"

definition PAPER_INDEX_BASE :: rat where
  "PAPER_INDEX_BASE = 1"

definition DUST :: rat where
  "DUST = fl (1 / 10 ^ 9)"

record paper_agent_trade =
  pt_id :: string
  pt_deployment_id :: string
  pt_tick_id :: string
  pt_decided_at :: int
  pt_symbol :: string
  pt_direction :: trade_direction
  pt_prior_weight :: rat
  pt_target_weight :: rat
  pt_weight_delta :: rat
  pt_signal_strategy_id :: "string option"
  pt_signal_state :: "signal_state option"
  pt_signal_reason :: "string option"
  pt_spec_hash :: string

type_synonym trade_ledger = "paper_agent_trade list"

definition folded_weights :: "trade_ledger \<Rightarrow> string \<Rightarrow> weights" where
  "folded_weights ledger account =
     fold (\<lambda>row. AList.update (pt_symbol row) (pt_target_weight row))
       (sort_key (\<lambda>row. (pt_decided_at row, pt_id row)) (filter (\<lambda>row. pt_deployment_id row = account) ledger))
       [(''USDC'', PAPER_INDEX_BASE)]"

definition read_portfolio :: "string \<Rightarrow> trade_ledger \<Rightarrow> portfolio" where
  "read_portfolio account ledger =
     \<lparr>pf_vault_address = ''paper:'' @ account,
      pf_holdings = map (\<lambda>(symbol, weight).
          \<lparr>hd_symbol = symbol, hd_token_address = paper_token_address symbol, hd_amount = weight,
           hd_value_usdc = fl (weight * PAPER_INDEX_BASE), hd_weight = weight, hd_priced = True\<rparr>)
        (filter (\<lambda>(_, weight). weight > DUST) (sort_key fst (folded_weights ledger account))),
      pf_total_value_usdc = PAPER_INDEX_BASE\<rparr>"

definition trade_row :: "string \<Rightarrow> string \<Rightarrow> tick_decision \<Rightarrow> trade_order \<Rightarrow> string \<Rightarrow> paper_agent_trade" where
  "trade_row spec_hash account d trade new_id =
     (let prior = prior_weight d (to_symbol trade); target = target_weight d (to_symbol trade);
          signal = signal_for d (to_symbol trade)
      in \<lparr>pt_id = new_id, pt_deployment_id = account, pt_tick_id = td_tick_id d,
          pt_decided_at = td_decided_at d, pt_symbol = to_symbol trade, pt_direction = to_direction trade,
          pt_prior_weight = prior, pt_target_weight = target,
          pt_weight_delta = py_round 10 (fl (target - prior)),
          pt_signal_strategy_id = map_option sg_strategy_id signal,
          pt_signal_state = map_option sg_signal signal,
          pt_signal_reason = map_option sg_reason signal, pt_spec_hash = spec_hash\<rparr>)"

text \<open>The table's unique constraint and primary key.\<close>

definition ledger_keys_ok :: "trade_ledger \<Rightarrow> bool" where
  "ledger_keys_ok ledger \<longleftrightarrow>
     distinct (map (\<lambda>r. (pt_deployment_id r, pt_tick_id r, pt_symbol r)) ledger) \<and> distinct (map pt_id ledger)"

definition execute_trades ::
    "string \<Rightarrow> string list \<Rightarrow> string \<Rightarrow> tick_decision \<Rightarrow> (trade_ledger, string list) op" where
  "execute_trades spec_hash ids account d ledger =
     (let existing = pt_symbol ` set (filter (\<lambda>r. pt_deployment_id r = account \<and> pt_tick_id r = td_tick_id d) ledger);
          new = filter (\<lambda>t. to_symbol t \<notin> existing) (td_trades d);
          written = map2 (trade_row spec_hash account d) new ids
      in if td_trades d = [] then (Inr [], ledger)
         else if \<not> ledger_keys_ok (ledger @ written) then (Inl IntegrityError, ledger)
         else (Inr (map pt_id written), ledger @ written))"

section \<open>A paper tick: services/paper\_agent\_execution.py\<close>

text \<open>
  The part of \<open>_tick_deployment\<close> after the signals: \<open>usdc_floor\<close> is the value of
  \<open>AGENT_USDC_FLOOR\<close>, \<open>ids\<close> the identifiers the table hands out, \<open>order\<close> the iteration order.
\<close>

definition paper_decision ::
    "string list \<Rightarrow> string \<Rightarrow> int \<Rightarrow> rat \<Rightarrow> strategy_signals list \<Rightarrow> string \<Rightarrow> trade_ledger \<Rightarrow> tick_decision" where
  "paper_decision order tick_id now usdc_floor all_signals account ledger =
     (let targets = snd (targets_from_signals all_signals paper_token_address None None usdc_floor);
          pf = read_portfolio account ledger
      in \<lparr>td_tick_id = tick_id, td_portfolio = pf, td_targets = targets,
          td_trades = compute_trades order pf targets, td_signals = all_signals, td_decided_at = now\<rparr>)"

definition tick_deployment ::
    "string list \<Rightarrow> string \<Rightarrow> string list \<Rightarrow> string \<Rightarrow> int \<Rightarrow> rat \<Rightarrow> strategy_signals list \<Rightarrow> string \<Rightarrow>
     (trade_ledger, nat) op" where
  "tick_deployment order spec_hash ids tick_id now usdc_floor all_signals account ledger =
     (if all_signals = [] then (Inr 0, ledger)
      else case execute_trades spec_hash ids account
                  (paper_decision order tick_id now usdc_floor all_signals account ledger) ledger of
             (Inl e, ledger') \<Rightarrow> (Inl e, ledger')
           | (Inr written, ledger') \<Rightarrow> (Inr (length written), ledger'))"

section \<open>What is traded\<close>

definition wanted :: "target_allocation list \<Rightarrow> string \<Rightarrow> rat" where
  "wanted targets symbol = (case target_map targets symbol of None \<Rightarrow> 0 | Some t \<Rightarrow> ta_weight t)"

definition drift :: "portfolio \<Rightarrow> target_allocation list \<Rightarrow> string \<Rightarrow> rat" where
  "drift pf targets symbol = fl (wanted targets symbol - weight_of pf symbol)"

lemma threshold_value: "DRIFT_THRESHOLD = 5404319552844595 / 36028797018963968"
  using fl_value [of "- 55" "3 / 20" 5404319552844595] by (simp add: DRIFT_THRESHOLD_def)

lemma threshold_pos: "0 < DRIFT_THRESHOLD"
  by (simp add: threshold_value)

lemma trade_for_None:
  "trade_for th pf targets symbol = None \<longleftrightarrow> symbol \<in> unpriced pf \<or> \<bar>drift pf targets symbol\<bar> < th"
  by (simp add: trade_for_def drift_def wanted_def Let_def)

lemma trade_for_Some:
  assumes "trade_for th pf targets symbol = Some tr"
  shows "to_symbol tr = symbol" and "symbol \<notin> unpriced pf" and "th \<le> \<bar>drift pf targets symbol\<bar>"
    and "to_direction tr = (if drift pf targets symbol > 0 then BUY else SELL)"
    and "to_amount tr = py_round 6 (fl (\<bar>drift pf targets symbol\<bar> * pf_total_value_usdc pf))"
  using assms by (auto simp: trade_for_def drift_def wanted_def Let_def split: if_splits)

lemma set_compute_trades:
  "tr \<in> set (compute_trades order pf targets) \<longleftrightarrow>
     to_symbol tr \<in> set order \<and> trade_for DRIFT_THRESHOLD pf targets (to_symbol tr) = Some tr"
proof -
  let ?f = "trade_for DRIFT_THRESHOLD pf targets"
  have "tr \<in> set (compute_trades order pf targets) \<longleftrightarrow> (\<exists>symbol \<in> set order. ?f symbol = Some tr)"
    by (induction order) (auto simp: compute_trades_def map_filter_simps split: option.splits)
  also have "\<dots> \<longleftrightarrow> to_symbol tr \<in> set order \<and> ?f (to_symbol tr) = Some tr"
    by (auto dest: trade_for_Some(1))
  finally show ?thesis .
qed

lemma compute_trades_Nil:
  "compute_trades order pf targets = [] \<longleftrightarrow> (\<forall>symbol \<in> set order. trade_for DRIFT_THRESHOLD pf targets symbol = None)"
  by (induction order) (simp_all add: compute_trades_def map_filter_simps split: option.splits)

lemma trade_symbols:
  "map to_symbol (compute_trades order pf targets) =
     filter (\<lambda>symbol. trade_for DRIFT_THRESHOLD pf targets symbol \<noteq> None) order"
  by (induction order)
    (auto simp: compute_trades_def map_filter_simps dest: trade_for_Some(1) split: option.splits)

lemma drift_outside:
  assumes "symbol \<notin> all_symbols pf targets"
  shows "drift pf targets symbol = 0"
proof -
  have "target_map targets symbol = None" "weights_dict pf symbol = None"
    using assms by (auto simp: all_symbols_def target_map_def weights_dict_def map_of_eq_None_iff)
  then show ?thesis by (simp add: drift_def wanted_def weight_of_def)
qed

lemma trade_symbols_iff:
  assumes "enumerates order (all_symbols pf targets)"
  shows "symbol \<in> to_symbol ` set (compute_trades order pf targets) \<longleftrightarrow>
           symbol \<notin> unpriced pf \<and> DRIFT_THRESHOLD \<le> \<bar>drift pf targets symbol\<bar>"
proof -
  have "symbol \<in> set order" if "DRIFT_THRESHOLD \<le> \<bar>drift pf targets symbol\<bar>"
  proof (rule ccontr)
    assume "symbol \<notin> set order"
    then have "drift pf targets symbol = 0" using assms by (intro drift_outside) (simp add: enumerates_def)
    with that threshold_pos show False by simp
  qed
  moreover have "to_symbol ` set (compute_trades order pf targets) =
      set (filter (\<lambda>symbol. trade_for DRIFT_THRESHOLD pf targets symbol \<noteq> None) order)"
    unfolding trade_symbols [symmetric] by simp
  ultimately show ?thesis by (auto simp: trade_for_None simp del: not_None_eq)
qed

lemma trade_amount_nonneg:
  assumes "trade_for th pf targets symbol = Some tr" and "0 \<le> pf_total_value_usdc pf"
  shows "0 \<le> to_amount tr"
proof -
  have "0 \<le> fl (\<bar>drift pf targets symbol\<bar> * pf_total_value_usdc pf)"
    using assms(2) by (intro dbl.rd_nonneg mult_nonneg_nonneg) simp_all
  then have "0 \<le> rne (fl (\<bar>drift pf targets symbol\<bar> * pf_total_value_usdc pf) * 10 ^ 6)"
    using rne_mono [of 0] rne_of_int [of 0] by fastforce
  then show ?thesis
    unfolding trade_for_Some(5) [OF assms(1)] py_round_def by (intro dbl.rd_nonneg divide_nonneg_nonneg) simp_all
qed

lemma trade_is_buy:
  assumes "trade_for th pf targets symbol = Some tr" and "0 < th"
  shows "to_direction tr = BUY \<longleftrightarrow> weight_of pf symbol < wanted targets symbol"
proof -
  have "drift pf targets symbol > 0 \<longleftrightarrow> weight_of pf symbol < wanted targets symbol"
  proof
    assume "drift pf targets symbol > 0"
    then show "weight_of pf symbol < wanted targets symbol"
      unfolding drift_def by (auto dest: dbl.rd_pos_imp)
  next
    assume "weight_of pf symbol < wanted targets symbol"
    then have "0 \<le> drift pf targets symbol" unfolding drift_def by (intro dbl.rd_nonneg) simp
    with trade_for_Some(3) [OF assms(1)] assms(2) show "drift pf targets symbol > 0" by linarith
  qed
  then show ?thesis unfolding trade_for_Some(4) [OF assms(1)] by simp
qed

text \<open>
  C9: exactly the drifted legs are traded.  Whatever order the symbols are visited in, a tick trades
  a symbol exactly when its holdings are priced and the rounded difference between its target and its
  current weight reaches the threshold; it trades each once, buys exactly when the target exceeds the
  holding, and never trades a negative amount.
\<close>

theorem trades_exact:
  assumes "enumerates order (all_symbols pf targets)" and "0 \<le> pf_total_value_usdc pf"
  shows "to_symbol ` set (compute_trades order pf targets) =
           {symbol. symbol \<notin> unpriced pf \<and> DRIFT_THRESHOLD \<le> \<bar>drift pf targets symbol\<bar>} \<and>
         distinct (map to_symbol (compute_trades order pf targets)) \<and>
         (\<forall>tr \<in> set (compute_trades order pf targets).
            0 \<le> to_amount tr \<and>
            (to_direction tr = BUY \<longleftrightarrow> weight_of pf (to_symbol tr) < wanted targets (to_symbol tr)))"
proof (intro conjI)
  show "to_symbol ` set (compute_trades order pf targets) =
      {symbol. symbol \<notin> unpriced pf \<and> DRIFT_THRESHOLD \<le> \<bar>drift pf targets symbol\<bar>}"
    using trade_symbols_iff [OF assms(1)] by blast
  show "distinct (map to_symbol (compute_trades order pf targets))"
    using assms(1) by (simp add: trade_symbols enumerates_def)
  show "\<forall>tr \<in> set (compute_trades order pf targets). 0 \<le> to_amount tr \<and>
      (to_direction tr = BUY \<longleftrightarrow> weight_of pf (to_symbol tr) < wanted targets (to_symbol tr))"
    using assms(2) threshold_pos by (auto simp: set_compute_trades trade_amount_nonneg trade_is_buy)
qed

section \<open>What a venue owes the decision\<close>

lemma map_of_rev: "distinct (map fst xs) \<Longrightarrow> map_of (rev xs) = map_of xs"
proof (induction xs)
  case (Cons x xs)
  then have "map_of xs (fst x) = None" by (auto simp: map_of_eq_None_iff)
  with Cons show ?case by (cases x) (auto simp: map_of_append map_add_def fun_eq_iff split: option.splits)
qed simp

lemma wanted_target_weight:
  assumes "distinct (map ta_symbol (td_targets d))"
  shows "wanted (td_targets d) symbol = target_weight d symbol"
proof -
  have "map_of (rev (map (\<lambda>t. (ta_symbol t, t)) ts)) symbol = find (\<lambda>t. ta_symbol t = symbol) ts"
    if "distinct (map ta_symbol ts)" for ts :: "target_allocation list"
  proof -
    have "map_of (rev (map (\<lambda>t. (ta_symbol t, t)) ts)) = map_of (map (\<lambda>t. (ta_symbol t, t)) ts)"
      using that by (intro map_of_rev) (simp add: comp_def)
    moreover have "map_of (map (\<lambda>t. (ta_symbol t, t)) ts) symbol = find (\<lambda>t. ta_symbol t = symbol) ts"
      by (induction ts) auto
    ultimately show ?thesis by simp
  qed
  with assms show ?thesis by (simp add: wanted_def target_map_def target_weight_def)
qed

lemma dust_small: "DUST < DRIFT_THRESHOLD"
proof -
  have "DUST \<le> fl (15 / 100)" unfolding DUST_def by (rule fl_mono) simp
  moreover have "DUST \<noteq> DRIFT_THRESHOLD"
  proof
    assume "DUST = DRIFT_THRESHOLD"
    moreover have "DUST \<le> fl (1 / 2 ^ 10)" unfolding DUST_def by (rule fl_mono) simp
    moreover have "fl (1 / 2 ^ 10) = 1 / 2 ^ 10" using fl_exact [of 1 "- 10"] by simp
    ultimately show False by (simp add: threshold_value)
  qed
  ultimately show ?thesis by (simp add: DRIFT_THRESHOLD_def)
qed

text \<open>
  After a decision is executed, the venue reads a traded symbol at its target weight (or not at all,
  when the target is dust) and every other symbol as before; and it prices all it holds.  Then a
  second decision on the same targets has nothing to do.
\<close>

locale settling_venue =
  fixes read_pf :: "'s \<Rightarrow> portfolio"
    and exec :: "tick_decision \<Rightarrow> 's \<Rightarrow> 's"
    and ok :: "tick_decision \<Rightarrow> 's \<Rightarrow> bool"
  assumes priced: "unpriced (read_pf s) = {}"
    and traded: "ok d s \<Longrightarrow> tr \<in> set (td_trades d) \<Longrightarrow>
      weight_of (read_pf (exec d s)) (to_symbol tr) =
        (if DUST < target_weight d (to_symbol tr) then target_weight d (to_symbol tr) else 0)"
    and untraded: "ok d s \<Longrightarrow> symbol \<notin> to_symbol ` set (td_trades d) \<Longrightarrow>
      weight_of (read_pf (exec d s)) symbol = weight_of (read_pf s) symbol"
begin

lemma settles:
  assumes "ok d s" and "td_trades d = compute_trades order (read_pf s) (td_targets d)"
    and "enumerates order (all_symbols (read_pf s) (td_targets d))"
    and "distinct (map ta_symbol (td_targets d))" and "\<forall>t \<in> set (td_targets d). 0 \<le> ta_weight t"
  shows "compute_trades order' (read_pf (exec d s)) (td_targets d) = []"
  unfolding compute_trades_Nil trade_for_None
proof (intro ballI disjI2)
  fix symbol
  let ?t = "target_weight d symbol"
  have w: "wanted (td_targets d) symbol = ?t" by (rule wanted_target_weight [OF assms(4)])
  have t: "0 \<le> ?t" using assms(5) by (auto simp: target_weight_def find_Some_iff split: option.splits)
  show "\<bar>drift (read_pf (exec d s)) (td_targets d) symbol\<bar> < DRIFT_THRESHOLD"
  proof (cases "symbol \<in> to_symbol ` set (td_trades d)")
    case True
    then have "weight_of (read_pf (exec d s)) symbol = (if DUST < ?t then ?t else 0)"
      using traded [OF assms(1)] by auto
    moreover have "fl ?t \<le> DUST" "0 \<le> fl ?t" if "\<not> DUST < ?t"
      using that t by (auto intro: dbl.rd_le dbl.rd_nonneg simp: DUST_def fl_idem)
    ultimately show ?thesis using dust_small threshold_pos by (auto simp: drift_def w)
  next
    case False
    then have "drift (read_pf (exec d s)) (td_targets d) symbol = drift (read_pf s) (td_targets d) symbol"
      using untraded [OF assms(1)] by (simp add: drift_def)
    moreover have "\<not> DRIFT_THRESHOLD \<le> \<bar>drift (read_pf s) (td_targets d) symbol\<bar>"
      using False trade_symbols_iff [OF assms(3), of symbol] priced [of s] unfolding assms(2) by simp
    ultimately show ?thesis by simp
  qed
qed

end

section \<open>The paper venue settles\<close>

lemma map_of_fold_update:
  "map_of (fold (\<lambda>x. AList.update (k x) (v x)) xs al) = map_of al ++ map_of (rev (map (\<lambda>x. (k x, v x)) xs))"
  by (induction xs arbitrary: al) (simp_all add: update_conv' map_add_def fun_eq_iff split: option.splits)

lemma folded_distinct: "distinct (map fst (folded_weights ledger account))"
proof -
  have d: "distinct (map fst (fold (\<lambda>r. AList.update (k r) (v r)) xs al))"
    if "distinct (map fst al)" for k v al and xs :: "paper_agent_trade list"
    using that by (induction xs arbitrary: al) (simp_all add: distinct_update)
  show ?thesis unfolding folded_weights_def by (rule d) simp
qed

lemma map_of_filter_distinct:
  assumes "distinct (map fst d)"
  shows "map_of (filter keep d) s = Option.bind (map_of d s) (\<lambda>w. if keep (s, w) then Some w else None)"
  using assms
proof (induction d)
  case (Cons x d)
  show ?case
  proof (cases "fst x = s")
    case True
    with Cons.prems have "map_of d s = None" by (auto simp: map_of_eq_None_iff)
    with True Cons show ?thesis by (cases x) auto
  next
    case False
    with Cons show ?thesis by (cases x) auto
  qed
qed simp

lemma weight_of_paper:
  "weight_of (read_portfolio account ledger) symbol =
     (case map_of (folded_weights ledger account) symbol of None \<Rightarrow> 0 | Some w \<Rightarrow> if DUST < w then w else 0)"
proof -
  let ?fw = "folded_weights ledger account"
  let ?xs = "filter (\<lambda>(_, weight). weight > DUST) (sort_key fst ?fw)"
  have ds: "distinct (map fst (sort_key fst ?fw))"
    using folded_distinct [of ledger account]
    by (metis distinct_map distinct_sort set_sort)
  have "weights_dict (read_portfolio account ledger) = map_of (rev ?xs)"
    by (simp add: weights_dict_def read_portfolio_def case_prod_unfold rev_map comp_def)
  also have "\<dots> = map_of ?xs" using ds by (intro map_of_rev) (simp add: distinct_map_filter)
  finally have "weights_dict (read_portfolio account ledger) symbol = map_of ?xs symbol" by simp
  also have "\<dots> = (case map_of (sort_key fst ?fw) symbol of None \<Rightarrow> None | Some v \<Rightarrow> if DUST < v then Some v else None)"
    by (simp add: map_of_filter_distinct [OF ds] split: bind_splits option.splits)
  also have "map_of (sort_key fst ?fw) = map_of ?fw"
    using ds folded_distinct by (simp add: map_of_inject_set)
  finally show ?thesis by (simp add: weight_of_def split: option.splits)
qed

lemma sort_key_append:
  assumes "\<forall>x \<in> set xs. \<forall>y \<in> set ys. f x < f y"
  shows "sort_key f (xs @ ys) = sort_key f xs @ sort_key f ys"
proof (rule properties_for_sort_key)
  show "mset (sort_key f xs @ sort_key f ys) = mset (xs @ ys)" by simp
  show "sorted (map f (sort_key f xs @ sort_key f ys))"
    using assms by (auto simp: sorted_append less_imp_le)
  show "filter (\<lambda>x. f k = f x) (sort_key f xs @ sort_key f ys) = filter (\<lambda>x. f k = f x) (xs @ ys)"
    if "k \<in> set (sort_key f xs @ sort_key f ys)" for k
    by (simp add: sort_key_stable eq_commute [of "f k"])
qed

definition paper_ok :: "string list \<Rightarrow> string \<Rightarrow> tick_decision \<Rightarrow> trade_ledger \<Rightarrow> bool" where
  "paper_ok ids account d ledger \<longleftrightarrow>
     ledger_keys_ok ledger \<and> distinct ids \<and> set ids \<inter> pt_id ` set ledger = {} \<and>
     length (td_trades d) \<le> length ids \<and> distinct (map to_symbol (td_trades d)) \<and>
     (\<forall>r \<in> set ledger. pt_deployment_id r = account \<longrightarrow>
        pt_tick_id r \<noteq> td_tick_id d \<and> pt_decided_at r < td_decided_at d)"

lemma written_rows:
  assumes "length trades \<le> length ids"
  shows "map pt_symbol (map2 (trade_row h account d) trades ids) = map to_symbol trades"
    and "map pt_id (map2 (trade_row h account d) trades ids) = take (length trades) ids"
    and "r \<in> set (map2 (trade_row h account d) trades ids) \<Longrightarrow>
      pt_deployment_id r = account \<and> pt_tick_id r = td_tick_id d \<and> pt_decided_at r = td_decided_at d \<and>
      pt_target_weight r = target_weight d (pt_symbol r) \<and> pt_prior_weight r = prior_weight d (pt_symbol r)"
  using assms
proof (induction trades ids rule: list_induct2')
  case (4 t trades i ids)
  { case 1 with 4 show ?case by (simp add: trade_row_def Let_def) }
  { case 2 with 4 show ?case by (simp add: trade_row_def Let_def) }
  { case 3 with 4 show ?case by (auto simp: trade_row_def Let_def) }
qed (auto simp: trade_row_def Let_def)

lemma paper_executes:
  assumes "paper_ok ids account d ledger"
  shows "execute_trades h ids account d ledger =
     (Inr (take (length (td_trades d)) ids), ledger @ map2 (trade_row h account d) (td_trades d) ids)"
proof -
  let ?w = "map2 (trade_row h account d) (td_trades d) ids"
  have len: "length (td_trades d) \<le> length ids" using assms by (simp add: paper_ok_def)
  have "filter (\<lambda>r. pt_deployment_id r = account \<and> pt_tick_id r = td_tick_id d) ledger = []"
    using assms by (auto simp: paper_ok_def filter_empty_conv)
  moreover have "ledger_keys_ok (ledger @ ?w)"
    unfolding ledger_keys_ok_def
  proof
    have "distinct (map (\<lambda>r. (pt_deployment_id r, pt_tick_id r, pt_symbol r)) ?w)"
    proof -
      have "distinct (map pt_symbol ?w)" unfolding written_rows(1) [OF len] using assms by (simp add: paper_ok_def)
      then show ?thesis by (auto simp: distinct_map inj_on_def)
    qed
    moreover have "(pt_deployment_id r, pt_tick_id r, pt_symbol r) \<noteq> (pt_deployment_id r', pt_tick_id r', pt_symbol r')"
      if "r \<in> set ledger" "r' \<in> set ?w" for r r'
      using that assms written_rows(3) [OF len that(2)] by (auto simp: paper_ok_def)
    ultimately show "distinct (map (\<lambda>r. (pt_deployment_id r, pt_tick_id r, pt_symbol r)) (ledger @ ?w))"
      using assms by (auto simp: paper_ok_def ledger_keys_ok_def)
    have "set (map pt_id ?w) \<subseteq> set ids" unfolding written_rows(2) [OF len] by (rule set_take_subset)
    moreover have "distinct (map pt_id ?w)" unfolding written_rows(2) [OF len] using assms by (simp add: paper_ok_def)
    ultimately have "distinct (map pt_id ledger @ map pt_id ?w)"
      using assms unfolding distinct_append by (auto simp only: paper_ok_def ledger_keys_ok_def set_map)
    then show "distinct (map pt_id (ledger @ ?w))" by (simp only: map_append)
  qed
  ultimately show ?thesis
    using written_rows(2) [OF len, of h account d]
    by (simp add: execute_trades_def Let_def)
qed

lemma folded_after:
  assumes "paper_ok ids account d ledger"
  shows "map_of (folded_weights (snd (execute_trades h ids account d ledger)) account) symbol =
     (if symbol \<in> to_symbol ` set (td_trades d) then Some (target_weight d symbol)
      else map_of (folded_weights ledger account) symbol)"
proof -
  let ?w = "map2 (trade_row h account d) (td_trades d) ids"
  let ?k = "\<lambda>r. (pt_decided_at r, pt_id r)"
  have len: "length (td_trades d) \<le> length ids" using assms by (simp add: paper_ok_def)
  note rows = written_rows(3) [OF len, of _ h account d]
  have "filter (\<lambda>r. pt_deployment_id r = account) (ledger @ ?w) =
      filter (\<lambda>r. pt_deployment_id r = account) ledger @ ?w"
    using rows by (auto simp: filter_id_conv)
  moreover have "\<forall>x \<in> set (filter (\<lambda>r. pt_deployment_id r = account) ledger). \<forall>y \<in> set ?w. ?k x < ?k y"
    using assms rows by (auto simp: paper_ok_def less_prod_def)
  ultimately have "folded_weights (ledger @ ?w) account =
      fold (\<lambda>r. AList.update (pt_symbol r) (pt_target_weight r)) (sort_key ?k ?w) (folded_weights ledger account)"
    by (simp add: folded_weights_def sort_key_append)
  then have "map_of (folded_weights (ledger @ ?w) account) =
      map_of (folded_weights ledger account) ++
      map_of (rev (map (\<lambda>r. (pt_symbol r, pt_target_weight r)) (sort_key ?k ?w)))"
    by (simp add: map_of_fold_update)
  moreover have "rev (map (\<lambda>r. (pt_symbol r, pt_target_weight r)) (sort_key ?k ?w)) =
      map (\<lambda>s. (s, target_weight d s)) (rev (map pt_symbol (sort_key ?k ?w)))"
    using rows by (auto simp: rev_map)
  moreover have "set (rev (map pt_symbol (sort_key ?k ?w))) = to_symbol ` set (td_trades d)"
    using arg_cong [OF written_rows(1) [OF len, of h account d], of set]
    by (simp only: set_rev set_map set_sort)
  ultimately show ?thesis
    by (simp add: paper_executes [OF assms] map_of_map_restrict map_add_def restrict_map_def)
qed

interpretation paper: settling_venue "read_portfolio account"
  "\<lambda>d ledger. snd (execute_trades h ids account d ledger)" "paper_ok ids account" for account h ids
proof
  show "unpriced (read_portfolio account s) = {}" for s
    by (auto simp: unpriced_def read_portfolio_def)
qed (auto simp: weight_of_paper folded_after)

lemma targets_distinct: "distinct (map ta_symbol (snd (targets_from_signals sigs tok reg con fl0)))"
proof -
  have "map ta_symbol (weights_to_targets ws sigs tok) = map fst ws" for ws
    by (simp add: weights_to_targets_def case_prod_unfold)
  moreover have "distinct (map fst (shrink_to_safe_asset ws scale))" for ws scale
  proof -
    have "distinct (map fst (fst (shrink_loop scale ws acc)))" if "distinct (map fst (fst acc))" for acc
      using that by (induction scale ws acc rule: shrink_loop.induct) (auto simp: Let_def distinct_update)
    from this [of "([], 0, 0)"] show ?thesis
      by (auto simp: shrink_to_safe_asset_def Let_def distinct_update comp_def case_prod_unfold split: prod.splits)
  qed
  ultimately show ?thesis by (simp add: targets_from_signals_def Let_def construct_def)
qed

text \<open>The identifiers, the tick id and the clock of a tick are new to the ledger.\<close>

definition fresh_tick :: "string list \<Rightarrow> string \<Rightarrow> int \<Rightarrow> string \<Rightarrow> trade_ledger \<Rightarrow> bool" where
  "fresh_tick ids tick_id now account ledger \<longleftrightarrow>
     ledger_keys_ok ledger \<and> distinct ids \<and> set ids \<inter> pt_id ` set ledger = {} \<and>
     (\<forall>r \<in> set ledger. pt_deployment_id r = account \<longrightarrow> pt_tick_id r \<noteq> tick_id \<and> pt_decided_at r < now)"

text \<open>
  A paper tick settles.  When the targets are not negative and the tick is new to the ledger, the
  tick appends one row for each trade of its decision, and the tick after it, on the same signals and
  in any iteration order, finds nothing to trade: the folded book is within the drift threshold of
  every target.
\<close>

theorem paper_tick_settles:
  assumes d: "d = paper_decision order tick_id now usdc_floor sigs account ledger"
    and run: "tick_deployment order h ids tick_id now usdc_floor sigs account ledger = (result, ledger')"
    and "sigs \<noteq> []" and "enumerates order (all_symbols (td_portfolio d) (td_targets d))"
    and "fresh_tick ids tick_id now account ledger" and "length (td_trades d) \<le> length ids"
    and "\<forall>t \<in> set (td_targets d). 0 \<le> ta_weight t"
  shows "result = Inr (length (td_trades d)) \<and>
         td_trades (paper_decision order' tick_id' now' usdc_floor sigs account ledger') = [] \<and>
         tick_deployment order' h ids' tick_id' now' usdc_floor sigs account ledger' = (Inr 0, ledger')"
proof -
  have pf: "td_portfolio d = read_portfolio account ledger" and tr: "td_trades d = compute_trades order (read_portfolio account ledger) (td_targets d)"
    and tg: "td_targets d = snd (targets_from_signals sigs paper_token_address None None usdc_floor)"
    and rest: "td_tick_id d = tick_id" "td_decided_at d = now"
    by (simp_all add: d paper_decision_def Let_def)
  have dist: "distinct (map to_symbol (td_trades d))"
    unfolding tr trade_symbols using assms(4) by (simp add: enumerates_def)
  have ok: "paper_ok ids account d ledger"
    using assms(5,6) dist by (simp add: paper_ok_def fresh_tick_def rest)
  have e: "tick_deployment order h ids tick_id now usdc_floor sigs account ledger =
      (Inr (length (td_trades d)), ledger @ map2 (trade_row h account d) (td_trades d) ids)"
    using assms(3,6) paper_executes [OF ok, of h] by (simp add: tick_deployment_def d)
  then have l: "ledger' = snd (execute_trades h ids account d ledger)"
    using run by (simp add: paper_executes [OF ok])
  have "compute_trades order' (read_portfolio account ledger') (td_targets d) = []"
    unfolding l using ok tr assms(4,7) targets_distinct
    by (intro paper.settles) (simp_all add: pf tg)
  then have "td_trades (paper_decision order' tick_id' now' usdc_floor sigs account ledger') = []"
    by (simp add: paper_decision_def Let_def tg)
  then show ?thesis
    using e run assms(3) by (simp add: tick_deployment_def execute_trades_def)
qed

text \<open>
  Applying a decision twice is applying it once: the second application of the same tick to the
  same account, with any new identifiers, writes nothing.
\<close>

theorem reapply_is_noop:
  assumes "paper_ok ids account d ledger"
  shows "execute_trades h' ids' account d (snd (execute_trades h ids account d ledger)) =
           (Inr [], snd (execute_trades h ids account d ledger))"
proof -
  let ?w = "map2 (trade_row h account d) (td_trades d) ids"
  have len: "length (td_trades d) \<le> length ids" using assms by (simp add: paper_ok_def)
  have "set (map pt_symbol ?w) = to_symbol ` set (td_trades d)"
    unfolding written_rows(1) [OF len] by simp
  moreover have "filter (\<lambda>r. pt_deployment_id r = account \<and> pt_tick_id r = td_tick_id d) ?w = ?w"
    using written_rows(3) [OF len, of _ h account d] by (auto simp: filter_id_conv)
  ultimately have "to_symbol ` set (td_trades d) \<subseteq> pt_symbol `
      set (filter (\<lambda>r. pt_deployment_id r = account \<and> pt_tick_id r = td_tick_id d) (ledger @ ?w))"
    by (simp only: filter_append set_append image_Un set_map Un_upper2)
  then have none: "filter (\<lambda>t. to_symbol t \<notin> pt_symbol `
      set (filter (\<lambda>r. pt_deployment_id r = account \<and> pt_tick_id r = td_tick_id d) (ledger @ ?w))) (td_trades d) = []"
    unfolding filter_empty_conv by blast
  have "ledger_keys_ok (ledger @ ?w)"
  proof (cases "td_trades d = []")
    case True
    then show ?thesis using assms by (simp add: paper_ok_def)
  next
    case False
    then show ?thesis using paper_executes [OF assms, of h]
      by (auto simp: execute_trades_def Let_def split: if_splits)
  qed
  with none show ?thesis
    unfolding paper_executes [OF assms] by (simp add: execute_trades_def Let_def)
qed

section \<open>A concrete tick\<close>

text \<open>A book that holds half sSPY, and a tick on which every strategy is flat.\<close>

definition spy_row :: paper_agent_trade where
  "spy_row =
     \<lparr>pt_id = ''r0'', pt_deployment_id = ''dep'', pt_tick_id = ''t0'', pt_decided_at = 10, pt_symbol = ''sSPY'',
      pt_direction = BUY, pt_prior_weight = 0, pt_target_weight = 1 / 2, pt_weight_delta = 1 / 2,
      pt_signal_strategy_id = Some ''s'', pt_signal_state = Some LONG, pt_signal_reason = None,
      pt_spec_hash = ''h''\<rparr>"

definition spy_decision :: tick_decision where
  "spy_decision = paper_decision [''USDC'', ''sSPY''] ''t1'' 20 (1 / 4) flat_votes ''dep'' [spy_row]"

lemma spy_targets:
  "td_targets spy_decision =
     [\<lparr>ta_symbol = ''USDC'', ta_token_address = ''paper:USDC'', ta_weight = 1, ta_strategy_ids = []\<rparr>]"
proof -
  have "construct None None (aggregate_signals flat_votes (1 / 4)) = [(''USDC'', 1)]"
    using all_flat_weights(2) [OF flat_votes_flat, of "1 / 4"] by (simp add: quarter)
  moreover have "symbol_strategies flat_votes ''USDC'' = []" by code_simp
  ultimately show ?thesis
    by (simp add: spy_decision_def paper_decision_def targets_from_signals_def weights_to_targets_def
        Let_def paper_token_address_def)
qed

lemma dust_bound: "DUST \<le> 1 / 2"
proof -
  have "DUST \<le> fl (1 / 2)" unfolding DUST_def by (rule fl_mono) simp
  then show ?thesis by simp
qed

lemma spy_portfolio:
  "weight_of (td_portfolio spy_decision) ''sSPY'' = 1 / 2" "weight_of (td_portfolio spy_decision) ''USDC'' = 1"
  "hd_symbol ` set (pf_holdings (td_portfolio spy_decision)) = {''USDC'', ''sSPY''}"
  "unpriced (td_portfolio spy_decision) = {}" "pf_total_value_usdc (td_portfolio spy_decision) = 1"
proof -
  have f: "folded_weights [spy_row] ''dep'' = [(''USDC'', 1), (''sSPY'', 1 / 2)]"
    by (simp add: folded_weights_def spy_row_def PAPER_INDEX_BASE_def)
  have p: "td_portfolio spy_decision = read_portfolio ''dep'' [spy_row]"
    by (simp add: spy_decision_def paper_decision_def Let_def)
  have d: "DUST < 1 / 2" using dust_small by (simp add: threshold_value)
  then have d1: "DUST < 1" by simp
  show "weight_of (td_portfolio spy_decision) ''sSPY'' = 1 / 2" "weight_of (td_portfolio spy_decision) ''USDC'' = 1"
    using d d1 by (simp_all add: p weight_of_paper f)
  show "hd_symbol ` set (pf_holdings (td_portfolio spy_decision)) = {''USDC'', ''sSPY''}"
    using d d1 by (auto simp: p read_portfolio_def f image_iff)
  show "unpriced (td_portfolio spy_decision) = {}" unfolding p by (rule paper.priced)
  show "pf_total_value_usdc (td_portfolio spy_decision) = 1"
    by (simp add: p read_portfolio_def PAPER_INDEX_BASE_def)
qed

lemma spy_drift:
  "drift (td_portfolio spy_decision) (td_targets spy_decision) ''sSPY'' = - 1 / 2"
  "drift (td_portfolio spy_decision) (td_targets spy_decision) ''USDC'' = 0"
  "enumerates [''USDC'', ''sSPY''] (all_symbols (td_portfolio spy_decision) (td_targets spy_decision))"
  using fl_minus [of "1 / 2"]
  by (auto simp: drift_def wanted_def target_map_def spy_targets spy_portfolio all_symbols_def enumerates_def)

theorem trades_exact_witness:
  "to_symbol ` set (compute_trades [''USDC'', ''sSPY''] (td_portfolio spy_decision) (td_targets spy_decision)) =
     {''sSPY''}"
proof -
  let ?S = "all_symbols (td_portfolio spy_decision) (td_targets spy_decision)"
  have "to_symbol ` set (compute_trades [''USDC'', ''sSPY''] (td_portfolio spy_decision) (td_targets spy_decision)) =
      {symbol. symbol \<notin> unpriced (td_portfolio spy_decision) \<and>
         DRIFT_THRESHOLD \<le> \<bar>drift (td_portfolio spy_decision) (td_targets spy_decision) symbol\<bar>}"
    using trades_exact [OF spy_drift(3)] by (simp add: spy_portfolio)
  also have "\<dots> = {''sSPY''}"
  proof -
    have "symbol = ''sSPY''" if "DRIFT_THRESHOLD \<le> \<bar>drift (td_portfolio spy_decision) (td_targets spy_decision) symbol\<bar>" for symbol
    proof (rule ccontr)
      assume "symbol \<noteq> ''sSPY''"
      then have "symbol \<notin> ?S \<or> symbol = ''USDC''" using spy_drift(3) by (auto simp: enumerates_def)
      then have "drift (td_portfolio spy_decision) (td_targets spy_decision) symbol = 0"
        using drift_outside spy_drift(2) by auto
      with that threshold_pos show False by simp
    qed
    then show ?thesis by (auto simp: spy_portfolio(4) spy_drift(1) threshold_value)
  qed
  finally show ?thesis .
qed

lemma spy_trades: "length (td_trades spy_decision) = 1"
proof -
  let ?f = "trade_for DRIFT_THRESHOLD (td_portfolio spy_decision) (td_targets spy_decision)"
  have "?f ''USDC'' = None" "?f ''sSPY'' \<noteq> None"
    unfolding trade_for_None by (simp_all add: spy_portfolio(4) spy_drift threshold_value)
  moreover have "td_trades spy_decision =
      compute_trades [''USDC'', ''sSPY''] (td_portfolio spy_decision) (td_targets spy_decision)"
    by (simp add: spy_decision_def paper_decision_def Let_def)
  ultimately show ?thesis by (auto simp: compute_trades_def map_filter_simps)
qed

theorem paper_tick_settles_witness:
  "length (td_trades spy_decision) = 1 \<and>
   tick_deployment [''sSPY'', ''USDC''] ''h'' [] ''t2'' 30 (1 / 4) flat_votes ''dep''
     (snd (tick_deployment [''USDC'', ''sSPY''] ''h'' [''r1''] ''t1'' 20 (1 / 4) flat_votes ''dep'' [spy_row])) =
   (Inr 0, snd (tick_deployment [''USDC'', ''sSPY''] ''h'' [''r1''] ''t1'' 20 (1 / 4) flat_votes ''dep'' [spy_row]))"
proof -
  have "fresh_tick [''r1''] ''t1'' 20 ''dep'' [spy_row]"
    by (simp add: fresh_tick_def ledger_keys_ok_def spy_row_def)
  moreover have "\<forall>t \<in> set (td_targets spy_decision). 0 \<le> ta_weight t" by (simp add: spy_targets)
  ultimately show ?thesis
    using paper_tick_settles [OF spy_decision_def prod.collapse [symmetric], where h = "''h''" and ids = "[''r1'']"
        and order' = "[''sSPY'', ''USDC'']" and tick_id' = "''t2''" and now' = 30 and ids' = "[]"]
      spy_drift(3) spy_trades flat_votes_flat(1)
    by simp
qed

theorem reapply_is_noop_witness:
  "paper_ok [''r1''] ''dep'' spy_decision [spy_row] \<and>
   execute_trades ''h'' [''r2''] ''dep'' spy_decision
     (snd (execute_trades ''h'' [''r1''] ''dep'' spy_decision [spy_row])) =
   (Inr [], snd (execute_trades ''h'' [''r1''] ''dep'' spy_decision [spy_row]))"
proof -
  have "paper_ok [''r1''] ''dep'' spy_decision [spy_row]"
    using spy_trades unfolding paper_ok_def
    by (auto simp: ledger_keys_ok_def spy_row_def spy_decision_def paper_decision_def Let_def length_Suc_conv)
  with reapply_is_noop show ?thesis by blast
qed

end
