(* ===== verification/Market.thy ===== *)
theory Market
  imports Sweep VCheck Execution
begin

text \<open>
  The marketplace engine without its pipeline: \<^verbatim>\<open>marketplace/state.py\<close> (leader lock, regime lock,
  event and tick lists) and, of \<^verbatim>\<open>marketplace/service.py\<close>, the subscriber registry, the tick log,
  charging everybody for a step, halting, mirroring trades and the rebalance phase.

  \<open>market\<close> extends the state of charging by the tables and Redis lists the engine writes.  The lists
  live under key prefixes of their own, so they are fields; each entry is the value its JSON denotes.
  The world during a tick is the record \<open>tick_world\<close>: what each read returns and what happens to each
  write, indexed by what is read or written.  Subscribers of one chunk are charged concurrently; the
  model runs them in the order of the chunk, and their interleavings are the machine of \<open>Charging\<close>.
\<close>

section \<open>Records\<close>

datatype halt_source = Halt_PUBLISHER | Halt_PAYMENT | Halt_EXECUTION | Halt_PAYMENTS_HALT

record tick_record =
  tr_sub_id :: string
  tr_strategy_id :: string
  tr_tick_id :: string
  tr_step :: tick_step
  tr_halted :: bool
  tr_halt_source :: "halt_source option"
  tr_halt_reason :: "string option"
  tr_charged :: bool
  tr_action_count :: "int option"
  tr_trade_orders :: "trade_order list option"

record liability =
  li_sub_id :: string
  li_strategy_id :: string
  li_tick_id :: string
  li_action_count :: int
  li_unit_price_usdc :: int
  li_amount_owed_usdc :: int

record agent_row =
  ag_role :: string
  ag_strategy_id :: string
  ag_sub_id :: string
  ag_status :: string
  ag_halted :: bool

datatype market_event =
    Ev_evaluation_step string weights
  | Ev_skip string "string list"
  | Ev_halt string tick_step string
  | Ev_publisher_halt string tick_step string
  | Ev_liability_recorded string string int int
  | Ev_rebalance string int weights
  | Ev_publisher_retired

datatype chain_call =
    Set_token_oracles string "string list" "string list"
  | Set_target_allocations string "string list" "int list"
  | Execute_trades string "trade_order list"

record market = charging +
  mk_log :: "tick_record list"
  mk_subticks :: "string \<Rightarrow> tick_record list"
  mk_events :: "string \<Rightarrow> market_event list"
  mk_liabilities :: "liability list"
  mk_agents :: "agent_row list"
  mk_active :: "string \<Rightarrow> bool"
  mk_subs :: "string \<Rightarrow> (subscriber \<times> bool) list"
  mk_calls :: "chain_call list"
  mk_regime :: "regime_classification option"
  mk_consensus :: "string \<Rightarrow> ensemble_consensus option"
  mk_last_rebalance :: "string set"
  mk_transfers :: "transfer list"
  mk_publishers :: "string \<Rightarrow> (publisher \<times> subscriber list) option"

record market_settings =
  st_dry_run :: bool
  st_paper_trading :: bool
  st_flat_fee :: int
  st_batch_size :: int
  st_usdc_floor :: rat
  st_synth_addresses :: "(string \<times> string) list"
  st_usdc_address :: string
  st_oracle_addresses :: "string \<Rightarrow> string option"
  st_min_vault_usdc :: rat
  st_min_action_buffer :: int
  st_sweep :: sweep_config

record tick_world =
  ti_ready :: "string \<Rightarrow> (portfolio res \<times> int res)"
  ti_charge :: "string \<Rightarrow> tick_step \<Rightarrow> charge_io"
  ti_sql :: "tick_record \<Rightarrow> bool"
  ti_mirror :: "tick_record \<Rightarrow> reply"
  ti_event :: "market_event \<Rightarrow> reply"
  ti_persist :: "string \<Rightarrow> bool"
  ti_liability :: "string \<Rightarrow> bool"
  ti_strategy :: "bool res"
  ti_signals :: "strategy_signals list res"
  ti_regime_now :: int
  ti_regime_lock :: reply
  ti_classified :: "regime_classification option"
  ti_cached :: "regime_classification option res"
  ti_save_regime :: reply
  ti_save_consensus :: reply
  ti_portfolio :: "string \<Rightarrow> portfolio res"
  ti_order :: "portfolio \<Rightarrow> target_allocation list \<Rightarrow> string list"
  ti_execute :: "string \<Rightarrow> trade_order list \<Rightarrow> exn option"
  ti_last_rebalance :: reply
  ti_leader_now :: int
  ti_renew :: reply
  ti_release :: reply
  ti_sweep :: sweep_io
  ti_save_subs :: reply
  ti_str :: "exn \<Rightarrow> string"

section \<open>Redis state: marketplace/state.py\<close>

definition LEADER_PREFIX :: string where
  "LEADER_PREFIX = ''archimedes:market:leader:''"

definition KEY_REGIME_LOCK :: string where
  "KEY_REGIME_LOCK = ''archimedes:regime:lock''"

definition LEADER_LOCK_TTL :: int where
  "LEADER_LOCK_TTL = 60 * 1000"

definition leader_key :: "string \<Rightarrow> string" where
  "leader_key strategy_id = LEADER_PREFIX @ strategy_id"

text \<open>The outcome of a Redis command that answers with nothing: it happens unless the request is lost.\<close>

definition send :: "reply \<Rightarrow> ('s \<Rightarrow> 's) \<Rightarrow> ('s, unit) op" where
  "send net f s =
     (case net of
        Reply \<Rightarrow> (Inr (), f s)
      | Lost_request \<Rightarrow> (Inl RedisError, s)
      | Lost_reply \<Rightarrow> (Inl RedisError, f s))"

definition try_acquire_leader :: "reply \<Rightarrow> int \<Rightarrow> string \<Rightarrow> string \<Rightarrow> (redis, string option) op" where
  "try_acquire_leader net now strategy_id token r =
     (case r_setnx now (leader_key strategy_id) (RStr token) LEADER_LOCK_TTL r of
        (acquired, r') \<Rightarrow>
          (case net of
             Reply \<Rightarrow> (Inr (if acquired then Some token else None), r')
           | Lost_request \<Rightarrow> (Inl RedisError, r)
           | Lost_reply \<Rightarrow> (Inl RedisError, r')))"

text \<open>\<^verbatim>\<open>redis.call("GET", KEYS[1]) == ARGV[1]\<close>.\<close>

definition leads :: "int \<Rightarrow> string \<Rightarrow> string \<Rightarrow> redis \<Rightarrow> bool" where
  "leads now strategy_id token r \<longleftrightarrow>
     (case live now r (leader_key strategy_id) of Some (RStr t) \<Rightarrow> t = token | _ \<Rightarrow> False)"

definition renew_leader :: "reply \<Rightarrow> int \<Rightarrow> string \<Rightarrow> string option \<Rightarrow> (redis, unit) op" where
  "renew_leader net now strategy_id token r =
     (case token of
        None \<Rightarrow> (Inr (), r)
      | Some t \<Rightarrow>
          send net (\<lambda>r. if leads now strategy_id t r
                        then r_expire now (leader_key strategy_id) LEADER_LOCK_TTL r else r) r)"

definition release_leader :: "reply \<Rightarrow> int \<Rightarrow> string \<Rightarrow> string option \<Rightarrow> (redis, unit) op" where
  "release_leader net now strategy_id token r =
     (case token of
        None \<Rightarrow> (Inr (), r)
      | Some t \<Rightarrow>
          send net (\<lambda>r. if leads now strategy_id t r then r_delete (leader_key strategy_id) r else r) r)"

definition try_acquire_regime_lock :: "reply \<Rightarrow> int \<Rightarrow> (redis, bool) op" where
  "try_acquire_regime_lock net now r =
     (case r_setnx now KEY_REGIME_LOCK (RStr ''1'') (30 * 1000) r of
        (acquired, r') \<Rightarrow>
          (case net of
             Reply \<Rightarrow> (Inr acquired, r')
           | Lost_request \<Rightarrow> (Inl RedisError, r)
           | Lost_reply \<Rightarrow> (Inl RedisError, r')))"

text \<open>\<^verbatim>\<open>LPUSH\<close> and \<^verbatim>\<open>LTRIM 0 199\<close>.\<close>

definition push_capped :: "'a \<Rightarrow> 'a list \<Rightarrow> 'a list" where
  "push_capped x xs = take 200 (x # xs)"

definition append_event :: "tick_world \<Rightarrow> string \<Rightarrow> market_event \<Rightarrow> (market, unit) op" where
  "append_event io strategy_id ev m =
     send (ti_event io ev)
       (\<lambda>m. m\<lparr>mk_events := (mk_events m)(strategy_id := push_capped ev (mk_events m strategy_id))\<rparr>) m"

definition get_events :: "string \<Rightarrow> nat \<Rightarrow> market \<Rightarrow> market_event list" where
  "get_events strategy_id n m = take n (mk_events m strategy_id)"

definition push_subscriber_tick :: "reply \<Rightarrow> tick_record \<Rightarrow> (market, unit) op" where
  "push_subscriber_tick net rec m =
     send net (\<lambda>m. m\<lparr>mk_subticks := (mk_subticks m)
       (tr_sub_id rec := push_capped rec (mk_subticks m (tr_sub_id rec)))\<rparr>) m"

definition get_subscriber_ticks :: "string \<Rightarrow> nat \<Rightarrow> market \<Rightarrow> tick_record list" where
  "get_subscriber_ticks sub_id n m = take n (mk_subticks m sub_id)"

definition save_subscribers :: "reply \<Rightarrow> string \<Rightarrow> (subscriber \<times> bool) list \<Rightarrow> (market, unit) op" where
  "save_subscribers net strategy_id subs m =
     send net (\<lambda>m. m\<lparr>mk_subs := (mk_subs m)(strategy_id := subs)\<rparr>) m"

section \<open>Bookkeeping: service.py\<close>

definition record_subscriber_tick :: "tick_world \<Rightarrow> tick_record \<Rightarrow> market \<Rightarrow> market" where
  "record_subscriber_tick io rec m =
     (let m1 = (if ti_sql io rec then m\<lparr>mk_log := mk_log m @ [rec]\<rparr> else m)
      in snd (push_subscriber_tick (ti_mirror io rec) rec m1))"

definition halt_row :: "string \<Rightarrow> string \<Rightarrow> agent_row \<Rightarrow> bool" where
  "halt_row strategy_id sub_id r \<longleftrightarrow>
     ag_role r = ''subscriber'' \<and> ag_strategy_id r = strategy_id \<and> ag_sub_id r = sub_id \<and> ag_status r = ''running''"

text \<open>\<^verbatim>\<open>query.filter(p).first()\<close>, changed by \<open>f\<close>.\<close>

fun change_first :: "('a \<Rightarrow> bool) \<Rightarrow> ('a \<Rightarrow> 'a) \<Rightarrow> 'a list \<Rightarrow> 'a list" where
  "change_first p f [] = []"
| "change_first p f (x # xs) = (if p x then f x # xs else x # change_first p f xs)"

definition persist_halt_state :: "bool \<Rightarrow> string \<Rightarrow> string \<Rightarrow> agent_row list \<Rightarrow> agent_row list" where
  "persist_halt_state up strategy_id sub_id t =
     (if up then change_first (halt_row strategy_id sub_id) (\<lambda>r. r\<lparr>ag_halted := True\<rparr>) t else t)"

definition deactivate_subscriber_db :: "bool \<Rightarrow> string \<Rightarrow> string \<Rightarrow> agent_row list \<Rightarrow> agent_row list" where
  "deactivate_subscriber_db up strategy_id sub_id t =
     (if up then change_first (halt_row strategy_id sub_id) (\<lambda>r. r\<lparr>ag_status := ''stopped''\<rparr>) t else t)"

definition defer_subscriber :: "tick_world \<Rightarrow> publisher \<Rightarrow> subscriber \<Rightarrow> market \<Rightarrow> market" where
  "defer_subscriber io pub sub m =
     m\<lparr>mk_active := (mk_active m)(sb_sub_id sub := False),
       mk_agents := persist_halt_state (ti_persist io (sb_sub_id sub)) (pb_strategy_id pub) (sb_sub_id sub) (mk_agents m)\<rparr>"

definition subscriber_is_ready :: "market_settings \<Rightarrow> tick_world \<Rightarrow> market \<Rightarrow> subscriber \<Rightarrow> bool" where
  "subscriber_is_ready st io m sub \<longleftrightarrow>
     mk_active m (sb_sub_id sub) \<and>
     (case ti_ready io (sb_sub_id sub) of
        (Inr vault, Inr eph_raw) \<Rightarrow>
          st_min_vault_usdc st \<le> pf_total_value_usdc vault \<and> st_min_action_buffer st * st_flat_fee st \<le> eph_raw
      | _ \<Rightarrow> False)"

definition record_liability ::
    "market_settings \<Rightarrow> tick_world \<Rightarrow> subscriber \<Rightarrow> string \<Rightarrow> string \<Rightarrow> int \<Rightarrow> market \<Rightarrow> market" where
  "record_liability st io sub strategy_id tick_id action_count m =
     (if \<not> ti_liability io (sb_sub_id sub) then m
      else snd (append_event io strategy_id
                  (Ev_liability_recorded (sb_sub_id sub) tick_id action_count (action_count * st_flat_fee st))
                  (m\<lparr>mk_liabilities := mk_liabilities m @
                      [\<lparr>li_sub_id = sb_sub_id sub, li_strategy_id = strategy_id, li_tick_id = tick_id,
                        li_action_count = action_count, li_unit_price_usdc = st_flat_fee st,
                        li_amount_owed_usdc = action_count * st_flat_fee st\<rparr>]\<rparr>)))"

section \<open>Charging a step\<close>

text \<open>\<^verbatim>\<open>range(0, len(xs), n)\<close> and the slices it starts.\<close>

function chunks :: "nat \<Rightarrow> 'a list \<Rightarrow> 'a list list" where
  "chunks n xs = (if n = 0 \<or> xs = [] then [] else take n xs # chunks n (drop n xs))"
  by pat_completeness auto
termination
  by (relation "measure (\<lambda>(n, xs). length xs)") auto

declare chunks.simps [simp del]

definition batches :: "int \<Rightarrow> 'a list \<Rightarrow> 'a list list res" where
  "batches n xs = (if n = 0 then Inl ValueError else if n < 0 then Inr [] else Inr (chunks (nat n) xs))"

definition tick_attempt ::
    "market_settings \<Rightarrow> publisher \<Rightarrow> string \<Rightarrow> string \<Rightarrow> tick_step \<Rightarrow> int \<Rightarrow> subscriber \<Rightarrow> attempt" where
  "tick_attempt st pub strategy_id tick_id stp action_count sub =
     \<lparr>at_key = logical_charge sub strategy_id tick_id stp, at_pub = pub, at_sub = sub,
      at_actions = action_count, at_fee = st_flat_fee st\<rparr>"

definition charge_sub ::
    "market_settings \<Rightarrow> tick_world \<Rightarrow> publisher \<Rightarrow> string \<Rightarrow> string \<Rightarrow> tick_step \<Rightarrow> int \<Rightarrow> subscriber \<Rightarrow>
     (market, charge_answer) op" where
  "charge_sub st io pub strategy_id tick_id stp action_count sub =
     charge_one (st_dry_run st) (ti_charge io (sb_sub_id sub) stp)
       (tick_attempt st pub strategy_id tick_id stp action_count sub)"

text \<open>
  \<^verbatim>\<open>asyncio.gather(..., return_exceptions=True)\<close> over a chunk.  A task that is cancelled while it
  waits for the chunk raises \<open>CancelledError\<close> instead of the results.
\<close>

fun gather :: "('a \<Rightarrow> ('s, 'b) op) \<Rightarrow> 'a list \<Rightarrow> 's \<Rightarrow> 'b res list \<times> 's" where
  "gather f [] s = ([], s)"
| "gather f (x # xs) s =
     (case f x s of (y, s') \<Rightarrow> (case gather f xs s' of (ys, s'') \<Rightarrow> (y # ys, s'')))"

definition step_record :: "string \<Rightarrow> string \<Rightarrow> tick_step \<Rightarrow> int \<Rightarrow> subscriber \<Rightarrow> tick_record" where
  "step_record strategy_id tick_id stp action_count sub =
     \<lparr>tr_sub_id = sb_sub_id sub, tr_strategy_id = strategy_id, tr_tick_id = tick_id, tr_step = stp,
      tr_halted = False, tr_halt_source = None, tr_halt_reason = None, tr_charged = False,
      tr_action_count = Some action_count, tr_trade_orders = None\<rparr>"

type_synonym survivors = "subscriber list \<times> string list"

definition settle_result_for ::
    "tick_world \<Rightarrow> publisher \<Rightarrow> string \<Rightarrow> string \<Rightarrow> tick_step \<Rightarrow> subscriber \<Rightarrow> charge_answer res \<Rightarrow>
     survivors \<Rightarrow> (market, survivors) op" where
  "settle_result_for io pub strategy_id tick_id stp sub result acc m =
     (case (case result of Inl e \<Rightarrow> (False, None, False) | Inr x \<Rightarrow> x) of
        (paid, override, suppressed) \<Rightarrow>
          (let rec = step_record strategy_id tick_id stp 1 sub
           in if paid \<and> suppressed
              then (Inr (fst acc @ [sub], snd acc @ [sb_sub_id sub]),
                    record_subscriber_tick io
                      (rec\<lparr>tr_halted := True, tr_halt_source := Some Halt_PAYMENTS_HALT,
                           tr_halt_reason := Some ''PAYMENTS_HALT active - no real charge; subscriber continues (not deferred)''\<rparr>) m)
              else if paid
              then (Inr (fst acc @ [sub], snd acc), record_subscriber_tick io (rec\<lparr>tr_charged := True\<rparr>) m)
              else (case append_event io strategy_id (Ev_halt (sb_sub_id sub) stp tick_id)
                           (record_subscriber_tick io
                             (rec\<lparr>tr_halted := True, tr_halt_source := Some Halt_PAYMENT,
                                  tr_halt_reason := Some (case override of None \<Rightarrow> ''could not afford '' @ step_value stp
                                                          | Some why \<Rightarrow> why)\<rparr>)
                             (defer_subscriber io pub sub m)) of
                      (Inl e, m') \<Rightarrow> (Inl e, m')
                    | (Inr _, m') \<Rightarrow> (Inr acc, m'))))"

fun settle_results ::
    "tick_world \<Rightarrow> publisher \<Rightarrow> string \<Rightarrow> string \<Rightarrow> tick_step \<Rightarrow> (subscriber \<times> charge_answer res) list \<Rightarrow>
     survivors \<Rightarrow> (market, survivors) op" where
  "settle_results io pub strategy_id tick_id stp [] acc m = (Inr acc, m)"
| "settle_results io pub strategy_id tick_id stp ((sub, result) # rest) acc m =
     (case settle_result_for io pub strategy_id tick_id stp sub result acc m of
        (Inl e, m') \<Rightarrow> (Inl e, m')
      | (Inr acc', m') \<Rightarrow> settle_results io pub strategy_id tick_id stp rest acc' m')"

fun charge_chunks ::
    "market_settings \<Rightarrow> tick_world \<Rightarrow> publisher \<Rightarrow> string \<Rightarrow> string \<Rightarrow> tick_step \<Rightarrow> subscriber list list \<Rightarrow>
     survivors \<Rightarrow> (market, survivors) op" where
  "charge_chunks st io pub strategy_id tick_id stp [] acc m = (Inr acc, m)"
| "charge_chunks st io pub strategy_id tick_id stp (chunk # rest) acc m =
     (case gather (charge_sub st io pub strategy_id tick_id stp 1) chunk m of
        (results, m1) \<Rightarrow>
          if Inl CancelledError \<in> set results then (Inl CancelledError, m1)
          else (case settle_results io pub strategy_id tick_id stp (zip chunk results) acc m1 of
             (Inl e, m2) \<Rightarrow> (Inl e, m2)
           | (Inr acc', m2) \<Rightarrow> charge_chunks st io pub strategy_id tick_id stp rest acc' m2))"

definition charge_step ::
    "market_settings \<Rightarrow> tick_world \<Rightarrow> publisher \<Rightarrow> subscriber list \<Rightarrow> string \<Rightarrow> string \<Rightarrow> tick_step \<Rightarrow>
     (market, survivors) op" where
  "charge_step st io pub active strategy_id tick_id stp m =
     (case batches (st_batch_size st) active of
        Inl e \<Rightarrow> (Inl e, m)
      | Inr cs \<Rightarrow> charge_chunks st io pub strategy_id tick_id stp cs ([], []) m)"

section \<open>Halting the publisher\<close>

definition halt_publisher ::
    "tick_world \<Rightarrow> subscriber list \<Rightarrow> string \<Rightarrow> string \<Rightarrow> tick_step \<Rightarrow> string \<Rightarrow> string list \<Rightarrow> (market, unit) op" where
  "halt_publisher io active strategy_id tick_id stp reason suppressed m =
     append_event io strategy_id (Ev_publisher_halt tick_id stp reason)
       (fold (\<lambda>sub. record_subscriber_tick io
          ((step_record strategy_id tick_id stp 1 sub)
             \<lparr>tr_halted := True, tr_halt_source := Some Halt_PUBLISHER, tr_halt_reason := Some reason,
              tr_charged := (sb_sub_id sub \<notin> set suppressed)\<rparr>)) active m)"

section \<open>Mirroring and the rebalance phase\<close>

text \<open>The adapter \<open>compute_trades\<close>: trades without a token address are dropped, except in USDC.\<close>

definition addr_targets :: "(string \<times> string) list \<Rightarrow> weights \<Rightarrow> target_allocation list" where
  "addr_targets addr_map ws =
     map (\<lambda>(symbol, w). \<lparr>ta_symbol = symbol,
            ta_token_address = (case map_of addr_map symbol of None \<Rightarrow> [] | Some a \<Rightarrow> a),
            ta_weight = w, ta_strategy_ids = []\<rparr>) ws"

definition market_trades ::
    "tick_world \<Rightarrow> portfolio \<Rightarrow> weights \<Rightarrow> (string \<times> string) list \<Rightarrow> trade_order list" where
  "market_trades io pf ws addr_map =
     filter (\<lambda>t. to_token_address t \<noteq> [] \<or> to_symbol t = ''USDC'')
       (compute_trades (ti_order io pf (addr_targets addr_map ws)) pf (addr_targets addr_map ws))"

definition addr_map_of :: "market_settings \<Rightarrow> (string \<times> string) list" where
  "addr_map_of st = AList.update ''USDC'' (st_usdc_address st) (st_synth_addresses st)"

definition execute_on :: "tick_world \<Rightarrow> string \<Rightarrow> trade_order list \<Rightarrow> (market, unit) op" where
  "execute_on io vault trades m =
     (case ti_execute io vault trades of None \<Rightarrow> Inr () | Some e \<Rightarrow> Inl e,
      m\<lparr>mk_calls := mk_calls m @ [Execute_trades vault trades]\<rparr>)"

definition apply_to_subscriber ::
    "market_settings \<Rightarrow> tick_world \<Rightarrow> weights \<Rightarrow> subscriber \<Rightarrow> (market, trade_order list) op" where
  "apply_to_subscriber st io target_weights sub m =
     (if st_paper_trading st then (Inr [], m)
      else case ti_portfolio io (sb_vault_address sub) of
        Inl e \<Rightarrow> (Inl e, m)
      | Inr pf \<Rightarrow>
          (let trades = market_trades io pf target_weights (addr_map_of st)
           in case execute_on io (sb_vault_address sub) trades m of
                (Inl e, m') \<Rightarrow> (Inl e, m')
              | (Inr _, m') \<Rightarrow> (Inr trades, m')))"

definition HALT_NOTE :: string where
  "HALT_NOTE = '' (PAYMENTS_HALT also active - no real charge was attempted)''"

definition rebalance_record ::
    "tick_world \<Rightarrow> string \<Rightarrow> string \<Rightarrow> int \<Rightarrow> subscriber \<Rightarrow> bool \<Rightarrow> trade_order list res \<Rightarrow> tick_record" where
  "rebalance_record io strategy_id tick_id action_count sub suppressed outcome =
     (step_record strategy_id tick_id REBALANCE action_count sub)
       \<lparr>tr_halted := (isl outcome \<or> suppressed),
        tr_halt_source := (case outcome of
            Inl _ \<Rightarrow> Some Halt_EXECUTION
          | Inr _ \<Rightarrow> if suppressed then Some Halt_PAYMENTS_HALT else None),
        tr_halt_reason := (case outcome of
            Inl e \<Rightarrow> Some (ti_str io e @ (if suppressed then HALT_NOTE else []))
          | Inr _ \<Rightarrow> if suppressed then Some ''PAYMENTS_HALT active - no real charge; rebalance still applied'' else None),
        tr_charged := (\<not> suppressed),
        tr_trade_orders := (case outcome of Inl _ \<Rightarrow> None | Inr trades \<Rightarrow> Some trades)\<rparr>"

definition rebalance_one ::
    "market_settings \<Rightarrow> tick_world \<Rightarrow> publisher \<Rightarrow> string \<Rightarrow> string \<Rightarrow> weights \<Rightarrow> int \<Rightarrow> subscriber \<Rightarrow> (market, unit) op" where
  "rebalance_one st io pub strategy_id tick_id target_weights action_count sub m =
     (case charge_sub st io pub strategy_id tick_id REBALANCE action_count sub m of
        (Inl e, m1) \<Rightarrow> (Inl e, m1)
      | (Inr (paid, override, suppressed), m1) \<Rightarrow>
          if \<not> paid
          then (Inr (), record_subscriber_tick io
                  ((step_record strategy_id tick_id REBALANCE action_count sub)
                     \<lparr>tr_halted := True, tr_halt_source := Some Halt_PAYMENT,
                      tr_halt_reason := Some (case override of None \<Rightarrow> ''could not afford rebalance'' | Some why \<Rightarrow> why)\<rparr>)
                  (defer_subscriber io pub sub m1))
          else (case apply_to_subscriber st io target_weights sub m1 of
                  (outcome, m2) \<Rightarrow>
                    if outcome = Inl CancelledError then (Inl CancelledError, m2)
                    else (let m3 = record_subscriber_tick io
                                (rebalance_record io strategy_id tick_id action_count sub suppressed outcome) m2
                     in (Inr (), if \<not> isl outcome then m3
                                 else record_liability st io sub strategy_id tick_id action_count
                                        (defer_subscriber io pub sub m3)))))"

fun rebalance_chunks ::
    "market_settings \<Rightarrow> tick_world \<Rightarrow> publisher \<Rightarrow> string \<Rightarrow> string \<Rightarrow> weights \<Rightarrow> int \<Rightarrow> subscriber list list \<Rightarrow>
     (market, unit) op" where
  "rebalance_chunks st io pub strategy_id tick_id ws n [] m = (Inr (), m)"
| "rebalance_chunks st io pub strategy_id tick_id ws n (chunk # rest) m =
     (case gather (rebalance_one st io pub strategy_id tick_id ws n) chunk m of
        (results, m1) \<Rightarrow>
          if Inl CancelledError \<in> set results then (Inl CancelledError, m1)
          else rebalance_chunks st io pub strategy_id tick_id ws n rest m1)"

definition charge_half ::
    "market_settings \<Rightarrow> tick_world \<Rightarrow> publisher \<Rightarrow> string \<Rightarrow> string \<Rightarrow> weights \<Rightarrow> int \<Rightarrow> subscriber list \<Rightarrow>
     (market, unit) op" where
  "charge_half st io pub strategy_id tick_id ws n half m =
     (case batches (st_batch_size st) half of
        Inl e \<Rightarrow> (Inl e, m)
      | Inr cs \<Rightarrow> rebalance_chunks st io pub strategy_id tick_id ws n cs m)"

definition renew_leader_m :: "tick_world \<Rightarrow> string \<Rightarrow> string option \<Rightarrow> (market, unit) op" where
  "renew_leader_m io strategy_id token m =
     (case renew_leader (ti_renew io) (ti_leader_now io) strategy_id token (cs_redis m) of
        (res, r) \<Rightarrow> (res, m\<lparr>cs_redis := r\<rparr>))"

definition rebalance_phase ::
    "market_settings \<Rightarrow> tick_world \<Rightarrow> publisher \<Rightarrow> subscriber list \<Rightarrow> string \<Rightarrow> string \<Rightarrow> trade_order list \<Rightarrow>
     weights \<Rightarrow> int \<Rightarrow> string option \<Rightarrow> (market, unit) op" where
  "rebalance_phase st io pub active strategy_id tick_id trades ws n leader_token m =
     (if trades = [] then (Inr (), m)
      else let midpoint = length active div 2;
               first = (if midpoint = 0 then active else take midpoint active)
           in case (if first = [] then (Inr (), m)
                    else charge_half st io pub strategy_id tick_id ws n first m) of
                (Inl e, m1) \<Rightarrow> (Inl e, m1)
              | (Inr _, m1) \<Rightarrow>
                  (case renew_leader_m io strategy_id leader_token m1 of
                     (Inl e, m2) \<Rightarrow> (Inl e, m2)
                   | (Inr _, m2) \<Rightarrow>
                       if midpoint = 0 then (Inr (), m2)
                       else charge_half st io pub strategy_id tick_id ws n (drop midpoint active) m2))"

section \<open>The subscriber registry\<close>

definition put_subscriber :: "subscriber \<Rightarrow> subscriber list \<Rightarrow> subscriber list" where
  "put_subscriber sub subs =
     (if sb_sub_id sub \<in> sb_sub_id ` set subs
      then map (\<lambda>s. if sb_sub_id s = sb_sub_id sub then sub else s) subs else subs @ [sub])"

definition with_flags :: "market \<Rightarrow> subscriber list \<Rightarrow> (subscriber \<times> bool) list" where
  "with_flags m subs = map (\<lambda>s. (s, mk_active m (sb_sub_id s))) subs"

definition add_subscriber :: "reply \<Rightarrow> string \<Rightarrow> subscriber \<Rightarrow> bool \<Rightarrow> (market, unit) op" where
  "add_subscriber net strategy_id sub is_active m =
     (case mk_publishers m strategy_id of
        None \<Rightarrow> (Inl ValueError, m)
      | Some (pub, subs) \<Rightarrow>
          (let m1 = m\<lparr>mk_publishers := (mk_publishers m)(strategy_id \<mapsto> (pub, put_subscriber sub subs)),
                      mk_active := (mk_active m)(sb_sub_id sub := is_active)\<rparr>
           in save_subscribers net strategy_id (with_flags m1 (put_subscriber sub subs)) m1))"

definition remove_subscriber :: "bool \<Rightarrow> reply \<Rightarrow> string \<Rightarrow> string \<Rightarrow> (market, unit) op" where
  "remove_subscriber up net strategy_id sub_id m =
     (case mk_publishers m strategy_id of
        None \<Rightarrow> (Inr (), m)
      | Some (pub, subs) \<Rightarrow>
          if sub_id \<notin> sb_sub_id ` set subs then (Inr (), m)
          else let left = filter (\<lambda>s. sb_sub_id s \<noteq> sub_id) subs;
                   m1 = m\<lparr>mk_publishers := (mk_publishers m)(strategy_id \<mapsto> (pub, left)),
                          mk_active := (mk_active m)(sub_id := False),
                          mk_agents := deactivate_subscriber_db up strategy_id sub_id (mk_agents m)\<rparr>
               in save_subscribers net strategy_id (with_flags m1 left) m1)"

section \<open>The leader lock\<close>

datatype leader_cmd =
    L_acquire reply int string
  | L_renew reply int string
  | L_release reply int string

fun cmd_time :: "leader_cmd \<Rightarrow> int" where
  "cmd_time (L_acquire net now t) = now"
| "cmd_time (L_renew net now t) = now"
| "cmd_time (L_release net now t) = now"

fun cmd_token :: "leader_cmd \<Rightarrow> string" where
  "cmd_token (L_acquire net now t) = t"
| "cmd_token (L_renew net now t) = t"
| "cmd_token (L_release net now t) = t"

text \<open>The answer says whether the command gave its caller the lock.\<close>

fun leader_step :: "string \<Rightarrow> redis \<Rightarrow> leader_cmd \<Rightarrow> bool \<times> redis" where
  "leader_step sid r (L_acquire net now t) =
     (case try_acquire_leader net now sid t r of (res, r') \<Rightarrow> (res = Inr (Some t), r'))"
| "leader_step sid r (L_renew net now t) = (False, snd (renew_leader net now sid (Some t) r))"
| "leader_step sid r (L_release net now t) = (False, snd (release_leader net now sid (Some t) r))"

definition owned_until :: "string \<Rightarrow> string \<Rightarrow> int \<Rightarrow> redis \<Rightarrow> bool" where
  "owned_until sid t e r \<longleftrightarrow> r (leader_key sid) = Some (RStr t, Some e)"

lemma owned_live: "owned_until sid t e r \<Longrightarrow> now \<le> e \<Longrightarrow> live now r (leader_key sid) = Some (RStr t)"
  by (simp add: owned_until_def live_def)

lemma owned_step:
  assumes "owned_until sid t e r" and "cmd_time c \<le> e" and "cmd_token c \<noteq> t"
  shows "leader_step sid r c = (False, r)"
  using assms owned_live [OF assms(1,2)]
  by (cases c) (auto simp: try_acquire_leader_def renew_leader_def release_leader_def r_setnx_def
      leads_def send_def split: reply.splits)

lemma owned_run:
  assumes "owned_until sid t e r" and "\<forall>c \<in> set cs. cmd_time c \<le> e \<and> cmd_token c \<noteq> t"
  shows "answers (leader_step sid) r cs = (map (\<lambda>_. False) cs, r)"
  using assms(2) by (induction cs) (simp_all add: owned_step [OF assms(1)])

lemma acquire_owned:
  "try_acquire_leader net now sid t r = (Inr (Some t'), r') \<Longrightarrow> t' = t \<and> owned_until sid t (now + LEADER_LOCK_TTL) r'"
  by (auto simp: try_acquire_leader_def r_setnx_def r_setex_def owned_until_def split: reply.splits if_splits)

text \<open>
  The leader lock excludes.  For sixty seconds after a process has been given the lock of a
  strategy, whatever acquisitions, renewals and releases others attempt with their own tokens, with
  requests and answers lost at will: none of them gets the lock, and none of them changes it.
\<close>

theorem leader_excludes:
  assumes "try_acquire_leader Reply now sid t r = (Inr (Some t), r')"
    and "\<forall>c \<in> set cs. cmd_time c \<le> now + LEADER_LOCK_TTL \<and> cmd_token c \<noteq> t"
  shows "answers (leader_step sid) r' cs = (map (\<lambda>_. False) cs, r') \<and> leads (now + LEADER_LOCK_TTL) sid t r'"
  using owned_run acquire_owned [OF assms(1)] owned_live assms(2) by (fastforce simp: leads_def)

theorem leader_excludes_witness:
  "fst (answers (leader_step ''s1'') (snd (try_acquire_leader Reply 0 ''s1'' ''a'' Map.empty))
          [L_acquire Reply 10 ''b'', L_release Lost_reply 20 ''b'', L_acquire Lost_reply 59999 ''c'']) =
   [False, False, False]"
proof -
  have "try_acquire_leader Reply 0 ''s1'' ''a'' Map.empty =
      (Inr (Some ''a''), snd (try_acquire_leader Reply 0 ''s1'' ''a'' Map.empty))"
    by (simp add: try_acquire_leader_def r_setnx_def live_def)
  from leader_excludes [OF this, of "[L_acquire Reply 10 ''b'', L_release Lost_reply 20 ''b'', L_acquire Lost_reply 59999 ''c'']"]
  show ?thesis by (simp add: LEADER_LOCK_TTL_def)
qed

text \<open>
  The lock does not outlast a slow tick.  The lock is renewed only between the halves of the
  rebalance phase, so a pipeline of thirteen charged steps that takes longer than a minute loses it:
  another process acquires it and ticks the same strategy beside the first, under another tick id, so
  the settlement intents of the two do not exclude each other.
\<close>

theorem leader_lock_outlived:
  "case try_acquire_leader Reply now sid t Map.empty of
     (first, r) \<Rightarrow>
       first = Inr (Some t) \<and> fst (try_acquire_leader Reply (now + 60001) sid t' r) = Inr (Some t') \<and>
       \<not> leads (now + 60001) sid t r"
  by (simp add: try_acquire_leader_def r_setnx_def live_def r_setex_def LEADER_LOCK_TTL_def leads_def)

end
