(* ===== verification/Tick.thy ===== *)
theory Tick
  imports Market
begin

text \<open>
  One tick of the marketplace engine, \<open>tick\<close> of \<^verbatim>\<open>marketplace/service.py\<close>: the thirteen steps of the
  pipeline, each charged before it runs, then the rebalance phase, the publisher's own trades and the
  sweep.  The strategy evaluation, the regime detector and the chain are parameters (\<open>tick_world\<close>).
\<close>

section \<open>The context of a tick\<close>

record tick_ctx =
  cx_synth_assets :: "string list"
  cx_signals :: "strategy_signals list"
  cx_weights :: weights
  cx_consensus :: "ensemble_consensus option"
  cx_lock_held :: bool
  cx_regime :: "regime_classification option"
  cx_allocations :: weights
  cx_targets :: "target_allocation list"
  cx_portfolio :: "portfolio option"
  cx_trades :: "trade_order list"
  cx_action_count :: int

definition new_ctx :: tick_ctx where
  "new_ctx = \<lparr>cx_synth_assets = [], cx_signals = [], cx_weights = [], cx_consensus = None,
     cx_lock_held = False, cx_regime = None, cx_allocations = [], cx_targets = [], cx_portfolio = None,
     cx_trades = [], cx_action_count = 0\<rparr>"

text \<open>A step returns the reason of a halt, or nothing; it may raise.\<close>

type_synonym tick_op = "tick_ctx \<times> market \<Rightarrow> string option res \<times> (tick_ctx \<times> market)"

section \<open>The steps\<close>

definition step_load_strategy :: "market_settings \<Rightarrow> tick_world \<Rightarrow> tick_op" where
  "step_load_strategy st io = (\<lambda>(cx, m).
     case ti_strategy io of
       Inl e \<Rightarrow> (Inl e, (cx, m))
     | Inr False \<Rightarrow> (Inr (Some ''strategy not found''), (cx, m))
     | Inr True \<Rightarrow>
         (Inr None, (cx\<lparr>cx_synth_assets := map fst (filter (\<lambda>(_, a). a \<noteq> []) (st_synth_addresses st))\<rparr>, m)))"

definition step_evaluate_signals :: "tick_world \<Rightarrow> tick_op" where
  "step_evaluate_signals io = (\<lambda>(cx, m).
     case ti_signals io of
       Inl e \<Rightarrow> (Inl e, (cx, m))
     | Inr sigs \<Rightarrow> (Inr (if sigs = [] then Some ''no signals'' else None), (cx\<lparr>cx_signals := sigs\<rparr>, m)))"

definition step_aggregate_weights :: "market_settings \<Rightarrow> tick_world \<Rightarrow> string \<Rightarrow> string \<Rightarrow> tick_op" where
  "step_aggregate_weights st io strategy_id tick_id = (\<lambda>(cx, m).
     let ws = aggregate_signals (cx_signals cx) (st_usdc_floor st); cx' = cx\<lparr>cx_weights := ws\<rparr>
     in if ws = [] then (Inr (Some ''no target weights''), (cx', m))
        else case append_event io strategy_id (Ev_evaluation_step tick_id ws) m of
               (Inl e, m') \<Rightarrow> (Inl e, (cx', m'))
             | (Inr _, m') \<Rightarrow> (Inr None, (cx', m')))"

definition step_ensemble :: tick_op where
  "step_ensemble = (\<lambda>(cx, m).
     let sigs = concat (map ss_signals (cx_signals cx));
         flat_count = length (filter (\<lambda>s. sg_signal s = FLAT) sigs); total_count = length sigs
     in if total_count > 0
        then (case from_signal_counts flat_count total_count of
                Inl e \<Rightarrow> (Inl e, (cx, m))
              | Inr c \<Rightarrow> (Inr None, (cx\<lparr>cx_consensus := Some c\<rparr>, m)))
        else (Inr None, (cx\<lparr>cx_consensus := None\<rparr>, m)))"

definition step_regime_classify :: "tick_world \<Rightarrow> tick_op" where
  "step_regime_classify io = (\<lambda>(cx, m).
     case try_acquire_regime_lock (ti_regime_lock io) (ti_regime_now io) (cs_redis m) of
       (Inl e, r) \<Rightarrow> (Inl e, (cx, m\<lparr>cs_redis := r\<rparr>))
     | (Inr held, r) \<Rightarrow>
         (let cx' = cx\<lparr>cx_lock_held := held\<rparr>; m' = m\<lparr>cs_redis := r\<rparr>
          in if held then (Inr None, (cx'\<lparr>cx_regime := ti_classified io\<rparr>, m'))
             else case ti_cached io of
                    Inl e \<Rightarrow> (Inl e, (cx', m'))
                  | Inr cached \<Rightarrow> (Inr None, (cx'\<lparr>cx_regime := cached\<rparr>, m'))))"

definition step_persist_regime :: "tick_world \<Rightarrow> tick_op" where
  "step_persist_regime io = (\<lambda>(cx, m).
     if cx_lock_held cx \<and> cx_regime cx \<noteq> None
     then (case send (ti_save_regime io) (\<lambda>m. m\<lparr>mk_regime := cx_regime cx\<rparr>) m of
             (Inl e, m') \<Rightarrow> (Inl e, (cx, m'))
           | (Inr _, m') \<Rightarrow> (Inr None, (cx, m')))
     else (Inr None, (cx, m)))"

definition step_persist_consensus :: "tick_world \<Rightarrow> string \<Rightarrow> tick_op" where
  "step_persist_consensus io strategy_id = (\<lambda>(cx, m).
     if cx_consensus cx \<noteq> None
     then (case send (ti_save_consensus io)
                  (\<lambda>m. m\<lparr>mk_consensus := (mk_consensus m)(strategy_id := cx_consensus cx)\<rparr>) m of
             (Inl e, m') \<Rightarrow> (Inl e, (cx, m'))
           | (Inr _, m') \<Rightarrow> (Inr None, (cx, m')))
     else (Inr None, (cx, m)))"

definition step_throttle :: tick_op where
  "step_throttle = (\<lambda>(cx, m).
     (Inr None, (cx\<lparr>cx_allocations := construct (cx_regime cx) (cx_consensus cx) (cx_weights cx)\<rparr>, m)))"

definition market_token_address :: "market_settings \<Rightarrow> string \<Rightarrow> string" where
  "market_token_address st symbol = chain_token_address (st_usdc_address st) (map_of (st_synth_addresses st)) symbol"

definition step_targets :: "market_settings \<Rightarrow> tick_op" where
  "step_targets st = (\<lambda>(cx, m).
     (Inr None, (cx\<lparr>cx_targets := weights_to_targets (cx_allocations cx) (cx_signals cx) (market_token_address st)\<rparr>, m)))"

definition step_read_portfolio :: "tick_world \<Rightarrow> publisher \<Rightarrow> tick_op" where
  "step_read_portfolio io pub = (\<lambda>(cx, m).
     case ti_portfolio io (pb_vault_address pub) of
       Inl e \<Rightarrow> (Inl e, (cx, m))
     | Inr pf \<Rightarrow> (Inr None, (cx\<lparr>cx_portfolio := Some pf\<rparr>, m)))"

definition traded_target :: "target_allocation \<Rightarrow> bool" where
  "traded_target t \<longleftrightarrow> 0 < ta_weight t \<and> ta_token_address t \<noteq> []"

definition oracle_pairs :: "market_settings \<Rightarrow> target_allocation list \<Rightarrow> (string \<times> string) list" where
  "oracle_pairs st targets =
     List.map_filter (\<lambda>t. if traded_target t \<and> ta_symbol t \<noteq> ''USDC''
        then (case st_oracle_addresses st (ta_symbol t) of
                Some a \<Rightarrow> if a = [] then None else Some (ta_token_address t, a)
              | None \<Rightarrow> None)
        else None) targets"

text \<open>The weights handed to \<open>set_target_allocations\<close>, from truncated basis points.\<close>

definition scale_to_10000 :: "int list \<Rightarrow> int list" where
  "scale_to_10000 ws =
     (let total_bps = sum_list ws
      in if total_bps > 0 \<and> total_bps \<noteq> 10000
         then let scale = fl (10000 / of_int total_bps);
                  scaled = map (\<lambda>w. rne (fl (of_int w * scale))) ws;
                  diff = 10000 - sum_list scaled
              in case scaled of [] \<Rightarrow> [] | x # xs \<Rightarrow> (if diff \<noteq> 0 then (x + diff) # xs else scaled)
         else ws)"

definition allocation_bps :: "target_allocation list \<Rightarrow> int list" where
  "allocation_bps targets = map (\<lambda>t. py_trunc (fl (ta_weight t * 10000))) (filter traded_target targets)"

text \<open>
  A call of the executor that the code makes inside \<^verbatim>\<open>try ... except Exception\<close>: whether it succeeds
  changes nothing here.
\<close>

definition push_call :: "chain_call \<Rightarrow> market \<Rightarrow> market" where
  "push_call c m = m\<lparr>mk_calls := mk_calls m @ [c]\<rparr>"

definition step_compute_trades :: "market_settings \<Rightarrow> tick_world \<Rightarrow> publisher \<Rightarrow> tick_op" where
  "step_compute_trades st io pub = (\<lambda>(cx, m).
     let pairs = oracle_pairs st (cx_targets cx); vault = pb_vault_address pub;
         tokens = map ta_token_address (filter traded_target (cx_targets cx));
         m1 = (if pairs = [] then m else push_call (Set_token_oracles vault (map fst pairs) (map snd pairs)) m);
         m2 = (if tokens = [] then m1
               else push_call (Set_target_allocations vault tokens (scale_to_10000 (allocation_bps (cx_targets cx)))) m1)
     in case cx_portfolio cx of
          None \<Rightarrow> (Inl AttributeError, (cx, m2))
        | Some pf \<Rightarrow>
            (let trades = market_trades io pf (cx_weights cx) (addr_map_of st)
             in (Inr None, (cx\<lparr>cx_trades := trades, cx_action_count := int (length trades)\<rparr>, m2))))"

definition step_dedup :: tick_op where
  "step_dedup = (\<lambda>(cx, m). (Inr (if cx_trades cx = [] then Some ''no_drift'' else None), (cx, m)))"

text \<open>\<^verbatim>\<open>max(d, key=d.get)\<close>: the first key of the largest value.\<close>

fun first_max :: "(string \<times> int) \<Rightarrow> (string \<times> int) list \<Rightarrow> string" where
  "first_max (k, v) [] = k"
| "first_max (k, v) ((k', v') # d) = (if v < v' then first_max (k', v') d else first_max (k, v) d)"

definition checked_bps :: "target_allocation list \<Rightarrow> (string \<times> int) list" where
  "checked_bps targets =
     (let d = fold (\<lambda>t. AList.update (ta_symbol t) (rne (fl (ta_weight t * 10000))))
                (filter traded_target targets) [];
          residual = sum_list (map snd d) - 10000
      in case d of
           [] \<Rightarrow> []
         | x # xs \<Rightarrow>
             if residual = 0 then d
             else let largest = first_max x xs
                  in map (\<lambda>(k, v). (k, if k = largest then v - residual else v)) d)"

fun join_failures :: "string list \<Rightarrow> string" where
  "join_failures [] = []"
| "join_failures [f] = f"
| "join_failures (f # fs) = f @ ''; '' @ join_failures fs"

definition step_vcheck :: "tick_world \<Rightarrow> string \<Rightarrow> string \<Rightarrow> tick_op" where
  "step_vcheck io strategy_id tick_id = (\<lambda>(cx, m).
     let v = run_v_check (new_v_check (checked_bps (cx_targets cx)))
     in if vr_passed v then (Inr None, (cx, m))
        else case append_event io strategy_id (Ev_skip tick_id (vr_failures v)) m of
               (Inl e, m') \<Rightarrow> (Inl e, (cx, m'))
             | (Inr _, m') \<Rightarrow> (Inr (Some (''v_check: '' @ join_failures (vr_failures v))), (cx, m')))"

text \<open>The dispatch table \<open>step_runners\<close>.\<close>

fun run_step ::
    "market_settings \<Rightarrow> tick_world \<Rightarrow> publisher \<Rightarrow> string \<Rightarrow> string \<Rightarrow> tick_step \<Rightarrow> tick_op" where
  "run_step st io pub sid tid LOAD_STRATEGY = step_load_strategy st io"
| "run_step st io pub sid tid EVALUATE_SIGNALS = step_evaluate_signals io"
| "run_step st io pub sid tid AGGREGATE_WEIGHTS = step_aggregate_weights st io sid tid"
| "run_step st io pub sid tid ENSEMBLE_CONSENSUS = step_ensemble"
| "run_step st io pub sid tid REGIME_CLASSIFY = step_regime_classify io"
| "run_step st io pub sid tid PERSIST_REGIME = step_persist_regime io"
| "run_step st io pub sid tid PERSIST_CONSENSUS = step_persist_consensus io sid"
| "run_step st io pub sid tid THROTTLE_WEIGHTS = step_throttle"
| "run_step st io pub sid tid WEIGHTS_TO_TARGETS = step_targets st"
| "run_step st io pub sid tid READ_PORTFOLIO = step_read_portfolio io pub"
| "run_step st io pub sid tid COMPUTE_TRADES = step_compute_trades st io pub"
| "run_step st io pub sid tid NO_DRIFT_DEDUP = step_dedup"
| "run_step st io pub sid tid V_CHECK = step_vcheck io sid tid"
| "run_step st io pub sid tid REBALANCE = (\<lambda>s. (Inl KeyError, s))"

section \<open>The tick\<close>

text \<open>Cleared with the surviving subscribers and the context, halted, or aborted by an exception.\<close>

fun pipeline ::
    "market_settings \<Rightarrow> tick_world \<Rightarrow> publisher \<Rightarrow> string \<Rightarrow> string \<Rightarrow> tick_step list \<Rightarrow> subscriber list \<Rightarrow> tick_ctx \<Rightarrow>
     (market, (subscriber list \<times> tick_ctx) option) op" where
  "pipeline st io pub sid tid [] active cx m = (Inr (Some (active, cx)), m)"
| "pipeline st io pub sid tid (stp # stps) active cx m =
     (case charge_step st io pub active sid tid stp m of
        (Inl e, m1) \<Rightarrow> (Inl e, m1)
      | (Inr (survivors, suppressed), m1) \<Rightarrow>
          (case run_step st io pub sid tid stp (cx, m1) of
             (Inr None, (cx', m2)) \<Rightarrow> pipeline st io pub sid tid stps survivors cx' m2
           | (Inr (Some why), (cx', m2)) \<Rightarrow>
               (case halt_publisher io survivors sid tid stp why suppressed m2 of
                  (Inl e, m3) \<Rightarrow> (Inl e, m3)
                | (Inr _, m3) \<Rightarrow> (Inr None, m3))
           | (Inl e, (cx', m2)) \<Rightarrow>
               if e = CancelledError then (Inl CancelledError, m2)
               else (case halt_publisher io survivors sid tid stp (ti_str io e) suppressed m2 of
                       (Inl e', m3) \<Rightarrow> (Inl e', m3)
                     | (Inr _, m3) \<Rightarrow> (Inr None, m3))))"

definition publisher_trades ::
    "market_settings \<Rightarrow> tick_world \<Rightarrow> publisher \<Rightarrow> string \<Rightarrow> string \<Rightarrow> tick_ctx \<Rightarrow> (market, unit) op" where
  "publisher_trades st io pub sid tid cx m =
     (if st_paper_trading st then (Inr (), m)
      else case execute_on io (pb_vault_address pub) (cx_trades cx) m of
        (Inl e, m1) \<Rightarrow> (swallow e (), m1)
      | (Inr _, m1) \<Rightarrow>
          (case send (ti_last_rebalance io)
                  (\<lambda>m. m\<lparr>mk_last_rebalance := insert (py_lower (pb_vault_address pub)) (mk_last_rebalance m)\<rparr>) m1 of
             (Inl e, m2) \<Rightarrow> (swallow e (), m2)
           | (Inr _, m2) \<Rightarrow>
               (case append_event io sid (Ev_rebalance tid (cx_action_count cx) (cx_weights cx)) m2 of
                  (Inl e, m3) \<Rightarrow> (swallow e (), m3)
                | (Inr _, m3) \<Rightarrow> (Inr (), m3))))"

definition sweep_stage :: "market_settings \<Rightarrow> tick_world \<Rightarrow> publisher \<Rightarrow> (market, unit) op" where
  "sweep_stage st io pub m =
     (if st_dry_run st then (Inr (), m)
      else case sweep_publisher (st_sweep st) (ti_sweep io) pub (mk_transfers m) of
             (Inl e, ts) \<Rightarrow> (swallow e (), m\<lparr>mk_transfers := ts\<rparr>)
           | (Inr _, ts) \<Rightarrow> (Inr (), m\<lparr>mk_transfers := ts\<rparr>))"

definition after_pipeline ::
    "market_settings \<Rightarrow> tick_world \<Rightarrow> publisher \<Rightarrow> subscriber list \<Rightarrow> string \<Rightarrow> string \<Rightarrow> string option \<Rightarrow>
     subscriber list \<Rightarrow> tick_ctx \<Rightarrow> (market, unit) op" where
  "after_pipeline st io pub subs sid tid leader_token active cx m =
     (case rebalance_phase st io pub active sid tid (cx_trades cx) (cx_weights cx) (cx_action_count cx) leader_token m of
        (Inl e, m1) \<Rightarrow> (Inl e, m1)
      | (Inr _, m1) \<Rightarrow>
          (case publisher_trades st io pub sid tid cx m1 of
             (Inl e, m2) \<Rightarrow> (Inl e, m2)
           | (Inr _, m2) \<Rightarrow>
               (case sweep_stage st io pub m2 of
                  (Inl e, m3) \<Rightarrow> (Inl e, m3)
                | (Inr _, m3) \<Rightarrow> save_subscribers (ti_save_subs io) sid (with_flags m3 subs) m3)))"

definition tick_body ::
    "market_settings \<Rightarrow> tick_world \<Rightarrow> publisher \<Rightarrow> subscriber list \<Rightarrow> string \<Rightarrow> string \<Rightarrow> string option \<Rightarrow> (market, unit) op" where
  "tick_body st io pub subs sid tid leader_token m =
     (case pipeline st io pub sid tid PIPELINE_STEPS (filter (subscriber_is_ready st io m) subs) new_ctx m of
        (Inl e, m1) \<Rightarrow> (Inl e, m1)
      | (Inr None, m1) \<Rightarrow> (Inr (), m1)
      | (Inr (Some (active, cx)), m1) \<Rightarrow> after_pipeline st io pub subs sid tid leader_token active cx m1)"

definition tick_id_at :: "string \<Rightarrow> int \<Rightarrow> string" where
  "tick_id_at strategy_id seconds = strategy_id @ '':'' @ show_int seconds"

definition tick ::
    "market_settings \<Rightarrow> tick_world \<Rightarrow> int \<Rightarrow> string \<Rightarrow> string option \<Rightarrow> (market, unit) op" where
  "tick st io seconds strategy_id leader_token m =
     (case mk_publishers m strategy_id of
        None \<Rightarrow> (Inr (), m)
      | Some (pub, subs) \<Rightarrow>
          (case tick_body st io pub subs strategy_id (tick_id_at strategy_id seconds) leader_token m of
             (res, m1) \<Rightarrow>
               (case release_leader (ti_release io) (ti_leader_now io) strategy_id leader_token (cs_redis m1) of
                  (Inl e, r) \<Rightarrow> (Inl e, m1\<lparr>cs_redis := r\<rparr>)
                | (Inr _, r) \<Rightarrow> (res, m1\<lparr>cs_redis := r\<rparr>))))"

text \<open>One round of \<open>_run_loop\<close>: the exceptions of the tick and of the lock are logged.\<close>

definition loop_round ::
    "market_settings \<Rightarrow> tick_world \<Rightarrow> reply \<Rightarrow> int \<Rightarrow> string \<Rightarrow> string \<Rightarrow> int \<Rightarrow> (market, unit) op" where
  "loop_round st io net now token strategy_id seconds m =
     (case try_acquire_leader net now strategy_id token (cs_redis m) of
        (Inl e, r) \<Rightarrow> (swallow e (), m\<lparr>cs_redis := r\<rparr>)
      | (Inr None, r) \<Rightarrow> (Inr (), m\<lparr>cs_redis := r\<rparr>)
      | (Inr (Some t), r) \<Rightarrow>
          (case tick st io seconds strategy_id (Some t) (m\<lparr>cs_redis := r\<rparr>) of
             (Inl e, m1) \<Rightarrow> (swallow e (), m1)
           | (Inr _, m1) \<Rightarrow> (Inr (), m1)))"

section \<open>Targets\<close>

lemma sum_list_fix:
  fixes ws :: "('a \<times> int) list"
  assumes "distinct (map fst ws)" and "l \<in> fst ` set ws"
  shows "sum_list (map snd (map (\<lambda>(k, v). (k, if k = l then v - d else v)) ws)) = sum_list (map snd ws) - d"
proof -
  have frame: "map snd (map (\<lambda>(k, v). (k, if k = l then v - d else v)) ws) = map snd ws"
    if "l \<notin> fst ` set ws" for ws :: "('a \<times> int) list"
    using that by (induction ws) auto
  show ?thesis using assms
  proof (induction ws)
    case (Cons w ws)
    then show ?case using frame [of ws] by (cases w; cases "fst w = l") (simp_all del: map_map)
  qed simp
qed

lemma first_max_in: "first_max x xs \<in> fst ` set (x # xs)"
  by (induction x xs rule: first_max.induct) auto

lemma checked_bps_sum:
  assumes "list_ex traded_target targets"
  shows "sum_list (map snd (checked_bps targets)) = 10000"
proof -
  let ?d = "fold (\<lambda>t. AList.update (ta_symbol t) (rne (fl (ta_weight t * 10000)))) (filter traded_target targets) []"
  have dist: "distinct (map fst ?d)"
  proof -
    have "distinct (map fst (fold (\<lambda>t. AList.update (ta_symbol t) (f t)) ts d))" if "distinct (map fst d)"
      for f ts and d :: "(string \<times> int) list"
      using that by (induction ts arbitrary: d) (simp_all add: AList.distinct_update)
    from this [of "[]"] show ?thesis by simp
  qed
  have "fst ` set (fold (\<lambda>t. AList.update (ta_symbol t) (f t)) ts d) = ta_symbol ` set ts \<union> fst ` set d"
    for f :: "target_allocation \<Rightarrow> int" and ts d
    by (induction ts arbitrary: d) (auto simp: AList.dom_update)
  from this [of "\<lambda>t. rne (fl (ta_weight t * 10000))" "filter traded_target targets" "[]"]
  have "fst ` set ?d = ta_symbol ` set (filter traded_target targets)" by simp
  moreover have "filter traded_target targets \<noteq> []" using assms by (auto simp: list_ex_iff filter_empty_conv)
  ultimately have "?d \<noteq> []" by (metis image_is_empty set_empty)
  then obtain x xs where d: "?d = x # xs" by (cases ?d) blast+
  have "sum_list (map snd (map (\<lambda>(k, v). (k, if k = first_max x xs then v - r else v)) (x # xs))) =
        sum_list (map snd (x # xs)) - r" for r
    using dist first_max_in [of x xs] unfolding d by (intro sum_list_fix) simp_all
  from this [of "sum_list (map snd (x # xs)) - 10000"] show ?thesis
    unfolding checked_bps_def Let_def d by (simp del: map_map list.map(2))
qed

text \<open>
  What the pre-trade check of a tick decides.  Because the residual is taken off the largest
  weight before the check, the sum is always 10000 when anything is to be held; so the check passes
  exactly when something is to be held and no corrected weight exceeds 60%.
\<close>

theorem tick_vcheck_decides:
  "vr_passed (run_v_check (new_v_check (checked_bps targets))) \<longleftrightarrow>
   list_ex traded_target targets \<and> list_all (\<lambda>(_, w). w \<le> 6000) (checked_bps targets)"
proof (cases "list_ex traded_target targets")
  case True
  have "vr_passed (run_v_check (new_v_check ws)) \<longleftrightarrow>
      sum_list (map snd ws) = 10000 \<and> list_all (\<lambda>(_, w). w \<le> 6000) ws" for ws
    using v_check_passes(1) [of "new_v_check ws"]
    by (simp add: new_v_check_def DEFAULT_MAX_CONCENTRATION_BPS_def list_all_iff)
  with True checked_bps_sum show ?thesis by simp
next
  case False
  then have "filter traded_target targets = []" by (auto simp: list_ex_iff filter_empty_conv)
  then have "checked_bps targets = []" by (simp add: checked_bps_def)
  then show ?thesis using False by (simp add: run_v_check_def new_v_check_def Let_def)
qed

text \<open>What a tick sees when every signal is flat.\<close>

lemma flat_targets:
  assumes "cx_allocations cx = [(''USDC'', 1)]"
  shows "cx_targets (fst (snd (step_targets st (cx, m)))) =
         [\<lparr>ta_symbol = ''USDC'', ta_token_address = st_usdc_address st, ta_weight = 1,
           ta_strategy_ids = symbol_strategies (cx_signals cx) ''USDC''\<rparr>]"
  using assms by (simp add: step_targets_def weights_to_targets_def market_token_address_def chain_token_address_def)

lemma cash_fails:
  "\<not> vr_passed (run_v_check (new_v_check (checked_bps [\<lparr>ta_symbol = ''USDC'', ta_token_address = a, ta_weight = 1,
        ta_strategy_ids = ids\<rparr>])))"
proof -
  have "fl 10000 = 10000" using fl_exact [of 10000 0] by simp
  moreover have "rne (10000 :: rat) = 10000" using rne_of_int [of 10000] by simp
  ultimately show ?thesis
    by (simp add: checked_bps_def traded_target_def new_v_check_def run_v_check_def max_weight_def
        DEFAULT_MAX_CONCENTRATION_BPS_def Let_def)
qed

text \<open>
  A strategy that votes to be in cash cannot get there.  When all its signals are flat the
  throttled target is USDC alone, and whatever the regime, the consensus and the address book, the
  pre-trade check refuses it: the step halts the tick, or raises because the event could not be
  written, before any vault trades.
\<close>

theorem all_flat_never_clears:
  assumes "cx_signals cx \<noteq> []"
    and "\<forall>ss \<in> set (cx_signals cx). \<forall>sig \<in> set (ss_signals ss). sg_weight sig = 0"
    and "cx_weights cx = aggregate_signals (cx_signals cx) usdc_floor" and "0 < py_round 4 usdc_floor"
    and "step_throttle (cx, m) = (Inr None, (cx1, m1))" and "step_targets st (cx1, m1) = (Inr None, (cx2, m2))"
  shows "fst (step_vcheck io sid tid (cx2, m3)) \<noteq> Inr None"
proof -
  from assms(5) have cx1: "cx_allocations cx1 = [(''USDC'', 1)]"
    using all_flat_weights(2) [OF assms(1,2,4)] assms(3) by (auto simp: step_throttle_def)
  have "cx_targets cx2 = [\<lparr>ta_symbol = ''USDC'', ta_token_address = st_usdc_address st, ta_weight = 1,
           ta_strategy_ids = symbol_strategies (cx_signals cx1) ''USDC''\<rparr>]"
    using flat_targets [OF cx1, of st m1] assms(6) by simp
  then show ?thesis
    using cash_fails by (simp add: step_vcheck_def Let_def split: prod.splits sum.splits)
qed

theorem all_flat_never_clears_witness:
  "\<forall>st io m. let cx = new_ctx\<lparr>cx_signals := flat_votes, cx_weights := aggregate_signals flat_votes (1 / 4)\<rparr>
     in fst (step_vcheck io ''s'' ''s:1'' (fst (snd (step_targets st (fst (snd (step_throttle (cx, m))), m))), m)) \<noteq> Inr None"
proof (intro allI)
  fix st io m
  let ?cx = "new_ctx\<lparr>cx_signals := flat_votes, cx_weights := aggregate_signals flat_votes (1 / 4)\<rparr>"
  let ?cx1 = "fst (snd (step_throttle (?cx, m)))"
  let ?cx2 = "fst (snd (step_targets st (?cx1, m)))"
  have t: "step_throttle (?cx, m) = (Inr None, (?cx1, m))" by (simp add: step_throttle_def)
  have u: "step_targets st (?cx1, m) = (Inr None, (?cx2, m))" by (simp add: step_targets_def)
  have s: "cx_signals ?cx = flat_votes" "cx_weights ?cx = aggregate_signals flat_votes (1 / 4)" by simp_all
  have q: "0 < py_round 4 (1 / 4)" by (simp add: quarter)
  have "fst (step_vcheck io ''s'' ''s:1'' (?cx2, m)) \<noteq> Inr None"
    by (rule all_flat_never_clears [OF _ _ _ q t u], unfold s, rule flat_votes_flat(1), rule flat_votes_flat(2), rule refl)
  then show "let cx = ?cx in fst (step_vcheck io ''s'' ''s:1'' (fst (snd (step_targets st (fst (snd (step_throttle (cx, m))), m))), m)) \<noteq> Inr None"
    unfolding Let_def .
qed

text \<open>
  The allocations pushed on chain are complete.  Whenever the truncated weights of the targets add
  up to something positive, what is handed to the vault is one integer per target and sums to exactly
  10000 basis points.
\<close>

theorem pushed_allocations_complete:
  "length (scale_to_10000 ws) = length ws \<and>
   sum_list (scale_to_10000 ws) = (if 0 < sum_list ws then 10000 else sum_list ws)"
  by (cases ws) (auto simp: scale_to_10000_def Let_def)

text \<open>
  The correction can push a negative weight.  Four targets of 0.9, 3332.4, 3333.3 and 3333.4 basis
  points are truncated to 9998, scaled back with every large one rounded up, and the excess is taken
  off the first, which has nothing to give; an unsigned weight of the vault cannot be negative.
\<close>

theorem pushed_allocation_negative:
  "scale_to_10000 [0, 3332, 3333, 3333] = [- 1, 3333, 3334, 3334]"
proof -
  have scale: "fl (5000 / 4999) = 4504500527475991 / 4503599627370496"
    using fl_value [of "- 52" "5000 / 4999" 4504500527475991] by simp
  have a: "fl (3752248939387500503 / 1125899906842624) = 1832152802435303 / 549755813888"
    using fl_value [of "- 41" "3752248939387500503 / 1125899906842624" 7328611209741212] by simp
  have b: "fl (15013500258077478003 / 4503599627370496) = 3665405336444697 / 1099511627776"
    using fl_value [of "- 41" "15013500258077478003 / 4503599627370496" 7330810672889394] by simp
  have r: "rne (1832152802435303 / 549755813888) = 3333" "rne (3665405336444697 / 1099511627776) = 3334"
    by (rule rne_near, simp)+
  have "rne 0 = 0" using rne_of_int [of 0] by simp
  then show ?thesis by (simp add: scale_to_10000_def Let_def scale a b r)
qed

text \<open>
  The throttle does not reach the trades.  The trades of a tick are computed from the raw
  aggregated weights: whatever the regime and the consensus made of the targets, which are what the
  pre-trade check judges and what is announced on chain, the vaults trade the same orders.
\<close>

theorem throttle_not_traded:
  "cx_trades (fst (snd (step_compute_trades st io pub (cx\<lparr>cx_targets := targets, cx_allocations := ws\<rparr>, m)))) =
   cx_trades (fst (snd (step_compute_trades st io pub (cx, m'))))"
  by (simp add: step_compute_trades_def Let_def split: option.splits)

end
