(* ===== verification/TickMoney.thy ===== *)
theory TickMoney
  imports Tick
begin

text \<open>
  What one tick does to money and to the tick log.  The locale \<open>tick_frame\<close> states what a relation
  between the market before and after must satisfy for one charge, one log row and one sweep; it then
  holds of the whole tick, whatever path the tick takes (halts, aborts and lost calls included).  It
  is interpreted twice on the code: for the kill switch, and for who is charged for what.
\<close>

section \<open>Frames\<close>

text \<open>Nothing about money or the log differs.\<close>

definition same_books :: "market \<Rightarrow> market \<Rightarrow> bool" where
  "same_books m m' \<longleftrightarrow>
     cs_charges m' = cs_charges m \<and> cs_intents m' = cs_intents m \<and> mk_transfers m' = mk_transfers m \<and>
     mk_log m' = mk_log m"

named_theorems books "operations that leave the books alone"

lemma same_books_refl [books, simp]: "same_books m m"
  by (simp add: same_books_def)

lemma same_books_send:
  "(\<And>m. same_books m (f m)) \<Longrightarrow> same_books m (snd (send net f m))"
  by (cases net) (simp_all add: send_def)

lemma books_append_event [books]: "same_books m (snd (append_event io sid ev m))"
  unfolding append_event_def by (rule same_books_send) (simp add: same_books_def)

lemma books_save_subscribers [books]: "same_books m (snd (save_subscribers net sid subs m))"
  unfolding save_subscribers_def by (rule same_books_send) (simp add: same_books_def)

lemma books_defer [books]: "same_books m (defer_subscriber io pub sub m)"
  by (simp add: defer_subscriber_def same_books_def)

lemma books_liability [books]: "same_books m (record_liability st io sub sid tid n m)"
proof -
  have "same_books (m\<lparr>mk_liabilities := x\<rparr>) (snd (append_event io sid ev (m\<lparr>mk_liabilities := x\<rparr>)))" for x ev
    by (rule books_append_event)
  then show ?thesis by (simp add: record_liability_def same_books_def)
qed

lemma books_execute [books]: "same_books m (snd (execute_on io v ts m))"
  by (simp add: execute_on_def same_books_def)

lemma books_apply [books]: "same_books m (snd (apply_to_subscriber st io ws sub m))"
  using books_execute
  by (auto simp: apply_to_subscriber_def Let_def split: sum.splits prod.splits) (metis snd_conv)+

lemma books_renew [books]: "same_books m (snd (renew_leader_m io sid token m))"
  by (simp add: renew_leader_m_def same_books_def split: prod.splits)

lemma books_run_step [books]: "same_books m (snd (snd (run_step st io pub sid tid stp (cx, m))))"
proof (cases stp)
  case AGGREGATE_WEIGHTS
  have "same_books m m'" if "append_event io sid ev m = (res, m')" for ev res m'
    using books_append_event [of m io sid ev] that by simp
  with AGGREGATE_WEIGHTS show ?thesis
    by (auto simp: step_aggregate_weights_def Let_def split: prod.splits sum.splits)
next
  case V_CHECK
  have "same_books m m'" if "append_event io sid ev m = (res, m')" for ev res m'
    using books_append_event [of m io sid ev] that by simp
  with V_CHECK show ?thesis by (auto simp: step_vcheck_def Let_def split: prod.splits sum.splits)
next
  case PERSIST_REGIME
  have "same_books m m'" if "send net (\<lambda>m. m\<lparr>mk_regime := x\<rparr>) m = (res, m')" for net x res m'
    using same_books_send [of "\<lambda>m. m\<lparr>mk_regime := x\<rparr>" m net] that by (simp add: same_books_def)
  with PERSIST_REGIME show ?thesis by (auto simp: step_persist_regime_def split: prod.splits sum.splits)
next
  case PERSIST_CONSENSUS
  have "same_books m m'" if "send net (\<lambda>m. m\<lparr>mk_consensus := (mk_consensus m)(sid := x)\<rparr>) m = (res, m')" for net x res m'
    using same_books_send [of "\<lambda>m. m\<lparr>mk_consensus := (mk_consensus m)(sid := x)\<rparr>" m net] that
    by (simp add: same_books_def)
  with PERSIST_CONSENSUS show ?thesis by (auto simp: step_persist_consensus_def split: prod.splits sum.splits)
next
  case REGIME_CLASSIFY
  then show ?thesis
    by (auto simp: step_regime_classify_def Let_def same_books_def split: prod.splits sum.splits)
next
  case COMPUTE_TRADES
  then show ?thesis
    by (auto simp: step_compute_trades_def push_call_def Let_def same_books_def split: option.splits)
qed (auto simp: step_load_strategy_def step_evaluate_signals_def step_ensemble_def step_throttle_def step_targets_def
    step_read_portfolio_def step_dedup_def Let_def split: sum.splits bool.splits)

lemma books_publisher_trades [books]: "same_books m (snd (publisher_trades st io pub sid tid cx m))"
proof -
  have tr: "same_books a b \<Longrightarrow> same_books b c \<Longrightarrow> same_books a c" for a b c by (simp add: same_books_def)
  have e: "same_books m m'" if "execute_on io v ts m = (res, m')" for v ts res m'
    using books_execute [of m io v ts] that by simp
  have s: "same_books a b"
    if "send net (\<lambda>m. m\<lparr>mk_last_rebalance := insert x (mk_last_rebalance m)\<rparr>) a = (res, b)" for net x a b res
    using same_books_send [of "\<lambda>m. m\<lparr>mk_last_rebalance := insert x (mk_last_rebalance m)\<rparr>" a net] that
    by (simp add: same_books_def)
  have v: "same_books a b" if "append_event io sid ev a = (res, b)" for ev a b res
    using books_append_event [of a io sid ev] that by simp
  show ?thesis
    by (auto simp: publisher_trades_def split: prod.splits sum.splits dest!: e s v intro: tr)
qed

section \<open>From one charge to the tick\<close>

text \<open>
  \<open>may\<close> says whether a charge of this tick can be answered as paid and not suppressed; only then may
  a log row say that it was charged.
\<close>

locale tick_frame =
  fixes st :: market_settings and io :: tick_world and pub :: publisher and sid tid :: string
    and may :: bool and rel :: "market \<Rightarrow> market \<Rightarrow> bool" and billed :: "subscriber \<Rightarrow> bool"
  assumes rel_trans: "rel a b \<Longrightarrow> rel b c \<Longrightarrow> rel a c"
    and rel_books: "same_books a b \<Longrightarrow> rel a b"
    and rel_row: "tr_charged rec \<Longrightarrow> may \<Longrightarrow> rel a (record_subscriber_tick io rec a)"
    and rel_free_row: "\<not> tr_charged rec \<Longrightarrow> rel a (record_subscriber_tick io rec a)"
    and rel_charge: "billed sub \<Longrightarrow> rel a (snd (charge_sub st io pub sid tid stp n sub a))"
    and answer_may: "fst (charge_sub st io pub sid tid stp n sub a) = Inr (True, why, False) \<Longrightarrow> may"
    and rel_sweep: "rel a (snd (sweep_stage st io pub a))"
begin

lemma rel_refl: "rel a a"
  by (rule rel_books) (rule same_books_refl)

lemma rel_record: "(tr_charged rec \<Longrightarrow> may) \<Longrightarrow> rel a (record_subscriber_tick io rec a)"
  using rel_row rel_free_row by blast

lemma rel_gather:
  assumes "\<And>x a. x \<in> set xs \<Longrightarrow> rel a (snd (f x a))"
  shows "rel a (snd (gather f xs a))"
  using assms
proof (induction xs arbitrary: a)
  case (Cons x xs)
  have "rel a (snd (f x a))" using Cons.prems by simp
  moreover have "rel (snd (f x a)) (snd (gather f xs (snd (f x a))))" using Cons by simp
  ultimately show ?case by (auto simp: case_prod_beta intro: rel_trans)
qed (simp add: rel_refl)

text \<open>When nothing may be charged, every survivor is marked as suppressed.\<close>

definition marked :: "survivors \<Rightarrow> bool" where
  "marked acc \<longleftrightarrow> (\<not> may \<longrightarrow> sb_sub_id ` set (fst acc) \<subseteq> set (snd acc))"

definition kept :: "survivors \<Rightarrow> bool" where
  "kept acc \<longleftrightarrow> (\<forall>sub \<in> set (fst acc). billed sub)"

lemma settle_result_for_frame:
  assumes "\<And>why. result = Inr (True, why, False) \<Longrightarrow> may" and "billed sub" and "marked acc" and "kept acc"
  shows "rel a (snd (settle_result_for io pub sid tid stp sub result acc a))"
    and "fst (settle_result_for io pub sid tid stp sub result acc a) = Inr acc' \<Longrightarrow> marked acc' \<and> kept acc'"
proof -
  obtain paid why supp where r: "(case result of Inl e \<Rightarrow> (False, None, False) | Inr x \<Rightarrow> x) = (paid, why, supp)"
    by (metis prod_cases3)
  have may: "may" if "paid" "\<not> supp" using assms(1) [of why] r that by (auto split: sum.splits)
  let ?m1 = "defer_subscriber io pub sub a"
  let ?rec = "(step_record sid tid stp 1 sub)\<lparr>tr_halted := True, tr_halt_source := Some Halt_PAYMENT,
      tr_halt_reason := Some (case why of None \<Rightarrow> ''could not afford '' @ step_value stp | Some w \<Rightarrow> w)\<rparr>"
  let ?m2 = "record_subscriber_tick io ?rec ?m1"
  have "rel a ?m1" by (rule rel_books) (rule books_defer)
  moreover have "rel ?m1 ?m2" by (rule rel_free_row) (simp add: step_record_def)
  moreover have "rel ?m2 (snd (append_event io sid ev ?m2))" for ev by (rule rel_books) (rule books_append_event)
  ultimately have halt: "rel a (snd (append_event io sid ev ?m2))" for ev by (blast intro: rel_trans)
  show "rel a (snd (settle_result_for io pub sid tid stp sub result acc a))"
    using halt [of "Ev_halt (sb_sub_id sub) stp tid"] may
    by (auto simp: settle_result_for_def r Let_def step_record_def intro!: rel_record split: prod.splits sum.splits)
  show "marked acc' \<and> kept acc'" if "fst (settle_result_for io pub sid tid stp sub result acc a) = Inr acc'"
    using that may assms(2-4)
    by (auto simp: settle_result_for_def r Let_def marked_def kept_def image_subset_iff split: prod.splits sum.splits if_splits)
qed

lemma settle_results_frame:
  assumes "\<And>sub result why. (sub, result) \<in> set rs \<Longrightarrow> billed sub \<and> (result = Inr (True, why, False) \<longrightarrow> may)"
    and "marked acc" and "kept acc"
  shows "rel a (snd (settle_results io pub sid tid stp rs acc a)) \<and>
         (\<forall>acc'. fst (settle_results io pub sid tid stp rs acc a) = Inr acc' \<longrightarrow> marked acc' \<and> kept acc')"
  using assms
proof (induction rs arbitrary: acc a)
  case (Cons r rs)
  obtain sub result where r: "r = (sub, result)" by (cases r)
  have p: "\<And>why. result = Inr (True, why, False) \<Longrightarrow> may" and b: "billed sub"
    using Cons.prems(1) [of sub result] r by auto
  have one1: "rel a (snd (settle_result_for io pub sid tid stp sub result acc a))"
    by (rule settle_result_for_frame(1) [OF p b Cons.prems(2,3)])
  have one2: "marked acc' \<and> kept acc'"
    if "fst (settle_result_for io pub sid tid stp sub result acc a) = Inr acc'" for acc'
    by (rule settle_result_for_frame(2) [OF p b Cons.prems(2,3) that])
  obtain res m' where s: "settle_result_for io pub sid tid stp sub result acc a = (res, m')" by fastforce
  show ?case
  proof (cases res)
    case (Inl e)
    with one1 s r show ?thesis by simp
  next
    case (Inr acc1)
    with one2 s have "marked acc1" "kept acc1" by simp_all
    with Cons.IH [of acc1 m'] Cons.prems(1) have
      "rel m' (snd (settle_results io pub sid tid stp rs acc1 m')) \<and>
       (\<forall>acc'. fst (settle_results io pub sid tid stp rs acc1 m') = Inr acc' \<longrightarrow> marked acc' \<and> kept acc')"
      by auto
    with one1 s r Inr show ?thesis by (auto intro: rel_trans)
  qed
qed (simp add: rel_refl)

lemma gather_answers:
  "(sub, result) \<in> set (zip xs (fst (gather (charge_sub st io pub sid tid stp n) xs a))) \<Longrightarrow>
   result = Inr (True, why, False) \<Longrightarrow> may"
proof (induction xs arbitrary: a)
  case (Cons x xs)
  then show ?case
    using answer_may [of stp n x a why] by (auto simp: case_prod_beta)
qed simp

lemma charge_chunks_frame:
  assumes "\<forall>sub \<in> set (concat cs). billed sub" and "marked acc" and "kept acc"
  shows "rel a (snd (charge_chunks st io pub sid tid stp cs acc a)) \<and>
         (\<forall>acc'. fst (charge_chunks st io pub sid tid stp cs acc a) = Inr acc' \<longrightarrow> marked acc' \<and> kept acc')"
  using assms
proof (induction cs arbitrary: acc a)
  case (Cons c cs)
  let ?f = "charge_sub st io pub sid tid stp 1"
  obtain results m1 where g: "gather ?f c a = (results, m1)" by fastforce
  have m1: "rel a m1" using rel_gather [of c ?f a] Cons.prems(1) rel_charge g by simp
  have "billed sub \<and> (result = Inr (True, why, False) \<longrightarrow> may)" if "(sub, result) \<in> set (zip c results)" for sub result why
    using that gather_answers [of sub result c stp 1 a why] g Cons.prems(1) by (auto dest: set_zip_leftD)
  note sr = settle_results_frame [where rs = "zip c results" and a = m1 and stp = stp, OF this Cons.prems(2,3)]
  obtain res m2 where s: "settle_results io pub sid tid stp (zip c results) acc m1 = (res, m2)" by fastforce
  with sr have m2: "rel a m2" using m1 by (auto intro: rel_trans)
  show ?case
  proof (cases res)
    case (Inl e)
    with g s m1 m2 show ?thesis by simp
  next
    case (Inr acc1)
    with sr s have "marked acc1" "kept acc1" by simp_all
    with Cons.IH [of acc1 m2] Cons.prems(1) g s Inr m1 m2 show ?thesis by (auto intro: rel_trans)
  qed
qed (simp add: rel_refl)

end

lemma concat_chunks: "0 < n \<Longrightarrow> concat (chunks n xs) = xs"
proof (induction n xs rule: chunks.induct)
  case (1 n xs)
  then show ?case by (subst chunks.simps) auto
qed

lemma batches_members: "batches n xs = Inr cs \<Longrightarrow> set (concat cs) \<subseteq> set xs"
  using concat_chunks [of "nat n" xs] by (auto simp: batches_def split: if_splits simp del: set_concat)

context tick_frame
begin

lemma charge_step_frame:
  assumes "\<forall>sub \<in> set active. billed sub"
  shows "rel a (snd (charge_step st io pub active sid tid stp a))"
    and "fst (charge_step st io pub active sid tid stp a) = Inr acc' \<Longrightarrow> marked acc' \<and> kept acc'"
proof -
  have base: "marked ([], [])" "kept ([], [])" by (simp_all add: marked_def kept_def)
  have b: "\<forall>sub \<in> set (concat cs). billed sub" if "batches (st_batch_size st) active = Inr cs" for cs
    using batches_members [OF that] assms by blast
  show "rel a (snd (charge_step st io pub active sid tid stp a))"
    using charge_chunks_frame [OF b base, of _ a stp] by (simp add: charge_step_def rel_refl split: sum.splits)
  show "marked acc' \<and> kept acc'" if "fst (charge_step st io pub active sid tid stp a) = Inr acc'"
    using charge_chunks_frame [OF b base, of _ a stp] that
    by (cases acc') (auto simp: charge_step_def split: sum.splits)
qed

lemma halt_publisher_frame:
  assumes "\<not> may \<Longrightarrow> sb_sub_id ` set active \<subseteq> set suppressed"
  shows "rel a (snd (halt_publisher io active sid tid stp reason suppressed a))"
proof -
  let ?rec = "\<lambda>sub. (step_record sid tid stp 1 sub)\<lparr>tr_halted := True, tr_halt_source := Some Halt_PUBLISHER,
      tr_halt_reason := Some reason, tr_charged := (sb_sub_id sub \<notin> set suppressed)\<rparr>"
  have "rel a (fold (\<lambda>sub. record_subscriber_tick io (?rec sub)) xs a)" if "set xs \<subseteq> set active" for xs
    using that
  proof (induction xs arbitrary: a)
    case (Cons x xs)
    have "rel a (record_subscriber_tick io (?rec x) a)"
      by (rule rel_record) (use assms Cons.prems in \<open>auto simp: image_subset_iff\<close>)
    with Cons show ?case by (auto intro: rel_trans)
  qed (simp add: rel_refl)
  from this [of active] show ?thesis
    unfolding halt_publisher_def by (auto intro: rel_trans rel_books books_append_event)
qed

lemma rebalance_one_frame:
  assumes "billed sub"
  shows "rel a (snd (rebalance_one st io pub sid tid ws n sub a))"
proof -
  obtain res m1 where c: "charge_sub st io pub sid tid REBALANCE n sub a = (res, m1)" by fastforce
  have m1: "rel a m1" using rel_charge [OF assms, of a REBALANCE n] c by simp
  show ?thesis
  proof (cases res)
    case (Inl e)
    with c m1 show ?thesis by (simp add: rebalance_one_def)
  next
    case (Inr ans)
    obtain paid why supp where ans: "ans = (paid, why, supp)" by (cases ans)
    show ?thesis
    proof (cases paid)
      case False
      have "rel m1 (record_subscriber_tick io rec (defer_subscriber io pub sub m1))" if "\<not> tr_charged rec" for rec
        using that rel_free_row rel_books [OF books_defer] rel_trans by blast
      with False m1 show ?thesis
        by (auto simp: rebalance_one_def c Inr ans step_record_def intro: rel_trans)
    next
      case True
      then have may: "\<not> supp \<Longrightarrow> may" using answer_may [of REBALANCE n sub a why] c Inr ans by simp
      obtain out m2 where o: "apply_to_subscriber st io ws sub m1 = (out, m2)" by fastforce
      have m2: "rel a m2" using books_apply [of m1 st io ws sub] o m1 by (auto intro: rel_trans rel_books)
      let ?rec = "rebalance_record io sid tid n sub supp out"
      have m3: "rel a (record_subscriber_tick io ?rec m2)"
        by (rule rel_trans [OF m2], rule rel_record) (use may in \<open>simp add: rebalance_record_def\<close>)
      have "rel x (record_liability st io sub sid tid n (defer_subscriber io pub sub x))" for x
        using rel_books [OF books_defer] rel_books [OF books_liability] rel_trans by blast
      with m2 m3 show ?thesis
        by (auto simp: rebalance_one_def c Inr ans True o Let_def intro: rel_trans)
    qed
  qed
qed

lemma rebalance_chunks_frame:
  "\<forall>sub \<in> set (concat cs). billed sub \<Longrightarrow> rel a (snd (rebalance_chunks st io pub sid tid ws n cs a))"
proof (induction cs arbitrary: a)
  case (Cons c cs)
  let ?f = "rebalance_one st io pub sid tid ws n"
  obtain results m1 where g: "gather ?f c a = (results, m1)" by fastforce
  have "rel a m1" using rel_gather [of c ?f a] Cons.prems rebalance_one_frame g by simp
  with Cons.IH [of m1] Cons.prems g show ?case by (auto intro: rel_trans)
qed (simp add: rel_refl)

lemma charge_half_frame:
  "\<forall>sub \<in> set half. billed sub \<Longrightarrow> rel a (snd (charge_half st io pub sid tid ws n half a))"
proof -
  assume "\<forall>sub \<in> set half. billed sub"
  then have "\<forall>sub \<in> set (concat cs). billed sub" if "batches (st_batch_size st) half = Inr cs" for cs
    using batches_members [OF that] by blast
  from rebalance_chunks_frame [OF this] show ?thesis by (simp add: charge_half_def rel_refl split: sum.splits)
qed

lemma rebalance_phase_frame:
  assumes "\<forall>sub \<in> set active. billed sub"
  shows "rel a (snd (rebalance_phase st io pub active sid tid trades ws n token a))"
proof -
  let ?mid = "length active div 2"
  let ?first = "if ?mid = 0 then active else take ?mid active"
  obtain r1 m1 where h: "(if ?first = [] then (Inr (), a) else charge_half st io pub sid tid ws n ?first a) = (r1, m1)"
    by fastforce
  have first: "\<forall>sub \<in> set ?first. billed sub" using assms by (auto dest: in_set_takeD)
  have m1: "rel a m1"
  proof (cases "?first = []")
    case True
    with h show ?thesis by (simp add: rel_refl)
  next
    case False
    with h have "m1 = snd (charge_half st io pub sid tid ws n ?first a)" by simp
    with charge_half_frame [OF first] show ?thesis by simp
  qed
  obtain r2 m2 where w: "renew_leader_m io sid token m1 = (r2, m2)" by fastforce
  have m2: "rel a m2" using books_renew [of m1 io sid token] w m1 by (auto intro: rel_trans rel_books)
  have "\<forall>sub \<in> set (drop ?mid active). billed sub" using assms by (auto dest: in_set_dropD)
  from charge_half_frame [OF this] have "rel a (snd (charge_half st io pub sid tid ws n (drop ?mid active) m2))"
    using m2 by (blast intro: rel_trans)
  then show ?thesis
    using h w m1 m2 by (cases r1; cases r2) (simp_all add: rebalance_phase_def Let_def rel_refl)
qed

lemma pipeline_frame:
  "\<forall>sub \<in> set active. billed sub \<Longrightarrow>
   rel a (snd (pipeline st io pub sid tid steps active cx a)) \<and>
   (\<forall>active' cx'. fst (pipeline st io pub sid tid steps active cx a) = Inr (Some (active', cx')) \<longrightarrow>
      (\<forall>sub \<in> set active'. billed sub))"
proof (induction steps arbitrary: active cx a)
  case Nil
  then show ?case by (simp add: rel_refl)
next
  case (Cons stp stps)
  obtain res m1 where c: "charge_step st io pub active sid tid stp a = (res, m1)" by fastforce
  have m1: "rel a m1" using charge_step_frame(1) [OF Cons.prems, where a = a and stp = stp] c by simp
  show ?case
  proof (cases res)
    case (Inl e)
    with c m1 show ?thesis by simp
  next
    case (Inr acc)
    obtain surv supp where acc: "acc = (surv, supp)" by (cases acc)
    have k: "marked acc" "kept acc" using charge_step_frame(2) [OF Cons.prems, where a = a and stp = stp] c Inr by simp_all
    obtain out cx' m2 where r: "run_step st io pub sid tid stp (cx, m1) = (out, (cx', m2))" by (metis prod_cases3)
    have m2: "rel a m2"
      using books_run_step [of m1 st io pub sid tid stp cx] r m1 by (auto intro: rel_trans rel_books)
    have halt: "rel a m3" if "halt_publisher io surv sid tid stp why supp m2 = (h, m3)" for why h m3
      using halt_publisher_frame [of surv supp m2 stp why] that k(1) acc m2
      by (auto simp: marked_def intro: rel_trans)
    have "\<forall>sub \<in> set surv. billed sub" using k(2) acc by (simp add: kept_def)
    note next' = Cons.IH [OF this, of m2 cx']
    show ?thesis
    proof (cases out)
      case (Inl e)
      then show ?thesis
        by (auto simp: c Inr acc r intro: halt m2 split: prod.splits sum.splits)
    next
      case (Inr w)
      then show ?thesis
        using next' m2
        by (cases w) (auto simp: c \<open>res = Inr acc\<close> acc r intro: halt rel_trans split: prod.splits sum.splits)
    qed
  qed
qed

lemma after_pipeline_frame:
  assumes "\<forall>sub \<in> set active. billed sub"
  shows "rel a (snd (after_pipeline st io pub subs sid tid token active cx a))"
proof -
  obtain r1 m1 where p: "rebalance_phase st io pub active sid tid (cx_trades cx) (cx_weights cx) (cx_action_count cx) token a = (r1, m1)"
    by fastforce
  have m1: "rel a m1" using rebalance_phase_frame [OF assms] p by (metis snd_conv)
  obtain r2 m2 where t: "publisher_trades st io pub sid tid cx m1 = (r2, m2)" by fastforce
  have m2: "rel a m2"
    using books_publisher_trades [of m1 st io pub sid tid cx] t m1 by (auto intro: rel_trans rel_books)
  obtain r3 m3 where w: "sweep_stage st io pub m2 = (r3, m3)" by fastforce
  have m3: "rel a m3" using rel_sweep [of m2] w m2 by (auto intro: rel_trans)
  have "rel a (snd (save_subscribers (ti_save_subs io) sid x m3))" for x
    using books_save_subscribers m3 by (blast intro: rel_trans rel_books)
  with m1 m2 m3 show ?thesis
    by (cases r1; cases r2; cases r3) (simp_all add: after_pipeline_def p t w)
qed

lemma tick_body_frame:
  assumes "\<And>sub. sub \<in> set subs \<Longrightarrow> subscriber_is_ready st io a sub \<Longrightarrow> billed sub"
  shows "rel a (snd (tick_body st io pub subs sid tid token a))"
proof -
  have "\<forall>sub \<in> set (filter (subscriber_is_ready st io a) subs). billed sub" using assms by simp
  note p = pipeline_frame [OF this, of a PIPELINE_STEPS new_ctx]
  obtain res m1 where r: "pipeline st io pub sid tid PIPELINE_STEPS (filter (subscriber_is_ready st io a) subs) new_ctx a = (res, m1)"
    by fastforce
  have "rel a (snd (after_pipeline st io pub subs sid tid token active cx m1))" if "res = Inr (Some (active, cx))" for active cx
    using p r that by (auto intro!: rel_trans [of a m1] after_pipeline_frame)
  with p r show ?thesis
    by (auto simp: tick_body_def split: sum.splits option.splits)
qed

end

section \<open>The kill switch\<close>

text \<open>No value has moved or been promised, and no row of the log says it has.\<close>

definition no_money :: "market \<Rightarrow> market \<Rightarrow> bool" where
  "no_money m m' \<longleftrightarrow>
     cs_charges m' = cs_charges m \<and> cs_intents m' = cs_intents m \<and> mk_transfers m' = mk_transfers m \<and>
     (\<exists>new. mk_log m' = mk_log m @ new \<and> list_all (\<lambda>row. \<not> tr_charged row) new)"

definition all_halted :: "tick_world \<Rightarrow> bool" where
  "all_halted io \<longleftrightarrow>
     (\<forall>sub stp. payments_halted (cg_env (ti_charge io sub stp))) \<and> payments_halted (sp_env (ti_sweep io))"

text \<open>A log row does not touch money.\<close>

lemma record_tick_effect:
  "cs_charges (record_subscriber_tick io rec m) = cs_charges m"
  "cs_intents (record_subscriber_tick io rec m) = cs_intents m"
  "mk_transfers (record_subscriber_tick io rec m) = mk_transfers m"
  "mk_log (record_subscriber_tick io rec m) = mk_log m @ (if ti_sql io rec then [rec] else [])"
  by (cases "ti_mirror io rec"; simp add: record_subscriber_tick_def push_subscriber_tick_def send_def Let_def)+

lemma halted_charge:
  assumes "all_halted io" and "\<not> st_dry_run st"
  shows "charge_sub st io pub sid tid stp n sub a = (Inr (True, None, True), a)"
  using assms by (simp add: charge_sub_def charge_one_def all_halted_def)

lemma halted_sweep: "all_halted io \<Longrightarrow> snd (sweep_stage st io pub a) = a"
  by (simp add: sweep_stage_def sweep_publisher_def all_halted_def)

lemma no_money_trans: "no_money a b \<Longrightarrow> no_money b c \<Longrightarrow> no_money a c"
  unfolding no_money_def by (auto simp: list_all_iff)

text \<open>The switch is set for the whole of a live tick.\<close>

definition halted_live :: "market_settings \<Rightarrow> tick_world \<Rightarrow> bool" where
  "halted_live st io \<longleftrightarrow> all_halted io \<and> \<not> st_dry_run st"

interpretation halted: tick_frame st io pub sid tid "\<not> halted_live st io"
  "\<lambda>m m'. halted_live st io \<longrightarrow> no_money m m'" "\<lambda>_. True"
proof
  show "\<And>a b c. halted_live st io \<longrightarrow> no_money a b \<Longrightarrow> halted_live st io \<longrightarrow> no_money b c \<Longrightarrow>
      halted_live st io \<longrightarrow> no_money a c"
    using no_money_trans by blast
  show "\<And>a b. same_books a b \<Longrightarrow> halted_live st io \<longrightarrow> no_money a b"
    by (simp add: same_books_def no_money_def)
  show "\<And>rec a. tr_charged rec \<Longrightarrow> \<not> halted_live st io \<Longrightarrow>
      halted_live st io \<longrightarrow> no_money a (record_subscriber_tick io rec a)"
    by simp
  show "\<And>rec a. \<not> tr_charged rec \<Longrightarrow> halted_live st io \<longrightarrow> no_money a (record_subscriber_tick io rec a)"
    by (simp add: no_money_def record_tick_effect)
  show "\<And>sub a stp n. True \<Longrightarrow> halted_live st io \<longrightarrow> no_money a (snd (charge_sub st io pub sid tid stp n sub a))"
    by (simp add: halted_live_def halted_charge no_money_def)
  show "\<And>stp n sub a why. fst (charge_sub st io pub sid tid stp n sub a) = Inr (True, why, False) \<Longrightarrow>
      \<not> halted_live st io"
    using halted_charge by (fastforce simp: halted_live_def)
  show "\<And>a. halted_live st io \<longrightarrow> no_money a (snd (sweep_stage st io pub a))"
    by (simp add: halted_live_def halted_sweep no_money_def)
qed

lemma tick_frame_rel:
  assumes "\<And>a b. same_books a b \<Longrightarrow> R a b" and "\<And>a b c. R a b \<Longrightarrow> R b c \<Longrightarrow> R a c"
    and "\<And>pub subs. mk_publishers m sid = Some (pub, subs) \<Longrightarrow>
           R m (snd (tick_body st io pub subs sid (tick_id_at sid seconds) token m))"
  shows "R m (snd (tick st io seconds sid token m))"
proof (cases "mk_publishers m sid")
  case None
  then show ?thesis using assms(1) by (simp add: tick_def)
next
  case (Some ps)
  obtain pub subs where ps: "ps = (pub, subs)" by (cases ps)
  obtain res m1 where b: "tick_body st io pub subs sid (tick_id_at sid seconds) token m = (res, m1)" by fastforce
  obtain q r where q: "release_leader (ti_release io) (ti_leader_now io) sid token (cs_redis m1) = (q, r)" by fastforce
  have "snd (tick st io seconds sid token m) = m1\<lparr>cs_redis := r\<rparr>"
    by (cases q) (simp_all add: tick_def Some ps b q)
  moreover have "R m m1" using assms(3) [of pub subs] Some ps b by simp
  moreover have "same_books m1 (m1\<lparr>cs_redis := r\<rparr>)" by (simp add: same_books_def)
  ultimately show ?thesis using assms(1,2) by metis
qed

text \<open>
  C4: the kill switch stops all money of a tick and nothing is booked as if it had not.  While the
  switch is set, a live tick, however it ends, moves no payment, opens no settlement intent, hands no
  transaction to the sweeper, and every row it logs says that nothing was charged.
\<close>

theorem halted_tick_moves_nothing:
  assumes "all_halted io" and "\<not> st_dry_run st"
  shows "no_money m (snd (tick st io seconds sid token m))"
proof (rule tick_frame_rel)
  show "no_money m (snd (tick_body st io pub subs sid (tick_id_at sid seconds) token m))" for pub subs
    using halted.tick_body_frame assms by (simp add: halted_live_def)
qed (auto simp: same_books_def no_money_def intro: no_money_trans)

section \<open>Who is charged, and for what\<close>

text \<open>
  Every payment that is new is for a charge of this tick, from the wallet of a subscriber that was
  ready when the tick began, to the seller address of the publisher, over the fee of some number of
  actions.
\<close>

definition billed_charge ::
    "market_settings \<Rightarrow> publisher \<Rightarrow> string \<Rightarrow> string \<Rightarrow> (subscriber \<Rightarrow> bool) \<Rightarrow> tick_charge \<Rightarrow> bool" where
  "billed_charge st pub sid tid ready c \<longleftrightarrow>
     (\<exists>sub stp n. ready sub \<and> tc_key c = logical_charge sub sid tid stp \<and>
        tc_wallet c = sb_ephemeral_wallet sub \<and> tc_seller c = pb_gateway_seller_address pub \<and>
        fee_to_price n (st_flat_fee st) = Inr (tc_price c))"

definition bills ::
    "market_settings \<Rightarrow> publisher \<Rightarrow> string \<Rightarrow> string \<Rightarrow> (subscriber \<Rightarrow> bool) \<Rightarrow> market \<Rightarrow> market \<Rightarrow> bool" where
  "bills st pub sid tid ready m m' \<longleftrightarrow>
     (\<exists>new. cs_charges m' = cs_charges m @ new \<and> list_all (billed_charge st pub sid tid ready) new)"

lemma charge_details:
  assumes "charge io key wid wallet seller n fee ch = (res, ch')"
  shows "ch' = ch \<or> (\<exists>c. ch' = ch @ [c] \<and> tc_key c = key \<and> tc_wallet c = wallet \<and> tc_seller c = seller \<and>
                      fee_to_price n fee = Inr (tc_price c))"
proof -
  have "snd (charge io key wid wallet seller n fee ch) = ch \<or>
        (\<exists>c. snd (charge io key wid wallet seller n fee ch) = ch @ [c] \<and> tc_key c = key \<and> tc_wallet c = wallet \<and>
           tc_seller c = seller \<and> fee_to_price n fee = Inr (tc_price c))"
    by (simp add: charge_def Let_def
        split: sum.split option.split verify_result.split bool.split settle_result.split)
  with assms show ?thesis by simp
qed

lemma charge_one_details:
  fixes m :: "'z charging_scheme"
  shows "cs_charges (snd (charge_one dry io a m)) = cs_charges m \<or>
   (\<exists>c. cs_charges (snd (charge_one dry io a m)) = cs_charges m @ [c] \<and> paid_for a c)"
proof -
  have pay: "cs_charges s' = cs_charges s \<or> (\<exists>c. cs_charges s' = cs_charges s @ [c] \<and> paid_for a c)"
    if "pay_stage io a s = (res, s')" for s s' :: "'z charging_scheme" and res
    using that
    by (auto simp: pay_stage_def paid_for_def split: prod.splits dest!: charge_details)
  have "cs_charges (snd (settle_claimed io a s)) = cs_charges s \<or>
     (\<exists>c. cs_charges (snd (settle_claimed io a s)) = cs_charges s @ [c] \<and> paid_for a c)" for s :: "'z charging_scheme"
  proof -
    obtain g s1 where r: "reserve_stage io a s = (g, s1)" by fastforce
    with stage_frames(2) [of io a s] have c: "cs_charges s1 = cs_charges s" by simp
    obtain q s2 where q: "pay_stage io a s1 = (q, s2)" by fastforce
    from pay [OF q] c show ?thesis
      by (cases g; cases q) (simp_all add: settle_claimed_def r q)
  qed
  from this [of "m\<lparr>cs_intents := x\<rparr>" for x] show ?thesis
    by (auto simp: charge_one_def split: prod.splits sum.splits claim_answer.splits)
qed

interpretation billing: tick_frame st io pub sid tid True "bills st pub sid tid ready" ready
proof
  show "\<And>a b c. bills st pub sid tid ready a b \<Longrightarrow> bills st pub sid tid ready b c \<Longrightarrow> bills st pub sid tid ready a c"
    unfolding bills_def by (auto simp: list_all_iff)
  show "\<And>a b. same_books a b \<Longrightarrow> bills st pub sid tid ready a b"
    by (simp add: same_books_def bills_def)
  show "\<And>rec a. tr_charged rec \<Longrightarrow> True \<Longrightarrow> bills st pub sid tid ready a (record_subscriber_tick io rec a)"
    and "\<And>rec a. \<not> tr_charged rec \<Longrightarrow> bills st pub sid tid ready a (record_subscriber_tick io rec a)"
    by (simp_all add: bills_def record_tick_effect)
  show "bills st pub sid tid ready a (snd (charge_sub st io pub sid tid stp n sub a))" if "ready sub" for sub a stp n
  proof -
    have "billed_charge st pub sid tid ready c" if "paid_for (tick_attempt st pub sid tid stp n sub) c" for c
      using that \<open>ready sub\<close> unfolding billed_charge_def paid_for_def tick_attempt_def by fastforce
    then show ?thesis
      using charge_one_details [of "st_dry_run st" "ti_charge io (sb_sub_id sub) stp" "tick_attempt st pub sid tid stp n sub" a]
      by (auto simp: charge_sub_def bills_def)
  qed
  show "\<And>a. bills st pub sid tid ready a (snd (sweep_stage st io pub a))"
    by (simp add: sweep_stage_def bills_def split: prod.splits sum.splits)
qed simp

text \<open>
  C24: a tick bills only whom it should.  Every payment that a tick of a strategy adds is for this
  strategy and this tick, for a registered subscriber of its publisher that was active and funded when
  the tick began, from that subscriber's wallet to the publisher, at the flat fee per action.
\<close>

theorem tick_bills_ready_subscribers:
  assumes "mk_publishers m sid = Some (pub, subs)"
  shows "\<exists>new. cs_charges (snd (tick st io seconds sid token m)) = cs_charges m @ new \<and>
           list_all (billed_charge st pub sid (tick_id_at sid seconds)
                       (\<lambda>sub. sub \<in> set subs \<and> subscriber_is_ready st io m sub)) new"
proof -
  let ?ready = "\<lambda>sub. sub \<in> set subs \<and> subscriber_is_ready st io m sub"
  have "bills st pub sid (tick_id_at sid seconds) ?ready m (snd (tick st io seconds sid token m))"
  proof (rule tick_frame_rel [where R = "bills st pub sid (tick_id_at sid seconds) ?ready"])
    show "bills st pub sid (tick_id_at sid seconds) ?ready m
            (snd (tick_body st io pub' subs' sid (tick_id_at sid seconds) token m))"
      if "mk_publishers m sid = Some (pub', subs')" for pub' subs'
      using billing.tick_body_frame [of subs st io m ?ready pub sid "tick_id_at sid seconds" token] that assms by simp
  qed (rule billing.rel_books, assumption, rule billing.rel_trans)
  then show ?thesis unfolding bills_def .
qed

section \<open>A concrete tick\<close>

definition two_dollars :: portfolio where
  "two_dollars = \<lparr>pf_vault_address = ''0xv'', pf_holdings = [], pf_total_value_usdc = 2\<rparr>"

text \<open>A publisher whose strategy is gone, with one funded subscriber; what the switch says is an argument.\<close>

definition sample_world :: "environ \<Rightarrow> tick_world" where
  "sample_world env =
     \<lparr>ti_ready = (\<lambda>_. (Inr two_dollars, Inr 1000)),
      ti_charge = (\<lambda>_ _. (tick_io (Settled sample_payment))\<lparr>cg_env := env\<rparr>),
      ti_sql = (\<lambda>_. True), ti_mirror = (\<lambda>_. Reply), ti_event = (\<lambda>_. Reply), ti_persist = (\<lambda>_. True),
      ti_liability = (\<lambda>_. True), ti_strategy = Inr False, ti_signals = Inr [], ti_regime_now = 0,
      ti_regime_lock = Reply, ti_classified = None, ti_cached = Inr None, ti_save_regime = Reply,
      ti_save_consensus = Reply, ti_portfolio = (\<lambda>_. Inr two_dollars), ti_order = (\<lambda>_ _. []),
      ti_execute = (\<lambda>_ _. None), ti_last_rebalance = Reply, ti_leader_now = 0, ti_renew = Reply,
      ti_release = Reply,
      ti_sweep = \<lparr>sp_env = env, sp_available = Inr 0, sp_withdraw = None, sp_balance = (\<lambda>_. Inr 0),
                  sp_approve = None, sp_submit = Inr ''tx''\<rparr>,
      ti_save_subs = Reply, ti_str = (\<lambda>_. [])\<rparr>"

definition sample_settings :: market_settings where
  "sample_settings =
     \<lparr>st_dry_run = False, st_paper_trading = False, st_flat_fee = 100, st_batch_size = 10, st_usdc_floor = 1 / 4,
      st_synth_addresses = [], st_usdc_address = ''0xusdc'', st_oracle_addresses = Map.empty,
      st_min_vault_usdc = 1, st_min_action_buffer = 3,
      st_sweep = \<lparr>sw_dry_run = False, sw_threshold_raw = 1, sw_min_deposit_raw = 1, sw_splitter = ''0xsp''\<rparr>\<rparr>"

definition sample_market :: market where
  "sample_market =
     \<lparr>cs_redis = Map.empty, cs_intents = [], cs_charges = [], mk_log = [], mk_subticks = (\<lambda>_. []),
      mk_events = (\<lambda>_. []), mk_liabilities = [], mk_agents = [], mk_active = (\<lambda>_. True), mk_subs = (\<lambda>_. []),
      mk_calls = [], mk_regime = None, mk_consensus = Map.empty, mk_last_rebalance = {}, mk_transfers = [],
      mk_publishers = [''s1'' \<mapsto> (at_pub one_fee, [at_sub one_fee])]\<rparr>"

definition switch_on :: environ where
  "switch_on = [''PAYMENTS_HALT'' \<mapsto> ''1'']"

lemma switch_on: "payments_halted switch_on"
  by code_simp

theorem halted_tick_moves_nothing_witness:
  "cs_charges (snd (tick sample_settings (sample_world switch_on) 1 ''s1'' None sample_market)) = [] \<and>
   map tr_charged (mk_log (snd (tick sample_settings (sample_world switch_on) 1 ''s1'' None sample_market))) = [False, False]"
proof -
  have "all_halted (sample_world switch_on)" and "\<not> st_dry_run sample_settings"
    by (simp_all add: all_halted_def sample_world_def sample_settings_def switch_on)
  from halted_tick_moves_nothing [OF this, of sample_market 1 "''s1''" None]
  have "cs_charges (snd (tick sample_settings (sample_world switch_on) 1 ''s1'' None sample_market)) = []"
    by (simp add: no_money_def sample_market_def)
  moreover have "map tr_charged (mk_log (snd (tick sample_settings (sample_world switch_on) 1 ''s1'' None sample_market))) = [False, False]"
    by code_simp
  ultimately show ?thesis by blast
qed

lemma sample_tick_charges:
  "cs_charges (snd (tick sample_settings (sample_world Map.empty) 1 ''s1'' None sample_market)) = [fee_moved]"
  by code_simp

theorem tick_bills_ready_subscribers_witness:
  "billed_charge sample_settings (at_pub one_fee) ''s1'' ''s1:1''
     (\<lambda>sub. sub \<in> set [at_sub one_fee] \<and> subscriber_is_ready sample_settings (sample_world Map.empty) sample_market sub)
     fee_moved"
proof -
  have "mk_publishers sample_market ''s1'' = Some (at_pub one_fee, [at_sub one_fee])" by (simp add: sample_market_def)
  moreover have "tick_id_at ''s1'' 1 = ''s1:1''" by code_simp
  moreover have "cs_charges sample_market = []" by (simp add: sample_market_def)
  ultimately show ?thesis
    using tick_bills_ready_subscribers [of sample_market "''s1''" "at_pub one_fee" "[at_sub one_fee]"
        sample_settings "sample_world Map.empty" 1 None] sample_tick_charges
    by simp
qed

text \<open>
  A liability is booked for a fee that was never taken.  With the kill switch set, a rebalance whose
  trades fail is logged as not charged, and yet the engine records that it owes the subscriber the fee
  of the whole rebalance.
\<close>

theorem suppressed_fee_owed:
  "case rebalance_one sample_settings ((sample_world switch_on)\<lparr>ti_execute := (\<lambda>_ _. Some ExternalError)\<rparr>)
          (at_pub one_fee) ''s1'' ''s1:1'' [] 3 (at_sub one_fee) sample_market of
     (_, m) \<Rightarrow> cs_charges m = [] \<and> map tr_charged (mk_log m) = [False] \<and>
               map li_amount_owed_usdc (mk_liabilities m) = [300]"
  by code_simp

end
