(* ===== verification/StrategyDsl.thy ===== *)
theory StrategyDsl
  imports Sizing
begin

text \<open>
  The strategy language: the validator of \<^verbatim>\<open>services/strategy_dsl.py\<close>, and the evaluation of a
  condition tree and the rewriting of its parameters of \<^verbatim>\<open>services/dsl_to_backtrader.py\<close>.

  A document is the value its JSON text denotes, with the three floats that are no numbers; the keys
  of an object are distinct.  A rejection is its reason; the path and the texts inside a message are
  left out.  A condition tree is assumed to fit the recursion limit of the interpreter.
\<close>

section \<open>Values\<close>

datatype float_val = Finite rat | Nan | Infinity bool

datatype pyval =
    PNone
  | PBool bool
  | PInt int
  | PFloat float_val
  | PStr string
  | PList "pyval list"
  | PDict "(string \<times> pyval) list"

declare pyval.case_cong [fundef_cong]

fun is_dict :: "pyval \<Rightarrow> bool" where
  "is_dict (PDict _) = True"
| "is_dict _ = False"

text \<open>
  A list or a dictionary has no hash: asking whether it is in a \<^verbatim>\<open>frozenset\<close> raises
  \<open>TypeError\<close>, which is the rejection \<open>Unhashable_value\<close> below.
\<close>

fun is_container :: "pyval \<Rightarrow> bool" where
  "is_container (PList _) = True"
| "is_container (PDict _) = True"
| "is_container _ = False"

text \<open>\<^verbatim>\<open>isinstance(v, (int, float))\<close>, which holds of the booleans.\<close>

fun is_number :: "pyval \<Rightarrow> bool" where
  "is_number (PInt _) = True"
| "is_number (PFloat _) = True"
| "is_number (PBool _) = True"
| "is_number _ = False"

text \<open>\<^verbatim>\<open>v <= 0\<close> of a number; a NaN is not below anything.\<close>

fun not_positive :: "pyval \<Rightarrow> bool" where
  "not_positive (PInt n) = (n \<le> 0)"
| "not_positive (PBool b) = (\<not> b)"
| "not_positive (PFloat (Finite x)) = (x \<le> 0)"
| "not_positive (PFloat (Infinity neg)) = neg"
| "not_positive _ = False"

fun nonblank :: "pyval \<Rightarrow> bool" where
  "nonblank (PStr s) = (py_strip s \<noteq> [])"
| "nonblank _ = False"

section \<open>Closed enumerations\<close>

definition REBALANCE_FREQUENCIES :: "string list" where
  "REBALANCE_FREQUENCIES = [''daily'', ''weekly'', ''monthly'']"

definition INDICATOR_NAMES :: "string list" where
  "INDICATOR_NAMES = [''sma'', ''ema'', ''rsi'', ''realized_vol'', ''momentum'']"

definition COMPARISON_OPS :: "string list" where
  "COMPARISON_OPS = [''gt'', ''lt'', ''gte'', ''lte'']"

definition PRICE_OPERANDS :: "string list" where
  "PRICE_OPERANDS = [''close'', ''open'', ''high'', ''low'', ''volume'']"

definition POSITION_SIZING_KEYS :: "(string \<times> string list) list" where
  "POSITION_SIZING_KEYS =
     [(''full_invested_when_in_market'', [''type'']), (''equal_weight'', [''type'']),
      (''inverse_vol'', [''type'', ''reference_vol_annual'']), (''volatility_target'', [''type'', ''annual_pct''])]"

definition REQUIRED_FIELDS :: "string list" where
  "REQUIRED_FIELDS =
     [''name'', ''asset_universe'', ''rebalance_frequency'', ''entry'', ''exit'', ''position_sizing'', ''source_arxiv_ids'']"

datatype dsl_error =
    Period_out_of_range
  | Condition_not_a_dict
  | Not_exactly_one_key
  | Not_needs_a_dict
  | Needs_two_conditions
  | Needs_two_arguments
  | Unknown_operand
  | Argument_neither_string_nor_number
  | Unknown_operator
  | Spec_not_an_object
  | Missing_required_fields
  | Bad_name
  | Bad_asset_universe
  | Bad_rebalance_frequency
  | Bad_position_sizing
  | Bad_sizing_keys
  | Bad_annual_pct
  | Bad_reference_vol
  | Bad_source_ids
  | Bad_parameter_variants
  | Unhashable_value

type_synonym 'a checked = "dsl_error + 'a"

section \<open>Conditions\<close>

text \<open>\<^verbatim>\<open>name.rsplit("_", 1)\<close> when it has two parts.\<close>

definition rsplit1 :: "string \<Rightarrow> (string \<times> string) option" where
  "rsplit1 name =
     (if CHR ''_'' \<in> set name
      then Some (rev (tl (dropWhile (\<lambda>c. c \<noteq> CHR ''_'') (rev name))), rev (takeWhile (\<lambda>c. c \<noteq> CHR ''_'') (rev name)))
      else None)"

definition alias_of :: "string \<Rightarrow> int \<Rightarrow> string" where
  "alias_of indicator period = indicator @ ''_'' @ show_int period"

definition parse_indicator_operand :: "string \<Rightarrow> (string \<times> int) option checked" where
  "parse_indicator_operand name =
     (if name \<in> set PRICE_OPERANDS then Inr None
      else case rsplit1 name of
        None \<Rightarrow> Inr None
      | Some (indicator, period_str) \<Rightarrow>
          if indicator \<notin> set INDICATOR_NAMES then Inr None
          else (case py_int period_str of
                  None \<Rightarrow> Inr None
                | Some period \<Rightarrow>
                    if period < 1 \<or> 10000 < period then Inl Period_out_of_range
                    else Inr (Some (indicator, period))))"

fun validate_arg :: "pyval \<Rightarrow> string set checked" where
  "validate_arg (PStr s) =
     (case parse_indicator_operand s of
        Inl e \<Rightarrow> Inl e
      | Inr (Some (indicator, period)) \<Rightarrow> Inr {alias_of indicator period}
      | Inr None \<Rightarrow> if s \<in> set PRICE_OPERANDS then Inr {} else Inl Unknown_operand)"
| "validate_arg v = (if is_number v then Inr {} else Inl Argument_neither_string_nor_number)"

definition union_checked :: "string set checked \<Rightarrow> string set checked \<Rightarrow> string set checked" where
  "union_checked a b =
     (case a of Inl e \<Rightarrow> Inl e | Inr x \<Rightarrow> (case b of Inl e \<Rightarrow> Inl e | Inr y \<Rightarrow> Inr (x \<union> y)))"

fun validate_condition :: "pyval \<Rightarrow> string set checked"
  and validate_conditions :: "pyval list \<Rightarrow> string set checked" where
  "validate_condition (PDict [(opr, v)]) =
     (if opr = ''not'' then (if is_dict v then validate_condition v else Inl Not_needs_a_dict)
      else if opr = ''and'' \<or> opr = ''or''
      then (case v of
              PList cs \<Rightarrow> if length cs < 2 then Inl Needs_two_conditions else validate_conditions cs
            | _ \<Rightarrow> Inl Needs_two_conditions)
      else if opr \<in> set COMPARISON_OPS
      then (case v of
              PList [x, y] \<Rightarrow> union_checked (validate_arg x) (validate_arg y)
            | _ \<Rightarrow> Inl Needs_two_arguments)
      else Inl Unknown_operator)"
| "validate_condition (PDict _) = Inl Not_exactly_one_key"
| "validate_condition _ = Inl Condition_not_a_dict"
| "validate_conditions [] = Inr {}"
| "validate_conditions (c # cs) = union_checked (validate_condition c) (validate_conditions cs)"

section \<open>Specifications\<close>

record strategy_spec =
  sp_name :: string
  sp_asset_universe :: "string list"
  sp_rebalance_frequency :: string
  sp_entry :: pyval
  sp_exit :: pyval
  sp_position_sizing :: "(string \<times> pyval) list"
  sp_source_arxiv_ids :: "string list"
  sp_indicators :: "string list"
  sp_parameter_variants :: "(string \<times> pyval list) list option"

definition field_of :: "(string \<times> pyval) list \<Rightarrow> string \<Rightarrow> pyval" where
  "field_of d k = (case map_of d k of None \<Rightarrow> PNone | Some v \<Rightarrow> v)"

fun texts :: "pyval list \<Rightarrow> string list option" where
  "texts [] = Some []"
| "texts (v # vs) =
     (case v of
        PStr s \<Rightarrow> if py_strip s = [] then None else map_option (\<lambda>ss. s # ss) (texts vs)
      | _ \<Rightarrow> None)"

definition check_universe :: "pyval \<Rightarrow> string list checked" where
  "check_universe v =
     (case v of
        PList vs \<Rightarrow> if vs = [] then Inl Bad_asset_universe
                    else (case texts vs of None \<Rightarrow> Inl Bad_asset_universe | Some ss \<Rightarrow> Inr ss)
      | _ \<Rightarrow> Inl Bad_asset_universe)"

definition check_ids :: "pyval \<Rightarrow> string list checked" where
  "check_ids v =
     (case v of
        PList vs \<Rightarrow> (case texts vs of None \<Rightarrow> Inl Bad_source_ids | Some ss \<Rightarrow> Inr ss)
      | _ \<Rightarrow> Inl Bad_source_ids)"

definition check_sizing :: "pyval \<Rightarrow> (string \<times> pyval) list checked" where
  "check_sizing v =
     (case v of
        PDict ps \<Rightarrow>
          (case field_of ps ''type'' of
             PStr ty \<Rightarrow>
               (case map_of POSITION_SIZING_KEYS ty of
                  None \<Rightarrow> Inl Bad_position_sizing
                | Some allowed \<Rightarrow>
                    if \<not> fst ` set ps \<subseteq> set allowed then Inl Bad_sizing_keys
                    else if ty = ''volatility_target'' \<and>
                            (\<not> is_number (field_of ps ''annual_pct'') \<or> not_positive (field_of ps ''annual_pct''))
                    then Inl Bad_annual_pct
                    else if ty = ''inverse_vol'' \<and> ''reference_vol_annual'' \<in> fst ` set ps \<and>
                            (case field_of ps ''reference_vol_annual'' of
                               PBool _ \<Rightarrow> True
                             | r \<Rightarrow> \<not> is_number r \<or> not_positive r)
                    then Inl Bad_reference_vol
                    else Inr ps)
           | t \<Rightarrow> Inl (if is_container t then Unhashable_value else Bad_position_sizing))
      | _ \<Rightarrow> Inl Bad_position_sizing)"

fun check_variants :: "string set \<Rightarrow> (string \<times> pyval) list \<Rightarrow> (string \<times> pyval list) list checked" where
  "check_variants inds [] = Inr []"
| "check_variants inds ((k, v) # rest) =
     (if k \<notin> inds then Inl Bad_parameter_variants
      else case v of
        PList vs \<Rightarrow>
          if length vs < 2 \<or> 8 < length vs \<or> \<not> list_all is_number vs then Inl Bad_parameter_variants
          else (case check_variants inds rest of Inl e \<Rightarrow> Inl e | Inr d \<Rightarrow> Inr ((k, vs) # d))
      | _ \<Rightarrow> Inl Bad_parameter_variants)"

definition check_grid :: "string set \<Rightarrow> pyval option \<Rightarrow> (string \<times> pyval list) list option checked" where
  "check_grid inds pv =
     (case pv of
        None \<Rightarrow> Inr None
      | Some PNone \<Rightarrow> Inr None
      | Some (PDict d) \<Rightarrow> (case check_variants inds d of Inl e \<Rightarrow> Inl e | Inr g \<Rightarrow> Inr (Some g))
      | Some _ \<Rightarrow> Inl Bad_parameter_variants)"

definition frequency_of :: "pyval \<Rightarrow> string checked" where
  "frequency_of v =
     (case v of
        PStr f \<Rightarrow> if f \<in> set REBALANCE_FREQUENCIES then Inr f else Inl Bad_rebalance_frequency
      | _ \<Rightarrow> Inl (if is_container v then Unhashable_value else Bad_rebalance_frequency))"

definition name_of :: "pyval \<Rightarrow> string checked" where
  "name_of v = (case v of PStr s \<Rightarrow> if py_strip s = [] then Inl Bad_name else Inr s | _ \<Rightarrow> Inl Bad_name)"

definition and_then :: "'a checked \<Rightarrow> ('a \<Rightarrow> 'b checked) \<Rightarrow> 'b checked" where
  "and_then x f = (case x of Inl e \<Rightarrow> Inl e | Inr y \<Rightarrow> f y)"

definition validate_strategy_spec :: "pyval \<Rightarrow> strategy_spec checked" where
  "validate_strategy_spec v =
     (case v of
        PDict d \<Rightarrow>
          if \<not> set REQUIRED_FIELDS \<subseteq> fst ` set d then Inl Missing_required_fields
          else and_then (name_of (field_of d ''name'')) (\<lambda>name.
               and_then (check_universe (field_of d ''asset_universe'')) (\<lambda>universe.
               and_then (frequency_of (field_of d ''rebalance_frequency'')) (\<lambda>freq.
               and_then (validate_condition (field_of d ''entry'')) (\<lambda>entry_inds.
               and_then (validate_condition (field_of d ''exit'')) (\<lambda>exit_inds.
               and_then (check_sizing (field_of d ''position_sizing'')) (\<lambda>ps.
               and_then (check_ids (field_of d ''source_arxiv_ids'')) (\<lambda>ids.
               and_then (check_grid (entry_inds \<union> exit_inds) (map_of d ''parameter_variants'')) (\<lambda>pv.
                 Inr \<lparr>sp_name = name, sp_asset_universe = universe, sp_rebalance_frequency = freq,
                      sp_entry = field_of d ''entry'', sp_exit = field_of d ''exit'', sp_position_sizing = ps,
                      sp_source_arxiv_ids = ids, sp_indicators = sorted_list_of_set (entry_inds \<union> exit_inds),
                      sp_parameter_variants = pv\<rparr>))))))))
      | _ \<Rightarrow> Inl Spec_not_an_object)"

definition to_dict :: "strategy_spec \<Rightarrow> (string \<times> pyval) list" where
  "to_dict s =
     [(''name'', PStr (sp_name s)), (''asset_universe'', PList (map PStr (sp_asset_universe s))),
      (''rebalance_frequency'', PStr (sp_rebalance_frequency s)), (''entry'', sp_entry s), (''exit'', sp_exit s),
      (''position_sizing'', PDict (sp_position_sizing s)),
      (''source_arxiv_ids'', PList (map PStr (sp_source_arxiv_ids s)))] @
     (case sp_parameter_variants s of
        None \<Rightarrow> []
      | Some g \<Rightarrow> [(''parameter_variants'', PDict (map (\<lambda>(k, vs). (k, PList vs)) g))])"

section \<open>Evaluating a condition: dsl\_to\_backtrader.py\<close>

datatype eval_error = Eval_value_error | Eval_overflow | Eval_type_error | Eval_unknown_operator

type_synonym bar = "string \<Rightarrow> float_val option"

text \<open>
  \<^verbatim>\<open>float(v)\<close> of an operand.  A name that the bar has no value for is read as a number text; no
  operand that the validator accepts is one, so that is the \<open>ValueError\<close> of \<^verbatim>\<open>float\<close>.  An integer
  from the halfway point above the largest double on raises \<open>OverflowError\<close>.
\<close>

fun operand_value :: "bar \<Rightarrow> pyval \<Rightarrow> eval_error + float_val" where
  "operand_value vals (PStr s) = (case vals s of None \<Rightarrow> Inl Eval_value_error | Some x \<Rightarrow> Inr x)"
| "operand_value vals (PInt n) =
     (if 2 ^ 1024 - 2 ^ 970 \<le> \<bar>n\<bar> then Inl Eval_overflow else Inr (Finite (fl (of_int n))))"
| "operand_value vals (PBool b) = Inr (Finite (if b then 1 else 0))"
| "operand_value vals (PFloat x) = Inr x"
| "operand_value vals v = Inl Eval_type_error"

fun float_less :: "float_val \<Rightarrow> float_val \<Rightarrow> bool" where
  "float_less (Finite x) (Finite y) = (x < y)"
| "float_less (Finite x) (Infinity neg) = (\<not> neg)"
| "float_less (Infinity neg) (Finite y) = neg"
| "float_less (Infinity neg) (Infinity neg') = (neg \<and> \<not> neg')"
| "float_less _ _ = False"

definition float_le :: "float_val \<Rightarrow> float_val \<Rightarrow> bool" where
  "float_le x y \<longleftrightarrow> x \<noteq> Nan \<and> y \<noteq> Nan \<and> \<not> float_less y x"

definition compare :: "string \<Rightarrow> float_val \<Rightarrow> float_val \<Rightarrow> eval_error + bool" where
  "compare opr x y =
     (if opr = ''gt'' then Inr (float_less y x)
      else if opr = ''lt'' then Inr (float_less x y)
      else if opr = ''gte'' then Inr (float_le y x)
      else if opr = ''lte'' then Inr (float_le x y)
      else Inl Eval_unknown_operator)"

fun eval_condition :: "bar \<Rightarrow> pyval \<Rightarrow> eval_error + bool"
  and eval_all :: "bar \<Rightarrow> pyval list \<Rightarrow> eval_error + bool"
  and eval_any :: "bar \<Rightarrow> pyval list \<Rightarrow> eval_error + bool" where
  "eval_condition vals (PDict ((opr, v) # _)) =
     (if opr = ''and'' then (case v of PList cs \<Rightarrow> eval_all vals cs | _ \<Rightarrow> Inl Eval_type_error)
      else if opr = ''or'' then (case v of PList cs \<Rightarrow> eval_any vals cs | _ \<Rightarrow> Inl Eval_type_error)
      else if opr = ''not'' then map_sum id Not (eval_condition vals v)
      else (case v of
              PList (left # right # _) \<Rightarrow>
                (case operand_value vals left of
                   Inl e \<Rightarrow> Inl e
                 | Inr x \<Rightarrow> (case operand_value vals right of Inl e \<Rightarrow> Inl e | Inr y \<Rightarrow> compare opr x y))
            | _ \<Rightarrow> Inl Eval_type_error))"
| "eval_condition vals _ = Inl Eval_type_error"
| "eval_all vals [] = Inr True"
| "eval_all vals (c # cs) =
     (case eval_condition vals c of Inl e \<Rightarrow> Inl e | Inr True \<Rightarrow> eval_all vals cs | Inr False \<Rightarrow> Inr False)"
| "eval_any vals [] = Inr False"
| "eval_any vals (c # cs) =
     (case eval_condition vals c of Inl e \<Rightarrow> Inl e | Inr False \<Rightarrow> eval_any vals cs | Inr True \<Rightarrow> Inr True)"

section \<open>Parameter variants: dsl\_to\_backtrader.py\<close>

definition rewrite_arg :: "(string \<times> int) list \<Rightarrow> pyval \<Rightarrow> pyval" where
  "rewrite_arg overrides v =
     (case v of
        PStr s \<Rightarrow>
          (case (map_of overrides s, rsplit1 s) of
             (Some period, Some (base, _)) \<Rightarrow> PStr (alias_of base period)
           | _ \<Rightarrow> v)
      | _ \<Rightarrow> v)"

fun rewrite_aliases :: "(string \<times> int) list \<Rightarrow> pyval \<Rightarrow> pyval" where
  "rewrite_aliases ov (PDict ((opr, v) # rest)) =
     PDict ((opr,
       (if opr = ''and'' \<or> opr = ''or''
        then (case v of PList cs \<Rightarrow> PList (map (rewrite_aliases ov) cs) | _ \<Rightarrow> v)
        else if opr = ''not'' then rewrite_aliases ov v
        else if opr \<in> set COMPARISON_OPS then (case v of PList as \<Rightarrow> PList (map (rewrite_arg ov) as) | _ \<Rightarrow> v)
        else v)) # rest)"
| "rewrite_aliases ov c = c"

section \<open>Properties\<close>

text \<open>
  A tree in which every indicator is spelled as the validator spells it, and every integer fits a
  double.
\<close>

fun plain_arg :: "pyval \<Rightarrow> bool" where
  "plain_arg (PStr s) =
     (case parse_indicator_operand s of Inr (Some (indicator, period)) \<Rightarrow> s = alias_of indicator period | _ \<Rightarrow> True)"
| "plain_arg (PInt n) = (\<bar>n\<bar> < 2 ^ 1023)"
| "plain_arg _ = True"

fun plain_condition :: "pyval \<Rightarrow> bool" where
  "plain_condition (PDict [(opr, v)]) =
     (if opr = ''and'' \<or> opr = ''or'' then (case v of PList cs \<Rightarrow> list_all plain_condition cs | _ \<Rightarrow> True)
      else if opr = ''not'' then plain_condition v
      else (case v of PList as \<Rightarrow> list_all plain_arg as | _ \<Rightarrow> True))"
| "plain_condition _ = True"

lemma union_checked_Inr:
  "union_checked a b = Inr z \<longleftrightarrow> (\<exists>x y. a = Inr x \<and> b = Inr y \<and> z = x \<union> y)"
  by (auto simp: union_checked_def split: sum.splits)

lemma validated_arg_evaluates:
  assumes "validate_arg v = Inr inds" and "plain_arg v"
    and "\<And>s. s \<in> set PRICE_OPERANDS \<union> inds \<Longrightarrow> vals s \<noteq> None"
  shows "\<exists>x. operand_value vals v = Inr x"
proof (cases v)
  case (PStr s)
  then have "s \<in> set PRICE_OPERANDS \<union> inds"
    using assms(1,2) by (auto split: sum.splits option.splits if_splits prod.splits)
  then have "vals s \<noteq> None" by (rule assms(3))
  with PStr show ?thesis by auto
next
  case (PInt n)
  have "(2 :: int) ^ 1023 \<le> 2 ^ 1024 - 2 ^ 970" by simp
  with assms(2) PInt show ?thesis by simp
qed (use assms(1) in auto)

lemma compare_total: "opr \<in> set COMPARISON_OPS \<Longrightarrow> \<exists>b. compare opr x y = Inr b"
  by (auto simp: COMPARISON_OPS_def compare_def)

lemma validated_evaluates:
  "validate_condition c = Inr inds \<Longrightarrow> plain_condition c \<Longrightarrow>
     (\<And>s. s \<in> set PRICE_OPERANDS \<union> inds \<Longrightarrow> vals s \<noteq> None) \<Longrightarrow> \<exists>b. eval_condition vals c = Inr b"
  "validate_conditions cs = Inr inds \<Longrightarrow> list_all plain_condition cs \<Longrightarrow>
     (\<And>s. s \<in> set PRICE_OPERANDS \<union> inds \<Longrightarrow> vals s \<noteq> None) \<Longrightarrow>
     (\<exists>b. eval_all vals cs = Inr b) \<and> (\<exists>b. eval_any vals cs = Inr b)"
proof (induction c and cs arbitrary: inds and inds rule: validate_condition_validate_conditions.induct)
  case (1 opr v)
  consider "opr = ''not''" | "opr = ''and'' \<or> opr = ''or''"
    | "opr \<in> set COMPARISON_OPS" "opr \<noteq> ''not''" "opr \<noteq> ''and''" "opr \<noteq> ''or''"
    using 1(3) by (auto split: if_splits)
  then show ?case
  proof cases
    assume n: "opr = ''not''"
    with 1(3) have "is_dict v" "validate_condition v = Inr inds" by (auto split: if_splits)
    with 1(1) 1(4,5) n obtain b where "eval_condition vals v = Inr b" by auto
    with n show ?thesis by simp
  next
    assume l: "opr = ''and'' \<or> opr = ''or''"
    with 1(3) obtain cs where v: "v = PList cs" and len: "\<not> length cs < 2" and c: "validate_conditions cs = Inr inds"
      by (auto split: pyval.splits if_splits)
    from l 1(4) v have "list_all plain_condition cs" by auto
    with 1(2) [OF _ l v len c] l 1(5) show ?thesis by (auto simp: v)
  next
    assume o: "opr \<in> set COMPARISON_OPS" "opr \<noteq> ''not''" "opr \<noteq> ''and''" "opr \<noteq> ''or''"
    with 1(3) obtain x y where v: "v = PList [x, y]" and u: "union_checked (validate_arg x) (validate_arg y) = Inr inds"
      by (auto split: pyval.splits list.splits)
    from u obtain a b where ab: "validate_arg x = Inr a" "validate_arg y = Inr b" "inds = a \<union> b"
      by (auto simp: union_checked_Inr)
    from o v 1(4) have px: "plain_arg x" and py: "plain_arg y" by auto
    have "\<exists>p. operand_value vals x = Inr p"
      by (rule validated_arg_evaluates [OF ab(1) px]) (rule 1(5), use ab(3) in blast)
    moreover have "\<exists>q. operand_value vals y = Inr q"
      by (rule validated_arg_evaluates [OF ab(2) py]) (rule 1(5), use ab(3) in blast)
    ultimately obtain p q where "operand_value vals x = Inr p" "operand_value vals y = Inr q" by blast
    with o v compare_total [OF o(1), of p q] show ?thesis by simp
  qed
next
  case (5 c cs)
  from 5(3) obtain a b where ab: "validate_condition c = Inr a" "validate_conditions cs = Inr b" "inds = a \<union> b"
    by (auto simp: union_checked_Inr)
  from 5(4) have pc: "plain_condition c" and pcs: "list_all plain_condition cs" by simp_all
  have "\<exists>p. eval_condition vals c = Inr p"
    by (rule 5(1) [OF ab(1) pc]) (rule 5(5), use ab(3) in blast)
  moreover have "(\<exists>b. eval_all vals cs = Inr b) \<and> (\<exists>b. eval_any vals cs = Inr b)"
    by (rule 5(2) [OF ab(2) pcs]) (rule 5(5), use ab(3) in blast)
  ultimately obtain p q r where
    "eval_condition vals c = Inr p" "eval_all vals cs = Inr q" "eval_any vals cs = Inr r" by blast
  then show ?case by (cases p) auto
qed auto

text \<open>
  C15: a validated condition in canonical spelling evaluates.  Given a bar that has the prices and the indicators the
  validator collected, every condition tree it accepted yields a truth value and raises nothing, provided that the tree
  spells its indicators as the validator does (\<open>sma_200\<close>, not \<open>sma_0200\<close>) and that its
  integers fit a double.
\<close>

theorem validated_condition_evaluates:
  assumes "validate_condition c = Inr inds" and "plain_condition c"
    and "\<forall>s \<in> set PRICE_OPERANDS \<union> inds. vals s \<noteq> None"
  shows "\<exists>b. eval_condition vals c = Inr b"
  by (rule validated_evaluates(1) [OF assms(1,2)]) (use assms(3) in blast)

definition above_sma :: "string \<Rightarrow> pyval" where
  "above_sma operand = PDict [(''gt'', PList [PStr ''close'', PStr operand])]"

definition faber_bar :: bar where
  "faber_bar = (\<lambda>s. if s \<in> set (''sma_200'' # PRICE_OPERANDS) then Some (Finite 1) else None)"

lemma above_sma_valid:
  "validate_condition (above_sma ''sma_200'') = Inr {''sma_200''}"
  "validate_condition (above_sma ''sma_0200'') = Inr {''sma_200''}"
  by code_simp+

theorem validated_condition_evaluates_witness:
  "\<exists>b. eval_condition faber_bar (above_sma ''sma_200'') = Inr b"
proof (rule validated_condition_evaluates [OF above_sma_valid(1)])
  show "plain_condition (above_sma ''sma_200'')" by code_simp
  show "\<forall>s \<in> set PRICE_OPERANDS \<union> {''sma_200''}. faber_bar s \<noteq> None" by (auto simp: faber_bar_def)
qed

text \<open>
  Another spelling of a period is accepted and then raises: the operand \<open>sma_0200\<close> is filed as the
  indicator \<open>sma_200\<close>, and the tree still asks for \<open>sma_0200\<close>, which no bar has.
\<close>

lemma respelled_operand_raises:
  "validate_condition (above_sma ''sma_0200'') = validate_condition (above_sma ''sma_200'') \<and>
   eval_condition faber_bar (above_sma ''sma_0200'') = Inl Eval_value_error"
  unfolding above_sma_valid by code_simp

section \<open>Storing a specification\<close>

lemma and_then_Inr: "and_then x f = Inr y \<longleftrightarrow> (\<exists>z. x = Inr z \<and> f z = Inr y)"
  by (auto simp: and_then_def split: sum.splits)

lemma and_then_simps [simp]: "and_then (Inr x) f = f x" "and_then (Inl e) f = Inl e"
  by (simp_all add: and_then_def)

lemma texts_roundtrip: "texts vs = Some ss \<Longrightarrow> vs = map PStr ss"
  by (induction vs arbitrary: ss) (auto split: pyval.splits if_splits)

lemma check_universe_roundtrip: "check_universe v = Inr ss \<Longrightarrow> v = PList (map PStr ss)"
  by (auto simp: check_universe_def texts_roundtrip split: pyval.splits if_splits option.splits)

lemma check_ids_roundtrip: "check_ids v = Inr ss \<Longrightarrow> v = PList (map PStr ss)"
  by (auto simp: check_ids_def texts_roundtrip split: pyval.splits option.splits)

lemma name_of_roundtrip: "name_of v = Inr s \<Longrightarrow> v = PStr s"
  by (auto simp: name_of_def split: pyval.splits if_splits)

lemma frequency_of_roundtrip: "frequency_of v = Inr s \<Longrightarrow> v = PStr s"
  by (auto simp: frequency_of_def split: pyval.splits if_splits)

lemma check_sizing_roundtrip: "check_sizing v = Inr ps \<Longrightarrow> v = PDict ps"
  by (auto simp: check_sizing_def split: pyval.splits if_splits option.splits)

lemma check_variants_roundtrip:
  "check_variants inds d = Inr g \<Longrightarrow> d = map (\<lambda>(k, vs). (k, PList vs)) g"
  by (induction inds d arbitrary: g rule: check_variants.induct) (auto split: pyval.splits if_splits sum.splits)

lemma check_grid_roundtrip:
  assumes "check_grid inds pv = Inr g"
  shows "check_grid inds (map_option (\<lambda>g. PDict (map (\<lambda>(k, vs). (k, PList vs)) g)) g) = Inr g"
proof (cases g)
  case None
  then show ?thesis by (simp add: check_grid_def)
next
  case (Some d)
  with assms obtain ps where ps: "check_variants inds ps = Inr d"
    by (auto simp: check_grid_def split: option.splits pyval.splits sum.splits)
  from check_variants_roundtrip [OF this] ps Some show ?thesis by (simp add: check_grid_def)
qed

lemma to_dict_fields:
  "field_of (to_dict s) ''name'' = PStr (sp_name s)"
  "field_of (to_dict s) ''asset_universe'' = PList (map PStr (sp_asset_universe s))"
  "field_of (to_dict s) ''rebalance_frequency'' = PStr (sp_rebalance_frequency s)"
  "field_of (to_dict s) ''entry'' = sp_entry s"
  "field_of (to_dict s) ''exit'' = sp_exit s"
  "field_of (to_dict s) ''position_sizing'' = PDict (sp_position_sizing s)"
  "field_of (to_dict s) ''source_arxiv_ids'' = PList (map PStr (sp_source_arxiv_ids s))"
  "map_of (to_dict s) ''parameter_variants'' =
     map_option (\<lambda>g. PDict (map (\<lambda>(k, vs). (k, PList vs)) g)) (sp_parameter_variants s)"
  "set REQUIRED_FIELDS \<subseteq> fst ` set (to_dict s)"
  by (auto simp: to_dict_def field_of_def REQUIRED_FIELDS_def split: option.splits)

text \<open>
  C26: storing a validated specification loses nothing.  What \<^verbatim>\<open>to_dict\<close> writes is accepted again and
  gives the same specification, indicators included, whatever legacy keys the document had.
\<close>

theorem validated_spec_roundtrip:
  assumes "validate_strategy_spec v = Inr s"
  shows "validate_strategy_spec (PDict (to_dict s)) = Inr s"
proof -
  from assms obtain d name universe freq a b ps ids pv where
    f: "name_of (field_of d ''name'') = Inr name" "check_universe (field_of d ''asset_universe'') = Inr universe"
       "frequency_of (field_of d ''rebalance_frequency'') = Inr freq"
       "validate_condition (field_of d ''entry'') = Inr a" "validate_condition (field_of d ''exit'') = Inr b"
       "check_sizing (field_of d ''position_sizing'') = Inr ps" "check_ids (field_of d ''source_arxiv_ids'') = Inr ids"
       "check_grid (a \<union> b) (map_of d ''parameter_variants'') = Inr pv"
    and s: "s = \<lparr>sp_name = name, sp_asset_universe = universe, sp_rebalance_frequency = freq,
                sp_entry = field_of d ''entry'', sp_exit = field_of d ''exit'', sp_position_sizing = ps,
                sp_source_arxiv_ids = ids, sp_indicators = sorted_list_of_set (a \<union> b),
                sp_parameter_variants = pv\<rparr>"
    by (auto simp: validate_strategy_spec_def and_then_Inr split: pyval.splits if_splits)
  note inv = name_of_roundtrip [OF f(1)] check_universe_roundtrip [OF f(2)] frequency_of_roundtrip [OF f(3)]
    check_sizing_roundtrip [OF f(6)] check_ids_roundtrip [OF f(7)]
  have "name_of (PStr name) = Inr name" "check_universe (PList (map PStr universe)) = Inr universe"
    "frequency_of (PStr freq) = Inr freq" "check_sizing (PDict ps) = Inr ps"
    "check_ids (PList (map PStr ids)) = Inr ids"
    using f inv by simp_all
  moreover note check_grid_roundtrip [OF f(8)]
  ultimately show ?thesis
    using f(4,5) to_dict_fields(9) [of s]
    by (simp add: validate_strategy_spec_def to_dict_fields s)
qed

definition FABER_2007_SPEC :: "(string \<times> pyval) list" where
  "FABER_2007_SPEC =
     [(''name'', PStr ''SMA-200 Tactical Allocation''), (''asset_universe'', PList [PStr ''SPY'']),
      (''rebalance_frequency'', PStr ''monthly''),
      (''entry'', PDict [(''gt'', PList [PStr ''close'', PStr ''sma_200''])]),
      (''exit'', PDict [(''lt'', PList [PStr ''close'', PStr ''sma_200''])]),
      (''position_sizing'', PDict [(''type'', PStr ''full_invested_when_in_market'')]),
      (''source_arxiv_ids'', PList [PStr ''0706.1497''])]"

definition faber_spec :: strategy_spec where
  "faber_spec =
     \<lparr>sp_name = ''SMA-200 Tactical Allocation'', sp_asset_universe = [''SPY''], sp_rebalance_frequency = ''monthly'',
      sp_entry = PDict [(''gt'', PList [PStr ''close'', PStr ''sma_200''])],
      sp_exit = PDict [(''lt'', PList [PStr ''close'', PStr ''sma_200''])],
      sp_position_sizing = [(''type'', PStr ''full_invested_when_in_market'')],
      sp_source_arxiv_ids = [''0706.1497''], sp_indicators = [''sma_200''], sp_parameter_variants = None\<rparr>"

lemma faber_valid: "validate_strategy_spec (PDict FABER_2007_SPEC) = Inr faber_spec"
  by code_simp

theorem validated_spec_roundtrip_witness: "validate_strategy_spec (PDict (to_dict faber_spec)) = Inr faber_spec"
  by (rule validated_spec_roundtrip [OF faber_valid])

end
