(* ===== verification/DslReplay.thy ===== *)
theory DslReplay
  imports StrategyDsl PyDecimal
begin

text \<open>
  The two interpreters of a validated specification: the strategy class that
  \<^verbatim>\<open>services/dsl_to_backtrader.py\<close> builds for a backtest, and the replay of
  \<^verbatim>\<open>services/strategy_signal_evaluator.py\<close> that derives the live position from a window of prices.

  The values of a bar are a parameter: moving averages are computed by backtrader on one side and by
  pandas on the other.  So is the broker, which turns the order of a bar into the position that the next
  bar sees.  Bars are counted from 0; \<^verbatim>\<open>len(self)\<close> of backtrader at bar \<open>t\<close> is \<open>t + 1\<close>.  Backtrader calls
  \<^verbatim>\<open>next\<close> only once every indicator is ready, which happens no later than the end of the warm-up, where
  \<^verbatim>\<open>next\<close> returns at once anyway.
\<close>

section \<open>Warm-up and cadence\<close>

definition indicator_min_bars :: "string \<Rightarrow> int \<Rightarrow> int" where
  "indicator_min_bars name period = (if name = ''realized_vol'' then period + 1 else period)"

text \<open>\<^verbatim>\<open>max(..., default=0)\<close>\<close>

fun max_default :: "int list \<Rightarrow> int" where
  "max_default [] = 0"
| "max_default (x # xs) = fold max xs x"

text \<open>The map of \<^verbatim>\<open>interpret_spec\<close>: an alias whose period is no integer is a \<open>ValueError\<close>.\<close>

fun indicator_map :: "string list \<Rightarrow> eval_error + (string \<times> string \<times> int) list" where
  "indicator_map [] = Inr []"
| "indicator_map (alias # rest) =
     (case rsplit1 alias of
        None \<Rightarrow> indicator_map rest
      | Some (name, p) \<Rightarrow>
          (case py_int p of
             None \<Rightarrow> Inl Eval_value_error
           | Some period \<Rightarrow> map_sum id (\<lambda>m. (alias, name, period) # m) (indicator_map rest)))"

definition backtest_warmup :: "string list \<Rightarrow> eval_error + int" where
  "backtest_warmup indicators =
     map_sum id (\<lambda>m. max_default (map (\<lambda>(_, name, period). indicator_min_bars name period) m)) (indicator_map indicators)"

text \<open>The map of the live evaluator, which skips such an alias.\<close>

fun indicator_periods :: "string list \<Rightarrow> (string \<times> string \<times> int) list" where
  "indicator_periods [] = []"
| "indicator_periods (alias # rest) =
     (case rsplit1 alias of
        None \<Rightarrow> indicator_periods rest
      | Some (name, p) \<Rightarrow>
          (case py_int p of
             None \<Rightarrow> indicator_periods rest
           | Some period \<Rightarrow> (alias, name, period) # indicator_periods rest))"

definition live_warmup :: "string list \<Rightarrow> int" where
  "live_warmup indicators = max_default (map (\<lambda>(_, _, period). period) (indicator_periods indicators))"

definition rebalance_period_bars :: "string \<Rightarrow> nat" where
  "rebalance_period_bars frequency =
     (if frequency = ''weekly'' then 5 else if frequency = ''monthly'' then 21 else 1)"

section \<open>The backtest\<close>

datatype order = No_order | Enter | Close_position

definition should_rebalance :: "string \<Rightarrow> nat \<Rightarrow> bool \<times> nat" where
  "should_rebalance frequency counter =
     (let period = rebalance_period_bars frequency in
      if frequency = ''daily'' \<or> period \<le> 1 then (True, counter)
      else ((counter + 1) mod period = 0, counter + 1))"

text \<open>\<^verbatim>\<open>DSLStrategy.next\<close> at bar \<open>t\<close>, with the position the broker reports.\<close>

definition strategy_next ::
  "strategy_spec \<Rightarrow> int \<Rightarrow> bar \<Rightarrow> nat \<Rightarrow> bool \<Rightarrow> nat \<Rightarrow> eval_error + order \<times> nat" where
  "strategy_next s warmup vals t in_market counter =
     (if int (t + 1) \<le> warmup then Inr (No_order, counter)
      else case should_rebalance (sp_rebalance_frequency s) counter of
        (False, counter') \<Rightarrow> Inr (No_order, counter')
      | (True, counter') \<Rightarrow>
          if in_market
          then map_sum id (\<lambda>b. (if b then Close_position else No_order, counter')) (eval_condition vals (sp_exit s))
          else map_sum id (\<lambda>b. (if b then Enter else No_order, counter')) (eval_condition vals (sp_entry s)))"

fun backtest ::
  "(nat \<Rightarrow> order \<Rightarrow> bool \<Rightarrow> bool) \<Rightarrow> strategy_spec \<Rightarrow> int \<Rightarrow> (nat \<Rightarrow> bar) \<Rightarrow> nat \<Rightarrow> eval_error + bool \<times> nat" where
  "backtest broker s warmup bars 0 = Inr (False, rebalance_period_bars (sp_rebalance_frequency s) - 1)"
| "backtest broker s warmup bars (Suc t) =
     (case backtest broker s warmup bars t of
        Inl e \<Rightarrow> Inl e
      | Inr (in_market, counter) \<Rightarrow>
          map_sum id (\<lambda>(ord, counter'). (broker t ord in_market, counter'))
            (strategy_next s warmup (bars t) t in_market counter))"

definition run_backtest ::
  "(nat \<Rightarrow> order \<Rightarrow> bool \<Rightarrow> bool) \<Rightarrow> strategy_spec \<Rightarrow> (nat \<Rightarrow> bar) \<Rightarrow> nat \<Rightarrow> eval_error + bool" where
  "run_backtest broker s bars n =
     (case backtest_warmup (sp_indicators s) of
        Inl e \<Rightarrow> Inl e
      | Inr warmup \<Rightarrow> map_sum id fst (backtest broker s warmup bars n))"

section \<open>The live replay\<close>

record position_replay =
  pr_in_market :: bool
  pr_decision_index :: "nat option"
  pr_decision_count :: nat
  pr_entered_index :: "nat option"

definition replay_step ::
  "strategy_spec \<Rightarrow> (nat \<Rightarrow> bar) \<Rightarrow> nat \<Rightarrow> nat \<Rightarrow> position_replay \<Rightarrow> eval_error + position_replay" where
  "replay_step s bars max_period t r =
     (let period_bars = rebalance_period_bars (sp_rebalance_frequency s) in
      if 1 < period_bars \<and> (t - max_period) mod period_bars \<noteq> 0 then Inr r
      else
        let r' = r\<lparr>pr_decision_index := Some t, pr_decision_count := pr_decision_count r + 1\<rparr> in
        if \<not> pr_in_market r
        then map_sum id (\<lambda>b. if b then r'\<lparr>pr_in_market := True, pr_entered_index := Some t\<rparr> else r')
               (eval_condition (bars t) (sp_entry s))
        else map_sum id (\<lambda>b. if b then r'\<lparr>pr_in_market := False, pr_entered_index := None\<rparr> else r')
               (eval_condition (bars t) (sp_exit s)))"

fun replay_loop ::
  "strategy_spec \<Rightarrow> (nat \<Rightarrow> bar) \<Rightarrow> nat \<Rightarrow> nat list \<Rightarrow> position_replay \<Rightarrow> eval_error + position_replay" where
  "replay_loop s bars max_period [] r = Inr r"
| "replay_loop s bars max_period (t # ts) r =
     (case replay_step s bars max_period t r of
        Inl e \<Rightarrow> Inl e
      | Inr r' \<Rightarrow> replay_loop s bars max_period ts r')"

definition no_position :: position_replay where
  "no_position = \<lparr>pr_in_market = False, pr_decision_index = None, pr_decision_count = 0, pr_entered_index = None\<rparr>"

definition replay_position_state ::
  "strategy_spec \<Rightarrow> (nat \<Rightarrow> bar) \<Rightarrow> nat \<Rightarrow> nat \<Rightarrow> eval_error + position_replay" where
  "replay_position_state s bars n max_period = replay_loop s bars max_period [max_period..<n] no_position"

text \<open>
  The values a bar has on each side.  A backtest bar has five prices of its own; the live window has
  closing prices only.
\<close>

definition backtest_bar :: "bar \<Rightarrow> bar \<Rightarrow> bar" where
  "backtest_bar ohlcv inds = (\<lambda>x. case inds x of Some v \<Rightarrow> Some v | None \<Rightarrow> if x \<in> set PRICE_OPERANDS then ohlcv x else None)"

definition live_bar :: "float_val \<Rightarrow> bar \<Rightarrow> bar" where
  "live_bar px inds =
     (\<lambda>x. case inds x of
        Some v \<Rightarrow> Some v
      | None \<Rightarrow>
          if x \<in> {''close'', ''open'', ''high'', ''low''} then Some px
          else if x = ''volume'' then Some (Finite 0)
          else None)"

section \<open>Cadence\<close>

text \<open>Whether the bar \<open>k\<close> bars after the warm-up decides.\<close>

definition on_cadence :: "string \<Rightarrow> nat \<Rightarrow> bool" where
  "on_cadence frequency k \<longleftrightarrow> k mod rebalance_period_bars frequency = 0"

lemma period_pos: "0 < rebalance_period_bars f"
  by (simp add: rebalance_period_bars_def)

lemma daily_period: "f = ''daily'' \<Longrightarrow> rebalance_period_bars f = 1"
  by (simp add: rebalance_period_bars_def)

text \<open>The counter of the backtest after \<open>k\<close> bars past the warm-up.\<close>

definition counter_after :: "string \<Rightarrow> nat \<Rightarrow> nat" where
  "counter_after f k =
     (if rebalance_period_bars f \<le> 1 then 0 else rebalance_period_bars f - 1 + k)"

lemma should_rebalance_cadence:
  "should_rebalance f (counter_after f k) = (on_cadence f k, counter_after f (Suc k))"
proof (cases "rebalance_period_bars f \<le> 1")
  case True
  then have "rebalance_period_bars f = 1" using period_pos [of f] by simp
  then show ?thesis by (simp add: should_rebalance_def on_cadence_def counter_after_def)
next
  case False
  then have "f \<noteq> ''daily''" using daily_period by auto
  moreover have "(rebalance_period_bars f - 1 + k + 1) mod rebalance_period_bars f = k mod rebalance_period_bars f"
    using period_pos [of f] by simp
  ultimately show ?thesis using False by (simp add: should_rebalance_def on_cadence_def counter_after_def Let_def)
qed

lemma replay_step_cadence:
  "replay_step s bars w t r =
     (if on_cadence (sp_rebalance_frequency s) (t - w)
      then map_sum id (\<lambda>b. (let r' = r\<lparr>pr_decision_index := Some t, pr_decision_count := pr_decision_count r + 1\<rparr> in
             if \<not> b then r' else if pr_in_market r then r'\<lparr>pr_in_market := False, pr_entered_index := None\<rparr>
             else r'\<lparr>pr_in_market := True, pr_entered_index := Some t\<rparr>))
             (eval_condition (bars t) (if pr_in_market r then sp_exit s else sp_entry s))
      else Inr r)"
proof (cases "rebalance_period_bars (sp_rebalance_frequency s) \<le> 1")
  case True
  then have "rebalance_period_bars (sp_rebalance_frequency s) = 1"
    using period_pos [of "sp_rebalance_frequency s"] by simp
  then show ?thesis
    by (cases "eval_condition (bars t) (sp_entry s)"; cases "eval_condition (bars t) (sp_exit s)")
       (auto simp: replay_step_def on_cadence_def Let_def)
next
  case False
  then show ?thesis
    by (cases "eval_condition (bars t) (sp_entry s)"; cases "eval_condition (bars t) (sp_exit s)")
       (auto simp: replay_step_def on_cadence_def Let_def)
qed

section \<open>Aliases\<close>

lemma digits_from_show:
  "digits_from a b (nat_to_string n @ ys) = digits_from (a * 10 ^ length (nat_to_string n) + n) True ys"
proof (induction n arbitrary: a b ys rule: nat_to_string.induct)
  case (1 n)
  have d: "digit_char k \<noteq> CHR ''_''" if "k < 10" for k
    using digit_char_text(3) [OF that] by auto
  show ?case
  proof (cases "n < 10")
    case True
    then show ?thesis by (simp add: nat_to_string.simps d digit_char mult.commute)
  next
    case False
    then have s: "nat_to_string n = nat_to_string (n div 10) @ [digit_char (n mod 10)]"
      by (subst nat_to_string.simps) simp
    show ?thesis
      by (simp add: s 1 [OF False] d digit_char algebra_simps)
  qed
qed

lemma dropWhile_none: "(\<And>x. x \<in> set xs \<Longrightarrow> \<not> P x) \<Longrightarrow> dropWhile P xs = xs"
  by (cases xs) auto

lemma py_strip_digits: "py_strip (nat_to_string n) = nat_to_string n"
proof -
  have "\<not> py_space c" if "c \<in> set (nat_to_string n)" for c
    using nat_to_string_chars [OF that] digit_char(5) by blast
  then have "dropWhile py_space (nat_to_string n) = nat_to_string n"
    "dropWhile py_space (rev (nat_to_string n)) = rev (nat_to_string n)"
    by (auto intro!: dropWhile_none)
  then show ?thesis by (simp add: py_strip_def)
qed

lemma py_int_show: "0 \<le> n \<Longrightarrow> py_int (show_int n) = Some n"
proof -
  assume n: "0 \<le> n"
  obtain c cs where s: "nat_to_string (nat n) = c # cs" by (cases "nat_to_string (nat n)") auto
  then have "c \<notin> set ''_+-''" using nat_to_string_chars [of c "nat n"] digit_char_text(3) by auto
  moreover have "digits_from 0 False (c # cs) = Some (nat n)"
    using digits_from_show [of 0 False "nat n" "[]"] s by simp
  ultimately show ?thesis using n s py_strip_digits [of "nat n"] by (simp add: py_int_def show_int_def)
qed

lemma until_char:
  "c \<notin> set xs \<Longrightarrow> takeWhile (\<lambda>x. x \<noteq> c) (xs @ c # ys) = xs \<and> dropWhile (\<lambda>x. x \<noteq> c) (xs @ c # ys) = c # ys"
  by (induction xs) auto

lemma rsplit1_alias: "0 \<le> p \<Longrightarrow> rsplit1 (alias_of ind p) = Some (ind, show_int p)"
proof -
  assume "0 \<le> p"
  then have "CHR ''_'' \<notin> set (rev (show_int p))"
    using nat_to_string_chars [of "CHR ''_''" "nat p"] digit_char_text(3) by (fastforce simp: show_int_def)
  from until_char [OF this, of "rev ind"] show ?thesis by (simp add: rsplit1_def alias_of_def)
qed

text \<open>The aliases the validator collects.\<close>

definition good_alias :: "string \<Rightarrow> bool" where
  "good_alias a \<longleftrightarrow> (\<exists>ind p. ind \<in> set INDICATOR_NAMES \<and> 1 \<le> p \<and> p \<le> 10000 \<and> a = alias_of ind p)"

lemma good_aliasI: "ind \<in> set INDICATOR_NAMES \<Longrightarrow> \<not> p < 1 \<Longrightarrow> \<not> 10000 < p \<Longrightarrow> good_alias (alias_of ind p)"
  unfolding good_alias_def by (intro exI [of _ ind] exI [of _ p]) simp

lemma validate_arg_aliases: "validate_arg v = Inr inds \<Longrightarrow> a \<in> inds \<Longrightarrow> good_alias a"
  by (cases v)
     (auto simp: parse_indicator_operand_def intro: good_aliasI
       split: sum.splits option.splits if_splits prod.splits)

lemma validated_aliases:
  "validate_condition c = Inr inds \<Longrightarrow> a \<in> inds \<Longrightarrow> good_alias a"
  "validate_conditions cs = Inr inds \<Longrightarrow> a \<in> inds \<Longrightarrow> good_alias a"
proof (induction c and cs arbitrary: inds and inds rule: validate_condition_validate_conditions.induct)
  case (1 opr v)
  from 1(3) consider "validate_condition v = Inr inds" "opr = ''not''" "is_dict v"
    | cs where "v = PList cs" "\<not> length cs < 2" "validate_conditions cs = Inr inds" "opr = ''and'' \<or> opr = ''or''" "opr \<noteq> ''not''"
    | x y where "union_checked (validate_arg x) (validate_arg y) = Inr inds"
    by (auto split: if_splits pyval.splits list.splits)
  then show ?case
  proof cases
    assume "validate_condition v = Inr inds" "opr = ''not''" "is_dict v"
    then show ?thesis using 1(1) 1(4) by blast
  next
    fix cs
    assume "v = PList cs" "\<not> length cs < 2" "validate_conditions cs = Inr inds" "opr = ''and'' \<or> opr = ''or''" "opr \<noteq> ''not''"
    then show ?thesis using 1(2) 1(4) by blast
  next
    fix x y
    assume "union_checked (validate_arg x) (validate_arg y) = Inr inds"
    then show ?thesis using 1(4) validate_arg_aliases by (auto simp: union_checked_Inr)
  qed
next
  case (5 c cs)
  then show ?case by (auto simp: union_checked_Inr)
qed simp_all

lemma validated_indicators:
  assumes "validate_strategy_spec v = Inr s"
  shows "list_all good_alias (sp_indicators s)"
proof -
  from assms obtain d a b where ab: "validate_condition (field_of d ''entry'') = Inr a"
    "validate_condition (field_of d ''exit'') = Inr b" and i: "sp_indicators s = sorted_list_of_set (a \<union> b)"
    by (auto simp: validate_strategy_spec_def and_then_Inr split: pyval.splits if_splits)
  have "set (sorted_list_of_set A) \<subseteq> A" for A :: "string set"
    by (cases "finite A") simp_all
  then have "set (sp_indicators s) \<subseteq> a \<union> b" unfolding i .
  then show ?thesis
    using validated_aliases(1) [OF ab(1)] validated_aliases(1) [OF ab(2)] by (auto simp: list_all_iff)
qed

lemma indicator_map_validated:
  "list_all good_alias xs \<Longrightarrow>
     indicator_map xs = Inr (indicator_periods xs) \<and> (\<forall>(_, name, p) \<in> set (indicator_periods xs). 1 \<le> p)"
proof (induction xs)
  case (Cons a xs)
  then obtain ind p where "a = alias_of ind p" "1 \<le> p" by (auto simp: good_alias_def)
  then show ?case using Cons rsplit1_alias [of p ind] py_int_show [of p] by auto
qed simp

section \<open>The replay follows the backtest\<close>

lemma replay_loop_append:
  "replay_loop s bars w (ts @ us) r =
     (case replay_loop s bars w ts r of Inl e \<Rightarrow> Inl e | Inr r' \<Rightarrow> replay_loop s bars w us r')"
  by (induction ts arbitrary: r) (auto split: sum.splits)

text \<open>A broker that fills every order before the next bar.\<close>

definition fills :: "(nat \<Rightarrow> order \<Rightarrow> bool \<Rightarrow> bool) \<Rightarrow> bool" where
  "fills broker \<longleftrightarrow> (\<forall>t h. broker t No_order h = h \<and> broker t Enter h \<and> \<not> broker t Close_position h)"

lemma replay_follows:
  assumes "fills broker"
    and "\<And>t. t < n \<Longrightarrow> eval_condition (bars t) (sp_entry s) = eval_condition (live t) (sp_entry s)"
    and "\<And>t. t < n \<Longrightarrow> eval_condition (bars t) (sp_exit s) = eval_condition (live t) (sp_exit s)"
  shows "backtest broker s (int w) bars n =
         map_sum id (\<lambda>r. (pr_in_market r, counter_after (sp_rebalance_frequency s) (n - w)))
           (replay_loop s live w [w..<n] no_position)"
  using assms(2,3)
proof (induction n)
  case 0
  then show ?case by (simp add: counter_after_def no_position_def)
next
  case (Suc n)
  note b = assms(1) [unfolded fills_def, rule_format]
  have IH: "backtest broker s (int w) bars n =
      map_sum id (\<lambda>r. (pr_in_market r, counter_after (sp_rebalance_frequency s) (n - w)))
        (replay_loop s live w [w..<n] no_position)"
    and e: "eval_condition (bars n) (sp_entry s) = eval_condition (live n) (sp_entry s)"
      "eval_condition (bars n) (sp_exit s) = eval_condition (live n) (sp_exit s)"
    by (blast intro: Suc.IH Suc.prems less_SucI)+
  show ?case
  proof (cases "n < w")
    case True
    then show ?thesis using IH b by (simp add: strategy_next_def)
  next
    case False
    then have "\<not> int (n + 1) \<le> int w" "Suc n - w = Suc (n - w)" by simp_all
    with False IH b show ?thesis
      by (cases "replay_loop s live w [w..<n] no_position";
          cases "eval_condition (live n) (sp_entry s)"; cases "eval_condition (live n) (sp_exit s)")
         (auto simp: strategy_next_def should_rebalance_cadence replay_loop_append replay_step_cadence e Let_def
           split: bool.splits)
  qed
qed

lemma max_default_Max: "xs \<noteq> [] \<Longrightarrow> max_default xs = Max (set xs)"
  by (cases xs) (simp_all add: Max.set_eq_fold [symmetric] del: list.set)

lemma max_default_nonneg: "list_all (\<lambda>x. 0 \<le> x) xs \<Longrightarrow> 0 \<le> max_default xs"
  by (cases "xs = []") (auto simp: max_default_Max list_all_iff Max_ge_iff intro: hd_in_set)

text \<open>A realized volatility has a longer warm-up in the backtest; it must not be the longest indicator.\<close>

definition vol_not_longest :: "string list \<Rightarrow> bool" where
  "vol_not_longest inds \<longleftrightarrow>
     list_all (\<lambda>(_, name, p). name = ''realized_vol'' \<longrightarrow> p < live_warmup inds) (indicator_periods inds)"

lemma warmups_agree:
  assumes "list_all good_alias inds" and "vol_not_longest inds"
  shows "backtest_warmup inds = Inr (live_warmup inds)" and "0 \<le> live_warmup inds"
proof -
  let ?m = "indicator_periods inds"
  let ?f = "\<lambda>(_ :: string, name, period). indicator_min_bars name period" and ?g = "\<lambda>(_ :: string, _ :: string, period :: int). period"
  from indicator_map_validated [OF assms(1)]
  have m: "indicator_map inds = Inr ?m" and pos: "\<forall>(_, name, p) \<in> set ?m. 1 \<le> p" by simp_all
  show "0 \<le> live_warmup inds"
    unfolding live_warmup_def using pos by (intro max_default_nonneg) (fastforce simp: list_all_iff)
  have "max_default (map ?f ?m) = max_default (map ?g ?m)"
  proof (cases "?m = []")
    case False
    have "Max (?f ` set ?m) = Max (?g ` set ?m)"
    proof (rule antisym)
      have "?f x \<le> Max (?g ` set ?m)" if x: "x \<in> set ?m" for x
      proof -
        have "?g x \<le> Max (?g ` set ?m)" using x by (intro Max_ge) auto
        moreover have "?g x < Max (?g ` set ?m)" if "fst (snd x) = ''realized_vol''"
          using assms(2) False x that
          by (fastforce simp: vol_not_longest_def live_warmup_def max_default_Max list_all_iff)
        ultimately show ?thesis by (force simp: indicator_min_bars_def split: prod.splits)
      qed
      then show "Max (?f ` set ?m) \<le> Max (?g ` set ?m)" using False by (subst Max_le_iff) auto
      have "?g x \<le> Max (?f ` set ?m)" if x: "x \<in> set ?m" for x
      proof -
        have "?f x \<le> Max (?f ` set ?m)" using x by (intro Max_ge) auto
        then show ?thesis by (auto simp: indicator_min_bars_def split: prod.splits if_splits)
      qed
      then show "Max (?g ` set ?m) \<le> Max (?f ` set ?m)" using False by (subst Max_le_iff) auto
    qed
    with False show ?thesis by (simp add: max_default_Max)
  qed simp
  then show "backtest_warmup inds = Inr (live_warmup inds)"
    by (simp add: backtest_warmup_def live_warmup_def m)
qed

section \<open>Conditions on closing prices\<close>

fun closes_only_arg :: "pyval \<Rightarrow> bool" where
  "closes_only_arg (PStr x) = (x \<notin> set [''open'', ''high'', ''low'', ''volume''])"
| "closes_only_arg _ = True"

fun closes_only :: "pyval \<Rightarrow> bool" where
  "closes_only (PDict ((opr, v) # _)) =
     (if opr = ''and'' \<or> opr = ''or'' then (case v of PList cs \<Rightarrow> list_all closes_only cs | _ \<Rightarrow> True)
      else if opr = ''not'' then closes_only v
      else (case v of PList as \<Rightarrow> list_all closes_only_arg as | _ \<Rightarrow> True))"
| "closes_only _ = True"

definition closes_agree :: "bar \<Rightarrow> bar \<Rightarrow> bool" where
  "closes_agree vals vals' \<longleftrightarrow> (\<forall>x. x \<notin> set [''open'', ''high'', ''low'', ''volume''] \<longrightarrow> vals x = vals' x)"

lemma operand_closes_only:
  "closes_agree vals vals' \<Longrightarrow> closes_only_arg v \<Longrightarrow> operand_value vals v = operand_value vals' v"
  by (cases v) (simp_all add: closes_agree_def)

lemma eval_closes_only:
  "closes_only c \<Longrightarrow> closes_agree vals vals' \<Longrightarrow> eval_condition vals c = eval_condition vals' c"
  "list_all closes_only cs \<Longrightarrow> closes_agree vals vals' \<Longrightarrow> eval_all vals cs = eval_all vals' cs"
  "list_all closes_only ds \<Longrightarrow> closes_agree vals vals' \<Longrightarrow> eval_any vals ds = eval_any vals' ds"
proof (induction vals c and vals cs and vals ds rule: eval_condition_eval_all_eval_any.induct)
  case (1 vals opr v rest)
  then show ?case
    using operand_closes_only [OF 1(5)] by (auto split: pyval.splits list.splits cong: sum.case_cong)
qed (simp_all split: sum.splits bool.splits)

lemma live_agrees: "closes_agree (backtest_bar ohlcv inds) (live_bar px inds)" if "ohlcv ''close'' = Some px"
  using that by (auto simp: closes_agree_def backtest_bar_def live_bar_def PRICE_OPERANDS_def split: option.splits)

lemma replay_matches:
  assumes "validate_strategy_spec v = Inr s" and "vol_not_longest (sp_indicators s)" and "fills broker"
    and "closes_only (sp_entry s)" and "closes_only (sp_exit s)"
    and "\<forall>t. ohlcv t ''close'' = Some (px t)"
  shows "run_backtest broker s (\<lambda>t. backtest_bar (ohlcv t) (inds t)) n =
         map_sum id pr_in_market
           (replay_position_state s (\<lambda>t. live_bar (px t) (inds t)) n (nat (live_warmup (sp_indicators s))))"
proof -
  let ?w = "nat (live_warmup (sp_indicators s))"
  note w = warmups_agree [OF validated_indicators [OF assms(1)] assms(2)]
  have agree: "closes_agree (backtest_bar (ohlcv t) (inds t)) (live_bar (px t) (inds t))" for t
    by (rule live_agrees) (rule assms(6) [rule_format])
  have "backtest broker s (int ?w) (\<lambda>t. backtest_bar (ohlcv t) (inds t)) n =
        map_sum id (\<lambda>r. (pr_in_market r, counter_after (sp_rebalance_frequency s) (n - ?w)))
          (replay_loop s (\<lambda>t. live_bar (px t) (inds t)) ?w [?w..<n] no_position)"
    by (rule replay_follows [OF assms(3)]) (rule eval_closes_only(1) [OF _ agree], rule assms)+
  with w show ?thesis
    by (cases "replay_loop s (\<lambda>t. live_bar (px t) (inds t)) ?w [?w..<n] no_position")
       (simp_all add: run_backtest_def replay_position_state_def)
qed

text \<open>
  The live evaluator replays the backtest.  For a validated specification whose conditions read
  closing prices and indicators, and whose longest indicator is no realized volatility, the position the
  replay derives from any number of bars is the one the backtest holds after those bars, provided the
  indicators have the same values on both sides and the broker fills every order; and one side raises
  exactly when the other does.
\<close>

theorem replay_is_backtest:
  assumes "validate_strategy_spec v = Inr s" and "vol_not_longest (sp_indicators s)" and "fills broker"
    and "closes_only (sp_entry s)" and "closes_only (sp_exit s)"
    and "\<forall>t. ohlcv t ''close'' = Some (px t)"
  shows "run_backtest broker s (\<lambda>t. backtest_bar (ohlcv t) (inds t)) n =
         map_sum id pr_in_market
           (replay_position_state s (\<lambda>t. live_bar (px t) (inds t)) n (nat (live_warmup (sp_indicators s))))"
  by (rule replay_matches) (rule assms)+

definition filling_broker :: "nat \<Rightarrow> order \<Rightarrow> bool \<Rightarrow> bool" where
  "filling_broker t ord h = (case ord of No_order \<Rightarrow> h | Enter \<Rightarrow> True | Close_position \<Rightarrow> False)"

lemma filling_broker_fills: "fills filling_broker"
  by (simp add: fills_def filling_broker_def)

theorem replay_is_backtest_witness:
  "run_backtest filling_broker faber_spec (\<lambda>t. backtest_bar faber_bar faber_bar) 230 =
   map_sum id pr_in_market
     (replay_position_state faber_spec (\<lambda>t. live_bar (Finite 1) faber_bar) 230
       (nat (live_warmup (sp_indicators faber_spec))))"
proof (rule replay_is_backtest [OF faber_valid _ filling_broker_fills])
  show "vol_not_longest (sp_indicators faber_spec)" by code_simp
  show "closes_only (sp_entry faber_spec)" by code_simp
  show "closes_only (sp_exit faber_spec)" by code_simp
  show "\<forall>t :: nat. faber_bar ''close'' = Some (Finite 1)" by (simp add: faber_bar_def PRICE_OPERANDS_def)
qed

definition calm_spec :: "(string \<times> pyval) list" where
  "calm_spec =
     [(''name'', PStr ''Calm weeks''), (''asset_universe'', PList [PStr ''SPY'']),
      (''rebalance_frequency'', PStr ''weekly''),
      (''entry'', PDict [(''lt'', PList [PStr ''realized_vol_10'', PFloat (Finite 1)])]),
      (''exit'', PDict [(''gt'', PList [PStr ''realized_vol_10'', PFloat (Finite 1)])]),
      (''position_sizing'', PDict [(''type'', PStr ''full_invested_when_in_market'')]),
      (''source_arxiv_ids'', PList [])]"

definition weekly_vol :: "nat \<Rightarrow> bar" where
  "weekly_vol t = (\<lambda>x. if x = ''realized_vol_10'' then Some (Finite (if t mod 5 = 0 then 0 else 2)) else None)"

text \<open>
  The two sides part when a realized volatility is the longest indicator.  The backtest warms it up
  for one bar more than the live evaluator, so a weekly strategy decides on other bars: over the same
  thirty bars the live position is long and the backtest never enters.
\<close>

theorem realized_vol_phase_shift:
  "case validate_strategy_spec (PDict calm_spec) of
     Inl _ \<Rightarrow> False
   | Inr s \<Rightarrow>
       run_backtest filling_broker s (\<lambda>t. backtest_bar faber_bar (weekly_vol t)) 30 = Inr False \<and>
       map_sum id pr_in_market
         (replay_position_state s (\<lambda>t. live_bar (Finite 1) (weekly_vol t)) 30 (nat (live_warmup (sp_indicators s)))) =
         Inr True"
  by code_simp

definition traded_spec :: "(string \<times> pyval) list" where
  "traded_spec =
     [(''name'', PStr ''Traded''), (''asset_universe'', PList [PStr ''SPY'']),
      (''rebalance_frequency'', PStr ''daily''),
      (''entry'', PDict [(''gt'', PList [PStr ''volume'', PFloat (Finite 0)])]),
      (''exit'', PDict [(''lt'', PList [PStr ''close'', PFloat (Finite 0)])]),
      (''position_sizing'', PDict [(''type'', PStr ''full_invested_when_in_market'')]),
      (''source_arxiv_ids'', PList [])]"

lemma never_enters:
  assumes "\<And>t. eval_condition (bars t) (sp_entry s) = Inr False"
  shows "\<not> pr_in_market r \<Longrightarrow> map_sum id pr_in_market (replay_loop s bars w ts r) = Inr False"
  by (induction ts arbitrary: r) (simp_all add: replay_step_cadence assms Let_def)

text \<open>
  A condition on the volume never holds live.  The live window has no volumes and reads each as
  zero, so a specification that enters on any trading at all is accepted, enters on the first bar of the
  backtest and stays out of the market live, however long the window.
\<close>

theorem volume_condition_diverges:
  "case validate_strategy_spec (PDict traded_spec) of
     Inl _ \<Rightarrow> False
   | Inr s \<Rightarrow>
       run_backtest filling_broker s (\<lambda>t. backtest_bar faber_bar (\<lambda>x. None)) 1 = Inr True \<and>
       map_sum id pr_in_market (replay_position_state s (\<lambda>t. live_bar (px t) (\<lambda>x. None)) n 0) = Inr False"
proof -
  obtain s where s: "validate_strategy_spec (PDict traded_spec) = Inr s"
    and e: "sp_entry s = PDict [(''gt'', PList [PStr ''volume'', PFloat (Finite 0)])]"
    and b: "run_backtest filling_broker s (\<lambda>t. backtest_bar faber_bar (\<lambda>x. None)) 1 = Inr True"
  proof -
    have "case validate_strategy_spec (PDict traded_spec) of
        Inl _ \<Rightarrow> False
      | Inr s \<Rightarrow> sp_entry s = PDict [(''gt'', PList [PStr ''volume'', PFloat (Finite 0)])] \<and>
          run_backtest filling_broker s (\<lambda>t. backtest_bar faber_bar (\<lambda>x. None)) 1 = Inr True"
      by code_simp
    then show ?thesis using that by (auto split: sum.splits)
  qed
  have "eval_condition (live_bar (px t) (\<lambda>x. None)) (sp_entry s) = Inr False" for t
    by (simp add: e live_bar_def compare_def)
  from never_enters [OF this] b s show ?thesis
    by (simp add: replay_position_state_def no_position_def)
qed

end
