(* ===== verification/DslLive.thy ===== *)
theory DslLive
  imports DslReplay
begin

text \<open>
  Sizing and the live signal of a specification: the sizing arithmetic of
  \<^verbatim>\<open>services/dsl_to_backtrader.py\<close>, and \<^verbatim>\<open>_spec_signal\<close>, the evaluators of the five hand-written
  strategies and \<^verbatim>\<open>evaluate_strategies\<close> of \<^verbatim>\<open>services/strategy_signal_evaluator.py\<close>.

  Closing prices are finite doubles.  \<^verbatim>\<open>**\<close> on floats is a parameter, as are the rolling mean, maximum and
  deviation of pandas.  The cache of validated specifications is left out: a hit returns what validating
  again would.  The text of a reason is one of its kinds.
\<close>

section \<open>Arithmetic with values that are no numbers\<close>

text \<open>
  Division by a divisor that is not zero, \<^verbatim>\<open>min\<close> and \<^verbatim>\<open>round(x, 4)\<close>.  As in the rest of the
  development a result beyond the largest double is kept as a number.
\<close>

fun fv_div :: "float_val \<Rightarrow> float_val \<Rightarrow> float_val" where
  "fv_div (Finite x) (Finite y) = Finite (fl (x / y))"
| "fv_div (Finite x) (Infinity neg) = Finite 0"
| "fv_div (Infinity neg) (Finite y) = Infinity (neg \<noteq> (y < 0))"
| "fv_div _ _ = Nan"

definition fv_min :: "float_val \<Rightarrow> float_val \<Rightarrow> float_val" where
  "fv_min x y = (if float_less y x then y else x)"

fun fv_round4 :: "float_val \<Rightarrow> float_val" where
  "fv_round4 (Finite x) = Finite (py_round 4 x)"
| "fv_round4 x = x"

text \<open>A finite positive double times a value.\<close>

fun fv_scale :: "rat \<Rightarrow> float_val \<Rightarrow> float_val" where
  "fv_scale a (Finite x) = Finite (fl (a * x))"
| "fv_scale a v = v"

section \<open>Sizing\<close>

definition VOL_SCALE_CAP :: float_val where
  "VOL_SCALE_CAP = Finite 2"

definition DEFAULT_INVERSE_VOL_REFERENCE :: rat where
  "DEFAULT_INVERSE_VOL_REFERENCE = fl (15 / 100)"

definition slot_weight :: "nat \<Rightarrow> rat" where
  "slot_weight universe_slots = fl (1 / of_nat (max 1 universe_slots))"

datatype live_error = Uncaught eval_error | Validator_type_error | Zero_division

definition sizing_realized_vol :: "(rat \<Rightarrow> rat \<Rightarrow> rat) \<Rightarrow> rat list \<Rightarrow> live_error + rat option" where
  "sizing_realized_vol pow closes =
     (if length closes \<le> 20 then Inr None
      else
        let newest = rev closes in
        if (\<exists>i \<in> set [0..<20]. newest ! Suc i = 0) then Inl Zero_division
        else
          let recent = map (\<lambda>i. fl (fl (newest ! i / newest ! Suc i) - 1)) [0..<20] in
          Inr (Some (fl (pow (fl (py_sum (map (\<lambda>r. pow r 2) recent) / of_nat (length recent))) (1 / 2) * pow 252 (1 / 2)))))"

definition inverse_vol_weight :: "rat \<Rightarrow> rat option \<Rightarrow> float_val \<Rightarrow> float_val" where
  "inverse_vol_weight slot realized_vol reference_vol_annual =
     (case realized_vol of
        None \<Rightarrow> Finite slot
      | Some vol \<Rightarrow>
          if vol \<le> 0 then Finite slot
          else fv_scale slot (fv_min (fv_div reference_vol_annual (Finite vol)) VOL_SCALE_CAP))"

section \<open>The signal of a specification\<close>

datatype live_reason =
    Spec_invalid dsl_error
  | Indicator_failed
  | Insufficient_data
  | No_decision_bar
  | Out_of_market
  | Volatility_target
  | Slot_sized
  | Fully_invested
  | Hand_written

record live_signal =
  lv_strategy_id :: string
  lv_asset :: string
  lv_signal :: signal_state
  lv_weight :: float_val
  lv_reason :: live_reason

definition flat_signal :: "string \<Rightarrow> string \<Rightarrow> live_reason \<Rightarrow> live_signal" where
  "flat_signal sid asset why =
     \<lparr>lv_strategy_id = sid, lv_asset = asset, lv_signal = FLAT, lv_weight = Finite 0, lv_reason = why\<rparr>"

text \<open>The number \<^verbatim>\<open>float(v)\<close> of a sizing field.\<close>

definition number_of :: "pyval \<Rightarrow> live_error + float_val" where
  "number_of v = map_sum Uncaught id (operand_value (\<lambda>_. None) v)"

definition sized_signal :: "string \<Rightarrow> string \<Rightarrow> float_val \<Rightarrow> live_reason \<Rightarrow> live_signal" where
  "sized_signal sid asset weight why =
     \<lparr>lv_strategy_id = sid, lv_asset = asset,
      lv_signal = (if float_le (Finite (fl (95 / 100))) weight then LONG else SCALED),
      lv_weight = fv_round4 weight, lv_reason = why\<rparr>"

fun py_falsy :: "pyval \<Rightarrow> bool" where
  "py_falsy PNone = True"
| "py_falsy (PBool b) = (\<not> b)"
| "py_falsy (PInt n) = (n = 0)"
| "py_falsy (PFloat x) = (x = Finite 0)"
| "py_falsy (PStr x) = (x = [])"
| "py_falsy (PList xs) = (xs = [])"
| "py_falsy (PDict d) = (d = [])"

text \<open>
  The weight of a position, from the closing prices up to the last decision.  \<open>vol22\<close> is
  \<^verbatim>\<open>_compute_indicator_value("realized_vol", 22, ...)\<close>.
\<close>

definition vol_target_weight :: "(rat list \<Rightarrow> float_val) \<Rightarrow> pyval \<Rightarrow> rat list \<Rightarrow> live_error + float_val" where
  "vol_target_weight vol22 annual_pct closes =
     (let vol = vol22 closes in
      if py_falsy annual_pct \<or> float_le vol (Finite 0) then Inr (Finite 1)
      else map_sum id (\<lambda>target. fv_min (fv_div target vol) (Finite 1)) (number_of annual_pct))"

definition slot_sized_weight ::
  "(rat \<Rightarrow> rat \<Rightarrow> rat) \<Rightarrow> string \<Rightarrow> (string \<times> pyval) list \<Rightarrow> nat \<Rightarrow> rat list \<Rightarrow> live_error + float_val" where
  "slot_sized_weight pow ps_type ps universe closes =
     (let slot = slot_weight (max 1 universe) in
      if ps_type = ''equal_weight'' then Inr (fv_min (Finite slot) (Finite 1))
      else
        case (if py_falsy (field_of ps ''reference_vol_annual'') then Inr (Finite DEFAULT_INVERSE_VOL_REFERENCE)
              else number_of (field_of ps ''reference_vol_annual'')) of
          Inl e \<Rightarrow> Inl e
        | Inr reference \<Rightarrow>
            map_sum id (\<lambda>vol. fv_min (inverse_vol_weight slot vol reference) (Finite 1))
              (sizing_realized_vol pow closes))"

definition position_weight ::
  "(rat \<Rightarrow> rat \<Rightarrow> rat) \<Rightarrow> (rat list \<Rightarrow> float_val) \<Rightarrow> strategy_spec \<Rightarrow> string \<Rightarrow> string \<Rightarrow> rat list \<Rightarrow>
     live_error + live_signal" where
  "position_weight pow vol22 s sid asset decision_prices =
     (let ps = sp_position_sizing s in
      case field_of ps ''type'' of
        PStr ps_type \<Rightarrow>
          if ps_type = ''volatility_target''
          then map_sum id (\<lambda>w. sized_signal sid asset w Volatility_target)
                 (vol_target_weight vol22 (field_of ps ''annual_pct'') decision_prices)
          else if ps_type = ''equal_weight'' \<or> ps_type = ''inverse_vol''
          then map_sum id (\<lambda>w. sized_signal sid asset w Slot_sized)
                 (slot_sized_weight pow ps_type ps (length (sp_asset_universe s)) decision_prices)
          else Inr \<lparr>lv_strategy_id = sid, lv_asset = asset, lv_signal = LONG, lv_weight = Finite 1, lv_reason = Fully_invested\<rparr>
      | _ \<Rightarrow> Inr \<lparr>lv_strategy_id = sid, lv_asset = asset, lv_signal = LONG, lv_weight = Finite 1, lv_reason = Fully_invested\<rparr>)"

definition spec_signal ::
  "(rat \<Rightarrow> rat \<Rightarrow> rat) \<Rightarrow> (rat list \<Rightarrow> float_val) \<Rightarrow> (nat \<Rightarrow> bar) \<Rightarrow> string \<Rightarrow> string \<Rightarrow> rat list \<Rightarrow> pyval \<Rightarrow>
     live_error + live_signal" where
  "spec_signal pow vol22 inds sid asset prices spec_dict =
     (case validate_strategy_spec spec_dict of
        Inl Unhashable_value \<Rightarrow> Inl Validator_type_error
      | Inl e \<Rightarrow> Inr (flat_signal sid asset (Spec_invalid e))
      | Inr s \<Rightarrow>
          let max_period = live_warmup (sp_indicators s) in
          if int (length prices) < max_period + 1 \<or> length prices < 2
          then Inr (flat_signal sid asset Insufficient_data)
          else
            case replay_position_state s (\<lambda>t. live_bar (Finite (prices ! t)) (inds t)) (length prices) (nat max_period) of
              Inl Eval_unknown_operator \<Rightarrow> Inr (flat_signal sid asset Indicator_failed)
            | Inl e \<Rightarrow> Inl (Uncaught e)
            | Inr r \<Rightarrow>
                (case pr_decision_index r of
                   None \<Rightarrow> Inr (flat_signal sid asset No_decision_bar)
                 | Some t \<Rightarrow>
                     if \<not> pr_in_market r then Inr (flat_signal sid asset Out_of_market)
                     else position_weight pow vol22 s sid asset (take (t + 1) prices)))"

section \<open>The hand-written strategies\<close>

text \<open>
  What they take from pandas: the mean and the maximum of the last prices, and the annualised deviation
  of the last returns.
\<close>

record pandas =
  roll_mean :: "nat \<Rightarrow> rat list \<Rightarrow> rat"
  roll_max :: "nat \<Rightarrow> rat list \<Rightarrow> rat"
  return_vol :: "nat \<Rightarrow> rat list \<Rightarrow> rat"

definition hand_signal :: "string \<Rightarrow> string \<Rightarrow> signal_state \<Rightarrow> rat \<Rightarrow> live_signal" where
  "hand_signal sid asset st w =
     \<lparr>lv_strategy_id = sid, lv_asset = asset, lv_signal = st, lv_weight = Finite w, lv_reason = Hand_written\<rparr>"

definition faber_sma200_signal :: "pandas \<Rightarrow> string \<Rightarrow> string \<Rightarrow> rat list \<Rightarrow> live_error + live_signal" where
  "faber_sma200_signal pd sid asset prices =
     Inr (if length prices < 201 then hand_signal sid asset FLAT 0
          else if roll_mean pd 200 prices < last prices then hand_signal sid asset LONG 1
          else hand_signal sid asset FLAT 0)"

text \<open>The returns that are numbers: only zero over zero is none.\<close>

definition defined_returns :: "rat list \<Rightarrow> nat" where
  "defined_returns prices =
     length (filter (\<lambda>(p, q). \<not> (p = 0 \<and> q = 0)) (zip prices (tl prices)))"

definition vol_managed_signal :: "pandas \<Rightarrow> rat \<Rightarrow> string \<Rightarrow> string \<Rightarrow> rat list \<Rightarrow> live_error + live_signal" where
  "vol_managed_signal pd target_vol_annual sid asset prices =
     Inr (if length prices < 23 then hand_signal sid asset SCALED (1 / 2)
          else if min 22 (defined_returns prices) < 2 then hand_signal sid asset SCALED (1 / 2)
          else
            let realized_vol = return_vol pd 22 prices in
            if realized_vol \<le> 0 then hand_signal sid asset LONG 1
            else
              let exposure = min (fl (target_vol_annual / realized_vol)) 1 in
              hand_signal sid asset (if fl (95 / 100) \<le> exposure then LONG else SCALED) exposure)"

definition tsmom_signal :: "string \<Rightarrow> string \<Rightarrow> rat list \<Rightarrow> live_error + live_signal" where
  "tsmom_signal sid asset prices =
     (if length prices < 253 then Inr (hand_signal sid asset FLAT 0)
      else
        let current_price = last prices; past_price = prices ! (length prices - 253) in
        if past_price = 0 then Inl Zero_division
        else if 0 < fl (fl (current_price / past_price) - 1) then Inr (hand_signal sid asset LONG 1)
        else Inr (hand_signal sid asset FLAT 0))"

definition high_52w_signal :: "pandas \<Rightarrow> string \<Rightarrow> string \<Rightarrow> rat list \<Rightarrow> live_error + live_signal" where
  "high_52w_signal pd sid asset prices =
     Inr (if length prices < 252 then hand_signal sid asset FLAT 0
          else
            let high_52w = roll_max pd 252 prices;
                proximity = (if 0 < high_52w then fl (last prices / high_52w) else 0) in
            if fl (95 / 100) \<le> proximity then hand_signal sid asset LONG proximity
            else hand_signal sid asset FLAT 0)"

definition buy_hold_signal :: "string \<Rightarrow> string \<Rightarrow> rat list \<Rightarrow> live_error + live_signal" where
  "buy_hold_signal sid asset prices = Inr (hand_signal sid asset LONG 1)"

datatype evaluator = Faber_sma200 | Vol_managed | Tsmom | High_52w | Buy_hold

definition STRATEGY_EVALUATORS :: "(string \<times> evaluator) list" where
  "STRATEGY_EVALUATORS =
     [(''Faber'', Faber_sma200), (''SMA200'', Faber_sma200), (''Volatility'', Vol_managed),
      (''Vol-Managed'', Vol_managed), (''Time Series Momentum'', Tsmom), (''TSMOM'', Tsmom),
      (''52-Week'', High_52w), (''George'', High_52w), (''Hwang'', High_52w), (''Buy-and-Hold'', Buy_hold)]"

definition get_evaluator :: "string \<Rightarrow> string option \<Rightarrow> evaluator" where
  "get_evaluator strategy_name strategy_code_path =
     (let combined = py_lower strategy_name @ '' '' @ py_lower (or_empty strategy_code_path) in
      case find (\<lambda>(keyword, _). contains (py_lower keyword) combined) STRATEGY_EVALUATORS of
        None \<Rightarrow> Buy_hold
      | Some (_, ev) \<Rightarrow> ev)"

fun run_evaluator :: "pandas \<Rightarrow> evaluator \<Rightarrow> string \<Rightarrow> string \<Rightarrow> rat list \<Rightarrow> live_error + live_signal" where
  "run_evaluator pd Faber_sma200 sid asset prices = faber_sma200_signal pd sid asset prices"
| "run_evaluator pd Vol_managed sid asset prices = vol_managed_signal pd (fl (15 / 100)) sid asset prices"
| "run_evaluator pd Tsmom sid asset prices = tsmom_signal sid asset prices"
| "run_evaluator pd High_52w sid asset prices = high_52w_signal pd sid asset prices"
| "run_evaluator pd Buy_hold sid asset prices = buy_hold_signal sid asset prices"

section \<open>Evaluating the strategies\<close>

record live_strategy =
  st_id :: string
  st_paper_title :: string
  st_code_path :: "string option"
  st_asset_universe :: "string list"
  st_spec :: "pyval option"

record live_signals =
  lss_strategy_id :: string
  lss_signals :: "live_signal list"

text \<open>
  Everything outside the module: the exponentiation, pandas, the scalar volatility, and the indicator
  values of an asset.
\<close>

record live_env =
  le_pow :: "rat \<Rightarrow> rat \<Rightarrow> rat"
  le_pandas :: pandas
  le_vol22 :: "rat list \<Rightarrow> float_val"
  le_indicators :: "string \<Rightarrow> nat \<Rightarrow> bar"

type_synonym histories = "(string \<times> rat list) list"

fun dedup_known :: "(string \<Rightarrow> string option) \<Rightarrow> histories \<Rightarrow> string list \<Rightarrow> string list \<Rightarrow> string list" where
  "dedup_known synth_map hist [] acc = acc"
| "dedup_known synth_map hist (ticker # rest) acc =
     (case synth_map ticker of
        None \<Rightarrow> dedup_known synth_map hist rest acc
      | Some synth \<Rightarrow>
          dedup_known synth_map hist rest
            (if synth \<noteq> [] \<and> map_of hist synth \<noteq> None \<and> synth \<notin> set acc then acc @ [synth] else acc))"

definition strategy_synths ::
  "(string \<Rightarrow> string option) \<Rightarrow> string list \<Rightarrow> histories \<Rightarrow> bool \<Rightarrow> live_strategy \<Rightarrow> string list" where
  "strategy_synths synth_map synth_assets hist scan_full_universe st =
     (if scan_full_universe then filter (\<lambda>x. map_of hist x \<noteq> None) synth_assets
      else
        let named = dedup_known synth_map hist (st_asset_universe st) [] in
        if named = [] then map fst hist else named)"

definition evaluate_asset :: "live_env \<Rightarrow> live_strategy \<Rightarrow> string \<Rightarrow> rat list \<Rightarrow> live_error + live_signal" where
  "evaluate_asset E st asset prices =
     (case st_spec st of
        Some (PDict (kv # d)) \<Rightarrow>
          spec_signal (le_pow E) (le_vol22 E) (le_indicators E asset) (st_id st) asset prices (PDict (kv # d))
      | _ \<Rightarrow> run_evaluator (le_pandas E) (get_evaluator (st_paper_title st) (st_code_path st)) (st_id st) asset prices)"

fun evaluate_assets :: "live_env \<Rightarrow> live_strategy \<Rightarrow> histories \<Rightarrow> string list \<Rightarrow> live_error + live_signal list" where
  "evaluate_assets E st hist [] = Inr []"
| "evaluate_assets E st hist (asset # rest) =
     (case map_of hist asset of
        None \<Rightarrow> evaluate_assets E st hist rest
      | Some [] \<Rightarrow> evaluate_assets E st hist rest
      | Some prices \<Rightarrow>
          (case evaluate_asset E st asset prices of
             Inl e \<Rightarrow> Inl e
           | Inr sig \<Rightarrow> map_sum id (\<lambda>sigs. sig # sigs) (evaluate_assets E st hist rest)))"

fun evaluate_each ::
  "live_env \<Rightarrow> (string \<Rightarrow> string option) \<Rightarrow> string list \<Rightarrow> histories \<Rightarrow> bool \<Rightarrow> live_strategy list \<Rightarrow>
     live_error + live_signals list" where
  "evaluate_each E synth_map synth_assets hist full [] = Inr []"
| "evaluate_each E synth_map synth_assets hist full (st # rest) =
     (case evaluate_assets E st hist (strategy_synths synth_map synth_assets hist full st) of
        Inl e \<Rightarrow> Inl e
      | Inr sigs \<Rightarrow>
          map_sum id (\<lambda>out. if sigs = [] then out else \<lparr>lss_strategy_id = st_id st, lss_signals = sigs\<rparr> # out)
            (evaluate_each E synth_map synth_assets hist full rest))"

definition evaluate_strategies ::
  "live_env \<Rightarrow> (string \<Rightarrow> string option) \<Rightarrow> live_strategy list \<Rightarrow> string list \<Rightarrow> histories \<Rightarrow> bool \<Rightarrow>
     live_error + live_signals list" where
  "evaluate_strategies E synth_map strategies synth_assets price_histories scan_full_universe =
     (if price_histories = [] then Inr []
      else evaluate_each E synth_map synth_assets price_histories scan_full_universe strategies)"

section \<open>The signal and the backtest\<close>

definition last_decision :: "string \<Rightarrow> nat \<Rightarrow> nat \<Rightarrow> nat" where
  "last_decision frequency w n =
     w + (n - 1 - w) div rebalance_period_bars frequency * rebalance_period_bars frequency"

lemma decision_after_step:
  "replay_step s bars w t r = Inr r' \<Longrightarrow>
     pr_decision_index r' = (if on_cadence (sp_rebalance_frequency s) (t - w) then Some t else pr_decision_index r)"
  by (cases "eval_condition (bars t) (if pr_in_market r then sp_exit s else sp_entry s)")
     (auto simp: replay_step_cadence Let_def split: if_splits)

lemma decision_index:
  "w < n \<Longrightarrow> replay_loop s bars w [w..<n] r0 = Inr r \<Longrightarrow>
     pr_decision_index r = Some (last_decision (sp_rebalance_frequency s) w n)"
proof (induction n arbitrary: r)
  case (Suc n)
  let ?p = "rebalance_period_bars (sp_rebalance_frequency s)"
  from Suc.prems obtain r' where r': "replay_loop s bars w [w..<n] r0 = Inr r'" "replay_step s bars w n r' = Inr r"
    by (auto simp: replay_loop_append split: sum.splits if_splits)
  note d = decision_after_step [OF r'(2)]
  show ?case
  proof (cases "n = w")
    case True
    with d show ?thesis by (simp add: on_cadence_def last_decision_def)
  next
    case False
    with Suc.prems(1) have n: "w < n" "n - w = Suc (n - 1 - w)" by simp_all
    have "(n - w) div ?p * ?p = n - w" if "(n - w) mod ?p = 0"
      using that div_mult_mod_eq [of "n - w" ?p] by simp
    moreover have "(n - w) div ?p = (n - 1 - w) div ?p" if "(n - w) mod ?p \<noteq> 0"
      using that unfolding n(2) by (simp add: div_Suc mod_Suc split: if_splits)
    ultimately show ?thesis
      using d Suc.IH [OF n(1) r'(1)] n(1) by (simp add: on_cadence_def last_decision_def)
  qed
qed simp

lemma position_weight_held: "position_weight pow vol22 s sid asset ps = Inr sig \<Longrightarrow> lv_signal sig \<noteq> FLAT"
  by (auto simp: position_weight_def sized_signal_def Let_def map_sum_def split: pyval.splits if_splits sum.splits)

lemma validated_no_unhashable: "validate_strategy_spec v = Inr s \<Longrightarrow> spec_signal pow vol22 inds sid asset prices v =
   (let max_period = live_warmup (sp_indicators s) in
    if int (length prices) < max_period + 1 \<or> length prices < 2 then Inr (flat_signal sid asset Insufficient_data)
    else
      case replay_position_state s (\<lambda>t. live_bar (Finite (prices ! t)) (inds t)) (length prices) (nat max_period) of
        Inl Eval_unknown_operator \<Rightarrow> Inr (flat_signal sid asset Indicator_failed)
      | Inl e \<Rightarrow> Inl (Uncaught e)
      | Inr r \<Rightarrow>
          (case pr_decision_index r of
             None \<Rightarrow> Inr (flat_signal sid asset No_decision_bar)
           | Some t \<Rightarrow>
               if \<not> pr_in_market r then Inr (flat_signal sid asset Out_of_market)
               else position_weight pow vol22 s sid asset (take (t + 1) prices)))"
  by (simp add: spec_signal_def)

text \<open>
  C5: the live signal is the position of the backtest, on the ground that the two share.  Take a validated specification
  whose longest indicator is not a realized volatility and whose conditions read no price but the close, the same values of
  the indicators and the same closes on both sides, a broker that fills every order, and more prices than the warm-up of the
  indicators.  Then the signal is flat exactly when the backtest is out of the market after the same bars,
  and otherwise it is the position sized on the prices up to the last bar of the cadence; an error of the
  conditions surfaces on both sides.  Without these conditions the two can differ; the theorems on the volume, the phase of the
  volatility and the respelled operand show where.
\<close>

theorem live_signal_follows_backtest:
  assumes "validate_strategy_spec v = Inr s" and "vol_not_longest (sp_indicators s)" and "fills broker"
    and "closes_only (sp_entry s)" and "closes_only (sp_exit s)"
    and "\<forall>t. ohlcv t ''close'' = Some (Finite (prices ! t))"
    and "live_warmup (sp_indicators s) < int (length prices)" and "2 \<le> length prices"
  shows "spec_signal pow vol22 inds sid asset prices v =
         (case run_backtest broker s (\<lambda>t. backtest_bar (ohlcv t) (inds t)) (length prices) of
            Inl e \<Rightarrow>
              if e = Eval_unknown_operator then Inr (flat_signal sid asset Indicator_failed) else Inl (Uncaught e)
          | Inr in_market \<Rightarrow>
              if in_market
              then position_weight pow vol22 s sid asset
                     (take (Suc (last_decision (sp_rebalance_frequency s) (nat (live_warmup (sp_indicators s))) (length prices)))
                       prices)
              else Inr (flat_signal sid asset Out_of_market))"
proof -
  let ?w = "nat (live_warmup (sp_indicators s))"
  let ?replay = "replay_position_state s (\<lambda>t. live_bar (Finite (prices ! t)) (inds t)) (length prices) ?w"
  have "0 \<le> live_warmup (sp_indicators s)" by (rule warmups_agree(2) [OF validated_indicators [OF assms(1)] assms(2)])
  with assms(7) have w: "?w < length prices" by simp
  have bt: "run_backtest broker s (\<lambda>t. backtest_bar (ohlcv t) (inds t)) (length prices) = map_sum id pr_in_market ?replay"
    by (rule replay_matches) (rule assms)+
  show ?thesis
  proof (cases ?replay)
    case (Inl e)
    then show ?thesis
      using assms(7,8) unfolding validated_no_unhashable [OF assms(1)] bt by (cases e) (simp_all add: Let_def)
  next
    case (Inr r)
    then have "pr_decision_index r = Some (last_decision (sp_rebalance_frequency s) ?w (length prices))"
      unfolding replay_position_state_def by (rule decision_index [OF w])
    with Inr show ?thesis
      using assms(7,8) unfolding validated_no_unhashable [OF assms(1)] bt by (simp add: Let_def)
  qed
qed

definition two_hundred_five :: "rat list" where
  "two_hundred_five = replicate 205 1"

theorem live_signal_follows_backtest_witness:
  "spec_signal (\<lambda>x y. x) (\<lambda>_. Finite 1) (\<lambda>t. faber_bar) ''s'' ''sSPY'' two_hundred_five (PDict FABER_2007_SPEC) =
   (case run_backtest filling_broker faber_spec (\<lambda>t. backtest_bar (\<lambda>x. Some (Finite (two_hundred_five ! t))) faber_bar) 205 of
      Inl e \<Rightarrow> if e = Eval_unknown_operator then Inr (flat_signal ''s'' ''sSPY'' Indicator_failed) else Inl (Uncaught e)
    | Inr in_market \<Rightarrow>
        if in_market
        then position_weight (\<lambda>x y. x) (\<lambda>_. Finite 1) faber_spec ''s'' ''sSPY''
               (take (Suc (last_decision (sp_rebalance_frequency faber_spec) (nat (live_warmup (sp_indicators faber_spec))) 205))
                 two_hundred_five)
        else Inr (flat_signal ''s'' ''sSPY'' Out_of_market))"
proof -
  have len: "length two_hundred_five = 205" by (simp add: two_hundred_five_def)
  have w: "live_warmup (sp_indicators faber_spec) = 200" by code_simp
  show ?thesis
    unfolding len [symmetric]
    by (rule live_signal_follows_backtest [OF faber_valid _ filling_broker_fills]; (simp add: len w)?) code_simp+
qed

section \<open>Weights\<close>

lemma slot_weight_double: "fl (slot_weight n) = slot_weight n"
  by (simp add: slot_weight_def fl_idem)

lemma slot_weight_bounds: "0 \<le> slot_weight n" "slot_weight n \<le> 1"
proof -
  have "(1 :: rat) / of_nat (max 1 n) \<le> 1" by (simp add: divide_le_eq)
  from fl_mono [OF this] show "slot_weight n \<le> 1" by (simp add: slot_weight_def)
  show "0 \<le> slot_weight n" by (simp add: slot_weight_def fl_sign)
qed

lemma fl_two [simp]: "fl 2 = 2"
  using fl_exact [of 1 1] by simp

lemma scale_double: "fv_scale 1 (fv_min (fv_div r v) VOL_SCALE_CAP) = fv_min (fv_div r v) VOL_SCALE_CAP"
  by (cases r; cases v) (simp_all add: fv_min_def VOL_SCALE_CAP_def fl_idem)

text \<open>
  Sizing by inverse volatility does not depend on how the universe was split.  The weight in a slot of a
  universe of any size is that slot times the weight in a universe of one, cap and fallbacks included.
\<close>

theorem inverse_vol_slot_invariant:
  "inverse_vol_weight (slot_weight n) vol reference =
   fv_scale (slot_weight n) (inverse_vol_weight (slot_weight 1) vol reference)"
proof -
  have one: "slot_weight 1 = 1" by (simp add: slot_weight_def)
  show ?thesis
    unfolding one by (cases vol) (simp_all add: inverse_vol_weight_def scale_double slot_weight_double)
qed

text \<open>A weight that can be traded: a number between 0 and 1.\<close>

fun unit_weight :: "float_val \<Rightarrow> bool" where
  "unit_weight (Finite w) = (0 \<le> w \<and> w \<le> 1)"
| "unit_weight _ = False"

text \<open>A size that the validator accepts and that is a number, infinite or not.\<close>

fun positive_size :: "float_val \<Rightarrow> bool" where
  "positive_size (Finite x) = (0 \<le> x)"
| "positive_size (Infinity neg) = (\<not> neg)"
| "positive_size Nan = False"

lemma number_positive:
  "is_number v \<Longrightarrow> \<not> not_positive v \<Longrightarrow> v \<noteq> PFloat Nan \<Longrightarrow> number_of v = Inr x \<Longrightarrow> positive_size x"
proof (cases v)
  case (PFloat f)
  assume "\<not> not_positive v" "v \<noteq> PFloat Nan" "number_of v = Inr x"
  with PFloat show ?thesis by (cases f) (auto simp: number_of_def)
qed (auto simp: number_of_def fl_sign split: if_splits)

lemma min_one: "positive_size x \<Longrightarrow> unit_weight (fv_min x (Finite 1))"
  by (cases x) (auto simp: fv_min_def)

lemma div_positive: "positive_size x \<Longrightarrow> 0 < y \<Longrightarrow> positive_size (fv_div x (Finite y))"
  by (cases x) (auto simp: fl_sign)

lemma min_cap_positive: "positive_size x \<Longrightarrow> positive_size (fv_min x VOL_SCALE_CAP)"
  by (cases x) (auto simp: fv_min_def VOL_SCALE_CAP_def)

lemma scale_positive: "positive_size x \<Longrightarrow> 0 \<le> a \<Longrightarrow> positive_size (fv_scale a x)"
  by (cases x) (auto simp: fl_sign)

lemma inverse_vol_positive: "positive_size r \<Longrightarrow> 0 \<le> slot \<Longrightarrow> positive_size (inverse_vol_weight slot vol r)"
  by (auto simp: inverse_vol_weight_def intro!: scale_positive min_cap_positive div_positive split: option.splits)

lemma round_unit: "unit_weight w \<Longrightarrow> unit_weight (fv_round4 w)"
proof (cases w)
  case (Finite x)
  assume "unit_weight w"
  with Finite have x: "0 \<le> x" "x \<le> 1" by simp_all
  have "rne (x * 10 ^ 4) \<le> rne (of_int (10 ^ 4))" "rne (of_int 0) \<le> rne (x * 10 ^ 4)"
    using x by (intro rne_mono, simp)+
  then have "0 \<le> (of_int (rne (x * 10 ^ 4)) :: rat)" "of_int (rne (x * 10 ^ 4)) \<le> (10000 :: rat)"
    unfolding rne_of_int by (simp_all add: of_int_le_iff [of _ 10000, symmetric])
  then have "0 \<le> py_round 4 x" "py_round 4 x \<le> fl 1"
    unfolding py_round_def by (intro fl_sign fl_mono; simp add: divide_le_eq)+
  with Finite show ?thesis by simp
qed simp_all

lemma sized_unit: "unit_weight w \<Longrightarrow> unit_weight (lv_weight (sized_signal sid asset w why))"
  by (simp add: sized_signal_def round_unit)

lemma validated_sizing:
  assumes "validate_strategy_spec v = Inr s"
  shows "check_sizing (PDict (sp_position_sizing s)) = Inr (sp_position_sizing s)"
proof -
  from assms obtain d where "check_sizing (field_of d ''position_sizing'') = Inr (sp_position_sizing s)"
    by (auto simp: validate_strategy_spec_def and_then_Inr split: pyval.splits if_splits)
  with check_sizing_roundtrip [OF this] show ?thesis by simp
qed

lemma checked_annual_pct:
  assumes "check_sizing (PDict ps) = Inr ps" and "field_of ps ''type'' = PStr ''volatility_target''"
  shows "is_number (field_of ps ''annual_pct'')" "\<not> not_positive (field_of ps ''annual_pct'')"
  using assms by (auto simp: check_sizing_def split: option.splits if_splits)

lemma checked_reference:
  assumes "check_sizing (PDict ps) = Inr ps" and "field_of ps ''type'' = PStr ''inverse_vol''"
    and "field_of ps ''reference_vol_annual'' \<noteq> PNone"
  shows "is_number (field_of ps ''reference_vol_annual'')" "\<not> not_positive (field_of ps ''reference_vol_annual'')"
proof -
  have "''reference_vol_annual'' \<in> fst ` set ps"
    using assms(3) by (auto simp: field_of_def split: option.splits dest: map_of_SomeD) (force dest: map_of_SomeD)
  with assms(1,2) show "is_number (field_of ps ''reference_vol_annual'')"
    "\<not> not_positive (field_of ps ''reference_vol_annual'')"
    by (auto simp: check_sizing_def split: option.splits if_splits pyval.splits)
qed

definition finite_sizes :: "(string \<times> pyval) list \<Rightarrow> bool" where
  "finite_sizes ps \<longleftrightarrow> field_of ps ''annual_pct'' \<noteq> PFloat Nan \<and> field_of ps ''reference_vol_annual'' \<noteq> PFloat Nan"

lemma vol_target_unit:
  assumes "check_sizing (PDict ps) = Inr ps" and "field_of ps ''type'' = PStr ''volatility_target''"
    and "finite_sizes ps" and "vol22 closes = Finite x" and "vol_target_weight vol22 (field_of ps ''annual_pct'') closes = Inr w"
  shows "unit_weight w"
proof (cases "py_falsy (field_of ps ''annual_pct'') \<or> x \<le> 0")
  case True
  with assms(4,5) show ?thesis by (auto simp: vol_target_weight_def float_le_def)
next
  case False
  with assms(4,5) obtain target where n: "number_of (field_of ps ''annual_pct'') = Inr target"
    and w: "w = fv_min (fv_div target (Finite x)) (Finite 1)"
    by (auto simp: vol_target_weight_def float_le_def map_sum_def split: sum.splits)
  have "positive_size target"
    using number_positive [OF checked_annual_pct [OF assms(1,2)] _ n] assms(3) by (simp add: finite_sizes_def)
  with False show ?thesis unfolding w by (intro min_one div_positive) simp_all
qed

lemma slot_sized_unit:
  assumes "check_sizing (PDict ps) = Inr ps" and "field_of ps ''type'' = PStr ty"
    and "ty = ''equal_weight'' \<or> ty = ''inverse_vol''"
    and "finite_sizes ps" and "slot_sized_weight pow ty ps n closes = Inr w"
  shows "unit_weight w"
proof (cases "ty = ''equal_weight''")
  case True
  with assms(5) slot_weight_bounds [of "max 1 n"] show ?thesis
    by (auto simp: slot_sized_weight_def Let_def intro!: min_one)
next
  case False
  let ?r = "field_of ps ''reference_vol_annual''"
  from False assms(3) have ty: "ty = ''inverse_vol''" by simp
  from False assms(5) obtain r vol where
    r: "(if py_falsy ?r then Inr (Finite DEFAULT_INVERSE_VOL_REFERENCE) else number_of ?r) = Inr r"
    and w: "w = fv_min (inverse_vol_weight (slot_weight (max 1 n)) vol r) (Finite 1)"
    by (auto simp: slot_sized_weight_def Let_def map_sum_def split: sum.splits)
  have "positive_size r"
  proof (cases "py_falsy ?r")
    case True
    with r show ?thesis by (auto simp: DEFAULT_INVERSE_VOL_REFERENCE_def fl_sign)
  next
    case False
    then have "?r \<noteq> PNone" by auto
    with False r number_positive [OF checked_reference [OF assms(1)]] assms(2,4) ty show ?thesis
      by (auto simp: finite_sizes_def)
  qed
  then show ?thesis unfolding w
    by (intro min_one inverse_vol_positive) (simp_all add: slot_weight_bounds)
qed

lemma position_weight_unit:
  assumes "check_sizing (PDict (sp_position_sizing s)) = Inr (sp_position_sizing s)" and "finite_sizes (sp_position_sizing s)"
    and "\<And>ps. \<exists>x. vol22 ps = Finite x" and sig: "position_weight pow vol22 s sid asset closes = Inr sig"
  shows "unit_weight (lv_weight sig)"
proof -
  let ?ps = "sp_position_sizing s"
  consider ty where "field_of ?ps ''type'' = PStr ty" "ty = ''volatility_target''"
    | ty where "field_of ?ps ''type'' = PStr ty" "ty = ''equal_weight'' \<or> ty = ''inverse_vol''"
    | "lv_weight sig = Finite 1"
    using sig by (auto simp: position_weight_def Let_def map_sum_def split: pyval.splits if_splits sum.splits)
  then show ?thesis
  proof cases
    case 1
    from assms(3) obtain x where x: "vol22 closes = Finite x" by blast
    from 1 sig obtain w where "vol_target_weight vol22 (field_of ?ps ''annual_pct'') closes = Inr w"
      and s: "sig = sized_signal sid asset w Volatility_target"
      by (auto simp: position_weight_def Let_def map_sum_def split: sum.splits)
    from vol_target_unit [OF assms(1) _ assms(2) x this(1)] 1 show ?thesis unfolding s by (simp add: sized_unit)
  next
    case 2
    then have ne: "ty \<noteq> ''volatility_target''" by auto
    from 2 ne sig obtain w where "slot_sized_weight pow ty ?ps (length (sp_asset_universe s)) closes = Inr w"
      and s: "sig = sized_signal sid asset w Slot_sized"
      by (auto simp: position_weight_def Let_def map_sum_def split: sum.splits if_splits)
    from slot_sized_unit [OF assms(1) 2 assms(2) this(1)] show ?thesis unfolding s by (rule sized_unit)
  qed simp
qed

text \<open>
  A live weight is a fraction of the portfolio.  Whatever the specification, the prices and the
  indicators, a signal carries a number between 0 and 1, never a leveraged or a negative one, as long as
  the volatility estimate is a number and so are the sizes the specification names.
\<close>

theorem live_weight_bounds:
  assumes "spec_signal pow vol22 inds sid asset prices v = Inr sig"
    and "\<forall>ps. \<exists>x. vol22 ps = Finite x"
    and "\<forall>s. validate_strategy_spec v = Inr s \<longrightarrow> finite_sizes (sp_position_sizing s)"
  shows "unit_weight (lv_weight sig)"
proof (cases "validate_strategy_spec v")
  case (Inl e)
  with assms(1) show ?thesis by (cases e) (auto simp: spec_signal_def flat_signal_def)
next
  case (Inr s)
  note u = position_weight_unit [OF validated_sizing [OF Inr], of vol22 pow sid asset _ sig]
  from assms(1) show ?thesis
    unfolding validated_no_unhashable [OF Inr]
    using u assms(2,3) Inr
    by (auto simp: Let_def flat_signal_def split: if_splits sum.splits eval_error.splits option.splits)
qed

lemma two_prices_flat:
  "spec_signal (\<lambda>x y. x) (\<lambda>_. Finite 1) (\<lambda>t. faber_bar) ''s'' ''sSPY'' [1, 1] (PDict FABER_2007_SPEC) =
   Inr (flat_signal ''s'' ''sSPY'' Insufficient_data)"
  unfolding validated_no_unhashable [OF faber_valid] by code_simp

theorem live_weight_bounds_witness:
  "unit_weight (lv_weight (flat_signal ''s'' ''sSPY'' Insufficient_data))"
proof (rule live_weight_bounds [OF two_prices_flat])
  show "\<forall>ps :: rat list. \<exists>x. Finite 1 = Finite x" by simp
  show "\<forall>s. validate_strategy_spec (PDict FABER_2007_SPEC) = Inr s \<longrightarrow> finite_sizes (sp_position_sizing s)"
    unfolding faber_valid by (simp add: faber_spec_def finite_sizes_def field_of_def)
qed

section \<open>Where a weight is no number, and where nothing is returned\<close>

definition VOL_MANAGED_SPEC :: "(string \<times> pyval) list" where
  "VOL_MANAGED_SPEC =
     [(''name'', PStr ''Volatility-Managed Portfolio''), (''asset_universe'', PList [PStr ''SPY'']),
      (''rebalance_frequency'', PStr ''daily''),
      (''entry'', PDict [(''gt'', PList [PStr ''close'', PInt 0])]),
      (''exit'', PDict [(''and'', PList [PDict [(''lt'', PList [PStr ''close'', PInt 0])],
                                         PDict [(''lt'', PList [PStr ''close'', PInt 0])]])]),
      (''position_sizing'', PDict [(''type'', PStr ''volatility_target''), (''annual_pct'', PFloat (Finite (fl (15 / 100))))]),
      (''source_arxiv_ids'', PList [PStr ''1704.03022''])]"

definition vol_managed_spec :: strategy_spec where
  "vol_managed_spec =
     \<lparr>sp_name = ''Volatility-Managed Portfolio'', sp_asset_universe = [''SPY''], sp_rebalance_frequency = ''daily'',
      sp_entry = PDict [(''gt'', PList [PStr ''close'', PInt 0])],
      sp_exit = PDict [(''and'', PList [PDict [(''lt'', PList [PStr ''close'', PInt 0])],
                                        PDict [(''lt'', PList [PStr ''close'', PInt 0])]])],
      sp_position_sizing = [(''type'', PStr ''volatility_target''), (''annual_pct'', PFloat (Finite (fl (15 / 100))))],
      sp_source_arxiv_ids = [''1704.03022''], sp_indicators = [], sp_parameter_variants = None\<rparr>"

lemma vol_managed_valid: "validate_strategy_spec (PDict VOL_MANAGED_SPEC) = Inr vol_managed_spec"
  by code_simp

lemma close_above_zero:
  assumes "0 < q"
  shows "eval_condition (live_bar (Finite q) (\<lambda>x. None)) (PDict [(''gt'', PList [PStr ''close'', PInt 0])]) = Inr True"
    and "eval_condition (live_bar (Finite q) (\<lambda>x. None)) (PDict [(''lt'', PList [PStr ''close'', PInt 0])]) = Inr False"
proof -
  have "\<not> (2 :: int) ^ 1024 - 2 ^ 970 \<le> \<bar>0\<bar>" by simp
  then show "eval_condition (live_bar (Finite q) (\<lambda>x. None)) (PDict [(''gt'', PList [PStr ''close'', PInt 0])]) = Inr True"
    "eval_condition (live_bar (Finite q) (\<lambda>x. None)) (PDict [(''lt'', PList [PStr ''close'', PInt 0])]) = Inr False"
    using assms by (simp_all add: live_bar_def compare_def)
qed

text \<open>
  The reference strategy for volatility targeting gets no weight on two prices.  One return has no
  deviation, pandas answers NaN for it, and the signal is a scaled position whose weight is NaN.
\<close>

theorem short_window_weight_nan:
  assumes "\<forall>ps. length ps < 3 \<longrightarrow> vol22 ps = Nan" and "0 < p" and "0 < q"
  shows "spec_signal pow vol22 (\<lambda>t x. None) sid asset [p, q] (PDict VOL_MANAGED_SPEC) =
         Inr \<lparr>lv_strategy_id = sid, lv_asset = asset, lv_signal = SCALED, lv_weight = Nan, lv_reason = Volatility_target\<rparr>"
proof -
  have w: "live_warmup (sp_indicators vol_managed_spec) = 0" by code_simp
  have two: "[0..<2] = [0, 1 :: nat]" by code_simp
  have "fl (15 / 100) \<noteq> 0" by code_simp
  then show ?thesis
    using assms close_above_zero [OF assms(2)] close_above_zero [OF assms(3)]
    unfolding validated_no_unhashable [OF vol_managed_valid] w
    by (simp add: vol_managed_spec_def replay_position_state_def replay_step_def rebalance_period_bars_def two
      no_position_def position_weight_def field_of_def vol_target_weight_def float_le_def sized_signal_def
      number_of_def fv_min_def Let_def numeral_2_eq_2)
qed

theorem short_window_weight_nan_witness:
  "spec_signal (\<lambda>x y. x) (\<lambda>ps. if length ps < 3 then Nan else Finite 1) (\<lambda>t x. None) ''s'' ''sSPY'' [1, 1]
     (PDict VOL_MANAGED_SPEC) =
   Inr \<lparr>lv_strategy_id = ''s'', lv_asset = ''sSPY'', lv_signal = SCALED, lv_weight = Nan, lv_reason = Volatility_target\<rparr>"
  by (rule short_window_weight_nan) simp_all

lemma evaluate_assets_raises:
  assumes "map_of hist asset = Some (p # ps)" and "evaluate_asset E st asset (p # ps) = Inl e"
  shows "asset \<in> set assets \<Longrightarrow> \<exists>e'. evaluate_assets E st hist assets = Inl e'"
proof (induction assets)
  case (Cons a rest)
  then show ?case
    using assms by (cases "a = asset") (auto simp: map_sum_def split: option.splits list.splits sum.splits)
qed simp

lemma evaluate_each_raises:
  assumes "evaluate_assets E st hist (strategy_synths synth_map synth_assets hist full st) = Inl e"
  shows "st \<in> set strategies \<Longrightarrow> \<exists>e'. evaluate_each E synth_map synth_assets hist full strategies = Inl e'"
proof (induction strategies)
  case (Cons a rest)
  then show ?case
    using assms by (cases "a = st") (auto simp: map_sum_def split: sum.splits)
qed simp

definition respelled_spec :: "(string \<times> pyval) list" where
  "respelled_spec =
     [(''name'', PStr ''SMA-200 Tactical Allocation''), (''asset_universe'', PList [PStr ''SPY'']),
      (''rebalance_frequency'', PStr ''monthly''),
      (''entry'', above_sma ''sma_0200''),
      (''exit'', PDict [(''lt'', PList [PStr ''close'', PStr ''sma_200''])]),
      (''position_sizing'', PDict [(''type'', PStr ''full_invested_when_in_market'')]),
      (''source_arxiv_ids'', PList [PStr ''0706.1497''])]"

lemma respelled_valid:
  "validate_strategy_spec (PDict respelled_spec) = Inr (faber_spec\<lparr>sp_entry := above_sma ''sma_0200''\<rparr>)"
  by code_simp

lemma respelled_raises:
  assumes "\<And>t. inds t ''sma_0200'' = None" and "200 < length prices"
  shows "spec_signal pow vol22 inds sid asset prices (PDict respelled_spec) = Inl (Uncaught Eval_value_error)"
proof -
  have w: "live_warmup (sp_indicators (faber_spec\<lparr>sp_entry := above_sma ''sma_0200''\<rparr>)) = 200" by code_simp
  have e: "eval_condition (live_bar (Finite x) (inds t)) (above_sma ''sma_0200'') = Inl Eval_value_error" for x t
    using assms(1) by (simp add: above_sma_def live_bar_def split: option.splits)
  have "[200..<length prices] = 200 # [201..<length prices]" using assms(2) by (simp add: upt_conv_Cons)
  with assms(2) show ?thesis
    unfolding validated_no_unhashable [OF respelled_valid] w
    by (simp add: replay_position_state_def replay_step_cadence on_cadence_def no_position_def e)
qed

text \<open>
  C28: one strategy whose operand is spelled with a leading zero stops them all.  The validator accepts
  \<open>sma_0200\<close> and files it as \<open>sma_200\<close>; no bar has a value under the other spelling, the evaluation of the
  condition raises, nothing up to \<^verbatim>\<open>evaluate_strategies\<close> catches it, and no strategy of the list gets a signal.
\<close>

theorem respelled_operand_stops_all:
  assumes "st \<in> set strategies" and "st_spec st = Some (PDict respelled_spec)"
    and "asset \<in> set (strategy_synths synth_map synth_assets hist full st)"
    and "map_of hist asset = Some prices" and "200 < length prices"
    and "\<forall>t. le_indicators E asset t ''sma_0200'' = None"
  shows "\<exists>e. evaluate_strategies E synth_map strategies synth_assets hist full = Inl e"
proof -
  obtain p ps where prices: "prices = p # ps" using assms(5) by (cases prices) auto
  obtain kv d where "respelled_spec = kv # d" by (simp add: respelled_spec_def)
  with assms(2,5,6) have "evaluate_asset E st asset (p # ps) = Inl (Uncaught Eval_value_error)"
    using respelled_raises [of "le_indicators E asset" prices] by (auto simp: evaluate_asset_def prices split: list.splits)
  from evaluate_assets_raises [OF assms(4) [unfolded prices] this assms(3)]
  obtain e where "evaluate_assets E st hist (strategy_synths synth_map synth_assets hist full st) = Inl e" by blast
  from evaluate_each_raises [OF this assms(1)] assms(4) show ?thesis
    by (auto simp: evaluate_strategies_def)
qed

definition respelled_strategy :: live_strategy where
  "respelled_strategy =
     \<lparr>st_id = ''b'', st_paper_title = ''SMA-200'', st_code_path = None, st_asset_universe = [''SPY''],
      st_spec = Some (PDict respelled_spec)\<rparr>"

definition hold_strategy :: live_strategy where
  "hold_strategy =
     \<lparr>st_id = ''a'', st_paper_title = ''Buy-and-Hold'', st_code_path = None, st_asset_universe = [''SPY''], st_spec = None\<rparr>"

definition plain_env :: live_env where
  "plain_env =
     \<lparr>le_pow = (\<lambda>x y. x), le_pandas = \<lparr>roll_mean = (\<lambda>n ps. 1), roll_max = (\<lambda>n ps. 1), return_vol = (\<lambda>n ps. 1)\<rparr>,
      le_vol22 = (\<lambda>ps. Finite 1), le_indicators = (\<lambda>asset t. faber_bar)\<rparr>"

theorem respelled_operand_stops_all_witness:
  "\<exists>e. evaluate_strategies plain_env (\<lambda>_. None) [hold_strategy, respelled_strategy] [] [(''sSPY'', two_hundred_five)] False = Inl e"
proof (rule respelled_operand_stops_all)
  show "respelled_strategy \<in> set [hold_strategy, respelled_strategy]" by simp
  show "st_spec respelled_strategy = Some (PDict respelled_spec)" by (simp add: respelled_strategy_def)
  show "''sSPY'' \<in> set (strategy_synths (\<lambda>_. None) [] [(''sSPY'', two_hundred_five)] False respelled_strategy)"
    by (simp add: strategy_synths_def respelled_strategy_def)
  show "map_of [(''sSPY'', two_hundred_five)] ''sSPY'' = Some two_hundred_five" by simp
  show "200 < length two_hundred_five" by (simp add: two_hundred_five_def)
  show "\<forall>t. le_indicators plain_env ''sSPY'' t ''sma_0200'' = None"
    by (simp add: plain_env_def faber_bar_def PRICE_OPERANDS_def)
qed

end
