(* ===== verification/BarAccess.thy ===== *)
theory BarAccess
  imports Prelude
begin

text \<open>
  The bar-access audit of \<^verbatim>\<open>services/dsl_lookahead_audit.py\<close>: a pass over the syntax tree of the
  interpreter that classifies every bar offset and accepts only those it can prove are not positive.

  A tree is what the pass looks at in \<^verbatim>\<open>ast\<close>.  Nodes it treats alike are one constructor with their
  children: \<open>EConst\<close> is a constant that is no integer, \<open>ETuple\<close> a tuple or a list, \<open>EOther\<close> and \<open>SOther\<close> every
  other node.  Only calls and subscripts of expressions carry a line number, being the only ones it is
  read from.  The texts of violations are left out.
\<close>

section \<open>Syntax trees\<close>

datatype binop = Op_add | Op_mult | Op_sub | Op_other

datatype cmpop = Cmp_lt | Cmp_le | Cmp_other

datatype expr =
    EInt int
  | EConst
  | EName string
  | EUSub expr
  | EBin binop expr expr
  | ECompare expr "cmpop list" "expr list"
  | ECall nat expr "expr list" "expr list"
  | EAttr expr string
  | ESubscript nat expr expr
  | EComp "gen list" "expr list"
  | ETuple "expr list"
  | EOther "expr list"
and gen = Gen expr expr "expr list"

datatype stmt =
    SFunction "(string \<times> expr option) list" "expr list" "stmt list"
  | SIf nat expr "stmt list" "stmt list"
  | SFor expr expr "stmt list" "stmt list"
  | SRaise "expr list"
  | SAssign "expr list" expr
  | SOther "expr list" "stmt list"

type_synonym nonneg_env = "string \<Rightarrow> nat option"

section \<open>Offsets\<close>

fun is_int_const :: "expr \<Rightarrow> int option" where
  "is_int_const (EInt n) = Some n"
| "is_int_const _ = None"

fun provably_nonnegative :: "nonneg_env \<Rightarrow> nat \<Rightarrow> expr \<Rightarrow> bool" where
  "provably_nonnegative env lineno (EInt n) = (0 \<le> n)"
| "provably_nonnegative env lineno (EName x) =
     (case env x of None \<Rightarrow> False | Some proven_from \<Rightarrow> proven_from < lineno)"
| "provably_nonnegative env lineno (EBin opr l r) =
     ((opr = Op_add \<or> opr = Op_mult) \<and> provably_nonnegative env lineno l \<and> provably_nonnegative env lineno r)"
| "provably_nonnegative env lineno _ = False"

fun is_usub :: "expr \<Rightarrow> bool" where
  "is_usub (EUSub _) = True"
| "is_usub _ = False"

fun classify_offset :: "nonneg_env \<Rightarrow> nat \<Rightarrow> expr \<Rightarrow> bool" where
  "classify_offset env lineno (EInt n) = (n \<le> 0)"
| "classify_offset env lineno (EUSub e) = provably_nonnegative env lineno e"
| "classify_offset env lineno (EBin opr l r) =
     (opr = Op_sub \<and> classify_offset env lineno l \<and> \<not> is_usub r \<and>
      (case is_int_const r of Some n \<Rightarrow> \<not> n < 0 | None \<Rightarrow> True) \<and> provably_nonnegative env lineno r)"
| "classify_offset env lineno _ = False"

section \<open>What is proven not to be negative\<close>

definition range_bound_names :: "nonneg_env \<Rightarrow> nat \<Rightarrow> expr \<Rightarrow> bool" where
  "range_bound_names env lineno it =
     (case it of
        ECall _ (EName f) args keywords \<Rightarrow>
          f = ''range'' \<and> keywords = [] \<and> 1 \<le> length args \<and> length args \<le> 3 \<and>
          list_all (provably_nonnegative env lineno) args
      | _ \<Rightarrow> False)"

fun call_line :: "expr \<Rightarrow> nat" where
  "call_line (ECall l _ _ _) = l"
| "call_line _ = 0"

text \<open>A guard \<^verbatim>\<open>if name < k: raise\<close> or \<^verbatim>\<open>if name <= k: raise\<close> of the body of a function.\<close>

fun is_raise :: "stmt \<Rightarrow> bool" where
  "is_raise (SRaise _) = True"
| "is_raise _ = False"

fun guard_of :: "string list \<Rightarrow> stmt \<Rightarrow> (string \<times> nat) option" where
  "guard_of params (SIf lineno (ECompare (EName x) [opr] [right]) [body] []) =
     (if \<not> is_raise body \<or> x \<notin> set params then None
      else case is_int_const right of
        None \<Rightarrow> None
      | Some bound \<Rightarrow>
          (case opr of
             Cmp_lt \<Rightarrow> if 0 \<le> bound then Some (x, lineno) else None
           | Cmp_le \<Rightarrow> if 0 \<le> bound + 1 then Some (x, lineno) else None
           | Cmp_other \<Rightarrow> None))"
| "guard_of params _ = None"

definition guarded_nonnegative_params :: "string list \<Rightarrow> stmt list \<Rightarrow> nonneg_env" where
  "guarded_nonnegative_params params body =
     fold (\<lambda>s env. case guard_of params s of None \<Rightarrow> env | Some (x, lineno) \<Rightarrow> env(x \<mapsto> lineno)) body Map.empty"

section \<open>Lines\<close>

text \<open>
  \<^verbatim>\<open>_dotted\<close>: the attribute chain of a node as a list of names, the feed pick \<^verbatim>\<open>self.datas[i]\<close> collapsed to
  the name \<^verbatim>\<open>datas[]\<close> when asked for.
\<close>

fun dotted :: "bool \<Rightarrow> expr \<Rightarrow> string list option" where
  "dotted collapse (EName x) = Some [x]"
| "dotted collapse (EAttr e a) = map_option (\<lambda>p. p @ [a]) (dotted collapse e)"
| "dotted collapse (ESubscript _ e _) =
     (if collapse \<and> dotted False e = Some [''self'', ''datas''] then Some [''self'', ''datas[]''] else None)"
| "dotted collapse _ = None"

definition LINE_ANNOTATIONS :: "string list" where
  "LINE_ANNOTATIONS = [''LineSeries'', ''LineIterator'', ''LineBuffer'', ''LineActions'', ''Lines'']"

definition annotation_is_line :: "expr option \<Rightarrow> bool" where
  "annotation_is_line ann =
     (case ann of
        None \<Rightarrow> False
      | Some e \<Rightarrow> (case dotted False e of None \<Rightarrow> False | Some p \<Rightarrow> last p \<in> set LINE_ANNOTATIONS))"

definition is_line_container :: "expr \<Rightarrow> bool" where
  "is_line_container e \<longleftrightarrow> dotted False e = Some [''self'', ''_indicators'']"

definition is_feed_container :: "expr \<Rightarrow> bool" where
  "is_feed_container e \<longleftrightarrow> dotted False e = Some [''self'', ''datas'']"

fun attr_root :: "expr \<Rightarrow> expr" where
  "attr_root (EAttr e _) = attr_root e"
| "attr_root e = e"

definition root_is_line :: "string set \<Rightarrow> expr \<Rightarrow> bool" where
  "root_is_line line_locals e \<longleftrightarrow> (case attr_root e of EName x \<Rightarrow> x \<in> line_locals | _ \<Rightarrow> False)"

fun is_line_expr :: "string set \<Rightarrow> expr \<Rightarrow> bool" where
  "is_line_expr line_locals (EName x) = (x \<in> line_locals)"
| "is_line_expr line_locals (EAttr e a) =
     (case dotted True (EAttr e a) of
        None \<Rightarrow> root_is_line line_locals (EAttr e a)
      | Some p \<Rightarrow>
          if p = [''self'', ''_indicators''] \<or> p = [''self'', ''datas''] then False
          else if take 2 p = [''self'', ''data''] \<or> take 2 p = [''self'', ''datas[]''] then True
          else root_is_line line_locals (EAttr e a))"
| "is_line_expr line_locals (ESubscript _ e _) = (is_line_container e \<or> is_feed_container e)"
| "is_line_expr line_locals _ = False"

section \<open>Names that hold a line\<close>

fun bind_names :: "expr \<Rightarrow> string set" where
  "bind_names (EName x) = {x}"
| "bind_names (ETuple es) = \<Union> (set (map bind_names es))"
| "bind_names _ = {}"

definition loop_binds :: "expr \<Rightarrow> expr \<Rightarrow> string set" where
  "loop_binds target it =
     (case it of
        ECall _ (EAttr v a) _ _ \<Rightarrow>
          if (a = ''items'' \<or> a = ''values'') \<and> is_line_container v
          then (if a = ''values'' then bind_names target
                else case target of ETuple [_, y] \<Rightarrow> bind_names y | _ \<Rightarrow> {})
          else {}
      | _ \<Rightarrow> if is_feed_container it then bind_names target else {})"

fun expr_binds :: "expr \<Rightarrow> string set" and gen_binds :: "gen \<Rightarrow> string set" where
  "expr_binds (EUSub e) = expr_binds e"
| "expr_binds (EBin _ l r) = expr_binds l \<union> expr_binds r"
| "expr_binds (ECompare e _ es) = expr_binds e \<union> \<Union> (set (map expr_binds es))"
| "expr_binds (ECall _ f args kws) = expr_binds f \<union> \<Union> (set (map expr_binds args)) \<union> \<Union> (set (map expr_binds kws))"
| "expr_binds (EAttr e _) = expr_binds e"
| "expr_binds (ESubscript _ e s) = expr_binds e \<union> expr_binds s"
| "expr_binds (EComp gens es) = \<Union> (set (map gen_binds gens)) \<union> \<Union> (set (map expr_binds es))"
| "expr_binds (ETuple es) = \<Union> (set (map expr_binds es))"
| "expr_binds (EOther es) = \<Union> (set (map expr_binds es))"
| "expr_binds _ = {}"
| "gen_binds (Gen target it ifs) =
     loop_binds target it \<union> expr_binds target \<union> expr_binds it \<union> \<Union> (set (map expr_binds ifs))"

definition exprs_binds :: "expr list \<Rightarrow> string set" where
  "exprs_binds es = \<Union> (set (map expr_binds es))"

text \<open>One round of the fixpoint, with the names known when it starts, and the annotated parameters.\<close>

fun stmt_binds :: "string set \<Rightarrow> stmt \<Rightarrow> string set" where
  "stmt_binds known (SFunction _ kids body) = exprs_binds kids \<union> \<Union> (set (map (stmt_binds known) body))"
| "stmt_binds known (SIf _ test body orelse) =
     expr_binds test \<union> \<Union> (set (map (stmt_binds known) body)) \<union> \<Union> (set (map (stmt_binds known) orelse))"
| "stmt_binds known (SFor target it body orelse) =
     loop_binds target it \<union> expr_binds target \<union> expr_binds it \<union>
     \<Union> (set (map (stmt_binds known) body)) \<union> \<Union> (set (map (stmt_binds known) orelse))"
| "stmt_binds known (SRaise es) = exprs_binds es"
| "stmt_binds known (SAssign targets v) =
     (if is_line_expr known v then \<Union> (set (map bind_names targets)) else {}) \<union> exprs_binds targets \<union> expr_binds v"
| "stmt_binds known (SOther es body) = exprs_binds es \<union> \<Union> (set (map (stmt_binds known) body))"

fun line_params :: "stmt \<Rightarrow> string set" where
  "line_params (SFunction params _ body) =
     fst ` {p \<in> set params. annotation_is_line (snd p)} \<union> \<Union> (set (map line_params body))"
| "line_params (SIf _ _ body orelse) = \<Union> (set (map line_params body)) \<union> \<Union> (set (map line_params orelse))"
| "line_params (SFor _ _ body orelse) = \<Union> (set (map line_params body)) \<union> \<Union> (set (map line_params orelse))"
| "line_params (SOther _ body) = \<Union> (set (map line_params body))"
| "line_params _ = {}"

fun fixpoint_rounds :: "nat \<Rightarrow> (string set \<Rightarrow> string set) \<Rightarrow> string set \<Rightarrow> string set" where
  "fixpoint_rounds 0 f known = known"
| "fixpoint_rounds (Suc n) f known =
     (let known' = known \<union> f known in if known' = known then known else fixpoint_rounds n f known')"

definition LINE_LOCAL_FIXPOINT_ROUNDS :: nat where
  "LINE_LOCAL_FIXPOINT_ROUNDS = 8"

definition collect_line_locals :: "stmt list \<Rightarrow> string set" where
  "collect_line_locals tree =
     fixpoint_rounds LINE_LOCAL_FIXPOINT_ROUNDS (\<lambda>known. \<Union> (set (map (stmt_binds known) tree)))
       (\<Union> (set (map line_params tree)))"

section \<open>The walk\<close>

text \<open>
  What the visitor meets: a bar offset of a line, or a subscript of something else that hangs off
  \<^verbatim>\<open>self\<close>, with the names proven at that point.
\<close>

datatype access =
    Site nat nonneg_env expr
  | Backstop nat nonneg_env expr

definition bind_range_target :: "nonneg_env \<Rightarrow> expr \<Rightarrow> expr \<Rightarrow> nonneg_env" where
  "bind_range_target env it target =
     (case target of
        EName x \<Rightarrow> if range_bound_names env (call_line it) it \<and> env x = None then env(x \<mapsto> 0) else env
      | _ \<Rightarrow> env)"

definition subscript_access :: "string set \<Rightarrow> nonneg_env \<Rightarrow> nat \<Rightarrow> expr \<Rightarrow> expr \<Rightarrow> access list" where
  "subscript_access L env lineno e off =
     (if is_feed_container e then []
      else if is_line_expr L e then [Site lineno env off]
      else if \<not> is_line_container e \<and> (case dotted False e of Some (x # _) \<Rightarrow> x = ''self'' | _ \<Rightarrow> False)
      then [Backstop lineno env off]
      else [])"

fun visit_expr :: "string set \<Rightarrow> nonneg_env \<Rightarrow> expr \<Rightarrow> access list"
  and visit_gens :: "string set \<Rightarrow> nonneg_env \<Rightarrow> gen list \<Rightarrow> access list \<times> nonneg_env" where
  "visit_expr L env (EUSub e) = visit_expr L env e"
| "visit_expr L env (EBin _ l r) = visit_expr L env l @ visit_expr L env r"
| "visit_expr L env (ECompare e _ es) = visit_expr L env e @ concat (map (visit_expr L env) es)"
| "visit_expr L env (ECall lineno f args kws) =
     (if is_line_expr L f \<and> length args = 1 \<and> kws = [] then [Site lineno env (hd args)] else []) @
     visit_expr L env f @ concat (map (visit_expr L env) args) @ concat (map (visit_expr L env) kws)"
| "visit_expr L env (EAttr e _) = visit_expr L env e"
| "visit_expr L env (ESubscript lineno e off) =
     subscript_access L env lineno e off @ visit_expr L env e @ visit_expr L env off"
| "visit_expr L env (EComp gens es) =
     (case visit_gens L env gens of (found, env') \<Rightarrow> found @ concat (map (visit_expr L env') es))"
| "visit_expr L env (ETuple es) = concat (map (visit_expr L env) es)"
| "visit_expr L env (EOther es) = concat (map (visit_expr L env) es)"
| "visit_expr L env _ = []"
| "visit_gens L env [] = ([], env)"
| "visit_gens L env (Gen target it ifs # gens) =
     (let env' = bind_range_target env it target in
      case visit_gens L env' gens of
        (found, env'') \<Rightarrow> (visit_expr L env it @ concat (map (visit_expr L env') ifs) @ found, env''))"

definition visit_exprs :: "string set \<Rightarrow> nonneg_env \<Rightarrow> expr list \<Rightarrow> access list" where
  "visit_exprs L env es = concat (map (visit_expr L env) es)"

fun visit_stmt :: "string set \<Rightarrow> nonneg_env \<Rightarrow> stmt \<Rightarrow> access list" where
  "visit_stmt L env (SFunction params kids body) =
     (let env' = guarded_nonnegative_params (map fst params) body
      in visit_exprs L env' kids @ concat (map (visit_stmt L env') body))"
| "visit_stmt L env (SIf _ test body orelse) =
     visit_expr L env test @ concat (map (visit_stmt L env) body) @ concat (map (visit_stmt L env) orelse)"
| "visit_stmt L env (SFor target it body orelse) =
     (let env' = bind_range_target env it target
      in visit_expr L env it @ concat (map (visit_stmt L env') body) @ concat (map (visit_stmt L env) orelse))"
| "visit_stmt L env (SRaise es) = visit_exprs L env es"
| "visit_stmt L env (SAssign targets v) = visit_exprs L env targets @ visit_expr L env v"
| "visit_stmt L env (SOther es body) = visit_exprs L env es @ concat (map (visit_stmt L env) body)"

definition accesses :: "stmt list \<Rightarrow> access list" where
  "accesses tree = concat (map (visit_stmt (collect_line_locals tree) Map.empty) tree)"

fun is_site :: "access \<Rightarrow> bool" where
  "is_site (Site _ _ _) = True"
| "is_site _ = False"

fun is_constant :: "expr \<Rightarrow> bool" where
  "is_constant (EInt _) = True"
| "is_constant EConst = True"
| "is_constant _ = False"

fun violates :: "access \<Rightarrow> bool" where
  "violates (Site lineno env off) = (\<not> classify_offset env lineno off)"
| "violates (Backstop lineno env off) = (\<not> classify_offset env lineno off \<and> is_constant off)"

section \<open>The surface\<close>

record surface_audit =
  sa_bar_access_verified :: bool
  sa_violations :: nat
  sa_sites_checked :: nat

definition surface_ok :: "surface_audit \<Rightarrow> bool" where
  "surface_ok a \<longleftrightarrow> sa_bar_access_verified a \<and> 0 < sa_sites_checked a"

definition undecidable :: "surface_audit \<Rightarrow> bool" where
  "undecidable a \<longleftrightarrow> sa_sites_checked a = 0"

text \<open>\<^verbatim>\<open>None\<close> is a source that cannot be read or parsed.\<close>

definition verify_interpreter_surface :: "stmt list option \<Rightarrow> surface_audit" where
  "verify_interpreter_surface source =
     (case source of
        None \<Rightarrow> \<lparr>sa_bar_access_verified = False, sa_violations = 1, sa_sites_checked = 0\<rparr>
      | Some tree \<Rightarrow>
          let found = accesses tree; bad = length (filter violates found) in
          \<lparr>sa_bar_access_verified = (bad = 0), sa_violations = bad, sa_sites_checked = length (filter is_site found)\<rparr>)"

section \<open>Soundness\<close>

text \<open>The value of an arithmetic offset, for the integers its names have.\<close>

fun int_value :: "(string \<Rightarrow> int) \<Rightarrow> expr \<Rightarrow> int option" where
  "int_value \<rho> (EInt n) = Some n"
| "int_value \<rho> (EName x) = Some (\<rho> x)"
| "int_value \<rho> (EUSub e) = map_option uminus (int_value \<rho> e)"
| "int_value \<rho> (EBin opr l r) =
     (case (int_value \<rho> l, int_value \<rho> r) of
        (Some a, Some b) \<Rightarrow>
          (case opr of Op_add \<Rightarrow> Some (a + b) | Op_mult \<Rightarrow> Some (a * b) | Op_sub \<Rightarrow> Some (a - b) | Op_other \<Rightarrow> None)
      | _ \<Rightarrow> None)"
| "int_value \<rho> _ = None"

definition proofs_hold :: "(string \<Rightarrow> int) \<Rightarrow> nonneg_env \<Rightarrow> nat \<Rightarrow> bool" where
  "proofs_hold \<rho> env lineno \<longleftrightarrow> (\<forall>x k. env x = Some k \<longrightarrow> k < lineno \<longrightarrow> 0 \<le> \<rho> x)"

lemma nonnegative_sound:
  "provably_nonnegative env lineno e \<Longrightarrow> proofs_hold \<rho> env lineno \<Longrightarrow> int_value \<rho> e = Some z \<Longrightarrow> 0 \<le> z"
proof (induction env lineno e arbitrary: z rule: provably_nonnegative.induct)
  case (2 env lineno x)
  then show ?case by (auto simp: proofs_hold_def split: option.splits)
next
  case (3 env lineno opr l r)
  then show ?case by (auto split: option.splits)
qed simp_all

lemma offset_sound:
  "classify_offset env lineno e \<Longrightarrow> proofs_hold \<rho> env lineno \<Longrightarrow> int_value \<rho> e = Some z \<Longrightarrow> z \<le> 0"
proof (induction env lineno e arbitrary: z rule: classify_offset.induct)
  case (2 env lineno e)
  then show ?case by (auto dest: nonnegative_sound)
next
  case (3 env lineno opr l r)
  then obtain a b where ab: "int_value \<rho> l = Some a" "int_value \<rho> r = Some b" and z: "z = a - b"
    by (auto split: option.splits)
  from 3 ab(1) have "a \<le> 0" by simp
  moreover from 3 nonnegative_sound [OF _ 3(3) ab(2)] have "0 \<le> b" by simp
  ultimately show ?case unfolding z by simp
qed simp_all

text \<open>
  C16: an audited interpreter reads no later bar, if its names are what the audit takes them for.  When the audit of a
  source finds no violation, a bar offset it found has a value of at most 0 under every assignment of integers to the names in
  which those that the walk counted as proven (by a guard or a loop bound) are indeed not negative at the access.  The
  walk does not follow a name that is assigned again in between.
\<close>

theorem audited_offsets_not_future:
  assumes "surface_ok (verify_interpreter_surface (Some tree))" and "Site lineno env off \<in> set (accesses tree)"
    and "proofs_hold \<rho> env lineno" and "int_value \<rho> off = Some z"
  shows "z \<le> 0"
proof -
  have "filter violates (accesses tree) = []"
    using assms(1) by (simp add: surface_ok_def verify_interpreter_surface_def Let_def)
  then have "\<not> violates (Site lineno env off)" using assms(2) by (auto simp: filter_empty_conv)
  then show ?thesis using offset_sound assms(3,4) by auto
qed

text \<open>Parts of the interpreter: the delayed line of momentum, and the returns of the realized volatility.\<close>

definition make_indicator_body :: "stmt list" where
  "make_indicator_body =
     [SIf 269 (ECompare (EName ''period'') [Cmp_lt] [EInt 1]) [SRaise []] [],
      SIf 279 (ECompare (EName ''name'') [Cmp_other] [EConst])
        [SOther [EBin Op_sub (EBin Op_other (EName ''data_line'')
           (ECall 290 (EName ''data_line'') [EUSub (EName ''period'')] [])) EConst] []] []]"

definition make_indicator_tree :: stmt where
  "make_indicator_tree =
     SFunction [(''data_line'', Some (EAttr (EName ''bt'') ''LineSeries'')), (''name'', Some (EName ''str'')), (''period'', Some (EName ''int''))]
       [] make_indicator_body"

lemma make_indicator_site:
  "Site 290 (guarded_nonnegative_params [''data_line'', ''name'', ''period''] make_indicator_body) (EUSub (EName ''period''))
     \<in> set (accesses [make_indicator_tree])"
proof -
  have "''data_line'' \<in> collect_line_locals [make_indicator_tree]" by code_simp
  then show ?thesis
    unfolding accesses_def
    by (subst (2) make_indicator_tree_def) (simp add: Let_def make_indicator_body_def visit_exprs_def)
qed

theorem audited_offsets_not_future_witness:
  "surface_ok (verify_interpreter_surface (Some [make_indicator_tree])) \<and>
   int_value (\<lambda>_. 5) (EUSub (EName ''period'')) = Some (- 5) \<and> - (5 :: int) \<le> 0"
proof -
  have ok: "surface_ok (verify_interpreter_surface (Some [make_indicator_tree]))" by code_simp
  have hold: "proofs_hold (\<lambda>_. 5) (guarded_nonnegative_params [''data_line'', ''name'', ''period''] make_indicator_body) 290"
    by (simp add: proofs_hold_def)
  have "int_value (\<lambda>_. 5) (EUSub (EName ''period'')) = Some (- 5)" by simp
  from audited_offsets_not_future [OF ok make_indicator_site hold this] ok this show ?thesis by blast
qed

section \<open>Where the proofs come from\<close>

text \<open>Whether a guard raises, and the values \<^verbatim>\<open>range\<close> yields.\<close>

fun guard_raises :: "(string \<Rightarrow> int) \<Rightarrow> stmt \<Rightarrow> bool" where
  "guard_raises \<rho> (SIf _ (ECompare (EName x) [opr] [EInt k]) _ _) =
     (case opr of Cmp_lt \<Rightarrow> \<rho> x < k | Cmp_le \<Rightarrow> \<rho> x \<le> k | Cmp_other \<Rightarrow> False)"
| "guard_raises \<rho> _ = False"

fun range_has :: "int list \<Rightarrow> int \<Rightarrow> bool" where
  "range_has [stop] i = (0 \<le> i \<and> i < stop)"
| "range_has [start, stop] i = (start \<le> i \<and> i < stop)"
| "range_has [start, stop, step] i =
     (step \<noteq> 0 \<and> (i - start) mod step = 0 \<and>
      (if 0 < step then start \<le> i \<and> i < stop else stop < i \<and> i \<le> start))"
| "range_has _ i = False"

lemma guard_of_sound:
  assumes "guard_of params s = Some (x, k)" and "\<not> guard_raises \<rho> s"
  shows "0 \<le> \<rho> x"
proof -
  from assms(1) obtain opr right body where s: "s = SIf k (ECompare (EName x) [opr] [right]) [body] []"
    by (cases "(params, s)" rule: guard_of.cases) (auto split: if_splits option.splits cmpop.splits)
  from assms(1) obtain n where r: "right = EInt n"
    unfolding s by (cases right) (auto split: if_splits)
  from assms show ?thesis unfolding s r by (auto split: cmpop.splits if_splits)
qed

lemma guard_env:
  assumes "fold (\<lambda>s env. case guard_of params s of None \<Rightarrow> env | Some (x, lineno) \<Rightarrow> env(x \<mapsto> lineno)) body env0 x = Some k"
  shows "env0 x = Some k \<or> (\<exists>s \<in> set body. guard_of params s = Some (x, k))"
  using assms
proof (induction body arbitrary: env0)
  case (Cons s body)
  from Cons.IH [OF Cons.prems [simplified fold_simps comp_def]] show ?case
    by (auto split: option.splits if_splits prod.splits)
qed simp

text \<open>
  What the walk counts as proven holds.  A parameter that the guards of a function let through is not
  negative, and neither is any number that a \<^verbatim>\<open>range\<close> of proven arguments yields, whatever its start and
  step.
\<close>

theorem guards_and_ranges_sound:
  assumes "\<forall>s \<in> set body. \<not> guard_raises \<rho> s"
  shows "proofs_hold \<rho> (guarded_nonnegative_params params body) lineno \<and>
         (range_bound_names env l (ECall l (EName ''range'') args []) \<longrightarrow> proofs_hold \<rho> env l \<longrightarrow>
          those (map (int_value \<rho>) args) = Some ns \<longrightarrow> range_has ns i \<longrightarrow> 0 \<le> i)"
proof (intro conjI impI)
  show "proofs_hold \<rho> (guarded_nonnegative_params params body) lineno"
    unfolding proofs_hold_def guarded_nonnegative_params_def
    using assms guard_env [where ?env0.0 = Map.empty] guard_of_sound by fastforce
next
  assume b: "range_bound_names env l (ECall l (EName ''range'') args [])" and p: "proofs_hold \<rho> env l"
    and ns: "those (map (int_value \<rho>) args) = Some ns" and i: "range_has ns i"
  have "list_all (\<lambda>n. 0 \<le> n) ns"
    if "those (map (int_value \<rho>) as) = Some ns" "list_all (provably_nonnegative env l) as" for as ns
    using that by (induction as arbitrary: ns) (auto dest: nonnegative_sound [OF _ p] split: option.splits)
  with ns b have "list_all (\<lambda>n. 0 \<le> n) ns" by (simp add: range_bound_names_def)
  then show "0 \<le> i" using i by (cases "(ns, i)" rule: range_has.cases) (auto split: if_splits)
qed

theorem guards_and_ranges_sound_witness:
  "proofs_hold (\<lambda>_. 5) (guarded_nonnegative_params [''data_line'', ''name'', ''period''] make_indicator_body) 290 \<and>
   (range_bound_names Map.empty 1 (ECall 1 (EName ''range'') [EInt 20] []) \<longrightarrow> proofs_hold (\<lambda>_. 5) Map.empty 1 \<longrightarrow>
    those (map (int_value (\<lambda>_. 5)) [EInt 20]) = Some [20] \<longrightarrow> range_has [20] 7 \<longrightarrow> 0 \<le> (7 :: int))"
  by (rule guards_and_ranges_sound) (simp add: make_indicator_body_def)

definition reassigned_tree :: "stmt list" where
  "reassigned_tree =
     [SFunction [(''data_line'', Some (EAttr (EName ''bt'') ''LineSeries'')), (''period'', Some (EName ''int''))] []
        [SIf 2 (ECompare (EName ''period'') [Cmp_lt] [EInt 1]) [SRaise []] [],
         SAssign [EName ''period''] (EUSub (EInt 1)),
         SOther [ECall 4 (EName ''data_line'') [EUSub (EName ''period'')] []] []]]"

text \<open>
  The audit forgets assignments.  A function that guards its period, assigns minus one to it and then
  reads \<^verbatim>\<open>data_line(-period)\<close> is accepted without a violation, and the offset it reads is the next bar.
\<close>

theorem reassigned_name_passes:
  "surface_ok (verify_interpreter_surface (Some reassigned_tree)) \<and>
   int_value (\<rho>(''period'' := the (int_value \<rho> (EUSub (EInt 1))))) (EUSub (EName ''period'')) = Some 1"
proof
  show "surface_ok (verify_interpreter_surface (Some reassigned_tree))" by code_simp
qed simp

end
