(* ===== verification/DslVariants.thy ===== *)
theory DslVariants
  imports DslReplay "HOL-Library.Multiset"
begin

text \<open>
  Parameter variants of a specification (\<^verbatim>\<open>interpret_variant\<close> of
  \<^verbatim>\<open>services/dsl_to_backtrader.py\<close>, called with integer periods by the grid of
  \<^verbatim>\<open>services/fusion_evaluator.py\<close>): the periods of some indicators are replaced in the list of
  indicators and in the two condition trees.  The list is edited in place, one override after the
  other, while the trees are rewritten at once from the original names, so that a new name may be an
  old one that is itself overridden.
\<close>

section \<open>The variant of a specification\<close>

fun replace_first :: "'a \<Rightarrow> 'a \<Rightarrow> 'a list \<Rightarrow> 'a list" where
  "replace_first x y [] = []"
| "replace_first x y (z # zs) = (if z = x then y # zs else z # replace_first x y zs)"

fun override_indicators :: "(string \<times> int) list \<Rightarrow> string list \<Rightarrow> string list" where
  "override_indicators [] inds = inds"
| "override_indicators ((alias, period) # rest) inds =
     (case rsplit1 alias of
        None \<Rightarrow> override_indicators rest inds
      | Some (base, _) \<Rightarrow>
          override_indicators rest
            (if alias \<in> set inds then replace_first alias (alias_of base period) inds else inds))"

definition interpret_variant :: "strategy_spec \<Rightarrow> (string \<times> int) list \<Rightarrow> strategy_spec" where
  "interpret_variant s overrides =
     s\<lparr>sp_name := sp_name s @ ''_v'' @ join_with ''_'' (map (show_int \<circ> snd) overrides),
       sp_entry := rewrite_aliases overrides (sp_entry s),
       sp_exit := rewrite_aliases overrides (sp_exit s),
       sp_indicators := override_indicators overrides (sp_indicators s),
       sp_parameter_variants := None\<rparr>"

section \<open>Renaming\<close>

definition renamed :: "(string \<times> int) list \<Rightarrow> string \<Rightarrow> string" where
  "renamed ov a =
     (case (map_of ov a, rsplit1 a) of (Some period, Some (base, _)) \<Rightarrow> alias_of base period | _ \<Rightarrow> a)"

definition good_override :: "string \<times> int \<Rightarrow> bool" where
  "good_override kp \<longleftrightarrow> good_alias (fst kp) \<and> 1 \<le> snd kp \<and> snd kp \<le> 10000"

lemma rewrite_arg_str: "rewrite_arg ov (PStr x) = PStr (renamed ov x)"
  by (auto simp: rewrite_arg_def renamed_def split: option.splits)

lemma price_operand_plain: "x \<in> set PRICE_OPERANDS \<Longrightarrow> rsplit1 x = None"
  by (auto simp: PRICE_OPERANDS_def rsplit1_def)

lemma renamed_price: "x \<in> set PRICE_OPERANDS \<Longrightarrow> renamed ov x = x"
  by (simp add: renamed_def price_operand_plain split: option.splits)

lemma good_alias_split:
  assumes "good_alias a"
  obtains ind p where "a = alias_of ind p" "ind \<in> set INDICATOR_NAMES" "1 \<le> p" "p \<le> 10000"
    "rsplit1 a = Some (ind, show_int p)" "a \<notin> set PRICE_OPERANDS"
proof -
  from assms obtain ind p where a: "a = alias_of ind p" "ind \<in> set INDICATOR_NAMES" "1 \<le> p" "p \<le> 10000"
    by (auto simp: good_alias_def)
  then have "rsplit1 a = Some (ind, show_int p)" by (simp add: rsplit1_alias)
  moreover from this have "a \<notin> set PRICE_OPERANDS" using price_operand_plain by force
  ultimately show ?thesis using that a by blast
qed

lemma parse_alias:
  assumes "ind \<in> set INDICATOR_NAMES" "1 \<le> p" "p \<le> 10000"
  shows "parse_indicator_operand (alias_of ind p) = Inr (Some (ind, p))"
proof -
  have "good_alias (alias_of ind p)" using assms by (intro good_aliasI) simp_all
  then have "alias_of ind p \<notin> set PRICE_OPERANDS" by (rule good_alias_split)
  with assms show ?thesis by (simp add: parse_indicator_operand_def rsplit1_alias py_int_show)
qed

lemma validate_good_alias: "good_alias a \<Longrightarrow> validate_arg (PStr a) = Inr {a}"
  by (auto simp: good_alias_def parse_alias)

lemma renamed_good:
  assumes "good_alias a" and "list_all good_override ov"
  shows "good_alias (renamed ov a)"
proof (cases "map_of ov a")
  case None
  then show ?thesis using assms(1) by (simp add: renamed_def)
next
  case (Some p)
  then have "1 \<le> p" "p \<le> 10000"
    using assms(2) by (auto dest!: map_of_SomeD simp: list_all_iff good_override_def)
  with Some show ?thesis
    by (rule_tac good_alias_split [OF assms(1)]) (simp add: renamed_def good_aliasI)
qed

lemma plain_arg_cases:
  assumes "validate_arg (PStr x) = Inr inds" and "plain_arg (PStr x)"
  shows "x \<in> set PRICE_OPERANDS \<and> inds = {} \<or> good_alias x \<and> inds = {x}"
  using assms
  by (auto simp: parse_indicator_operand_def intro: good_aliasI
    split: sum.splits option.splits if_splits prod.splits)

lemma rewrite_arg_validated:
  assumes "validate_arg v = Inr inds" and "plain_arg v" and "list_all good_override ov"
  shows "validate_arg (rewrite_arg ov v) = Inr (renamed ov ` inds)"
proof (cases v)
  case (PStr x)
  then consider "x \<in> set PRICE_OPERANDS" "inds = {}" | "good_alias x" "inds = {x}"
    using plain_arg_cases assms by blast
  then show ?thesis
  proof cases
    case 1
    then show ?thesis using assms(1) PStr by (simp add: rewrite_arg_str renamed_price)
  next
    case 2
    then show ?thesis
      using PStr validate_good_alias [OF renamed_good [OF 2(1) assms(3)]] by (simp add: rewrite_arg_str)
  qed
qed (use assms(1) in \<open>auto simp: rewrite_arg_def\<close>)

lemma is_dict_rewrite [simp]: "is_dict (rewrite_aliases ov v) = is_dict v"
  by (cases "(ov, v)" rule: rewrite_aliases.cases) auto

lemma rewrite_validated:
  "validate_condition c = Inr inds \<Longrightarrow> plain_condition c \<Longrightarrow> list_all good_override ov \<Longrightarrow>
     validate_condition (rewrite_aliases ov c) = Inr (renamed ov ` inds)"
  "validate_conditions cs = Inr inds \<Longrightarrow> list_all plain_condition cs \<Longrightarrow> list_all good_override ov \<Longrightarrow>
     validate_conditions (map (rewrite_aliases ov) cs) = Inr (renamed ov ` inds)"
proof (induction c and cs arbitrary: inds and inds rule: validate_condition_validate_conditions.induct)
  case (1 opr v)
  consider "opr = ''not''" | "opr = ''and'' \<or> opr = ''or''" "opr \<noteq> ''not''"
    | "opr \<in> set COMPARISON_OPS" "opr \<noteq> ''not''" "opr \<noteq> ''and''" "opr \<noteq> ''or''"
    using 1(3) by (auto split: if_splits)
  then show ?case
  proof cases
    case n: 1
    with 1(3) have "is_dict v" "validate_condition v = Inr inds" by (auto split: if_splits)
    with n 1(1) 1(4,5) show ?thesis by simp
  next
    case l: 2
    with 1(3) obtain cs where v: "v = PList cs" and len: "\<not> length cs < 2" and c: "validate_conditions cs = Inr inds"
      by (auto split: pyval.splits if_splits)
    from l 1(4) v have "list_all plain_condition cs" by auto
    from 1(2) [OF l(2,1) v len c this 1(5)] l v len show ?thesis by auto
  next
    case o: 3
    with 1(3) obtain x y where v: "v = PList [x, y]" and u: "union_checked (validate_arg x) (validate_arg y) = Inr inds"
      by (auto split: pyval.splits list.splits)
    from u obtain a b where ab: "validate_arg x = Inr a" "validate_arg y = Inr b" "inds = a \<union> b"
      by (auto simp: union_checked_Inr)
    from o v 1(4) have "plain_arg x" "plain_arg y" by auto
    with ab o v show ?thesis
      using rewrite_arg_validated [OF ab(1) _ 1(5)] rewrite_arg_validated [OF ab(2) _ 1(5)]
      by (auto simp: union_checked_Inr image_Un)
  qed
next
  case (5 c cs)
  from 5(3) obtain a b where ab: "validate_condition c = Inr a" "validate_conditions cs = Inr b" "inds = a \<union> b"
    by (auto simp: union_checked_Inr)
  with 5(1) [OF ab(1)] 5(2) [OF ab(2)] 5(4,5) show ?case by (auto simp: union_checked_Inr image_Un)
qed auto

section \<open>The list of indicators\<close>

lemma mset_replace_first: "x \<in> set xs \<Longrightarrow> add_mset x (mset (replace_first x y xs)) = add_mset y (mset xs)"
  by (induction xs) (auto simp: add_mset_commute)

definition new_name :: "string \<times> int \<Rightarrow> string" where
  "new_name kp = (case rsplit1 (fst kp) of None \<Rightarrow> fst kp | Some (base, _) \<Rightarrow> alias_of base (snd kp))"

lemma override_mset:
  "list_all good_override ov \<Longrightarrow> mset (map fst ov) \<subseteq># mset inds \<Longrightarrow>
     mset (override_indicators ov inds) + mset (map fst ov) = mset inds + mset (map new_name ov)"
proof (induction ov arbitrary: inds)
  case (Cons kp ov)
  obtain k p where kp: "kp = (k, p)" by (cases kp)
  with Cons.prems(1) have "good_alias k" by (simp add: good_override_def)
  then obtain base where k: "rsplit1 k = Some (base, snd (the (rsplit1 k)))" by (rule good_alias_split) simp
  let ?inds = "replace_first k (alias_of base p) inds"
  from Cons.prems(2) kp have keys: "add_mset k (mset (map fst ov)) \<subseteq># mset inds" by simp
  then have "k \<in> set inds" by (simp add: insert_subset_eq_iff)
  from mset_replace_first [OF this] have r: "add_mset k (mset ?inds) = add_mset (alias_of base p) (mset inds)" .
  have "add_mset k (mset (map fst ov)) \<subseteq># add_mset k (mset ?inds)"
    unfolding r by (rule subset_mset.order_trans [OF keys]) simp
  then have "mset (map fst ov) \<subseteq># mset ?inds" by simp
  from Cons.IH [OF _ this] Cons.prems(1)
  have "mset (override_indicators ov ?inds) + mset (map fst ov) = mset ?inds + mset (map new_name ov)" by simp
  moreover have "override_indicators (kp # ov) inds = override_indicators ov ?inds"
    using \<open>k \<in> set inds\<close> by (subst kp, subst override_indicators.simps, subst k) simp
  moreover have "new_name kp = alias_of base p" by (subst kp, unfold new_name_def, subst fst_conv, subst k) simp
  ultimately show ?case using r by (simp add: kp)
qed simp

lemma override_set:
  assumes ov: "list_all good_override ov" and "distinct (map fst ov)" and keys: "fst ` set ov \<subseteq> set inds" and "distinct inds"
  shows "set (override_indicators ov inds) = renamed ov ` set inds"
proof -
  let ?K = "fst ` set ov"
  have "distinct (filter (\<lambda>x. x \<in> ?K) inds)" "set (filter (\<lambda>x. x \<in> ?K) inds) = set (map fst ov)"
    using assms by auto
  then have K: "mset (filter (\<lambda>x. x \<in> ?K) inds) = mset (map fst ov)"
    using assms(2) by (metis set_eq_iff_mset_eq_distinct)
  have split: "mset inds = mset (map fst ov) + mset (filter (\<lambda>x. x \<notin> ?K) inds)"
    unfolding K [symmetric] mset_filter by (rule multiset_partition)
  from override_mset [OF ov, of inds]
  have "mset (override_indicators ov inds) = mset (filter (\<lambda>x. x \<notin> ?K) inds) + mset (map new_name ov)"
    unfolding split by simp
  from arg_cong [where f = set_mset, OF this]
  have s: "set (override_indicators ov inds) = (set inds - ?K) \<union> new_name ` set ov" by auto
  have in_K: "renamed ov (fst kp) = new_name kp" if "kp \<in> set ov" for kp
  proof -
    from that assms(2) have "map_of ov (fst kp) = Some (snd kp)" by (simp add: map_of_is_SomeI)
    then show ?thesis by (auto simp: renamed_def new_name_def split: option.splits)
  qed
  have "renamed ov x = x" if "x \<notin> ?K" for x
    using that by (simp add: renamed_def map_of_eq_None_iff [THEN iffD2])
  then have "renamed ov ` (set inds - ?K) = set inds - ?K" by simp
  moreover from in_K have "renamed ov ` ?K = new_name ` set ov" unfolding image_image by (rule image_cong [OF refl])
  moreover have "set inds = (set inds - ?K) \<union> ?K" using keys by blast
  ultimately have "renamed ov ` set inds = (set inds - ?K) \<union> new_name ` set ov" by (metis image_Un)
  with s show ?thesis by simp
qed

lemma finite_good_aliases: "finite {a. good_alias a}"
proof (rule finite_subset)
  show "{a. good_alias a} \<subseteq> (\<lambda>(ind, p). alias_of ind p) ` (set INDICATOR_NAMES \<times> {1..10000})"
  proof
    fix a assume "a \<in> {a. good_alias a}"
    then obtain ind p where "a = alias_of ind p" "ind \<in> set INDICATOR_NAMES" "1 \<le> p" "p \<le> 10000"
      unfolding mem_Collect_eq good_alias_def by blast
    then show "a \<in> (\<lambda>(ind, p). alias_of ind p) ` (set INDICATOR_NAMES \<times> {1..10000})"
      by (intro image_eqI [of _ _ "(ind, p)"]) simp_all
  qed
  show "finite ((\<lambda>(ind, p). alias_of ind p) ` (set INDICATOR_NAMES \<times> {1..10000}))" by (intro finite_imageI finite_cartesian_product) simp_all
qed

lemma validated_spec_indicators:
  assumes "validate_strategy_spec v = Inr s"
  obtains e x where "validate_condition (sp_entry s) = Inr e" "validate_condition (sp_exit s) = Inr x"
    "set (sp_indicators s) = e \<union> x" "distinct (sp_indicators s)"
proof -
  from assms obtain d a b where ab: "validate_condition (field_of d ''entry'') = Inr a"
    "validate_condition (field_of d ''exit'') = Inr b" and i: "sp_indicators s = sorted_list_of_set (a \<union> b)"
    and s: "sp_entry s = field_of d ''entry''" "sp_exit s = field_of d ''exit''"
    by (auto simp: validate_strategy_spec_def and_then_Inr split: pyval.splits if_splits)
  have "a \<union> b \<subseteq> {a. good_alias a}"
    using validated_aliases(1) [OF ab(1)] validated_aliases(1) [OF ab(2)] by auto
  from finite_subset [OF this finite_good_aliases] have "set (sp_indicators s) = a \<union> b" unfolding i by simp
  then show ?thesis using that ab s i by simp
qed

text \<open>
  C25: a variant binds exactly the indicators its conditions read.  For a validated specification whose trees are in
  canonical spelling (no \<open>sma_0200\<close>) with integers that fit a double, and a grid point that names distinct
  indicators of it and periods between 1 and 10000, swaps and chains of names included: both rewritten trees are valid
  and the edited list of indicators is the set they refer to.
\<close>

theorem variant_binds_its_operands:
  assumes "validate_strategy_spec v = Inr s" and "plain_condition (sp_entry s)" and "plain_condition (sp_exit s)"
    and "distinct (map fst ov)" and "fst ` set ov \<subseteq> set (sp_indicators s)"
    and "\<forall>p \<in> snd ` set ov. 1 \<le> p \<and> p \<le> 10000"
  shows "\<exists>e x. validate_condition (sp_entry (interpret_variant s ov)) = Inr e \<and>
               validate_condition (sp_exit (interpret_variant s ov)) = Inr x \<and>
               set (sp_indicators (interpret_variant s ov)) = e \<union> x"
proof -
  from assms(1) obtain e x where c: "validate_condition (sp_entry s) = Inr e" "validate_condition (sp_exit s) = Inr x"
    and i: "set (sp_indicators s) = e \<union> x" and d: "distinct (sp_indicators s)"
    by (rule validated_spec_indicators)
  have "list_all good_alias (sp_indicators s)" by (rule validated_indicators [OF assms(1)])
  then have ov: "list_all good_override ov"
    using assms(5,6) by (force simp: list_all_iff good_override_def)
  have "validate_condition (rewrite_aliases ov (sp_entry s)) = Inr (renamed ov ` e)"
    by (rule rewrite_validated(1) [OF c(1) assms(2) ov])
  moreover have "validate_condition (rewrite_aliases ov (sp_exit s)) = Inr (renamed ov ` x)"
    by (rule rewrite_validated(1) [OF c(2) assms(3) ov])
  moreover have "set (override_indicators ov (sp_indicators s)) = renamed ov ` e \<union> renamed ov ` x"
    unfolding override_set [OF ov assms(4,5) d] i by (rule image_Un)
  ultimately show ?thesis by (simp add: interpret_variant_def)
qed

theorem variant_binds_its_operands_witness:
  "\<exists>e x. validate_condition (sp_entry (interpret_variant faber_spec [(''sma_200'', 150)])) = Inr e \<and>
         validate_condition (sp_exit (interpret_variant faber_spec [(''sma_200'', 150)])) = Inr x \<and>
         set (sp_indicators (interpret_variant faber_spec [(''sma_200'', 150)])) = e \<union> x"
proof (rule variant_binds_its_operands [OF faber_valid])
  show "plain_condition (sp_entry faber_spec)" by code_simp
  show "plain_condition (sp_exit faber_spec)" by code_simp
qed (simp_all add: faber_spec_def)

end
