(* ===== verification/Lookahead.thy ===== *)
theory Lookahead
  imports BarAccess DslVariants
begin

text \<open>
  The look-ahead verdict of a specification: \<^verbatim>\<open>audit_dsl_strategy\<close> of
  \<^verbatim>\<open>services/dsl_lookahead_audit.py\<close>, which asks that every construct of the specification lies inside the
  surface whose interpreter was audited, and the reading of the verdict from a stored row.  A reason is one
  of its kinds, without the texts and paths.
\<close>

section \<open>Verdicts\<close>

datatype audit_status = Pass | Fail | Pending | Degenerate

datatype audit_reason =
    Broker_cheats
  | No_spec
  | Nothing_examined
  | Interpreter_violations nat
  | Frequency_outside
  | Sizing_outside
  | Alias_unparseable string
  | Indicator_outside string
  | Indicator_unimplemented string
  | Period_not_past string
  | Not_single_operator
  | Operands_not_a_list
  | Not_two_operands
  | Boolean_operand
  | Operand_neither_number_nor_series
  | Operand_outside string
  | Operator_outside string
  | Variant_key_outside string
  | Variant_not_numeric string
  | No_broker_check

record lookahead_audit =
  la_status :: audit_status
  la_reasons :: "audit_reason list"
  la_interpreter_verified :: bool
  la_broker_cheat_check :: "bool option"

definition audit_passed :: "lookahead_audit \<Rightarrow> bool" where
  "audit_passed a \<longleftrightarrow> la_status a = Pass"

definition blocks_deploy :: "lookahead_audit \<Rightarrow> bool" where
  "blocks_deploy a \<longleftrightarrow> \<not> audit_passed a"

definition conclusive :: "lookahead_audit \<Rightarrow> bool" where
  "conclusive a \<longleftrightarrow> la_status a = Pass \<or> la_status a = Fail"

text \<open>\<^verbatim>\<open>broker_cheat_check_passed\<close>: the two parameters of the broker, when it has any.\<close>

definition broker_cheat_check_passed :: "(bool \<times> bool) option \<Rightarrow> bool" where
  "broker_cheat_check_passed params = (case params of None \<Rightarrow> False | Some (coc, coo) \<Rightarrow> \<not> coc \<and> \<not> coo)"

section \<open>The surface\<close>

definition VERIFIED_INDICATORS :: "string list" where
  "VERIFIED_INDICATORS = [''sma'', ''ema'', ''rsi'', ''realized_vol'', ''momentum'']"

definition VERIFIED_COMPARISON_OPS :: "string list" where
  "VERIFIED_COMPARISON_OPS = [''gt'', ''lt'', ''gte'', ''lte'']"

definition VERIFIED_PRICE_OPERANDS :: "string list" where
  "VERIFIED_PRICE_OPERANDS = [''close'', ''open'', ''high'', ''low'', ''volume'']"

definition VERIFIED_POSITION_SIZING :: "string list" where
  "VERIFIED_POSITION_SIZING = [''full_invested_when_in_market'', ''equal_weight'', ''inverse_vol'', ''volatility_target'']"

definition VERIFIED_REBALANCE_FREQUENCIES :: "string list" where
  "VERIFIED_REBALANCE_FREQUENCIES = [''daily'', ''weekly'', ''monthly'']"

definition UNIMPLEMENTED_INDICATORS :: "string list" where
  "UNIMPLEMENTED_INDICATORS = [''realized_vol'']"

definition parse_alias_text :: "string \<Rightarrow> (string \<times> int) option" where
  "parse_alias_text a =
     (case rsplit1 a of None \<Rightarrow> None | Some (name, p) \<Rightarrow> map_option (\<lambda>n. (name, n)) (py_int p))"

definition audit_indicator_alias :: "string \<Rightarrow> audit_reason list" where
  "audit_indicator_alias a =
     (case parse_alias_text a of
        None \<Rightarrow> [Alias_unparseable a]
      | Some (name, period) \<Rightarrow>
          if name \<notin> set VERIFIED_INDICATORS then [Indicator_outside a]
          else if name \<in> set UNIMPLEMENTED_INDICATORS then [Indicator_unimplemented a]
          else if period < 1 then [Period_not_past a]
          else [])"

fun audit_operand :: "string set \<Rightarrow> pyval \<Rightarrow> audit_reason list" where
  "audit_operand known (PBool b) = [Boolean_operand]"
| "audit_operand known (PInt n) = []"
| "audit_operand known (PFloat x) = []"
| "audit_operand known (PStr x) =
     (if x \<in> set VERIFIED_PRICE_OPERANDS \<or> x \<in> known then [] else [Operand_outside x])"
| "audit_operand known _ = [Operand_neither_number_nor_series]"

fun audit_condition :: "string set \<Rightarrow> pyval \<Rightarrow> audit_reason list"
  and audit_conditions :: "string set \<Rightarrow> pyval list \<Rightarrow> audit_reason list" where
  "audit_condition known (PDict [(opr, v)]) =
     (if opr = ''not'' then audit_condition known v
      else if opr = ''and'' \<or> opr = ''or''
      then (case v of PList cs \<Rightarrow> audit_conditions known cs | _ \<Rightarrow> [Operands_not_a_list])
      else if opr \<in> set VERIFIED_COMPARISON_OPS
      then (case v of PList [x, y] \<Rightarrow> audit_operand known x @ audit_operand known y | _ \<Rightarrow> [Not_two_operands])
      else [Operator_outside opr])"
| "audit_condition known _ = [Not_single_operator]"
| "audit_conditions known [] = []"
| "audit_conditions known (c # cs) = audit_condition known c @ audit_conditions known cs"

text \<open>\<^verbatim>\<open>int(v)\<close> of a variant: a float is cut towards zero, and one that is no number raises.\<close>

fun variant_period :: "pyval \<Rightarrow> eval_error + int" where
  "variant_period (PInt n) = Inr n"
| "variant_period (PFloat (Finite x)) = Inr (py_trunc x)"
| "variant_period (PFloat (Infinity _)) = Inl Eval_overflow"
| "variant_period _ = Inl Eval_value_error"

fun audit_variant_values :: "string \<Rightarrow> string \<Rightarrow> pyval list \<Rightarrow> eval_error + audit_reason list" where
  "audit_variant_values key base [] = Inr []"
| "audit_variant_values key base (v # vs) =
     (case v of
        PBool _ \<Rightarrow> map_sum id ((#) (Variant_not_numeric key)) (audit_variant_values key base vs)
      | _ \<Rightarrow>
          if \<not> is_number v then map_sum id ((#) (Variant_not_numeric key)) (audit_variant_values key base vs)
          else case variant_period v of
            Inl e \<Rightarrow> Inl e
          | Inr n \<Rightarrow> map_sum id ((@) (audit_indicator_alias (alias_of base n))) (audit_variant_values key base vs))"

fun audit_variants :: "string set \<Rightarrow> (string \<times> pyval list) list \<Rightarrow> eval_error + audit_reason list" where
  "audit_variants known [] = Inr []"
| "audit_variants known ((key, vs) # rest) =
     (if key \<notin> known then map_sum id ((#) (Variant_key_outside key)) (audit_variants known rest)
      else
        case audit_variant_values key (case parse_alias_text key of None \<Rightarrow> key | Some (b, _) \<Rightarrow> b) vs of
          Inl e \<Rightarrow> Inl e
        | Inr rs \<Rightarrow> map_sum id ((@) rs) (audit_variants known rest))"

definition sizing_reasons :: "(string \<times> pyval) list \<Rightarrow> audit_reason list" where
  "sizing_reasons ps =
     (case field_of ps ''type'' of
        PStr ty \<Rightarrow> if ty \<in> set VERIFIED_POSITION_SIZING then [] else [Sizing_outside]
      | _ \<Rightarrow> [Sizing_outside])"

definition spec_reasons :: "strategy_spec \<Rightarrow> eval_error + audit_reason list" where
  "spec_reasons s =
     (let known = set (sp_indicators s);
          rs = (if sp_rebalance_frequency s \<notin> set VERIFIED_REBALANCE_FREQUENCIES then [Frequency_outside] else []) @
               sizing_reasons (sp_position_sizing s) @
               concat (map audit_indicator_alias (sp_indicators s)) @
               audit_condition known (sp_entry s) @ audit_condition known (sp_exit s)
      in map_sum id ((@) rs)
           (case sp_parameter_variants s of None \<Rightarrow> Inr [] | Some g \<Rightarrow> audit_variants known g))"

definition audit_dsl_strategy ::
  "surface_audit \<Rightarrow> strategy_spec option \<Rightarrow> bool option \<Rightarrow> eval_error + lookahead_audit" where
  "audit_dsl_strategy surface spec broker_cheat_check =
     (if broker_cheat_check = Some False
      then Inr \<lparr>la_status = Fail, la_reasons = [Broker_cheats], la_interpreter_verified = False, la_broker_cheat_check = Some False\<rparr>
      else case spec of
        None \<Rightarrow> Inr \<lparr>la_status = Pending, la_reasons = [No_spec], la_interpreter_verified = False,
                     la_broker_cheat_check = broker_cheat_check\<rparr>
      | Some s \<Rightarrow>
          if undecidable surface
          then Inr \<lparr>la_status = Degenerate, la_reasons = [Nothing_examined, Interpreter_violations (sa_violations surface)],
                    la_interpreter_verified = False, la_broker_cheat_check = broker_cheat_check\<rparr>
          else if \<not> surface_ok surface
          then Inr \<lparr>la_status = Fail, la_reasons = [Interpreter_violations (sa_violations surface)],
                    la_interpreter_verified = False, la_broker_cheat_check = broker_cheat_check\<rparr>
          else
            map_sum id (\<lambda>reasons.
              if reasons \<noteq> []
              then \<lparr>la_status = Fail, la_reasons = reasons, la_interpreter_verified = True, la_broker_cheat_check = broker_cheat_check\<rparr>
              else if broker_cheat_check = None
              then \<lparr>la_status = Pending, la_reasons = [No_broker_check], la_interpreter_verified = True, la_broker_cheat_check = None\<rparr>
              else \<lparr>la_status = Pass, la_reasons = [], la_interpreter_verified = True, la_broker_cheat_check = Some True\<rparr>)
            (spec_reasons s))"

text \<open>\<^verbatim>\<open>verdict_from_persisted_row\<close>; the second component is the four-state status when there is one.\<close>

definition verdict_from_persisted_row :: "bool \<Rightarrow> string option \<Rightarrow> bool \<times> audit_status option" where
  "verdict_from_persisted_row passed source =
     (if source = Some ''self_attested'' then (False, Some Pending)
      else if source = Some ''dsl_audit_not_run'' then (False, Some Pending)
      else (passed, None))"

section \<open>What a pass means\<close>

text \<open>A pass rests on every leg of the audit.\<close>

lemma pass_legs:
  assumes "audit_dsl_strategy surface spec cheat = Inr a" and "audit_passed a"
  obtains s where "spec = Some s" "cheat = Some True" "surface_ok surface" "spec_reasons s = Inr []"
  using assms
  by (auto simp: audit_dsl_strategy_def audit_passed_def map_sum_def split: if_splits option.splits sum.splits)

text \<open>Every integer of a tree fits a double.\<close>

fun fits_arg :: "pyval \<Rightarrow> bool" where
  "fits_arg (PInt n) = (\<bar>n\<bar> < 2 ^ 1023)"
| "fits_arg _ = True"

fun fits_condition :: "pyval \<Rightarrow> bool" where
  "fits_condition (PDict [(opr, v)]) =
     (if opr = ''and'' \<or> opr = ''or'' then (case v of PList cs \<Rightarrow> list_all fits_condition cs | _ \<Rightarrow> True)
      else if opr = ''not'' then fits_condition v
      else (case v of PList as \<Rightarrow> list_all fits_arg as | _ \<Rightarrow> True))"
| "fits_condition _ = True"

lemma audited_operand_evaluates:
  assumes "audit_operand known v = []" and "fits_arg v"
    and "\<And>x. x \<in> set PRICE_OPERANDS \<union> known \<Longrightarrow> vals x \<noteq> None"
  shows "\<exists>x. operand_value vals v = Inr x"
proof (cases v)
  case (PStr x)
  then have "x \<in> set PRICE_OPERANDS \<union> known"
    using assms(1) by (auto simp: VERIFIED_PRICE_OPERANDS_def PRICE_OPERANDS_def split: if_splits)
  then have "vals x \<noteq> None" by (rule assms(3))
  with PStr show ?thesis by auto
next
  case (PInt n)
  have "(2 :: int) ^ 1023 \<le> 2 ^ 1024 - 2 ^ 970" by simp
  with assms(2) PInt show ?thesis by simp
qed (use assms(1) in auto)

lemma audited_evaluates:
  assumes vals: "\<And>x. x \<in> set PRICE_OPERANDS \<union> known \<Longrightarrow> vals x \<noteq> None"
  shows "audit_condition known c = [] \<Longrightarrow> fits_condition c \<Longrightarrow> \<exists>b. eval_condition vals c = Inr b"
    and "audit_conditions known cs = [] \<Longrightarrow> list_all fits_condition cs \<Longrightarrow>
         (\<exists>b. eval_all vals cs = Inr b) \<and> (\<exists>b. eval_any vals cs = Inr b)"
  using vals
proof (induction known c and known cs rule: audit_condition_audit_conditions.induct)
  case (1 known opr v)
  consider "opr = ''not''" | "opr = ''and'' \<or> opr = ''or''" "opr \<noteq> ''not''"
    | "opr \<in> set VERIFIED_COMPARISON_OPS" "opr \<noteq> ''not''" "opr \<noteq> ''and''" "opr \<noteq> ''or''"
    using 1(3) by (auto split: if_splits)
  then show ?case
  proof cases
    case n: 1
    with 1(1) [OF n] 1(3-5) obtain b where "eval_condition vals v = Inr b" by auto
    with n show ?thesis by simp
  next
    case l: 2
    with 1(3) obtain cs where v: "v = PList cs" and c: "audit_conditions known cs = []" by (auto split: pyval.splits)
    from l 1(4) v have "list_all fits_condition cs" by auto
    from 1(2) [OF l(2,1) v c this 1(5)] l show ?thesis by (auto simp: v)
  next
    case o: 3
    with 1(3) obtain x y where v: "v = PList [x, y]" and u: "audit_operand known x = []" "audit_operand known y = []"
      by (auto split: pyval.splits list.splits)
    from o v 1(4) have f: "fits_arg x" "fits_arg y" by auto
    have ex: "\<exists>p. operand_value vals a = Inr p" if "audit_operand known a = []" "fits_arg a" for a
      by (rule audited_operand_evaluates [OF that]) (rule 1(5))
    from ex [OF u(1) f(1)] ex [OF u(2) f(2)] obtain p q where pq: "operand_value vals x = Inr p" "operand_value vals y = Inr q"
      by blast
    from o(1) have "opr \<in> set COMPARISON_OPS" by (simp add: VERIFIED_COMPARISON_OPS_def COMPARISON_OPS_def)
    with o v pq compare_total [of opr p q] show ?thesis by simp
  qed
next
  case (4 known c cs)
  then obtain p q r where "eval_condition vals c = Inr p" "eval_all vals cs = Inr q" "eval_any vals cs = Inr r" by auto
  then show ?case by (cases p) auto
qed auto

text \<open>
  A strategy that passes the audit cannot crash on an operand.  A pass needs the broker check and an
  audited interpreter, and on every bar that has the prices and the indicators the specification declares
  both of its conditions have a truth value, even where the validator alone would let an operand through
  that no bar has.
\<close>

theorem audited_strategy_evaluates:
  assumes "audit_dsl_strategy surface (Some s) cheat = Inr a" and "audit_passed a"
    and "\<forall>x \<in> set PRICE_OPERANDS \<union> set (sp_indicators s). vals x \<noteq> None"
    and "fits_condition (sp_entry s)" and "fits_condition (sp_exit s)"
  shows "cheat = Some True \<and> surface_ok surface \<and>
         (\<exists>b. eval_condition vals (sp_entry s) = Inr b) \<and> (\<exists>b. eval_condition vals (sp_exit s) = Inr b)"
proof -
  from pass_legs [OF assms(1,2)] have "cheat = Some True" "surface_ok surface" and r: "spec_reasons s = Inr []"
    by auto
  moreover have "audit_condition (set (sp_indicators s)) (sp_entry s) = []" "audit_condition (set (sp_indicators s)) (sp_exit s) = []"
    using r by (auto simp: spec_reasons_def Let_def map_sum_def split: sum.splits option.splits)
  moreover note audited_evaluates(1) [where vals = vals and known = "set (sp_indicators s)"]
  ultimately show ?thesis using assms(3-5) by blast
qed

definition clean_surface :: surface_audit where
  "clean_surface = verify_interpreter_surface (Some [make_indicator_tree])"

lemma clean_surface_ok: "surface_ok clean_surface" "\<not> undecidable clean_surface"
  by code_simp+

lemma faber_passes:
  "audit_dsl_strategy clean_surface (Some faber_spec) (Some True) =
   Inr \<lparr>la_status = Pass, la_reasons = [], la_interpreter_verified = True, la_broker_cheat_check = Some True\<rparr>"
  by code_simp

theorem audited_strategy_evaluates_witness:
  "Some True = Some True \<and> surface_ok clean_surface \<and>
   (\<exists>b. eval_condition faber_bar (sp_entry faber_spec) = Inr b) \<and> (\<exists>b. eval_condition faber_bar (sp_exit faber_spec) = Inr b)"
proof (rule audited_strategy_evaluates [OF faber_passes])
  show "\<forall>x \<in> set PRICE_OPERANDS \<union> set (sp_indicators faber_spec). faber_bar x \<noteq> None"
    by (auto simp: faber_bar_def faber_spec_def)
qed (code_simp)+

section \<open>What the audit accepts\<close>

text \<open>The indicators of \<^verbatim>\<open>_make_indicator\<close>.\<close>

datatype bt_indicator =
    SimpleMovingAverage int
  | ExponentialMovingAverage int
  | RSI int
  | RealizedVolAnnualized int
  | TrailingReturn int

definition make_indicator :: "string \<Rightarrow> int \<Rightarrow> dsl_error + bt_indicator" where
  "make_indicator name period =
     (if period < 1 then Inl Period_out_of_range
      else if name = ''sma'' then Inr (SimpleMovingAverage period)
      else if name = ''ema'' then Inr (ExponentialMovingAverage period)
      else if name = ''rsi'' then Inr (RSI period)
      else if name = ''realized_vol'' then Inr (RealizedVolAnnualized period)
      else if name = ''momentum'' then Inr (TrailingReturn period)
      else Inl Unknown_operand)"

fun bool_free_arg :: "pyval \<Rightarrow> bool" where
  "bool_free_arg (PBool _) = False"
| "bool_free_arg _ = True"

fun bool_free :: "pyval \<Rightarrow> bool" where
  "bool_free (PDict [(opr, v)]) =
     (if opr = ''and'' \<or> opr = ''or'' then (case v of PList cs \<Rightarrow> list_all bool_free cs | _ \<Rightarrow> True)
      else if opr = ''not'' then bool_free v
      else (case v of PList as \<Rightarrow> list_all bool_free_arg as | _ \<Rightarrow> True))"
| "bool_free _ = True"

definition uses_realized_vol :: "strategy_spec \<Rightarrow> bool" where
  "uses_realized_vol s \<longleftrightarrow> list_ex (\<lambda>a. map_option fst (rsplit1 a) = Some ''realized_vol'') (sp_indicators s)"

lemma audit_validated_arg:
  assumes "validate_arg v = Inr inds" and "plain_arg v" and "bool_free_arg v" and "inds \<subseteq> known"
  shows "audit_operand known v = []"
proof (cases v)
  case (PStr x)
  then have "x \<in> set PRICE_OPERANDS \<and> inds = {} \<or> good_alias x \<and> inds = {x}"
    using plain_arg_cases assms(1,2) by blast
  with assms(4) PStr show ?thesis by (auto simp: PRICE_OPERANDS_def VERIFIED_PRICE_OPERANDS_def)
qed (use assms in auto)

lemma audit_validated:
  "validate_condition c = Inr inds \<Longrightarrow> plain_condition c \<Longrightarrow> bool_free c \<Longrightarrow> inds \<subseteq> known \<Longrightarrow> audit_condition known c = []"
  "validate_conditions cs = Inr inds \<Longrightarrow> list_all plain_condition cs \<Longrightarrow> list_all bool_free cs \<Longrightarrow> inds \<subseteq> known \<Longrightarrow>
     audit_conditions known cs = []"
proof (induction c and cs arbitrary: inds and inds rule: validate_condition_validate_conditions.induct)
  case (1 opr v)
  consider "opr = ''not''" | "opr = ''and'' \<or> opr = ''or''" "opr \<noteq> ''not''"
    | "opr \<in> set COMPARISON_OPS" "opr \<noteq> ''not''" "opr \<noteq> ''and''" "opr \<noteq> ''or''"
    using 1(3) by (auto split: if_splits)
  then show ?case
  proof cases
    case n: 1
    with 1(3) have d: "is_dict v" "validate_condition v = Inr inds" by (auto split: if_splits)
    from n 1(4,5) have "plain_condition v" "bool_free v" by auto
    with 1(1) [OF n d this 1(6)] n show ?thesis by simp
  next
    case l: 2
    with 1(3) obtain cs where v: "v = PList cs" and len: "\<not> length cs < 2" and c: "validate_conditions cs = Inr inds"
      by (auto split: pyval.splits if_splits)
    from l 1(4,5) v have "list_all plain_condition cs" "list_all bool_free cs" by auto
    from 1(2) [OF l(2,1) v len c this 1(6)] l v show ?thesis by auto
  next
    case o: 3
    with 1(3) obtain x y where v: "v = PList [x, y]" and u: "union_checked (validate_arg x) (validate_arg y) = Inr inds"
      by (auto split: pyval.splits list.splits)
    from u obtain a b where ab: "validate_arg x = Inr a" "validate_arg y = Inr b" "inds = a \<union> b"
      by (auto simp: union_checked_Inr)
    from o v 1(4,5) have "plain_arg x" "plain_arg y" "bool_free_arg x" "bool_free_arg y" by auto
    with ab 1(6) have "audit_operand known x = []" "audit_operand known y = []"
      by (blast intro: audit_validated_arg)+
    moreover from o(1) have "opr \<in> set VERIFIED_COMPARISON_OPS"
      by (simp add: VERIFIED_COMPARISON_OPS_def COMPARISON_OPS_def)
    ultimately show ?thesis using o v by simp
  qed
next
  case (5 c cs)
  from 5(3) obtain a b where ab: "validate_condition c = Inr a" "validate_conditions cs = Inr b" "inds = a \<union> b"
    by (auto simp: union_checked_Inr)
  with 5(1) [OF ab(1)] 5(2) [OF ab(2)] 5(4-6) show ?case by auto
qed auto

lemma audit_good_alias:
  assumes "good_alias a"
  shows "audit_indicator_alias a = (if map_option fst (rsplit1 a) = Some ''realized_vol'' then [Indicator_unimplemented a] else [])"
proof -
  from assms obtain ind p where a: "ind \<in> set INDICATOR_NAMES" "1 \<le> p" "rsplit1 a = Some (ind, show_int p)"
    by (rule good_alias_split)
  then have "parse_alias_text a = Some (ind, p)" by (simp add: parse_alias_text_def py_int_show)
  with a show ?thesis
    by (auto simp: audit_indicator_alias_def INDICATOR_NAMES_def VERIFIED_INDICATORS_def UNIMPLEMENTED_INDICATORS_def)
qed

lemma audit_aliases:
  "list_all good_alias xs \<Longrightarrow>
     concat (map audit_indicator_alias xs) = [] \<longleftrightarrow> \<not> list_ex (\<lambda>a. map_option fst (rsplit1 a) = Some ''realized_vol'') xs"
  by (induction xs) (auto simp: audit_good_alias)

text \<open>
  What the audit makes of a validated specification.  With an audited interpreter and an honest broker a
  specification without parameter variants whose operands are spelled as the validator spells them and are
  no booleans passes, unless it uses a realized volatility: then it fails, although the interpreter has an
  indicator for it.
\<close>

theorem audit_of_validated_spec:
  assumes "validate_strategy_spec v = Inr s" and "sp_parameter_variants s = None"
    and "plain_condition (sp_entry s)" and "plain_condition (sp_exit s)"
    and "bool_free (sp_entry s)" and "bool_free (sp_exit s)" and "surface_ok surface"
  shows "map_sum id la_status (audit_dsl_strategy surface (Some s) (Some True)) =
           Inr (if uses_realized_vol s then Fail else Pass) \<and>
         make_indicator ''realized_vol'' 20 = Inr (RealizedVolAnnualized 20)"
proof -
  from assms(1) obtain e x where c: "validate_condition (sp_entry s) = Inr e" "validate_condition (sp_exit s) = Inr x"
    and i: "set (sp_indicators s) = e \<union> x"
    by (rule validated_spec_indicators)
  have "audit_condition (set (sp_indicators s)) (sp_entry s) = []"
    by (rule audit_validated(1) [OF c(1) assms(3,5)]) (simp add: i)
  moreover have "audit_condition (set (sp_indicators s)) (sp_exit s) = []"
    by (rule audit_validated(1) [OF c(2) assms(4,6)]) (simp add: i)
  moreover have "sp_rebalance_frequency s \<in> set VERIFIED_REBALANCE_FREQUENCIES"
    using assms(1)
    by (auto simp: validate_strategy_spec_def and_then_Inr frequency_of_def REBALANCE_FREQUENCIES_def
      VERIFIED_REBALANCE_FREQUENCIES_def split: pyval.splits if_splits)
  moreover have "sizing_reasons (sp_position_sizing s) = []"
  proof -
    from assms(1) obtain d where "check_sizing (field_of d ''position_sizing'') = Inr (sp_position_sizing s)"
      by (auto simp: validate_strategy_spec_def and_then_Inr split: pyval.splits if_splits)
    then show ?thesis
      by (auto simp: check_sizing_def sizing_reasons_def POSITION_SIZING_KEYS_def VERIFIED_POSITION_SIZING_def
        split: pyval.splits option.splits if_splits)
  qed
  ultimately have "spec_reasons s = Inr (concat (map audit_indicator_alias (sp_indicators s)))"
    using assms(2) by (simp add: spec_reasons_def Let_def)
  moreover have "concat (map audit_indicator_alias (sp_indicators s)) = [] \<longleftrightarrow> \<not> uses_realized_vol s"
    unfolding uses_realized_vol_def by (rule audit_aliases [OF validated_indicators [OF assms(1)]])
  ultimately have "map_sum id la_status (audit_dsl_strategy surface (Some s) (Some True)) =
      Inr (if uses_realized_vol s then Fail else Pass)"
    using assms(7) by (simp add: audit_dsl_strategy_def surface_ok_def undecidable_def)
  then show ?thesis by (simp add: make_indicator_def)
qed

theorem audit_of_validated_spec_witness:
  "map_sum id la_status (audit_dsl_strategy clean_surface (Some faber_spec) (Some True)) =
     Inr (if uses_realized_vol faber_spec then Fail else Pass) \<and>
   make_indicator ''realized_vol'' 20 = Inr (RealizedVolAnnualized 20)"
proof (rule audit_of_validated_spec [OF faber_valid _ _ _ _ _ clean_surface_ok(1)])
  show "sp_parameter_variants faber_spec = None" by (simp add: faber_spec_def)
qed (code_simp)+

end
