(* ===== verification/OracleHealth.thy ===== *)
theory OracleHealth
  imports Prelude
begin

text \<open>
  The freshness probe of the price oracles, \<^verbatim>\<open>services/oracle_health.py\<close>: the trading calendar that
  relaxes the flat staleness limit of the chain for equities, and the verdict over all probed oracles.

  A day is its proleptic ordinal (\<^verbatim>\<open>date.toordinal()\<close>), a moment in New York the pair of its day and its
  second.  The conversion of a timestamp, which needs the time zone database, is a parameter, and so are
  the reads of the chain.  The texts of reasons are left out.
\<close>

section \<open>The calendar\<close>

definition weekday :: "int \<Rightarrow> int" where
  "weekday d = (d + 6) mod 7"

definition NYSE_HOLIDAYS_2026 :: "int list" where
  "NYSE_HOLIDAYS_2026 =
     [739617, 739635, 739663, 739709, 739761, 739786, 739800, 739866, 739946, 739975]"

definition is_trading_day :: "int \<Rightarrow> bool" where
  "is_trading_day d \<longleftrightarrow> weekday d < 5 \<and> d \<notin> set NYSE_HOLIDAYS_2026"

text \<open>Two holidays are at least a week apart, so that a week has a Tuesday or a Wednesday on which there is trading.\<close>

lemma holidays_apart:
  "list_all (\<lambda>h. list_all (\<lambda>k. h = k \<or> 6 < \<bar>h - k\<bar>) NYSE_HOLIDAYS_2026) NYSE_HOLIDAYS_2026"
  by code_simp

lemma trading_within_week:
  obtains t where "d < t" "t \<le> d + 7" "is_trading_day t"
proof -
  have "\<exists>t. d < t \<and> t \<le> d + 7 \<and> weekday t = w" if "0 \<le> w" "w < 7" for w
  proof (intro exI conjI)
    let ?t = "d + 1 + (w - (d + 7)) mod 7"
    have "?t + 6 = (d + 7) + (w - (d + 7)) mod 7" by simp
    then have "weekday ?t = ((d + 7) + (w - (d + 7))) mod 7" unfolding weekday_def by (simp only: mod_add_right_eq)
    then show "weekday ?t = w" using that by simp
    have "0 \<le> (w - (d + 7)) mod 7" "(w - (d + 7)) mod 7 < 7" by (rule pos_mod_sign pos_mod_bound; simp)+
    then show "d < ?t" "?t \<le> d + 7" by linarith+
  qed
  from this [of 1] this [of 2] obtain t u where
    t: "d < t" "t \<le> d + 7" "weekday t = 1" and u: "d < u" "u \<le> d + 7" "weekday u = 2" by auto
  show ?thesis
  proof (cases "t \<in> set NYSE_HOLIDAYS_2026 \<and> u \<in> set NYSE_HOLIDAYS_2026")
    case True
    then have "t = u \<or> 6 < \<bar>t - u\<bar>" using holidays_apart by (simp add: list_all_iff)
    with t u show ?thesis by auto
  next
    case False
    with t u that show ?thesis by (auto simp: is_trading_day_def)
  qed
qed

text \<open>The loops of \<^verbatim>\<open>_next_trading_day\<close> and \<^verbatim>\<open>_previous_trading_day\<close>, from the day after and the day before.\<close>

function forward_to_trading_day :: "int \<Rightarrow> int" where
  "forward_to_trading_day d = (if is_trading_day d then d else forward_to_trading_day (d + 1))"
  by auto

definition days_ahead :: "int \<Rightarrow> nat" where
  "days_ahead d = (LEAST k. is_trading_day (d + int k))"

lemma days_ahead_less: "\<not> is_trading_day d \<Longrightarrow> days_ahead (d + 1) < days_ahead d"
proof -
  assume d: "\<not> is_trading_day d"
  obtain t where t: "d < t" "t \<le> d + 7" "is_trading_day t" by (rule trading_within_week)
  then have "is_trading_day (d + int (nat (t - d)))" by simp
  then have l: "is_trading_day (d + int (days_ahead d))" unfolding days_ahead_def by (rule LeastI)
  with d have "days_ahead d \<noteq> 0" by (intro notI) simp
  then obtain k where k: "days_ahead d = Suc k" by (cases "days_ahead d") auto
  with l have "is_trading_day (d + 1 + int k)" by (simp add: ac_simps)
  then have "days_ahead (d + 1) \<le> k" unfolding days_ahead_def by (rule Least_le)
  with k show ?thesis by simp
qed

termination forward_to_trading_day
  by (relation "measure days_ahead") (simp_all add: days_ahead_less)

function back_to_trading_day :: "int \<Rightarrow> int" where
  "back_to_trading_day d = (if is_trading_day d then d else back_to_trading_day (d - 1))"
  by auto

definition days_behind :: "int \<Rightarrow> nat" where
  "days_behind d = (LEAST k. is_trading_day (d - int k))"

lemma days_behind_less: "\<not> is_trading_day d \<Longrightarrow> days_behind (d - 1) < days_behind d"
proof -
  assume d: "\<not> is_trading_day d"
  obtain t where "d - 8 < t" "t \<le> d - 8 + 7" and tr: "is_trading_day t" by (rule trading_within_week)
  then have t: "t < d" by linarith
  with tr have "is_trading_day (d - int (nat (d - t)))" by simp
  then have l: "is_trading_day (d - int (days_behind d))" unfolding days_behind_def by (rule LeastI)
  with d have "days_behind d \<noteq> 0" by (intro notI) simp
  then obtain k where k: "days_behind d = Suc k" by (cases "days_behind d") auto
  with l have "is_trading_day (d - 1 - int k)" by (simp add: algebra_simps)
  then have "days_behind (d - 1) \<le> k" unfolding days_behind_def by (rule Least_le)
  with k show ?thesis by simp
qed

termination back_to_trading_day
  by (relation "measure days_behind") (simp_all add: days_behind_less)

declare forward_to_trading_day.simps [simp del] back_to_trading_day.simps [simp del]

definition previous_trading_day :: "int \<Rightarrow> int" where
  "previous_trading_day d = back_to_trading_day (d - 1)"

definition next_trading_day :: "int \<Rightarrow> int" where
  "next_trading_day d = forward_to_trading_day (d + 1)"

section \<open>Closed markets\<close>

type_synonym ny_time = "int \<times> int"

definition MARKET_OPEN :: int where "MARKET_OPEN = 9 * 3600 + 30 * 60"

definition MARKET_CLOSE :: int where "MARKET_CLOSE = 16 * 3600"

definition at_or_after :: "ny_time \<Rightarrow> ny_time \<Rightarrow> bool" where
  "at_or_after a b \<longleftrightarrow> fst b < fst a \<or> fst a = fst b \<and> snd b \<le> snd a"

definition most_recent_close_before :: "ny_time \<Rightarrow> ny_time" where
  "most_recent_close_before now =
     ((if is_trading_day (fst now) \<and> MARKET_CLOSE \<le> snd now then fst now else previous_trading_day (fst now)), MARKET_CLOSE)"

definition next_open_after :: "ny_time \<Rightarrow> ny_time" where
  "next_open_after close = (next_trading_day (fst close), MARKET_OPEN)"

definition equity_weekend_override_fresh :: "('ts \<Rightarrow> ny_time) \<Rightarrow> 'ts \<Rightarrow> 'ts \<Rightarrow> bool" where
  "equity_weekend_override_fresh ny last_updated now =
     (let close_before_now = most_recent_close_before (ny now); next_open = next_open_after close_before_now in
      if at_or_after (ny now) next_open then False
      else fst close_before_now \<le> fst (ny last_updated))"

section \<open>The probe\<close>

datatype oracle_status = Fresh | Stale | Unknown

record oracle_health =
  oh_status :: oracle_status
  oh_oracle_fresh :: bool
  oh_oldest_age_s :: "int option"
  oh_probed_count :: nat
  oh_universe_count :: nat

definition unknown_health :: "nat \<Rightarrow> nat \<Rightarrow> oracle_health" where
  "unknown_health probed universe =
     \<lparr>oh_status = Unknown, oh_oracle_fresh = False, oh_oldest_age_s = None, oh_probed_count = probed, oh_universe_count = universe\<rparr>"

text \<open>
  One oracle, from the two reads of the chain: whether it counts as fresh, and when it was updated.  A
  timestamp is a number of whole seconds.
\<close>

definition read_one ::
  "(int \<Rightarrow> ny_time) \<Rightarrow> (string \<Rightarrow> bool) \<Rightarrow> int \<Rightarrow> string \<Rightarrow> bool \<times> int \<Rightarrow> bool \<times> int" where
  "read_one ny is_equity now symbol r =
     (case r of (is_fresh, last_updated) \<Rightarrow>
        if \<not> is_fresh \<and> is_equity symbol then (equity_weekend_override_fresh ny last_updated now, last_updated)
        else (is_fresh, last_updated))"

text \<open>
  The parameters are the derivation of the set of pushed symbols, the loader, the reads of an oracle, and
  whether all of them returned within the budget; each of the first three may fail.
\<close>

definition probe ::
  "(int \<Rightarrow> ny_time) \<Rightarrow> (string \<Rightarrow> bool) \<Rightarrow> nat \<Rightarrow> string list option \<Rightarrow> bool \<Rightarrow> bool \<Rightarrow> (string \<Rightarrow> (bool \<times> int) option) \<Rightarrow> int \<Rightarrow>
     oracle_health" where
  "probe ny is_equity universe push_set loader_ok in_budget chain now =
     (case push_set of
        None \<Rightarrow> unknown_health 0 universe
      | Some symbols \<Rightarrow>
          if symbols = [] then unknown_health 0 universe
          else if \<not> loader_ok then unknown_health (length symbols) universe
          else if \<not> in_budget then unknown_health (length symbols) universe
          else
            let outcomes = map (\<lambda>s. map_option (read_one ny is_equity now s) (chain s)) symbols;
                reads = List.map_filter id outcomes;
                ages = map (\<lambda>(_, last_updated). max 0 (now - last_updated)) reads;
                fresh_count = length (filter fst reads);
                all_fresh = (fresh_count = length symbols \<and> list_all (\<lambda>x. x \<noteq> None) outcomes) in
            if ages = [] then unknown_health (length symbols) universe
            else \<lparr>oh_status = (if all_fresh then Fresh else Stale), oh_oracle_fresh = all_fresh,
                  oh_oldest_age_s = Some (Max (set ages)), oh_probed_count = length symbols, oh_universe_count = universe\<rparr>)"

section \<open>Properties of the calendar\<close>

lemma forward_spec:
  "is_trading_day (forward_to_trading_day d) \<and> d \<le> forward_to_trading_day d \<and>
   (\<forall>e. d \<le> e \<longrightarrow> is_trading_day e \<longrightarrow> forward_to_trading_day d \<le> e)"
proof (induction d rule: forward_to_trading_day.induct)
  case (1 d)
  show ?case
  proof (cases "is_trading_day d")
    case True
    then show ?thesis by (simp add: forward_to_trading_day.simps [of d])
  next
    case False
    have "d + 1 \<le> e" if "d \<le> e" "is_trading_day e" for e
      using that False by (cases "d = e") auto
    with 1 [OF False] False show ?thesis by (auto simp: forward_to_trading_day.simps [of d])
  qed
qed

lemma back_spec:
  "is_trading_day (back_to_trading_day d) \<and> back_to_trading_day d \<le> d \<and>
   (\<forall>e. e \<le> d \<longrightarrow> is_trading_day e \<longrightarrow> e \<le> back_to_trading_day d)"
proof (induction d rule: back_to_trading_day.induct)
  case (1 d)
  show ?case
  proof (cases "is_trading_day d")
    case True
    then show ?thesis by (simp add: back_to_trading_day.simps [of d])
  next
    case False
    have "e \<le> d - 1" if "e \<le> d" "is_trading_day e" for e
      using that False by (cases "d = e") auto
    with 1 [OF False] False show ?thesis by (auto simp: back_to_trading_day.simps [of d])
  qed
qed

lemma next_trading_day_least: "d < e \<Longrightarrow> is_trading_day e \<Longrightarrow> next_trading_day d \<le> e"
  using forward_spec [of "d + 1"] by (simp add: next_trading_day_def)

lemma previous_trading_day_greatest: "e < d \<Longrightarrow> is_trading_day e \<Longrightarrow> e \<le> previous_trading_day d"
  using back_spec [of "d - 1"] by (simp add: previous_trading_day_def)

text \<open>
  The search for a trading day ends.  From any day of any year both loops stop within a week, on a
  trading day strictly after or before it, and skip none.
\<close>

theorem trading_day_search_ends:
  "is_trading_day (next_trading_day d) \<and> d < next_trading_day d \<and> next_trading_day d \<le> d + 7 \<and>
   is_trading_day (previous_trading_day d) \<and> previous_trading_day d < d \<and> d - 7 \<le> previous_trading_day d \<and>
   {e. is_trading_day e \<and> previous_trading_day d < e \<and> e < next_trading_day d} \<subseteq> {d}"
proof (intro conjI)
  obtain t where "d < t" "t \<le> d + 7" "is_trading_day t" by (rule trading_within_week)
  then show "next_trading_day d \<le> d + 7" using next_trading_day_least [of d t] by simp
  obtain t where "d - 8 < t" "t \<le> d - 8 + 7" "is_trading_day t" by (rule trading_within_week)
  then show "d - 7 \<le> previous_trading_day d" using previous_trading_day_greatest [of t d] by simp
  show "{e. is_trading_day e \<and> previous_trading_day d < e \<and> e < next_trading_day d} \<subseteq> {d}"
  proof
    fix e assume "e \<in> {e. is_trading_day e \<and> previous_trading_day d < e \<and> e < next_trading_day d}"
    then have "\<not> d < e" "\<not> e < d"
      using next_trading_day_least [of d e] previous_trading_day_greatest [of e d] by auto
    then show "e \<in> {d}" by simp
  qed
qed (use forward_spec [of "d + 1"] back_spec [of "d - 1"] in
      \<open>auto simp: next_trading_day_def previous_trading_day_def\<close>)

lemma later_session_not_open:
  assumes "equity_weekend_override_fresh ny last_updated now"
    and "is_trading_day e" and "fst (ny last_updated) < e"
  shows "\<not> at_or_after (ny now) (e, MARKET_OPEN)"
proof -
  let ?c = "fst (most_recent_close_before (ny now))"
  from assms(1) have open_later: "\<not> at_or_after (ny now) (next_trading_day ?c, MARKET_OPEN)" and "?c \<le> fst (ny last_updated)"
    by (auto simp: equity_weekend_override_fresh_def next_open_after_def Let_def split: if_splits)
  with assms(2,3) have "next_trading_day ?c \<le> e" by (intro next_trading_day_least) simp_all
  with open_later show ?thesis by (auto simp: at_or_after_def)
qed

text \<open>
  C27: the calendar excuses a closed market, with one exception.  When an oracle that the chain calls stale is taken
  as fresh, the only session that can have opened since its last update is the one of the calendar day of that update,
  pushed before the opening; and the session after that one has not opened.
\<close>

theorem override_only_while_closed:
  assumes "equity_weekend_override_fresh ny last_updated now"
    and "is_trading_day e" and "at_or_after (ny now) (e, MARKET_OPEN)" and "\<not> at_or_after (ny last_updated) (e, MARKET_OPEN)"
  shows "fst (ny last_updated) = e \<and> snd (ny last_updated) < MARKET_OPEN \<and> \<not> at_or_after (ny now) (next_trading_day e, MARKET_OPEN)"
proof -
  have "\<not> fst (ny last_updated) < e" using later_session_not_open [OF assms(1,2)] assms(3) by blast
  then have e: "fst (ny last_updated) = e" "snd (ny last_updated) < MARKET_OPEN" using assms(4) by (auto simp: at_or_after_def)
  have "is_trading_day (next_trading_day e)" "e < next_trading_day e"
    using forward_spec [of "e + 1"] by (simp_all add: next_trading_day_def)
  then have "\<not> at_or_after (ny now) (next_trading_day e, MARKET_OPEN)"
    using e(1) by (intro later_session_not_open [OF assms(1)]) simp_all
  with e show ?thesis by simp
qed

text \<open>
  The exception occurs.  A price pushed on a Monday at 08:00, before the opening, is still excused on Tuesday at 08:05,
  although the session of that Monday has opened and closed since: the comparison is of calendar days only.
\<close>

theorem pre_open_push_excused:
  "equity_weekend_override_fresh (\<lambda>t. (t div 86400, t mod 86400)) (739628 * 86400 + 28800) (739629 * 86400 + 29100) \<and>
   is_trading_day 739628 \<and> at_or_after (739629, 29100) (739628, MARKET_OPEN) \<and> \<not> at_or_after (739628, 28800) (739628, MARKET_OPEN)"
proof -
  have c: "most_recent_close_before (739629, 29100) = (739628, MARKET_CLOSE)" by code_simp
  have n: "next_open_after (739628, MARKET_CLOSE) = (739629, MARKET_OPEN)" by code_simp
  have "is_trading_day 739628" "at_or_after (739629, 29100) (739628, MARKET_OPEN)"
    "\<not> at_or_after (739628, 28800) (739628, MARKET_OPEN)" "\<not> at_or_after (739629, 29100) (739629, MARKET_OPEN)" by code_simp+
  then show ?thesis by (simp add: equity_weekend_override_fresh_def c n)
qed

theorem override_only_while_closed_witness:
  "\<not> at_or_after (739629, 29100) (next_trading_day 739628, MARKET_OPEN)"
proof -
  have "\<not> at_or_after ((\<lambda>t. (t div 86400, t mod 86400)) (739629 * 86400 + 29100)) (next_trading_day 739628, MARKET_OPEN)"
    using override_only_while_closed [where ny = "\<lambda>t. (t div 86400, t mod 86400)" and last_updated = "739628 * 86400 + 28800"
        and now = "739629 * 86400 + 29100" and e = 739628] pre_open_push_excused by simp
  then show ?thesis by simp
qed

section \<open>Properties of the probe\<close>

definition counts_fresh ::
  "(int \<Rightarrow> ny_time) \<Rightarrow> (string \<Rightarrow> bool) \<Rightarrow> int \<Rightarrow> (string \<Rightarrow> (bool \<times> int) option) \<Rightarrow> string \<Rightarrow> bool" where
  "counts_fresh ny is_equity now chain s =
     (case chain s of
        None \<Rightarrow> False
      | Some (is_fresh, last_updated) \<Rightarrow>
          is_fresh \<or> is_equity s \<and> equity_weekend_override_fresh ny last_updated now)"

lemma all_read:
  "length (filter fst (List.map_filter id (map f xs))) = length xs \<longleftrightarrow>
   list_all (\<lambda>x. case f x of None \<Rightarrow> False | Some r \<Rightarrow> fst r) xs"
proof (induction xs)
  case (Cons x xs)
  have "length (filter fst (List.map_filter id (map f xs))) \<le> length (List.map_filter id (map f xs))" by simp
  also have "\<dots> \<le> length xs"
    unfolding List.map_filter_def length_map by (rule order_trans [OF length_filter_le]) simp
  finally show ?case using Cons by (cases "f x") (auto simp: List.map_filter_simps id_def)
qed (simp add: List.map_filter_def)

text \<open>
  The probe answers fresh only when everything it had to ask is fresh.  That is the case exactly when the
  set of symbols is known and not empty, the reads came back in time, every one of them succeeded, and
  each oracle is fresh on the chain or is an equity whose market has been closed since its update.
\<close>

theorem fresh_means_all_fresh:
  "oh_oracle_fresh (probe ny is_equity universe push_set loader_ok in_budget chain now) =
   (case push_set of
      None \<Rightarrow> False
    | Some symbols \<Rightarrow>
        symbols \<noteq> [] \<and> loader_ok \<and> in_budget \<and> list_all (counts_fresh ny is_equity now chain) symbols)"
proof (cases push_set)
  case None
  then show ?thesis by (simp add: probe_def unknown_health_def)
next
  case (Some symbols)
  let ?f = "\<lambda>s. map_option (read_one ny is_equity now s) (chain s)"
  let ?reads = "List.map_filter id (map ?f symbols)"
  have one: "(case ?f s of None \<Rightarrow> False | Some r \<Rightarrow> fst r) = counts_fresh ny is_equity now chain s" for s
    by (auto simp: counts_fresh_def read_one_def split: option.splits)
  have all: "length (filter fst ?reads) = length symbols \<longleftrightarrow> list_all (counts_fresh ny is_equity now chain) symbols"
    unfolding all_read one ..
  moreover have "list_all (\<lambda>x. x \<noteq> None) (map ?f symbols)" if "list_all (counts_fresh ny is_equity now chain) symbols"
    using that by (auto simp: list_all_iff counts_fresh_def dest!: bspec split: option.splits)
  moreover have "?reads \<noteq> []" if "list_all (counts_fresh ny is_equity now chain) symbols" "symbols \<noteq> []"
    using that all by (intro notI) simp
  ultimately show ?thesis
    by (auto simp: Some probe_def unknown_health_def Let_def)
qed

end
