(* ===== verification/Visibility.thy ===== *)
theory Visibility
  imports Complex_Main Prelude "HOL-Library.AList"
begin

text \<open>
  Who may read what: \<^verbatim>\<open>services/strategy_visibility.py\<close> (the card and the reasoning of a strategy) and
  \<^verbatim>\<open>services/trace_visibility.py\<close> (a reasoning trace, with the lookup of a vault's owner in the database and
  the cache in front of it).

  The answers of the two queries are a parameter, \<open>None\<close> for a query that raises.  Identifiers and wallets are
  texts.  The one warning about an allowlist that is not configured is left out.
\<close>

section \<open>Strategies\<close>

record strategy_row =
  sr_owner_user_id :: "string option"
  sr_owner_wallet :: "string option"
  sr_is_example :: bool
  sr_is_published :: bool

definition owns_strategy :: "strategy_row option \<Rightarrow> string option \<Rightarrow> string option \<Rightarrow> bool" where
  "owns_strategy row caller_wallet caller_user_id =
     (case row of
        None \<Rightarrow> False
      | Some r \<Rightarrow>
          (case sr_owner_user_id r of
             Some u \<Rightarrow> truthy caller_user_id \<and> Some u = caller_user_id
           | None \<Rightarrow>
               if \<not> truthy caller_wallet \<or> \<not> truthy (sr_owner_wallet r) then False
               else py_lower (py_strip (or_empty (sr_owner_wallet r))) = py_lower (py_strip (or_empty caller_wallet))))"

definition is_strategy_visible :: "strategy_row option \<Rightarrow> string option \<Rightarrow> string option \<Rightarrow> bool" where
  "is_strategy_visible row caller_wallet caller_user_id =
     (case row of
        None \<Rightarrow> False
      | Some r \<Rightarrow> sr_is_example r \<or> sr_is_published r \<or> owns_strategy row caller_wallet caller_user_id)"

definition is_strategy_reasoning_visible :: "strategy_row option \<Rightarrow> string option \<Rightarrow> string option \<Rightarrow> bool" where
  "is_strategy_reasoning_visible row caller_wallet caller_user_id =
     (case row of
        None \<Rightarrow> False
      | Some r \<Rightarrow> sr_is_example r \<or> owns_strategy row caller_wallet caller_user_id)"

section \<open>Traces\<close>

definition norm_text :: "string option \<Rightarrow> string" where
  "norm_text v = py_lower (py_strip (or_empty v))"

definition public_trace_vaults :: "environ \<Rightarrow> string list" where
  "public_trace_vaults env =
     (let raw = (if truthy (env ''PUBLIC_TRACE_VAULTS'') then or_empty (env ''PUBLIC_TRACE_VAULTS'')
                 else or_empty (env ''AGENT_VAULT_ADDRESSES''))
      in map (\<lambda>v. py_lower (py_strip v)) (filter (\<lambda>v. py_strip v \<noteq> []) (split_on (CHR '','') raw)))"

definition is_public_trace_vault :: "environ \<Rightarrow> string option \<Rightarrow> bool" where
  "is_public_trace_vault env vault_address =
     (let addr = norm_text vault_address; allowlist = public_trace_vaults env in
      if addr = [] then False
      else if allowlist \<noteq> [] then addr \<in> set allowlist
      else True)"

record trace_view =
  tv_vault_address :: "string option"
  tv_owner_user_id :: "string option"
  tv_owner_wallet :: "string option"

definition is_trace_visible :: "environ \<Rightarrow> trace_view option \<Rightarrow> string option \<Rightarrow> string option \<Rightarrow> bool" where
  "is_trace_visible env view caller_wallet caller_user_id =
     (case view of
        None \<Rightarrow> False
      | Some v \<Rightarrow>
          if truthy (tv_owner_user_id v) then truthy caller_user_id \<and> tv_owner_user_id v = caller_user_id
          else if norm_text (tv_owner_wallet v) \<noteq> []
          then truthy caller_wallet \<and> norm_text caller_wallet = norm_text (tv_owner_wallet v)
          else is_public_trace_vault env (tv_vault_address v))"

section \<open>The owner of a vault\<close>

type_synonym owner = "string option \<times> string option"

record vault_db =
  db_metadata :: "(string \<times> string option \<times> string option) list option"
  db_events :: "(string option \<times> string option) list option"

definition MAX_TRACE_SCAN :: nat where
  "MAX_TRACE_SCAN = 2000"

definition or_none :: "string option \<Rightarrow> string option" where
  "or_none v = (if truthy v then v else None)"

definition metadata_owners :: "string list \<Rightarrow> (string \<times> string option \<times> string option) list \<Rightarrow> (string \<rightharpoonup> owner)" where
  "metadata_owners wanted meta =
     fold (\<lambda>(a, u, c) owners. owners(norm_text (Some a) \<mapsto> (or_none u, or_none (Some (norm_text c)))))
       (filter (\<lambda>(a, _). a \<in> set wanted) meta) Map.empty"

definition event_owners :: "string list \<Rightarrow> (string option \<times> string option) list \<Rightarrow> (string \<rightharpoonup> owner) \<Rightarrow> (string \<rightharpoonup> owner)" where
  "event_owners missing events owners =
     fold (\<lambda>(a, w) owners.
             if norm_text a \<in> set missing \<and> owners (norm_text a) = None \<and> norm_text w \<noteq> []
             then owners(norm_text a \<mapsto> (None, Some (norm_text w))) else owners)
       (take MAX_TRACE_SCAN events) owners"

text \<open>The second component tells whether the lookup was answered.\<close>

definition resolve_vault_owners_uncached :: "vault_db \<Rightarrow> string list \<Rightarrow> (string \<rightharpoonup> owner) \<times> bool" where
  "resolve_vault_owners_uncached db wanted =
     (case db_metadata db of
        None \<Rightarrow> (Map.empty, False)
      | Some meta \<Rightarrow>
          let owners = metadata_owners wanted meta;
              missing = filter (\<lambda>a. owners a = None) wanted in
          if missing = [] then (owners, True)
          else case db_events db of
            None \<Rightarrow> (owners, False)
          | Some events \<Rightarrow> (event_owners missing events owners, True))"

definition wanted_addresses :: "string option list \<Rightarrow> string list" where
  "wanted_addresses addresses = remdups (filter (\<lambda>a. a \<noteq> []) (map norm_text addresses))"

definition resolve_vault_owners :: "vault_db \<Rightarrow> string option list \<Rightarrow> (string \<rightharpoonup> owner)" where
  "resolve_vault_owners db addresses =
     (let wanted = wanted_addresses addresses in
      if wanted = [] then Map.empty else fst (resolve_vault_owners_uncached db wanted))"

section \<open>The cache\<close>

type_synonym owner_cache = "(string \<times> rat \<times> owner option) list"

definition VAULT_OWNER_CACHE_TTL_SECONDS :: rat where
  "VAULT_OWNER_CACHE_TTL_SECONDS = 300"

definition VAULT_OWNER_CACHE_MAX_ENTRIES :: nat where
  "VAULT_OWNER_CACHE_MAX_ENTRIES = 4096"

definition cached :: "rat \<Rightarrow> owner_cache \<Rightarrow> string \<Rightarrow> owner option option" where
  "cached now cache a =
     (case map_of cache a of None \<Rightarrow> None | Some (expires_at, v) \<Rightarrow> if expires_at \<le> now then None else Some v)"

definition store_owners ::
  "rat \<Rightarrow> (string \<rightharpoonup> owner) \<Rightarrow> bool \<Rightarrow> string list \<Rightarrow> owner_cache \<Rightarrow> owner_cache" where
  "store_owners expires_at looked_up answered missing cache =
     fold (\<lambda>a c. if looked_up a = None \<and> \<not> answered then c else AList.update a (expires_at, looked_up a) c) missing cache"

definition trim_cache :: "rat \<Rightarrow> owner_cache \<Rightarrow> owner_cache" where
  "trim_cache now cache =
     (if length cache \<le> VAULT_OWNER_CACHE_MAX_ENTRIES then cache
      else
        let live = filter (\<lambda>(_, expires_at, _). \<not> expires_at \<le> now) cache in
        if length live \<le> VAULT_OWNER_CACHE_MAX_ENTRIES then live else [])"

text \<open>The clock is read at the start and again when the answer is stored.\<close>

definition safe_resolve_vault_owners ::
  "vault_db \<Rightarrow> rat \<Rightarrow> rat \<Rightarrow> owner_cache \<Rightarrow> string option list \<Rightarrow> (string \<rightharpoonup> owner) \<times> owner_cache" where
  "safe_resolve_vault_owners db now later cache addresses =
     (let wanted = wanted_addresses addresses;
          resolved = (\<lambda>a. if a \<in> set wanted then (case cached now cache a of Some (Some p) \<Rightarrow> Some p | _ \<Rightarrow> None) else None);
          missing = filter (\<lambda>a. cached now cache a = None) wanted in
      if missing = [] then (resolved, cache)
      else case resolve_vault_owners_uncached db missing of
        (looked_up, answered) \<Rightarrow>
          (resolved ++ looked_up,
           trim_cache now (store_owners (later + VAULT_OWNER_CACHE_TTL_SECONDS) looked_up answered missing cache)))"

definition invalidate_vault_owner :: "string option \<Rightarrow> owner_cache \<Rightarrow> owner_cache" where
  "invalidate_vault_owner a cache = (if norm_text a = [] then cache else AList.delete (norm_text a) cache)"

definition trace_owner_view :: "trace_view \<Rightarrow> (string \<rightharpoonup> owner) \<Rightarrow> trace_view" where
  "trace_owner_view tr owners =
     (let user = or_none (tv_owner_user_id tr); wallet = or_none (Some (norm_text (tv_owner_wallet tr))) in
      case (if user = None \<and> wallet = None then owners (norm_text (tv_vault_address tr)) else None) of
        None \<Rightarrow> \<lparr>tv_vault_address = tv_vault_address tr, tv_owner_user_id = user, tv_owner_wallet = wallet\<rparr>
      | Some (u, w) \<Rightarrow> \<lparr>tv_vault_address = tv_vault_address tr, tv_owner_user_id = u, tv_owner_wallet = w\<rparr>)"

definition can_read_trace ::
  "environ \<Rightarrow> vault_db \<Rightarrow> rat \<Rightarrow> rat \<Rightarrow> trace_view \<Rightarrow> string option \<Rightarrow> string option \<Rightarrow> owner_cache \<Rightarrow> bool \<times> owner_cache" where
  "can_read_trace env db now later tr caller_wallet caller_user_id cache =
     (case (if truthy (tv_owner_user_id tr) \<or> truthy (tv_owner_wallet tr) then (Map.empty, cache)
            else safe_resolve_vault_owners db now later cache [Some (or_empty (tv_vault_address tr))]) of
        (owners, cache') \<Rightarrow> (is_trace_visible env (Some (trace_owner_view tr owners)) caller_wallet caller_user_id, cache'))"

section \<open>Properties of strategies\<close>

text \<open>
  Publishing shares the card and nothing else.  Whether the reasoning of a strategy may be read does not
  depend on its being published, everyone who may read the reasoning may read the card, and a row that names
  an account is owned by that account alone, whatever wallet the caller controls.
\<close>

theorem publishing_shares_the_card_only:
  "is_strategy_reasoning_visible (Some (r\<lparr>sr_is_published := b\<rparr>)) wallet user = is_strategy_reasoning_visible (Some r) wallet user \<and>
   {(w, u). is_strategy_reasoning_visible (Some r) w u} \<subseteq> {(w, u). is_strategy_visible (Some r) w u} \<and>
   owns_strategy (Some (r\<lparr>sr_owner_user_id := Some (c # cs)\<rparr>)) wallet user = (user = Some (c # cs))"
  by (auto simp: is_strategy_reasoning_visible_def is_strategy_visible_def owns_strategy_def split: option.splits)

section \<open>Properties of the lookup\<close>

text \<open>The addresses of the table are kept in lower case.\<close>

definition meta_ok :: "(string \<times> string option \<times> string option) list \<Rightarrow> bool" where
  "meta_ok meta \<longleftrightarrow> list_all (\<lambda>(a, _). norm_text (Some a) = a) meta"

definition meta_entry :: "string \<times> string option \<times> string option \<Rightarrow> string \<times> owner" where
  "meta_entry row = (case row of (a, u, c) \<Rightarrow> (a, (or_none u, or_none (Some (norm_text c)))))"

fun first_event :: "(string option \<times> string option) list \<Rightarrow> string \<Rightarrow> owner option" where
  "first_event [] a = None"
| "first_event ((b, w) # evs) a = (if norm_text b = a \<and> norm_text w \<noteq> [] then Some (None, Some (norm_text w)) else first_event evs a)"

text \<open>The owner of one vault in a database that answers both queries.\<close>

definition owner_of ::
  "(string \<times> string option \<times> string option) list \<Rightarrow> (string option \<times> string option) list \<Rightarrow> string \<Rightarrow> owner option" where
  "owner_of meta evs a =
     (case map_of (rev (map meta_entry meta)) a of
        Some p \<Rightarrow> Some p
      | None \<Rightarrow> first_event (take MAX_TRACE_SCAN evs) a)"

lemma metadata_fold:
  "meta_ok meta \<Longrightarrow>
     fold (\<lambda>(a, u, c) owners. owners(norm_text (Some a) \<mapsto> (or_none u, or_none (Some (norm_text c))))) (filter (\<lambda>(a, _). a \<in> W) meta) owners a =
     (case (if a \<in> W then map_of (rev (map meta_entry meta)) a else None) of None \<Rightarrow> owners a | Some p \<Rightarrow> Some p)"
proof (induction meta arbitrary: owners)
  case (Cons row meta)
  obtain b u c where row: "row = (b, u, c)" by (cases row)
  from Cons.prems have "meta_ok meta" and b: "norm_text (Some b) = b" by (simp_all add: meta_ok_def row)
  have e: "meta_entry (b, u, c) = (b, (or_none u, or_none (Some (norm_text c))))" by (simp add: meta_entry_def)
  from Cons.IH [OF \<open>meta_ok meta\<close>] show ?case
    by (auto simp: row b e map_add_def split: option.splits)
qed simp

lemma metadata_owners_of:
  "meta_ok meta \<Longrightarrow>
     metadata_owners wanted meta = (\<lambda>a. if a \<in> set wanted then map_of (rev (map meta_entry meta)) a else None)"
  unfolding metadata_owners_def by (rule ext, subst metadata_fold) (auto split: option.splits)

lemma event_fold:
  "fold (\<lambda>(b, w) owners. if norm_text b \<in> M \<and> owners (norm_text b) = None \<and> norm_text w \<noteq> [] then owners(norm_text b \<mapsto> (None, Some (norm_text w))) else owners)
     evs owners a =
   (case owners a of Some p \<Rightarrow> Some p | None \<Rightarrow> if a \<in> M then first_event evs a else None)"
proof (induction evs arbitrary: owners)
  case (Cons e evs)
  obtain b w where "e = (b, w)" by (cases e)
  with Cons show ?case by (auto split: option.splits)
qed (auto split: option.splits)

lemma uncached_exact:
  assumes "db_metadata db = Some meta" and "db_events db = Some evs" and "meta_ok meta"
  shows "resolve_vault_owners_uncached db wanted = ((\<lambda>a. if a \<in> set wanted then owner_of meta evs a else None), True)"
proof -
  let ?o = "metadata_owners wanted meta" and ?m = "map_of (rev (map meta_entry meta))"
  let ?missing = "filter (\<lambda>a. ?o a = None) wanted"
  have o: "?o = (\<lambda>a. if a \<in> set wanted then ?m a else None)" by (rule metadata_owners_of [OF assms(3)])
  show ?thesis
  proof (cases "?missing = []")
    case True
    then have "?o = (\<lambda>a. if a \<in> set wanted then owner_of meta evs a else None)"
      unfolding o by (intro ext) (auto simp: owner_of_def filter_empty_conv split: option.splits)
    with True assms(1) show ?thesis by (simp add: resolve_vault_owners_uncached_def Let_def)
  next
    case False
    have "event_owners ?missing evs ?o = (\<lambda>a. if a \<in> set wanted then owner_of meta evs a else None)"
      by (rule ext, unfold event_owners_def event_fold) (auto simp: o owner_of_def split: option.splits)
    with False assms(1,2) show ?thesis by (simp add: resolve_vault_owners_uncached_def Let_def)
  qed
qed

section \<open>Properties of the cache\<close>

definition cache_inv ::
  "(string \<times> string option \<times> string option) list \<Rightarrow> (string option \<times> string option) list \<Rightarrow> rat \<Rightarrow> owner_cache \<Rightarrow> bool" where
  "cache_inv meta evs now cache \<longleftrightarrow>
     distinct (map fst cache) \<and> length cache \<le> VAULT_OWNER_CACHE_MAX_ENTRIES \<and>
     (\<forall>a v. cached now cache a = Some v \<longrightarrow> v = owner_of meta evs a)"

lemma cached_later: "now \<le> t \<Longrightarrow> cached t cache a = Some v \<Longrightarrow> cached now cache a = Some v"
  by (auto simp: cached_def split: option.splits if_splits)

lemma store_owners_map:
  "map_of (store_owners e looked True missing cache) a =
     (if a \<in> set missing then Some (e, looked a) else map_of cache a)"
  unfolding store_owners_def
  by (induction missing arbitrary: cache) (auto simp: update_conv')

lemma store_owners_distinct:
  "distinct (map fst cache) \<Longrightarrow> distinct (map fst (store_owners e looked answered missing cache))"
  unfolding store_owners_def by (induction missing arbitrary: cache) (auto simp: distinct_update)

lemma live_entries_map:
  "distinct (map fst xs) \<Longrightarrow> map_of (filter P xs) a = Some v \<Longrightarrow> map_of xs a = Some v"
  by (metis distinct_map_filter filter_is_subset map_of_SomeD map_of_is_SomeI subsetD)

lemma trim_cache_spec:
  assumes "distinct (map fst cache)"
  shows "distinct (map fst (trim_cache now cache))" "length (trim_cache now cache) \<le> VAULT_OWNER_CACHE_MAX_ENTRIES"
    "map_of (trim_cache now cache) a = Some v \<Longrightarrow> map_of cache a = Some v"
  using assms by (auto simp: trim_cache_def Let_def distinct_map_filter intro: live_entries_map split: if_splits)

lemma safe_resolve_exact:
  assumes db: "db_metadata db = Some meta" "db_events db = Some evs" "meta_ok meta"
    and inv: "cache_inv meta evs now cache" and t: "now \<le> t"
  shows "fst (safe_resolve_vault_owners db now later cache addresses) =
           (\<lambda>a. if a \<in> set (wanted_addresses addresses) then owner_of meta evs a else None)"
    and "cache_inv meta evs t (snd (safe_resolve_vault_owners db now later cache addresses))"
proof -
  let ?W = "wanted_addresses addresses" and ?missing = "filter (\<lambda>a. cached now cache a = None) (wanted_addresses addresses)"
  let ?c = "store_owners (later + VAULT_OWNER_CACHE_TTL_SECONDS) (\<lambda>a. if a \<in> set ?missing then owner_of meta evs a else None) True ?missing cache"
  note u = uncached_exact [OF db, of ?missing]
  have true: "v = owner_of meta evs a" if "cached now cache a = Some v" for a v
    using inv that by (simp add: cache_inv_def)
  then show "fst (safe_resolve_vault_owners db now later cache addresses) =
      (\<lambda>a. if a \<in> set ?W then owner_of meta evs a else None)"
    by (auto simp: safe_resolve_vault_owners_def u Let_def map_add_def filter_empty_conv fun_eq_iff split: option.splits)
  have d: "distinct (map fst ?c)" using inv by (auto simp: cache_inv_def store_owners_distinct)
  have "v = owner_of meta evs a" if c: "cached t (trim_cache now ?c) a = Some v" for a v
  proof -
    from c obtain e where "map_of (trim_cache now ?c) a = Some (e, v)" and e: "\<not> e \<le> t"
      by (auto simp: cached_def split: option.splits if_splits)
    then have "map_of ?c a = Some (e, v)" using trim_cache_spec(3) [OF d] by blast
    then consider "a \<in> set ?missing" "v = owner_of meta evs a" | "map_of cache a = Some (e, v)"
      unfolding store_owners_map by (auto split: if_splits)
    then show ?thesis
    proof cases
      case 2
      with e have "cached t cache a = Some v" by (simp add: cached_def)
      from true [OF cached_later [OF t this]] show ?thesis .
    qed
  qed
  then have "cache_inv meta evs t (trim_cache now ?c)"
    using trim_cache_spec(1,2) [OF d] by (simp add: cache_inv_def)
  moreover have "cache_inv meta evs t cache"
    using inv true cached_later [OF t] by (auto simp: cache_inv_def)
  ultimately show "cache_inv meta evs t (snd (safe_resolve_vault_owners db now later cache addresses))"
    by (auto simp: safe_resolve_vault_owners_def u Let_def)
qed

lemma empty_cache_inv: "cache_inv meta evs now []"
  by (simp add: cache_inv_def cached_def)

text \<open>A query that raises leaves no trace in the cache: no vault is remembered as having no owner.\<close>

lemma outage_not_remembered:
  assumes "db_metadata db = None" and "length cache \<le> VAULT_OWNER_CACHE_MAX_ENTRIES"
  shows "snd (safe_resolve_vault_owners db now later cache addresses) = cache"
proof -
  have "store_owners e Map.empty False missing cache = cache" for e missing
    unfolding store_owners_def by (induction missing) simp_all
  with assms show ?thesis
    by (simp add: safe_resolve_vault_owners_def resolve_vault_owners_uncached_def Let_def trim_cache_def)
qed

text \<open>
  A stamped trace is its owner's.  A trace that was stored with an account can be read by that account and
  by nobody else, whatever wallets the caller controls, whatever the vault's recorded owner, the cache, the
  database and the allowlist say, and without asking the database.
\<close>

theorem stamped_trace_isolated:
  "can_read_trace env db now later (tr\<lparr>tv_owner_user_id := Some (c # cs)\<rparr>) wallet user cache = (user = Some (c # cs), cache)"
  by (auto simp: can_read_trace_def trace_owner_view_def is_trace_visible_def or_none_def Let_def)

text \<open>
  C32: the cache of owners changes no verdict.  While the database answers and does not change, a reader gets
  the verdict that a lookup without a cache gives, and the cache keeps within its bound and stays true at
  every later time.
\<close>

theorem cached_verdict_exact:
  assumes "db_metadata db = Some meta" and "db_events db = Some evs" and "meta_ok meta"
    and "cache_inv meta evs now cache" and "now \<le> t"
  shows "fst (can_read_trace env db now later tr wallet user cache) = fst (can_read_trace env db now later tr wallet user []) \<and>
         cache_inv meta evs t (snd (can_read_trace env db now later tr wallet user cache))"
proof -
  note hit = safe_resolve_exact [OF assms, of later "[Some (or_empty (tv_vault_address tr))]"]
  note fresh = safe_resolve_exact(1) [OF assms(1-3) empty_cache_inv assms(5), of later "[Some (or_empty (tv_vault_address tr))]"]
  have "cache_inv meta evs t cache"
    using assms(4) cached_later [OF assms(5)] by (auto simp: cache_inv_def)
  then show ?thesis
    using hit(2) unfolding can_read_trace_def
    by (auto simp: case_prod_beta hit(1) fresh)
qed

definition one_vault_db :: vault_db where
  "one_vault_db = \<lparr>db_metadata = Some [(''0xv'', Some ''u1'', Some ''0xw'')], db_events = Some []\<rparr>"

definition one_vault_trace :: trace_view where
  "one_vault_trace = \<lparr>tv_vault_address = Some ''0xV'', tv_owner_user_id = None, tv_owner_wallet = None\<rparr>"

definition one_vault_cache :: owner_cache where
  "one_vault_cache = [(''0xv'', 10, Some (Some ''u1'', Some ''0xw''))]"

theorem cached_verdict_exact_witness:
  "fst (can_read_trace (\<lambda>_. None) one_vault_db 1 2 one_vault_trace None (Some ''u1'') one_vault_cache) =
     fst (can_read_trace (\<lambda>_. None) one_vault_db 1 2 one_vault_trace None (Some ''u1'') []) \<and>
   cache_inv [(''0xv'', Some ''u1'', Some ''0xw'')] [] 3
     (snd (can_read_trace (\<lambda>_. None) one_vault_db 1 2 one_vault_trace None (Some ''u1'') one_vault_cache))"
proof (rule cached_verdict_exact)
  show "meta_ok [(''0xv'', Some ''u1'', Some ''0xw'')]" by code_simp
  have "owner_of [(''0xv'', Some ''u1'', Some ''0xw'')] [] ''0xv'' = Some (Some ''u1'', Some ''0xw'')" by code_simp
  then show "cache_inv [(''0xv'', Some ''u1'', Some ''0xw'')] [] 1 one_vault_cache"
    by (auto simp: cache_inv_def cached_def one_vault_cache_def VAULT_OWNER_CACHE_MAX_ENTRIES_def split: if_splits)
qed (simp_all add: one_vault_db_def)

end
