(* ===== verification/RigorCache.thy ===== *)
theory RigorCache
  imports Complex_Main Prelude "HOL-Library.AList"
begin

text \<open>
  The cache of rigor verdicts, \<^verbatim>\<open>services/rigor_cache.py\<close>: the bounded process store, the single flight of
  concurrent callers, and the shared store with its epoch.

  The threads of one process interleave at the points where the code holds no lock.  An act names a thread and
  what happens to it; whether Redis answers is part of the act, which stands for the circuit breaker too,
  and so is the result of \<^verbatim>\<open>compute_fn\<close> and of \<^verbatim>\<open>cache_if\<close>.  Encoding and decoding of a shared value are taken
  as exact, as the codec demands; a value that does not decode is an absent one.
\<close>

section \<open>The process store\<close>

type_synonym 'v store = "(string \<times> rat \<times> 'v) list"

definition TTL_SECONDS :: rat where
  "TTL_SECONDS = 600"

definition MAX_STORE_SIZE :: nat where
  "MAX_STORE_SIZE = 256"

definition prune_expired :: "rat \<Rightarrow> 'v store \<Rightarrow> 'v store" where
  "prune_expired now st = filter (\<lambda>(_, stored_at, _). \<not> TTL_SECONDS \<le> now - stored_at) st"

text \<open>\<^verbatim>\<open>min(_store, key=...)\<close>: the first of the oldest entries.\<close>

fun oldest :: "string \<times> rat \<times> 'v \<Rightarrow> 'v store \<Rightarrow> string \<times> rat \<times> 'v" where
  "oldest e [] = e"
| "oldest e (x # xs) = (if fst (snd x) < fst (snd e) then oldest x xs else oldest e xs)"

lemma oldest_in: "oldest e xs \<in> set (e # xs)"
  by (induction e xs rule: oldest.induct) auto

lemma delete_oldest_shorter: "length (AList.delete (fst (oldest x xs)) (x # xs)) < length (x # xs)"
proof -
  have "length (filter (\<lambda>e. fst (oldest x xs) \<noteq> fst e) (x # xs)) < length (x # xs)"
    by (rule length_filter_less [OF oldest_in]) simp
  then show ?thesis by (simp only: AList.delete_eq case_prod_beta')
qed

function evict_oldest :: "nat \<Rightarrow> 'v store \<Rightarrow> 'v store" where
  "evict_oldest max_size st =
     (if length st \<le> max_size then st
      else case st of [] \<Rightarrow> [] | x # xs \<Rightarrow> evict_oldest max_size (AList.delete (fst (oldest x xs)) st))"
  by auto

termination evict_oldest
proof (relation "measure (\<lambda>(_, st). length st)")
  show "wf (measure (\<lambda>(_ :: nat, st :: 'v store). length st))" by simp
next
  fix max_size and st :: "'v store" and x xs
  assume "st = x # xs"
  then show "((max_size, AList.delete (fst (oldest x xs)) st), max_size, st) \<in> measure (\<lambda>(_, st). length st)"
    using delete_oldest_shorter [of x xs] by (simp only: in_measure case_prod_conv)
qed

declare evict_oldest.simps [simp del]

definition local_put :: "rat \<Rightarrow> string \<Rightarrow> 'v \<Rightarrow> 'v store \<Rightarrow> 'v store" where
  "local_put now key v st = evict_oldest MAX_STORE_SIZE (AList.update key (now, v) (prune_expired now st))"

definition fresh_entry :: "rat \<Rightarrow> string \<Rightarrow> 'v store \<Rightarrow> 'v option" where
  "fresh_entry now key st =
     (case map_of st key of None \<Rightarrow> None | Some (stored_at, v) \<Rightarrow> if now - stored_at < TTL_SECONDS then Some v else None)"

section \<open>Threads\<close>

text \<open>
  Where a call of \<^verbatim>\<open>get_or_compute\<close> stands.  A leader knows the event it registered and the epoch it saw; a
  follower knows the event it waits for.
\<close>

datatype 'v place =
    Idle
  | Looking string
  | Asking string
  | Asked string nat
  | Shared_found string 'v
  | Missed string "nat option"
  | Computing string nat "nat option"
  | Computed string nat "nat option" 'v
  | Publishing string nat "nat option" 'v
  | Releasing string nat 'v
  | Waiting string nat
  | Computing_alone string
  | Returned string 'v
  | Raised string

record 'v cache_world =
  cw_store :: "'v store"
  cw_inflight :: "string \<rightharpoonup> nat"
  cw_set :: "nat set"
  cw_next :: nat
  cw_epoch :: nat
  cw_shared :: "nat \<times> string \<rightharpoonup> 'v"
  cw_threads :: "nat \<Rightarrow> 'v place"

datatype 'v act =
    Call nat string
  | Look nat
  | Read_epoch nat
  | Read_shared nat
  | Read_undecodable nat
  | Shared_lookup_fails nat
  | Take_shared nat
  | Register nat
  | Compute nat 'v
  | Compute_raises nat
  | Keep nat bool
  | Publish_epoch nat
  | Publish nat
  | Publish_fails nat
  | Release nat
  | Wake nat
  | Clear_local
  | Bump
  | Lose_epoch
  | Expire nat string
  | Elsewhere nat string 'v

definition move :: "nat \<Rightarrow> 'v place \<Rightarrow> 'v cache_world \<Rightarrow> 'v cache_world" where
  "move i p w = w\<lparr>cw_threads := (cw_threads w)(i := p)\<rparr>"

definition release :: "string \<Rightarrow> nat \<Rightarrow> 'v cache_world \<Rightarrow> 'v cache_world" where
  "release k event w = w\<lparr>cw_inflight := (cw_inflight w)(k := None), cw_set := insert event (cw_set w)\<rparr>"

text \<open>
  One step; \<open>None\<close> when the act does not fit.  \<open>good k v\<close> says that \<open>v\<close> is a verdict \<^verbatim>\<open>compute_fn\<close> may return for
  the key \<open>k\<close>; \<open>shared k\<close> that the calls for \<open>k\<close> pass a codec.  \<^verbatim>\<open>clear\<close> is \<open>Clear_local\<close> and then, when
  Redis answers, \<open>Bump\<close>, which may also come from another process.  \<open>Lose_epoch\<close> and \<open>Expire\<close> are Redis dropping
  the counter or an entry, \<open>Elsewhere\<close> is another process publishing one.
\<close>

fun cache_step ::
  "(string \<Rightarrow> bool) \<Rightarrow> (string \<Rightarrow> 'v \<Rightarrow> bool) \<Rightarrow> rat \<Rightarrow> 'v act \<Rightarrow> 'v cache_world \<Rightarrow> 'v cache_world option" where
  "cache_step shared good now (Call i k) w =
     (case cw_threads w i of Idle \<Rightarrow> Some (move i (Looking k) w) | _ \<Rightarrow> None)"
| "cache_step shared good now (Look i) w =
     (case cw_threads w i of
        Looking k \<Rightarrow>
          (case fresh_entry now k (cw_store w) of
             Some v \<Rightarrow> Some (move i (Returned k v) w)
           | None \<Rightarrow> Some (move i (if shared k then Asking k else Missed k None) w))
      | _ \<Rightarrow> None)"
| "cache_step shared good now (Read_epoch i) w =
     (case cw_threads w i of Asking k \<Rightarrow> Some (move i (Asked k (cw_epoch w)) w) | _ \<Rightarrow> None)"
| "cache_step shared good now (Read_shared i) w =
     (case cw_threads w i of
        Asked k epoch \<Rightarrow>
          (case cw_shared w (epoch, k) of
             Some v \<Rightarrow> Some (move i (Shared_found k v) w)
           | None \<Rightarrow> Some (move i (Missed k (Some epoch)) w))
      | _ \<Rightarrow> None)"
| "cache_step shared good now (Read_undecodable i) w =
     (case cw_threads w i of Asked k epoch \<Rightarrow> Some (move i (Missed k (Some epoch)) w) | _ \<Rightarrow> None)"
| "cache_step shared good now (Shared_lookup_fails i) w =
     (case cw_threads w i of
        Asking k \<Rightarrow> Some (move i (Missed k None) w)
      | Asked k epoch \<Rightarrow> Some (move i (Missed k None) w)
      | _ \<Rightarrow> None)"
| "cache_step shared good now (Take_shared i) w =
     (case cw_threads w i of
        Shared_found k v \<Rightarrow> Some (move i (Returned k v) (w\<lparr>cw_store := local_put now k v (cw_store w)\<rparr>))
      | _ \<Rightarrow> None)"
| "cache_step shared good now (Register i) w =
     (case cw_threads w i of
        Missed k epoch \<Rightarrow>
          (case cw_inflight w k of
             None \<Rightarrow>
               Some (move i (Computing k (cw_next w) epoch)
                 (w\<lparr>cw_inflight := (cw_inflight w)(k \<mapsto> cw_next w), cw_next := Suc (cw_next w)\<rparr>))
           | Some event \<Rightarrow> Some (move i (Waiting k event) w))
      | _ \<Rightarrow> None)"
| "cache_step shared good now (Compute i v) w =
     (case cw_threads w i of
        Computing k event epoch \<Rightarrow> if good k v then Some (move i (Computed k event epoch v) w) else None
      | Computing_alone k \<Rightarrow> if good k v then Some (move i (Returned k v) w) else None
      | _ \<Rightarrow> None)"
| "cache_step shared good now (Compute_raises i) w =
     (case cw_threads w i of
        Computing k event epoch \<Rightarrow> Some (move i (Raised k) (release k event w))
      | Computing_alone k \<Rightarrow> Some (move i (Raised k) w)
      | _ \<Rightarrow> None)"
| "cache_step shared good now (Keep i should_cache) w =
     (case cw_threads w i of
        Computed k event epoch v \<Rightarrow>
          if should_cache
          then Some (move i (if shared k then Publishing k event epoch v else Releasing k event v)
                 (w\<lparr>cw_store := local_put now k v (cw_store w)\<rparr>))
          else Some (move i (Releasing k event v) w)
      | _ \<Rightarrow> None)"
| "cache_step shared good now (Publish_epoch i) w =
     (case cw_threads w i of
        Publishing k event None v \<Rightarrow> Some (move i (Publishing k event (Some (cw_epoch w)) v) w)
      | _ \<Rightarrow> None)"
| "cache_step shared good now (Publish i) w =
     (case cw_threads w i of
        Publishing k event (Some epoch) v \<Rightarrow>
          Some (move i (Releasing k event v) (w\<lparr>cw_shared := (cw_shared w)((epoch, k) \<mapsto> v)\<rparr>))
      | _ \<Rightarrow> None)"
| "cache_step shared good now (Publish_fails i) w =
     (case cw_threads w i of Publishing k event epoch v \<Rightarrow> Some (move i (Releasing k event v) w) | _ \<Rightarrow> None)"
| "cache_step shared good now (Release i) w =
     (case cw_threads w i of Releasing k event v \<Rightarrow> Some (move i (Returned k v) (release k event w)) | _ \<Rightarrow> None)"
| "cache_step shared good now (Wake i) w =
     (case cw_threads w i of
        Waiting k event \<Rightarrow>
          if event \<notin> cw_set w then None
          else (case fresh_entry now k (cw_store w) of
                  Some v \<Rightarrow> Some (move i (Returned k v) w)
                | None \<Rightarrow> Some (move i (Computing_alone k) w))
      | _ \<Rightarrow> None)"
| "cache_step shared good now Clear_local w = Some (w\<lparr>cw_store := []\<rparr>)"
| "cache_step shared good now Bump w = Some (w\<lparr>cw_epoch := Suc (cw_epoch w)\<rparr>)"
| "cache_step shared good now Lose_epoch w = Some (w\<lparr>cw_epoch := 0\<rparr>)"
| "cache_step shared good now (Expire e k) w = Some (w\<lparr>cw_shared := (cw_shared w)((e, k) := None)\<rparr>)"
| "cache_step shared good now (Elsewhere e k v) w =
     (if good k v then Some (w\<lparr>cw_shared := (cw_shared w)((e, k) \<mapsto> v)\<rparr>) else None)"

fun run_acts ::
  "(string \<Rightarrow> bool) \<Rightarrow> (string \<Rightarrow> 'v \<Rightarrow> bool) \<Rightarrow> (rat \<times> 'v act) list \<Rightarrow> 'v cache_world \<Rightarrow> 'v cache_world option" where
  "run_acts shared good [] w = Some w"
| "run_acts shared good ((now, a) # acts) w =
     (case cache_step shared good now a w of None \<Rightarrow> None | Some w' \<Rightarrow> run_acts shared good acts w')"

definition new_world :: "'v cache_world" where
  "new_world = \<lparr>cw_store = [], cw_inflight = Map.empty, cw_set = {}, cw_next = 0, cw_epoch = 0,
     cw_shared = Map.empty, cw_threads = (\<lambda>_. Idle)\<rparr>"

inductive reached :: "(string \<Rightarrow> bool) \<Rightarrow> (string \<Rightarrow> 'v \<Rightarrow> bool) \<Rightarrow> 'v cache_world \<Rightarrow> bool" for shared good where
  start: "reached shared good new_world"
| act: "reached shared good w \<Longrightarrow> cache_step shared good now a w = Some w' \<Longrightarrow> reached shared good w'"

lemma move_fields [simp]:
  "cw_store (move i p w) = cw_store w" "cw_inflight (move i p w) = cw_inflight w"
  "cw_set (move i p w) = cw_set w" "cw_next (move i p w) = cw_next w"
  "cw_epoch (move i p w) = cw_epoch w" "cw_shared (move i p w) = cw_shared w"
  "cw_threads (move i p w) = (cw_threads w)(i := p)"
  by (simp_all add: move_def)

lemma release_fields [simp]:
  "cw_store (release k event w) = cw_store w" "cw_inflight (release k event w) = (cw_inflight w)(k := None)"
  "cw_set (release k event w) = insert event (cw_set w)" "cw_next (release k event w) = cw_next w"
  "cw_epoch (release k event w) = cw_epoch w" "cw_shared (release k event w) = cw_shared w"
  "cw_threads (release k event w) = cw_threads w"
  by (simp_all add: release_def)

lemma reached_run: "reached shared good w \<Longrightarrow> run_acts shared good acts w = Some w' \<Longrightarrow> reached shared good w'"
proof (induction acts arbitrary: w)
  case (Cons e acts)
  obtain now a where e: "e = (now, a)" by (cases e)
  with Cons.prems obtain w1 where "cache_step shared good now a w = Some w1" "run_acts shared good acts w1 = Some w'"
    by (auto split: option.splits)
  then show ?case using Cons.IH reached.act [OF Cons.prems(1)] by blast
qed simp

section \<open>The bound of the process store\<close>

lemma evict_oldest_bound: "length (evict_oldest max_size st) \<le> max_size"
proof (induction max_size st rule: evict_oldest.induct)
  case (1 max_size st)
  then show ?case by (subst evict_oldest.simps) (auto split: list.split)
qed

lemma evict_oldest_keeps:
  assumes "\<And>k st. P st \<Longrightarrow> P (AList.delete k st)" "P st"
  shows "P (evict_oldest max_size st)"
  using assms(2)
proof (induction max_size st rule: evict_oldest.induct)
  case (1 max_size st)
  show ?case
  proof (cases "length st \<le> max_size \<or> st = []")
    case True
    then show ?thesis using 1(2) by (subst evict_oldest.simps) auto
  next
    case False
    then obtain x xs where st: "st = x # xs" by (cases st) auto
    then have "P (evict_oldest max_size (AList.delete (fst (oldest x xs)) st))" using 1 assms(1) False by blast
    then show ?thesis using False st by (subst evict_oldest.simps) (simp del: AList.delete_simps)
  qed
qed

lemma local_put_distinct: "distinct (map fst st) \<Longrightarrow> distinct (map fst (local_put now k v st))"
  unfolding local_put_def prune_expired_def
  by (rule evict_oldest_keeps [where P = "\<lambda>st. distinct (map fst st)"], rule distinct_delete)
    (auto intro: distinct_update distinct_map_filter)

lemma local_put_bound: "length (local_put now k v st) \<le> MAX_STORE_SIZE"
  by (simp add: local_put_def evict_oldest_bound)

definition entries_good :: "(string \<Rightarrow> 'v \<Rightarrow> bool) \<Rightarrow> 'v store \<Rightarrow> bool" where
  "entries_good good st = list_all (\<lambda>(k, _, v). good k v) st"

lemma entries_good_Nil: "entries_good good []"
  by (simp add: entries_good_def)

lemma entries_good_delete: "entries_good good st \<Longrightarrow> entries_good good (AList.delete k st)"
  by (auto simp: entries_good_def list_all_iff AList.delete_eq)

lemma entries_good_update: "entries_good good st \<Longrightarrow> good k v \<Longrightarrow> entries_good good (AList.update k (now, v) st)"
  by (induction st) (auto simp: entries_good_def)

lemma local_put_good: "entries_good good st \<Longrightarrow> good k v \<Longrightarrow> entries_good good (local_put now k v st)"
  unfolding local_put_def
  by (rule evict_oldest_keeps, erule entries_good_delete, rule entries_good_update)
    (auto simp: entries_good_def list_all_iff prune_expired_def)

lemma fresh_entry_good: "entries_good good st \<Longrightarrow> fresh_entry now k st = Some v \<Longrightarrow> good k v"
  by (auto simp: fresh_entry_def entries_good_def list_all_iff split: option.splits if_splits dest!: map_of_SomeD)

section \<open>Single flight\<close>

text \<open>The key and event a leader has registered and not released, and those a follower waits on.\<close>

fun held :: "'v place \<Rightarrow> (string \<times> nat) option" where
  "held (Computing k event epoch) = Some (k, event)"
| "held (Computed k event epoch v) = Some (k, event)"
| "held (Publishing k event epoch v) = Some (k, event)"
| "held (Releasing k event v) = Some (k, event)"
| "held p = None"

fun awaited :: "'v place \<Rightarrow> (string \<times> nat) option" where
  "awaited (Waiting k event) = Some (k, event)"
| "awaited p = None"

definition flight_ok :: "'v cache_world \<Rightarrow> bool" where
  "flight_ok w \<longleftrightarrow>
     (\<forall>i k ev. held (cw_threads w i) = Some (k, ev) \<longrightarrow> cw_inflight w k = Some ev) \<and>
     (\<forall>k ev. cw_inflight w k = Some ev \<longrightarrow>
        ev < cw_next w \<and> ev \<notin> cw_set w \<and> (\<exists>i. held (cw_threads w i) = Some (k, ev))) \<and>
     (\<forall>i j k l ev. held (cw_threads w i) = Some (k, ev) \<longrightarrow> held (cw_threads w j) = Some (l, ev) \<longrightarrow> i = j) \<and>
     (\<forall>ev \<in> cw_set w. ev < cw_next w) \<and>
     (\<forall>i k ev. awaited (cw_threads w i) = Some (k, ev) \<longrightarrow> ev \<in> cw_set w \<or> cw_inflight w k = Some ev)"

lemma flight_okD:
  assumes "flight_ok w"
  shows "held (cw_threads w i) = Some (k, ev) \<Longrightarrow> cw_inflight w k = Some ev"
    and "cw_inflight w k = Some ev \<Longrightarrow> ev < cw_next w"
    and "cw_inflight w k = Some ev \<Longrightarrow> ev \<notin> cw_set w"
    and "cw_inflight w k = Some ev \<Longrightarrow> \<exists>i. held (cw_threads w i) = Some (k, ev)"
    and "held (cw_threads w i) = Some (k, ev) \<Longrightarrow> held (cw_threads w j) = Some (l, ev) \<Longrightarrow> i = j"
    and "ev \<in> cw_set w \<Longrightarrow> ev < cw_next w"
    and "awaited (cw_threads w i) = Some (k, ev) \<Longrightarrow> ev \<in> cw_set w \<or> cw_inflight w k = Some ev"
  using assms unfolding flight_ok_def by blast+

lemma flight_same:
  assumes "flight_ok w" "cw_inflight w' = cw_inflight w" "cw_set w' = cw_set w" "cw_next w' = cw_next w"
    "\<And>i. held (cw_threads w' i) = held (cw_threads w i)"
    "\<And>i k ev. awaited (cw_threads w' i) = Some (k, ev) \<Longrightarrow>
       awaited (cw_threads w i) = Some (k, ev) \<or> cw_inflight w k = Some ev"
  shows "flight_ok w'"
proof -
  note keeps = assms(2-5) and d = flight_okD [OF assms(1)]
  have "ev \<in> cw_set w \<or> cw_inflight w k = Some ev" if "awaited (cw_threads w' i) = Some (k, ev)" for i k ev
    using assms(6) [OF that] d(7) by blast
  then show ?thesis
    using assms(1) unfolding flight_ok_def keeps by blast
qed

lemma flight_register:
  assumes ok: "flight_ok w" and free: "cw_inflight w k = None" and unheld: "held (cw_threads w i) = None"
  shows "flight_ok (move i (Computing k (cw_next w) epoch)
    (w\<lparr>cw_inflight := (cw_inflight w)(k \<mapsto> cw_next w), cw_next := Suc (cw_next w)\<rparr>))"
    (is "flight_ok ?w")
proof -
  have new: "held (cw_threads w j) \<noteq> Some (l, cw_next w)" for j l
    using flight_okD(1,2) [OF ok] by fastforce
  have other: "held (cw_threads w j) \<noteq> Some (k, ev)" for j ev
    using flight_okD(1) [OF ok] free by fastforce
  show ?thesis
    unfolding flight_ok_def
  proof (intro conjI allI impI ballI)
    fix j l ev assume "held (cw_threads ?w j) = Some (l, ev)"
    then show "cw_inflight ?w l = Some ev"
      using flight_okD(1) [OF ok, of j l ev] other by (auto split: if_splits)
  next
    fix l ev assume "cw_inflight ?w l = Some ev"
    then show "ev < cw_next ?w" using flight_okD(2) [OF ok] by (fastforce split: if_splits)
  next
    fix l ev assume "cw_inflight ?w l = Some ev"
    then show "ev \<notin> cw_set ?w" using flight_okD(3,6) [OF ok] by (auto split: if_splits)
  next
    fix l ev assume l: "cw_inflight ?w l = Some ev"
    show "\<exists>j. held (cw_threads ?w j) = Some (l, ev)"
    proof (cases "l = k")
      case True
      then show ?thesis using l by (intro exI [of _ i]) simp
    next
      case False
      then obtain j where j: "held (cw_threads w j) = Some (l, ev)" using l flight_okD(4) [OF ok] by auto
      have "j \<noteq> i" using j unheld by (metis option.distinct(1))
      with j show ?thesis by (intro exI [of _ j]) simp
    qed
  next
    fix j j' l l' ev
    assume "held (cw_threads ?w j) = Some (l, ev)" "held (cw_threads ?w j') = Some (l', ev)"
    then show "j = j'" using flight_okD(5) [OF ok] new by (auto split: if_splits)
  next
    fix ev assume "ev \<in> cw_set ?w"
    then show "ev < cw_next ?w" using flight_okD(6) [OF ok] by fastforce
  next
    fix j l ev assume "awaited (cw_threads ?w j) = Some (l, ev)"
    then show "ev \<in> cw_set ?w \<or> cw_inflight ?w l = Some ev"
      using flight_okD(7) [OF ok] free by (fastforce split: if_splits)
  qed
qed

lemma flight_release:
  assumes ok: "flight_ok w" and mine: "held (cw_threads w i) = Some (k, event)"
    and gone: "held p = None" "awaited p = None"
  shows "flight_ok (move i p (release k event w))"
    (is "flight_ok ?w")
proof -
  have here: "cw_inflight w k = Some event" using flight_okD(1) [OF ok mine] .
  have alone: "j = i" if "held (cw_threads w j) = Some (k, ev)" for j ev
    using flight_okD(1) [OF ok that] here that flight_okD(5) [OF ok _ mine] by auto
  have own: "l = k" if "cw_inflight w l = Some event" for l
    using flight_okD(4) [OF ok that] flight_okD(5) [OF ok _ mine] mine by fastforce
  show ?thesis
    unfolding flight_ok_def
  proof (intro conjI allI impI ballI)
    fix j l ev assume "held (cw_threads ?w j) = Some (l, ev)"
    then show "cw_inflight ?w l = Some ev"
      using flight_okD(1) [OF ok, of j l ev] alone gone by (auto split: if_splits)
  next
    fix l ev assume "cw_inflight ?w l = Some ev"
    then show "ev < cw_next ?w" using flight_okD(2) [OF ok] by (auto split: if_splits)
  next
    fix l ev assume "cw_inflight ?w l = Some ev"
    then show "ev \<notin> cw_set ?w" using flight_okD(3) [OF ok] own by (auto split: if_splits)
  next
    fix l ev assume l: "cw_inflight ?w l = Some ev"
    then obtain j where j: "held (cw_threads w j) = Some (l, ev)" using flight_okD(4) [OF ok] by (auto split: if_splits)
    moreover have "j \<noteq> i" using j mine l by auto
    ultimately show "\<exists>j. held (cw_threads ?w j) = Some (l, ev)" by (intro exI [of _ j]) simp
  next
    fix j j' l l' ev
    assume "held (cw_threads ?w j) = Some (l, ev)" "held (cw_threads ?w j') = Some (l', ev)"
    then show "j = j'" using flight_okD(5) [OF ok] gone by (auto split: if_splits)
  next
    fix ev assume "ev \<in> cw_set ?w"
    then show "ev < cw_next ?w" using flight_okD(2,6) [OF ok] here by auto
  next
    fix j l ev assume "awaited (cw_threads ?w j) = Some (l, ev)"
    then show "ev \<in> cw_set ?w \<or> cw_inflight ?w l = Some ev"
      using flight_okD(7) [OF ok, of j l ev] gone here by (auto split: if_splits)
  qed
qed

text \<open>The place a thread is in decides which acts fit; the rest of the proofs go by cases on the act.\<close>

lemmas step_splits = place.splits option.splits if_splits

lemma flight_move:
  assumes "flight_ok w" "held p = held (cw_threads w i)" "awaited p = None"
    and "cw_inflight w' = cw_inflight w" "cw_set w' = cw_set w" "cw_next w' = cw_next w"
    and "cw_threads w' = (cw_threads w)(i := p)"
  shows "flight_ok w'"
  using assms by (intro flight_same [OF assms(1)]) (auto split: if_splits)

lemma flight_step:
  assumes ok: "flight_ok w" and step: "cache_step shared good now a w = Some w'"
  shows "flight_ok w'"
proof (cases a)
  case (Register i)
  then obtain k epoch where i: "cw_threads w i = Missed k epoch" using step by (auto split: step_splits)
  show ?thesis
  proof (cases "cw_inflight w k")
    case None
    then show ?thesis using flight_register [OF ok None, of i epoch] step i Register by simp
  next
    case (Some event)
    then show ?thesis using step i Register by (intro flight_same [OF ok]) (auto split: if_splits)
  qed
next
  case (Compute_raises i)
  then consider k event epoch where "cw_threads w i = Computing k event epoch" "w' = move i (Raised k) (release k event w)"
    | k where "cw_threads w i = Computing_alone k" "w' = move i (Raised k) w"
    using step by (auto split: step_splits)
  then show ?thesis
  proof cases
    case 1
    then show ?thesis using flight_release [OF ok, of i k event "Raised k"] by simp
  next
    case 2
    then show ?thesis using flight_move [OF ok, of "Raised k" i] by simp
  qed
next
  case (Release i)
  then show ?thesis using step flight_release [OF ok, of i] by (auto split: step_splits)
qed (use step in \<open>auto intro: flight_same [OF ok] split: step_splits\<close>)

lemma flight_reached: "reached shared good w \<Longrightarrow> flight_ok w"
proof (induction rule: reached.induct)
  case start
  then show ?case by (simp add: flight_ok_def new_world_def)
qed (rule flight_step)

section \<open>Values\<close>

fun carried :: "'v place \<Rightarrow> (string \<times> 'v) option" where
  "carried (Shared_found k v) = Some (k, v)"
| "carried (Computed k event epoch v) = Some (k, v)"
| "carried (Publishing k event epoch v) = Some (k, v)"
| "carried (Releasing k event v) = Some (k, v)"
| "carried (Returned k v) = Some (k, v)"
| "carried p = None"

definition values_ok :: "(string \<Rightarrow> 'v \<Rightarrow> bool) \<Rightarrow> 'v cache_world \<Rightarrow> bool" where
  "values_ok good w \<longleftrightarrow>
     entries_good good (cw_store w) \<and>
     (\<forall>e k v. cw_shared w (e, k) = Some v \<longrightarrow> good k v) \<and>
     (\<forall>i k v. carried (cw_threads w i) = Some (k, v) \<longrightarrow> good k v)"

lemma values_step:
  assumes ok: "values_ok good w" and step: "cache_step shared good now a w = Some w'"
  shows "values_ok good w'"
proof -
  have thread: "carried (cw_threads w i) = Some (k, v) \<Longrightarrow> good k v" for i k v
    using ok by (simp add: values_ok_def)
  have at: "cw_threads w i = Shared_found k v \<Longrightarrow> good k v" "cw_threads w i = Computed k ev epoch v \<Longrightarrow> good k v"
    "cw_threads w i = Publishing k ev epoch v \<Longrightarrow> good k v" "cw_threads w i = Releasing k ev v \<Longrightarrow> good k v"
    for i k v ev epoch
    using thread [of i k v] by simp_all
  have base: "cw_shared w (e, k) = Some v \<Longrightarrow> good k v" for e k v
    using ok by (simp add: values_ok_def)
  have entries: "entries_good good (cw_store w)"
    using ok by (simp add: values_ok_def)
  note fresh = fresh_entry_good [OF entries]
  have store: "entries_good good (cw_store w')"
    using step entries
    by (cases a) (auto simp: entries_good_Nil split: step_splits intro!: local_put_good [OF entries] intro: at)
  have shared: "good k v" if "cw_shared w' (e, k) = Some v" for e k v
    using that step by (cases a) (auto split: step_splits intro: at base)
  have threads: "good k v" if "carried (cw_threads w' i) = Some (k, v)" for i k v
    using that step by (cases a) (auto split: step_splits intro: at base fresh thread)
  show ?thesis using store shared threads by (auto simp: values_ok_def)
qed

lemma values_reached: "reached shared good w \<Longrightarrow> values_ok good w"
proof (induction rule: reached.induct)
  case start
  then show ?case by (simp add: values_ok_def entries_good_def new_world_def)
qed (rule values_step)

lemma store_reached:
  "reached shared good w \<Longrightarrow> length (cw_store w) \<le> MAX_STORE_SIZE \<and> distinct (map fst (cw_store w))"
proof (induction rule: reached.induct)
  case start
  then show ?case by (simp add: new_world_def)
next
  case (act w now a w')
  then show ?case by (cases a) (auto simp: local_put_bound local_put_distinct split: step_splits)
qed

section \<open>What the cache promises\<close>

fun actor :: "'v act \<Rightarrow> nat option" where
  "actor (Call i k) = Some i"
| "actor (Look i) = Some i"
| "actor (Read_epoch i) = Some i"
| "actor (Read_shared i) = Some i"
| "actor (Read_undecodable i) = Some i"
| "actor (Shared_lookup_fails i) = Some i"
| "actor (Take_shared i) = Some i"
| "actor (Register i) = Some i"
| "actor (Compute i v) = Some i"
| "actor (Compute_raises i) = Some i"
| "actor (Keep i b) = Some i"
| "actor (Publish_epoch i) = Some i"
| "actor (Publish i) = Some i"
| "actor (Publish_fails i) = Some i"
| "actor (Release i) = Some i"
| "actor (Wake i) = Some i"
| "actor Clear_local = None"
| "actor Bump = None"
| "actor Lose_epoch = None"
| "actor (Expire e k) = None"
| "actor (Elsewhere e k v) = None"

text \<open>The most acts a leader at this place does before it has released its followers.\<close>

fun steps_left :: "'v place \<Rightarrow> nat" where
  "steps_left (Computing k event epoch) = 5"
| "steps_left (Computed k event epoch v) = 4"
| "steps_left (Publishing k event epoch v) = (if epoch = None then 3 else 2)"
| "steps_left (Releasing k event v) = 1"
| "steps_left p = 0"

lemma step_elsewhere:
  "cache_step shared good now a w = Some w' \<Longrightarrow> actor a \<noteq> Some j \<Longrightarrow> cw_threads w' j = cw_threads w j"
  by (cases a) (auto split: step_splits)

lemma step_set_grows: "cache_step shared good now a w = Some w' \<Longrightarrow> ev \<in> cw_set w \<Longrightarrow> ev \<in> cw_set w'"
  by (cases a) (auto split: step_splits)

lemma run_set_grows: "run_acts shared good acts w = Some w' \<Longrightarrow> ev \<in> cw_set w \<Longrightarrow> ev \<in> cw_set w'"
proof (induction acts arbitrary: w)
  case (Cons e acts)
  then show ?case using step_set_grows by (cases e) (fastforce split: option.splits)
qed simp

lemma leader_progress:
  assumes "cache_step shared good now a w = Some w'" "actor a = Some j" "held (cw_threads w j) = Some (k, ev)"
  shows "ev \<in> cw_set w' \<or> held (cw_threads w' j) = Some (k, ev) \<and> steps_left (cw_threads w' j) < steps_left (cw_threads w j)"
  using assms by (cases a) (auto split: step_splits)

lemma leader_run:
  assumes "run_acts shared good acts w = Some w'" "held (cw_threads w j) = Some (k, ev)"
  shows "ev \<in> cw_set w' \<or> held (cw_threads w' j) = Some (k, ev) \<and>
    steps_left (cw_threads w' j) + length (filter (\<lambda>(_, a). actor a = Some j) acts) \<le> steps_left (cw_threads w j)"
  using assms
proof (induction acts arbitrary: w)
  case (Cons e acts)
  obtain now a where e: "e = (now, a)" by (cases e)
  obtain w1 where 1: "cache_step shared good now a w = Some w1" "run_acts shared good acts w1 = Some w'"
    using Cons.prems(1) by (auto simp: e split: option.splits)
  show ?case
  proof (cases "actor a = Some j")
    case False
    then show ?thesis using Cons.IH [OF 1(2)] step_elsewhere [OF 1(1) False] Cons.prems(2) by (simp add: e)
  next
    case True
    from leader_progress [OF 1(1) True Cons.prems(2)] show ?thesis
    proof
      assume "ev \<in> cw_set w1"
      then show ?thesis using run_set_grows [OF 1(2)] by blast
    next
      assume h: "held (cw_threads w1 j) = Some (k, ev) \<and> steps_left (cw_threads w1 j) < steps_left (cw_threads w j)"
      then show ?thesis using Cons.IH [OF 1(2)] True by (auto simp: e)
    qed
  qed
qed simp

text \<open>What a leader does when nothing fails, with \<open>v\<close> as the verdict it computes.\<close>

definition ordinary_acts :: "nat \<Rightarrow> 'v \<Rightarrow> 'v act list" where
  "ordinary_acts j v = [Compute j v, Keep j True, Publish_epoch j, Publish j, Release j]"

lemma leader_can_act:
  assumes "held (cw_threads w j) = Some (k, ev)" "good k v"
  shows "list_ex (\<lambda>a. cache_step shared good now a w \<noteq> None) (ordinary_acts j v)"
  using assms by (cases "cw_threads w j") (auto simp: ordinary_acts_def split: option.splits)

lemma waiting_released:
  assumes r: "reached shared good w" and i: "cw_threads w i = Waiting k event" and v: "good k v"
    and run: "run_acts shared good acts w = Some w'" and i': "cw_threads w' i = Waiting k event"
  shows "cache_step shared good now (Wake i) w' \<noteq> None \<or>
    (\<exists>j. held (cw_threads w' j) = Some (k, event) \<and> length (filter (\<lambda>(_, a). actor a = Some j) acts) < 5 \<and>
       list_ex (\<lambda>a. cache_step shared good now a w' \<noteq> None) (ordinary_acts j v))"
proof -
  have wakes: "cache_step shared good now (Wake i) w' \<noteq> None" if "event \<in> cw_set w'"
    using that i' by (simp split: option.split)
  from flight_okD(7) [OF flight_reached [OF r], of i k event] i
  consider "event \<in> cw_set w" | "cw_inflight w k = Some event" by auto
  then show ?thesis
  proof cases
    case 1
    then show ?thesis using wakes run_set_grows [OF run] by blast
  next
    case 2
    then obtain j where j: "held (cw_threads w j) = Some (k, event)" using flight_okD(4) [OF flight_reached [OF r]] by blast
    have most: "steps_left (cw_threads w j) \<le> 5" by (cases "cw_threads w j") simp_all
    show ?thesis
    proof (cases "event \<in> cw_set w'")
      case False
      then have h: "held (cw_threads w' j) = Some (k, event)"
        "steps_left (cw_threads w' j) + length (filter (\<lambda>(_, a). actor a = Some j) acts) \<le> steps_left (cw_threads w j)"
        using leader_run [OF run j] by simp_all
      have "0 < steps_left (cw_threads w' j)" using h(1) by (cases "cw_threads w' j") simp_all
      then show ?thesis using h most leader_can_act [where good = good, OF h(1) v] by (intro disjI2 exI [of _ j]) simp
    qed (use wakes in blast)
  qed
qed

text \<open>
  C14: Of all threads asking for a key at most one has the computation of that key registered, from the moment it
  registers until it has released the others: in no reachable state do two leaders hold the same key, nor do two
  leaders of any keys hold the same event.
\<close>

theorem single_flight:
  assumes "reached shared good w"
    and "held (cw_threads w i) = Some (k, ev)" and "held (cw_threads w j) = Some (l, ev')"
    and "k = l \<or> ev = ev'"
  shows "i = j"
  using flight_okD(1,5) [OF flight_reached [OF assms(1)]] assms(2-4) by (metis option.inject)

text \<open>Two callers of one key: the second waits while the first computes.\<close>

definition both_call :: "(rat \<times> int act) list" where
  "both_call =
     [(0, Call 0 ''k''), (0, Call 1 ''k''), (0, Look 0), (0, Look 1), (0, Register 0), (0, Register 1)]"

definition both_world :: "int cache_world" where
  "both_world = the (run_acts (\<lambda>_. False) (\<lambda>_ _. True) both_call new_world)"

lemmas both_eval = both_world_def both_call_def new_world_def fresh_entry_def move_def

lemma both_world_reached: "reached (\<lambda>_. False) (\<lambda>_ _. True) both_world"
proof (rule reached_run [OF reached.start])
  show "run_acts (\<lambda>_. False) (\<lambda>_ _. True) both_call new_world = Some both_world"
    by (simp add: both_eval)
qed

lemma both_world_threads:
  "cw_threads both_world 0 = Computing ''k'' 0 None" "cw_threads both_world 1 = Waiting ''k'' 0"
  by (simp_all add: both_eval)

theorem single_flight_witness: "{j. \<exists>ev. held (cw_threads both_world j) = Some (''k'', ev)} = {0}"
proof -
  have leader: "held (cw_threads both_world 0) = Some (''k'', 0)" using both_world_threads by simp
  then show ?thesis using single_flight [OF both_world_reached leader] by auto
qed

text \<open>
  C31: No follower waits for ever: whatever the threads and Redis have done since, a thread that still waits on an event
  can go on, or the leader that registered the event has made fewer than five acts since and the next of its ordinary
  acts is open to it, as soon as the computation returns.  So the fifth act of the leader at the latest releases it,
  and no act of another thread can hold the leader up.
\<close>

theorem follower_released:
  assumes "reached shared good w" and "cw_threads w i = Waiting k event" and "good k v"
    and "run_acts shared good acts w = Some w'" and "cw_threads w' i = Waiting k event"
  shows "cache_step shared good now (Wake i) w' \<noteq> None \<or>
    (\<exists>j. held (cw_threads w' j) = Some (k, event) \<and> length (filter (\<lambda>(_, a). actor a = Some j) acts) < 5 \<and>
       list_ex (\<lambda>a. cache_step shared good now a w' \<noteq> None) (ordinary_acts j v))"
  using assms by (rule waiting_released)

text \<open>After the five acts of a leader that publishes, its follower can go on.\<close>

definition published_acts :: "(rat \<times> int act) list" where
  "published_acts = [(1, Compute 0 7), (1, Keep 0 True), (2, Publish_epoch 0), (2, Publish 0), (3, Release 0)]"

definition shared_call :: "(rat \<times> int act) list" where
  "shared_call =
     [(0, Call 0 ''k''), (0, Call 1 ''k''), (0, Look 0), (0, Look 1), (0, Shared_lookup_fails 0),
      (0, Shared_lookup_fails 1), (0, Register 0), (0, Register 1)]"

definition shared_world :: "int cache_world" where
  "shared_world = the (run_acts (\<lambda>_. True) (\<lambda>_ _. True) shared_call new_world)"

definition published_world :: "int cache_world" where
  "published_world = the (run_acts (\<lambda>_. True) (\<lambda>_ _. True) published_acts shared_world)"

lemmas shared_eval =
  published_world_def shared_world_def shared_call_def published_acts_def new_world_def fresh_entry_def move_def release_def

lemma shared_world_run:
  "run_acts (\<lambda>_. True) (\<lambda>_ _. True) shared_call new_world = Some shared_world"
  "run_acts (\<lambda>_. True) (\<lambda>_ _. True) published_acts shared_world = Some published_world"
  by (simp_all add: shared_eval)

lemma shared_world_threads: "cw_threads shared_world 1 = Waiting ''k'' 0" "cw_threads published_world 1 = Waiting ''k'' 0"
  "cw_threads published_world 0 = Returned ''k'' 7"
  by (simp_all add: shared_eval)

theorem follower_released_witness:
  "cache_step (\<lambda>_. True) (\<lambda>_ _. True) 3 (Wake 1) published_world \<noteq> None"
proof -
  have "\<not> (\<exists>j. held (cw_threads published_world j) = Some (''k'', 0) \<and> length (filter (\<lambda>(_, a). actor a = Some j) published_acts) < 5 \<and>
      list_ex (\<lambda>a. cache_step (\<lambda>_. True) (\<lambda>_ _. True) 3 a published_world \<noteq> None) (ordinary_acts j 7))"
  proof -
    have "j = 0" if "held (cw_threads published_world j) = Some (''k'', 0)" for j
      using that by (simp add: shared_eval split: if_splits)
    then show ?thesis using shared_world_threads(3) by fastforce
  qed
  moreover have "cache_step (\<lambda>_. True) (\<lambda>_ _. True) 3 (Wake 1) published_world \<noteq> None \<or>
      (\<exists>j. held (cw_threads published_world j) = Some (''k'', 0) \<and> length (filter (\<lambda>(_, a). actor a = Some j) published_acts) < 5 \<and>
        list_ex (\<lambda>a. cache_step (\<lambda>_. True) (\<lambda>_ _. True) 3 a published_world \<noteq> None) (ordinary_acts j 7))"
    by (rule follower_released [OF reached_run [OF reached.start shared_world_run(1)] shared_world_threads(1) TrueI
        shared_world_run(2) shared_world_threads(2)])
  ultimately show ?thesis by blast
qed

text \<open>
  A call returns only verdicts that \<^verbatim>\<open>compute_fn\<close> returns for its key, from whichever layer they come, and
  the process store holds at most 256 entries with distinct keys.
\<close>

theorem cache_returns_computed:
  assumes "reached shared good w"
  shows "length (cw_store w) \<le> 256 \<and> distinct (map fst (cw_store w)) \<and>
    (\<forall>i k v. cw_threads w i = Returned k v \<longrightarrow> good k v)"
proof (intro conjI allI impI)
  show "length (cw_store w) \<le> 256" "distinct (map fst (cw_store w))"
    using store_reached [OF assms] by (auto simp: MAX_STORE_SIZE_def)
  fix i k v assume "cw_threads w i = Returned k v"
  then have "carried (cw_threads w i) = Some (k, v)" by simp
  then show "good k v" using values_reached [OF assms] unfolding values_ok_def by blast
qed

text \<open>Both callers answered, from one computation.\<close>

definition answered_world :: "int cache_world" where
  "answered_world = the (run_acts (\<lambda>_. False) (\<lambda>_ v. v = 7)
     (both_call @ [(20, Compute 0 7), (20, Keep 0 True), (20, Release 0), (21, Wake 1)]) new_world)"

lemmas answered_eval =
  answered_world_def both_call_def new_world_def fresh_entry_def move_def release_def local_put_def prune_expired_def
  evict_oldest.simps MAX_STORE_SIZE_def TTL_SECONDS_def

lemma answered_world_reached: "reached (\<lambda>_. False) (\<lambda>_ v. v = 7) answered_world"
proof (rule reached_run [OF reached.start])
  show "run_acts (\<lambda>_. False) (\<lambda>_ v. v = 7)
      (both_call @ [(20, Compute 0 7), (20, Keep 0 True), (20, Release 0), (21, Wake 1)]) new_world = Some answered_world"
    by (simp add: answered_eval)
qed

theorem cache_returns_computed_witness:
  "length (cw_store answered_world) \<le> 256 \<and> map (cw_threads answered_world) [0, 1] = [Returned ''k'' 7, Returned ''k'' 7]"
proof -
  have "map (cw_threads answered_world) [0, 1] = [Returned ''k'' 7, Returned ''k'' 7]" by (simp add: answered_eval)
  then show ?thesis using cache_returns_computed [OF answered_world_reached] by blast
qed

text \<open>
  A clear is undone for every process when the lookup before the computation could not reach Redis: the
  verdict computed before the clear is then published under the epoch that is read at the time of writing.  Here the
  verdict 1 is computed, the cache is cleared while it is in flight, and a caller with no copy in its process, the local copy
  being dropped once more before its call, still gets 1 under the new epoch.
\<close>

theorem clear_undone:
  "map_option (\<lambda>w. (cw_epoch w, cw_threads w 1))
     (run_acts (\<lambda>_. True) (\<lambda>_ v. v = (1 :: int) \<or> v = 2)
        [(0, Call 0 ''k''), (0, Look 0), (0, Shared_lookup_fails 0), (0, Register 0), (1, Compute 0 1),
         (2, Clear_local), (2, Bump),
         (3, Keep 0 True), (3, Publish_epoch 0), (3, Publish 0), (3, Release 0), (3, Clear_local),
         (4, Call 1 ''k''), (4, Look 1), (4, Read_epoch 1), (4, Read_shared 1), (4, Take_shared 1)]
        new_world)
   = Some (1, Returned ''k'' 1)"
  by (simp add: new_world_def fresh_entry_def move_def release_def)

end
