(* ===== verification/PaperReplay.thy ===== *)
theory PaperReplay
  imports StrategyDsl "HOL-Library.AList" "HOL-Library.List_Lexorder" "HOL-Library.Char_ord" "HOL-Library.Product_Lexorder"
begin

text \<open>
  The replay behind a paper deployment: \<^verbatim>\<open>_sleeve_dated_returns\<close>, \<^verbatim>\<open>_replay\<close> and \<^verbatim>\<open>_position_set\<close> of
  \<^verbatim>\<open>services/paper_trading.py\<close> and the portfolio snapshots of \<^verbatim>\<open>services/paper_trace.py\<close>.

  Days are integers.  The price panel and what the graded engine returns for a sleeve (its equity curve and its
  journal of orders) are arguments; prices, sizes and equities are finite doubles, rounded with \<open>fl\<close> where the
  code computes.  Dictionaries are association lists in insertion order.
\<close>

definition dict_of :: "('k \<times> 'v) list \<Rightarrow> ('k \<times> 'v) list" where
  "dict_of kvs = fold (\<lambda>(k, v). AList.update k v) kvs []"

text \<open>The exceptions of the paper modules, as far as their callers tell them apart.\<close>

datatype paper_exn = PaperReplayError | DSLError | PaperTraceCoverageError | OtherError

section \<open>Sleeves\<close>

record leg =
  lg_symbol :: string
  lg_side :: string
  lg_size :: rat
  lg_price :: rat
  lg_value :: rat
  lg_commission :: rat
  lg_decided_on :: int
  lg_filled_on :: int
  lg_cash_before :: rat
  lg_cash_after :: rat
  lg_position_before :: rat
  lg_position_after :: rat

text \<open>A frame is its bars, a day and a close each.\<close>

type_synonym frame = "(int \<times> rat) list"

record sleeve_run =
  sr_equity_curve :: "rat list"
  sr_journal :: "leg list option"

fun curve_returns :: "rat list \<Rightarrow> rat list" where
  "curve_returns (p # c # cs) =
     (if 0 < p then [fl (fl (c - p) / p)] else []) @ curve_returns (c # cs)"
| "curve_returns _ = []"

text \<open>
  \<^verbatim>\<open>dict(zip(idx[-len(rets):], rets, strict=True))\<close>: without returns the slice is the whole index, and the
  strict zip raises unless that is empty.
\<close>

definition tail_aligned :: "int list \<Rightarrow> rat list \<Rightarrow> paper_exn + (int \<times> rat) list" where
  "tail_aligned idx rets =
     (if rets = [] then (if idx = [] then Inr [] else Inl OtherError)
      else Inr (dict_of (zip (drop (length idx - length rets) idx) rets)))"

definition sleeve_dated_returns ::
  "string \<Rightarrow> frame \<Rightarrow> sleeve_run \<Rightarrow> bool \<Rightarrow> paper_exn + (int \<times> rat) list \<times> leg list" where
  "sleeve_dated_returns symbol frame metrics decisions =
     (let curve = sr_equity_curve metrics; rets = curve_returns curve; idx = map fst frame
      in if length curve < 2 then Inl PaperReplayError
         else if length idx < length rets then Inl PaperReplayError
         else if decisions \<and> sr_journal metrics = None then Inl PaperReplayError
         else (case tail_aligned idx rets of
                 Inl e \<Rightarrow> Inl e
               | Inr dated \<Rightarrow>
                   Inr (dated,
                        if decisions then map (\<lambda>l. l\<lparr>lg_symbol := symbol\<rparr>) (the (sr_journal metrics)) else [])))"

section \<open>Portfolio snapshots\<close>

definition mark_price :: "(int \<times> rat) list \<Rightarrow> int \<Rightarrow> leg option \<Rightarrow> rat option" where
  "mark_price closes decision_date last_leg =
     (case map_of closes decision_date of
        Some c \<Rightarrow> Some c
      | None \<Rightarrow>
          (let earlier = filter (\<lambda>d. d \<le> decision_date) (map fst closes)
           in if earlier \<noteq> [] then map_of closes (Max (set earlier))
              else map_option lg_price last_leg))"

datatype side = Before | After

record holding =
  hd_size :: rat
  hd_price :: "rat option"
  hd_value :: "rat option"

record snapshot =
  sn_holdings :: "(string \<times> holding) list"
  sn_cash :: rat

fun position_on :: "side \<Rightarrow> leg \<Rightarrow> rat" where
  "position_on Before l = lg_position_before l"
| "position_on After l = lg_position_after l"

fun cash_on :: "side \<Rightarrow> leg \<Rightarrow> rat" where
  "cash_on Before l = lg_cash_before l"
| "cash_on After l = lg_cash_after l"

text \<open>Size, cash and price of one sleeve on one side of a decision.\<close>

definition sleeve_state ::
  "int \<Rightarrow> side \<Rightarrow> rat \<Rightarrow> (int \<times> rat) list \<Rightarrow> leg list \<Rightarrow> rat \<times> rat \<times> rat option" where
  "sleeve_state decision_date side initial_cash closes sleeve_legs =
     (let legs = sort_key (\<lambda>l. (lg_decided_on l, lg_filled_on l)) sleeve_legs;
          on_date = filter (\<lambda>l. lg_decided_on l = decision_date) legs;
          earlier = filter (\<lambda>l. lg_decided_on l < decision_date) legs
      in if on_date \<noteq> []
         then (let l = (if side = Before then hd on_date else last on_date)
               in (position_on side l, cash_on side l, Some (lg_price l)))
         else (let prior = (if earlier = [] then None else Some (last earlier))
               in (case prior of None \<Rightarrow> 0 | Some l \<Rightarrow> lg_position_after l,
                   case prior of None \<Rightarrow> initial_cash | Some l \<Rightarrow> lg_cash_after l,
                   mark_price closes decision_date prior)))"

definition holding_of :: "rat \<times> rat \<times> rat option \<Rightarrow> holding" where
  "holding_of st = (case st of (sz, _, price) \<Rightarrow>
     \<lparr>hd_size = py_round 6 sz, hd_price = map_option (py_round 6) price,
      hd_value = map_option (\<lambda>p. py_round 6 (fl (sz * p))) price\<rparr>)"

text \<open>The loop over the sleeves in the order of their symbols, with the running sum \<^verbatim>\<open>cash += sleeve_cash\<close>.\<close>

definition symbol_state ::
  "int \<Rightarrow> side \<Rightarrow> (string \<times> leg list) list \<Rightarrow> rat \<Rightarrow> (string \<times> (int \<times> rat) list) list \<Rightarrow> string \<Rightarrow> rat \<times> rat \<times> rat option"
  where
  "symbol_state decision_date side sleeve_legs initial_cash sleeve_closes s =
     sleeve_state decision_date side initial_cash
       (case map_of sleeve_closes s of None \<Rightarrow> [] | Some c \<Rightarrow> c) (the (map_of sleeve_legs s))"

fun gather_sleeves ::
  "int \<Rightarrow> side \<Rightarrow> (string \<times> leg list) list \<Rightarrow> rat \<Rightarrow> (string \<times> (int \<times> rat) list) list \<Rightarrow> string list \<Rightarrow> rat \<Rightarrow>
   (string \<times> holding) list \<times> rat" where
  "gather_sleeves decision_date side sleeve_legs initial_cash sleeve_closes [] cash = ([], cash)"
| "gather_sleeves decision_date side sleeve_legs initial_cash sleeve_closes (s # ss) cash =
     (let st = symbol_state decision_date side sleeve_legs initial_cash sleeve_closes s;
          (holdings, sum) = gather_sleeves decision_date side sleeve_legs initial_cash sleeve_closes ss (fl (cash + fst (snd st)))
      in ((s, holding_of st) # holdings, sum))"

definition deployment_portfolio ::
  "int \<Rightarrow> side \<Rightarrow> (string \<times> leg list) list \<Rightarrow> rat \<Rightarrow> (string \<times> (int \<times> rat) list) list \<Rightarrow> snapshot" where
  "deployment_portfolio decision_date side sleeve_legs initial_cash sleeve_closes =
     (case gather_sleeves decision_date side sleeve_legs initial_cash sleeve_closes (sort (map fst sleeve_legs)) 0 of
        (holdings, cash) \<Rightarrow> \<lparr>sn_holdings = holdings, sn_cash = py_round 6 cash\<rparr>)"

lemma gather_holdings:
  "fst (gather_sleeves d side ls cash0 closes ss cash) = map (\<lambda>s. (s, holding_of (symbol_state d side ls cash0 closes s))) ss"
  by (induction ss arbitrary: cash) (simp_all add: Let_def case_prod_beta')

section \<open>The replay\<close>

record decision =
  dc_legs :: "leg list"
  dc_before :: snapshot
  dc_after :: snapshot

record position_set =
  ps_as_of :: int
  ps_weights :: "(string \<times> rat) list"
  ps_ref_prices :: "(string \<times> rat) list"

definition dated_closes :: "frame \<Rightarrow> (int \<times> rat) list" where
  "dated_closes frame = dict_of frame"

fun position_legs :: "(string \<times> frame) list \<Rightarrow> rat \<Rightarrow> int \<Rightarrow> (string \<times> rat) list \<Rightarrow>
    ((string \<times> rat) list \<times> (string \<times> rat) list) option" where
  "position_legs frames whole as_of [] = Some ([], [])"
| "position_legs frames whole as_of ((symbol, equity) # rest) =
     (case map_of frames symbol of
        None \<Rightarrow> None
      | Some frame \<Rightarrow>
          (case map_of (dated_closes frame) as_of of
             None \<Rightarrow> None
           | Some close \<Rightarrow>
               if close \<le> 0 then None
               else map_option (\<lambda>(ws, ps). ((symbol, fl (equity / whole)) # ws, (symbol, close) # ps))
                      (position_legs frames whole as_of rest)))"

definition make_position_set :: "(string \<times> frame) list \<Rightarrow> (string \<times> rat) list \<Rightarrow> int \<Rightarrow> position_set option" where
  "make_position_set frames equities as_of =
     (let whole = py_sum (map snd equities)
      in if whole \<le> 0 then None
         else map_option (\<lambda>(ws, ps). \<lparr>ps_as_of = as_of, ps_weights = ws, ps_ref_prices = ps\<rparr>)
                (position_legs frames whole as_of equities))"

text \<open>The days that every sleeve has, in order.\<close>

definition common_days :: "(string \<times> (int \<times> rat) list) list \<Rightarrow> int list" where
  "common_days sleeves =
     (case sleeves of
        [] \<Rightarrow> []
      | s # rest \<Rightarrow>
          sort (filter (\<lambda>d. list_all (\<lambda>(_, r). d \<in> set (map fst r)) rest) (remdups (map fst (snd s)))))"

text \<open>One day of the compounding sleeves: \<^verbatim>\<open>equities[symbol] *= 1.0 + sleeves[symbol][d]\<close>.\<close>

definition compound :: "(string \<times> (int \<times> rat) list) list \<Rightarrow> int \<Rightarrow> (string \<times> rat) list \<Rightarrow> (string \<times> rat) list" where
  "compound sleeves d equities =
     map (\<lambda>(symbol, e). (symbol, fl (e * fl (1 + the (map_of (the (map_of sleeves symbol)) d))))) equities"

fun replay_days ::
  "(string \<times> (int \<times> rat) list) list \<Rightarrow> int \<Rightarrow> int list \<Rightarrow> (string \<times> rat) list \<Rightarrow> (int \<times> rat) list \<times> (string \<times> rat) list"
  where
  "replay_days sleeves deployed_at [] equities = ([], equities)"
| "replay_days sleeves deployed_at (d # ds) equities =
     (let total_before = py_sum (map snd equities);
          equities' = compound sleeves d equities;
          total_after = py_sum (map snd equities');
          (out, final) = replay_days sleeves deployed_at ds equities'
      in (if deployed_at \<le> d \<and> 0 < total_before
          then (d, fl (fl (total_after / total_before) - 1)) # out else out, final))"

fun run_sleeves ::
  "(string \<Rightarrow> paper_exn + sleeve_run) \<Rightarrow> bool \<Rightarrow> (string \<times> frame) list \<Rightarrow>
   paper_exn + (string \<times> (int \<times> rat) list \<times> leg list) list" where
  "run_sleeves engine decisions [] = Inr []"
| "run_sleeves engine decisions ((symbol, frame) # rest) =
     (case engine symbol of
        Inl e \<Rightarrow> Inl e
      | Inr r \<Rightarrow>
          (case sleeve_dated_returns symbol frame r decisions of
             Inl e \<Rightarrow> Inl e
           | Inr sl \<Rightarrow>
               (case run_sleeves engine decisions rest of Inl e \<Rightarrow> Inl e | Inr sls \<Rightarrow> Inr ((symbol, sl) # sls))))"

definition leg_order :: "leg \<Rightarrow> string \<times> string \<times> rat" where
  "leg_order l = (lg_symbol l, lg_side l, lg_size l)"

text \<open>The loop over \<^verbatim>\<open>dated_legs\<close>: the legs of the day in a fixed order, and the two snapshots.\<close>

fun decide_days ::
  "(string \<times> (int \<times> rat) list) list \<Rightarrow> rat \<Rightarrow> (string \<times> leg list) list \<Rightarrow> leg list \<Rightarrow> int list \<Rightarrow> (int \<times> decision) list" where
  "decide_days closes initial_cash sleeve_legs legs [] = []"
| "decide_days closes initial_cash sleeve_legs legs (d # ds) =
     (d, \<lparr>dc_legs = sort_key leg_order (filter (\<lambda>l. lg_decided_on l = d) legs),
          dc_before = deployment_portfolio d Before sleeve_legs initial_cash closes,
          dc_after = deployment_portfolio d After sleeve_legs initial_cash closes\<rparr>)
     # decide_days closes initial_cash sleeve_legs legs ds"

definition dated_decisions ::
  "(string \<times> frame) list \<Rightarrow> rat \<Rightarrow> int \<Rightarrow> (string \<times> leg list) list \<Rightarrow> (int \<times> decision) list" where
  "dated_decisions frames initial_cash deployed_at sleeve_legs =
     (let legs = filter (\<lambda>l. deployed_at \<le> lg_decided_on l) (concat (map snd sleeve_legs))
      in decide_days (map (\<lambda>(s, frame). (s, dated_closes frame)) frames) initial_cash sleeve_legs legs
           (rev (remdups (rev (map lg_decided_on legs)))))"

record replay_result =
  rr_returns :: "(int \<times> rat) list"
  rr_positions :: "position_set option"
  rr_decisions :: "(int \<times> decision) list"

text \<open>
  \<^verbatim>\<open>_replay\<close> with its decisions.  \<open>fetch\<close> is \<^verbatim>\<open>fetch_real_panel\<close> and \<open>engine\<close> the graded engine on one sleeve.
\<close>

definition replay ::
  "(string list \<Rightarrow> (string \<times> frame) list option) \<Rightarrow> (strategy_spec \<Rightarrow> string \<Rightarrow> paper_exn + sleeve_run) \<Rightarrow> rat \<Rightarrow>
   pyval \<Rightarrow> int \<Rightarrow> paper_exn + replay_result" where
  "replay fetch engine initial_cash spec_dict deployed_at =
     (case validate_strategy_spec spec_dict of
        Inl e \<Rightarrow> Inl (if e = Unhashable_value then OtherError else DSLError)
      | Inr spec \<Rightarrow>
          (case fetch (sp_asset_universe spec) of
             None \<Rightarrow> Inl PaperReplayError
           | Some frames \<Rightarrow>
               (case run_sleeves (engine spec) True frames of
                  Inl e \<Rightarrow> Inl e
                | Inr sls \<Rightarrow>
                    (let sleeves = map (\<lambda>(symbol, r, _). (symbol, r)) sls;
                         days = common_days sleeves;
                         decisions = dated_decisions frames initial_cash deployed_at (map (\<lambda>(symbol, _, ls). (symbol, ls)) sls)
                     in if sls = [] then Inl PaperReplayError
                        else if days = [] then Inl PaperReplayError
                        else (case replay_days sleeves deployed_at days (map (\<lambda>(symbol, _). (symbol, 1)) sleeves) of
                                (out, equities) \<Rightarrow>
                                  Inr \<lparr>rr_returns = out,
                                       rr_positions = make_position_set frames equities (last days),
                                       rr_decisions = decisions\<rparr>)))))"

section \<open>Days of the ledger\<close>

lemma set_dict_of_keys: "fst ` set (dict_of kvs) = fst ` set kvs"
proof -
  have "fst ` set (fold (\<lambda>(k, v). AList.update k v) kvs acc) = fst ` set kvs \<union> fst ` set acc" for acc
  proof (induction kvs arbitrary: acc)
    case (Cons kv kvs)
    obtain k v where kv: "kv = (k, v)" by (cases kv)
    have "fst ` set (AList.update k v acc) = insert k (fst ` set acc)" using dom_update [of k v acc] by simp
    then show ?case using Cons.IH [of "AList.update k v acc"] by (simp add: kv)
  qed simp
  then show ?thesis by (simp add: dict_of_def)
qed

lemma tail_aligned_keys:
  assumes "tail_aligned idx rets = Inr dated"
  shows "fst ` set dated \<subseteq> set idx"
proof (cases "rets = []")
  case True
  then show ?thesis using assms by (auto simp: tail_aligned_def split: if_splits)
next
  case False
  have zip_keys: "fst ` set (zip xs ys) \<subseteq> set xs" for xs :: "int list" and ys :: "rat list"
    by (auto dest: set_zip_leftD)
  from False have "dated = dict_of (zip (drop (length idx - length rets) idx) rets)" using assms by (simp add: tail_aligned_def)
  then have "fst ` set dated \<subseteq> set (drop (length idx - length rets) idx)"
    using set_dict_of_keys [of "zip (drop (length idx - length rets) idx) rets"] zip_keys by blast
  then show ?thesis by (rule order_trans) (rule set_drop_subset)
qed

lemma sleeve_days: "sleeve_dated_returns symbol frame metrics decisions = Inr (dated, legs) \<Longrightarrow> fst ` set dated \<subseteq> fst ` set frame"
  using tail_aligned_keys [of "map fst frame"]
  by (fastforce simp: sleeve_dated_returns_def Let_def split: if_splits sum.splits)

lemma run_sleeves_days:
  "run_sleeves engine decisions frames = Inr sls \<Longrightarrow>
   list_all2 (\<lambda>(s, r, _) (s', frame). s = s' \<and> fst ` set r \<subseteq> fst ` set frame) sls frames"
proof (induction frames arbitrary: sls)
  case (Cons f frames)
  obtain s frame where f: "f = (s, frame)" by (cases f)
  with Cons.prems obtain metrics dated legs rest where
    "sleeve_dated_returns s frame metrics decisions = Inr (dated, legs)"
    "run_sleeves engine decisions frames = Inr rest" "sls = (s, dated, legs) # rest"
    by (auto split: sum.splits)
  then show ?case using Cons.IH sleeve_days by (simp add: f)
qed simp

lemma common_days_in: "d \<in> set (common_days sleeves) \<Longrightarrow> (s, r) \<in> set sleeves \<Longrightarrow> d \<in> fst ` set r"
  by (fastforce simp: common_days_def list_all_iff split: list.splits)

lemma common_days_sorted: "sorted_wrt (<) (common_days sleeves)"
  by (auto simp: common_days_def strict_sorted_iff split: list.split)

lemma replay_days_fst:
  "out_days = map fst (fst (replay_days sleeves deployed_at days equities)) \<Longrightarrow>
   set out_days \<subseteq> {d \<in> set days. deployed_at \<le> d} \<and> (sorted_wrt (<) days \<longrightarrow> sorted_wrt (<) out_days)"
proof (induction days arbitrary: equities out_days)
  case (Cons d days)
  let ?rest = "replay_days sleeves deployed_at days (compound sleeves d equities)"
  have "set (map fst (fst ?rest)) \<subseteq> {d \<in> set days. deployed_at \<le> d}"
    "sorted_wrt (<) days \<longrightarrow> sorted_wrt (<) (map fst (fst ?rest))"
    using Cons.IH [OF refl] by blast+
  then show ?case using Cons.prems by (cases ?rest) (auto simp: Let_def)
qed simp

lemma replay_Inr:
  assumes "replay fetch engine initial_cash spec_dict deployed_at = Inr r"
  obtains spec frames sls where
    "validate_strategy_spec spec_dict = Inr spec" "fetch (sp_asset_universe spec) = Some frames"
    "run_sleeves (engine spec) True frames = Inr sls"
    "rr_returns r = fst (replay_days (map (\<lambda>(s, r, _). (s, r)) sls) deployed_at
       (common_days (map (\<lambda>(s, r, _). (s, r)) sls)) (map (\<lambda>(s, r, _). (s, 1)) sls))"
  using assms
  by (auto simp: replay_def Let_def case_prod_beta' comp_def split: sum.splits option.splits if_splits)

lemma replay_days_ordered:
  assumes "replay fetch engine initial_cash spec_dict deployed_at = Inr r"
  shows "sorted_wrt (<) (map fst (rr_returns r))"
proof (rule replay_Inr [OF assms])
  fix sls
  assume r: "rr_returns r = fst (replay_days (map (\<lambda>(s, r, _). (s, r)) sls) deployed_at
       (common_days (map (\<lambda>(s, r, _). (s, r)) sls)) (map (\<lambda>(s, r, _). (s, 1)) sls))"
  show ?thesis unfolding r using replay_days_fst [OF refl] common_days_sorted by blast
qed

text \<open>
  The days a replay contributes to a ledger are in order and without repetition, none is before the day of the
  deployment, and on each of them every sleeve of the price panel has a bar of its own.
\<close>

theorem replay_days_traded:
  assumes "replay fetch engine initial_cash spec_dict deployed_at = Inr r"
  shows "\<exists>spec frames. validate_strategy_spec spec_dict = Inr spec \<and> fetch (sp_asset_universe spec) = Some frames \<and>
    sorted_wrt (<) (map fst (rr_returns r)) \<and>
    list_all (\<lambda>d. deployed_at \<le> d \<and> list_all (\<lambda>(_, frame). d \<in> fst ` set frame) frames) (map fst (rr_returns r))"
proof -
  obtain spec frames sls where r: "validate_strategy_spec spec_dict = Inr spec" "fetch (sp_asset_universe spec) = Some frames"
    "run_sleeves (engine spec) True frames = Inr sls"
    "rr_returns r = fst (replay_days (map (\<lambda>(s, r, _). (s, r)) sls) deployed_at
       (common_days (map (\<lambda>(s, r, _). (s, r)) sls)) (map (\<lambda>(s, r, _). (s, 1)) sls))"
    using replay_Inr [OF assms] by metis
  let ?sleeves = "map (\<lambda>(s, r, _). (s, r)) sls"
  have days: "set (map fst (rr_returns r)) \<subseteq> {d \<in> set (common_days ?sleeves). deployed_at \<le> d}"
    "sorted_wrt (<) (map fst (rr_returns r))"
    using replay_days_fst [OF refl] replay_days_ordered [OF assms] unfolding r(4) by blast+
  have "d \<in> fst ` set frame" if d: "d \<in> set (common_days ?sleeves)" and f: "(s, frame) \<in> set frames" for d s frame
  proof -
    obtain i where i: "i < length frames" "frames ! i = (s, frame)" using f by (auto simp: in_set_conv_nth)
    obtain s' dated legs where e: "sls ! i = (s', dated, legs)" using prod_cases3 by blast
    have all: "list_all2 (\<lambda>(s, r, _) (s', frame). s = s' \<and> fst ` set r \<subseteq> fst ` set frame) sls frames"
      using run_sleeves_days [OF r(3)] .
    then have len: "i < length sls" using i by (simp add: list_all2_lengthD)
    have sub: "fst ` set dated \<subseteq> fst ` set frame" using list_all2_nthD [OF all len] i e by simp
    have "(s', dated, legs) \<in> set sls" using len e by (metis nth_mem)
    then have "(s', dated) \<in> set ?sleeves" by (force intro: rev_image_eqI)
    then have "d \<in> fst ` set dated" by (rule common_days_in [OF d])
    then show ?thesis by (rule subsetD [OF sub])
  qed
  then have "list_all (\<lambda>d. deployed_at \<le> d \<and> list_all (\<lambda>(_, frame). d \<in> fst ` set frame) frames) (map fst (rr_returns r))"
    using days(1) unfolding list_all_iff by blast
  then show ?thesis using days(2) r(1,2) by blast
qed

definition small_replay :: "paper_exn + replay_result" where
  "small_replay = replay (\<lambda>_. Some [(''SPY'', [(1, 10), (2, 20)]), (''QQQ'', [(2, 5), (3, 5)])])
     (\<lambda>_ _. Inr \<lparr>sr_equity_curve = [1, 2, 2], sr_journal = Some []\<rparr>) 100000 (PDict FABER_2007_SPEC) 1"

lemma small_replay_days: "map_option (map fst \<circ> rr_returns) (case small_replay of Inl _ \<Rightarrow> None | Inr r \<Rightarrow> Some r) = Some [2]"
  by code_simp

theorem replay_days_traded_witness: "\<exists>r. small_replay = Inr r \<and> map fst (rr_returns r) = [2] \<and> sorted_wrt (<) (map fst (rr_returns r))"
proof -
  obtain r where r: "small_replay = Inr r" "map fst (rr_returns r) = [2]"
    using small_replay_days by (auto split: sum.splits)
  have "sorted_wrt (<) (map fst (rr_returns r))"
    using replay_days_traded [OF r(1) [unfolded small_replay_def]] by (elim exE conjE)
  with r show ?thesis by (intro exI [of _ r] conjI)
qed

section \<open>Snapshots\<close>

lemma untraded_state:
  assumes "\<not> list_ex (\<lambda>l. lg_decided_on l = d) legs"
  shows "sleeve_state d Before cash closes legs = sleeve_state d After cash closes legs"
proof -
  have "filter (\<lambda>l. lg_decided_on l = d) (sort_key (\<lambda>l. (lg_decided_on l, lg_filled_on l)) legs) = []"
    using assms by (auto simp: filter_empty_conv list_ex_iff)
  then show ?thesis by (simp add: sleeve_state_def)
qed

text \<open>
  A snapshot lists every sleeve of the deployment, traded or not, under its symbol and in order, and a sleeve
  that placed no order on the day has the same entry before and after the decision.
\<close>

theorem snapshot_covers_sleeves:
  assumes "distinct (map fst sleeve_legs)" and "(s, legs) \<in> set sleeve_legs"
    and "\<not> list_ex (\<lambda>l. lg_decided_on l = d) legs"
  shows "map fst (sn_holdings (deployment_portfolio d side sleeve_legs cash closes)) = sort (map fst sleeve_legs) \<and>
     map_of (sn_holdings (deployment_portfolio d Before sleeve_legs cash closes)) s =
     map_of (sn_holdings (deployment_portfolio d After sleeve_legs cash closes)) s"
proof -
  have "map_of sleeve_legs s = Some legs" using assms(1,2) by simp
  then show ?thesis
    using untraded_state [OF assms(3)]
    by (simp add: deployment_portfolio_def case_prod_beta' gather_holdings comp_def map_of_map_restrict restrict_map_def
        symbol_state_def)
qed

definition one_leg :: leg where
  "one_leg = \<lparr>lg_symbol = ''SPY'', lg_side = ''buy'', lg_size = 10, lg_price = 100, lg_value = 1000, lg_commission = 0,
     lg_decided_on = 5, lg_filled_on = 6, lg_cash_before = 100000, lg_cash_after = 99000,
     lg_position_before = 0, lg_position_after = 10\<rparr>"

theorem snapshot_covers_sleeves_witness:
  "map fst (sn_holdings (deployment_portfolio 5 After [(''SPY'', [one_leg]), (''QQQ'', [])] 100000 []))
     = [''QQQ'', ''SPY''] \<and>
   map_of (sn_holdings (deployment_portfolio 5 Before [(''SPY'', [one_leg]), (''QQQ'', [])] 100000 [])) ''QQQ'' =
   map_of (sn_holdings (deployment_portfolio 5 After [(''SPY'', [one_leg]), (''QQQ'', [])] 100000 [])) ''QQQ''"
proof -
  have "sort (map fst [(''SPY'', [one_leg]), (''QQQ'', [])]) = [''QQQ'', ''SPY'']" by code_simp
  then show ?thesis
    using snapshot_covers_sleeves [of "[(''SPY'', [one_leg]), (''QQQ'', [])]" "''QQQ''" "[]" 5 After 100000 "[]"]
    by simp
qed

text \<open>
  The length check behind the alignment misses a day whose equity is not positive: its return is left out of
  the list, and every earlier return moves to a later day.  Here the equity falls to 0 on day 2, and the loss of
  day 2 is filed under day 3.
\<close>

theorem zero_equity_misdates:
  "sleeve_dated_returns ''SPY'' [(1, 10), (2, 0), (3, 10), (4, 20)]
     \<lparr>sr_equity_curve = [1, 0, 1, 2], sr_journal = Some []\<rparr> True = Inr ([(3, - 1), (4, 1)], [])"
proof -
  have "fl (- 1) = - 1" using fl_minus [of 1] by simp
  then show ?thesis
    by (simp add: sleeve_dated_returns_def tail_aligned_def dict_of_def Let_def)
qed

end
