(* ===== verification/PaperLedger.thy ===== *)
theory PaperLedger
  imports PaperReplay
begin

text \<open>
  The ledger of a paper deployment, \<^verbatim>\<open>services/paper_trading.py\<close>: the traces of its decisions, the append of new
  days, the attribution of disagreements, and the pass over all deployments; with the publication of a trace of
  \<^verbatim>\<open>services/paper_trace.py\<close>.

  A deployment carries its own ledger and trace rows, in the order they were added.  The writes of a pass go into
  one session: an exception that a pass catches leaves what was added before it, so every operation returns the
  state together with its result; a flush that fails takes the session and with it the whole pass down.  The digest of a trace and whether Redis takes it are arguments.  A stored
  return is a float, which may be no number.
\<close>

section \<open>Rows\<close>

record ledger_row =
  lr_date :: int
  lr_return :: float_val
  lr_version :: "string option"

record trace_row =
  tw_date :: int
  tw_trace_id :: "(string \<times> int) option"
  tw_hash :: "string option"
  tw_status :: string
  tw_provenance :: "string option"

record position_cache =
  pc_positions :: position_set
  pc_equity :: float_val

record deployment =
  dp_id :: string
  dp_strategy_id :: string
  dp_owner_wallet :: "string option"
  dp_owner_user_id :: "string option"
  dp_spec :: pyval
  dp_deployed_at :: int
  dp_status :: string
  dp_drift_detected_at :: "int option"
  dp_engine_regrade_at :: "int option"
  dp_trace_gap_at :: "int option"
  dp_trace_drift_at :: "int option"
  dp_cache :: "position_cache option"
  dp_ledger :: "ledger_row list"
  dp_traces :: "trace_row list"

definition STATUS_ACTIVE :: string where
  "STATUS_ACTIVE = ''active''"

definition TRACE_STATUSES :: "string list" where
  "TRACE_STATUSES = [''published'', ''failed'', ''unowned'', ''disabled'']"

definition TRACE_RETRYABLE :: "string list" where
  "TRACE_RETRYABLE = [''failed'', ''disabled'']"

section \<open>Attribution of a disagreement\<close>

datatype drift = Drift_data | Drift_engine | Drift_unversioned

definition classify_drift :: "string option \<Rightarrow> string option \<Rightarrow> drift" where
  "classify_drift row_version current_version =
     (let current = py_strip (or_empty current_version); stamped = py_strip (or_empty row_version)
      in if current = [] then Drift_data
         else if stamped = [] then Drift_unversioned
         else if stamped = current then Drift_data else Drift_engine)"

text \<open>\<^verbatim>\<open>abs(row.daily_return - r) > _DRIFT_EPS\<close>.  Nothing is greater or smaller than what is no number.\<close>

definition DRIFT_EPS :: rat where
  "DRIFT_EPS = fl (1 / 10 ^ 9)"

fun disagrees :: "float_val \<Rightarrow> float_val \<Rightarrow> bool" where
  "disagrees (Finite x) (Finite y) = (DRIFT_EPS < \<bar>fl (x - y)\<bar>)"
| "disagrees (Infinity a) (Infinity b) = (a \<noteq> b)"
| "disagrees (Infinity a) (Finite y) = True"
| "disagrees (Finite x) (Infinity b) = True"
| "disagrees _ _ = False"

section \<open>Traces\<close>

record paper_trace =
  pt_deployment :: string
  pt_strategy :: string
  pt_spec :: pyval
  pt_date :: int
  pt_legs :: "leg list"
  pt_before :: snapshot
  pt_after :: snapshot
  pt_provenance :: string
  pt_paper_hashes :: "string list"

definition PROVENANCE_SETTLE :: string where
  "PROVENANCE_SETTLE = ''settle''"

definition PROVENANCE_BACKFILL :: string where
  "PROVENANCE_BACKFILL = ''backfill''"

text \<open>A decision without orders, or another provenance than the two, raises \<open>ValueError\<close>.\<close>

definition build_paper_trace ::
  "deployment \<Rightarrow> int \<Rightarrow> decision \<Rightarrow> string \<Rightarrow> string list \<Rightarrow> paper_exn + paper_trace" where
  "build_paper_trace dep decision_date d provenance paper_hashes =
     (if dc_legs d = [] then Inl OtherError
      else if provenance \<noteq> PROVENANCE_SETTLE \<and> provenance \<noteq> PROVENANCE_BACKFILL then Inl OtherError
      else Inr \<lparr>pt_deployment = dp_id dep, pt_strategy = dp_strategy_id dep, pt_spec = dp_spec dep, pt_date = decision_date,
             pt_legs = dc_legs d, pt_before = dc_before d, pt_after = dc_after d, pt_provenance = provenance,
             pt_paper_hashes = sort paper_hashes\<rparr>)"

text \<open>What a settle finds around it.\<close>

record settle_world =
  sw_env :: environ
  sw_now :: int
  sw_version :: string
  sw_digest :: "paper_trace \<Rightarrow> string"
  sw_saves :: "paper_trace \<Rightarrow> bool"
  sw_paper_hashes :: "string list \<Rightarrow> string list"

definition env_bool :: "environ \<Rightarrow> string \<Rightarrow> bool \<Rightarrow> bool" where
  "env_bool env name dflt =
     (let raw = py_lower (py_strip (or_empty (env name)))
      in if raw = [] then dflt else raw \<in> {''1'', ''true'', ''yes'', ''on''})"

definition publishing_enabled :: "environ \<Rightarrow> bool" where
  "publishing_enabled env = env_bool env ''PAPER_TRACE_PUBLISH'' True"

text \<open>An unset or empty variable is 500, and so is one that is no integer.\<close>

definition backfill_max :: "environ \<Rightarrow> int" where
  "backfill_max env =
     (case env ''PAPER_TRACE_BACKFILL_MAX'' of
        None \<Rightarrow> 500
      | Some raw \<Rightarrow> if raw = [] then 500 else (case py_int raw of None \<Rightarrow> 500 | Some n \<Rightarrow> n))"

definition publish_paper_trace :: "settle_world \<Rightarrow> deployment \<Rightarrow> paper_trace \<Rightarrow> string" where
  "publish_paper_trace sw dep trace =
     (if \<not> publishing_enabled (sw_env sw) then ''disabled''
      else if \<not> truthy (dp_owner_user_id dep) \<and> \<not> truthy (dp_owner_wallet dep) then ''unowned''
      else if \<not> sw_saves sw trace then ''failed'' else ''published'')"

text \<open>The counts of a settle, the attempts made and the traces that would be written differently now.\<close>

record settle =
  st_counts :: "(string \<times> nat) list"
  st_attempted :: int
  st_trace_drift :: nat
  st_rows :: "trace_row list"

definition no_counts :: "(string \<times> nat) list" where
  "no_counts = map (\<lambda>s. (s, 0)) TRACE_STATUSES"

definition count_status :: "string \<Rightarrow> (string \<times> nat) list \<Rightarrow> (string \<times> nat) list" where
  "count_status status counts = map (\<lambda>(s, n). (s, if s = status then Suc n else n)) counts"

definition put_row :: "trace_row \<Rightarrow> trace_row list \<Rightarrow> trace_row list" where
  "put_row r rs =
     (if tw_date r \<in> set (map tw_date rs) then map (\<lambda>x. if tw_date x = tw_date r then r else x) rs else rs @ [r])"

definition find_row :: "int \<Rightarrow> trace_row list \<Rightarrow> trace_row option" where
  "find_row d rs = find (\<lambda>r. tw_date r = d) rs"

text \<open>
  The tail of the loop in \<^verbatim>\<open>_publish_decision_traces\<close>: count the status and write the row.  Only a published
  decision keeps the identity, the digest and the provenance of its trace.
\<close>

definition write_row ::
  "settle_world \<Rightarrow> deployment \<Rightarrow> int \<Rightarrow> string \<Rightarrow> paper_trace option \<Rightarrow> settle \<Rightarrow> settle" where
  "write_row sw dep day status trace st =
     (let kept = (if status = ''published'' then trace else None)
      in st\<lparr>st_counts := count_status status (st_counts st),
            st_rows := put_row \<lparr>tw_date = day, tw_trace_id = map_option (\<lambda>t. (dp_id dep, pt_date t)) kept,
              tw_hash = map_option (sw_digest sw) kept, tw_status = status,
              tw_provenance = map_option pt_provenance kept\<rparr> (st_rows st)\<rparr>)"

text \<open>An attempt within the budget, or the deferral beyond it; \<open>ledgered\<close> are the days the ledger has already.\<close>

definition attempt_trace ::
  "settle_world \<Rightarrow> deployment \<Rightarrow> string list \<Rightarrow> int set \<Rightarrow> int \<Rightarrow> decision \<Rightarrow> settle \<Rightarrow> paper_exn option \<times> settle" where
  "attempt_trace sw dep paper_hashes ledgered day d st =
     (if backfill_max (sw_env sw) \<le> st_attempted st then (None, write_row sw dep day ''failed'' None st)
      else
        let st = st\<lparr>st_attempted := st_attempted st + 1\<rparr>
        in case build_paper_trace dep day d
               (if day \<in> ledgered then PROVENANCE_BACKFILL else PROVENANCE_SETTLE) paper_hashes of
             Inl e \<Rightarrow> (Some e, st)
           | Inr trace \<Rightarrow> (None, write_row sw dep day (publish_paper_trace sw dep trace) (Some trace) st))"

definition settle_decision ::
  "settle_world \<Rightarrow> deployment \<Rightarrow> string list \<Rightarrow> int set \<Rightarrow> int \<Rightarrow> decision \<Rightarrow> settle \<Rightarrow> paper_exn option \<times> settle" where
  "settle_decision sw dep paper_hashes ledgered day d st =
     (case find_row day (st_rows st) of
        None \<Rightarrow> attempt_trace sw dep paper_hashes ledgered day d st
      | Some row \<Rightarrow>
          if tw_status row = ''published'' then
            (case build_paper_trace dep day d
                 (if truthy (tw_provenance row) then or_empty (tw_provenance row) else PROVENANCE_SETTLE) paper_hashes of
               Inl e \<Rightarrow> (Some e, st)
             | Inr rebuilt \<Rightarrow>
                 (None, st\<lparr>st_counts := count_status ''published'' (st_counts st),
                    st_trace_drift := st_trace_drift st +
                      (if truthy (tw_hash row) \<and> sw_digest sw rebuilt \<noteq> or_empty (tw_hash row) then 1 else 0)\<rparr>))
          else if tw_status row \<notin> set TRACE_RETRYABLE then
            (None, st\<lparr>st_counts := count_status (tw_status row) (st_counts st)\<rparr>)
          else attempt_trace sw dep paper_hashes ledgered day d st)"

fun settle_loop ::
  "settle_world \<Rightarrow> deployment \<Rightarrow> string list \<Rightarrow> int set \<Rightarrow> (int \<times> decision) list \<Rightarrow> settle \<Rightarrow> paper_exn option \<times> settle" where
  "settle_loop sw dep paper_hashes ledgered [] st = (None, st)"
| "settle_loop sw dep paper_hashes ledgered ((day, d) # ds) st =
     (case settle_decision sw dep paper_hashes ledgered day d st of
        (Some e, st') \<Rightarrow> (Some e, st')
      | (None, st') \<Rightarrow> settle_loop sw dep paper_hashes ledgered ds st')"

record trace_counts =
  tc_decisions :: nat
  tc_counts :: "(string \<times> nat) list"
  tc_trace_drift :: nat

definition count_of :: "string \<Rightarrow> (string \<times> nat) list \<Rightarrow> nat" where
  "count_of s counts = (case map_of counts s of None \<Rightarrow> 0 | Some n \<Rightarrow> n)"

text \<open>
  \<^verbatim>\<open>_publish_decision_traces\<close>: the decisions in the order of their days, then the accounting identity, then the
  stamps.  Validating the specification again cannot fail after the replay validated it.
\<close>

definition publish_decision_traces ::
  "settle_world \<Rightarrow> (int \<times> decision) list \<Rightarrow> int set \<Rightarrow> deployment \<Rightarrow> (paper_exn + trace_counts) \<times> deployment" where
  "publish_decision_traces sw decisions ledgered dep =
     (if decisions = [] then (Inr \<lparr>tc_decisions = 0, tc_counts = no_counts, tc_trace_drift = 0\<rparr>, dep)
      else
        case validate_strategy_spec (dp_spec dep) of
          Inl e \<Rightarrow> (Inl (if e = Unhashable_value then OtherError else DSLError), dep)
        | Inr spec \<Rightarrow>
            (case settle_loop sw dep (sw_paper_hashes sw (sp_source_arxiv_ids spec)) ledgered (sort_key fst decisions)
                 \<lparr>st_counts = no_counts, st_attempted = 0, st_trace_drift = 0, st_rows = dp_traces dep\<rparr> of
               (Some e, st) \<Rightarrow> (Inl e, dep\<lparr>dp_traces := st_rows st\<rparr>)
             | (None, st) \<Rightarrow>
                 (let dep' = dep\<lparr>dp_traces := st_rows st\<rparr>
                  in if sum_list (map snd (st_counts st)) \<noteq> length decisions then (Inl PaperTraceCoverageError, dep')
                     else
                       (Inr \<lparr>tc_decisions = length decisions, tc_counts = st_counts st, tc_trace_drift = st_trace_drift st\<rparr>,
                        dep'\<lparr>dp_trace_gap_at := (if count_of ''published'' (st_counts st) < length decisions
                               then Some (sw_now sw) else dp_trace_gap_at dep'),
                             dp_trace_drift_at := (if 0 < st_trace_drift st then Some (sw_now sw)
                               else dp_trace_drift_at dep')\<rparr>))))"

section \<open>The ledger\<close>

record advance_counts =
  ac_appended :: nat
  ac_drift :: nat
  ac_drift_engine :: nat
  ac_drift_unversioned :: nat
  ac_traces :: trace_counts

definition find_day :: "int \<Rightarrow> ledger_row list \<Rightarrow> ledger_row option" where
  "find_day d rs = find (\<lambda>r. lr_date r = d) rs"

text \<open>The days the ledger lacks, and how the others disagree with it.\<close>

definition new_rows :: "string \<Rightarrow> ledger_row list \<Rightarrow> (int \<times> rat) list \<Rightarrow> ledger_row list" where
  "new_rows version ledger replayed =
     map (\<lambda>(d, r). \<lparr>lr_date = d, lr_return = Finite r, lr_version = Some version\<rparr>)
       (filter (\<lambda>(d, _). find_day d ledger = None) (sort_key fst replayed))"

definition drift_of :: "string \<Rightarrow> ledger_row list \<Rightarrow> int \<times> rat \<Rightarrow> drift option" where
  "drift_of version ledger dr =
     (case find_day (fst dr) ledger of
        None \<Rightarrow> None
      | Some row \<Rightarrow>
          if disagrees (lr_return row) (Finite (snd dr)) then Some (classify_drift (lr_version row) (Some version)) else None)"

definition count_drift :: "drift \<Rightarrow> string \<Rightarrow> ledger_row list \<Rightarrow> (int \<times> rat) list \<Rightarrow> nat" where
  "count_drift k version ledger replayed = length (filter (\<lambda>dr. drift_of version ledger dr = Some k) replayed)"

fun fv_compound :: "float_val \<Rightarrow> float_val \<Rightarrow> float_val" where
  "fv_compound (Finite e) (Finite r) = Finite (fl (e * fl (1 + r)))"
| "fv_compound (Finite e) (Infinity neg) = (if e = 0 then Nan else Infinity (neg \<noteq> (e < 0)))"
| "fv_compound (Infinity neg) (Finite r) =
     (if fl (1 + r) = 0 then Nan else Infinity (neg \<noteq> (fl (1 + r) < 0)))"
| "fv_compound (Infinity a) (Infinity b) = Infinity (a \<noteq> b)"
| "fv_compound _ _ = Nan"

definition settled_equity :: "ledger_row list \<Rightarrow> float_val" where
  "settled_equity ledger = foldl (\<lambda>e r. fv_compound e (lr_return r)) (Finite 1) (sort_key lr_date ledger)"

definition refresh_position_cache :: "position_set option \<Rightarrow> deployment \<Rightarrow> deployment" where
  "refresh_position_cache positions dep =
     (case positions of
        None \<Rightarrow> dep
      | Some ps \<Rightarrow>
          dep\<lparr>dp_cache := Some \<lparr>pc_positions = ps,
            pc_equity = settled_equity (filter (\<lambda>r. lr_date r \<le> ps_as_of ps) (dp_ledger dep))\<rparr>\<rparr>)"

definition append_ledger :: "settle_world \<Rightarrow> replay_result \<Rightarrow> trace_counts \<Rightarrow> deployment \<Rightarrow> advance_counts \<times> deployment" where
  "append_ledger sw r traces dep =
     (let ledger = dp_ledger dep; version = sw_version sw; replayed = rr_returns r;
          rows = new_rows version ledger replayed;
          data = count_drift Drift_data version ledger replayed;
          engine = count_drift Drift_engine version ledger replayed;
          unversioned = count_drift Drift_unversioned version ledger replayed;
          dep' = dep\<lparr>dp_ledger := ledger @ rows,
            dp_drift_detected_at := (if 0 < data then Some (sw_now sw) else dp_drift_detected_at dep),
            dp_engine_regrade_at := (if 0 < engine + unversioned then Some (sw_now sw) else dp_engine_regrade_at dep)\<rparr>
      in (\<lparr>ac_appended = length rows, ac_drift = data, ac_drift_engine = engine, ac_drift_unversioned = unversioned,
           ac_traces = traces\<rparr>,
          refresh_position_cache (rr_positions r) dep'))"

text \<open>\<^verbatim>\<open>advance_deployment\<close>: the reasoning first, then the ledger.\<close>

definition advance_deployment ::
  "settle_world \<Rightarrow> (pyval \<Rightarrow> int \<Rightarrow> paper_exn + replay_result) \<Rightarrow> deployment \<Rightarrow> (paper_exn + advance_counts) \<times> deployment"
  where
  "advance_deployment sw replaying dep =
     (case replaying (dp_spec dep) (dp_deployed_at dep) of
        Inl e \<Rightarrow> (Inl e, dep)
      | Inr r \<Rightarrow>
          (case publish_decision_traces sw (rr_decisions r) (set (map lr_date (dp_ledger dep))) dep of
             (Inl e, dep') \<Rightarrow> (Inl e, dep')
           | (Inr traces, dep') \<Rightarrow> (case append_ledger sw r traces dep' of (c, dep'') \<Rightarrow> (Inr c, dep''))))"

section \<open>All deployments\<close>

record pass_summary =
  pa_deployments :: nat
  pa_ok :: nat
  pa_failed :: nat
  pa_coverage_broken :: nat
  pa_appended :: nat
  pa_drift :: nat
  pa_drift_engine :: nat
  pa_drift_unversioned :: nat
  pa_decisions :: nat
  pa_counts :: "(string \<times> nat) list"

definition add_counts :: "(string \<times> nat) list \<Rightarrow> (string \<times> nat) list \<Rightarrow> (string \<times> nat) list" where
  "add_counts a b = map (\<lambda>(s, n). (s, n + count_of s b)) a"

definition add_result :: "paper_exn + advance_counts \<Rightarrow> pass_summary \<Rightarrow> pass_summary" where
  "add_result res s =
     (case res of
        Inl e \<Rightarrow> s\<lparr>pa_failed := Suc (pa_failed s),
          pa_coverage_broken := pa_coverage_broken s + (if e = PaperTraceCoverageError then 1 else 0)\<rparr>
      | Inr c \<Rightarrow> s\<lparr>pa_ok := Suc (pa_ok s), pa_appended := pa_appended s + ac_appended c,
          pa_drift := pa_drift s + ac_drift c, pa_drift_engine := pa_drift_engine s + ac_drift_engine c,
          pa_drift_unversioned := pa_drift_unversioned s + ac_drift_unversioned c,
          pa_decisions := pa_decisions s + tc_decisions (ac_traces c),
          pa_counts := add_counts (pa_counts s) (tc_counts (ac_traces c))\<rparr>)"

text \<open>
  The session that all advances of a pass share.  Its flushes are where the database refuses rows, which may be those
  that an earlier deployment of the pass has added: when the savepoint around the corpus lookup opens, after the
  append, and with the position cache.  Whether one succeeds is an argument.  After a failed flush the session answers
  every use with an exception until somebody rolls it back, which the pass does not.
\<close>

datatype flush_point = At_savepoint | At_append | At_cache
datatype session = Usable | Broken

definition corpus_ids :: "deployment \<Rightarrow> string list" where
  "corpus_ids dep =
     (case validate_strategy_spec (dp_spec dep) of Inl _ \<Rightarrow> [] | Inr spec \<Rightarrow> filter (\<lambda>i. i \<noteq> []) (sp_source_arxiv_ids spec))"

definition advance_in_session ::
  "settle_world \<Rightarrow> (pyval \<Rightarrow> int \<Rightarrow> paper_exn + replay_result) \<Rightarrow> (deployment \<Rightarrow> flush_point \<Rightarrow> bool) \<Rightarrow>
   deployment \<Rightarrow> session \<Rightarrow> (paper_exn + advance_counts) \<times> deployment \<times> session" where
  "advance_in_session sw replaying flush dep ses =
     (if ses = Broken then (Inl OtherError, dep, Broken)
      else case replaying (dp_spec dep) (dp_deployed_at dep) of
        Inl e \<Rightarrow> (Inl e, dep, Usable)
      | Inr r \<Rightarrow>
          if rr_decisions r \<noteq> [] \<and> corpus_ids dep \<noteq> [] \<and> \<not> flush dep At_savepoint then (Inl OtherError, dep, Broken)
          else (case advance_deployment sw replaying dep of
                  (Inl e, dep') \<Rightarrow> (Inl e, dep', Usable)
                | (Inr c, dep') \<Rightarrow>
                    if \<not> flush dep At_append then (Inl OtherError, dep, Broken)
                    else if rr_positions r \<noteq> None \<and> \<not> flush dep At_cache then (Inl OtherError, dep, Broken)
                    else (Inr c, dep', Usable)))"

fun advance_each ::
  "settle_world \<Rightarrow> (pyval \<Rightarrow> int \<Rightarrow> paper_exn + replay_result) \<Rightarrow> (deployment \<Rightarrow> flush_point \<Rightarrow> bool) \<Rightarrow>
   deployment list \<Rightarrow> session \<Rightarrow> pass_summary \<Rightarrow> pass_summary \<times> session \<times> deployment list" where
  "advance_each sw replaying flush [] ses s = (s, ses, [])"
| "advance_each sw replaying flush (dep # deps) ses s =
     (if dp_status dep \<noteq> STATUS_ACTIVE
      then (case advance_each sw replaying flush deps ses s of (s', ses', deps') \<Rightarrow> (s', ses', dep # deps'))
      else (case advance_in_session sw replaying flush dep ses of
              (res, dep', ses') \<Rightarrow>
                (case advance_each sw replaying flush deps ses' (add_result res s) of
                   (s', ses'', deps') \<Rightarrow> (s', ses'', dep' # deps'))))"

definition advance_all ::
  "settle_world \<Rightarrow> (pyval \<Rightarrow> int \<Rightarrow> paper_exn + replay_result) \<Rightarrow> (deployment \<Rightarrow> flush_point \<Rightarrow> bool) \<Rightarrow>
   deployment list \<Rightarrow> pass_summary \<times> session \<times> deployment list" where
  "advance_all sw replaying flush deps =
     advance_each sw replaying flush deps Usable
       \<lparr>pa_deployments = length (filter (\<lambda>d. dp_status d = STATUS_ACTIVE) deps), pa_ok = 0, pa_failed = 0,
        pa_coverage_broken = 0, pa_appended = 0, pa_drift = 0, pa_drift_engine = 0, pa_drift_unversioned = 0,
        pa_decisions = 0, pa_counts = no_counts\<rparr>"

text \<open>
  What the cycle stores: the pass and its one commit, which flushes what is pending and may fail too.  With the session
  broken the commit raises, if the handler of a failed advance, which reads the deployment for its log line, has not
  raised before; the caller logs the exception and nothing is stored.
\<close>

definition run_pass ::
  "settle_world \<Rightarrow> (pyval \<Rightarrow> int \<Rightarrow> paper_exn + replay_result) \<Rightarrow> (deployment \<Rightarrow> flush_point \<Rightarrow> bool) \<Rightarrow> bool \<Rightarrow>
   deployment list \<Rightarrow> pass_summary option \<times> deployment list" where
  "run_pass sw replaying flush commits deps =
     (case advance_all sw replaying flush deps of
        (s, ses, deps') \<Rightarrow> if ses = Usable \<and> commits then (Some s, deps') else (None, deps))"

section \<open>What a reader sees\<close>

record coverage =
  cv_status :: string
  cv_decisions :: nat
  cv_counts :: "(string \<times> nat) list"
  cv_unknown :: nat
  cv_first_gap :: "int option"

definition trace_coverage :: "deployment \<Rightarrow> coverage" where
  "trace_coverage dep =
     (let rs = dp_traces dep;
          gaps = sort (map tw_date (filter (\<lambda>r. tw_status r \<noteq> ''published'') rs));
          counts = foldl (\<lambda>c r. count_status (tw_status r) c) no_counts rs
      in \<lparr>cv_status = (if 0 < count_of ''disabled'' counts then ''disabled'' else if gaps \<noteq> [] then ''gap'' else ''ok''),
          cv_decisions = length rs, cv_counts = counts,
          cv_unknown = length (filter (\<lambda>r. tw_status r \<notin> set TRACE_STATUSES) rs),
          cv_first_gap = (case gaps of [] \<Rightarrow> None | g # _ \<Rightarrow> Some g)\<rparr>)"

record summary =
  sm_days :: nat
  sm_total_return :: float_val
  sm_versions :: "string list"
  sm_unversioned :: nat
  sm_coverage :: coverage

fun fv_minus_one :: "float_val \<Rightarrow> float_val" where
  "fv_minus_one (Finite x) = Finite (fl (x - 1))"
| "fv_minus_one v = v"

definition deployment_summary :: "deployment \<Rightarrow> summary" where
  "deployment_summary dep =
     \<lparr>sm_days = length (dp_ledger dep), sm_total_return = fv_minus_one (settled_equity (dp_ledger dep)),
      sm_versions = sort (remdups (map (or_empty \<circ> lr_version) (filter (truthy \<circ> lr_version) (dp_ledger dep)))),
      sm_unversioned = length (filter (Not \<circ> truthy \<circ> lr_version) (dp_ledger dep)),
      sm_coverage = trace_coverage dep\<rparr>"

definition create_deployment ::
  "string \<Rightarrow> string \<Rightarrow> pyval \<Rightarrow> string option \<Rightarrow> string option \<Rightarrow> int option \<Rightarrow> int \<Rightarrow> paper_exn + deployment" where
  "create_deployment new_id strategy_id spec_dict owner_wallet owner_user_id deployed_at today =
     (case validate_strategy_spec spec_dict of
        Inl e \<Rightarrow> Inl (if e = Unhashable_value then OtherError else DSLError)
      | Inr spec \<Rightarrow>
          Inr \<lparr>dp_id = new_id, dp_strategy_id = strategy_id,
               dp_owner_wallet = (if truthy owner_wallet then map_option py_lower owner_wallet else None),
               dp_owner_user_id = owner_user_id, dp_spec = spec_dict,
               dp_deployed_at = (case deployed_at of None \<Rightarrow> today | Some d \<Rightarrow> d), dp_status = STATUS_ACTIVE,
               dp_drift_detected_at = None, dp_engine_regrade_at = None, dp_trace_gap_at = None, dp_trace_drift_at = None,
               dp_cache = None, dp_ledger = [], dp_traces = []\<rparr>)"

section \<open>The cycle\<close>

definition advance_enabled :: "environ \<Rightarrow> bool" where
  "advance_enabled env \<longleftrightarrow>
     py_lower (py_strip (getenv env ''PAPER_ADVANCE_ENABLED'' ''false'')) \<notin> {''0'', ''false'', ''no'', ''off''}"

text \<open>
  \<^verbatim>\<open>try_take_paper_advance_lock\<close>: \<open>dialect\<close> is empty when the bind has none, \<open>answer\<close> is what
  \<^verbatim>\<open>pg_try_advisory_xact_lock\<close> says, absent when the query raises.
\<close>

definition try_take_paper_advance_lock :: "string \<Rightarrow> bool option \<Rightarrow> bool" where
  "try_take_paper_advance_lock dialect answer =
     (if dialect \<noteq> [] \<and> dialect \<noteq> ''postgresql'' then True
      else case answer of None \<Rightarrow> True | Some b \<Rightarrow> b)"

text \<open>
  One turn of \<^verbatim>\<open>paper_advance_loop\<close>: whether the pass over the ledgers runs and whether the pass of the agents
  does.  \<open>opens\<close> says that the session of the lock opens.
\<close>

definition paper_cycle :: "environ \<Rightarrow> bool \<Rightarrow> string \<Rightarrow> bool option \<Rightarrow> bool \<times> bool" where
  "paper_cycle env opens dialect answer =
     (if \<not> advance_enabled env then (False, True)
      else if \<not> opens then (False, True)
      else if try_take_paper_advance_lock dialect answer then (True, True) else (False, False))"

section \<open>Appending only\<close>

lemma find_day_None: "find_day d rs = None \<longleftrightarrow> d \<notin> lr_date ` set rs"
  by (auto simp: find_day_def find_None_iff)

lemma find_day_Some: "find_day d rs = Some r \<Longrightarrow> r \<in> set rs \<and> lr_date r = d"
  by (auto simp: find_day_def find_Some_iff)

lemma find_day_append: "find_day d (xs @ ys) = (case find_day d xs of None \<Rightarrow> find_day d ys | Some r \<Rightarrow> Some r)"
  by (induction xs) (auto simp: find_day_def)

lemma new_rows_dates:
  "map lr_date (new_rows version ledger replayed) =
   filter (\<lambda>d. d \<notin> lr_date ` set ledger) (map fst (sort_key fst replayed))"
  by (simp add: new_rows_def find_day_None filter_map comp_def case_prod_beta')

lemma new_rows_version: "r \<in> set (new_rows version ledger replayed) \<Longrightarrow> lr_version r = Some version"
  by (auto simp: new_rows_def)

lemma refresh_fields [simp]:
  "dp_ledger (refresh_position_cache ps dep) = dp_ledger dep" "dp_traces (refresh_position_cache ps dep) = dp_traces dep"
  "dp_spec (refresh_position_cache ps dep) = dp_spec dep" "dp_deployed_at (refresh_position_cache ps dep) = dp_deployed_at dep"
  "dp_status (refresh_position_cache ps dep) = dp_status dep"
  by (simp_all add: refresh_position_cache_def split: option.split)

lemma publish_keeps:
  assumes "publish_decision_traces sw decisions ledgered dep = (res, dep')"
  shows "dp_ledger dep' = dp_ledger dep" and "dp_spec dep' = dp_spec dep" and "dp_deployed_at dep' = dp_deployed_at dep"
    and "dp_status dep' = dp_status dep"
  using assms
  by (auto simp: publish_decision_traces_def Let_def split: if_splits sum.splits prod.splits option.splits)

lemma append_ledger_fields:
  assumes "append_ledger sw r traces dep = (c, dep')"
  shows "dp_ledger dep' = dp_ledger dep @ new_rows (sw_version sw) (dp_ledger dep) (rr_returns r)"
    and "dp_spec dep' = dp_spec dep" and "dp_deployed_at dep' = dp_deployed_at dep" and "dp_status dep' = dp_status dep"
    and "ac_appended c = length (new_rows (sw_version sw) (dp_ledger dep) (rr_returns r))"
    and "ac_drift c = count_drift Drift_data (sw_version sw) (dp_ledger dep) (rr_returns r)"
    and "ac_drift_engine c = count_drift Drift_engine (sw_version sw) (dp_ledger dep) (rr_returns r)"
    and "ac_drift_unversioned c = count_drift Drift_unversioned (sw_version sw) (dp_ledger dep) (rr_returns r)"
  using assms by (auto simp: append_ledger_def Let_def)

text \<open>The cases of an advance, as they concern the ledger.\<close>

lemma advance_cases:
  assumes "advance_deployment sw replaying dep = (res, dep')"
  obtains e where "res = Inl e" "dp_ledger dep' = dp_ledger dep"
  | r c traces dep1 where "replaying (dp_spec dep) (dp_deployed_at dep) = Inr r" "res = Inr c"
      "publish_decision_traces sw (rr_decisions r) (set (map lr_date (dp_ledger dep))) dep = (Inr traces, dep1)"
      "append_ledger sw r traces dep1 = (c, dep')" "dp_ledger dep1 = dp_ledger dep"
  using assms publish_keeps(1)
  by (fastforce simp: advance_deployment_def split: sum.splits prod.splits)

lemma advance_keeps:
  assumes "advance_deployment sw replaying dep = (Inr c, dep')"
  shows "dp_spec dep' = dp_spec dep \<and> dp_deployed_at dep' = dp_deployed_at dep"
  using assms
proof (cases rule: advance_cases)
  case (2 r c traces dep1)
  then show ?thesis using append_ledger_fields(2,3) [OF 2(4)] publish_keeps(2,3) [OF 2(3)] by simp
qed simp

lemma advance_ledger:
  assumes "advance_deployment sw replaying dep = (res, dep')"
  shows "\<exists>rows. dp_ledger dep' = dp_ledger dep @ rows \<and>
    (\<forall>r \<in> set rows. lr_version r = Some (sw_version sw) \<and> lr_date r \<notin> lr_date ` set (dp_ledger dep))"
  using assms
proof (cases rule: advance_cases)
  case (2 r c traces dep1)
  let ?rows = "new_rows (sw_version sw) (dp_ledger dep) (rr_returns r)"
  have "lr_date x \<notin> lr_date ` set (dp_ledger dep)" if "x \<in> set ?rows" for x
  proof -
    have "lr_date x \<in> set (map lr_date ?rows)" using that by simp
    then show ?thesis unfolding new_rows_dates by simp
  qed
  then show ?thesis using append_ledger_fields(1) [OF 2(4)] 2(5) new_rows_version by (intro exI [of _ ?rows]) auto
qed simp

lemma advance_distinct:
  assumes "advance_deployment sw (replay fetch engine cash) dep = (res, dep')"
  shows "distinct (map lr_date (dp_ledger dep')) = distinct (map lr_date (dp_ledger dep))"
  using assms
proof (cases rule: advance_cases)
  case (2 r c traces dep1)
  have "sorted_wrt (<) (map fst (rr_returns r))" using replay_days_ordered [OF 2(1)] .
  then have "distinct (map fst (sort_key fst (rr_returns r)))"
    by (simp add: distinct_map strict_sorted_iff)
  then show ?thesis
    using append_ledger_fields(1) [OF 2(4)] 2(5) new_rows_dates [of "sw_version sw" "dp_ledger dep" "rr_returns r"]
    by (auto dest: distinct_filter)
qed simp

text \<open>
  C12: A ledger only grows: an advance, successful or not, leaves every row as it was and in place, adds rows only for
  days the ledger lacks, stamps each with the engine of this pass, and repeats no day.
\<close>

theorem ledger_append_only:
  "case advance_deployment sw (replay fetch engine cash) dep of (res, dep') \<Rightarrow>
     take (length (dp_ledger dep)) (dp_ledger dep') = dp_ledger dep \<and>
     list_all (\<lambda>r. lr_version r = Some (sw_version sw) \<and> lr_date r \<notin> lr_date ` set (dp_ledger dep))
       (drop (length (dp_ledger dep)) (dp_ledger dep')) \<and>
     distinct (map lr_date (dp_ledger dep')) = distinct (map lr_date (dp_ledger dep))"
proof -
  obtain res dep' where a: "advance_deployment sw (replay fetch engine cash) dep = (res, dep')" by fastforce
  show ?thesis using advance_ledger [OF a] advance_distinct [OF a] by (auto simp: a list_all_iff)
qed

section \<open>Drift\<close>

lemma drift_of_append:
  "d \<in> lr_date ` set ledger \<Longrightarrow> drift_of version (ledger @ added) (d, r) = drift_of version ledger (d, r)"
  using find_day_None [of d ledger] by (auto simp: drift_of_def find_day_append split: option.splits)

lemma disagrees_self: "\<not> disagrees v v"
proof (cases v)
  case (Finite x)
  have "0 \<le> DRIFT_EPS" using fl_sign [of "1 / 10 ^ 9"] by (simp add: DRIFT_EPS_def)
  then show ?thesis by (simp add: Finite)
qed simp_all

lemma new_row_no_drift:
  assumes "distinct (map fst replayed)" "(d, r) \<in> set replayed" "d \<notin> lr_date ` set ledger"
  shows "drift_of version (ledger @ new_rows version ledger replayed) (d, r) = None"
proof -
  have "find_day d (new_rows version ledger replayed) =
      Some \<lparr>lr_date = d, lr_return = Finite r, lr_version = Some version\<rparr>"
  proof -
    let ?row = "\<lparr>lr_date = d, lr_return = Finite r, lr_version = Some version\<rparr>"
    have "?row \<in> set (new_rows version ledger replayed)" using assms(2,3) by (force simp: new_rows_def find_day_None)
    then have "d \<in> lr_date ` set (new_rows version ledger replayed)" by force
    then obtain x where x: "find_day d (new_rows version ledger replayed) = Some x" using find_day_None by (metis not_None_eq)
    have "x = ?row" using find_day_Some [OF x] assms(1,2) by (auto simp: new_rows_def intro: eq_key_imp_eq_value)
    then show ?thesis using x by simp
  qed
  then show ?thesis
    using assms(3) disagrees_self by (simp add: drift_of_def find_day_append find_day_None [THEN iffD2])
qed

lemma count_drift_again:
  assumes "distinct (map fst replayed)"
  shows "count_drift k version (ledger @ new_rows version ledger replayed) replayed = count_drift k version ledger replayed"
proof -
  have "drift_of version (ledger @ new_rows version ledger replayed) dr = drift_of version ledger dr"
    if "dr \<in> set replayed" for dr
  proof (cases "fst dr \<in> lr_date ` set ledger")
    case True
    then show ?thesis using drift_of_append [of "fst dr" ledger version _ "snd dr"] by simp
  next
    case False
    then show ?thesis
      using new_row_no_drift [OF assms, of "fst dr" "snd dr" ledger version] that
      by (simp add: drift_of_def find_day_None [THEN iffD2])
  qed
  then show ?thesis unfolding count_drift_def by (metis (no_types, lifting) filter_cong)
qed

lemma new_rows_again: "new_rows version (ledger @ new_rows version ledger replayed) replayed = []"
proof -
  have "map lr_date (new_rows version (ledger @ new_rows version ledger replayed) replayed) = []"
    unfolding new_rows_dates
  proof (subst filter_empty_conv, intro ballI, simp only: not_not set_append image_Un Un_iff)
    fix d assume d: "d \<in> set (map fst (sort_key fst replayed))"
    show "d \<in> lr_date ` set ledger \<or> d \<in> lr_date ` set (new_rows version ledger replayed)"
    proof (rule disjCI)
      assume "d \<notin> lr_date ` set (new_rows version ledger replayed)"
      then have "d \<notin> set (map lr_date (new_rows version ledger replayed))" by simp
      then show "d \<in> lr_date ` set ledger" using d unfolding new_rows_dates by simp
    qed
  qed
  then show ?thesis by simp
qed

text \<open>
  Advancing a deployment again on the same data adds nothing and finds the same disagreements, of each of the three
  causes, as before: what a replay added cannot itself count as drift later, and what disagreed is not repaired.
\<close>

theorem advance_again_settled:
  assumes "advance_deployment sw (replay fetch engine cash) dep = (Inr c, dep')"
    and "advance_deployment sw' (replay fetch engine cash) dep' = (Inr c', dep'')"
    and "sw_version sw' = sw_version sw"
  shows "dp_ledger dep'' = dp_ledger dep' \<and> ac_appended c' = 0 \<and> ac_drift c' = ac_drift c \<and>
    ac_drift_engine c' = ac_drift_engine c \<and> ac_drift_unversioned c' = ac_drift_unversioned c"
proof -
  obtain r traces dep1 where 1: "replay fetch engine cash (dp_spec dep) (dp_deployed_at dep) = Inr r"
    "publish_decision_traces sw (rr_decisions r) (set (map lr_date (dp_ledger dep))) dep = (Inr traces, dep1)"
    "append_ledger sw r traces dep1 = (c, dep')" "dp_ledger dep1 = dp_ledger dep"
    using assms(1) by (cases rule: advance_cases) auto
  obtain r' traces' dep2 where 2: "replay fetch engine cash (dp_spec dep') (dp_deployed_at dep') = Inr r'"
    "append_ledger sw' r' traces' dep2 = (c', dep'')" "dp_ledger dep2 = dp_ledger dep'"
    using assms(2) by (cases rule: advance_cases) auto
  have "r' = r" using 1(1) 2(1) append_ledger_fields(2,3) [OF 1(3)] publish_keeps(2,3) [OF 1(2)] by simp
  moreover have "distinct (map fst (rr_returns r))" using replay_days_ordered [OF 1(1)] by (simp add: strict_sorted_iff)
  ultimately show ?thesis
    using append_ledger_fields [OF 1(3)] append_ledger_fields [OF 2(2)] 1(4) 2(3) assms(3)
    by (simp add: new_rows_again count_drift_again)
qed

section \<open>Every decision is accounted for\<close>

text \<open>One row per day, a status of the vocabulary, and a provenance the builder accepts.\<close>

definition traces_ok :: "trace_row list \<Rightarrow> bool" where
  "traces_ok rs \<longleftrightarrow> distinct (map tw_date rs) \<and>
     (\<forall>r \<in> set rs. tw_status r \<in> set TRACE_STATUSES \<and>
        (truthy (tw_provenance r) \<longrightarrow> or_empty (tw_provenance r) \<in> {PROVENANCE_SETTLE, PROVENANCE_BACKFILL}))"

text \<open>The same without the vocabulary: a stored status may be anything.\<close>

definition rows_ok :: "trace_row list \<Rightarrow> bool" where
  "rows_ok rs \<longleftrightarrow> distinct (map tw_date rs) \<and>
     (\<forall>r \<in> set rs. truthy (tw_provenance r) \<longrightarrow> or_empty (tw_provenance r) \<in> {PROVENANCE_SETTLE, PROVENANCE_BACKFILL})"

definition known_row :: "trace_row option \<Rightarrow> bool" where
  "known_row r = (case r of None \<Rightarrow> True | Some x \<Rightarrow> tw_status x \<in> set TRACE_STATUSES)"

lemma find_row_Some: "find_row d rs = Some r \<Longrightarrow> r \<in> set rs \<and> tw_date r = d"
  by (auto simp: find_row_def find_Some_iff)

lemma find_row_None: "find_row d rs = None \<longleftrightarrow> d \<notin> tw_date ` set rs"
  by (auto simp: find_row_def find_None_iff)

lemma find_row_in: "distinct (map tw_date rs) \<Longrightarrow> r \<in> set rs \<Longrightarrow> find_row (tw_date r) rs = Some r"
  by (induction rs) (auto simp: find_row_def)

lemma find_replaced:
  "e \<in> tw_date ` set rs \<Longrightarrow> tw_date r = e \<Longrightarrow>
   find (\<lambda>x. tw_date x = e) (map (\<lambda>x. if tw_date x = e then r else x) rs) = Some r"
proof (induction rs)
  case (Cons x rs)
  then show ?case by (cases "tw_date x = e") simp_all
qed simp

lemma find_others:
  "d \<noteq> e \<Longrightarrow> tw_date r = e \<Longrightarrow>
   find (\<lambda>x. tw_date x = d) (map (\<lambda>x. if tw_date x = e then r else x) rs) = find (\<lambda>x. tw_date x = d) rs"
  by (induction rs) simp_all

lemma find_put_row: "find_row d (put_row r rs) = (if d = tw_date r then Some r else find_row d rs)"
proof (cases "tw_date r \<in> tw_date ` set rs")
  case True
  then show ?thesis
    using find_replaced [OF True refl] find_others [OF _ refl, of d r rs]
    by (cases "d = tw_date r") (simp_all add: put_row_def find_row_def)
next
  case False
  have "find (\<lambda>x. tw_date x = d) (rs @ [r]) =
      (case find (\<lambda>x. tw_date x = d) rs of None \<Rightarrow> find (\<lambda>x. tw_date x = d) [r] | Some x \<Rightarrow> Some x)"
    by (induction rs) simp_all
  moreover have "find (\<lambda>x. tw_date x = tw_date r) rs = None"
    using find_row_None [of "tw_date r" rs] False by (simp add: find_row_def)
  ultimately show ?thesis using False by (auto simp: put_row_def find_row_def split: option.split)
qed

lemma put_row_dates: "map tw_date (put_row r rs) = (if tw_date r \<in> set (map tw_date rs) then map tw_date rs else map tw_date rs @ [tw_date r])"
  by (simp add: put_row_def comp_def if_distrib cong: if_cong)

lemma put_row_set: "x \<in> set (put_row r rs) \<Longrightarrow> x = r \<or> x \<in> set rs"
  by (auto simp: put_row_def split: if_splits)

lemma rows_ok_put:
  assumes "rows_ok rs"
    "tw_provenance r = None \<or> tw_provenance r = Some PROVENANCE_SETTLE \<or> tw_provenance r = Some PROVENANCE_BACKFILL"
  shows "rows_ok (put_row r rs)"
proof -
  have "distinct (map tw_date (put_row r rs))" using assms(1) by (auto simp: put_row_dates rows_ok_def)
  then show ?thesis using assms put_row_set by (fastforce simp: rows_ok_def)
qed

lemma traces_ok_iff: "traces_ok rs \<longleftrightarrow> rows_ok rs \<and> (\<forall>x. known_row (find_row x rs))"
proof
  assume "traces_ok rs"
  then show "rows_ok rs \<and> (\<forall>x. known_row (find_row x rs))"
    using find_row_Some by (fastforce simp: traces_ok_def rows_ok_def known_row_def split: option.split)
next
  assume r: "rows_ok rs \<and> (\<forall>x. known_row (find_row x rs))"
  have "tw_status x \<in> set TRACE_STATUSES" if "x \<in> set rs" for x
    using r find_row_in [of rs x] that by (metis known_row_def option.simps(5) rows_ok_def)
  then show "traces_ok rs" using r by (simp add: traces_ok_def rows_ok_def)
qed

lemma build_ok:
  "dc_legs d \<noteq> [] \<Longrightarrow> prov \<in> {PROVENANCE_SETTLE, PROVENANCE_BACKFILL} \<Longrightarrow>
   \<exists>t. build_paper_trace dep day d prov ph = Inr t \<and> pt_provenance t = prov"
  by (auto simp: build_paper_trace_def)

lemma publish_status: "publish_paper_trace sw dep t \<in> set TRACE_STATUSES"
  by (simp add: publish_paper_trace_def TRACE_STATUSES_def)

text \<open>What a settle may do to the row of a decision.\<close>

definition row_settled ::
  "settle_world \<Rightarrow> deployment \<Rightarrow> string list \<Rightarrow> int set \<Rightarrow> int \<Rightarrow> decision \<Rightarrow> trace_row option \<Rightarrow> trace_row \<Rightarrow> bool" where
  "row_settled sw dep paper_hashes ledgered day d old r \<longleftrightarrow>
     old = Some r \<and> tw_status r \<notin> set TRACE_RETRYABLE \<or>
     (\<forall>r0. old = Some r0 \<longrightarrow> tw_status r0 \<in> set TRACE_RETRYABLE) \<and>
     (tw_status r = ''published'' \<longrightarrow>
        tw_provenance r = Some (if day \<in> ledgered then PROVENANCE_BACKFILL else PROVENANCE_SETTLE) \<and>
        (\<exists>t. build_paper_trace dep day d (if day \<in> ledgered then PROVENANCE_BACKFILL else PROVENANCE_SETTLE) paper_hashes = Inr t \<and>
           tw_hash r = Some (sw_digest sw t)))"

lemma attempt_settles:
  assumes ok: "rows_ok (st_rows st)" and legs: "dc_legs d \<noteq> []"
    and old: "\<forall>r0. find_row day (st_rows st) = Some r0 \<longrightarrow> tw_status r0 \<in> set TRACE_RETRYABLE"
  shows "\<exists>st' r. attempt_trace sw dep ph ledgered day d st = (None, st') \<and> rows_ok (st_rows st') \<and>
    find_row day (st_rows st') = Some r \<and> tw_status r \<in> set TRACE_STATUSES \<and> (\<forall>x. x \<noteq> day \<longrightarrow> find_row x (st_rows st') = find_row x (st_rows st)) \<and>
    st_counts st' = count_status (tw_status r) (st_counts st) \<and>
    row_settled sw dep ph ledgered day d (find_row day (st_rows st)) r"
proof -
  let ?prov = "if day \<in> ledgered then PROVENANCE_BACKFILL else PROVENANCE_SETTLE"
  obtain t where t: "build_paper_trace dep day d ?prov ph = Inr t" "pt_provenance t = ?prov"
    using build_ok [OF legs, of ?prov dep day ph] by fastforce
  show ?thesis
  proof (cases "backfill_max (sw_env sw) \<le> st_attempted st")
    case True
    let ?r = "\<lparr>tw_date = day, tw_trace_id = None, tw_hash = None, tw_status = ''failed'', tw_provenance = None\<rparr>"
    have "attempt_trace sw dep ph ledgered day d st = (None, write_row sw dep day ''failed'' None st)"
      using True by (simp add: attempt_trace_def)
    then show ?thesis
      using old rows_ok_put [OF ok, of ?r]
      by (intro exI [of _ "write_row sw dep day ''failed'' None st"] exI [of _ ?r])
        (simp add: write_row_def find_put_row TRACE_STATUSES_def row_settled_def)
  next
    case False
    let ?s = "publish_paper_trace sw dep t" and ?st = "st\<lparr>st_attempted := st_attempted st + 1\<rparr>"
    let ?kept = "if ?s = ''published'' then Some t else None"
    let ?r = "\<lparr>tw_date = day, tw_trace_id = map_option (\<lambda>t. (dp_id dep, pt_date t)) ?kept,
      tw_hash = map_option (sw_digest sw) ?kept, tw_status = ?s, tw_provenance = map_option pt_provenance ?kept\<rparr>"
    have a: "attempt_trace sw dep ph ledgered day d st = (None, write_row sw dep day ?s (Some t) ?st)"
      using False t by (simp add: attempt_trace_def Let_def)
    have rows: "st_rows (write_row sw dep day ?s (Some t) ?st) = put_row ?r (st_rows st)"
      "st_counts (write_row sw dep day ?s (Some t) ?st) = count_status ?s (st_counts st)"
      by (simp_all add: write_row_def Let_def)
    have "rows_ok (put_row ?r (st_rows st))"
      using t(2) by (intro rows_ok_put [OF ok]) (auto split: if_splits)
    moreover have "tw_status ?r \<in> set TRACE_STATUSES" using publish_status by simp
    moreover have "row_settled sw dep ph ledgered day d (find_row day (st_rows st)) ?r"
      using old t by (auto simp: row_settled_def)
    ultimately show ?thesis
      using a rows by (intro exI [of _ "write_row sw dep day ?s (Some t) ?st"] exI [of _ ?r]) (simp add: find_put_row)
  qed
qed

lemma decision_settles:
  assumes ok: "rows_ok (st_rows st)" and legs: "dc_legs d \<noteq> []"
  shows "\<exists>st' r. settle_decision sw dep ph ledgered day d st = (None, st') \<and> rows_ok (st_rows st') \<and>
    find_row day (st_rows st') = Some r \<and> (tw_status r \<in> set TRACE_STATUSES \<or> find_row day (st_rows st) = Some r) \<and> (\<forall>x. x \<noteq> day \<longrightarrow> find_row x (st_rows st') = find_row x (st_rows st)) \<and>
    st_counts st' = count_status (tw_status r) (st_counts st) \<and>
    row_settled sw dep ph ledgered day d (find_row day (st_rows st)) r"
proof (cases "\<exists>r. find_row day (st_rows st) = Some r \<and> tw_status r \<notin> set TRACE_RETRYABLE")
  case True
  then obtain r where r: "find_row day (st_rows st) = Some r" "tw_status r \<notin> set TRACE_RETRYABLE" by blast
  have "truthy (tw_provenance r) \<Longrightarrow> or_empty (tw_provenance r) \<in> {PROVENANCE_SETTLE, PROVENANCE_BACKFILL}"
    using ok find_row_Some [OF r(1)] by (auto simp: rows_ok_def)
  then obtain t where "build_paper_trace dep day d
      (if truthy (tw_provenance r) then or_empty (tw_provenance r) else PROVENANCE_SETTLE) ph = Inr t"
    using build_ok [OF legs, of _ dep day ph] by (metis insertI1)
  then show ?thesis using r ok by (simp add: settle_decision_def row_settled_def)
next
  case False
  then have old: "\<forall>r0. find_row day (st_rows st) = Some r0 \<longrightarrow> tw_status r0 \<in> set TRACE_RETRYABLE" by blast
  then have "settle_decision sw dep ph ledgered day d st = attempt_trace sw dep ph ledgered day d st"
    by (auto simp: settle_decision_def TRACE_RETRYABLE_def split: option.split)
  then show ?thesis using attempt_settles [OF ok legs old, of sw dep ph ledgered] by auto
qed

lemma count_status_keys: "map fst (count_status s counts) = map fst counts"
  by (simp add: count_status_def comp_def case_prod_beta')

lemma count_status_of: "s \<in> fst ` set counts \<Longrightarrow> count_of x (count_status s counts) = count_of x counts + (if x = s then 1 else 0)"
proof -
  assume "s \<in> fst ` set counts"
  then have "map_of counts s \<noteq> None" by (simp add: map_of_eq_None_iff)
  moreover have "map_of (count_status s counts) x = map_option (\<lambda>n. if x = s then Suc n else n) (map_of counts x)"
    by (induction counts) (auto simp: count_status_def)
  ultimately show ?thesis by (auto simp: count_of_def split: option.splits)
qed

lemma count_status_unknown: "s \<notin> fst ` set counts \<Longrightarrow> count_status s counts = counts"
  by (induction counts) (auto simp: count_status_def)

lemma count_status_sum:
  "distinct (map fst counts) \<Longrightarrow> s \<in> fst ` set counts \<Longrightarrow>
   sum_list (map snd (count_status s counts)) = Suc (sum_list (map snd counts))"
proof (induction counts)
  case (Cons c counts)
  obtain k n where c: "c = (k, n)" by (cases c)
  have same: "count_status s counts = counts" if "s \<notin> fst ` set counts"
    using that by (induction counts) (auto simp: count_status_def)
  show ?case
  proof (cases "k = s")
    case True
    then show ?thesis using Cons.prems same by (simp add: c) (simp add: count_status_def)
  next
    case False
    then show ?thesis using Cons by (auto simp: c count_status_def)
  qed
qed simp

text \<open>How many of the days have a row with the status.\<close>

definition with_status :: "string \<Rightarrow> trace_row list \<Rightarrow> int list \<Rightarrow> nat" where
  "with_status s rs days = length (filter (\<lambda>d. map_option tw_status (find_row d rs) = Some s) days)"

lemma with_status_same:
  "(\<And>d. d \<in> set days \<Longrightarrow> find_row d rs' = find_row d rs) \<Longrightarrow> with_status s rs' days = with_status s rs days"
  unfolding with_status_def by (metis (mono_tags, lifting) filter_cong)

text \<open>And how many have one with a status outside the vocabulary, which no count takes in.\<close>

definition unknown_rows :: "trace_row list \<Rightarrow> int list \<Rightarrow> nat" where
  "unknown_rows rs days = length (filter (\<lambda>d. \<not> known_row (find_row d rs)) days)"

text \<open>The effect of one decision on the counts: a status outside the vocabulary is counted nowhere.\<close>

lemma count_status_step:
  assumes "map fst cs = TRACE_STATUSES"
  shows "sum_list (map snd (count_status (tw_status r) cs)) + (if known_row (Some r) then 0 else 1) = Suc (sum_list (map snd cs))"
    and "s \<in> set TRACE_STATUSES \<Longrightarrow> count_of s (count_status (tw_status r) cs) = count_of s cs + (if tw_status r = s then 1 else 0)"
proof -
  have keys: "fst ` set cs = set TRACE_STATUSES" using assms by (simp flip: set_map)
  show "sum_list (map snd (count_status (tw_status r) cs)) + (if known_row (Some r) then 0 else 1) = Suc (sum_list (map snd cs))"
    using count_status_sum [of cs "tw_status r"] count_status_unknown [of "tw_status r" cs] keys assms
    by (cases "tw_status r \<in> set TRACE_STATUSES") (simp_all add: TRACE_STATUSES_def known_row_def)
  show "count_of s (count_status (tw_status r) cs) = count_of s cs + (if tw_status r = s then 1 else 0)" if "s \<in> set TRACE_STATUSES"
    using count_status_of [of "tw_status r" cs s] count_status_unknown [of "tw_status r" cs] keys that
    by (cases "tw_status r \<in> set TRACE_STATUSES") auto
qed

lemma loop_settles:
  assumes "rows_ok (st_rows st)" and "distinct (map fst ds)" and "\<forall>(_, d) \<in> set ds. dc_legs d \<noteq> []"
    and "map fst (st_counts st) = TRACE_STATUSES"
  shows "\<exists>st'. settle_loop sw dep ph ledgered ds st = (None, st') \<and> rows_ok (st_rows st') \<and>
    map fst (st_counts st') = TRACE_STATUSES \<and>
    (\<forall>x. x \<notin> fst ` set ds \<longrightarrow> find_row x (st_rows st') = find_row x (st_rows st)) \<and>
    (\<forall>s \<in> set TRACE_STATUSES. count_of s (st_counts st') = count_of s (st_counts st) + with_status s (st_rows st') (map fst ds)) \<and>
    sum_list (map snd (st_counts st')) + unknown_rows (st_rows st') (map fst ds) = sum_list (map snd (st_counts st)) + length ds \<and>
    (\<forall>x. known_row (find_row x (st_rows st')) \<or> find_row x (st_rows st') = find_row x (st_rows st)) \<and>
    (\<forall>(day, d) \<in> set ds. \<exists>r. find_row day (st_rows st') = Some r \<and>
       row_settled sw dep ph ledgered day d (find_row day (st_rows st)) r)"
  using assms
proof (induction ds arbitrary: st)
  case (Cons e ds)
  obtain day d where e: "e = (day, d)" by (cases e)
  obtain st1 r where 1: "settle_decision sw dep ph ledgered day d st = (None, st1)" "rows_ok (st_rows st1)"
    "find_row day (st_rows st1) = Some r" "\<forall>x. x \<noteq> day \<longrightarrow> find_row x (st_rows st1) = find_row x (st_rows st)"
    "st_counts st1 = count_status (tw_status r) (st_counts st)"
    "row_settled sw dep ph ledgered day d (find_row day (st_rows st)) r"
    "tw_status r \<in> set TRACE_STATUSES \<or> find_row day (st_rows st) = Some r"
    using decision_settles [OF Cons.prems(1), of d sw dep ph ledgered day] Cons.prems(3) by (auto simp: e)
  have keys: "map fst (st_counts st1) = TRACE_STATUSES" using 1(5) Cons.prems(4) by (simp add: count_status_keys)
  obtain st' where st': "settle_loop sw dep ph ledgered ds st1 = (None, st')" "rows_ok (st_rows st')"
    "map fst (st_counts st') = TRACE_STATUSES"
    "\<forall>x. x \<notin> fst ` set ds \<longrightarrow> find_row x (st_rows st') = find_row x (st_rows st1)"
    "\<forall>s \<in> set TRACE_STATUSES. count_of s (st_counts st') = count_of s (st_counts st1) + with_status s (st_rows st') (map fst ds)"
    "sum_list (map snd (st_counts st')) + unknown_rows (st_rows st') (map fst ds) = sum_list (map snd (st_counts st1)) + length ds"
    "\<forall>x. known_row (find_row x (st_rows st')) \<or> find_row x (st_rows st') = find_row x (st_rows st1)"
    "\<forall>(day, d) \<in> set ds. \<exists>r. find_row day (st_rows st') = Some r \<and>
       row_settled sw dep ph ledgered day d (find_row day (st_rows st1)) r"
    using Cons.IH [OF 1(2) _ _ keys] Cons.prems(2,3) by (auto simp: e)
  have new: "day \<notin> fst ` set ds" using Cons.prems(2) by (simp add: e)
  have here: "find_row day (st_rows st') = Some r" using st'(4) new 1(3) by simp
  note step = count_status_step [OF Cons.prems(4), where r = r, folded 1(5)]
  have sums: "sum_list (map snd (st_counts st')) + unknown_rows (st_rows st') (day # map fst ds) =
      sum_list (map snd (st_counts st)) + Suc (length ds)"
    using st'(6) here step(1) by (simp add: unknown_rows_def split: if_splits)
  have counts: "count_of s (st_counts st') = count_of s (st_counts st) + with_status s (st_rows st') (day # map fst ds)"
    if s: "s \<in> set TRACE_STATUSES" for s
    using st'(5) s here step(2) [OF s] by (simp add: with_status_def)
  have same: "row_settled sw dep ph ledgered x y (find_row x (st_rows st1)) z =
      row_settled sw dep ph ledgered x y (find_row x (st_rows st)) z" if "(x, y) \<in> set ds" for x y z
    using 1(4) new that by (metis fst_conv image_eqI)
  have known: "known_row (find_row x (st_rows st')) \<or> find_row x (st_rows st') = find_row x (st_rows st)" for x
    using st'(7) 1(3,4,7) here by (cases "x = day") (auto simp: known_row_def)
  have frame: "find_row x (st_rows st') = find_row x (st_rows st)" if "x \<notin> fst ` set (e # ds)" for x
    using st'(4) 1(4) that by (simp add: e)
  have rows: "\<forall>(x, y) \<in> set (e # ds). \<exists>z. find_row x (st_rows st') = Some z \<and>
      row_settled sw dep ph ledgered x y (find_row x (st_rows st)) z"
    using st'(8) same 1(6) here by (fastforce simp: e)
  show ?case
    using st'(1-3) 1(1) sums counts known frame rows by (intro exI [of _ st']) (simp add: e)
qed (simp add: with_status_def unknown_rows_def)

lemma decide_days_fst: "map fst (decide_days closes cash ls legs days) = days"
  by (induction days) simp_all

lemma decide_days_legs:
  "(day, d) \<in> set (decide_days closes cash ls legs days) \<Longrightarrow>
   day \<in> set days \<and> dc_legs d = sort_key leg_order (filter (\<lambda>l. lg_decided_on l = day) legs)"
  by (induction days) auto

lemma dated_decisions_shape:
  "distinct (map fst (dated_decisions frames cash deployed_at ls))"
  "(day, d) \<in> set (dated_decisions frames cash deployed_at ls) \<Longrightarrow> dc_legs d \<noteq> []"
proof -
  show "distinct (map fst (dated_decisions frames cash deployed_at ls))"
    by (simp add: dated_decisions_def Let_def decide_days_fst)
  assume "(day, d) \<in> set (dated_decisions frames cash deployed_at ls)"
  moreover define legs where "legs = filter (\<lambda>l. deployed_at \<le> lg_decided_on l) (concat (map snd ls))"
  ultimately have "dc_legs d = sort_key leg_order (filter (\<lambda>l. lg_decided_on l = day) legs)" "day \<in> lg_decided_on ` set legs"
    unfolding dated_decisions_def Let_def legs_def [symmetric] by (auto dest!: decide_days_legs)
  then show "dc_legs d \<noteq> []"
    by (metis (mono_tags, lifting) filter_empty_conv imageE set_empty set_sort)
qed

lemma replay_decisions:
  assumes "replay fetch engine cash spec_dict deployed_at = Inr r"
  shows "distinct (map fst (rr_decisions r))" "\<forall>(_, d) \<in> set (rr_decisions r). dc_legs d \<noteq> []"
    "\<exists>spec. validate_strategy_spec spec_dict = Inr spec"
proof -
  obtain frames ls where "rr_decisions r = dated_decisions frames cash deployed_at ls"
    using assms by (auto simp: replay_def Let_def split: sum.splits option.splits if_splits prod.splits)
  then show "distinct (map fst (rr_decisions r))" "\<forall>(_, d) \<in> set (rr_decisions r). dc_legs d \<noteq> []"
    using dated_decisions_shape by auto
  show "\<exists>spec. validate_strategy_spec spec_dict = Inr spec"
    using assms by (auto simp: replay_def split: sum.splits)
qed

text \<open>What the settle of a deployment leaves, when every stored row is one the code writes.\<close>

definition decisions_settled ::
  "settle_world \<Rightarrow> deployment \<Rightarrow> (int \<times> decision) list \<Rightarrow> int set \<Rightarrow> trace_counts \<Rightarrow> deployment \<Rightarrow> bool" where
  "decisions_settled sw dep ds ledgered tc dep' \<longleftrightarrow>
     traces_ok (dp_traces dep') \<and> tc_decisions tc = length ds \<and>
     tc_counts tc = map (\<lambda>s. (s, with_status s (dp_traces dep') (map fst ds))) TRACE_STATUSES \<and>
     sum_list (map snd (tc_counts tc)) = length ds \<and>
     (\<forall>x. x \<notin> fst ` set ds \<longrightarrow> find_row x (dp_traces dep') = find_row x (dp_traces dep)) \<and>
     (\<forall>(day, d) \<in> set ds. \<exists>r ph. find_row day (dp_traces dep') = Some r \<and>
        row_settled sw dep ph ledgered day d (find_row day (dp_traces dep)) r)"

lemma decisions_settledD:
  assumes "decisions_settled sw dep ds ledgered tc dep'"
  shows "traces_ok (dp_traces dep')"
    and "tc_counts tc = map (\<lambda>s. (s, with_status s (dp_traces dep') (map fst ds))) TRACE_STATUSES"
    and "sum_list (map snd (tc_counts tc)) = length ds"
    and "day \<notin> fst ` set ds \<Longrightarrow> find_row day (dp_traces dep') = find_row day (dp_traces dep)"
    and "(day, d) \<in> set ds \<Longrightarrow> \<exists>r ph. find_row day (dp_traces dep') = Some r \<and>
        row_settled sw dep ph ledgered day d (find_row day (dp_traces dep)) r"
  using assms unfolding decisions_settled_def by blast+

text \<open>The settle on rows with any status: it ends with every decision counted, or at the identity.\<close>

lemma counts_listed:
  assumes "map fst cs = TRACE_STATUSES" and "\<And>s. s \<in> set TRACE_STATUSES \<Longrightarrow> count_of s cs = f s"
  shows "cs = map (\<lambda>s. (s, f s)) TRACE_STATUSES"
proof (rule nth_equalityI)
  have d: "distinct (map fst cs)" unfolding assms(1) by (simp add: TRACE_STATUSES_def)
  show l: "length cs = length (map (\<lambda>s. (s, f s)) TRACE_STATUSES)" using arg_cong [OF assms(1), of length] by simp
  fix i assume i: "i < length cs"
  then have f: "fst (cs ! i) = TRACE_STATUSES ! i" using arg_cong [OF assms(1), of "\<lambda>xs. xs ! i"] by simp
  have "map_of cs (fst (cs ! i)) = Some (snd (cs ! i))" using d i by (intro map_of_is_SomeI) simp_all
  then have "count_of (fst (cs ! i)) cs = snd (cs ! i)" by (simp add: count_of_def)
  then show "cs ! i = map (\<lambda>s. (s, f s)) TRACE_STATUSES ! i" using f l i assms(2) [of "TRACE_STATUSES ! i"] by (simp add: prod_eq_iff)
qed

lemma unknown_row_kept:
  assumes "row_settled sw dep ph ledgered day d stored r" and "\<not> known_row stored"
  shows "Some r = stored"
  using assms by (auto simp: row_settled_def known_row_def TRACE_RETRYABLE_def TRACE_STATUSES_def split: option.splits)

lemma publish_general:
  assumes ok: "rows_ok (dp_traces dep)" and spec: "validate_strategy_spec (dp_spec dep) = Inr spec"
    and days: "distinct (map fst ds)" and legs: "\<forall>(_, d) \<in> set ds. dc_legs d \<noteq> []"
  shows "if list_all (\<lambda>(day, _). known_row (find_row day (dp_traces dep))) ds
    then \<exists>tc dep'. publish_decision_traces sw ds ledgered dep = (Inr tc, dep') \<and> rows_ok (dp_traces dep') \<and>
      (\<forall>x. known_row (find_row x (dp_traces dep')) \<or> find_row x (dp_traces dep') = find_row x (dp_traces dep)) \<and>
      tc_decisions tc = length ds \<and>
      tc_counts tc = map (\<lambda>s. (s, with_status s (dp_traces dep') (map fst ds))) TRACE_STATUSES \<and>
      sum_list (map snd (tc_counts tc)) = length ds \<and>
      (\<forall>x. x \<notin> fst ` set ds \<longrightarrow> find_row x (dp_traces dep') = find_row x (dp_traces dep)) \<and>
      (\<forall>(day, d) \<in> set ds. \<exists>r ph. find_row day (dp_traces dep') = Some r \<and>
         row_settled sw dep ph ledgered day d (find_row day (dp_traces dep)) r)
    else fst (publish_decision_traces sw ds ledgered dep) = Inl PaperTraceCoverageError"
proof (cases "ds = []")
  case True
  then show ?thesis
    using ok by (simp add: publish_decision_traces_def no_counts_def with_status_def TRACE_STATUSES_def)
next
  case False
  let ?ph = "sw_paper_hashes sw (sp_source_arxiv_ids spec)" and ?ds = "sort_key fst ds"
  let ?st = "\<lparr>st_counts = no_counts, st_attempted = 0, st_trace_drift = 0, st_rows = dp_traces dep\<rparr>"
  have "rows_ok (st_rows ?st)" "distinct (map fst ?ds)" "\<forall>(_, d) \<in> set ?ds. dc_legs d \<noteq> []" "map fst (st_counts ?st) = TRACE_STATUSES"
    using ok days legs by (simp_all add: distinct_map no_counts_def comp_def)
  from loop_settles [OF this, of sw dep ?ph ledgered] obtain st' where
    st': "settle_loop sw dep ?ph ledgered ?ds ?st = (None, st')" "rows_ok (st_rows st')"
    "map fst (st_counts st') = TRACE_STATUSES"
    "\<forall>x. x \<notin> fst ` set ds \<longrightarrow> find_row x (st_rows st') = find_row x (dp_traces dep)"
    "\<forall>s \<in> set TRACE_STATUSES. count_of s (st_counts st') = with_status s (st_rows st') (map fst ?ds)"
    "sum_list (map snd (st_counts st')) + unknown_rows (st_rows st') (map fst ?ds) = length ds"
    "\<forall>x. known_row (find_row x (st_rows st')) \<or> find_row x (st_rows st') = find_row x (dp_traces dep)"
    "\<forall>(day, d) \<in> set ds. \<exists>r. find_row day (st_rows st') = Some r \<and>
       row_settled sw dep ?ph ledgered day d (find_row day (dp_traces dep)) r"
    by (auto simp: no_counts_def TRACE_STATUSES_def count_of_def)
  have days_sort: "length (filter P (map fst ?ds)) = length (filter P (map fst ds))" for P
    unfolding filter_map length_map comp_def by (simp add: filter_sort)
  have kept: "find_row day (st_rows st') = find_row day (dp_traces dep)"
    if "(day, d) \<in> set ds" "\<not> known_row (find_row day (dp_traces dep))" for day d
    using st'(8) that unknown_row_kept by fastforce
  have "unknown_rows (st_rows st') (map fst ?ds) = 0 \<longleftrightarrow> list_all (\<lambda>(day, _). known_row (find_row day (dp_traces dep))) ds"
    unfolding unknown_rows_def length_0_conv filter_empty_conv list_all_iff set_map set_sort
    using st'(7) kept by fastforce
  then have all: "sum_list (map snd (st_counts st')) = length ds \<longleftrightarrow>
      list_all (\<lambda>(day, _). known_row (find_row day (dp_traces dep))) ds"
    using st'(6) by linarith
  have counts: "st_counts st' = map (\<lambda>s. (s, with_status s (st_rows st') (map fst ds))) TRACE_STATUSES"
    by (rule counts_listed [OF st'(3)]) (use st'(5) days_sort in \<open>simp add: with_status_def\<close>)
  have loop: "publish_decision_traces sw ds ledgered dep =
      (let dep' = dep\<lparr>dp_traces := st_rows st'\<rparr>
       in if sum_list (map snd (st_counts st')) \<noteq> length ds then (Inl PaperTraceCoverageError, dep')
          else (Inr \<lparr>tc_decisions = length ds, tc_counts = st_counts st', tc_trace_drift = st_trace_drift st'\<rparr>,
                dep'\<lparr>dp_trace_gap_at := (if count_of ''published'' (st_counts st') < length ds
                       then Some (sw_now sw) else dp_trace_gap_at dep'),
                     dp_trace_drift_at := (if 0 < st_trace_drift st' then Some (sw_now sw) else dp_trace_drift_at dep')\<rparr>))"
    using False spec st'(1) by (simp add: publish_decision_traces_def)
  show ?thesis
  proof (cases "list_all (\<lambda>(day, _). known_row (find_row day (dp_traces dep))) ds")
    case True
    then have sum: "sum_list (map snd (st_counts st')) = length ds" using all by blast
    show ?thesis unfolding if_P [OF True] loop Let_def
      using st'(2,4,7,8) counts sum by simp blast
  next
    case False
    then have "sum_list (map snd (st_counts st')) \<noteq> length ds" using all by blast
    then show ?thesis unfolding if_not_P [OF False] loop Let_def by simp
  qed
qed

lemma publish_settles:
  assumes ok: "traces_ok (dp_traces dep)" and spec: "validate_strategy_spec (dp_spec dep) = Inr spec"
    and days: "distinct (map fst ds)" and legs: "\<forall>(_, d) \<in> set ds. dc_legs d \<noteq> []"
  shows "\<exists>tc dep'. publish_decision_traces sw ds ledgered dep = (Inr tc, dep') \<and> decisions_settled sw dep ds ledgered tc dep'"
proof -
  have rows: "rows_ok (dp_traces dep)" and known: "\<forall>x. known_row (find_row x (dp_traces dep))"
    using ok by (simp_all add: traces_ok_iff)
  have "list_all (\<lambda>(day, _). known_row (find_row day (dp_traces dep))) ds" using known by (simp add: list_all_iff case_prod_beta')
  from publish_general [OF rows spec days legs, of sw ledgered, unfolded if_P [OF this]] obtain tc dep' where
    p: "publish_decision_traces sw ds ledgered dep = (Inr tc, dep')" "rows_ok (dp_traces dep')"
    "\<forall>x. known_row (find_row x (dp_traces dep')) \<or> find_row x (dp_traces dep') = find_row x (dp_traces dep)"
    "tc_decisions tc = length ds"
    "tc_counts tc = map (\<lambda>s. (s, with_status s (dp_traces dep') (map fst ds))) TRACE_STATUSES"
    "sum_list (map snd (tc_counts tc)) = length ds"
    "\<forall>x. x \<notin> fst ` set ds \<longrightarrow> find_row x (dp_traces dep') = find_row x (dp_traces dep)"
    "\<forall>(day, d) \<in> set ds. \<exists>r ph. find_row day (dp_traces dep') = Some r \<and>
       row_settled sw dep ph ledgered day d (find_row day (dp_traces dep)) r"
    by blast
  have "traces_ok (dp_traces dep')" unfolding traces_ok_iff using p(2,3) known by metis
  then show ?thesis using p unfolding decisions_settled_def by blast
qed

lemma advance_settles:
  assumes r: "replay fetch engine cash (dp_spec dep) (dp_deployed_at dep) = Inr r" and ok: "traces_ok (dp_traces dep)"
  shows "\<exists>c dep'. advance_deployment sw (replay fetch engine cash) dep = (Inr c, dep') \<and>
    decisions_settled sw dep (rr_decisions r) (lr_date ` set (dp_ledger dep)) (ac_traces c) dep'"
proof -
  obtain tc dep1 where 1: "publish_decision_traces sw (rr_decisions r) (lr_date ` set (dp_ledger dep)) dep = (Inr tc, dep1)"
    "decisions_settled sw dep (rr_decisions r) (lr_date ` set (dp_ledger dep)) tc dep1"
    using publish_settles [OF ok _ replay_decisions(1,2) [OF r]] replay_decisions(3) [OF r] by blast
  obtain c dep' where 2: "append_ledger sw r tc dep1 = (c, dep')" by fastforce
  then have same: "ac_traces c = tc" "dp_traces dep' = dp_traces dep1" by (auto simp: append_ledger_def Let_def)
  have "decisions_settled sw dep (rr_decisions r) (lr_date ` set (dp_ledger dep)) (ac_traces c) dep'"
    using 1(2) unfolding decisions_settled_def same .
  moreover have "advance_deployment sw (replay fetch engine cash) dep = (Inr c, dep')"
    using 1(1) 2 r by (simp add: advance_deployment_def)
  ultimately show ?thesis by blast
qed


text \<open>
  C13: A published trace is final: its row stays exactly as it is, digest and provenance included.  A trace that this
  advance publishes says of itself whether the ledger already had the day: \<^verbatim>\<open>backfill\<close> if so, \<^verbatim>\<open>settle\<close> only if not.
\<close>

theorem published_trace_final:
  assumes "replay fetch engine cash (dp_spec dep) (dp_deployed_at dep) = Inr r" and "traces_ok (dp_traces dep)"
    and "advance_deployment sw (replay fetch engine cash) dep = (res, dep')"
    and "row \<in> set (dp_traces (if old then dep else dep'))" and "tw_status row = ''published''"
  shows "row \<in> set (dp_traces dep') \<and>
    (row \<in> set (dp_traces dep) \<or>
     tw_provenance row = Some (if tw_date row \<in> lr_date ` set (dp_ledger dep) then ''backfill'' else ''settle''))"
proof -
  obtain c :: advance_counts where s: "decisions_settled sw dep (rr_decisions r) (lr_date ` set (dp_ledger dep)) (ac_traces c) dep'"
    using advance_settles [OF assms(1,2), of sw] assms(3) by auto
  let ?day = "tw_date row"
  note ok' = decisions_settledD(1) [OF s]
  have found: "find_row ?day (dp_traces (if old then dep else dep')) = Some row"
    using assms(2,4) ok' by (intro find_row_in) (simp_all add: traces_ok_def)
  show ?thesis
  proof (cases "?day \<in> fst ` set (rr_decisions r)")
    case False
    then have "find_row ?day (dp_traces dep') = find_row ?day (dp_traces dep)" by (rule decisions_settledD(4) [OF s])
    then have "find_row ?day (dp_traces dep') = Some row" "find_row ?day (dp_traces dep) = Some row"
      using found by (simp_all split: if_splits)
    then show ?thesis using find_row_Some by blast
  next
    case True
    then obtain d where "(?day, d) \<in> set (rr_decisions r)" by auto
    from decisions_settledD(5) [OF s this] obtain row' ph where n: "find_row ?day (dp_traces dep') = Some row'"
      "row_settled sw dep ph (lr_date ` set (dp_ledger dep)) ?day d (find_row ?day (dp_traces dep)) row'"
      by blast
    have kept: "row = row'"
    proof (cases old)
      case True
      then show ?thesis using n(2) found assms(5) by (simp add: row_settled_def TRACE_RETRYABLE_def)
    next
      case False
      then show ?thesis using n(1) found by simp
    qed
    then have "row \<in> set (dp_traces dep')" using find_row_Some [OF n(1)] by simp
    moreover have "row \<in> set (dp_traces dep) \<or>
        tw_provenance row = Some (if ?day \<in> lr_date ` set (dp_ledger dep) then ''backfill'' else ''settle'')"
      using n(2) kept assms(5) find_row_Some [of ?day "dp_traces dep" row]
      unfolding row_settled_def PROVENANCE_SETTLE_def PROVENANCE_BACKFILL_def by blast
    ultimately show ?thesis by blast
  qed
qed

text \<open>A deployment of the reference strategy with one earlier day, on one sleeve that buys on day 2.\<close>

definition paper_dep :: deployment where
  "paper_dep = \<lparr>dp_id = ''d1'', dp_strategy_id = ''s1'', dp_owner_wallet = Some ''0xa'', dp_owner_user_id = None,
     dp_spec = PDict FABER_2007_SPEC, dp_deployed_at = 1, dp_status = STATUS_ACTIVE, dp_drift_detected_at = None,
     dp_engine_regrade_at = None, dp_trace_gap_at = None, dp_trace_drift_at = None, dp_cache = None,
     dp_ledger = [\<lparr>lr_date = 1, lr_return = Finite 0, lr_version = None\<rparr>], dp_traces = []\<rparr>"

definition paper_sw :: settle_world where
  "paper_sw = \<lparr>sw_env = (\<lambda>_. None), sw_now = 7, sw_version = ''v1'', sw_digest = (\<lambda>_. ''h''), sw_saves = (\<lambda>_. True),
     sw_paper_hashes = (\<lambda>_. [])\<rparr>"

definition paper_leg :: leg where
  "paper_leg = one_leg\<lparr>lg_decided_on := 2\<rparr>"

lemma paper_leg_fields [simp]: "lg_decided_on paper_leg = 2" "paper_leg\<lparr>lg_symbol := ''SPY''\<rparr> = paper_leg"
  by (simp_all add: paper_leg_def one_leg_def)

definition paper_replay :: "pyval \<Rightarrow> int \<Rightarrow> paper_exn + replay_result" where
  "paper_replay = replay (\<lambda>_. Some [(''SPY'', [(1, 10), (2, 20), (3, 20)])])
     (\<lambda>_ _. Inr \<lparr>sr_equity_curve = [1, 2, 2], sr_journal = Some [paper_leg]\<rparr>) 100000"

lemma paper_sleeve:
  "sleeve_dated_returns ''SPY'' [(1, 10), (2, 20), (3, 20)]
     \<lparr>sr_equity_curve = [1, 2, 2], sr_journal = Some [paper_leg]\<rparr> True
   = Inr ([(2, 1), (3, 0)], [paper_leg])"
  by (simp add: sleeve_dated_returns_def tail_aligned_def dict_of_def Let_def)

lemma paper_replay_days:
  "(case paper_replay (dp_spec paper_dep) (dp_deployed_at paper_dep) of Inl _ \<Rightarrow> False
    | Inr r \<Rightarrow> map fst (rr_decisions r) = [2])"
  by (simp add: paper_replay_def paper_dep_def replay_def faber_valid paper_sleeve common_days_def dated_decisions_def
      decide_days_fst Let_def case_prod_beta')

lemma paper_replay_Inr: obtains r where "paper_replay (dp_spec paper_dep) (dp_deployed_at paper_dep) = Inr r" "length (rr_decisions r) = 1"
  using paper_replay_days
  by (cases "paper_replay (dp_spec paper_dep) (dp_deployed_at paper_dep)") (auto dest: arg_cong [where f = length])

lemma paper_traces_ok: "traces_ok (dp_traces paper_dep)"
  by (simp add: traces_ok_def paper_dep_def)




lemma paper_traces_after:
  "map (\<lambda>r. (tw_date r, tw_status r)) (dp_traces (snd (advance_deployment paper_sw paper_replay paper_dep))) = [(2, ''published'')]"
proof -
  obtain r where r: "paper_replay (dp_spec paper_dep) (dp_deployed_at paper_dep) = Inr r" "map fst (rr_decisions r) = [2]"
    using paper_replay_days by (auto split: sum.splits)
  then obtain d where d: "rr_decisions r = [(2, d)]" "dc_legs d \<noteq> []"
    using replay_decisions(2) [OF r(1) [unfolded paper_replay_def]] by auto
  obtain spec where spec: "validate_strategy_spec (dp_spec paper_dep) = Inr spec"
    using replay_decisions(3) [OF r(1) [unfolded paper_replay_def]] by blast
  have fields: "dp_traces paper_dep = []" "dp_owner_wallet paper_dep = Some ''0xa''" "lr_date ` set (dp_ledger paper_dep) = {1}"
    by (simp_all add: paper_dep_def)
  have world: "sw_env paper_sw = (\<lambda>_. None)" "sw_saves paper_sw = (\<lambda>_. True)" by (simp_all add: paper_sw_def)
  have max: "backfill_max (\<lambda>_. None) = 500" and on: "publishing_enabled (\<lambda>_. None)"
    by (simp_all add: backfill_max_def publishing_enabled_def env_bool_def py_strip_def py_lower_def)
  have "\<exists>tc dep1. publish_decision_traces paper_sw [(2, d)] {1} paper_dep = (Inr tc, dep1) \<and>
      map (\<lambda>r. (tw_date r, tw_status r)) (dp_traces dep1) = [(2, ''published'')]"
    using spec d(2)
    by (simp add: publish_decision_traces_def settle_decision_def attempt_trace_def find_row_def fields world max on
        build_paper_trace_def publish_paper_trace_def write_row_def put_row_def no_counts_def TRACE_STATUSES_def
        count_status_def Let_def)
  then obtain tc dep1 where "publish_decision_traces paper_sw [(2, d)] {1} paper_dep = (Inr tc, dep1)"
    "map (\<lambda>r. (tw_date r, tw_status r)) (dp_traces dep1) = [(2, ''published'')]" by (elim exE conjE)
  then show ?thesis using r(1) d(1) fields(3)
    by (simp add: advance_deployment_def append_ledger_def Let_def split: prod.split)
qed

theorem published_trace_final_witness:
  "\<exists>row \<in> set (dp_traces (snd (advance_deployment paper_sw paper_replay paper_dep))). tw_provenance row = Some ''settle''"
proof -
  obtain r where r: "paper_replay (dp_spec paper_dep) (dp_deployed_at paper_dep) = Inr r" by (rule paper_replay_Inr)
  obtain res dep' where a: "advance_deployment paper_sw paper_replay paper_dep = (res, dep')" by fastforce
  obtain row where row: "row \<in> set (dp_traces dep')" "tw_date row = 2" "tw_status row = ''published''"
    using paper_traces_after by (auto simp: a)
  have "tw_provenance row = Some (if tw_date row \<in> lr_date ` set (dp_ledger paper_dep) then ''backfill'' else ''settle'')"
    using published_trace_final [OF r [unfolded paper_replay_def] paper_traces_ok a [unfolded paper_replay_def], of row False] row
    by (auto simp: paper_dep_def)
  then show ?thesis using row a by (auto simp: paper_dep_def)
qed

theorem advance_again_settled_witness:
  "\<exists>c c' dep' dep''. advance_deployment paper_sw paper_replay paper_dep = (Inr c, dep') \<and>
     advance_deployment paper_sw paper_replay dep' = (Inr c', dep'') \<and> ac_appended c' = 0 \<and> dp_ledger dep'' = dp_ledger dep'"
proof -
  obtain r where r: "paper_replay (dp_spec paper_dep) (dp_deployed_at paper_dep) = Inr r" by (rule paper_replay_Inr)
  obtain c dep' where 1: "advance_deployment paper_sw paper_replay paper_dep = (Inr c, dep')" "traces_ok (dp_traces dep')"
    using advance_settles [OF r [unfolded paper_replay_def] paper_traces_ok] decisions_settledD(1) unfolding paper_replay_def by blast
  have "dp_spec dep' = dp_spec paper_dep" "dp_deployed_at dep' = dp_deployed_at paper_dep"
    using advance_keeps [OF 1(1)] by simp_all
  then have "paper_replay (dp_spec dep') (dp_deployed_at dep') = Inr r" using r by simp
  then obtain c' dep'' where 2: "advance_deployment paper_sw paper_replay dep' = (Inr c', dep'')"
    using advance_settles [OF _ 1(2)] unfolding paper_replay_def by blast
  show ?thesis using advance_again_settled [OF 1(1) [unfolded paper_replay_def] 2 [unfolded paper_replay_def] refl] 1 2 by blast
qed

section \<open>Attribution\<close>

lemma classify_data:
  "py_strip current \<noteq> [] \<Longrightarrow> classify_drift v (Some current) = Drift_data \<longleftrightarrow> py_strip (or_empty v) = py_strip current"
  by (auto simp: classify_drift_def Let_def)

lemma filter_partition:
  "length (filter (\<lambda>x. f x = Some Drift_data) xs) + length (filter (\<lambda>x. f x = Some Drift_engine) xs) +
   length (filter (\<lambda>x. f x = Some Drift_unversioned) xs) = length (filter (\<lambda>x. f x \<noteq> None) xs)"
proof (induction xs)
  case (Cons x xs)
  then show ?case by (cases "f x"; cases "the (f x)") auto
qed simp

text \<open>The days of a replay whose row in the ledger says otherwise.\<close>

definition disputed :: "ledger_row list \<Rightarrow> (int \<times> rat) list \<Rightarrow> ledger_row list" where
  "disputed ledger replayed =
     map (\<lambda>(d, _). the (find_day d ledger))
       (filter (\<lambda>(d, r). case find_day d ledger of None \<Rightarrow> False | Some row \<Rightarrow> disagrees (lr_return row) (Finite r)) replayed)"

text \<open>
  Every day on which a replay disagrees with the ledger is counted under exactly one of the three causes, and it is
  put down to the data exactly when its row was graded by the engine that runs now.
\<close>

theorem drift_attributed:
  assumes "replaying (dp_spec dep) (dp_deployed_at dep) = Inr r"
    and "advance_deployment sw replaying dep = (Inr c, dep')" and "py_strip (sw_version sw) \<noteq> []"
  shows "ac_drift c + ac_drift_engine c + ac_drift_unversioned c = length (disputed (dp_ledger dep) (rr_returns r)) \<and>
    ac_drift c = length (filter (\<lambda>row. py_strip (or_empty (lr_version row)) = py_strip (sw_version sw))
      (disputed (dp_ledger dep) (rr_returns r)))"
proof -
  obtain traces dep1 where 1: "append_ledger sw r traces dep1 = (c, dep')" "dp_ledger dep1 = dp_ledger dep"
    using assms(2) by (cases rule: advance_cases) (use assms(1) in auto)
  let ?d = "drift_of (sw_version sw) (dp_ledger dep)"
  have "(?d x \<noteq> None) = (case x of (d, r) \<Rightarrow> case find_day d (dp_ledger dep) of None \<Rightarrow> False | Some row \<Rightarrow> disagrees (lr_return row) (Finite r))"
    for x by (cases x) (auto simp: drift_of_def split: option.splits)
  then have all: "length (filter (\<lambda>x. ?d x \<noteq> None) (rr_returns r)) = length (disputed (dp_ledger dep) (rr_returns r))"
    by (simp add: disputed_def)
  have "(?d x = Some Drift_data) = (case x of (d, r) \<Rightarrow> (case find_day d (dp_ledger dep) of None \<Rightarrow> False
      | Some row \<Rightarrow> disagrees (lr_return row) (Finite r)) \<and>
      py_strip (or_empty (lr_version (the (find_day d (dp_ledger dep))))) = py_strip (sw_version sw))" for x
    using classify_data [OF assms(3)] by (cases x) (auto simp: drift_of_def split: option.splits)
  then have "length (filter (\<lambda>x. ?d x = Some Drift_data) (rr_returns r)) =
      length (filter (\<lambda>row. py_strip (or_empty (lr_version row)) = py_strip (sw_version sw)) (disputed (dp_ledger dep) (rr_returns r)))"
    by (simp add: disputed_def filter_map comp_def case_prod_beta' conj_commute)
  then show ?thesis
    using append_ledger_fields(6-8) [OF 1(1)] 1(2) filter_partition [of ?d "rr_returns r"] all by (simp add: count_drift_def)
qed

lemma paper_days:
  "replay_days [(''SPY'', [(2, 1), (3, 0)])] 1 [2, 3] [(''SPY'', 1)] = ([(2, 1), (3, 0)], [(''SPY'', 2)])"
  by code_simp

lemma paper_replay_returns:
  "(case paper_replay (PDict FABER_2007_SPEC) 1 of Inl _ \<Rightarrow> False | Inr r \<Rightarrow> rr_returns r = [(2, 1), (3, 0)])"
  by (simp add: paper_replay_def replay_def faber_valid paper_sleeve common_days_def Let_def paper_days del: replay_days.simps)

definition disputed_dep :: deployment where
  "disputed_dep = paper_dep\<lparr>dp_ledger := [\<lparr>lr_date = 2, lr_return = Finite 5, lr_version = Some ''v1''\<rparr>,
     \<lparr>lr_date = 3, lr_return = Finite 5, lr_version = Some ''v0''\<rparr>]\<rparr>"

lemma five_disagrees: "disagrees (Finite 5) (Finite 1)" "disagrees (Finite 5) (Finite 0)"
  by code_simp+

theorem drift_attributed_witness:
  "\<exists>c dep'. advance_deployment paper_sw paper_replay disputed_dep = (Inr c, dep') \<and>
     ac_drift c = 1 \<and> ac_drift c + ac_drift_engine c + ac_drift_unversioned c = 2"
proof -
  obtain r where r: "paper_replay (dp_spec disputed_dep) (dp_deployed_at disputed_dep) = Inr r" "rr_returns r = [(2, 1), (3, 0)]"
    using paper_replay_returns by (auto simp: disputed_dep_def paper_dep_def split: sum.splits)
  have ok: "traces_ok (dp_traces disputed_dep)" by (simp add: disputed_dep_def paper_dep_def traces_ok_def)
  obtain c dep' where a: "advance_deployment paper_sw paper_replay disputed_dep = (Inr c, dep')"
    using advance_settles [OF r(1) [unfolded paper_replay_def] ok, of paper_sw] unfolding paper_replay_def by blast
  have strip: "py_strip ''v1'' = ''v1''" "py_strip ''v0'' = ''v0''" by code_simp+
  have "disputed (dp_ledger disputed_dep) (rr_returns r) = dp_ledger disputed_dep"
    using five_disagrees by (simp add: r(2) disputed_def disputed_dep_def find_day_def)
  then show ?thesis
    using drift_attributed [where replaying = paper_replay, OF r(1) a] a
    by (intro exI [of _ c] exI [of _ dep']) (simp add: strip paper_sw_def disputed_dep_def)
qed

section \<open>The pass over all deployments\<close>

text \<open>Whether the flushes of an advance that runs in a usable session succeed.\<close>

definition flushed ::
  "settle_world \<Rightarrow> (pyval \<Rightarrow> int \<Rightarrow> paper_exn + replay_result) \<Rightarrow> (deployment \<Rightarrow> flush_point \<Rightarrow> bool) \<Rightarrow> deployment \<Rightarrow> bool" where
  "flushed sw replaying flush dep =
     (case replaying (dp_spec dep) (dp_deployed_at dep) of
        Inl _ \<Rightarrow> True
      | Inr r \<Rightarrow>
          (rr_decisions r = [] \<or> corpus_ids dep = [] \<or> flush dep At_savepoint) \<and>
          (case fst (advance_deployment sw replaying dep) of
             Inl _ \<Rightarrow> True
           | Inr _ \<Rightarrow> flush dep At_append \<and> (rr_positions r = None \<or> flush dep At_cache)))"

lemma advance_replay_fails: "replaying (dp_spec dep) (dp_deployed_at dep) = Inl e \<Longrightarrow> advance_deployment sw replaying dep = (Inl e, dep)"
  by (simp add: advance_deployment_def)

lemma usable_advance:
  "advance_in_session sw replaying flush dep Usable =
     (if flushed sw replaying flush dep
      then (fst (advance_deployment sw replaying dep), snd (advance_deployment sw replaying dep), Usable)
      else (Inl OtherError, dep, Broken))"
  by (auto simp: advance_in_session_def flushed_def advance_replay_fails split: sum.split prod.split)

lemma broken_advance: "advance_in_session sw replaying flush dep Broken = (Inl OtherError, dep, Broken)"
  by (simp add: advance_in_session_def)

lemma add_result_counts [simp]:
  "pa_ok (add_result (Inr c) s) = Suc (pa_ok s)" "pa_failed (add_result (Inr c) s) = pa_failed s"
  "pa_ok (add_result (Inl e) s) = pa_ok s" "pa_failed (add_result (Inl e) s) = Suc (pa_failed s)"
  "pa_deployments (add_result res s) = pa_deployments s"
  by (simp_all add: add_result_def split: sum.split)

lemma broken_stays: "fst (snd (advance_each sw replaying flush deps Broken s)) = Broken"
  by (induction deps arbitrary: s) (simp_all add: broken_advance case_prod_beta')

lemma advance_each_usable:
  "fst (snd (advance_each sw replaying flush deps Usable s)) = Usable \<longleftrightarrow>
   list_all (flushed sw replaying flush) (filter (\<lambda>dep. dp_status dep = STATUS_ACTIVE) deps)"
  by (induction deps arbitrary: s) (auto simp: usable_advance broken_stays case_prod_beta')

lemma advance_each_result:
  assumes "list_all (flushed sw replaying flush) (filter (\<lambda>dep. dp_status dep = STATUS_ACTIVE) deps)"
  shows "case advance_each sw replaying flush deps Usable s of (s', _, deps') \<Rightarrow>
   deps' = map (\<lambda>dep. if dp_status dep = STATUS_ACTIVE then snd (advance_deployment sw replaying dep) else dep) deps \<and>
   pa_ok s' = pa_ok s +
     length (filter (\<lambda>dep. dp_status dep = STATUS_ACTIVE \<and> (\<exists>c. fst (advance_deployment sw replaying dep) = Inr c)) deps) \<and>
   pa_ok s' + pa_failed s' = pa_ok s + pa_failed s + length (filter (\<lambda>dep. dp_status dep = STATUS_ACTIVE) deps) \<and>
   pa_deployments s' = pa_deployments s"
  using assms
proof (induction deps arbitrary: s)
  case (Cons dep deps)
  show ?case
  proof (cases "dp_status dep = STATUS_ACTIVE")
    case False
    then show ?thesis using Cons.IH [of s] Cons.prems by (simp add: case_prod_beta')
  next
    case True
    then have "flushed sw replaying flush dep" using Cons.prems by simp
    then show ?thesis using True Cons.prems Cons.IH [of "add_result (fst (advance_deployment sw replaying dep)) s"]
      by (cases "fst (advance_deployment sw replaying dep)") (simp_all add: usable_advance case_prod_beta')
  qed
qed simp

text \<open>
  C30: A pass isolates what goes wrong in a deployment, but not what goes wrong in the session.  When every flush of an
  active deployment and the commit succeed, each active deployment ends as its own advance alone would leave it,
  whatever exceptions the others raise, the rest stays as it is, and every active deployment is counted as done or
  failed.  When one of these flushes or the commit fails, the cycle stores nothing for any deployment.
\<close>

theorem pass_isolates:
  "case run_pass sw replaying flush commits deps of (result, deps') \<Rightarrow>
     if commits \<and> list_all (flushed sw replaying flush) (filter (\<lambda>dep. dp_status dep = STATUS_ACTIVE) deps)
     then deps' = map (\<lambda>dep. if dp_status dep = STATUS_ACTIVE then snd (advance_deployment sw replaying dep) else dep) deps \<and>
       (case result of
          None \<Rightarrow> False
        | Some s \<Rightarrow>
            pa_ok s = length (filter (\<lambda>dep. dp_status dep = STATUS_ACTIVE \<and> (\<exists>c. fst (advance_deployment sw replaying dep) = Inr c)) deps) \<and>
            pa_ok s + pa_failed s = pa_deployments s \<and>
            pa_deployments s = length (filter (\<lambda>dep. dp_status dep = STATUS_ACTIVE) deps))
     else result = None \<and> deps' = deps"
proof -
  define s0 :: pass_summary where
    "s0 = \<lparr>pa_deployments = length (filter (\<lambda>d. dp_status d = STATUS_ACTIVE) deps), pa_ok = 0, pa_failed = 0,
       pa_coverage_broken = 0, pa_appended = 0, pa_drift = 0, pa_drift_engine = 0, pa_drift_unversioned = 0,
       pa_decisions = 0, pa_counts = no_counts\<rparr>"
  obtain s ses deps' where a: "advance_each sw replaying flush deps Usable s0 = (s, ses, deps')"
    by (cases "advance_each sw replaying flush deps Usable s0") auto
  have run: "run_pass sw replaying flush commits deps = (if ses = Usable \<and> commits then (Some s, deps') else (None, deps))"
    using a by (simp add: run_pass_def advance_all_def s0_def)
  have ses: "ses = Usable \<longleftrightarrow> list_all (flushed sw replaying flush) (filter (\<lambda>dep. dp_status dep = STATUS_ACTIVE) deps)"
    using advance_each_usable [of sw replaying flush deps s0] a by simp
  show ?thesis
  proof (cases "ses = Usable \<and> commits")
    case True
    then show ?thesis using advance_each_result [of sw replaying flush deps s0] a ses run by (simp add: s0_def)
  next
    case False
    then show ?thesis using ses run by auto
  qed
qed

end
