(* ===== verification/PaperMarks.thy ===== *)
theory PaperMarks
  imports PaperLedger
begin

text \<open>
  The intraday marks of \<^verbatim>\<open>services/paper_marks.py\<close>: pricing the position set that the last advance cached, one row
  per new bar, and the three tiers of retention.

  Instants are seconds.  Quotes, the resolution of a universe to tickers and the environment are arguments.  The
  cache is what \<^verbatim>\<open>PositionSet.to_json\<close> wrote, whose keys come back in alphabetical order.
\<close>

section \<open>Rows and settings\<close>

record mark =
  mk_id :: nat
  mk_deployment :: string
  mk_ts :: int
  mk_prices :: "(string \<times> rat) list"
  mk_value :: float_val
  mk_source :: string
  mk_delayed :: bool
  mk_granularity :: string

definition GRANULARITY_RAW :: string where
  "GRANULARITY_RAW = ''raw''"

definition GRANULARITY_HOURLY :: string where
  "GRANULARITY_HOURLY = ''hourly''"

definition max_staleness_minutes :: "environ \<Rightarrow> int" where
  "max_staleness_minutes env = env_int env ''PAPER_MARKS_MAX_STALENESS_MINUTES'' 60"

definition raw_retention_days :: "environ \<Rightarrow> int" where
  "raw_retention_days env = env_int env ''PAPER_MARKS_RAW_RETENTION_DAYS'' 7"

definition hourly_retention_days :: "environ \<Rightarrow> int" where
  "hourly_retention_days env = env_int env ''PAPER_MARKS_HOURLY_RETENTION_DAYS'' 90"

definition max_rows_per_deployment :: "environ \<Rightarrow> int" where
  "max_rows_per_deployment env = env_int env ''PAPER_MARKS_MAX_ROWS_PER_DEPLOYMENT'' 20000"

section \<open>Reading marks\<close>

text \<open>\<^verbatim>\<open>order_by(ts.desc())\<close>: a stable sort, as the rows of one deployment have distinct instants.\<close>

definition newest_first :: "string \<Rightarrow> mark list \<Rightarrow> mark list" where
  "newest_first dep marks = sort_key (\<lambda>r. - mk_ts r) (filter (\<lambda>r. mk_deployment r = dep) marks)"

definition latest_mark :: "string \<Rightarrow> mark list \<Rightarrow> mark option" where
  "latest_mark dep marks = (case newest_first dep marks of [] \<Rightarrow> None | r # _ \<Rightarrow> Some r)"

definition list_marks :: "string \<Rightarrow> nat \<Rightarrow> mark list \<Rightarrow> mark list" where
  "list_marks dep limit marks = rev (take limit (newest_first dep marks))"

section \<open>Marking\<close>

text \<open>A cache without weights or reference prices is none.\<close>

definition load_cache :: "deployment \<Rightarrow> ((string \<times> rat) list \<times> (string \<times> rat) list \<times> float_val) option" where
  "load_cache dep =
     (case dp_cache dep of
        None \<Rightarrow> None
      | Some c \<Rightarrow>
          let ps = pc_positions c
          in if ps_weights ps = [] \<or> ps_ref_prices ps = [] then None
             else Some (sort_key fst (ps_weights ps), ps_ref_prices ps, pc_equity c))"

record pricing =
  pr_multiplier :: rat
  pr_observed :: "(string \<times> rat) list"
  pr_fresh :: "int list"

type_synonym quotes = "(string \<times> rat \<times> int) list"

definition price_leg ::
  "quotes \<Rightarrow> (string \<times> string) list \<Rightarrow> (string \<times> rat) list \<Rightarrow> int \<Rightarrow> string \<times> rat \<Rightarrow> pricing \<Rightarrow> pricing" where
  "price_leg qs tickers refs cutoff leg p =
     (let frozen = p\<lparr>pr_multiplier := fl (pr_multiplier p + snd leg)\<rparr>
      in case (map_of refs (fst leg), map_of tickers (fst leg)) of
           (Some ref, Some ticker) \<Rightarrow>
             (case map_of qs ticker of
                None \<Rightarrow> frozen
              | Some (price, bar_ts) \<Rightarrow>
                  if ref \<le> 0 then frozen
                  else if bar_ts < cutoff then frozen
                  else p\<lparr>pr_multiplier := fl (pr_multiplier p + fl (snd leg * fl (price / ref))),
                         pr_observed := AList.update ticker price (pr_observed p), pr_fresh := pr_fresh p @ [bar_ts]\<rparr>)
         | _ \<Rightarrow> frozen)"

definition price_legs ::
  "quotes \<Rightarrow> (string \<times> string) list \<Rightarrow> (string \<times> rat) list \<Rightarrow> int \<Rightarrow> (string \<times> rat) list \<Rightarrow> pricing" where
  "price_legs qs tickers refs cutoff weights =
     fold (price_leg qs tickers refs cutoff) weights \<lparr>pr_multiplier = 0, pr_observed = [], pr_fresh = []\<rparr>"

fun fv_times :: "float_val \<Rightarrow> rat \<Rightarrow> float_val" where
  "fv_times (Finite e) m = Finite (fl (e * m))"
| "fv_times (Infinity neg) m = (if m = 0 then Nan else Infinity (neg \<noteq> (m < 0)))"
| "fv_times Nan m = Nan"

definition next_id :: "mark list \<Rightarrow> nat" where
  "next_id marks = Suc (fold max (map mk_id marks) 0)"

text \<open>The refusals in the order of the code; the new rows come last.\<close>

definition mark_deployment ::
  "environ \<Rightarrow> quotes \<Rightarrow> (string \<times> string) list \<Rightarrow> string \<Rightarrow> bool \<Rightarrow> int \<Rightarrow> deployment \<Rightarrow> mark list \<Rightarrow> mark option \<times> mark list" where
  "mark_deployment env qs tickers source delayed now dep marks =
     (case load_cache dep of
        None \<Rightarrow> (None, marks)
      | Some (weights, refs, equity) \<Rightarrow>
          let p = price_legs qs tickers refs (now - 60 * max_staleness_minutes env) weights
          in if pr_fresh p = [] then (None, marks)
             else
               let ts = Min (set (pr_fresh p))
               in if list_ex (\<lambda>r. mk_deployment r = dp_id dep \<and> mk_ts r = ts \<and> mk_granularity r = GRANULARITY_RAW) marks
                  then (None, marks)
                  else if max_rows_per_deployment env \<le> int (length (filter (\<lambda>r. mk_deployment r = dp_id dep) marks))
                  then (None, marks)
                  else
                    let row = \<lparr>mk_id = next_id marks, mk_deployment = dp_id dep, mk_ts = ts,
                          mk_prices = sort_key fst (pr_observed p), mk_value = fv_times equity (pr_multiplier p),
                          mk_source = source, mk_delayed = delayed, mk_granularity = GRANULARITY_RAW\<rparr>
                    in (Some row, marks @ [row]))"

text \<open>
  The tickers of a deployment that can be marked; \<open>resolve\<close> is \<^verbatim>\<open>resolve_universe\<close> on the specification, absent
  when it raises.
\<close>

definition tickers_of :: "(pyval \<Rightarrow> (string \<times> string) list option) \<Rightarrow> deployment \<Rightarrow> (string \<times> string) list" where
  "tickers_of resolve dep =
     (case load_cache dep of
        None \<Rightarrow> []
      | Some (weights, _, _) \<Rightarrow>
          (case resolve (dp_spec dep) of
             None \<Rightarrow> []
           | Some resolved \<Rightarrow> filter (\<lambda>(symbol, _). symbol \<in> set (map fst weights)) resolved))"

fun mark_each ::
  "environ \<Rightarrow> quotes \<Rightarrow> (deployment \<Rightarrow> (string \<times> string) list) \<Rightarrow> string \<Rightarrow> bool \<Rightarrow> int \<Rightarrow> deployment list \<Rightarrow>
   nat \<times> mark list \<Rightarrow> nat \<times> mark list" where
  "mark_each env qs tickers source delayed now [] acc = acc"
| "mark_each env qs tickers source delayed now (dep # deps) (marked, marks) =
     (case mark_deployment env qs (tickers dep) source delayed now dep marks of
        (row, marks') \<Rightarrow> mark_each env qs tickers source delayed now deps (marked + (if row = None then 0 else 1), marks'))"

record mark_summary =
  ms_deployments :: nat
  ms_marked :: nat
  ms_skipped :: nat
  ms_tickers :: nat

definition mark_all ::
  "environ \<Rightarrow> (pyval \<Rightarrow> (string \<times> string) list option) \<Rightarrow> (string list \<Rightarrow> quotes) \<Rightarrow> string \<Rightarrow> bool \<Rightarrow> int \<Rightarrow>
   deployment list \<Rightarrow> mark list \<Rightarrow> mark_summary \<times> mark list" where
  "mark_all env resolve fetch source delayed now deps marks =
     (let active = filter (\<lambda>d. dp_status d = STATUS_ACTIVE) deps;
          markable = filter (\<lambda>d. tickers_of resolve d \<noteq> []) active;
          union = remdups (concat (map (map snd \<circ> tickers_of resolve) markable))
      in if union = []
         then (\<lparr>ms_deployments = length active, ms_marked = 0, ms_skipped = length active, ms_tickers = 0\<rparr>, marks)
         else (case mark_each env (fetch union) (tickers_of resolve) source delayed now markable (0, marks) of
                 (marked, marks') \<Rightarrow>
                   (\<lparr>ms_deployments = length active, ms_marked = marked, ms_skipped = length active - marked,
                     ms_tickers = length union\<rparr>, marks')))"

section \<open>Retention\<close>

definition bucket :: "mark \<Rightarrow> string \<times> int" where
  "bucket r = (mk_deployment r, mk_ts r div 3600)"

text \<open>\<^verbatim>\<open>max(rows, key=ts)\<close>: the first of the latest.\<close>

fun keeper :: "mark \<Rightarrow> mark list \<Rightarrow> mark" where
  "keeper b [] = b"
| "keeper b (r # rs) = keeper (if mk_ts b < mk_ts r then r else b) rs"

definition stale_raw :: "int \<Rightarrow> mark list \<Rightarrow> mark list" where
  "stale_raw raw_cutoff marks =
     sort_key mk_ts (filter (\<lambda>r. mk_granularity r = GRANULARITY_RAW \<and> mk_ts r < raw_cutoff) marks)"

definition keeper_of :: "mark list \<Rightarrow> mark \<Rightarrow> mark" where
  "keeper_of stale r = (case filter (\<lambda>x. bucket x = bucket r) stale of [] \<Rightarrow> r | x # xs \<Rightarrow> keeper x xs)"

text \<open>Each stale raw row goes unless it is the keeper of its hour, which becomes hourly.\<close>

definition rollup_and_prune :: "environ \<Rightarrow> int \<Rightarrow> mark list \<Rightarrow> mark list" where
  "rollup_and_prune env now marks =
     (let raw_cutoff = now - 86400 * raw_retention_days env;
          hourly_cutoff = now - 86400 * hourly_retention_days env;
          live = filter (\<lambda>r. \<not> mk_ts r < hourly_cutoff) marks;
          stale = stale_raw raw_cutoff live
      in map (\<lambda>r. if mk_granularity r = GRANULARITY_RAW \<and> mk_ts r < raw_cutoff
                  then r\<lparr>mk_granularity := GRANULARITY_HOURLY\<rparr> else r)
           (filter (\<lambda>r. \<not> (mk_granularity r = GRANULARITY_RAW \<and> mk_ts r < raw_cutoff) \<or>
                        mk_id (keeper_of stale r) = mk_id r) live))"

section \<open>What a mark says\<close>

lemma price_leg_fresh:
  "set (pr_fresh (price_leg qs tickers refs cutoff leg p)) \<subseteq> set (pr_fresh p) \<union> {t. cutoff \<le> t \<and> (\<exists>k price. (k, price, t) \<in> set qs)}"
  by (auto simp: price_leg_def Let_def split: option.splits dest!: map_of_SomeD)

lemma price_legs_fresh: "set (pr_fresh (price_legs qs tickers refs cutoff weights)) \<subseteq> {t. cutoff \<le> t \<and> (\<exists>k price. (k, price, t) \<in> set qs)}"
proof -
  have "set (pr_fresh (fold (price_leg qs tickers refs cutoff) weights p)) \<subseteq>
      set (pr_fresh p) \<union> {t. cutoff \<le> t \<and> (\<exists>k price. (k, price, t) \<in> set qs)}" for p
  proof (induction weights arbitrary: p)
    case (Cons w weights)
    show ?case using Cons.IH [of "price_leg qs tickers refs cutoff w p"] price_leg_fresh [of qs tickers refs cutoff w p] by auto
  qed simp
  from this [of "\<lparr>pr_multiplier = 0, pr_observed = [], pr_fresh = []\<rparr>"] show ?thesis by (simp add: price_legs_def)
qed

lemma mark_cases:
  assumes "mark_deployment env qs tickers source delayed now dep marks = (res, marks')"
  obtains "res = None" "marks' = marks"
  | row where "res = Some row" "marks' = marks @ [row]" "mk_deployment row = dp_id dep" "mk_granularity row = GRANULARITY_RAW"
      "now - 60 * max_staleness_minutes env \<le> mk_ts row" "\<exists>k price. (k, price, mk_ts row) \<in> set qs"
      "\<not> list_ex (\<lambda>r. mk_deployment r = dp_id dep \<and> mk_ts r = mk_ts row \<and> mk_granularity r = GRANULARITY_RAW) marks"
      "int (length (filter (\<lambda>r. mk_deployment r = dp_id dep) marks)) < max_rows_per_deployment env"
proof (cases res)
  case None
  then show ?thesis using assms that(1)
    by (auto simp: mark_deployment_def Let_def split: option.splits if_splits)
next
  case (Some row)
  then obtain weights refs equity where c: "load_cache dep = Some (weights, refs, equity)"
    using assms by (auto simp: mark_deployment_def split: option.splits)
  let ?p = "price_legs qs tickers refs (now - 60 * max_staleness_minutes env) weights"
  have f: "pr_fresh ?p \<noteq> []" "mk_ts row = Min (set (pr_fresh ?p))"
    using assms Some c by (auto simp: mark_deployment_def Let_def split: if_splits)
  then have "mk_ts row \<in> set (pr_fresh ?p)" using Min_in by simp
  then have "now - 60 * max_staleness_minutes env \<le> mk_ts row" "\<exists>k price. (k, price, mk_ts row) \<in> set qs"
    using price_legs_fresh by blast+
  then show ?thesis
    using assms Some c f by (intro that(2) [of row]) (auto simp: mark_deployment_def Let_def split: if_splits)
qed

definition raw_keys :: "mark list \<Rightarrow> (string \<times> int) list" where
  "raw_keys marks = map (\<lambda>r. (mk_deployment r, mk_ts r)) (filter (\<lambda>r. mk_granularity r = GRANULARITY_RAW) marks)"

definition held_by :: "string \<Rightarrow> mark list \<Rightarrow> int" where
  "held_by dep marks = int (length (filter (\<lambda>r. mk_deployment r = dep) marks))"

text \<open>What one tick adds.\<close>

definition ticked :: "environ \<Rightarrow> int \<Rightarrow> mark list \<Rightarrow> nat \<Rightarrow> mark list \<Rightarrow> bool" where
  "ticked env now marks n marks' \<longleftrightarrow>
     (\<exists>added. marks' = marks @ added \<and> length added = n \<and>
        list_all (\<lambda>r. mk_granularity r = GRANULARITY_RAW \<and> now - 60 * max_staleness_minutes env \<le> mk_ts r) added) \<and>
     distinct (raw_keys marks') = distinct (raw_keys marks) \<and>
     (\<forall>dep. held_by dep marks' \<le> max (held_by dep marks) (max_rows_per_deployment env))"

lemma ticked_refl: "ticked env now marks 0 marks"
  by (simp add: ticked_def)

lemma ticked_trans: "ticked env now a m b \<Longrightarrow> ticked env now b n c \<Longrightarrow> ticked env now a (m + n) c"
proof -
  assume ab: "ticked env now a m b" and bc: "ticked env now b n c"
  obtain x where x: "b = a @ x" "length x = m"
    "list_all (\<lambda>r. mk_granularity r = GRANULARITY_RAW \<and> now - 60 * max_staleness_minutes env \<le> mk_ts r) x"
    using ab unfolding ticked_def by blast
  obtain y where y: "c = b @ y" "length y = n"
    "list_all (\<lambda>r. mk_granularity r = GRANULARITY_RAW \<and> now - 60 * max_staleness_minutes env \<le> mk_ts r) y"
    using bc unfolding ticked_def by blast
  have "held_by dep c \<le> max (held_by dep a) (max_rows_per_deployment env)" for dep
    using ab bc unfolding ticked_def by (metis max.bounded_iff max.cobounded2 max_def)
  moreover have "distinct (raw_keys c) = distinct (raw_keys a)" using ab bc unfolding ticked_def by simp
  ultimately show ?thesis unfolding ticked_def using x y by (intro conjI allI exI [of _ "x @ y"]) simp_all
qed

lemma ticked_mark:
  assumes "mark_deployment env qs tickers source delayed now dep marks = (res, marks')"
  shows "ticked env now marks (if res = None then 0 else 1) marks'"
  using assms
proof (cases rule: mark_cases)
  case 1
  then show ?thesis by (simp add: ticked_refl)
next
  case (2 row)
  have "(mk_deployment row, mk_ts row) \<notin> set (raw_keys marks)" using 2(3,7) by (auto simp: raw_keys_def list_ex_iff)
  then have "distinct (raw_keys marks') = distinct (raw_keys marks)" using 2(2,4) by (simp add: raw_keys_def)
  moreover have "held_by d marks' \<le> max (held_by d marks) (max_rows_per_deployment env)" for d
    using 2(2,3,8) by (auto simp: held_by_def)
  ultimately show ?thesis using 2 by (simp add: ticked_def)
qed

lemma ticked_each:
  "mark_each env qs tickers source delayed now deps (n, marks) = (n', marks') \<Longrightarrow> ticked env now marks (n' - n) marks' \<and> n \<le> n'"
proof (induction deps arbitrary: n marks)
  case Nil
  then show ?case by (simp add: ticked_refl)
next
  case (Cons dep deps)
  obtain res marks1 where 1: "mark_deployment env qs (tickers dep) source delayed now dep marks = (res, marks1)" by fastforce
  let ?k = "if res = None then 0 else 1 :: nat"
  have "ticked env now marks1 (n' - (n + ?k)) marks' \<and> n + ?k \<le> n'" using Cons 1 by simp
  then show ?case using ticked_trans [OF ticked_mark [OF 1], of "n' - (n + ?k)" marks'] by (auto split: if_splits)
qed

text \<open>
  A tick only adds rows, as many as it reports, each dated by a bar inside the staleness window; it never marks a
  bar of a deployment twice, and no deployment passes the cap on its rows.
\<close>

theorem tick_adds_fresh_marks:
  "case mark_all env resolve fetch source delayed now deps marks of (s, marks') \<Rightarrow>
     take (length marks) marks' = marks \<and> length marks' = length marks + ms_marked s \<and>
     list_all (\<lambda>r. mk_granularity r = GRANULARITY_RAW \<and> now - 60 * max_staleness_minutes env \<le> mk_ts r)
       (drop (length marks) marks') \<and>
     distinct (raw_keys marks') = distinct (raw_keys marks) \<and>
     held_by dep marks' \<le> max (held_by dep marks) (max_rows_per_deployment env)"
proof -
  obtain s marks' where a: "mark_all env resolve fetch source delayed now deps marks = (s, marks')" by fastforce
  have "ticked env now marks (ms_marked s) marks'"
    using a by (auto simp: mark_all_def Let_def ticked_refl dest: ticked_each split: if_splits prod.splits)
  then show ?thesis by (auto simp: a ticked_def)
qed

section \<open>What retention keeps\<close>

text \<open>
  A second pass at the same instant changes nothing.
\<close>

theorem rollup_idempotent:
  "rollup_and_prune env now (rollup_and_prune env now marks) = rollup_and_prune env now marks"
proof -
  let ?raw = "now - 86400 * raw_retention_days env" and ?old = "now - 86400 * hourly_retention_days env"
  have rows: "\<not> mk_ts r < ?old \<and> \<not> (mk_granularity r = GRANULARITY_RAW \<and> mk_ts r < ?raw)"
    if "r \<in> set (rollup_and_prune env now marks)" for r
    using that by (auto simp: rollup_and_prune_def Let_def GRANULARITY_RAW_def GRANULARITY_HOURLY_def split: if_splits)
  then have "filter (\<lambda>r. \<not> mk_ts r < ?old) (rollup_and_prune env now marks) = rollup_and_prune env now marks"
    by (simp add: filter_id_conv)
  then show ?thesis
    using rows unfolding rollup_and_prune_def [of env now "rollup_and_prune env now marks"] Let_def
    by (auto simp: filter_id_conv intro!: map_idI)
qed

lemma keeper_spec: "keeper b rs \<in> set (b # rs) \<and> (\<forall>r \<in> set (b # rs). mk_ts r \<le> mk_ts (keeper b rs))"
  by (induction b rs rule: keeper.induct) auto

lemma keeper_of_spec:
  assumes "r \<in> set stale"
  shows "keeper_of stale r \<in> set stale" "bucket (keeper_of stale r) = bucket r" "mk_ts r \<le> mk_ts (keeper_of stale r)"
proof -
  obtain x xs where xs: "filter (\<lambda>x. bucket x = bucket r) stale = x # xs"
    using assms by (cases "filter (\<lambda>x. bucket x = bucket r) stale") (auto simp: filter_empty_conv)
  then have k: "keeper_of stale r = keeper x xs" by (simp add: keeper_of_def)
  have in_bucket: "set (x # xs) = {y \<in> set stale. bucket y = bucket r}" using xs by (metis set_filter)
  show "keeper_of stale r \<in> set stale" "bucket (keeper_of stale r) = bucket r"
    using keeper_spec [of x xs] in_bucket k by auto
  have "r \<in> set (x # xs)" using assms in_bucket by simp
  then show "mk_ts r \<le> mk_ts (keeper_of stale r)" using keeper_spec [of x xs] k by auto
qed

lemma keeper_of_latest: "r \<in> set stale \<Longrightarrow> x \<in> set stale \<Longrightarrow> bucket x = bucket r \<Longrightarrow> mk_ts x \<le> mk_ts (keeper_of stale r)"
proof -
  assume r: "r \<in> set stale" and x: "x \<in> set stale" "bucket x = bucket r"
  have "keeper_of stale x = keeper_of stale r" using x(2) r x(1) by (auto simp: keeper_of_def filter_empty_conv split: list.split)
  then show ?thesis using keeper_of_spec(3) [OF x(1)] by simp
qed

text \<open>
  The policy of the docstring, row by row: nothing past the last retention, rows that are younger than the first or
  hourly already as they are, and of the raw rows between the two the latest of its deployment and hour, as an hourly row.
\<close>

definition three_tiers :: "int \<Rightarrow> int \<Rightarrow> mark list \<Rightarrow> mark list" where
  "three_tiers raw_cutoff hourly_cutoff marks =
     concat (map (\<lambda>r.
       if mk_ts r < hourly_cutoff then []
       else if mk_granularity r \<noteq> GRANULARITY_RAW \<or> raw_cutoff \<le> mk_ts r then [r]
       else if list_ex (\<lambda>x. mk_granularity x = GRANULARITY_RAW \<and> hourly_cutoff \<le> mk_ts x \<and> mk_ts x < raw_cutoff \<and>
                   mk_deployment x = mk_deployment r \<and> mk_ts x div 3600 = mk_ts r div 3600 \<and> mk_ts r < mk_ts x) marks
       then [] else [r\<lparr>mk_granularity := GRANULARITY_HOURLY\<rparr>]) marks)"

lemma filter_map_concat: "map f (filter P (filter Q xs)) = concat (map (\<lambda>x. if \<not> Q x then [] else if P x then [f x] else []) xs)"
  by (induction xs) auto

text \<open>
  C37: On rows with distinct keys, and one raw row for each bar of a deployment, the rollup is the policy of the three
  tiers: every row past the last retention goes, every hour of a deployment past the first keeps its latest raw row as
  an hourly one and loses the others, and all other rows stay as they are, in their order.
\<close>

theorem rollup_keeps_latest:
  assumes "distinct (map mk_id marks)" and "distinct (raw_keys marks)"
  shows "rollup_and_prune env now marks =
    three_tiers (now - 86400 * raw_retention_days env) (now - 86400 * hourly_retention_days env) marks"
proof -
  let ?raw = "now - 86400 * raw_retention_days env" and ?hourly = "now - 86400 * hourly_retention_days env"
  let ?live = "filter (\<lambda>r. \<not> mk_ts r < ?hourly) marks"
  let ?stale = "stale_raw ?raw ?live"
  let ?old = "\<lambda>r. mk_granularity r = GRANULARITY_RAW \<and> mk_ts r < ?raw"
  let ?later = "\<lambda>r x. mk_granularity x = GRANULARITY_RAW \<and> ?hourly \<le> mk_ts x \<and> mk_ts x < ?raw \<and>
    mk_deployment x = mk_deployment r \<and> mk_ts x div 3600 = mk_ts r div 3600 \<and> mk_ts r < mk_ts x"
  have stale: "set ?stale = {x \<in> set marks. ?old x \<and> ?hourly \<le> mk_ts x}" by (auto simp: stale_raw_def)
  have "mk_id (keeper_of ?stale r) = mk_id r \<longleftrightarrow> \<not> list_ex (?later r) marks"
    if r: "r \<in> set marks" "?old r" "\<not> mk_ts r < ?hourly" for r
  proof -
    have in_stale: "r \<in> set ?stale" using r stale by auto
    note k = keeper_of_spec [OF in_stale]
    have km: "keeper_of ?stale r \<in> set marks" "?old (keeper_of ?stale r)" "?hourly \<le> mk_ts (keeper_of ?stale r)" using k(1) stale by auto
    show ?thesis
    proof
      assume "mk_id (keeper_of ?stale r) = mk_id r"
      then have "keeper_of ?stale r = r" using assms(1) r(1) km(1) by (auto simp: distinct_map dest: inj_onD)
      then have "mk_ts x \<le> mk_ts r" if "x \<in> set ?stale" "bucket x = bucket r" for x
        using keeper_of_latest [OF in_stale that] by simp
      then show "\<not> list_ex (?later r) marks" by (fastforce simp: stale list_ex_iff bucket_def)
    next
      assume none: "\<not> list_ex (?later r) marks"
      have "\<not> mk_ts r < mk_ts (keeper_of ?stale r)" using none km k(2) by (auto simp: list_ex_iff bucket_def)
      then have ts: "mk_ts (keeper_of ?stale r) = mk_ts r" using k(3) by simp
      have inj: "inj_on (\<lambda>r. (mk_deployment r, mk_ts r)) (set (filter (\<lambda>r. mk_granularity r = GRANULARITY_RAW) marks))"
        using assms(2) unfolding raw_keys_def distinct_map by simp
      have "keeper_of ?stale r = r" by (rule inj_onD [OF inj]) (use ts k(2) km r in \<open>auto simp: bucket_def\<close>)
      then show "mk_id (keeper_of ?stale r) = mk_id r" by simp
    qed
  qed
  then have "concat (map (\<lambda>r. if \<not> \<not> mk_ts r < ?hourly then [] else if \<not> ?old r \<or> mk_id (keeper_of ?stale r) = mk_id r
      then [if ?old r then r\<lparr>mk_granularity := GRANULARITY_HOURLY\<rparr> else r] else []) marks) = three_tiers ?raw ?hourly marks"
    unfolding three_tiers_def by (intro arg_cong [where f = concat] map_cong refl) auto
  then show ?thesis unfolding rollup_and_prune_def Let_def filter_map_concat .
qed

definition quarter_hours :: "mark list" where
  "quarter_hours = map (\<lambda>i. \<lparr>mk_id = i, mk_deployment = ''d'', mk_ts = 900 * int i, mk_prices = [], mk_value = Finite 1,
     mk_source = ''s'', mk_delayed = True, mk_granularity = ''raw''\<rparr>) [0, 1, 2, 3]"

lemma quarter_hours_keys: "distinct (map mk_id quarter_hours)" "distinct (raw_keys quarter_hours)"
  by code_simp+

theorem rollup_keeps_latest_witness:
  "map (\<lambda>r. (mk_ts r, mk_granularity r)) (rollup_and_prune (\<lambda>_. None) (604800 + 2400) quarter_hours) = [(1800, ''hourly''), (2700, ''raw'')]"
proof -
  have "map (\<lambda>r. (mk_ts r, mk_granularity r)) (three_tiers (604800 + 2400 - 86400 * raw_retention_days (\<lambda>_. None))
      (604800 + 2400 - 86400 * hourly_retention_days (\<lambda>_. None)) quarter_hours) = [(1800, ''hourly''), (2700, ''raw'')]"
    by code_simp
  then show ?thesis unfolding rollup_keeps_latest [OF quarter_hours_keys] .
qed

text \<open>
  The cutoff of the rollup is an instant and not the end of an hour, so an hour that it splits is rolled up in two
  passes and keeps two hourly rows: here the marks at minutes 0, 15, 30 and 45 of one hour leave those at 15 and 45.
\<close>

theorem hour_rolled_up_twice:
  "map (\<lambda>r. (mk_ts r, mk_granularity r, bucket r))
     (rollup_and_prune (\<lambda>_. None) (604800 + 4800) (rollup_and_prune (\<lambda>_. None) (604800 + 1200) quarter_hours)) =
   [(900, ''hourly'', (''d'', 0)), (2700, ''hourly'', (''d'', 0))]"
  by code_simp

end
