(* ===== verification/Leaderboard.thy ===== *)
theory Leaderboard
  imports PaperLedger "HOL-Library.Multiset"
begin

text \<open>
  The two boards of \<^verbatim>\<open>services/leaderboard.py\<close>: the research board ranked by conviction, with the
  Benjamini-Hochberg correction of \<^verbatim>\<open>services/rigor_evaluator.py\<close> and \<^verbatim>\<open>services/_rigor_helpers.py\<close> over its
  cohort, and the live board over the paper ledgers, with its loader in \<^verbatim>\<open>api/leaderboard_routes.py\<close>.

  Numbers are doubles.  A list whose sort keys contain a NaN has no defined order in the language; the model puts a NaN
  above every number.  Fields that the boards only copy are left out.  Names of strategies and stored verdicts are
  arguments, dates are integers.
\<close>

section \<open>The correction for a cohort\<close>

definition crit :: "nat \<Rightarrow> rat \<Rightarrow> nat \<Rightarrow> rat" where
  "crit m fdr_level k = fl (fl (of_nat k / of_nat m) * fdr_level)"

text \<open>How many ranks are rejected: up to the last one whose value is below its threshold.\<close>

definition k_star :: "rat \<Rightarrow> rat list \<Rightarrow> nat" where
  "k_star fdr_level sorted_p =
     (case filter (\<lambda>k. sorted_p ! k \<le> crit (length sorted_p) fdr_level (Suc k)) [0..<length sorted_p] of
        [] \<Rightarrow> 0
      | ks \<Rightarrow> Suc (last ks))"

text \<open>The running minimum from the last rank down.\<close>

fun cummin :: "rat list \<Rightarrow> rat list" where
  "cummin [] = []"
| "cummin (x # xs) = (case cummin xs of [] \<Rightarrow> [x] | y # ys \<Rightarrow> min x y # y # ys)"

definition adjusted_sorted :: "rat list \<Rightarrow> rat list" where
  "adjusted_sorted sorted_p =
     cummin (map (\<lambda>k. min 1 (fl (sorted_p ! k * fl (of_nat (length sorted_p) / of_nat (Suc k))))) [0..<length sorted_p])"

record fdr_result =
  fr_rejected :: "bool list"
  fr_adjusted :: "rat list"

text \<open>Back to the order of the input: the position of each index in the sorted order.\<close>

definition in_input_order :: "nat list \<Rightarrow> 'a list \<Rightarrow> 'a list" where
  "in_input_order order xs = map (\<lambda>i. the (map_of (zip order xs) i)) [0..<length order]"

definition benjamini_hochberg_fdr :: "rat list \<Rightarrow> rat \<Rightarrow> fdr_result" where
  "benjamini_hochberg_fdr pvalues fdr_level =
     (let order = sort_key (\<lambda>i. pvalues ! i) [0..<length pvalues];
          sorted_p = map (\<lambda>i. pvalues ! i) order;
          ks = k_star fdr_level sorted_p
      in \<lparr>fr_rejected = in_input_order order (map (\<lambda>k. k < ks) [0..<length pvalues]),
          fr_adjusted = map (py_round 8) (in_input_order order (adjusted_sorted sorted_p))\<rparr>)"

definition CLASSICAL_P_FLOOR :: rat where
  "CLASSICAL_P_FLOOR = fl (1 / 1000000)"

definition DEFAULT_BOARD_FDR_LEVEL :: rat where
  "DEFAULT_BOARD_FDR_LEVEL = fl (1 / 20)"

record board_fdr =
  bf_significant :: bool
  bf_adjusted_p :: rat
  bf_confidence :: rat

definition finite_values :: "(string \<times> float_val option) list \<Rightarrow> (string \<times> rat) list" where
  "finite_values ps = concat (map (\<lambda>(i, v). case v of Some (Finite x) \<Rightarrow> [(i, x)] | _ \<Rightarrow> []) ps)"

definition compute_board_level_fdr :: "(string \<times> float_val option) list \<Rightarrow> rat \<Rightarrow> (string \<times> board_fdr) list" where
  "compute_board_level_fdr dsr_p_values fdr_level =
     (let finite = finite_values dsr_p_values;
          bh = benjamini_hochberg_fdr (map (\<lambda>(_, x). max CLASSICAL_P_FLOOR (fl (1 - x))) finite) fdr_level
      in map (\<lambda>((i, _), significant, p).
                (i, \<lparr>bf_significant = significant, bf_adjusted_p = p, bf_confidence = py_round 8 (fl (1 - p))\<rparr>))
           (zip finite (zip (fr_rejected bh) (fr_adjusted bh))))"

section \<open>Conviction\<close>

record response =
  re_id :: string
  re_paper_title :: "string option"
  re_methodology :: "string option"
  re_curator_wallet :: "string option"
  re_placeholder :: bool
  re_passes :: bool
  re_regime_tag :: "string option"
  re_sharpe_ratio :: "float_val option"
  re_cagr :: "float_val option"
  re_sortino_ratio :: "float_val option"
  re_calmar_ratio :: "float_val option"
  re_deflated_sharpe_ratio :: "float_val option"
  re_dsr_p_value :: "float_val option"
  re_out_of_sample_sharpe :: "float_val option"
  re_pbo_score :: "float_val option"

definition WEIGHT_gate :: rat where
  "WEIGHT_gate = fl (35 / 100)"

definition WEIGHT_dsr_confidence :: rat where
  "WEIGHT_dsr_confidence = fl (25 / 100)"

definition WEIGHT_oos_performance :: rat where
  "WEIGHT_oos_performance = fl (25 / 100)"

definition WEIGHT_overfitting_resistance :: rat where
  "WEIGHT_overfitting_resistance = fl (15 / 100)"

text \<open>\<^verbatim>\<open>max(0.0, min(1.0, x))\<close>, in which a NaN is not below 1.\<close>

fun clamp01 :: "float_val \<Rightarrow> rat" where
  "clamp01 (Finite x) = max 0 (min 1 x)"
| "clamp01 (Infinity neg) = (if neg then 0 else 1)"
| "clamp01 Nan = 1"

fun one_minus :: "float_val \<Rightarrow> float_val" where
  "one_minus (Finite x) = Finite (fl (1 - x))"
| "one_minus (Infinity neg) = Infinity (\<not> neg)"
| "one_minus Nan = Nan"

record components =
  sc_gate :: rat
  sc_dsr_confidence :: rat
  sc_oos_performance :: rat
  sc_overfitting_resistance :: rat
  sc_data_completeness :: rat

definition component_or_0 :: "(float_val \<Rightarrow> float_val) \<Rightarrow> float_val option \<Rightarrow> rat" where
  "component_or_0 f v = (case v of None \<Rightarrow> 0 | Some x \<Rightarrow> clamp01 (f x))"

definition weighted_sum :: "rat \<Rightarrow> rat \<Rightarrow> rat \<Rightarrow> rat \<Rightarrow> rat" where
  "weighted_sum gate dsr_confidence oos_performance overfitting_resistance =
     fl (100 * fl (fl (fl (fl (WEIGHT_gate * gate) + fl (WEIGHT_dsr_confidence * dsr_confidence)) +
                       fl (WEIGHT_oos_performance * oos_performance)) +
                   fl (WEIGHT_overfitting_resistance * overfitting_resistance)))"

definition compute_conviction :: "response \<Rightarrow> rat \<times> components" where
  "compute_conviction resp =
     (if re_placeholder resp
      then (0, \<lparr>sc_gate = 0, sc_dsr_confidence = 0, sc_oos_performance = 0, sc_overfitting_resistance = 0,
                sc_data_completeness = 0\<rparr>)
      else
        let gate = (if re_passes resp then 1 else 0);
            dsr_confidence = component_or_0 id (re_dsr_p_value resp);
            oos_performance = component_or_0 id (re_out_of_sample_sharpe resp);
            overfitting_resistance = component_or_0 one_minus (re_pbo_score resp);
            real_count = 1 + length (filter (\<lambda>v. v \<noteq> None)
              [re_dsr_p_value resp, re_out_of_sample_sharpe resp, re_pbo_score resp])
        in (py_round 1 (weighted_sum gate dsr_confidence oos_performance overfitting_resistance),
            \<lparr>sc_gate = gate, sc_dsr_confidence = dsr_confidence, sc_oos_performance = oos_performance,
             sc_overfitting_resistance = overfitting_resistance, sc_data_completeness = fl (of_nat real_count / 4)\<rparr>))"

section \<open>The research board\<close>

record board_entry =
  be_rank :: nat
  be_medal :: "string option"
  be_response :: response
  be_name :: string
  be_creator :: string
  be_conviction_score :: rat
  be_components :: components
  be_fdr :: "board_fdr option"

definition entry_of :: "response \<Rightarrow> board_entry" where
  "entry_of resp =
     (case compute_conviction resp of
        (score, components) \<Rightarrow>
          \<lparr>be_rank = 0, be_medal = None, be_response = resp,
           be_name = (if truthy (re_paper_title resp) then or_empty (re_paper_title resp)
                      else take 80 (if truthy (re_methodology resp) then or_empty (re_methodology resp) else re_id resp)),
           be_creator = (if truthy (re_curator_wallet resp) then or_empty (re_curator_wallet resp) else ''Archimedes''),
           be_conviction_score = score, be_components = components, be_fdr = None\<rparr>)"

definition SORTABLE :: "(string \<times> (board_entry \<Rightarrow> float_val option)) list" where
  "SORTABLE =
     [(''conviction_score'', \<lambda>e. Some (Finite (be_conviction_score e))),
      (''sharpe_ratio'', re_sharpe_ratio \<circ> be_response), (''cagr'', re_cagr \<circ> be_response),
      (''sortino_ratio'', re_sortino_ratio \<circ> be_response), (''calmar_ratio'', re_calmar_ratio \<circ> be_response),
      (''deflated_sharpe_ratio'', re_deflated_sharpe_ratio \<circ> be_response), (''dsr_p_value'', re_dsr_p_value \<circ> be_response),
      (''out_of_sample_sharpe'', re_out_of_sample_sharpe \<circ> be_response), (''pbo_score'', re_pbo_score \<circ> be_response)]"

definition value_of :: "string \<Rightarrow> board_entry \<Rightarrow> float_val option" where
  "value_of sort_by = the (map_of SORTABLE sort_by)"

fun fv_key :: "float_val \<Rightarrow> int \<times> rat" where
  "fv_key (Infinity True) = (- 1, 0)"
| "fv_key (Finite x) = (0, x)"
| "fv_key (Infinity False) = (1, 0)"
| "fv_key Nan = (2, 0)"

text \<open>\<^verbatim>\<open>list.sort(key=..., reverse=...)\<close>, which is stable both ways.\<close>

definition sort_values :: "bool \<Rightarrow> ('a \<Rightarrow> float_val) \<Rightarrow> 'a list \<Rightarrow> 'a list" where
  "sort_values reverse f xs =
     (if reverse then sort_key (\<lambda>x. case fv_key (f x) of (a, b) \<Rightarrow> (- a, - b)) xs else sort_key (\<lambda>x. fv_key (f x)) xs)"

definition MEDALS :: "(nat \<times> string) list" where
  "MEDALS = [(1, ''gold''), (2, ''silver''), (3, ''bronze'')]"

fun ranked_from :: "nat \<Rightarrow> board_entry list \<Rightarrow> board_entry list" where
  "ranked_from i [] = []"
| "ranked_from i (e # es) = e\<lparr>be_rank := i, be_medal := map_of MEDALS i\<rparr> # ranked_from (Suc i) es"

text \<open>The cohort as a dictionary: an identifier that comes twice keeps its last value.\<close>

definition cohort :: "board_entry list \<Rightarrow> (string \<times> float_val option) list" where
  "cohort entries = fold (\<lambda>e d. AList.update (re_id (be_response e)) (re_dsr_p_value (be_response e)) d) entries []"

record view =
  vw_sort_by :: string
  vw_order :: string
  vw_regime_tag :: "string option"
  vw_min_rigor :: bool
  vw_limit :: nat

record board =
  bd_entries :: "board_entry list"
  bd_total :: nat
  bd_sort_by :: string
  bd_order :: string
  bd_n_tested :: nat
  bd_n_significant :: nat

definition in_view :: "view \<Rightarrow> board_entry list \<Rightarrow> board_entry list" where
  "in_view vw entries =
     (let in_regime = (if truthy (vw_regime_tag vw)
                       then filter (\<lambda>e. re_regime_tag (be_response e) = vw_regime_tag vw) entries else entries)
      in if vw_min_rigor vw
         then filter (\<lambda>e. re_passes (be_response e) \<and> \<not> re_placeholder (be_response e)) in_regime else in_regime)"

text \<open>Rows without the value come last, whatever the order.\<close>

definition sorted_view :: "bool \<Rightarrow> string \<Rightarrow> board_entry list \<Rightarrow> board_entry list" where
  "sorted_view descending sort_by entries =
     sort_values descending (\<lambda>e. the (value_of sort_by e)) (filter (\<lambda>e. value_of sort_by e \<noteq> None) entries) @
     filter (\<lambda>e. value_of sort_by e = None) entries"

definition corrected :: "(string \<times> board_fdr) list \<Rightarrow> board_entry list \<Rightarrow> board_entry list" where
  "corrected fdr entries = map (\<lambda>e. e\<lparr>be_fdr := map_of fdr (re_id (be_response e))\<rparr>) entries"

definition build_leaderboard :: "response list \<Rightarrow> view \<Rightarrow> board" where
  "build_leaderboard responses vw =
     (let sort_by = (if vw_sort_by vw \<in> fst ` set SORTABLE then vw_sort_by vw else ''conviction_score'');
          order = (if vw_order vw = ''asc'' then ''asc'' else ''desc'');
          entries = map entry_of responses;
          fdr = compute_board_level_fdr (cohort entries) DEFAULT_BOARD_FDR_LEVEL;
          ranked = ranked_from 1 (sorted_view (order = ''desc'') sort_by (in_view vw (corrected fdr entries)))
      in \<lparr>bd_entries = take (vw_limit vw) ranked, bd_total = length ranked, bd_sort_by = sort_by, bd_order = order,
          bd_n_tested = length fdr, bd_n_significant = length (filter (\<lambda>(_, v). bf_significant v) fdr)\<rparr>)"

section \<open>The live board\<close>

record board_verdict =
  bv_status :: string
  bv_graded_at :: "string option"
  bv_gate_version :: "string option"

definition UNGRADED_ENTRY_VERDICT :: board_verdict where
  "UNGRADED_ENTRY_VERDICT = \<lparr>bv_status = ''pending'', bv_graded_at = None, bv_gate_version = None\<rparr>"

definition verdict_or_ungraded :: "board_verdict option \<Rightarrow> board_verdict" where
  "verdict_or_ungraded v = (case v of None \<Rightarrow> UNGRADED_ENTRY_VERDICT | Some w \<Rightarrow> w)"

record live_ledger =
  ll_deployment_id :: string
  ll_strategy_id :: string
  ll_name :: string
  ll_inception :: int
  ll_returns :: "(int \<times> float_val) list"
  ll_drift_detected :: bool
  ll_verdict :: "board_verdict option"

record live_entry =
  le_rank :: nat
  le_deployment_id :: string
  le_strategy_id :: string
  le_name :: string
  le_cumulative_return :: float_val
  le_days_live :: nat
  le_inception_date :: int
  le_as_of :: int
  le_drift_detected :: bool
  le_verdict :: board_verdict

definition cumulative_return :: "(int \<times> float_val) list \<Rightarrow> float_val" where
  "cumulative_return returns = fv_minus_one (foldl (\<lambda>equity r. fv_compound equity (snd r)) (Finite 1) returns)"

definition live_row :: "live_ledger \<Rightarrow> live_entry" where
  "live_row led =
     (let observations = sort_key fst (ll_returns led)
      in \<lparr>le_rank = 0, le_deployment_id = ll_deployment_id led, le_strategy_id = ll_strategy_id led, le_name = ll_name led,
          le_cumulative_return = cumulative_return observations, le_days_live = length observations,
          le_inception_date = ll_inception led, le_as_of = fst (last observations), le_drift_detected = ll_drift_detected led,
          le_verdict = verdict_or_ungraded (ll_verdict led)\<rparr>)"

fun live_ranked_from :: "nat \<Rightarrow> live_entry list \<Rightarrow> live_entry list" where
  "live_ranked_from i [] = []"
| "live_ranked_from i (e # es) = e\<lparr>le_rank := i\<rparr> # live_ranked_from (Suc i) es"

record live_board =
  lb_entries :: "live_entry list"
  lb_total :: nat
  lb_as_of :: "int option"
  lb_withheld :: nat
  lb_degraded :: bool

definition build_live_paper_leaderboard :: "live_ledger list \<Rightarrow> nat \<Rightarrow> bool \<Rightarrow> live_board" where
  "build_live_paper_leaderboard ledgers limit degraded =
     (let graded = filter (\<lambda>led. ll_returns led \<noteq> []) ledgers;
          rows = live_ranked_from 1 (sort_values True le_cumulative_return (map live_row graded));
          served = take limit rows
      in \<lparr>lb_entries = served, lb_total = length rows,
          lb_as_of = (if served = [] then None else Some (Max (le_as_of ` set served))),
          lb_withheld = length ledgers - length graded, lb_degraded = degraded\<rparr>)"

text \<open>
  The loader: the active deployments of the account.  \<open>up\<close>: the database answers; \<open>verdicts\<close> are the stored ones, none
  when their read failed.
\<close>

definition spec_name :: "pyval \<Rightarrow> string" where
  "spec_name spec = (case spec of PDict d \<Rightarrow> (case map_of d ''name'' of Some (PStr s) \<Rightarrow> s | _ \<Rightarrow> []) | _ \<Rightarrow> [])"

definition ledger_of :: "(string \<Rightarrow> string option) \<Rightarrow> (string \<Rightarrow> board_verdict option) \<Rightarrow> deployment \<Rightarrow> live_ledger" where
  "ledger_of names verdicts d =
     \<lparr>ll_deployment_id = dp_id d, ll_strategy_id = dp_strategy_id d,
      ll_name = (if truthy (names (dp_strategy_id d)) then or_empty (names (dp_strategy_id d))
                 else if spec_name (dp_spec d) \<noteq> [] then spec_name (dp_spec d) else dp_strategy_id d),
      ll_inception = dp_deployed_at d, ll_returns = map (\<lambda>r. (lr_date r, lr_return r)) (dp_ledger d),
      ll_drift_detected = (dp_drift_detected_at d \<noteq> None \<or> dp_engine_regrade_at d \<noteq> None),
      ll_verdict = Some (verdict_or_ungraded (verdicts (dp_strategy_id d)))\<rparr>"

definition live_paper_ledgers ::
  "(string \<Rightarrow> string option) \<Rightarrow> (string \<Rightarrow> board_verdict option) \<Rightarrow> bool \<Rightarrow> string \<Rightarrow> deployment list \<Rightarrow> live_ledger list \<times> bool" where
  "live_paper_ledgers names verdicts up user_id deps =
     (if \<not> up then ([], True)
      else (map (ledger_of names verdicts)
              (filter (\<lambda>d. dp_owner_user_id d = Some user_id \<and> dp_status d = STATUS_ACTIVE) deps), False))"

definition get_live_paper_leaderboard ::
  "(string \<Rightarrow> string option) \<Rightarrow> (string \<Rightarrow> board_verdict option) \<Rightarrow> bool \<Rightarrow> string option \<Rightarrow> nat \<Rightarrow> deployment list \<Rightarrow> live_board" where
  "get_live_paper_leaderboard names verdicts up user limit deps =
     (case user of
        None \<Rightarrow> build_live_paper_leaderboard [] limit False
      | Some user_id \<Rightarrow>
          (case live_paper_ledgers names verdicts up user_id deps of
             (ledgers, degraded) \<Rightarrow> build_live_paper_leaderboard ledgers limit degraded))"

section \<open>The correction as a counting rule\<close>

lemma sorted_le_count:
  "sorted xs \<Longrightarrow> k < length xs \<Longrightarrow> xs ! k \<le> v \<longleftrightarrow> k < length (filter (\<lambda>x. x \<le> v) xs)" for xs :: "rat list"
proof (induction xs arbitrary: k)
  case (Cons x xs)
  show ?case
  proof (cases "x \<le> v")
    case True
    then show ?thesis using Cons by (cases k) auto
  next
    case False
    then have "\<not> y \<le> v" if "y \<in> set (x # xs)" for y using Cons.prems(1) that by (auto intro: order_trans)
    then have "filter (\<lambda>x. x \<le> v) (x # xs) = []" "\<not> (x # xs) ! k \<le> v"
      using Cons.prems(2) nth_mem [of k "x # xs"] by (auto simp: filter_empty_conv)
    then show ?thesis by simp
  qed
qed simp

lemma sorted_last: "sorted ks \<Longrightarrow> k \<in> set ks \<Longrightarrow> k \<le> last ks" for ks :: "nat list"
  by (induction ks) auto

lemma k_star_iff:
  "k < k_star fdr_level sp \<longleftrightarrow> (\<exists>k'. k \<le> k' \<and> k' < length sp \<and> sp ! k' \<le> crit (length sp) fdr_level (Suc k'))"
proof -
  let ?ks = "filter (\<lambda>k. sp ! k \<le> crit (length sp) fdr_level (Suc k)) [0..<length sp]"
  have m: "k' \<in> set ?ks \<longleftrightarrow> k' < length sp \<and> sp ! k' \<le> crit (length sp) fdr_level (Suc k')" for k' by auto
  show ?thesis
  proof (cases "?ks = []")
    case True
    then show ?thesis using m by (auto simp: k_star_def)
  next
    case False
    then have s: "k_star fdr_level sp = Suc (last ?ks)" by (simp add: k_star_def split: list.split)
    have "last ?ks \<in> set ?ks" using False by (rule last_in_set)
    moreover have "k' \<le> last ?ks" if "k' \<in> set ?ks" for k' using that by (intro sorted_last) (simp_all add: sorted_wrt_filter)
    ultimately show ?thesis unfolding s using m by (meson le_trans less_Suc_eq_le)
  qed
qed

lemma crit_mono: "0 \<le> fdr_level \<Longrightarrow> k \<le> k' \<Longrightarrow> crit m fdr_level k \<le> crit m fdr_level k'"
  unfolding crit_def by (intro fl_mono mult_right_mono divide_right_mono) simp_all

definition step_up :: "rat \<Rightarrow> rat list \<Rightarrow> rat \<Rightarrow> bool" where
  "step_up fdr_level ps q \<longleftrightarrow>
     list_ex (\<lambda>p. q \<le> p \<and> p \<le> crit (length ps) fdr_level (length (filter (\<lambda>x. x \<le> p) ps))) ps"

lemma step_up_mset: "mset ps = mset qs \<Longrightarrow> step_up fdr_level ps = step_up fdr_level qs"
proof
  fix q assume e: "mset ps = mset qs"
  have "set ps = set qs" "length ps = length qs" using e by (metis set_mset_mset, metis size_mset)
  moreover have "length (filter P ps) = length (filter P qs)" for P using e by (metis mset_filter size_mset)
  ultimately show "step_up fdr_level ps q = step_up fdr_level qs q" by (simp add: step_up_def list_ex_iff)
qed

lemma below_k_star:
  assumes "sorted sp" "0 \<le> fdr_level" "k < length sp"
  shows "k < k_star fdr_level sp \<longleftrightarrow> step_up fdr_level sp (sp ! k)"
proof
  assume "k < k_star fdr_level sp"
  then obtain k' where k: "k \<le> k'" "k' < length sp" "sp ! k' \<le> crit (length sp) fdr_level (Suc k')"
    unfolding k_star_iff by blast
  have "k' < length (filter (\<lambda>x. x \<le> sp ! k') sp)" using sorted_le_count [OF assms(1) k(2)] by blast
  then have "sp ! k' \<le> crit (length sp) fdr_level (length (filter (\<lambda>x. x \<le> sp ! k') sp))"
    using k(3) crit_mono [OF assms(2)] by (meson Suc_leI order_trans)
  moreover have "sp ! k \<le> sp ! k'" using assms(1) k(1,2) by (rule sorted_nth_mono)
  ultimately show "step_up fdr_level sp (sp ! k)" using k(2) by (auto simp: step_up_def list_ex_iff)
next
  assume "step_up fdr_level sp (sp ! k)"
  then obtain p where p: "p \<in> set sp" "sp ! k \<le> p" "p \<le> crit (length sp) fdr_level (length (filter (\<lambda>x. x \<le> p) sp))"
    by (auto simp: step_up_def list_ex_iff)
  let ?n = "length (filter (\<lambda>x. x \<le> p) sp)"
  have kn: "k < ?n" using sorted_le_count [OF assms(1,3)] p(2) by blast
  have nl: "?n \<le> length sp" by (rule length_filter_le)
  have n: "?n - 1 < length sp" "?n - 1 < ?n" using kn nl by linarith+
  have "sp ! (?n - 1) \<le> p" using sorted_le_count [OF assms(1) n(1), of p] n(2) by blast
  moreover have "Suc (?n - 1) = ?n" "k \<le> ?n - 1" using kn by linarith+
  ultimately have "k \<le> ?n - 1 \<and> ?n - 1 < length sp \<and> sp ! (?n - 1) \<le> crit (length sp) fdr_level (Suc (?n - 1))"
    using p(3) n(1) by (metis order_trans)
  then show "k < k_star fdr_level sp" unfolding k_star_iff by blast
qed

lemma in_input_order_nth:
  assumes "distinct order" "length xs = length order" "set order = {..<length order}" "k < length order"
  shows "in_input_order order xs ! (order ! k) = xs ! k"
proof -
  have v: "map_of (zip order xs) (order ! k) = Some (xs ! k)"
    using assms by (simp add: map_of_zip_nth)
  have "order ! k < length order" using assms(3,4) nth_mem by blast
  then show ?thesis unfolding in_input_order_def by (simp add: v)
qed

text \<open>
  C35: The step-up of the implementation, over ranks of a sorted copy, rejects exactly the values below some value of the
  cohort that meets the threshold for the number of values up to it, whatever the order of the cohort.
\<close>

theorem bh_counts:
  assumes "0 \<le> fdr_level"
  shows "fr_rejected (benjamini_hochberg_fdr ps fdr_level) =
    map (\<lambda>q. list_ex (\<lambda>p. q \<le> p \<and> p \<le> crit (length ps) fdr_level (length (filter (\<lambda>x. x \<le> p) ps))) ps) ps"
proof -
  let ?o = "sort_key (\<lambda>i. ps ! i) [0..<length ps]"
  let ?sp = "map (\<lambda>i. ps ! i) ?o"
  have o: "distinct ?o" "length ?o = length ps" "set ?o = {..<length ps}" by auto
  have s: "sorted ?sp" by simp
  have "mset ?sp = image_mset ((!) ps) (mset [0..<length ps])" by simp
  also have "\<dots> = mset ps" by (metis map_nth mset_map)
  finally have e: "mset ?sp = mset ps" .
  have "fr_rejected (benjamini_hochberg_fdr ps fdr_level) ! i = step_up fdr_level ps (ps ! i)" if i: "i < length ps" for i
  proof -
    obtain k where k: "k < length ps" "?o ! k = i" using o i by (metis in_set_conv_nth lessThan_iff)
    have "fr_rejected (benjamini_hochberg_fdr ps fdr_level) ! i = (k < k_star fdr_level ?sp)"
      using in_input_order_nth [OF o(1), of "map (\<lambda>k. k < k_star fdr_level ?sp) [0..<length ps]" k] k o
      by (simp add: benjamini_hochberg_fdr_def Let_def)
    also have "\<dots> = step_up fdr_level ?sp (?sp ! k)" using k s assms by (intro below_k_star) simp_all
    also have "\<dots> = step_up fdr_level ps (ps ! i)" using k step_up_mset [OF e] by simp
    finally show ?thesis .
  qed
  moreover have "length (fr_rejected (benjamini_hochberg_fdr ps fdr_level)) = length ps"
    by (simp add: benjamini_hochberg_fdr_def Let_def in_input_order_def)
  ultimately show ?thesis by (intro nth_equalityI) (simp_all add: step_up_def)
qed

lemma bh_counts_witness:
  "fr_rejected (benjamini_hochberg_fdr [1 / 2, 1 / 16, 1 / 4] (1 / 4)) = [False, True, False]"
proof -
  let ?ps = "[1 / 2, 1 / 16, 1 / 4] :: rat list"
  have m: "map (\<lambda>q. list_ex (\<lambda>p. q \<le> p \<and> p \<le> crit (length ?ps) (1 / 4) (length (filter (\<lambda>x. x \<le> p) ?ps))) ?ps) ?ps = [False, True, False]"
    by code_simp
  have h: "0 \<le> (1 / 4 :: rat)" by simp
  show ?thesis by (rule trans [OF bh_counts [OF h] m])
qed

section \<open>What conviction is worth\<close>

lemma clamp01_bounds: "0 \<le> clamp01 v" "clamp01 v \<le> 1"
  by (cases v; simp)+

lemma component_bounds: "0 \<le> component_or_0 f v" "component_or_0 f v \<le> 1"
  by (simp_all add: component_or_0_def clamp01_bounds split: option.split)

lemma weights_nonneg: "0 \<le> WEIGHT_gate" "0 \<le> WEIGHT_dsr_confidence" "0 \<le> WEIGHT_oos_performance" "0 \<le> WEIGHT_overfitting_resistance"
  unfolding WEIGHT_gate_def WEIGHT_dsr_confidence_def WEIGHT_oos_performance_def WEIGHT_overfitting_resistance_def
  by (rule fl_sign, simp)+

lemma weighted_sum_mono:
  "a \<le> a' \<Longrightarrow> b \<le> b' \<Longrightarrow> c \<le> c' \<Longrightarrow> d \<le> d' \<Longrightarrow> weighted_sum a b c d \<le> weighted_sum a' b' c' d'"
  unfolding weighted_sum_def
  by (intro fl_mono mult_left_mono add_mono weights_nonneg) simp_all

lemma weighted_sum_extremes: "weighted_sum 0 0 0 0 = 0" "weighted_sum 1 1 1 1 = 100"
  by code_simp+

lemma py_round_mono: "x \<le> y \<Longrightarrow> py_round n x \<le> py_round n y"
  unfolding py_round_def by (intro fl_mono divide_right_mono) (simp_all add: rne_mono mult_right_mono)

lemma score_of_components:
  "\<not> re_placeholder r \<Longrightarrow> fst (compute_conviction r) =
     py_round 1 (weighted_sum (sc_gate (snd (compute_conviction r))) (sc_dsr_confidence (snd (compute_conviction r)))
       (sc_oos_performance (snd (compute_conviction r))) (sc_overfitting_resistance (snd (compute_conviction r))))"
  by (simp add: compute_conviction_def Let_def)

text \<open>
  A conviction score lies between 0 and 100, and a strategy that is at least as good in every component never scores
  less; a placeholder scores 0 whatever its fields say.
\<close>

theorem conviction_monotone:
  "0 \<le> fst (compute_conviction r) \<and> fst (compute_conviction r) \<le> 100 \<and>
   (if re_placeholder r then compute_conviction r = (0, \<lparr>sc_gate = 0, sc_dsr_confidence = 0, sc_oos_performance = 0,
      sc_overfitting_resistance = 0, sc_data_completeness = 0\<rparr>)
    else if re_placeholder r' \<or>
       sc_gate (snd (compute_conviction r')) \<le> sc_gate (snd (compute_conviction r)) \<and>
       sc_dsr_confidence (snd (compute_conviction r')) \<le> sc_dsr_confidence (snd (compute_conviction r)) \<and>
       sc_oos_performance (snd (compute_conviction r')) \<le> sc_oos_performance (snd (compute_conviction r)) \<and>
       sc_overfitting_resistance (snd (compute_conviction r')) \<le> sc_overfitting_resistance (snd (compute_conviction r))
    then fst (compute_conviction r') \<le> fst (compute_conviction r) else True)"
proof -
  let ?s = "\<lambda>a b c d. py_round 1 (weighted_sum a b c d)"
  have lo: "0 \<le> ?s a b c d" if "0 \<le> a" "0 \<le> b" "0 \<le> c" "0 \<le> d" for a b c d
  proof -
    have "py_round 1 0 = 0" by code_simp
    then show ?thesis using py_round_mono [OF weighted_sum_mono [OF that], of 1] by (simp add: weighted_sum_extremes)
  qed
  have hi: "?s a b c d \<le> 100" if "a \<le> 1" "b \<le> 1" "c \<le> 1" "d \<le> 1" for a b c d
  proof -
    have "py_round 1 100 = 100" by code_simp
    then show ?thesis using py_round_mono [OF weighted_sum_mono [OF that], of 1] by (simp add: weighted_sum_extremes)
  qed
  have bounds: "0 \<le> fst (compute_conviction q) \<and> fst (compute_conviction q) \<le> 100" for q
    by (simp add: compute_conviction_def Let_def lo hi component_bounds del: One_nat_def)
  have mono: "fst (compute_conviction r') \<le> fst (compute_conviction r)"
    if "\<not> re_placeholder r" "\<not> re_placeholder r'"
      "sc_gate (snd (compute_conviction r')) \<le> sc_gate (snd (compute_conviction r))"
      "sc_dsr_confidence (snd (compute_conviction r')) \<le> sc_dsr_confidence (snd (compute_conviction r))"
      "sc_oos_performance (snd (compute_conviction r')) \<le> sc_oos_performance (snd (compute_conviction r))"
      "sc_overfitting_resistance (snd (compute_conviction r')) \<le> sc_overfitting_resistance (snd (compute_conviction r))"
    unfolding score_of_components [OF that(1)] score_of_components [OF that(2)]
    using that(3-) by (intro py_round_mono weighted_sum_mono)
  have p: "fst (compute_conviction q) = 0" if "re_placeholder q" for q using that by (simp add: compute_conviction_def)
  show ?thesis
  proof (cases "re_placeholder r")
    case True
    then show ?thesis using bounds by (simp add: compute_conviction_def)
  next
    case False
    then show ?thesis using bounds [of r] mono p by (cases "re_placeholder r'") auto
  qed
qed

definition blank_response :: response where
  "blank_response = \<lparr>re_id = ''s'', re_paper_title = None, re_methodology = None, re_curator_wallet = None,
     re_placeholder = False, re_passes = False, re_regime_tag = None, re_sharpe_ratio = None, re_cagr = None,
     re_sortino_ratio = None, re_calmar_ratio = None, re_deflated_sharpe_ratio = None, re_dsr_p_value = None,
     re_out_of_sample_sharpe = None, re_pbo_score = None\<rparr>"

text \<open>
  A statistic that is not a number earns full marks, where an absent one earns none: the comparison inside the clamp is
  false of a NaN.
\<close>

theorem nan_scores_full:
  "fst (compute_conviction blank_response) = 0"
  "fst (compute_conviction (blank_response\<lparr>re_dsr_p_value := Some Nan, re_out_of_sample_sharpe := Some Nan, re_pbo_score := Some Nan\<rparr>)) = 65"
  by code_simp+

section \<open>What the boards show\<close>

lemma ranked_from_set: "e \<in> set (ranked_from i es) \<Longrightarrow> \<exists>x \<in> set es. be_fdr e = be_fdr x \<and> be_response e = be_response x"
  by (induction i es rule: ranked_from.induct) auto

lemma set_sort_values [simp]: "set (sort_values descending f xs) = set xs"
  by (simp add: sort_values_def)

lemma length_sort_values [simp]: "length (sort_values descending f xs) = length xs"
  by (simp add: sort_values_def)

lemma set_sorted_view: "set (sorted_view descending sort_by entries) = set entries"
  by (auto simp: sorted_view_def)

lemma set_in_view: "set (in_view vw entries) \<subseteq> set entries"
  by (auto simp: in_view_def Let_def split: if_splits)

text \<open>
  The correction of a strategy depends on the cohort alone: no sort, order, filter or limit of a view changes the
  figures of a row or the counts of the board.
\<close>

theorem correction_ignores_view:
  "let fdr = compute_board_level_fdr (cohort (map entry_of responses)) DEFAULT_BOARD_FDR_LEVEL;
       b = build_leaderboard responses vw
   in list_all (\<lambda>e. be_fdr e = map_of fdr (re_id (be_response e))) (bd_entries b) \<and>
      bd_n_tested b = length fdr \<and> bd_n_significant b = length (filter (\<lambda>(_, v). bf_significant v) fdr)"
proof -
  let ?fdr = "compute_board_level_fdr (cohort (map entry_of responses)) DEFAULT_BOARD_FDR_LEVEL"
  have "be_fdr e = map_of ?fdr (re_id (be_response e))" if e: "e \<in> set (bd_entries (build_leaderboard responses vw))" for e
  proof -
    obtain descending sort_by where "e \<in> set (ranked_from 1 (sorted_view descending sort_by (in_view vw (corrected ?fdr (map entry_of responses)))))"
      using e by (auto simp: build_leaderboard_def Let_def dest!: in_set_takeD)
    then obtain x where x: "x \<in> set (in_view vw (corrected ?fdr (map entry_of responses)))" "be_fdr e = be_fdr x" "be_response e = be_response x"
      using set_sorted_view ranked_from_set by metis
    then have "x \<in> set (corrected ?fdr (map entry_of responses))" using set_in_view by blast
    then show ?thesis using x(2,3) by (auto simp: corrected_def)
  qed
  then show ?thesis by (simp add: build_leaderboard_def Let_def list_all_iff)
qed

lemma sorted_sort_values:
  "sorted_wrt (\<lambda>x y. fv_key (f y) \<le> fv_key (f x)) (sort_values True f xs)"
proof -
  have k: "(case p of (a, b) \<Rightarrow> (- a, - b)) \<le> (case q of (a, b) \<Rightarrow> (- a, - b)) \<longleftrightarrow> q \<le> p" for p q :: "int \<times> rat"
    by (cases p; cases q) (auto simp: less_eq_prod_def)
  have "sorted (map (\<lambda>x. case fv_key (f x) of (a, b) \<Rightarrow> (- a, - b)) (sort_values True f xs))" by (simp add: sort_values_def)
  then show ?thesis by (simp add: sorted_wrt_map k)
qed

lemma live_ranked:
  "map le_rank (live_ranked_from i es) = [i..<i + length es]"
  "length (live_ranked_from i es) = length es"
  "sorted_wrt (\<lambda>x y. P (le_cumulative_return x) (le_cumulative_return y)) (live_ranked_from i es) =
     sorted_wrt (\<lambda>x y. P (le_cumulative_return x) (le_cumulative_return y)) es"
proof -
  have m: "map le_cumulative_return (live_ranked_from i es) = map le_cumulative_return es" for i es
    by (induction i es rule: live_ranked_from.induct) simp_all
  show "map le_rank (live_ranked_from i es) = [i..<i + length es]"
    by (induction i es rule: live_ranked_from.induct) (simp_all add: upt_rec)
  show "length (live_ranked_from i es) = length es" using arg_cong [OF m, of length] by simp
  have s: "sorted_wrt (\<lambda>x y. P (le_cumulative_return x) (le_cumulative_return y)) zs = sorted_wrt P (map le_cumulative_return zs)" for zs
    by (simp add: sorted_wrt_map)
  show "sorted_wrt (\<lambda>x y. P (le_cumulative_return x) (le_cumulative_return y)) (live_ranked_from i es) =
     sorted_wrt (\<lambda>x y. P (le_cumulative_return x) (le_cumulative_return y)) es" by (simp only: s m)
qed

lemma live_ranked_set:
  "e \<in> set (live_ranked_from i es) \<Longrightarrow> \<exists>x \<in> set es. le_deployment_id e = le_deployment_id x \<and>
     le_cumulative_return e = le_cumulative_return x \<and> le_days_live e = le_days_live x"
  by (induction i es rule: live_ranked_from.induct) auto

lemma sort_key_map: "sort_key f (map g xs) = map g (sort_key (f \<circ> g) xs)"
proof -
  have "insort_key f (g x) (map g ys) = map g (insort_key (f \<circ> g) x ys)" for x ys by (induction ys) auto
  then show ?thesis by (induction xs) simp_all
qed

lemma foldl_map_snd: "foldl (\<lambda>e r. fv_compound e (snd r)) e0 (map (\<lambda>r. (lr_date r, lr_return r)) rs) = foldl (\<lambda>e r. fv_compound e (lr_return r)) e0 rs"
  by (induction rs arbitrary: e0) simp_all

lemma live_row_summary:
  "le_cumulative_return (live_row (ledger_of names verdicts d)) = sm_total_return (deployment_summary d) \<and>
   le_days_live (live_row (ledger_of names verdicts d)) = sm_days (deployment_summary d) \<and>
   le_deployment_id (live_row (ledger_of names verdicts d)) = dp_id d"
proof -
  have "sort_key fst (map (\<lambda>r. (lr_date r, lr_return r)) (dp_ledger d)) = map (\<lambda>r. (lr_date r, lr_return r)) (sort_key lr_date (dp_ledger d))"
    by (simp add: sort_key_map comp_def)
  then show ?thesis
    by (simp add: live_row_def ledger_of_def Let_def cumulative_return_def deployment_summary_def settled_equity_def foldl_map_snd)
qed

text \<open>
  C36: Every row of the live board is an active deployment of the caller that has a ledger, with the return and the number
  of days that its own summary states; rows are in descending order and numbered from 1, and with the withheld ones they
  account for every active deployment of the caller.
\<close>

theorem live_board_agrees:
  "let owned = filter (\<lambda>d. dp_owner_user_id d = Some user \<and> dp_status d = STATUS_ACTIVE) deps;
       b = get_live_paper_leaderboard names verdicts up (Some user) limit deps
   in list_all (\<lambda>e. list_ex (\<lambda>d. dp_ledger d \<noteq> [] \<and> le_deployment_id e = dp_id d \<and>
          le_cumulative_return e = sm_total_return (deployment_summary d) \<and> le_days_live e = sm_days (deployment_summary d)) owned)
        (lb_entries b) \<and>
      sorted_wrt (\<lambda>e e'. fv_key (le_cumulative_return e') \<le> fv_key (le_cumulative_return e)) (lb_entries b) \<and>
      map le_rank (lb_entries b) = [1..<1 + length (lb_entries b)] \<and>
      lb_total b + lb_withheld b = (if up then length owned else 0)"
proof -
  let ?owned = "filter (\<lambda>d. dp_owner_user_id d = Some user \<and> dp_status d = STATUS_ACTIVE) deps"
  let ?ls = "fst (live_paper_ledgers names verdicts up user deps)"
  let ?b = "get_live_paper_leaderboard names verdicts up (Some user) limit deps"
  let ?graded = "filter (\<lambda>led. ll_returns led \<noteq> []) ?ls"
  let ?sorted = "sort_values True le_cumulative_return (map live_row ?graded)"
  have ls: "?ls = (if up then map (ledger_of names verdicts) ?owned else [])" by (simp add: live_paper_ledgers_def)
  have e: "lb_entries ?b = take limit (live_ranked_from 1 ?sorted)" "lb_total ?b = length ?graded"
      "lb_withheld ?b = length ?ls - length ?graded"
    by (simp_all add: get_live_paper_leaderboard_def build_live_paper_leaderboard_def Let_def live_ranked(2) split: prod.split)
  have rows: "list_ex (\<lambda>d. dp_ledger d \<noteq> [] \<and> le_deployment_id e = dp_id d \<and>
          le_cumulative_return e = sm_total_return (deployment_summary d) \<and> le_days_live e = sm_days (deployment_summary d)) ?owned"
    if "e \<in> set (lb_entries ?b)" for e
  proof -
    have "e \<in> set (live_ranked_from 1 ?sorted)" using that e(1) by (metis in_set_takeD)
    then obtain led where l: "led \<in> set ?graded" "le_deployment_id e = le_deployment_id (live_row led)"
        "le_cumulative_return e = le_cumulative_return (live_row led)" "le_days_live e = le_days_live (live_row led)"
      by (auto dest!: live_ranked_set)
    obtain d where d: "d \<in> set ?owned" "led = ledger_of names verdicts d"
      using l(1) ls by (auto split: if_splits)
    have "dp_ledger d \<noteq> []" using l(1) d(2) by (auto simp: ledger_of_def)
    then show ?thesis using l(2-4) d live_row_summary [of names verdicts d] unfolding list_ex_iff
      by (intro bexI [of _ d]) simp_all
  qed
  have "sorted_wrt (\<lambda>e e'. fv_key (le_cumulative_return e') \<le> fv_key (le_cumulative_return e)) (live_ranked_from 1 ?sorted)"
    using sorted_sort_values [of le_cumulative_return] live_ranked(3) [of "\<lambda>x y. fv_key y \<le> fv_key x"] by blast
  then have sorted: "sorted_wrt (\<lambda>e e'. fv_key (le_cumulative_return e') \<le> fv_key (le_cumulative_return e)) (lb_entries ?b)"
    unfolding e(1) by (rule sorted_wrt_take)
  have ranks: "map le_rank (lb_entries ?b) = [1..<1 + length (lb_entries ?b)]"
    unfolding e(1) by (simp add: live_ranked take_map [symmetric] take_upt min_def)
  have "length ?graded \<le> length ?ls" by (rule length_filter_le)
  then have count: "lb_total ?b + lb_withheld ?b = (if up then length ?owned else 0)" using e(2,3) ls by simp
  show ?thesis using rows sorted ranks count by (simp add: Let_def list_all_iff)
qed

end
