(* ===== verification/ApiKeys.thy ===== *)
theory ApiKeys
  imports Prelude "HOL-Library.List_Lexorder" "HOL-Library.Char_ord" "HOL-Library.Product_Lexorder"
begin

text \<open>
  API keys: \<^verbatim>\<open>models/api_key.py\<close>, \<^verbatim>\<open>api/api_key_auth.py\<close> and the routes of \<^verbatim>\<open>api/api_key_routes.py\<close>.

  Byte strings are strings.  The hash function, the random bytes and the instants (in milliseconds) are arguments;
  the encodings of bytes as text are those of the standard library.  A flag says whether the database answers.  The
  account of a request is the one that its session cookie resolved to.
\<close>

section \<open>Bytes as text\<close>

definition nibble :: "nat \<Rightarrow> char" where
  "nibble n = char_of (if n < 10 then 48 + n else 87 + n)"

text \<open>\<^verbatim>\<open>secrets.token_hex\<close> on the bytes drawn.\<close>

definition token_hex :: "string \<Rightarrow> string" where
  "token_hex bs = concat (map (\<lambda>b. [nibble (ord_of b div 16), nibble (ord_of b mod 16)]) bs)"

definition b64_char :: "nat \<Rightarrow> char" where
  "b64_char n =
     (if n < 26 then char_of (65 + n) else if n < 52 then char_of (71 + n) else if n < 62 then char_of (n - 4)
      else if n = 62 then CHR ''-'' else CHR ''_'')"

text \<open>\<^verbatim>\<open>secrets.token_urlsafe\<close>: base 64 for URLs without the padding.\<close>

fun token_urlsafe :: "string \<Rightarrow> string" where
  "token_urlsafe [] = []"
| "token_urlsafe [a] = [b64_char (ord_of a div 4), b64_char (ord_of a mod 4 * 16)]"
| "token_urlsafe [a, b] =
     [b64_char (ord_of a div 4), b64_char (ord_of a mod 4 * 16 + ord_of b div 16), b64_char (ord_of b mod 16 * 4)]"
| "token_urlsafe (a # b # c # cs) =
     b64_char (ord_of a div 4) # b64_char (ord_of a mod 4 * 16 + ord_of b div 16) #
     b64_char (ord_of b mod 16 * 4 + ord_of c div 64) # b64_char (ord_of c mod 64) # token_urlsafe cs"

definition hex_digit_val :: "char \<Rightarrow> nat option" where
  "hex_digit_val c =
     (let n = ord_of c
      in if 48 \<le> n \<and> n \<le> 57 then Some (n - 48)
         else if 97 \<le> n \<and> n \<le> 102 then Some (n - 87)
         else if 65 \<le> n \<and> n \<le> 70 then Some (n - 55)
         else None)"

text \<open>\<^verbatim>\<open>bytes.fromhex\<close>: white space may stand between bytes, anything else that is not a pair of digits raises.\<close>

fun bytes_fromhex :: "string \<Rightarrow> string option" where
  "bytes_fromhex [] = Some []"
| "bytes_fromhex [c] = (if ord_of c = 32 \<or> (9 \<le> ord_of c \<and> ord_of c \<le> 13) then Some [] else None)"
| "bytes_fromhex (c # d # cs) =
     (if ord_of c = 32 \<or> (9 \<le> ord_of c \<and> ord_of c \<le> 13) then bytes_fromhex (d # cs)
      else case (hex_digit_val c, hex_digit_val d, bytes_fromhex cs) of
             (Some h, Some l, Some bs) \<Rightarrow> Some (char_of (16 * h + l) # bs)
           | _ \<Rightarrow> None)"

text \<open>\<^verbatim>\<open>encode("utf-8")\<close> of the code points below 256.\<close>

definition utf8 :: "string \<Rightarrow> string" where
  "utf8 s = concat (map (\<lambda>c. if ord_of c < 128 then [c]
                              else [char_of (192 + ord_of c div 64), char_of (128 + ord_of c mod 64)]) s)"

section \<open>Rows\<close>

record api_key =
  k_id :: string
  k_user :: string
  k_name :: string
  k_salt :: string
  k_hash :: string
  k_created :: int
  k_last_used :: "int option"
  k_revoked :: "int option"

record auth_user =
  u_id :: string
  u_name :: "string option"
  u_email :: string
  u_verified :: bool
  u_image :: "string option"

record key_db =
  kd_keys :: "api_key list"
  kd_users :: "auth_user list"

definition MAX_KEYS_PER_ACCOUNT :: nat where
  "MAX_KEYS_PER_ACCOUNT = 25"

definition MAX_KEYS_LISTED :: nat where
  "MAX_KEYS_LISTED = 200"

definition TOKEN_PREFIX :: string where
  "TOKEN_PREFIX = ''archim_''"

definition key_prefix :: "api_key \<Rightarrow> string" where
  "key_prefix k = TOKEN_PREFIX @ k_id k"

record payload =
  kp_id :: string
  kp_name :: string
  kp_prefix :: string
  kp_created :: int
  kp_last_used :: "int option"
  kp_revoked :: "int option"

definition to_payload :: "api_key \<Rightarrow> payload" where
  "to_payload k = \<lparr>kp_id = k_id k, kp_name = k_name k, kp_prefix = key_prefix k, kp_created = k_created k,
     kp_last_used = k_last_used k, kp_revoked = k_revoked k\<rparr>"

definition live_key :: "string \<Rightarrow> api_key \<Rightarrow> bool" where
  "live_key user k \<longleftrightarrow> k_user k = user \<and> k_revoked k = None"

definition live_key_count :: "string \<Rightarrow> key_db \<Rightarrow> nat" where
  "live_key_count user db = length (filter (live_key user) (kd_keys db))"

text \<open>Newest first; the identifiers break ties.\<close>

definition list_keys :: "string \<Rightarrow> key_db \<Rightarrow> payload list" where
  "list_keys user db =
     (if user = [] then []
      else map to_payload (take MAX_KEYS_LISTED
             (rev (sort_key (\<lambda>k. (k_created k, k_id k)) (filter (\<lambda>k. k_user k = user) (kd_keys db))))))"

definition get_owned_key :: "string \<Rightarrow> string \<Rightarrow> key_db \<Rightarrow> api_key option" where
  "get_owned_key user key_id db =
     (if user = [] \<or> key_id = [] then None else find (\<lambda>k. k_user k = user \<and> k_id k = key_id) (kd_keys db))"

definition update_key :: "string \<Rightarrow> (api_key \<Rightarrow> api_key) \<Rightarrow> key_db \<Rightarrow> key_db" where
  "update_key key_id f db = db\<lparr>kd_keys := map (\<lambda>k. if k_id k = key_id then f k else k) (kd_keys db)\<rparr>"

definition revoke_key :: "int \<Rightarrow> api_key \<Rightarrow> key_db \<Rightarrow> key_db" where
  "revoke_key now record db =
     (if k_revoked record = None then update_key (k_id record) (k_revoked_update (\<lambda>_. Some now)) db else db)"

definition touch_last_used :: "int \<Rightarrow> api_key \<Rightarrow> key_db \<Rightarrow> bool \<times> key_db" where
  "touch_last_used now record db =
     (if (case k_last_used record of Some previous \<Rightarrow> now - previous < 60000 | None \<Rightarrow> False) then (False, db)
      else (True, update_key (k_id record) (k_last_used_update (\<lambda>_. Some now)) db))"

section \<open>Tokens\<close>

definition digest :: "(string \<Rightarrow> string) \<Rightarrow> string \<Rightarrow> string \<Rightarrow> string res" where
  "digest sha256 salt secret =
     (case bytes_fromhex salt of None \<Rightarrow> Inl ValueError | Some bs \<Rightarrow> Inr (token_hex (sha256 (bs @ utf8 secret))))"

definition parse_authorization_header :: "string option \<Rightarrow> (string \<times> string) option" where
  "parse_authorization_header header =
     (case header of
        None \<Rightarrow> None
      | Some v \<Rightarrow>
          if take 7 v \<noteq> ''Bearer '' then None
          else
            let token = py_strip (drop 7 v);
                body = drop (length TOKEN_PREFIX) token;
                key_id = takeWhile (\<lambda>c. c \<noteq> CHR ''_'') body;
                secret = tl (dropWhile (\<lambda>c. c \<noteq> CHR ''_'') body)
            in if take (length TOKEN_PREFIX) token \<noteq> TOKEN_PREFIX then None
               else if CHR ''_'' \<notin> set body \<or> key_id = [] \<or> secret = [] then None
               else Some (key_id, secret))"

text \<open>The bytes that one call draws: five candidates for the identifier, the secret and the salt.\<close>

record entropy =
  en_ids :: "string list"
  en_secret :: string
  en_salt :: string

definition drawn :: "entropy \<Rightarrow> bool" where
  "drawn e \<longleftrightarrow> length (en_ids e) = 5 \<and> list_all (\<lambda>b. length b = 8) (en_ids e) \<and> length (en_secret e) = 32 \<and> length (en_salt e) = 16"

definition find_key :: "string \<Rightarrow> key_db \<Rightarrow> api_key option" where
  "find_key key_id db = find (\<lambda>k. k_id k = key_id) (kd_keys db)"

fun free_id :: "key_db \<Rightarrow> string list \<Rightarrow> string option" where
  "free_id db [] = None"
| "free_id db (key_id # rest) = (if find_key key_id db = None then Some key_id else free_id db rest)"

text \<open>The flush fails on the foreign key when the account is absent.\<close>

definition mint :: "(string \<Rightarrow> string) \<Rightarrow> string \<Rightarrow> string \<Rightarrow> entropy \<Rightarrow> int \<Rightarrow> (key_db, api_key \<times> string) op" where
  "mint sha256 user name e now db =
     (if user = [] then (Inl ValueError, db)
      else case free_id db (map token_hex (en_ids e)) of
             None \<Rightarrow> (Inl RuntimeError, db)
           | Some key_id \<Rightarrow>
               let secret = token_urlsafe (en_secret e); salt = token_hex (en_salt e)
               in case digest sha256 salt secret of
                    Inl x \<Rightarrow> (Inl x, db)
                  | Inr h \<Rightarrow>
                      if \<not> list_ex (\<lambda>a. u_id a = user) (kd_users db) then (Inl IntegrityError, db)
                      else
                        let record = \<lparr>k_id = key_id, k_user = user, k_name = name, k_salt = salt, k_hash = h,
                              k_created = now, k_last_used = None, k_revoked = None\<rparr>
                        in (Inr (record, TOKEN_PREFIX @ key_id @ ''_'' @ secret), db\<lparr>kd_keys := kd_keys db @ [record]\<rparr>))"

text \<open>The comparison against the dummy digest when there is no row has no result.\<close>

definition verify :: "(string \<Rightarrow> string) \<Rightarrow> string \<Rightarrow> string \<Rightarrow> key_db \<Rightarrow> api_key option res" where
  "verify sha256 key_id secret db =
     (case (if key_id = [] then None else find_key key_id db) of
        None \<Rightarrow> Inr None
      | Some record \<Rightarrow>
          (case digest sha256 (k_salt record) secret of
             Inl x \<Rightarrow> Inl x
           | Inr h \<Rightarrow> Inr (if h \<noteq> k_hash record \<or> k_revoked record \<noteq> None then None else Some record)))"

record current_user =
  cu_id :: string
  cu_name :: string
  cu_email :: string
  cu_verified :: bool
  cu_image :: "string option"

definition account_of :: "auth_user \<Rightarrow> current_user" where
  "account_of a = \<lparr>cu_id = u_id a, cu_name = or_empty (u_name a), cu_email = u_email a, cu_verified = u_verified a,
     cu_image = u_image a\<rparr>"

definition resolve_api_key_user ::
  "(string \<Rightarrow> string) \<Rightarrow> bool \<Rightarrow> int \<Rightarrow> string option \<Rightarrow> key_db \<Rightarrow> current_user option \<times> key_db" where
  "resolve_api_key_user sha256 up now header db =
     (case parse_authorization_header header of
        None \<Rightarrow> (None, db)
      | Some (key_id, secret) \<Rightarrow>
          if \<not> up then (None, db)
          else case verify sha256 key_id secret db of
                 Inl _ \<Rightarrow> (None, db)
               | Inr None \<Rightarrow> (None, db)
               | Inr (Some record) \<Rightarrow>
                   (case find (\<lambda>a. u_id a = k_user record) (kd_users db) of
                      None \<Rightarrow> (None, db)
                    | Some account \<Rightarrow> (Some (account_of account), snd (touch_last_used now record db))))"

section \<open>Routes\<close>

record created =
  ck_payload :: payload
  ck_key :: string

text \<open>The declared bounds are on the name as sent, the validator then strips it.\<close>

definition clean_name :: "string \<Rightarrow> string res" where
  "clean_name name =
     (if length name < 1 \<or> 64 < length name \<or> py_strip name = [] then Inl (HTTPException 422 ''value_error'')
      else Inr (py_strip name))"

text \<open>\<open>built\<close>: whether the body of the response can be built from the row.\<close>

definition create_api_key ::
  "(string \<Rightarrow> string) \<Rightarrow> bool \<Rightarrow> bool \<Rightarrow> string \<Rightarrow> string \<Rightarrow> entropy \<Rightarrow> int \<Rightarrow> (key_db, created) op" where
  "create_api_key sha256 up built user raw e now db =
     (case clean_name raw of
        Inl x \<Rightarrow> (Inl x, db)
      | Inr name \<Rightarrow>
          if \<not> up then (Inl (HTTPException 500 ''''), db)
          else if MAX_KEYS_PER_ACCOUNT \<le> live_key_count user db then (Inl (HTTPException 409 ''api_key_limit_reached''), db)
          else case mint sha256 user name e now db of
                 (Inl _, _) \<Rightarrow> (Inl (HTTPException 500 ''''), db)
               | (Inr (record, token), db') \<Rightarrow>
                   if built then (Inr \<lparr>ck_payload = to_payload record, ck_key = token\<rparr>, db')
                   else (Inl (HTTPException 500 ''''), db))"

definition list_api_keys :: "bool \<Rightarrow> string \<Rightarrow> key_db \<Rightarrow> payload list res" where
  "list_api_keys up user db = (if up then Inr (list_keys user db) else Inl DatabaseError)"

definition revoke_api_key :: "bool \<Rightarrow> string \<Rightarrow> string \<Rightarrow> int \<Rightarrow> (key_db, unit) op" where
  "revoke_api_key up user key_id now db =
     (if \<not> up then (Inl (HTTPException 500 ''''), db)
      else case get_owned_key user key_id db of
             None \<Rightarrow> (Inl (HTTPException 404 ''''), db)
           | Some record \<Rightarrow> (Inr (), revoke_key now record db))"

text \<open>Requests on the three routes and requests that present a key.\<close>

datatype key_request =
    Create bool bool string string entropy int
  | Revoke bool string string int
  | Present bool int "string option"

fun key_step :: "(string \<Rightarrow> string) \<Rightarrow> key_db \<Rightarrow> key_request \<Rightarrow> key_db" where
  "key_step sha256 db (Create up built user raw e now) = snd (create_api_key sha256 up built user raw e now db)"
| "key_step sha256 db (Revoke up user key_id now) = snd (revoke_api_key up user key_id now db)"
| "key_step sha256 db (Present up now header) = snd (resolve_api_key_user sha256 up now header db)"

section \<open>Encodings\<close>

lemma ord_of_lt: "ord_of c < 256"
  by (simp add: ord_of_def)

lemma ord_of_char_of: "n < 256 \<Longrightarrow> ord_of (char_of n) = n"
  by (simp add: ord_of_def)

lemma nibble_ord: "n < 16 \<Longrightarrow> ord_of (nibble n) = (if n < 10 then 48 + n else 87 + n)"
  by (simp add: nibble_def ord_of_char_of)

lemma hex_digit_val_nibble: "n < 16 \<Longrightarrow> hex_digit_val (nibble n) = Some n"
  by (simp add: hex_digit_val_def nibble_ord)

lemma token_hex_simps [simp]:
  "token_hex [] = []"
  "token_hex (b # bs) = nibble (ord_of b div 16) # nibble (ord_of b mod 16) # token_hex bs"
  by (simp_all add: token_hex_def)

lemma fromhex_token_hex: "bytes_fromhex (token_hex bs) = Some bs"
proof (induction bs)
  case (Cons b bs)
  have d: "ord_of b div 16 < 16" "ord_of b mod 16 < 16" using ord_of_lt [of b] by auto
  have "char_of (16 * (ord_of b div 16) + ord_of b mod 16) = b" by (simp add: ord_of_def)
  then show ?case using Cons nibble_ord [OF d(1)] hex_digit_val_nibble [OF d(1)] hex_digit_val_nibble [OF d(2)] by auto
qed simp

text \<open>No white space anywhere in a token, and no separator in an identifier.\<close>

definition graphic :: "char \<Rightarrow> bool" where
  "graphic c \<longleftrightarrow> 33 \<le> ord_of c \<and> ord_of c \<le> 126"

lemma graphic_not_space: "graphic c \<Longrightarrow> \<not> py_space c"
  by (auto simp: graphic_def py_space_def Let_def)

lemma nibble_graphic: "n < 16 \<Longrightarrow> graphic (nibble n) \<and> nibble n \<noteq> CHR ''_''"
proof -
  assume "n < 16"
  then have "ord_of (nibble n) \<noteq> 95" "graphic (nibble n)" using nibble_ord [of n] by (auto simp: graphic_def)
  then show ?thesis by (auto simp: ord_of_def)
qed

lemma token_hex_chars: "c \<in> set (token_hex bs) \<Longrightarrow> graphic c \<and> c \<noteq> CHR ''_''"
proof (induction bs)
  case (Cons b bs)
  have "ord_of b div 16 < 16" "ord_of b mod 16 < 16" using ord_of_lt [of b] by auto
  then show ?case using Cons nibble_graphic by auto
qed simp

lemma b64_graphic: "graphic (b64_char n)"
  by (auto simp: graphic_def b64_char_def ord_of_def)

lemma token_urlsafe_chars: "c \<in> set (token_urlsafe bs) \<Longrightarrow> graphic c"
  by (induction bs rule: token_urlsafe.induct) (auto simp: b64_graphic)

lemma token_hex_Nil [simp]: "token_hex bs = [] \<longleftrightarrow> bs = []"
  by (cases bs) simp_all

lemma token_urlsafe_Nil [simp]: "token_urlsafe bs = [] \<longleftrightarrow> bs = []"
  by (cases bs rule: token_urlsafe.cases) simp_all

lemma parse_token:
  assumes "ids \<noteq> []" "bs \<noteq> []"
  shows "parse_authorization_header (Some (''Bearer '' @ TOKEN_PREFIX @ token_hex ids @ ''_'' @ token_urlsafe bs)) =
    Some (token_hex ids, token_urlsafe bs)"
proof -
  let ?t = "TOKEN_PREFIX @ token_hex ids @ ''_'' @ token_urlsafe bs"
  have "\<not> py_space c" if "c \<in> set ?t" for c
  proof -
    have "graphic c" using that token_hex_chars token_urlsafe_chars by (auto simp: TOKEN_PREFIX_def graphic_def ord_of_def)
    then show ?thesis by (rule graphic_not_space)
  qed
  then have s: "py_strip ?t = ?t" by (rule py_strip_id)
  have n: "c \<noteq> CHR ''_''" if "c \<in> set (token_hex ids)" for c using that token_hex_chars by blast
  have tw: "takeWhile (\<lambda>c. c \<noteq> CHR ''_'') (token_hex ids @ ''_'' @ x) = token_hex ids"
    and dw: "dropWhile (\<lambda>c. c \<noteq> CHR ''_'') (token_hex ids @ ''_'' @ x) = ''_'' @ x" for x
    using n by (simp_all add: takeWhile_append2 dropWhile_append2)
  show ?thesis unfolding parse_authorization_header_def using s tw dw assms
    by (simp add: TOKEN_PREFIX_def Let_def)
qed

section \<open>What a request changes\<close>

definition keys_sound :: "key_db \<Rightarrow> bool" where
  "keys_sound db \<longleftrightarrow> distinct (map k_id (kd_keys db)) \<and> (\<forall>user. live_key_count user db \<le> MAX_KEYS_PER_ACCOUNT)"

definition revokes :: "string \<Rightarrow> string \<Rightarrow> key_request \<Rightarrow> bool" where
  "revokes user key_id r = (case r of Revoke up u i _ \<Rightarrow> up \<and> u = user \<and> i = key_id | _ \<Rightarrow> False)"

lemma find_map_same:
  "(\<And>x. P (f x) = P x) \<Longrightarrow> find P (map f xs) = map_option f (find P xs)"
  by (induction xs) auto

lemma find_update_key:
  "(\<And>k. k_id (f k) = k_id k) \<Longrightarrow> find_key i (update_key j f db) = map_option (\<lambda>k. if k_id k = j then f k else k) (find_key i db)"
  by (simp add: find_key_def update_key_def find_map_same)

lemma find_append: "find P (xs @ ys) = (case find P xs of None \<Rightarrow> find P ys | r \<Rightarrow> r)"
  by (induction xs) auto

lemma find_key_Some: "find_key i db = Some k \<Longrightarrow> k_id k = i \<and> k \<in> set (kd_keys db)"
  unfolding find_key_def find_Some_iff by (metis nth_mem)

lemma find_key_None: "find_key i db = None \<longleftrightarrow> i \<notin> k_id ` set (kd_keys db)"
  by (auto simp: find_key_def find_None_iff)

lemma owned_key:
  assumes "distinct (map k_id (kd_keys db))"
  shows "get_owned_key user i db =
    (if user = [] \<or> i = [] then None
     else case find_key i db of None \<Rightarrow> None | Some k \<Rightarrow> if k_user k = user then Some k else None)"
proof -
  have "find (\<lambda>k. k_user k = user \<and> k_id k = i) ks =
      (case find (\<lambda>k. k_id k = i) ks of None \<Rightarrow> None | Some k \<Rightarrow> if k_user k = user then Some k else None)"
    if "distinct (map k_id ks)" for ks :: "api_key list"
    using that
  proof (induction ks)
    case (Cons k ks)
    then show ?case by (auto simp: find_None_iff split: option.split dest!: find_Some_iff [THEN iffD1])
  qed simp
  then show ?thesis using assms by (simp add: get_owned_key_def find_key_def)
qed

lemma free_id_fresh: "free_id db ids = Some i \<Longrightarrow> i \<in> set ids \<and> find_key i db = None"
  by (induction ids) (auto split: if_splits)

lemma create_cases:
  assumes "create_api_key sha256 up built user raw e now db = (res, db')"
  obtains x where "res = Inl x" "db' = db"
  | row b where "res = Inr \<lparr>ck_payload = to_payload row,
        ck_key = TOKEN_PREFIX @ k_id row @ ''_'' @ token_urlsafe (en_secret e)\<rparr>"
      "db' = db\<lparr>kd_keys := kd_keys db @ [row]\<rparr>" "k_user row = user" "user \<noteq> []" "b \<in> set (en_ids e)"
      "k_id row = token_hex b" "find_key (k_id row) db = None" "k_revoked row = None" "k_last_used row = None"
      "digest sha256 (k_salt row) (token_urlsafe (en_secret e)) = Inr (k_hash row)"
      "live_key_count user db < MAX_KEYS_PER_ACCOUNT" "user \<in> u_id ` set (kd_users db)" "k_name row = py_strip raw"
      "k_salt row = token_hex (en_salt e)"
proof (cases res)
  case (Inl x)
  then show ?thesis using assms that(1)
    by (auto simp: create_api_key_def mint_def Let_def split: sum.splits if_splits option.splits prod.splits)
next
  case (Inr body)
  then obtain row token where m: "mint sha256 user (py_strip raw) e now db = (Inr (row, token), db')"
      and b: "body = \<lparr>ck_payload = to_payload row, ck_key = token\<rparr>" "live_key_count user db < MAX_KEYS_PER_ACCOUNT"
    using assms by (auto simp: create_api_key_def clean_name_def split: sum.splits if_splits prod.splits)
  then obtain key_id where i: "free_id db (map token_hex (en_ids e)) = Some key_id"
    by (auto simp: mint_def split: if_splits option.splits)
  note f = free_id_fresh [OF i]
  then obtain bs where bs: "bs \<in> set (en_ids e)" "key_id = token_hex bs" by auto
  show ?thesis using m i b Inr f bs
    by (intro that(2) [of row bs]) (auto simp: mint_def Let_def list_ex_iff split: if_splits sum.splits)
qed

lemma users_kept: "kd_users (key_step sha256 db r) = kd_users db"
proof (cases r)
  case (Create up built user raw e now)
  obtain res db' where c: "create_api_key sha256 up built user raw e now db = (res, db')" by fastforce
  then show ?thesis by (cases rule: create_cases) (simp_all add: Create c)
qed (auto simp: revoke_api_key_def revoke_key_def update_key_def resolve_api_key_user_def touch_last_used_def
      split: option.splits sum.splits prod.splits)

lemma users_kept_run [simp]: "kd_users (run (key_step sha256) db rs) = kd_users db"
  by (induction rs arbitrary: db) (simp_all add: users_kept)

lemma revoke_other:
  assumes "distinct (map k_id (kd_keys db))" "find_key i db = Some k" "\<not> (up \<and> user = k_user k \<and> j = i)"
  shows "find_key i (snd (revoke_api_key up user j now db)) = Some k"
proof (cases "get_owned_key user j db")
  case None
  then show ?thesis using assms(2) by (simp add: revoke_api_key_def)
next
  case (Some k2)
  then have k2: "find_key j db = Some k2" "k_user k2 = user"
    using owned_key [OF assms(1), of user j] by (auto split: if_splits option.splits)
  have "k_id k = i" using find_key_Some [OF assms(2)] by simp
  moreover have "k_id k2 = j" using find_key_Some [OF k2(1)] by simp
  moreover have "\<not> up \<or> j \<noteq> i" using k2 assms(2,3) by auto
  ultimately show ?thesis using Some assms(2)
    by (auto simp: revoke_api_key_def revoke_key_def find_update_key)
qed

lemma step_key:
  assumes "distinct (map k_id (kd_keys db))" "find_key i db = Some k" "i \<noteq> []" "k_user k \<noteq> []"
  shows "\<exists>k'. find_key i (key_step sha256 db r) = Some k' \<and> k_user k' = k_user k \<and> k_salt k' = k_salt k \<and>
    k_hash k' = k_hash k \<and> (k_revoked k' = None \<longleftrightarrow> k_revoked k = None \<and> \<not> revokes (k_user k) i r)"
proof (cases r)
  case (Create up built user raw e now)
  obtain res db' where c: "create_api_key sha256 up built user raw e now db = (res, db')" by fastforce
  then show ?thesis
  proof (cases rule: create_cases)
    case (2 row b)
    then show ?thesis using assms(2) c Create by (simp add: find_key_def find_append revokes_def)
  qed (use assms(2) c Create in \<open>simp add: revokes_def\<close>)
next
  case (Revoke up user j now)
  note o = owned_key [OF assms(1), of user j]
  show ?thesis
  proof (cases "up \<and> user = k_user k \<and> j = i")
    case True
    then show ?thesis using assms Revoke o find_key_Some [OF assms(2)]
      by (auto simp: revoke_api_key_def revoke_key_def find_update_key revokes_def)
  next
    case False
    have "find_key i (key_step sha256 db r) = Some k"
      unfolding Revoke key_step.simps using assms(1,2) False by (rule revoke_other)
    then show ?thesis using False Revoke by (auto simp: revokes_def)
  qed
next
  case (Present up now header)
  then show ?thesis using assms
    by (auto simp: resolve_api_key_user_def touch_last_used_def find_update_key revokes_def
        split: option.splits sum.splits prod.splits)
qed

lemma live_update_key:
  assumes "\<And>k. live_key user (f k) \<Longrightarrow> live_key user k"
  shows "live_key_count user (update_key j f db) \<le> live_key_count user db"
proof -
  have "length (filter (live_key user) (map (\<lambda>k. if k_id k = j then f k else k) ks)) \<le> length (filter (live_key user) ks)"
    for ks :: "api_key list"
    using assms by (induction ks) auto
  then show ?thesis by (simp add: live_key_count_def update_key_def)
qed

lemma sound_update_key:
  assumes "keys_sound db" "\<And>k. k_id (f k) = k_id k" "\<And>user k. live_key user (f k) \<Longrightarrow> live_key user k"
  shows "keys_sound (update_key j f db)"
proof -
  have "map k_id (kd_keys (update_key j f db)) = map k_id (kd_keys db)" by (simp add: update_key_def assms(2))
  then show ?thesis using assms(1) live_update_key [OF assms(3)] unfolding keys_sound_def by (metis order_trans)
qed

lemma sound_step:
  assumes "keys_sound db"
  shows "keys_sound (key_step sha256 db r)"
proof (cases r)
  case (Create up built user raw e now)
  obtain res db' where c: "create_api_key sha256 up built user raw e now db = (res, db')" by fastforce
  then show ?thesis
  proof (cases rule: create_cases)
    case (2 row b)
    then show ?thesis using assms
      by (auto simp: Create c keys_sound_def find_key_None live_key_count_def live_key_def MAX_KEYS_PER_ACCOUNT_def)
  qed (simp add: Create c assms)
next
  case (Revoke up user j now)
  have "keys_sound (revoke_key now k db)" for k
    unfolding revoke_key_def using assms by (auto intro!: sound_update_key simp: live_key_def)
  then show ?thesis using assms by (auto simp: Revoke revoke_api_key_def split: option.splits)
next
  case (Present up now header)
  have "keys_sound (snd (touch_last_used now k db))" for k
    unfolding touch_last_used_def using assms by (auto intro!: sound_update_key simp: live_key_def)
  then show ?thesis using assms
    by (auto simp: Present resolve_api_key_user_def split: option.splits sum.splits)
qed

interpretation keys: step_invariant "key_step sha256" keys_sound for sha256
  by unfold_locales (rule sound_step)

lemma run_key:
  assumes "keys_sound db" "find_key i db = Some k" "i \<noteq> []" "k_user k \<noteq> []"
  shows "\<exists>k'. find_key i (run (key_step sha256) db rs) = Some k' \<and> k_user k' = k_user k \<and> k_salt k' = k_salt k \<and>
    k_hash k' = k_hash k \<and> (k_revoked k' = None \<longleftrightarrow> k_revoked k = None \<and> \<not> list_ex (revokes (k_user k) i) rs)"
  using assms
proof (induction rs arbitrary: db k)
  case (Cons r rs)
  have "distinct (map k_id (kd_keys db))" using Cons.prems(1) by (simp add: keys_sound_def)
  then obtain k1 where k1: "find_key i (key_step sha256 db r) = Some k1" "k_user k1 = k_user k" "k_salt k1 = k_salt k"
      "k_hash k1 = k_hash k" "k_revoked k1 = None \<longleftrightarrow> k_revoked k = None \<and> \<not> revokes (k_user k) i r"
    using step_key Cons.prems(2-4) by metis
  then show ?case using Cons.IH [OF sound_step [OF Cons.prems(1)] k1(1) Cons.prems(3)] Cons.prems(4) by auto
qed simp

section \<open>What a token is worth\<close>

text \<open>
  However requests follow one another, no account ever holds more than 25 live keys, and no two keys share their
  identifier.
\<close>

theorem live_keys_bounded:
  "live_key_count user (run (key_step sha256) \<lparr>kd_keys = [], kd_users = users\<rparr> rs) \<le> 25 \<and>
   distinct (map k_id (kd_keys (run (key_step sha256) \<lparr>kd_keys = [], kd_users = users\<rparr> rs)))"
proof -
  have "keys_sound \<lparr>kd_keys = [], kd_users = users\<rparr>" by (simp add: keys_sound_def live_key_count_def)
  then have "keys_sound (run (key_step sha256) \<lparr>kd_keys = [], kd_users = users\<rparr> rs)" by (rule keys.run_keeps)
  then show ?thesis by (simp add: keys_sound_def MAX_KEYS_PER_ACCOUNT_def)
qed

text \<open>
  C10: After any requests that follow its creation, the token of a key authenticates the account that created it, and
  nobody once that account has revoked it; requests of other accounts make no difference.
\<close>

theorem minted_token_lifecycle:
  assumes "keys_sound db" "drawn e" "create_api_key sha256 up built user raw e now db = (Inr body, db')"
    and "find (\<lambda>a. u_id a = user) (kd_users db) = Some account"
  shows "fst (resolve_api_key_user sha256 True t (Some (''Bearer '' @ ck_key body)) (run (key_step sha256) db' rs)) =
    (if list_ex (revokes user (kp_id (ck_payload body))) rs then None else Some (account_of account))"
  using assms(3)
proof (cases rule: create_cases)
  case (2 row b)
  have b: "b \<noteq> []" "en_secret e \<noteq> []" using 2(5) assms(2) by (auto simp: drawn_def list_all_iff)
  have s: "keys_sound db'" using sound_step [OF assms(1), of sha256 "Create up built user raw e now"] assms(3) by simp
  have f: "find_key (k_id row) db' = Some row" using 2(2,7) by (simp add: find_key_def find_append)
  obtain k where k: "find_key (k_id row) (run (key_step sha256) db' rs) = Some k" "k_user k = user" "k_salt k = k_salt row"
      "k_hash k = k_hash row" "k_revoked k = None \<longleftrightarrow> \<not> list_ex (revokes user (k_id row)) rs"
    using run_key [OF s f, of sha256 rs] 2(3,4,6,8) b(1) by auto
  have "ck_key body = TOKEN_PREFIX @ token_hex b @ ''_'' @ token_urlsafe (en_secret e)"
    and i: "kp_id (ck_payload body) = k_id row" using 2(1,6) by (simp_all add: to_payload_def)
  then have p: "parse_authorization_header (Some (''Bearer '' @ ck_key body)) = Some (k_id row, token_urlsafe (en_secret e))"
    using parse_token [OF b] 2(6) by simp
  have u: "kd_users (run (key_step sha256) db' rs) = kd_users db" using 2(2) by simp
  show ?thesis using 2(6,10) b k assms(4) p u i
    by (auto simp: resolve_api_key_user_def verify_def split: if_splits)
qed simp

definition sample_entropy :: entropy where
  "sample_entropy = \<lparr>en_ids = replicate 5 ''archimed'', en_secret = replicate 32 CHR ''s'', en_salt = replicate 16 CHR ''t''\<rparr>"

definition sample_users :: "auth_user list" where
  "sample_users = [\<lparr>u_id = ''ada'', u_name = Some ''Ada'', u_email = ''ada@x.org'', u_verified = True, u_image = None\<rparr>]"

definition sample_token :: string where
  "sample_token = TOKEN_PREFIX @ token_hex ''archimed'' @ ''_'' @ token_urlsafe (replicate 32 CHR ''s'')"

lemma sample_created:
  "\<exists>body db'. create_api_key (\<lambda>x. x) True True ''ada'' ''ci'' sample_entropy 5 \<lparr>kd_keys = [], kd_users = sample_users\<rparr> = (Inr body, db') \<and>
     ck_key body = sample_token \<and> kp_id (ck_payload body) = token_hex ''archimed''"
proof -
  have "clean_name ''ci'' = Inr ''ci''" by code_simp
  moreover have "free_id \<lparr>kd_keys = [], kd_users = sample_users\<rparr> (map token_hex (en_ids sample_entropy)) = Some (token_hex ''archimed'')"
    by code_simp
  ultimately show ?thesis
    by (simp add: create_api_key_def mint_def Let_def digest_def fromhex_token_hex live_key_count_def MAX_KEYS_PER_ACCOUNT_def
        sample_users_def sample_token_def sample_entropy_def to_payload_def)
qed

lemma minted_token_lifecycle_witness:
  "\<exists>body db'. create_api_key (\<lambda>x. x) True True ''ada'' ''ci'' sample_entropy 5 \<lparr>kd_keys = [], kd_users = sample_users\<rparr> = (Inr body, db') \<and>
     fst (resolve_api_key_user (\<lambda>x. x) True 9 (Some (''Bearer '' @ ck_key body))
       (run (key_step (\<lambda>x. x)) db' [Revoke True ''eve'' (kp_id (ck_payload body)) 6])) =
     Some \<lparr>cu_id = ''ada'', cu_name = ''Ada'', cu_email = ''ada@x.org'', cu_verified = True, cu_image = None\<rparr>"
proof -
  have s: "keys_sound \<lparr>kd_keys = [], kd_users = sample_users\<rparr>" by (simp add: keys_sound_def live_key_count_def)
  have d: "drawn sample_entropy" by (simp add: drawn_def sample_entropy_def list_all_iff)
  obtain body db' where c: "create_api_key (\<lambda>x. x) True True ''ada'' ''ci'' sample_entropy 5 \<lparr>kd_keys = [], kd_users = sample_users\<rparr> = (Inr body, db')"
    using sample_created by blast
  from minted_token_lifecycle [OF s d c, of "hd sample_users" 9 "[Revoke True ''eve'' (kp_id (ck_payload body)) 6]"]
  show ?thesis using c by (simp add: sample_users_def revokes_def account_of_def)
qed

definition minted_by :: "(string \<Rightarrow> string) \<Rightarrow> key_request list \<Rightarrow> api_key \<Rightarrow> bool" where
  "minted_by sha256 rs k \<longleftrightarrow>
     (\<exists>up built raw e now b. Create up built (k_user k) raw e now \<in> set rs \<and> b \<in> set (en_ids e) \<and> k_id k = token_hex b \<and>
        k_salt k = token_hex (en_salt e) \<and> digest sha256 (k_salt k) (token_urlsafe (en_secret e)) = Inr (k_hash k))"

lemma minted_by_more: "minted_by sha256 rs k \<Longrightarrow> minted_by sha256 (r # rs) k"
  unfolding minted_by_def by fastforce

lemma minted_by_same:
  "k_id k' = k_id k \<Longrightarrow> k_user k' = k_user k \<Longrightarrow> k_salt k' = k_salt k \<Longrightarrow> k_hash k' = k_hash k \<Longrightarrow>
   minted_by sha256 rs k' = minted_by sha256 rs k"
  by (simp add: minted_by_def)

lemma minted_update:
  assumes "\<forall>k \<in> set (kd_keys db). minted_by sha256 rs k"
    and "\<And>k. k_id (f k) = k_id k \<and> k_user (f k) = k_user k \<and> k_salt (f k) = k_salt k \<and> k_hash (f k) = k_hash k"
  shows "\<forall>k \<in> set (kd_keys (update_key j f db)). minted_by sha256 rs k"
proof
  fix k assume "k \<in> set (kd_keys (update_key j f db))"
  then obtain k0 where "k0 \<in> set (kd_keys db)" "k = k0 \<or> k = f k0" by (auto simp: update_key_def)
  then show "minted_by sha256 rs k" using assms minted_by_same [of "f k0" k0 sha256 rs] by auto
qed

lemma minted_step:
  assumes "\<forall>k \<in> set (kd_keys db). minted_by sha256 rs k"
  shows "\<forall>k \<in> set (kd_keys (key_step sha256 db r)). minted_by sha256 (rs @ [r]) k"
proof -
  have old: "\<forall>k \<in> set (kd_keys db). minted_by sha256 (rs @ [r]) k" using assms by (fastforce simp: minted_by_def)
  show ?thesis
  proof (cases r)
    case (Create up built user raw e now)
    obtain res db' where c: "create_api_key sha256 up built user raw e now db = (res, db')" by fastforce
    then show ?thesis
    proof (cases rule: create_cases)
      case (2 row b)
      have "minted_by sha256 (rs @ [r]) row"
        unfolding minted_by_def Create
        by (intro exI [of _ up] exI [of _ built] exI [of _ raw] exI [of _ e] exI [of _ now] exI [of _ b])
          (use 2(3,5,6,10,14) in simp)
      then show ?thesis using old 2(2) by (simp add: Create c)
    qed (use old in \<open>simp add: Create c\<close>)
  next
    case (Revoke up user j now)
    have "\<forall>k \<in> set (kd_keys (revoke_key now k0 db)). minted_by sha256 (rs @ [r]) k" for k0
      using old minted_update [OF old, of "k_revoked_update (\<lambda>_. Some now)"] by (simp add: revoke_key_def)
    then show ?thesis using old by (auto simp: Revoke revoke_api_key_def split: option.splits)
  next
    case (Present up now header)
    have "\<forall>k \<in> set (kd_keys (snd (touch_last_used now k0 db))). minted_by sha256 (rs @ [r]) k" for k0
      using old minted_update [OF old, of "k_last_used_update (\<lambda>_. Some now)"] by (simp add: touch_last_used_def)
    then show ?thesis using old by (auto simp: Present resolve_api_key_user_def split: option.splits sum.splits)
  qed
qed

lemma minted_run:
  "\<forall>k \<in> set (kd_keys (run (key_step sha256) \<lparr>kd_keys = [], kd_users = users\<rparr> rs)). minted_by sha256 rs k"
proof (induction rs rule: rev_induct)
  case (snoc r rs)
  then show ?case using minted_step [OF snoc] by simp
qed simp

lemma token_hex_inj: "token_hex a = token_hex b \<Longrightarrow> a = b"
  by (metis fromhex_token_hex option.inject)

text \<open>
  C33: Whatever requests were made, a header authenticates an account only if that account created a key whose identifier
  the header names and whose secret hashes, under the salt of the key, as the one presented.
\<close>

theorem accepted_token_was_minted:
  assumes "fst (resolve_api_key_user sha256 up t header (run (key_step sha256) \<lparr>kd_keys = [], kd_users = users\<rparr> rs)) = Some cu"
  shows "\<exists>up built raw e now b secret. Create up built (cu_id cu) raw e now \<in> set rs \<and> b \<in> set (en_ids e) \<and>
    parse_authorization_header header = Some (token_hex b, secret) \<and>
    sha256 (en_salt e @ utf8 secret) = sha256 (en_salt e @ utf8 (token_urlsafe (en_secret e)))"
proof -
  let ?db = "run (key_step sha256) \<lparr>kd_keys = [], kd_users = users\<rparr> rs"
  obtain i secret k a where p: "parse_authorization_header header = Some (i, secret)" and k: "find_key i ?db = Some k"
      and d: "digest sha256 (k_salt k) secret = Inr (k_hash k)" and a: "find (\<lambda>a. u_id a = k_user k) (kd_users ?db) = Some a"
      and cu: "cu = account_of a"
    using assms by (auto simp: resolve_api_key_user_def verify_def split: option.splits sum.splits if_splits)
  have "k \<in> set (kd_keys ?db)" and id: "k_id k = i" using find_key_Some [OF k] by auto
  then obtain up built raw e now b where m: "Create up built (k_user k) raw e now \<in> set rs" "b \<in> set (en_ids e)"
      "k_id k = token_hex b" "k_salt k = token_hex (en_salt e)"
      "digest sha256 (k_salt k) (token_urlsafe (en_secret e)) = Inr (k_hash k)"
    using minted_run unfolding minted_by_def by blast
  have "token_hex (sha256 (en_salt e @ utf8 secret)) = token_hex (sha256 (en_salt e @ utf8 (token_urlsafe (en_secret e))))"
    using m(4,5) d by (simp add: digest_def fromhex_token_hex)
  then have "sha256 (en_salt e @ utf8 secret) = sha256 (en_salt e @ utf8 (token_urlsafe (en_secret e)))" by (rule token_hex_inj)
  moreover have "cu_id cu = k_user k" using a unfolding find_Some_iff cu account_of_def by auto
  ultimately show ?thesis using m(1-3) p id by metis
qed

lemma accepted_token_was_minted_witness:
  "\<exists>cu. fst (resolve_api_key_user (\<lambda>x. x) True 9 (Some (''Bearer '' @ sample_token))
     (run (key_step (\<lambda>x. x)) \<lparr>kd_keys = [], kd_users = sample_users\<rparr> [Create True True ''ada'' ''ci'' sample_entropy 5])) = Some cu \<and>
   cu_id cu = ''ada''"
proof -
  let ?rs = "[Create True True ''ada'' ''ci'' sample_entropy 5]"
  have "fst (resolve_api_key_user (\<lambda>x. x) True 9 (Some (''Bearer '' @ sample_token))
      (run (key_step (\<lambda>x. x)) \<lparr>kd_keys = [], kd_users = sample_users\<rparr> ?rs)) = Some (account_of (hd sample_users))"
    by code_simp
  from accepted_token_was_minted [OF this] this show ?thesis by (auto simp: sample_users_def account_of_def)
qed

end
