(* ===== verification/RpcBackoff.thy ===== *)
theory RpcBackoff
  imports StrategyDsl
begin

text \<open>
  The backoff of the chain client when its endpoint throttles it: \<^verbatim>\<open>chain/rate_limit.py\<close> and the request loop of
  \<^verbatim>\<open>chain/client.py\<close> under the deadline of \<^verbatim>\<open>deadline.py\<close>.

  Times are seconds, the differences and sums that the code takes of them are rounded as doubles.  What the
  environment does (answers, how long they take, draws of the jitter, sleeps that last longer) is an argument, one
  record for each attempt.  Reading a number or a date from a header is an argument.
\<close>

section \<open>The state of the backoff\<close>

definition HTTP_TOO_MANY_REQUESTS :: int where
  "HTTP_TOO_MANY_REQUESTS = 429"

definition DEFAULT_BASE_BACKOFF_SECONDS :: rat where
  "DEFAULT_BASE_BACKOFF_SECONDS = 1 / 4"

definition DEFAULT_MAX_BACKOFF_SECONDS :: rat where
  "DEFAULT_MAX_BACKOFF_SECONDS = 4"

definition MIN_BACKOFF_SECONDS :: rat where
  "MIN_BACKOFF_SECONDS = fl (1 / 100)"

definition MAX_DOUBLINGS :: nat where
  "MAX_DOUBLINGS = 32"

record backoff =
  rb_base :: rat
  rb_max :: rat
  rb_consecutive :: nat
  rb_cooldown_until :: rat

definition new_backoff :: "rat \<Rightarrow> rat \<Rightarrow> backoff" where
  "new_backoff base_seconds max_seconds =
     \<lparr>rb_base = base_seconds, rb_max = max_seconds, rb_consecutive = 0, rb_cooldown_until = 0\<rparr>"

definition cooldown_left :: "rat \<Rightarrow> backoff \<Rightarrow> rat" where
  "cooldown_left clock b = max 0 (fl (rb_cooldown_until b - clock))"

definition note_rate_limited :: "rat \<Rightarrow> rat \<Rightarrow> rat option \<Rightarrow> backoff \<Rightarrow> rat \<times> backoff" where
  "note_rate_limited clock jitter retry_after b =
     (let n = Suc (rb_consecutive b);
          delay = (case retry_after of
                     Some r \<Rightarrow> fl (r + fl (jitter * rb_base b))
                   | None \<Rightarrow> fl (jitter * min (rb_max b) (fl (rb_base b * 2 ^ min (n - 1) MAX_DOUBLINGS))));
          delay' = max MIN_BACKOFF_SECONDS delay
      in (delay', b\<lparr>rb_consecutive := n, rb_cooldown_until := fl (clock + delay')\<rparr>))"

definition note_success :: "backoff \<Rightarrow> backoff" where
  "note_success b = b\<lparr>rb_consecutive := 0, rb_cooldown_until := 0\<rparr>"

section \<open>Retry-After\<close>

text \<open>\<open>None\<close> of the header is its absence; an empty one under the first spelling falls to the second.\<close>

definition retry_after_seconds ::
  "(string \<Rightarrow> float_val option) \<Rightarrow> (string \<Rightarrow> rat option) \<Rightarrow> rat \<Rightarrow> (string \<times> string) list option \<Rightarrow> rat option" where
  "retry_after_seconds to_float http_date wall headers =
     (case headers of
        None \<Rightarrow> None
      | Some hs \<Rightarrow>
          (case (if truthy (map_of hs ''Retry-After'') then map_of hs ''Retry-After'' else map_of hs ''retry-after'') of
             None \<Rightarrow> None
           | Some raw \<Rightarrow>
               let s = py_strip raw
               in case to_float s of
                    Some (Finite seconds) \<Rightarrow> Some (max 0 seconds)
                  | Some _ \<Rightarrow> None
                  | None \<Rightarrow> (case http_date s of None \<Rightarrow> None | Some instant \<Rightarrow> Some (max 0 (fl (instant - wall))))))"

section \<open>One call\<close>

datatype rpc_error =
    Rpc_rate_limited
  | Client_response_error int
  | Timeout_error
  | Client_error exn

datatype 'v answer =
    Completed 'v
  | Status int "(string \<times> string) list option"
  | Broken exn

record 'v rpc_attempt =
  at_answer :: "'v answer"
  at_duration :: rat
  at_jitter :: rat
  at_wall :: rat
  at_oversleep :: rat

text \<open>What the module and the provider keep: the backoff and the number of abandoned calls still in flight.\<close>

record rpc_state =
  rs_backoff :: backoff
  rs_abandoned :: nat
  rs_closed :: bool

text \<open>\<^verbatim>\<open>run_with_deadline\<close>: a call that does not answer in time is cancelled and left behind.\<close>

definition run_with_deadline :: "rat \<Rightarrow> rat \<Rightarrow> 'v rpc_attempt \<Rightarrow> rpc_state \<Rightarrow> 'v answer option \<times> rat \<times> rpc_state" where
  "run_with_deadline clock timeout a s =
     (if at_duration a \<le> timeout then (Some (at_answer a), clock + at_duration a, s)
      else (None, clock + timeout, s\<lparr>rs_abandoned := rs_abandoned s + 1\<rparr>))"

text \<open>
  The loop from one attempt to the next.  The result is absent when the listed attempts are used up, which is a call
  still under way.
\<close>

fun request_loop ::
  "(string \<Rightarrow> float_val option) \<Rightarrow> (string \<Rightarrow> rat option) \<Rightarrow> rat \<Rightarrow> rat \<Rightarrow> 'v rpc_attempt list \<Rightarrow> rpc_state \<Rightarrow>
   (rpc_error + 'v) option \<times> rat \<times> rpc_state" where
  "request_loop to_float http_date deadline clock [] s = (None, clock, s)"
| "request_loop to_float http_date deadline clock (a # as) s =
     (case run_with_deadline clock (max 0 (fl (deadline - clock))) a s of
        (None, clock', s') \<Rightarrow> (Some (Inl Timeout_error), clock', s')
      | (Some (Broken e), clock', s') \<Rightarrow> (Some (Inl (Client_error e)), clock', s')
      | (Some (Completed v), clock', s') \<Rightarrow> (Some (Inr v), clock', s'\<lparr>rs_backoff := note_success (rs_backoff s')\<rparr>)
      | (Some (Status status headers), clock', s') \<Rightarrow>
          if status \<noteq> HTTP_TOO_MANY_REQUESTS then (Some (Inl (Client_response_error status)), clock', s')
          else
            (case note_rate_limited clock' (at_jitter a) (retry_after_seconds to_float http_date (at_wall a) headers) (rs_backoff s') of
               (delay, b) \<Rightarrow>
                 if fl (deadline - clock') \<le> delay
                 then (Some (Inl (Client_response_error status)), clock', s'\<lparr>rs_backoff := b\<rparr>)
                 else request_loop to_float http_date deadline (clock' + delay + at_oversleep a) as (s'\<lparr>rs_backoff := b\<rparr>)))"

definition request_backing_off_on_429 ::
  "(string \<Rightarrow> float_val option) \<Rightarrow> (string \<Rightarrow> rat option) \<Rightarrow> rat \<Rightarrow> rat \<Rightarrow> 'v rpc_attempt list \<Rightarrow> rpc_state \<Rightarrow>
   (rpc_error + 'v) option \<times> rat \<times> rpc_state" where
  "request_backing_off_on_429 to_float http_date total_budget clock as s =
     (if 0 < cooldown_left clock (rs_backoff s) then (Some (Inl Rpc_rate_limited), clock, s)
      else request_loop to_float http_date (fl (clock + total_budget)) clock as s)"

section \<open>Shutdown\<close>

text \<open>\<open>ended\<close>: how many of the abandoned calls end while the drain waits.\<close>

definition drain_abandoned :: "nat \<Rightarrow> rpc_state \<Rightarrow> nat \<times> rpc_state" where
  "drain_abandoned ended s = (rs_abandoned s - ended, s\<lparr>rs_abandoned := rs_abandoned s - ended\<rparr>)"

definition disconnect :: "nat \<Rightarrow> rpc_state \<Rightarrow> rpc_state" where
  "disconnect ended s = (case drain_abandoned ended s of (left, s') \<Rightarrow> if 0 < left then s' else s'\<lparr>rs_closed := True\<rparr>)"

section \<open>What a throttled call does\<close>

lemma min_backoff: "1 / 128 \<le> MIN_BACKOFF_SECONDS" "fl MIN_BACKOFF_SECONDS = MIN_BACKOFF_SECONDS" "fl (1 / 128) = 1 / 128"
proof -
  have p: "of_int 1 * 2 powi (- 7) = (1 / 128 :: rat)" by (simp add: power_int_def power_divide)
  show e: "fl (1 / 128) = 1 / 128" unfolding p [symmetric] by (rule fl_exact) simp_all
  show "1 / 128 \<le> MIN_BACKOFF_SECONDS" unfolding MIN_BACKOFF_SECONDS_def using fl_mono [of "1 / 128" "1 / 100"] e by simp
  show "fl MIN_BACKOFF_SECONDS = MIN_BACKOFF_SECONDS" by (simp add: MIN_BACKOFF_SECONDS_def fl_idem)
qed

text \<open>
  C34: Whatever is drawn, the delay after a throttled request is at least ten milliseconds and at least what the endpoint
  asked for, and it exceeds that by at most the base; without an instruction it stays within the configured ceiling.
  The cooldown that others see ends when the delay does.
\<close>

theorem backoff_bounds:
  assumes "0 \<le> jitter" "jitter < 1" "0 \<le> rb_base b" "is_double (rb_base b)" "is_double (rb_max b)"
    and "is_double (case retry_after of Some r \<Rightarrow> r | None \<Rightarrow> 0)"
  shows "case note_rate_limited clock jitter retry_after b of (delay, b') \<Rightarrow>
    fl (1 / 100) \<le> delay \<and> rb_cooldown_until b' = fl (clock + delay) \<and> rb_consecutive b' = Suc (rb_consecutive b) \<and>
    (case retry_after of
       Some r \<Rightarrow> r \<le> delay \<and> delay \<le> max (fl (1 / 100)) (fl (r + rb_base b))
     | None \<Rightarrow> delay \<le> max (fl (1 / 100)) (rb_max b))"
proof (cases retry_after)
  case None
  let ?w = "min (rb_max b) (fl (rb_base b * 2 ^ min (rb_consecutive b) MAX_DOUBLINGS))"
  have w: "fl (jitter * ?w) \<le> max 0 (rb_max b)"
  proof (rule dbl.rd_le)
    show "fl (max 0 (rb_max b)) = max 0 (rb_max b)" using assms(5) by (simp add: is_double_def max_def)
    show "jitter * ?w \<le> max 0 (rb_max b)"
    proof (cases "0 \<le> ?w")
      case True
      then show ?thesis using assms(1,2) mult_right_mono [of jitter 1 ?w] by linarith
    next
      case False
      then show ?thesis using assms(1) mult_nonneg_nonpos [of jitter ?w] by linarith
    qed
  qed
  have "0 < fl (1 / 100)" using min_backoff(1) by (simp add: MIN_BACKOFF_SECONDS_def)
  then show ?thesis using w by (auto simp: None note_rate_limited_def Let_def MIN_BACKOFF_SECONDS_def)
next
  case (Some r)
  have j: "0 \<le> fl (jitter * rb_base b)" using assms by (simp add: fl_sign)
  have b: "fl (jitter * rb_base b) \<le> rb_base b"
    using assms by (intro dbl.rd_le) (simp_all add: is_double_def mult_left_le_one_le)
  have "r \<le> fl (r + fl (jitter * rb_base b))" using assms(6) j Some by (intro dbl.rd_ge) (simp_all add: is_double_def)
  moreover have "fl (r + fl (jitter * rb_base b)) \<le> fl (r + rb_base b)" using b by (intro fl_mono) simp
  ultimately show ?thesis by (auto simp: Some note_rate_limited_def Let_def MIN_BACKOFF_SECONDS_def)
qed

lemma delay_least: "note_rate_limited clock jitter r b = (delay, b') \<Longrightarrow> 1 / 128 \<le> delay"
  using min_backoff(1) by (auto simp: note_rate_limited_def Let_def)

lemma loop_ends:
  assumes "list_all (\<lambda>a. 0 \<le> at_duration a \<and> 0 \<le> at_oversleep a) as"
    and "128 * max 0 (deadline - clock) + 1 \<le> of_nat (length as)"
  shows "fst (request_loop to_float http_date deadline clock as s) \<noteq> None"
  using assms
proof (induction to_float http_date deadline clock as s rule: request_loop.induct)
  case (1 to_float http_date deadline clock s)
  have "0 \<le> max 0 (deadline - clock)" by simp
  then show ?case using 1(2) by (simp add: max_def split: if_splits)
next
  case (2 to_float http_date deadline clock a as s)
  obtain ans clock' s' where r: "run_with_deadline clock (max 0 (fl (deadline - clock))) a s = (ans, clock', s')"
    by (cases "run_with_deadline clock (max 0 (fl (deadline - clock))) a s") auto
  show ?case
  proof (cases "\<exists>headers. ans = Some (Status HTTP_TOO_MANY_REQUESTS headers)")
    case True
    then obtain headers where ans: "ans = Some (Status HTTP_TOO_MANY_REQUESTS headers)" by blast
    obtain delay b where n: "note_rate_limited clock' (at_jitter a) (retry_after_seconds to_float http_date (at_wall a) headers) (rs_backoff s') = (delay, b)"
      by (cases "note_rate_limited clock' (at_jitter a) (retry_after_seconds to_float http_date (at_wall a) headers) (rs_backoff s')") auto
    show ?thesis
    proof (cases "fl (deadline - clock') \<le> delay")
      case True
      then show ?thesis by (simp add: r ans n)
    next
      case False
      let ?next = "clock' + delay + at_oversleep a"
      have "clock \<le> clock'" using r 2(2) by (auto simp: run_with_deadline_def split: if_splits)
      then have later: "clock + 1 / 128 \<le> ?next" using delay_least [OF n] 2(2) by simp
      have "1 / 128 < deadline - clock'"
      proof (rule ccontr)
        assume "\<not> 1 / 128 < deadline - clock'"
        then have "fl (deadline - clock') \<le> 1 / 128" by (intro dbl.rd_le) (simp_all add: min_backoff(3))
        then show False using False delay_least [OF n] by linarith
      qed
      then have "128 * max 0 (deadline - ?next) + 1 \<le> 128 * max 0 (deadline - clock)"
        using later \<open>clock \<le> clock'\<close> by (simp add: max_def)
      then have "128 * max 0 (deadline - ?next) + 1 \<le> of_nat (length as)" using 2(3) by simp
      then show ?thesis using 2(1) [OF r [symmetric] ans refl refl _ n [symmetric] False] 2(2) False n r ans by simp
    qed
  next
    case False
    then show ?thesis by (auto simp: r split: option.splits answer.splits)
  qed
qed

text \<open>Rounding exceeds a number by at most one unit in its last place.\<close>

lemma fl_above:
  assumes "0 \<le> x"
  shows "fl x \<le> x + max 1 x / 2 ^ 52"
proof (cases "x = 0")
  case True
  then show ?thesis by (simp add: fl_def)
next
  case False
  let ?e = "ulp_exp x"
  have x: "0 < x" using False assms by simp
  have "(of_int (rne (x / 2 powi ?e)) :: rat) \<le> x / 2 powi ?e + 1"
    using rne_bounds(2) [of "x / 2 powi ?e"] of_int_floor_le [of "x / 2 powi ?e"] by linarith
  then have "of_int (rne (x / 2 powi ?e)) * 2 powi ?e \<le> (x / 2 powi ?e + 1) * 2 powi ?e" by (intro mult_right_mono) simp_all
  then have le: "fl x \<le> x + 2 powi ?e" using False by (simp add: fl_def Let_def distrib_right)
  have p: "(2 :: rat) powi (k - 52) = 2 powi k / 2 ^ 52" for k by (simp add: power_int_diff)
  have "2 powi ?e \<le> max 1 x / 2 ^ 52"
  proof (cases "- 1022 \<le> ilog2 x")
    case True
    then have "(2 :: rat) powi ?e = 2 powi ilog2 x / 2 ^ 52" using x by (simp add: ulp_exp_def p)
    then show ?thesis using ilog2_bounds(1) [OF x] by (simp add: divide_right_mono le_max_iff_disj)
  next
    case False
    then have "(2 :: rat) powi ?e = 2 powi (- 1022) / 2 ^ 52" using x by (simp add: ulp_exp_def flip: p)
    also have "(2 :: rat) powi (- 1022) \<le> 2 powi 0" by (rule power_int_increasing) simp_all
    finally show ?thesis by (simp add: divide_right_mono le_max_iff_disj)
  qed
  then show ?thesis using le by linarith
qed

lemma deadline_left:
  assumes "start \<le> clock" "clock \<le> deadline"
  shows "clock + fl (deadline - clock) \<le> deadline + max 1 (deadline - start) / 2 ^ 52"
proof -
  have "fl (deadline - clock) \<le> deadline - clock + max 1 (deadline - clock) / 2 ^ 52"
    using assms(2) by (intro fl_above) simp
  moreover have "max 1 (deadline - clock) / 2 ^ 52 \<le> max 1 (deadline - start) / 2 ^ 52"
    using assms(1) by (intro divide_right_mono max.mono) simp_all
  ultimately show ?thesis by linarith
qed

text \<open>The latest moment at which a call that began at \<open>start\<close> may end, when no sleep lasts longer than asked by more than \<open>late\<close>.\<close>

definition latest_end :: "rat \<Rightarrow> rat \<Rightarrow> rat \<Rightarrow> rat" where
  "latest_end late deadline start = max start deadline + late + max 1 (deadline - start) / 2 ^ 52"

lemma loop_in_time:
  assumes "list_all (\<lambda>a. 0 \<le> at_duration a \<and> 0 \<le> at_oversleep a \<and> at_oversleep a \<le> late) as"
    and "0 \<le> late" "start \<le> clock" "clock \<le> latest_end late deadline start"
    and "request_loop to_float http_date deadline clock as s = (res, ended, s')"
  shows "clock \<le> ended \<and> ended \<le> latest_end late deadline start"
  using assms
proof (induction to_float http_date deadline clock as s rule: request_loop.induct)
  case (2 to_float http_date deadline clock a as s)
  let ?M = "latest_end late deadline start"
  have eps: "0 \<le> max 1 (deadline - start) / 2 ^ 52" by simp
  obtain ans clock' s1 where r: "run_with_deadline clock (max 0 (fl (deadline - clock))) a s = (ans, clock', s1)"
    by (cases "run_with_deadline clock (max 0 (fl (deadline - clock))) a s") auto
  have up: "clock \<le> clock'" "clock' \<le> clock + max 0 (fl (deadline - clock))"
    using r 2(2) by (auto simp: run_with_deadline_def split: if_splits)
  have here: "clock' \<le> ?M"
  proof (cases "clock \<le> deadline")
    case True
    have "0 \<le> fl (deadline - clock)" using True by (intro fl_sign) simp
    then show ?thesis using deadline_left [OF 2(4) True] up(2) 2(3) unfolding latest_end_def by linarith
  next
    case False
    then have "fl (deadline - clock) \<le> 0" using dbl.rd_nonpos [of "deadline - clock"] by simp
    then show ?thesis using up(2) 2(5) by (simp add: max_def split: if_splits)
  qed
  show ?case
  proof (cases "\<exists>headers. ans = Some (Status HTTP_TOO_MANY_REQUESTS headers)")
    case True
    then obtain headers where ans: "ans = Some (Status HTTP_TOO_MANY_REQUESTS headers)" by blast
    obtain delay b where n: "note_rate_limited clock' (at_jitter a) (retry_after_seconds to_float http_date (at_wall a) headers) (rs_backoff s1) = (delay, b)"
      by (cases "note_rate_limited clock' (at_jitter a) (retry_after_seconds to_float http_date (at_wall a) headers) (rs_backoff s1)") auto
    show ?thesis
    proof (cases "fl (deadline - clock') \<le> delay")
      case True
      then show ?thesis using 2(6) here up by (simp add: r ans n)
    next
      case False
      let ?next = "clock' + delay + at_oversleep a"
      have d: "0 < delay" using delay_least [OF n] by simp
      then have "clock' \<le> deadline" using False dbl.rd_pos_imp [of "deadline - clock'"] by linarith
      then have "?next \<le> ?M" using deadline_left [of start clock' deadline] False up 2(2,4) unfolding latest_end_def by simp
      moreover have "request_loop to_float http_date deadline ?next as (s1\<lparr>rs_backoff := b\<rparr>) = (res, ended, s')"
        using 2(6) False by (simp add: r ans n)
      moreover have "clock' \<le> ?next" "start \<le> ?next" using d 2(2,4) up by simp_all
      ultimately have "?next \<le> ended \<and> ended \<le> ?M"
        using 2(1) [OF r [symmetric] ans refl refl _ n [symmetric] False] 2(2,3) by simp
      then show ?thesis using up \<open>clock' \<le> ?next\<close> by linarith
    qed
  next
    case False
    then show ?thesis using 2(6) here up by (auto simp: r split: option.splits answer.splits)
  qed
qed simp

text \<open>
  C11: A call to a throttling endpoint ends, and it ends within its budget: whatever the endpoint answers and however
  long it takes, the call is over by its deadline, except for the last sleep when the loop wakes it up late and for the
  rounding of the differences of the clock.  At most 128 attempts for each second of budget are made.
\<close>

theorem request_ends:
  assumes "list_all (\<lambda>a. 0 \<le> at_duration a \<and> 0 \<le> at_oversleep a \<and> at_oversleep a \<le> late) as" and "0 \<le> late"
    and "128 * max 0 (fl (clock + total_budget) - clock) + 1 \<le> of_nat (length as)"
  shows "case request_backing_off_on_429 to_float http_date total_budget clock as s of (res, ended, s') \<Rightarrow>
    res \<noteq> None \<and> clock \<le> ended \<and>
    ended \<le> max clock (fl (clock + total_budget)) + late + max 1 (fl (clock + total_budget) - clock) / 2 ^ 52"
proof (cases "0 < cooldown_left clock (rs_backoff s)")
  case True
  have "0 \<le> max 1 (fl (clock + total_budget) - clock) / 2 ^ 52" by simp
  then have "clock \<le> max clock (fl (clock + total_budget)) + late + max 1 (fl (clock + total_budget) - clock) / 2 ^ 52"
    using assms(2) by linarith
  then show ?thesis using True by (simp add: request_backing_off_on_429_def)
next
  case False
  let ?deadline = "fl (clock + total_budget)"
  obtain res ended s' where r: "request_loop to_float http_date ?deadline clock as s = (res, ended, s')"
    by (cases "request_loop to_float http_date ?deadline clock as s") auto
  have "0 \<le> max 1 (?deadline - clock) / 2 ^ 52" by simp
  then have "clock \<le> latest_end late ?deadline clock" using assms(2) unfolding latest_end_def by linarith
  from loop_in_time [OF assms(1,2) order_refl this r] have "clock \<le> ended" "ended \<le> latest_end late ?deadline clock" by simp_all
  moreover have "list_all (\<lambda>a. 0 \<le> at_duration a \<and> 0 \<le> at_oversleep a) as" using assms(1) by (simp add: list_all_iff)
  from loop_ends [OF this assms(3)] have "res \<noteq> None" using r by (metis fst_conv)
  ultimately show ?thesis using False r by (simp add: request_backing_off_on_429_def latest_end_def)
qed

definition throttled :: "unit rpc_attempt" where
  "throttled = \<lparr>at_answer = Status 429 None, at_duration = 1 / 8, at_jitter = 0, at_wall = 0, at_oversleep = 0\<rparr>"

lemma request_ends_witness:
  "case request_backing_off_on_429 (\<lambda>_. None) (\<lambda>_. None) 1 0 (replicate 129 throttled)
     \<lparr>rs_backoff = new_backoff (1 / 4) 4, rs_abandoned = 0, rs_closed = False\<rparr> of (res, ended, s') \<Rightarrow>
     res \<noteq> None \<and> 0 \<le> ended \<and> ended \<le> 1 + 1 / 2 ^ 52"
proof -
  have one: "fl (0 + 1) = 1" using fl_exact [of 1 0] by simp
  show ?thesis
    using request_ends [of 0 "replicate 129 throttled" 0 1 "\<lambda>_. None" "\<lambda>_. None"
        "\<lparr>rs_backoff = new_backoff (1 / 4) 4, rs_abandoned = 0, rs_closed = False\<rparr>"]
    unfolding one by (simp add: throttled_def list_all_iff)
qed

lemma backoff_bounds_witness:
  "case note_rate_limited 10 (1 / 2) (Some 1) (new_backoff 1 1) of (delay, b') \<Rightarrow> 1 \<le> delay \<and> delay \<le> max (fl (1 / 100)) (fl 2)"
  using backoff_bounds [of "1 / 2" "new_backoff 1 1" "Some 1" 10] by (simp add: new_backoff_def is_double_def split: prod.splits)

text \<open>What an answer does to the count of refusals in a row.\<close>

lemma loop_count:
  "case request_loop to_float http_date deadline clock as s of
     (Some (Inr _), _, s') \<Rightarrow> rb_consecutive (rs_backoff s') = 0 \<and> rb_cooldown_until (rs_backoff s') = 0
   | (_, _, s') \<Rightarrow> rb_consecutive (rs_backoff s) \<le> rb_consecutive (rs_backoff s')"
proof (induction to_float http_date deadline clock as s rule: request_loop.induct)
  case (2 to_float http_date deadline clock a as s)
  obtain ans clock' s' where r: "run_with_deadline clock (max 0 (fl (deadline - clock))) a s = (ans, clock', s')"
    by (cases "run_with_deadline clock (max 0 (fl (deadline - clock))) a s") auto
  then have b: "rs_backoff s' = rs_backoff s" by (auto simp: run_with_deadline_def split: if_splits)
  show ?case
  proof (cases "\<exists>headers. ans = Some (Status HTTP_TOO_MANY_REQUESTS headers)")
    case True
    then obtain headers where ans: "ans = Some (Status HTTP_TOO_MANY_REQUESTS headers)" by blast
    obtain delay b' where n: "note_rate_limited clock' (at_jitter a) (retry_after_seconds to_float http_date (at_wall a) headers) (rs_backoff s') = (delay, b')"
      by (cases "note_rate_limited clock' (at_jitter a) (retry_after_seconds to_float http_date (at_wall a) headers) (rs_backoff s')") auto
    then have c: "rb_consecutive b' = Suc (rb_consecutive (rs_backoff s))" using b by (auto simp: note_rate_limited_def Let_def)
    show ?thesis
    proof (cases "fl (deadline - clock') \<le> delay")
      case False
      show ?thesis using 2 [OF r [symmetric] ans refl refl _ n [symmetric] False] c False
        by (auto simp: r ans n split: option.splits sum.splits)
    qed (simp add: r ans n c)
  next
    case False
    then show ?thesis using b by (auto simp: r note_success_def split: option.splits answer.splits)
  qed
qed simp

text \<open>
  Only a completed response clears the backoff: after any other end of a call (a refusal, a timeout, a transport
  error, a call not sent) the count of refusals in a row is at least what it was.
\<close>

theorem only_success_clears:
  "case request_backing_off_on_429 to_float http_date total_budget clock as s of
     (Some (Inr _), _, s') \<Rightarrow> rb_consecutive (rs_backoff s') = 0 \<and> rb_cooldown_until (rs_backoff s') = 0
   | (_, _, s') \<Rightarrow> rb_consecutive (rs_backoff s) \<le> rb_consecutive (rs_backoff s')"
  using loop_count [where to_float = to_float and http_date = http_date and clock = clock and as = as and s = s
      and deadline = "fl (clock + total_budget)"] by (simp add: request_backing_off_on_429_def)

lemma disconnect_closes_when_drained:
  "rs_closed (disconnect ended s) \<longleftrightarrow> rs_closed s \<or> rs_abandoned (disconnect ended s) = 0"
  by (simp add: disconnect_def drain_abandoned_def)

end
