(* ===== verification/CardParity.thy ===== *)
theory CardParity
  imports StrategyDsl
begin

text \<open>
  The card fields that a validated specification determines, \<^verbatim>\<open>services/passport_spec_parity.py\<close>.

  A stored card is what the columns of the row hold.  A specification that the validator rejects, by whatever
  exception, determines nothing.  The process remembers the strategies it has logged.
\<close>

record card =
  cd_asset_universe :: "string list option"
  cd_rebalance_frequency :: "string option"
  cd_position_sizing :: "string option"

definition SPEC_DERIVED_CARD_FIELDS :: "string list" where
  "SPEC_DERIVED_CARD_FIELDS = [''asset_universe'', ''rebalance_frequency'', ''position_sizing'']"

definition LOGGED_DISAGREEMENTS_CAP :: nat where
  "LOGGED_DISAGREEMENTS_CAP = 50000"

text \<open>\<^verbatim>\<open>str(position_sizing.get("type"))\<close>; the type of a validated specification is a text.\<close>

definition sizing_type :: "(string \<times> pyval) list \<Rightarrow> string" where
  "sizing_type ps = (case field_of ps ''type'' of PStr s \<Rightarrow> s | _ \<Rightarrow> ''None'')"

definition card_fields_from_spec :: "pyval \<Rightarrow> card option" where
  "card_fields_from_spec spec =
     (case spec of
        PDict d \<Rightarrow>
          if d = [] then None
          else (case validate_strategy_spec spec of
                  Inl _ \<Rightarrow> None
                | Inr s \<Rightarrow> Some \<lparr>cd_asset_universe = Some (sp_asset_universe s),
                              cd_rebalance_frequency = Some (sp_rebalance_frequency s),
                              cd_position_sizing = Some (sizing_type (sp_position_sizing s))\<rparr>)
      | _ \<Rightarrow> None)"

definition shown_text :: "string option \<Rightarrow> string" where
  "shown_text v = (case v of None \<Rightarrow> ''None'' | Some s \<Rightarrow> s)"

definition same_list :: "string list option \<Rightarrow> string list option \<Rightarrow> bool" where
  "same_list stored derived \<longleftrightarrow> (case stored of None \<Rightarrow> [] | Some xs \<Rightarrow> xs) = (case derived of None \<Rightarrow> [] | Some ys \<Rightarrow> ys)"

definition same_text :: "string option \<Rightarrow> string option \<Rightarrow> bool" where
  "same_text stored derived \<longleftrightarrow> shown_text stored = shown_text derived"

definition disagreements :: "card \<Rightarrow> card \<Rightarrow> string list" where
  "disagreements stored derived =
     map fst (filter (\<lambda>(_, same). \<not> same)
       (zip SPEC_DERIVED_CARD_FIELDS
          [same_list (cd_asset_universe stored) (cd_asset_universe derived),
           same_text (cd_rebalance_frequency stored) (cd_rebalance_frequency derived),
           same_text (cd_position_sizing stored) (cd_position_sizing derived)]))"

definition memo_key :: "string \<Rightarrow> string" where
  "memo_key strategy_id = (if strategy_id = [] then ''<unknown>'' else strategy_id)"

definition first_time_for :: "string \<Rightarrow> string list \<Rightarrow> bool \<times> string list" where
  "first_time_for strategy_id logged =
     (let k = memo_key strategy_id
      in if k \<in> set logged then (False, logged)
         else (True, k # (if LOGGED_DISAGREEMENTS_CAP \<le> length logged then [] else logged)))"

text \<open>The fields served, the line logged if any (the strategy and the fields that differed), and the memo.\<close>

definition reconcile_card_fields :: "string \<Rightarrow> pyval \<Rightarrow> card \<Rightarrow> string list \<Rightarrow> card \<times> (string \<times> string list) option \<times> string list" where
  "reconcile_card_fields strategy_id spec stored logged =
     (case card_fields_from_spec spec of
        None \<Rightarrow> (stored, None, logged)
      | Some derived \<Rightarrow>
          if disagreements stored derived = [] then (derived, None, logged)
          else (case first_time_for strategy_id logged of
                  (first, logged') \<Rightarrow>
                    (derived, if first then Some (memo_key strategy_id, disagreements stored derived) else None, logged')))"

fun read_cards :: "(string \<times> pyval \<times> card) list \<Rightarrow> string list \<Rightarrow> (card \<times> (string \<times> string list) option) list \<times> string list" where
  "read_cards [] logged = ([], logged)"
| "read_cards ((i, spec, stored) # reads) logged =
     (case reconcile_card_fields i spec stored logged of
        (served, line, logged') \<Rightarrow> (case read_cards reads logged' of (rest, logged'') \<Rightarrow> ((served, line) # rest, logged'')))"

section \<open>What is served and what is logged\<close>

lemma reconcile_served:
  "fst (reconcile_card_fields i spec stored logged) = (case card_fields_from_spec spec of None \<Rightarrow> stored | Some derived \<Rightarrow> derived)"
  by (auto simp: reconcile_card_fields_def split: option.splits prod.splits)

lemma reconcile_logged:
  assumes "reconcile_card_fields i spec stored logged = (served, line, logged')" "distinct logged" "length logged \<le> LOGGED_DISAGREEMENTS_CAP"
  shows "distinct logged' \<and> length logged' \<le> LOGGED_DISAGREEMENTS_CAP"
    and "line = None \<Longrightarrow> logged' = logged"
    and "line = Some (k, fs) \<Longrightarrow> k \<notin> set logged \<and> k = memo_key i \<and> fs \<noteq> [] \<and>
      logged' = k # (if LOGGED_DISAGREEMENTS_CAP \<le> length logged then [] else logged)"
  using assms
  by (auto simp: reconcile_card_fields_def first_time_for_def Let_def LOGGED_DISAGREEMENTS_CAP_def
      split: option.splits if_splits)

definition lines :: "(card \<times> (string \<times> string list) option) list \<Rightarrow> string list" where
  "lines reads = concat (map (\<lambda>(_, line). case line of None \<Rightarrow> [] | Some (k, _) \<Rightarrow> [k]) reads)"

lemma lines_simps [simp]:
  "lines [] = []" "lines ((c, None) # rs) = lines rs" "lines ((c, Some (k, f)) # rs) = k # lines rs"
  by (simp_all add: lines_def)

lemma read_cards_memo:
  assumes "read_cards reads logged = (out, logged')" "distinct logged" "length logged \<le> LOGGED_DISAGREEMENTS_CAP"
  shows "distinct logged' \<and> length logged' \<le> LOGGED_DISAGREEMENTS_CAP \<and>
    (length logged + length (lines out) \<le> LOGGED_DISAGREEMENTS_CAP \<longrightarrow> distinct (lines out) \<and> set logged \<inter> set (lines out) = {})"
  using assms
proof (induction reads logged arbitrary: out rule: read_cards.induct)
  case (2 i spec stored reads logged)
  obtain served line logged1 where 1: "reconcile_card_fields i spec stored logged = (served, line, logged1)"
    by (cases "reconcile_card_fields i spec stored logged") auto
  obtain rest where r: "read_cards reads logged1 = (rest, logged')" "out = (served, line) # rest"
    using 2(2) 1 by (auto split: prod.splits)
  note l = reconcile_logged [OF 1 2(3,4)]
  have ih: "distinct logged' \<and> length logged' \<le> LOGGED_DISAGREEMENTS_CAP \<and>
      (length logged1 + length (lines rest) \<le> LOGGED_DISAGREEMENTS_CAP \<longrightarrow> distinct (lines rest) \<and> set logged1 \<inter> set (lines rest) = {})"
    using 2(1) [OF 1 [symmetric] refl r(1)] l(1) by simp
  show ?case
  proof (cases line)
    case None
    then show ?thesis using ih l(2) r(2) by simp
  next
    case (Some kf)
    obtain k fs where kf: "kf = (k, fs)" by fastforce
    note k = l(3) [of k fs]
    show ?thesis using ih k Some kf r(2) by (auto simp: not_le)
  qed
qed simp

text \<open>The card that shows what the document itself says, field by field.\<close>

definition shows_document :: "card \<Rightarrow> (string \<times> pyval) list \<Rightarrow> bool" where
  "shows_document c d \<longleftrightarrow>
     (case cd_asset_universe c of None \<Rightarrow> False | Some us \<Rightarrow> us \<noteq> [] \<and> field_of d ''asset_universe'' = PList (map PStr us)) \<and>
     (case cd_rebalance_frequency c of None \<Rightarrow> False | Some f \<Rightarrow> field_of d ''rebalance_frequency'' = PStr f) \<and>
     (case cd_position_sizing c of None \<Rightarrow> False
      | Some t \<Rightarrow> (case field_of d ''position_sizing'' of PDict ps \<Rightarrow> field_of ps ''type'' = PStr t | _ \<Rightarrow> False))"

lemma texts_kept: "texts vs = Some ss \<Longrightarrow> vs = map PStr ss"
  by (induction vs arbitrary: ss) (auto split: pyval.splits if_splits)

lemma validated_document:
  assumes "validate_strategy_spec spec = Inr s"
  obtains d where "spec = PDict d" "d \<noteq> []" "sp_asset_universe s \<noteq> []"
    "field_of d ''asset_universe'' = PList (map PStr (sp_asset_universe s))"
    "field_of d ''rebalance_frequency'' = PStr (sp_rebalance_frequency s)"
    "field_of d ''position_sizing'' = PDict (sp_position_sizing s)" "field_of (sp_position_sizing s) ''type'' = PStr (sizing_type (sp_position_sizing s))"
proof -
  obtain d where d: "spec = PDict d" "set REQUIRED_FIELDS \<subseteq> fst ` set d"
    using assms by (auto simp: validate_strategy_spec_def split: pyval.splits if_splits)
  have c: "check_universe (field_of d ''asset_universe'') = Inr (sp_asset_universe s)"
    "frequency_of (field_of d ''rebalance_frequency'') = Inr (sp_rebalance_frequency s)"
    "check_sizing (field_of d ''position_sizing'') = Inr (sp_position_sizing s)"
    using assms by (auto simp: d validate_strategy_spec_def and_then_Inr split: if_splits)
  show ?thesis
  proof (rule that [OF d(1)])
    show "d \<noteq> []" using d(2) by (auto simp: REQUIRED_FIELDS_def)
    show "sp_asset_universe s \<noteq> []" "field_of d ''asset_universe'' = PList (map PStr (sp_asset_universe s))"
      using c(1) by (auto simp: check_universe_def dest: texts_kept split: pyval.splits if_splits option.splits)
    show "field_of d ''rebalance_frequency'' = PStr (sp_rebalance_frequency s)"
      using c(2) by (auto simp: frequency_of_def split: pyval.splits if_splits)
    show "field_of d ''position_sizing'' = PDict (sp_position_sizing s)"
      "field_of (sp_position_sizing s) ''type'' = PStr (sizing_type (sp_position_sizing s))"
      using c(3) by (auto simp: check_sizing_def sizing_type_def split: pyval.splits option.splits if_splits)
  qed
qed

lemma derived_shows_document:
  "case validate_strategy_spec spec of
     Inl _ \<Rightarrow> card_fields_from_spec spec = None
   | Inr s \<Rightarrow> (case spec of PDict d \<Rightarrow> (case card_fields_from_spec spec of None \<Rightarrow> False | Some c \<Rightarrow> shows_document c d) | _ \<Rightarrow> False)"
proof (cases "validate_strategy_spec spec")
  case (Inl e)
  then show ?thesis by (auto simp: card_fields_from_spec_def split: pyval.splits)
next
  case (Inr s)
  then obtain d where "spec = PDict d" "d \<noteq> []" "sp_asset_universe s \<noteq> []"
    "field_of d ''asset_universe'' = PList (map PStr (sp_asset_universe s))"
    "field_of d ''rebalance_frequency'' = PStr (sp_rebalance_frequency s)"
    "field_of d ''position_sizing'' = PDict (sp_position_sizing s)"
    "field_of (sp_position_sizing s) ''type'' = PStr (sizing_type (sp_position_sizing s))"
    by (rule validated_document)
  with Inr show ?thesis by (simp add: card_fields_from_spec_def shows_document_def)
qed

lemma read_cards_served:
  "list_all2 (\<lambda>(_, spec, stored) (c, _).
     case validate_strategy_spec spec of
       Inl _ \<Rightarrow> c = stored
     | Inr _ \<Rightarrow> (case spec of PDict d \<Rightarrow> shows_document c d | _ \<Rightarrow> False)) reads (fst (read_cards reads logged))"
proof (induction reads logged rule: read_cards.induct)
  case (2 i spec stored reads logged)
  obtain served line logged' where r: "reconcile_card_fields i spec stored logged = (served, line, logged')"
    by (cases "reconcile_card_fields i spec stored logged") auto
  have "served = (case card_fields_from_spec spec of None \<Rightarrow> stored | Some derived \<Rightarrow> derived)"
    using reconcile_served [of i spec stored logged] r by simp
  then have "case validate_strategy_spec spec of Inl _ \<Rightarrow> served = stored
      | Inr _ \<Rightarrow> (case spec of PDict d \<Rightarrow> shows_document served d | _ \<Rightarrow> False)"
    using derived_shows_document [of spec] by (auto split: sum.splits pyval.splits option.splits)
  then show ?case using 2 [OF r [symmetric] refl] r by (cases "read_cards reads logged'") simp
qed simp

text \<open>
  C38: Whenever the stored specification validates, the card served says what that document says: its universe, its
  rebalance frequency and the type of its sizing; otherwise it is the stored card.  The memo of logged strategies never
  holds more than 50000, and until that many lines are logged no strategy is logged twice.
\<close>

theorem served_card_matches_spec:
  "case read_cards reads [] of (out, logged) \<Rightarrow>
     list_all2 (\<lambda>(_, spec, stored) (c, _).
       case validate_strategy_spec spec of
         Inl _ \<Rightarrow> c = stored
       | Inr _ \<Rightarrow> (case spec of PDict d \<Rightarrow> shows_document c d | _ \<Rightarrow> False)) reads out \<and>
     length logged \<le> 50000 \<and> (distinct (lines out) \<or> 50000 < length (lines out))"
proof -
  obtain out logged where r: "read_cards reads [] = (out, logged)" by fastforce
  show ?thesis using read_cards_memo [OF r] read_cards_served [of reads "[]"] r by (auto simp: LOGGED_DISAGREEMENTS_CAP_def)
qed

end
