(* ===== verification/RevenueSweep.thy ===== *)
theory RevenueSweep
  imports Complex_Main Payment
begin

text \<open>
  The sweep of the platform's own revenue, \<^verbatim>\<open>services/revenue_sweep.py\<close>: what the gateway holds for the recipient of
  generation payments, less the reserve for the fee, is withdrawn to its wallet.  The answers of the gateway are
  arguments; the state is the list of withdrawals that were handed to it.
\<close>

definition revenue_recipient :: "environ \<Rightarrow> string" where
  "revenue_recipient env = py_strip (getenv env ''GENERATION_PAYMENT_RECIPIENT'' [])"

definition revenue_wallet_id :: "environ \<Rightarrow> string" where
  "revenue_wallet_id env = py_strip (getenv env ''REVENUE_WALLET_ID'' [])"

definition DEFAULT_SWEEP_MIN :: dec where
  "DEFAULT_SWEEP_MIN = Fin False 100 (- 1)"

text \<open>A NaN parses, and comparing it with zero raises.\<close>

definition min_usdc :: "environ \<Rightarrow> dec res" where
  "min_usdc env =
     (let stripped = py_strip (getenv env ''REVENUE_SWEEP_MIN_USDC'' ''10.0'');
          raw = (if stripped = [] then ''10.0'' else stripped)
      in case dec_of_string raw of
           None \<Rightarrow> Inr DEFAULT_SWEEP_MIN
         | Some value \<Rightarrow>
             (case dec_not_pos value of
                Inl e \<Rightarrow> Inl e
              | Inr not_pos \<Rightarrow> Inr (if not_pos then DEFAULT_SWEEP_MIN else value)))"

text \<open>\<^verbatim>\<open>a < b\<close> of decimals, exact.\<close>

definition dec_rat :: "bool \<Rightarrow> nat \<Rightarrow> int \<Rightarrow> rat" where
  "dec_rat s c x = (if s then - 1 else 1) * of_nat c * 10 powi x"

fun dec_less :: "dec \<Rightarrow> dec \<Rightarrow> bool res" where
  "dec_less NaN _ = Inl InvalidOperation"
| "dec_less _ NaN = Inl InvalidOperation"
| "dec_less (Fin s c x) (Fin t d y) = Inr (dec_rat s c x < dec_rat t d y)"
| "dec_less (Inf s) (Inf t) = Inr (s \<and> \<not> t)"
| "dec_less (Inf s) (Fin _ _ _) = Inr s"
| "dec_less (Fin _ _ _) (Inf t) = Inr (\<not> t)"

record withdrawal =
  wd_recipient :: string
  wd_amount :: string
  wd_max_fee :: int

record revenue_io =
  ri_available :: "int res"
  ri_withdraw :: "string option res"

datatype sweep_outcome =
    Sweep_halted
  | Below_threshold
  | Nothing_left
  | Swept string string "string option"

definition revenue_client :: "environ \<Rightarrow> unit res" where
  "revenue_client env = (if revenue_recipient env = [] \<or> revenue_wallet_id env = [] then Inl RuntimeError else Inr ())"

definition check_revenue :: "environ \<Rightarrow> revenue_io \<Rightarrow> (string \<times> int \<times> dec) res" where
  "check_revenue env io =
     (case revenue_client env of
        Inl e \<Rightarrow> Inl e
      | Inr _ \<Rightarrow>
          (case ri_available io of
             Inl e \<Rightarrow> Inl e
           | Inr available \<Rightarrow> map_sum id (\<lambda>m. (revenue_recipient env, available, m)) (min_usdc env)))"

definition withdraw_revenue :: "environ \<Rightarrow> revenue_io \<Rightarrow> int \<Rightarrow> (withdrawal list, sweep_outcome) op" where
  "withdraw_revenue env io available ws =
     (case gateway_sweep_amount env available of
        Inl e \<Rightarrow> (if e = ValueError then Inr Nothing_left else Inl e, ws)
      | Inr (amount, fee_reserve_raw) \<Rightarrow>
          (case ri_withdraw io of
             Inl e \<Rightarrow> Inl e
           | Inr mint_tx \<Rightarrow> map_sum id (\<lambda>reserve. Swept amount reserve mint_tx) (format_usdc fee_reserve_raw),
           ws @ [\<lparr>wd_recipient = revenue_recipient env, wd_amount = amount, wd_max_fee = fee_reserve_raw\<rparr>]))"

definition sweep_revenue :: "environ \<Rightarrow> revenue_io \<Rightarrow> dec option \<Rightarrow> (withdrawal list, sweep_outcome) op" where
  "sweep_revenue env io override ws =
     (case (case override of Some m \<Rightarrow> Inr m | None \<Rightarrow> min_usdc env) of
        Inl e \<Rightarrow> (Inl e, ws)
      | Inr threshold \<Rightarrow>
          if payments_halted env then (Inr Sweep_halted, ws)
          else case revenue_client env of
                 Inl e \<Rightarrow> (Inl e, ws)
               | Inr _ \<Rightarrow>
                   (case ri_available io of
                      Inl e \<Rightarrow> (Inl e, ws)
                    | Inr raw \<Rightarrow>
                        (case dec_round (raw < 0) (nat \<bar>raw\<bar>) (- 6) of
                           Inl e \<Rightarrow> (Inl e, ws)
                         | Inr available \<Rightarrow>
                             (case dec_less available threshold of
                                Inl e \<Rightarrow> (Inl e, ws)
                              | Inr below \<Rightarrow> if below then (Inr Below_threshold, ws) else withdraw_revenue env io raw ws))))"

definition sweep_enabled :: "environ \<Rightarrow> bool" where
  "sweep_enabled env \<longleftrightarrow> py_lower (py_strip (getenv env ''REVENUE_SWEEP_ENABLED'' [])) = ''true''"

text \<open>One tick of the scheduler, which survives every exception, and the exit code of the command line.\<close>

definition revenue_tick :: "withdrawal list \<Rightarrow> environ \<times> revenue_io \<Rightarrow> withdrawal list" where
  "revenue_tick ws t = snd (sweep_revenue (fst t) (snd t) None ws)"

definition sweep_exit_code :: "sweep_outcome res \<Rightarrow> int" where
  "sweep_exit_code res = (case res of Inr (Swept _ _ _) \<Rightarrow> 0 | Inr Below_threshold \<Rightarrow> 0 | _ \<Rightarrow> 1)"

section \<open>What a sweep takes\<close>

lemma sweep_cases:
  assumes "sweep_revenue env io override ws = (res, ws')"
  obtains "ws' = ws"
  | w available reserve where "ws' = ws @ [w]" "\<not> payments_halted env" "revenue_recipient env \<noteq> []" "revenue_wallet_id env \<noteq> []"
      "ri_available io = Inr available" "gateway_fee_reserve_raw env = Inr reserve" "reserve < available"
      "format_usdc (available - reserve) = Inr (wd_amount w)" "wd_max_fee w = reserve"
  using assms
  by (auto simp: sweep_revenue_def withdraw_revenue_def revenue_client_def gateway_sweep_amount_def Let_def map_sum_def
      split: option.splits sum.splits if_splits prod.splits)

text \<open>
  A tick withdraws at most once, never while payments are halted, and at most what is available less the reserve for the
  fee.
\<close>

theorem revenue_tick_bounded:
  "if payments_halted (fst t) then revenue_tick ws t = ws
   else revenue_tick ws t = ws \<or>
     (\<exists>w available reserve. revenue_tick ws t = ws @ [w] \<and> ri_available (snd t) = Inr available \<and>
        gateway_fee_reserve_raw (fst t) = Inr reserve \<and> reserve < available \<and>
        format_usdc (available - reserve) = Inr (wd_amount w) \<and> wd_max_fee w = reserve)"
proof -
  obtain res ws' where s: "sweep_revenue (fst t) (snd t) None ws = (res, ws')" by fastforce
  then show ?thesis by (cases rule: sweep_cases) (auto simp: revenue_tick_def s)
qed

lemma halted_ticks_withdraw_nothing: "list_all (\<lambda>t. payments_halted (fst t)) ts \<Longrightarrow> run revenue_tick ws ts = ws"
  by (induction ts arbitrary: ws) (use revenue_tick_bounded in \<open>auto split: if_splits\<close>)

text \<open>A threshold that is not a number stops every tick, where other unreadable thresholds fall back to ten.\<close>

theorem nan_threshold_raises:
  "fst (sweep_revenue (\<lambda>v. if v = ''REVENUE_SWEEP_MIN_USDC'' then Some ''nan'' else None) io None ws) = Inl InvalidOperation"
proof -
  have "min_usdc (\<lambda>v. if v = ''REVENUE_SWEEP_MIN_USDC'' then Some ''nan'' else None) = Inl InvalidOperation" by code_simp
  then show ?thesis by (simp add: sweep_revenue_def)
qed

end
