(* ===== verification/VaultSizing.thy ===== *)
theory VaultSizing
  imports Sizing RigorGate
begin

text \<open>
  Sizing a vault at setup: \<^verbatim>\<open>services/strategy_sizer.py\<close>, \<open>KellyRegimePortfolioConstructor\<close> of
  \<^verbatim>\<open>services/portfolio_constructor.py\<close> with caller-supplied weights, and the route \<open>derive_vault_allocations\<close> of
  \<^verbatim>\<open>api/vaults_routes.py\<close>.

  The strategies that the provider lists, their signals and their verdicts on the strictness ladder are arguments.
\<close>

section \<open>Kelly sizing\<close>

definition RISK_AVERSION :: "(string \<times> rat) list" where
  "RISK_AVERSION = [(''fixed_income'', 12), (''conservative'', 6), (''moderate'', 3), (''aggressive'', 2), (''hyper_risky'', 3 / 2)]"

definition HALF_KELLY_GAMMA :: rat where
  "HALF_KELLY_GAMMA = 2"

definition kelly_multiplier :: "string \<Rightarrow> rat" where
  "kelly_multiplier risk_profile =
     (let gamma = (case map_of RISK_AVERSION risk_profile of Some g \<Rightarrow> g | None \<Rightarrow> 3)
      in min (fl (HALF_KELLY_GAMMA / gamma)) 1)"

record vault_strategy =
  vs_id :: string
  vs_passes_rigor_gate :: bool
  vs_kelly_fraction :: "rat option"

definition sizeable :: "string set option \<Rightarrow> vault_strategy \<Rightarrow> bool" where
  "sizeable deployable_ids s = (case deployable_ids of None \<Rightarrow> vs_passes_rigor_gate s | Some ids \<Rightarrow> vs_id s \<in> ids)"

definition sized_fraction :: "rat \<Rightarrow> string set option \<Rightarrow> vault_strategy \<Rightarrow> rat" where
  "sized_fraction mult deployable_ids s =
     (if \<not> sizeable deployable_ids s then 0
      else case vs_kelly_fraction s of None \<Rightarrow> 0 | Some kelly \<Rightarrow> py_round 6 (fl (max kelly 0 * mult)))"

definition size_strategies :: "vault_strategy list \<Rightarrow> string \<Rightarrow> string set option \<Rightarrow> (string \<times> rat) list" where
  "size_strategies strategies risk_profile deployable_ids =
     fold (\<lambda>s d. AList.update (vs_id s) (sized_fraction (kelly_multiplier risk_profile) deployable_ids s) d) strategies []"

definition scale_to_budget :: "(string \<times> rat) list \<Rightarrow> rat \<Rightarrow> (string \<times> rat) list" where
  "scale_to_budget fractions budget =
     (let total = py_sum (map snd fractions)
      in if total \<le> 0 \<or> total \<le> budget then fractions
         else map (\<lambda>(k, v). (k, py_round 6 (fl (v * fl (budget / total))))) fractions)"

definition add_weight :: "string \<Rightarrow> rat \<Rightarrow> weights \<Rightarrow> weights" where
  "add_weight asset v w = AList.update asset (fl ((case map_of w asset of None \<Rightarrow> 0 | Some x \<Rightarrow> x) + v)) w"

definition positive_votes :: "strategy_signals \<Rightarrow> asset_signal list" where
  "positive_votes ss = filter (\<lambda>sig. 0 < sg_weight sig) (ss_signals ss)"

definition vote_strategy :: "(string \<times> rat) list \<Rightarrow> strategy_signals \<Rightarrow> weights \<Rightarrow> weights" where
  "vote_strategy sized ss w =
     (let frac = (case map_of sized (ss_strategy_id ss) of None \<Rightarrow> 0 | Some f \<Rightarrow> f)
      in if frac \<le> 0 then w
         else
           let total_vote = py_sum (map sg_weight (positive_votes ss));
               vote_scale = (if 1 < total_vote then fl (1 / total_vote) else 1)
           in if total_vote \<le> 0 then w
              else fold (\<lambda>sig. add_weight (sg_asset sig) (fl (fl (frac * sg_weight sig) * vote_scale))) (positive_votes ss) w)"

definition kelly_weighted_allocations :: "strategy_signals list \<Rightarrow> (string \<times> rat) list \<Rightarrow> rat \<Rightarrow> weights" where
  "kelly_weighted_allocations all_signals sized_fractions usdc_floor =
     (let sized = scale_to_budget sized_fractions (fl (1 - usdc_floor));
          w = map (\<lambda>(k, v). (k, py_round 4 v)) (fold (vote_strategy sized) all_signals []);
          synth_total = py_sum (map snd w)
      in sort_key fst (AList.update ''USDC'' (py_round 4 (max (fl (1 - synth_total)) 0)) w))"

section \<open>The constructor\<close>

definition kelly_position_scale :: "regime_classification option \<Rightarrow> ensemble_consensus option \<Rightarrow> rat" where
  "kelly_position_scale reg con = (case reg of None \<Rightarrow> 1 | Some _ \<Rightarrow> compute_position_scale reg con)"

definition kelly_construct :: "regime_classification option \<Rightarrow> ensemble_consensus option \<Rightarrow> weights \<Rightarrow> weights" where
  "kelly_construct reg con base_weights =
     (let scale = kelly_position_scale reg con
      in if scale = 1 then base_weights else shrink_to_safe_asset base_weights scale)"

section \<open>The route\<close>

record allocation =
  al_symbol :: string
  al_token_address :: string
  al_weight_bps :: int

record chain_settings =
  ch_usdc_address :: string
  ch_synth_addresses :: "(string \<times> string) list"

record allocations_request =
  ar_strategy_ids :: "string list"
  ar_usdc_floor_pct :: rat
  ar_risk_profile :: string
  ar_strictness_level :: int

record allocations_response =
  av_allocations :: "allocation list"
  av_total_bps :: int
  av_strategy_count :: nat
  av_sized :: "(string \<times> rat) list"
  av_excluded :: "string list"

definition total_bps :: "allocation list \<Rightarrow> int" where
  "total_bps allocs = sum_list (map al_weight_bps allocs)"

text \<open>Without strategies the budget is spread evenly; the first ones get the remainder.\<close>

definition spread_evenly :: "chain_settings \<Rightarrow> rat \<Rightarrow> allocation list" where
  "spread_evenly ch usdc_floor_pct =
     (let usdc_floor_bps = py_trunc (fl (usdc_floor_pct * 100));
          synth_budget_bps = 10000 - usdc_floor_bps;
          synth = filter (\<lambda>(_, addr). addr \<noteq> []) (ch_synth_addresses ch);
          per_synth = synth_budget_bps div int (max (length synth) 1);
          remainder = synth_budget_bps - per_synth * int (length synth)
      in map (\<lambda>(i, (symbol, addr)). \<lparr>al_symbol = symbol, al_token_address = addr,
                 al_weight_bps = per_synth + (if int i < remainder then 1 else 0)\<rparr>) (enumerate 0 synth) @
         [\<lparr>al_symbol = ''USDC'', al_token_address = ch_usdc_address ch, al_weight_bps = usdc_floor_bps\<rparr>])"

definition symbol_to_addr :: "chain_settings \<Rightarrow> string \<Rightarrow> string option" where
  "symbol_to_addr ch symbol =
     (case map_of (ch_synth_addresses ch) symbol of
        Some a \<Rightarrow> Some a
      | None \<Rightarrow> if symbol = ''USDC'' then Some (ch_usdc_address ch) else None)"

definition in_bps :: "chain_settings \<Rightarrow> weights \<Rightarrow> allocation list" where
  "in_bps ch target_weights =
     concat (map (\<lambda>(symbol, w).
       if truthy (symbol_to_addr ch symbol) \<and> 0 < rne (fl (w * 10000))
       then [\<lparr>al_symbol = symbol, al_token_address = or_empty (symbol_to_addr ch symbol), al_weight_bps = rne (fl (w * 10000))\<rparr>]
       else []) target_weights)"

text \<open>\<^verbatim>\<open>max(allocations, key=...)\<close>: the first of the largest.\<close>

fun bump_first :: "int \<Rightarrow> int \<Rightarrow> allocation list \<Rightarrow> allocation list" where
  "bump_first m d [] = []"
| "bump_first m d (a # as) =
     (if al_weight_bps a = m then a\<lparr>al_weight_bps := al_weight_bps a + d\<rparr> # as else a # bump_first m d as)"

definition to_10000 :: "allocation list \<Rightarrow> allocation list" where
  "to_10000 allocs =
     (let total = total_bps allocs
      in if 0 < total \<and> total \<noteq> 10000
         then
           let scaled = filter (\<lambda>a. 0 < al_weight_bps a)
                 (map (\<lambda>a. a\<lparr>al_weight_bps := rne (fl (of_int (al_weight_bps a) * fl (10000 / of_int total)))\<rparr>) allocs);
               total' = total_bps scaled
           in if total' \<noteq> 10000 \<and> scaled \<noteq> []
              then bump_first (Max (set (map al_weight_bps scaled))) (10000 - total') scaled else scaled
         else allocs)"

definition deployable_at :: "(string \<Rightarrow> bool \<times> int option) \<Rightarrow> int \<Rightarrow> string list \<Rightarrow> string set" where
  "deployable_at levels lvl ids =
     {i \<in> set ids. fst (levels i) \<and> (case snd (levels i) of None \<Rightarrow> False | Some ml \<Rightarrow> ml \<le> lvl)}"

definition deployable_ids_of :: "(string \<Rightarrow> bool \<times> int option) \<Rightarrow> allocations_request \<Rightarrow> vault_strategy list \<Rightarrow> string set option" where
  "deployable_ids_of levels req strategies =
     (let lvl = clamp_level (Level_int (ar_strictness_level req))
      in if STRICTEST_LEVEL < lvl then Some (deployable_at levels lvl (map vs_id strategies)) else None)"

definition selected :: "allocations_request \<Rightarrow> vault_strategy list \<Rightarrow> vault_strategy list" where
  "selected req listed =
     (if ar_strategy_ids req = [] then listed else filter (\<lambda>s. vs_id s \<in> set (ar_strategy_ids req)) listed)"

definition derive_vault_allocations ::
  "chain_settings \<Rightarrow> vault_strategy list \<Rightarrow> (vault_strategy list \<Rightarrow> strategy_signals list) \<Rightarrow> (string \<Rightarrow> bool \<times> int option) \<Rightarrow>
   allocations_request \<Rightarrow> allocations_response" where
  "derive_vault_allocations ch listed evaluate levels req =
     (let strategies = selected req listed
      in if strategies = []
         then \<lparr>av_allocations = spread_evenly ch (ar_usdc_floor_pct req),
               av_total_bps = total_bps (spread_evenly ch (ar_usdc_floor_pct req)), av_strategy_count = 0,
               av_sized = [], av_excluded = []\<rparr>
         else
           let usdc_floor = fl (ar_usdc_floor_pct req / 100);
               sized = scale_to_budget (size_strategies strategies (ar_risk_profile req) (deployable_ids_of levels req strategies)) (fl (1 - usdc_floor));
               allocs = to_10000 (in_bps ch (kelly_construct None None (kelly_weighted_allocations (evaluate strategies) sized usdc_floor)))
           in \<lparr>av_allocations = allocs, av_total_bps = total_bps allocs, av_strategy_count = length strategies,
               av_sized = filter (\<lambda>(_, frac). 0 < frac) sized,
               av_excluded = sort (map fst (filter (\<lambda>(_, frac). frac \<le> 0) sized))\<rparr>)"

section \<open>Where capital goes\<close>

lemma py_round_0 [simp]: "py_round n 0 = 0"
  using rne_of_int [of 0] by (simp add: py_round_def)

lemma rne_nonneg: "0 \<le> x \<Longrightarrow> 0 \<le> rne x"
  using rne_mono [of 0 x] rne_of_int [of 0] by simp

lemma sized_fraction_pos:
  "0 < sized_fraction mult ids s \<Longrightarrow> sizeable ids s \<and> (\<exists>k. vs_kelly_fraction s = Some k \<and> 0 < k)"
proof -
  assume p: "0 < sized_fraction mult ids s"
  then obtain k where k: "sizeable ids s" "vs_kelly_fraction s = Some k" "0 < py_round 6 (fl (max k 0 * mult))"
    by (auto simp: sized_fraction_def split: if_splits option.splits)
  have "0 < k"
  proof (rule ccontr)
    assume "\<not> 0 < k"
    then have z: "max k 0 * mult = 0" by simp
    show False using k(3) unfolding z by simp
  qed
  then show ?thesis using k by blast
qed

lemma size_strategies_from:
  assumes "map_of (size_strategies strategies profile ids) k = Some v"
  shows "\<exists>s \<in> set strategies. vs_id s = k \<and> v = sized_fraction (kelly_multiplier profile) ids s"
proof -
  have "map_of (fold (\<lambda>s d. AList.update (vs_id s) (f s) d) ss d) k = Some v \<Longrightarrow>
      (\<exists>s \<in> set ss. vs_id s = k \<and> v = f s) \<or> map_of d k = Some v" for f :: "vault_strategy \<Rightarrow> rat" and ss d
  proof (induction ss arbitrary: d)
    case (Cons s ss)
    from Cons.IH [of "AList.update (vs_id s) (f s) d"] Cons.prems show ?case
      by (auto simp: update_conv' split: if_splits)
  qed simp
  from this [of _ strategies "[]"] show ?thesis using assms by (simp add: size_strategies_def)
qed

lemma scale_to_budget_pos:
  assumes "map_of (scale_to_budget d budget) k = Some v" "v \<noteq> 0"
  shows "\<exists>u. map_of d k = Some u \<and> u \<noteq> 0"
  using assms by (auto simp: scale_to_budget_def Let_def map_of_map split: if_splits)

lemma scale_to_budget_nonneg:
  "(\<And>k v. map_of d k = Some v \<Longrightarrow> 0 \<le> v) \<Longrightarrow> map_of (scale_to_budget d budget) k = Some v \<Longrightarrow> v \<noteq> 0 \<Longrightarrow>
   \<exists>u. map_of d k = Some u \<and> 0 < u"
  using scale_to_budget_pos [of d budget k v] by (metis order_le_less)

lemma kelly_multiplier_nonneg: "0 \<le> kelly_multiplier profile"
proof -
  have "0 \<le> (case map_of RISK_AVERSION profile of Some g \<Rightarrow> g | None \<Rightarrow> 3)"
    by (auto simp: RISK_AVERSION_def split: option.split dest!: map_of_SomeD)
  then have "0 \<le> fl (HALF_KELLY_GAMMA / (case map_of RISK_AVERSION profile of Some g \<Rightarrow> g | None \<Rightarrow> 3))"
    by (intro fl_sign) (simp add: HALF_KELLY_GAMMA_def)
  then show ?thesis by (simp add: kelly_multiplier_def Let_def)
qed

definition backed_by :: "vault_strategy list \<Rightarrow> string set option \<Rightarrow> strategy_signals list \<Rightarrow> string \<Rightarrow> bool" where
  "backed_by strategies deployable_ids all_signals asset \<longleftrightarrow>
     list_ex (\<lambda>ss. list_ex (\<lambda>sig. sg_asset sig = asset \<and> 0 < sg_weight sig) (ss_signals ss) \<and>
       list_ex (\<lambda>s. vs_id s = ss_strategy_id ss \<and> sizeable deployable_ids s \<and>
         (case vs_kelly_fraction s of None \<Rightarrow> False | Some k \<Rightarrow> 0 < k)) strategies) all_signals"

lemma add_weight_dom: "fst ` set (add_weight asset v w) = insert asset (fst ` set w)"
  by (simp add: add_weight_def dom_update)

lemma fold_add_weight_dom:
  "fst ` set (fold (\<lambda>sig. add_weight (sg_asset sig) (f sig)) sigs w) = sg_asset ` set sigs \<union> fst ` set w"
  by (induction sigs arbitrary: w) (auto simp: add_weight_dom)

lemma vote_strategy_dom:
  "fst ` set (vote_strategy sized ss w) \<subseteq> fst ` set w \<union>
     (if \<exists>f. map_of sized (ss_strategy_id ss) = Some f \<and> 0 < f then sg_asset ` set (positive_votes ss) else {})"
  by (auto simp: vote_strategy_def Let_def fold_add_weight_dom split: option.splits)

lemma votes_dom:
  "asset \<in> fst ` set (fold (vote_strategy sized) all_signals w) \<Longrightarrow>
   asset \<in> fst ` set w \<or> (\<exists>ss \<in> set all_signals. asset \<in> sg_asset ` set (positive_votes ss) \<and>
     (\<exists>f. map_of sized (ss_strategy_id ss) = Some f \<and> 0 < f))"
proof (induction all_signals arbitrary: w)
  case (Cons ss all_signals)
  from Cons.IH [of "vote_strategy sized ss w"] Cons.prems vote_strategy_dom [of sized ss w] show ?case
    by (auto split: if_splits)
qed simp

lemma kelly_weights_backed:
  assumes "asset \<in> fst ` set (kelly_weighted_allocations all_signals
      (scale_to_budget (size_strategies strategies profile ids) budget) usdc_floor)" "asset \<noteq> ''USDC''"
  shows "backed_by strategies ids all_signals asset"
proof -
  let ?sized = "size_strategies strategies profile ids"
  let ?scaled = "scale_to_budget (scale_to_budget ?sized budget) (fl (1 - usdc_floor))"
  have "asset \<in> fst ` set (fold (vote_strategy ?scaled) all_signals [])"
    using assms by (auto simp: kelly_weighted_allocations_def Let_def dom_update image_image case_prod_beta)
  from votes_dom [OF this] obtain ss f where ss: "ss \<in> set all_signals" "asset \<in> sg_asset ` set (positive_votes ss)"
      "map_of ?scaled (ss_strategy_id ss) = Some f" "0 < f" by (elim disjE bexE conjE exE) simp_all
  obtain u where u: "map_of (scale_to_budget ?sized budget) (ss_strategy_id ss) = Some u" "u \<noteq> 0"
    using scale_to_budget_pos [OF ss(3)] ss(4) by auto
  obtain v where v: "map_of ?sized (ss_strategy_id ss) = Some v" "v \<noteq> 0" using scale_to_budget_pos [OF u] by blast
  obtain s where s: "s \<in> set strategies" "vs_id s = ss_strategy_id ss" "v = sized_fraction (kelly_multiplier profile) ids s"
    using size_strategies_from [OF v(1)] by blast
  have "0 \<le> v"
  proof -
    have "0 \<le> py_round 6 (fl (max k 0 * kelly_multiplier profile))" for k
      unfolding py_round_def using kelly_multiplier_nonneg [of profile]
      by (intro fl_sign divide_nonneg_nonneg of_int_nonneg rne_nonneg mult_nonneg_nonneg) simp_all
    then show ?thesis unfolding s(3) sized_fraction_def by (simp split: option.split)
  qed
  then have "sizeable ids s \<and> (\<exists>k. vs_kelly_fraction s = Some k \<and> 0 < k)" using s(3) v(2) by (intro sized_fraction_pos [of "kelly_multiplier profile"]) simp
  then have "list_ex (\<lambda>s. vs_id s = ss_strategy_id ss \<and> sizeable ids s \<and>
      (case vs_kelly_fraction s of None \<Rightarrow> False | Some k \<Rightarrow> 0 < k)) strategies"
    using s(1,2) unfolding list_ex_iff by (intro bexI [of _ s]) auto
  then show ?thesis using ss(1,2) unfolding backed_by_def list_ex_iff [of _ all_signals]
    by (intro bexI [of _ ss]) (auto simp: list_ex_iff positive_votes_def)
qed

lemma in_bps_symbols: "al_symbol ` set (in_bps ch w) \<subseteq> fst ` set w"
  by (auto simp: in_bps_def intro: rev_image_eqI split: if_splits)

lemma bump_first_symbols: "map al_symbol (bump_first m d xs) = map al_symbol xs"
  by (induction m d xs rule: bump_first.induct) auto

lemma to_10000_symbols: "al_symbol ` set (to_10000 xs) \<subseteq> al_symbol ` set xs"
proof -
  have b: "al_symbol ` set (bump_first m d ys) = al_symbol ` set ys" for m d ys
    using arg_cong [OF bump_first_symbols [of m d ys], of set] by simp
  show ?thesis by (auto simp: to_10000_def Let_def b image_iff)
qed

text \<open>
  C39: Whatever the signals say, when the request selects at least one listed strategy, a derived allocation to anything but
  USDC is backed by a positive vote of a selected strategy that passes at the chosen strictness and has a positive Kelly
  fraction.  When it selects none (the catalogue is empty, or no id of the request is in it), the answer is the even split over
  the synthetic assets, without any vote or gate, and it says that it rests on no strategy.
\<close>

theorem only_gate_passers_get_capital:
  "let r = derive_vault_allocations ch listed evaluate levels req; chosen = selected req listed
   in if chosen = []
      then av_allocations r = spread_evenly ch (ar_usdc_floor_pct req) \<and> av_strategy_count r = 0
      else list_all (\<lambda>a. al_symbol a = ''USDC'' \<or>
        backed_by chosen (deployable_ids_of levels req chosen) (evaluate chosen) (al_symbol a)) (av_allocations r)"
proof (cases "selected req listed = []")
  case False
  let ?chosen = "selected req listed"
  let ?ids = "deployable_ids_of levels req ?chosen"
  have "al_symbol a = ''USDC'' \<or> backed_by ?chosen ?ids (evaluate ?chosen) (al_symbol a)"
    if "a \<in> set (av_allocations (derive_vault_allocations ch listed evaluate levels req))" for a
  proof -
    let ?w = "kelly_weighted_allocations (evaluate ?chosen)
      (scale_to_budget (size_strategies ?chosen (ar_risk_profile req) ?ids) (fl (1 - fl (ar_usdc_floor_pct req / 100))))
      (fl (ar_usdc_floor_pct req / 100))"
    have "a \<in> set (to_10000 (in_bps ch ?w))"
      using that False by (simp add: derive_vault_allocations_def Let_def kelly_construct_def kelly_position_scale_def)
    then have "al_symbol a \<in> al_symbol ` set (to_10000 (in_bps ch ?w))" by (rule imageI)
    then have "al_symbol a \<in> fst ` set ?w" by (rule subsetD [OF order_trans [OF to_10000_symbols in_bps_symbols]])
    then show ?thesis using kelly_weights_backed by blast
  qed
  with False show ?thesis by (simp add: Let_def list_all_iff)
qed (simp add: Let_def derive_vault_allocations_def)

section \<open>The total\<close>

lemma total_bps_bump:
  "m \<in> set (map al_weight_bps xs) \<Longrightarrow> total_bps (bump_first m d xs) = total_bps xs + d"
  by (induction m d xs rule: bump_first.induct) (auto simp: total_bps_def)

lemma total_bps_pos: "list_all (\<lambda>a. 0 < al_weight_bps a) xs \<Longrightarrow> xs \<noteq> [] \<Longrightarrow> 0 < total_bps xs"
proof (induction xs)
  case (Cons x xs)
  then show ?case by (cases "xs = []") (auto simp: total_bps_def)
qed simp

lemma to_10000_total:
  assumes "list_all (\<lambda>a. 0 < al_weight_bps a) xs"
  shows "total_bps (to_10000 xs) = 10000 \<or> to_10000 xs = []"
proof (cases "0 < total_bps xs \<and> total_bps xs \<noteq> 10000")
  case False
  then show ?thesis using total_bps_pos [OF assms] by (cases "xs = []") (auto simp: to_10000_def Let_def)
next
  case True
  define ys where "ys = filter (\<lambda>a. 0 < al_weight_bps a)
    (map (\<lambda>a. a\<lparr>al_weight_bps := rne (fl (of_int (al_weight_bps a) * fl (10000 / of_int (total_bps xs))))\<rparr>) xs)"
  have e: "to_10000 xs = (if total_bps ys \<noteq> 10000 \<and> ys \<noteq> []
      then bump_first (Max (set (map al_weight_bps ys))) (10000 - total_bps ys) ys else ys)"
    using True unfolding to_10000_def Let_def ys_def by simp
  show ?thesis
  proof (cases "total_bps ys \<noteq> 10000 \<and> ys \<noteq> []")
    case True
    then have "Max (set (map al_weight_bps ys)) \<in> set (map al_weight_bps ys)" by (intro Max_in) simp_all
    then show ?thesis using True total_bps_bump [of _ ys "10000 - total_bps ys"] unfolding e by simp
  qed (use e in auto)
qed

lemma in_bps_pos: "list_all (\<lambda>a. 0 < al_weight_bps a) (in_bps ch w)"
  by (auto simp: in_bps_def list_all_iff split: if_splits)

lemma total_bps_append: "total_bps (xs @ ys) = total_bps xs + total_bps ys"
  by (simp add: total_bps_def)

lemma total_bps_Cons: "total_bps (a # xs) = al_weight_bps a + total_bps xs"
  by (simp add: total_bps_def)

lemma sum_spread:
  "total_bps (map (\<lambda>(i, (symbol, addr)). \<lparr>al_symbol = symbol, al_token_address = addr,
      al_weight_bps = per + (if int i < r then 1 else 0)\<rparr>) (enumerate s xs)) =
   per * int (length xs) + (min (max r (int s)) (int (s + length xs)) - int s)"
proof (induction xs arbitrary: s)
  case Nil
  then show ?case by (simp add: total_bps_def)
next
  case (Cons x xs)
  have "per + (if int s < r then 1 else 0) + (per * int (length xs) + (min (max r (int (Suc s))) (int (Suc s + length xs)) - int (Suc s))) =
      per * int (length (x # xs)) + (min (max r (int s)) (int (s + length (x # xs))) - int s)"
    by (simp add: distrib_left min_def max_def)
  then show ?case using Cons.IH [of "Suc s"] by (simp add: total_bps_Cons case_prod_beta)
qed

lemma spread_total:
  "total_bps (spread_evenly ch pct) =
   (if filter (\<lambda>(_, addr). addr \<noteq> []) (ch_synth_addresses ch) = [] then py_trunc (fl (pct * 100)) else 10000)"
proof -
  let ?s = "filter (\<lambda>(_, addr). addr \<noteq> []) (ch_synth_addresses ch)"
  let ?b = "10000 - py_trunc (fl (pct * 100))"
  let ?n = "int (length ?s)"
  let ?per = "?b div int (max (length ?s) 1)"
  have t: "total_bps (spread_evenly ch pct) =
      ?per * ?n + min (max (?b - ?per * ?n) 0) ?n + py_trunc (fl (pct * 100))"
    unfolding spread_evenly_def Let_def total_bps_append sum_spread by (simp add: total_bps_Cons total_bps_def)
  show ?thesis
  proof (cases "?s = []")
    case False
    then have "0 < length ?s" by (simp only: length_greater_0_conv) simp
    then have n: "0 < ?n" "int (max (length ?s) 1) = ?n" by linarith+
    have m: "?b - ?per * ?n = ?b mod ?n" unfolding n(2) by (simp add: minus_div_mult_eq_mod)
    have "min (max (?b - ?per * ?n) 0) ?n = ?b - ?per * ?n"
      unfolding m using pos_mod_sign [OF n(1), of ?b] pos_mod_bound [OF n(1), of ?b] by linarith
    then show ?thesis unfolding t if_not_P [OF False] by simp
  next
    case True
    show ?thesis unfolding t unfolding True by simp
  qed
qed

text \<open>
  C40: The derived allocations total exactly 10000 basis points whenever there is anything to allocate, on the even split
  as on the sized one; the even split without any synthetic asset totals the USDC floor alone.
\<close>

theorem allocations_total:
  "let r = derive_vault_allocations ch listed evaluate levels req
   in av_total_bps r = total_bps (av_allocations r) \<and>
      (if selected req listed = []
       then av_total_bps r = (if filter (\<lambda>(_, addr). addr \<noteq> []) (ch_synth_addresses ch) = []
                              then py_trunc (fl (ar_usdc_floor_pct req * 100)) else 10000)
       else av_total_bps r = 10000 \<or> av_allocations r = [])"
  using spread_total to_10000_total [OF in_bps_pos] by (simp add: derive_vault_allocations_def Let_def)

end
