(* ===== verification/Spec2Isabelle.thy ===== *)
theory Spec2Isabelle
  imports RunLifecycle RigorGate Lease TickMoney DslLive Lookahead OracleHealth Visibility RigorCache PaperMarks Leaderboard ApiKeys RpcBackoff CardParity RevenueSweep VaultSizing
begin

text \<open>
  A verification development for Archimedes (aprin-labs/archimedes): the parts of the Python backend that decide
  who may generate a strategy and who pays for it, what a strategy is and whether its live signal is the one
  that was backtested, what is traded and charged for a subscriber, what a paper deployment records, and who may
  read or act.

  \<^bold>\<open>The program and its parts.\<close> A client starts a generation with a POST
  (\<^verbatim>\<open>api/generate_routes.py\<close>). The start passes the daily quota, a waiting-room check
  and a screen of the brief, is funded by a lifetime free slot, an unspent credit or an on-line payment, is
  written to the job store in Redis, and only then spends what funded it. A background task waits at a
  concurrency gate, runs the pipeline and, when it ends without a strategy, refunds. What is generated is a
  document of the strategy language: it is validated, backtested, audited for look-ahead and graded; the rigor
  gate judges the grade at a strictness level and a cache keeps verdicts. A deployed strategy is evaluated live
  on a window of prices. The marketplace engine runs one tick per strategy: thirteen steps, each charged to
  every subscriber before it runs, then trades, liabilities and a sweep of the collected fees. A paper
  deployment replays its strategy every day into a ledger that is only appended to, publishes a trace of every
  decision and is marked during the day. Boards rank strategies and deployments. A long-lived runner acts only
  while it holds a lease. All paths below are under \<^verbatim>\<open>src/backend/archimedes/\<close>.

  \<^bold>\<open>Foundations.\<close>

  \<^item> \<^verbatim>\<open>Prelude\<close>: the exceptions of the model (\<^verbatim>\<open>exn\<close>),
  results (\<^verbatim>\<open>op\<close>: an exception or a value, and the state), tables with an auto-increment
  key, the environment as a map, the string operations of Python the code calls, and the locales that several
  components share: \<^verbatim>\<open>step_invariant\<close> (what every step keeps, every run keeps),
  \<^verbatim>\<open>refinement\<close> (related states answer alike) and
  \<^verbatim>\<open>refund_ledger\<close> (a refund happens once).

  \<^item> \<^verbatim>\<open>PyFloat\<close>: finite doubles as the rationals they denote;
  \<^verbatim>\<open>fl\<close> rounds to the nearest double, ties to even, with gradual underflow, and every
  float operation of the source is the exact one followed by \<^verbatim>\<open>fl\<close>. The locale
  \<^verbatim>\<open>rounding\<close> states the laws its callers use (order, sign, idempotence). Where the
  source can meet infinities or a NaN the type is \<^verbatim>\<open>float_val\<close> of
  \<^verbatim>\<open>StrategyDsl\<close>.

  \<^item> \<^verbatim>\<open>PyDecimal\<close>: decimal numbers with the default context of 28 digits.

  \<^item> \<^verbatim>\<open>Redis\<close>: the commands the code issues over a map from keys to values with
  expiry instants, sorted sets included; wrong types are errors.

  \<^bold>\<open>Generation and its funding.\<close>

  \<^item> \<^verbatim>\<open>Credits\<close>: \<^verbatim>\<open>models/generation_credit.py\<close> and
  \<^verbatim>\<open>services/generation_credits.py\<close>, every function, session failures included. Any
  sequence of operations never creates more credits than settlements; a settled key never again grants the right
  to charge; a refund is given once.

  \<^item> \<^verbatim>\<open>FreeGrants\<close>: \<^verbatim>\<open>models/free_generation_grant.py\<close> and
  \<^verbatim>\<open>services/free_generations.py\<close>. The lifetime allowance holds for every sequential
  run, and for concurrent claims when each reads one snapshot; under read-committed statements it does not,
  which is proved by a schedule. \<^verbatim>\<open>Books\<close> counts over the two ledgers.

  \<^item> \<^verbatim>\<open>JobStore\<close>: \<^verbatim>\<open>services/job_queue.py\<close>. A cancelled
  job stays cancelled, an expired job is not brought back by a late write, the event log resumes exactly after
  the last event seen.

  \<^item> \<^verbatim>\<open>ClientIp\<close> and \<^verbatim>\<open>Quota\<close>:
  \<^verbatim>\<open>services/client_ip.py\<close> and \<^verbatim>\<open>services/generation_quota.py\<close>.
  Addresses of one IPv6 /64 share a key (128-bit words), and on one day no account and no address is let through
  more often than its cap.

  \<^item> \<^verbatim>\<open>Payment\<close> and \<^verbatim>\<open>Receipts\<close>:
  \<^verbatim>\<open>services/generation_payment.py\<close>, \<^verbatim>\<open>marketplace/config.py\<close>,
  parts of \<^verbatim>\<open>marketplace/payments.py\<close>, \<^verbatim>\<open>services/model_gate.py\<close>
  and \<^verbatim>\<open>models/payment_receipt.py\<close>. Value moves at most once per call, only in live
  mode, only to a configured recipient, only for the linked wallet. \<^verbatim>\<open>RevenueSweep\<close>:
  \<^verbatim>\<open>services/revenue_sweep.py\<close>; a tick withdraws at most once, never while halted, and
  at most what is available less the reserve.

  \<^item> \<^verbatim>\<open>Generate\<close> and \<^verbatim>\<open>RunLifecycle\<close>:
  \<^verbatim>\<open>start_generation\<close> and what it calls over the record
  \<^verbatim>\<open>world\<close>; the cleanup of a run, refunds, timeouts, cancellation, listing and the
  admission gate. With working sessions and a facilitator that behaves as documented, a start that runs alone costs
  nothing when it fails, but for a settlement lost in flight, and exactly one slot, charge or credit when it
  succeeds; a run that is seen to end without a strategy leaves the account as it was; jobs of other accounts
  look absent. Concurrent starts and lost settlements have theorems of their own.

  \<^bold>\<open>The strategy language.\<close>

  \<^item> \<^verbatim>\<open>StrategyDsl\<close>: the validator
  \<^verbatim>\<open>services/strategy_dsl.py\<close> and the evaluation of conditions in
  \<^verbatim>\<open>services/dsl_to_backtrader.py\<close>. A validated condition in canonical spelling has a truth value on
  every bar with its operands; what \<^verbatim>\<open>to_dict\<close> writes validates to the same specification.

  \<^item> \<^verbatim>\<open>DslReplay\<close>, \<^verbatim>\<open>DslVariants\<close> and
  \<^verbatim>\<open>DslLive\<close>: the two interpreters
  (\<^verbatim>\<open>services/dsl_to_backtrader.py\<close> and
  \<^verbatim>\<open>services/strategy_signal_evaluator.py\<close>), parameter variants, sizing and the live
  signal. On shared indicator values, closes only and a broker that fills every order, the live signal
  is flat exactly when the backtest is out of the market after the same bars; a variant of a canonically spelled
  specification binds exactly the indicators its conditions read. Cases in which the interpreters disagree are
  theorems of their own.

  \<^item> \<^verbatim>\<open>BarAccess\<close> and \<^verbatim>\<open>Lookahead\<close>:
  \<^verbatim>\<open>services/dsl_lookahead_audit.py\<close>. When the pass over the syntax tree finds no
  violation, every bar offset it found is at most 0, as long as the names it counted as proven are not negative.
  \<^verbatim>\<open>CardParity\<close>: \<^verbatim>\<open>services/passport_spec_parity.py\<close>, the card
  shows what the validated document says, field by field.

  \<^item> \<^verbatim>\<open>RigorGate\<close> and \<^verbatim>\<open>RigorCache\<close>:
  \<^verbatim>\<open>services/rigor_profiles.py\<close>, the decision of
  \<^verbatim>\<open>services/rigor_evaluator.py\<close>,
  \<^verbatim>\<open>services/live_rigor_gate.py\<close>; and \<^verbatim>\<open>services/rigor_cache.py\<close>
  as interleaved acts of threads. A strategy passes at a level exactly when its minimum passing level is not
  above it, no level bypasses a correctness floor; at most one thread has the computation of a key registered, and
  the fifth act of that thread at the latest releases those that wait.

  \<^bold>\<open>The marketplace and the venues.\<close>

  \<^item> \<^verbatim>\<open>SpendCap\<close>: \<^verbatim>\<open>marketplace/spend_cap.py\<close>. The sorted
  set of a wallet refines the plain list of its reservations, and as long as Redis answers in no 24 hours do the granted ones
  reach the cap.

  \<^item> \<^verbatim>\<open>Charging\<close>: \<^verbatim>\<open>marketplace/tick_registry.py\<close>, the
  settlement intents, and the charge of one subscriber for one step in
  \<^verbatim>\<open>marketplace/service.py\<close>. Any number of attempts that interleave, crash and are
  retried move value at most once per logical charge.

  \<^item> \<^verbatim>\<open>Market\<close>, \<^verbatim>\<open>Tick\<close> and
  \<^verbatim>\<open>TickMoney\<close>: \<^verbatim>\<open>marketplace/state.py\<close> and
  \<^verbatim>\<open>marketplace/service.py\<close>. The locale \<^verbatim>\<open>tick_frame\<close> lifts what
  one charge, log row and sweep satisfy to the whole tick, and is interpreted for the kill switch and for who is
  billed for what. \<^verbatim>\<open>Sweep\<close>: \<^verbatim>\<open>marketplace/settlement.py\<close>.

  \<^item> \<^verbatim>\<open>Sizing\<close>, \<^verbatim>\<open>VCheck\<close> and
  \<^verbatim>\<open>Execution\<close>: from votes to weights, the check before a rebalance, and
  \<^verbatim>\<open>execution/core.py\<close> with the paper venue. Exactly the priced symbols that drifted by
  the threshold are traded; applying a tick again does nothing. The locale
  \<^verbatim>\<open>settling_venue\<close> states what a venue promises the core.
  \<^verbatim>\<open>VaultSizing\<close>: \<^verbatim>\<open>services/strategy_sizer.py\<close> and the
  route of \<^verbatim>\<open>api/vaults_routes.py\<close> that derives the allocations of a vault, which total
  10000 basis points and give capital only to what a selected strategy past the gate votes
  for; a request that selects none gets the even split.

  \<^item> \<^verbatim>\<open>OracleHealth\<close>: \<^verbatim>\<open>services/oracle_health.py\<close>. The
  searches for a trading day end within a week, and a stale equity price is excused only while no session has opened
  since its update, other than that of the day of an update before the opening.

  \<^bold>\<open>Paper deployments, boards, access.\<close>

  \<^item> \<^verbatim>\<open>PaperReplay\<close>, \<^verbatim>\<open>PaperLedger\<close> and
  \<^verbatim>\<open>PaperMarks\<close>: \<^verbatim>\<open>services/paper_trading.py\<close>,
  \<^verbatim>\<open>services/paper_trace.py\<close>, \<^verbatim>\<open>models/paper_store.py\<close> and
  \<^verbatim>\<open>services/paper_marks.py\<close>. The ledger is only appended to, a published trace is
  final, every decision is accounted for unless a stored status is unknown; a pass isolates the exceptions
  of deployments but loses the cycle when a flush of their shared session fails; a tick of marks adds only fresh
  rows, and retention is the policy of its three tiers.

  \<^item> \<^verbatim>\<open>Leaderboard\<close>: \<^verbatim>\<open>services/leaderboard.py\<close>, the live
  part of \<^verbatim>\<open>api/leaderboard_routes.py\<close>, and the Benjamini-Hochberg correction of
  \<^verbatim>\<open>services/rigor_evaluator.py\<close> and
  \<^verbatim>\<open>services/_rigor_helpers.py\<close>. The correction equals a counting rule and does not
  depend on the view; conviction is bounded and monotone; the live board states what the summaries of the
  deployments state.

  \<^item> \<^verbatim>\<open>ApiKeys\<close>: \<^verbatim>\<open>models/api_key.py\<close>,
  \<^verbatim>\<open>api/api_key_auth.py\<close>, \<^verbatim>\<open>api/api_key_routes.py\<close>. A token
  authenticates the account that created it until that account revokes it, and nothing else authenticates.
  \<^verbatim>\<open>Visibility\<close>: \<^verbatim>\<open>services/strategy_visibility.py\<close> and
  \<^verbatim>\<open>services/trace_visibility.py\<close>.

  \<^item> \<^verbatim>\<open>Lease\<close>: the lease scripts of
  \<^verbatim>\<open>services/redis_state.py\<close> and \<^verbatim>\<open>services/runner_lease.py\<close>, as
  steps of processes whose calls are in flight between them: a coroutine asks, Redis serves or the call is lost, a
  release by signal can fall in between. Two guards that hold tokens and are valid within their lease are the same
  guard; a guard without a token can be valid only after a signal, and a schedule shows that it then is.

  \<^item> \<^verbatim>\<open>RpcBackoff\<close>: \<^verbatim>\<open>chain/rate_limit.py\<close>, the request
  loop of \<^verbatim>\<open>chain/client.py\<close> and \<^verbatim>\<open>deadline.py\<close>. A call to a
  throttling endpoint ends by its deadline, up to the lateness of a wake-up, and only a completed response clears the backoff.

  \<^bold>\<open>How the code is rendered.\<close> Tables are lists of records; a service function that opens a
  session takes a flag that says whether the session succeeds, so every failure branch is a value. Instants are
  arguments, in the unit the code counts them in; keys of Redis expire at an instant. Integers of Python are
  integers, addresses are 128-bit words. Concurrency is a step function or relation whose commands name the
  process and what happens to it, and the properties quantify over all lists of commands. What the code calls
  and does not contain is an argument: the payment facilitator (\<^verbatim>\<open>gateway\<close>), Circle and
  the chain (\<^verbatim>\<open>charge_io\<close>, \<^verbatim>\<open>sweep_io\<close>,
  \<^verbatim>\<open>tick_world\<close>), pandas and backtrader indicators, the broker and the graded engine
  with its price panel, \<^verbatim>\<open>pow\<close> on floats, the conversion of time zones, hash functions
  and random bytes. The few hypotheses about them are named (\<^verbatim>\<open>documented\<close>,
  \<^verbatim>\<open>dependable\<close>) or are premises of the theorem.

  \<^bold>\<open>Bounds and fuel.\<close> No definition uses fuel. Loops are recursions on lists or carry a
  measure: the search for a trading day moves at most seven days; the fixpoint of the bar-access
  pass makes the eight rounds the source allows; the store of the rigor cache evicts down to 256 entries; one pass over a deployment attempts at most the configured number of traces
  (500 by default). The request loop of the chain client recurses on what its environment does, and its theorem
  shows that 128 attempts for each second of budget are never used up.

  \<^bold>\<open>Not modelled.\<close> The agents, prompts and language-model calls of the generation pipeline
  and the screen of a brief, market data and regime models, portfolio optimisation and the statistics behind a
  grade, which are numerical or external; transactions and event reads of the chain runtime; signatures,
  sessions and key custody; assembly of response documents, routes that only parse requests around the services
  above, telemetry, wiring and migrations; the analytics engine, the command line and MCP clients, and
  everything that is not Python. Of the modelled files, prose texts, log lines, connection handling and the
  rendering of rows as JSON are left out; the manifest says so for each component.

  \<^bold>\<open>What could follow.\<close> The time and embargo filters of retrieval, the remaining vault routes
  and the oracle updater would extend the venues; the assembly of a passport from its stored
  grade would join the rigor gate to the boards.
\<close>

end
